(* ===== verification/Fox_Prelude.thy ===== *)
theory Fox_Prelude
  imports Main "HOL-Library.Word"
begin

text \<open>
  Shared vocabulary of the development: the widths of the C integers the engine uses, the
  word-level idioms that occur in many headers (mask blends, negation masks, lowest set
  bit), and generic lemmas that move word arithmetic to \<^typ>\<open>nat\<close> and \<^typ>\<open>int\<close>.
\<close>

unbundle bit_operations_syntax

type_synonym u8 = "8 word"
type_synonym u16 = "16 word"
type_synonym u32 = "32 word"
type_synonym u64 = "64 word"
type_synonym u128 = "128 word"

named_theorems fox_defs \<open>definitions of the small accessors of the model\<close>
named_theorems word_nat \<open>word operations read as natural-number operations\<close>

subsection \<open>Words as natural numbers\<close>

lemma unat_bound: "unat (w :: 'a::len word) < 2 ^ LENGTH('a)"
  by (rule unsigned_less)

lemma unat_bound_128: "unat (w :: u128) < 2 ^ 128"
  using unat_bound [of w] by simp

lemma unat_bound_64: "unat (w :: u64) < 2 ^ 64"
  using unat_bound [of w] by simp

lemma unat_add_fit:
  "unat (a :: 'a::len word) + unat b < 2 ^ LENGTH('a) \<Longrightarrow> unat (a + b) = unat a + unat b"
  by (simp add: unat_add_lem)

lemma unat_mult_fit:
  "unat (a :: 'a::len word) * unat b < 2 ^ LENGTH('a) \<Longrightarrow> unat (a * b) = unat a * unat b"
  by (simp add: unat_mult_lem)

lemma unat_diff_fit: "unat b \<le> unat (a :: 'a::len word) \<Longrightarrow> unat (a - b) = unat a - unat b"
  by (simp add: unat_sub word_le_nat_alt)

lemma unat_take_bit_mod [word_nat]: "unat (take_bit n (w :: 'a::len word)) = unat w mod 2 ^ n"
  unfolding unsigned_take_bit_eq by (simp only: take_bit_eq_mod)

lemma unat_drop_bit_div [word_nat]: "unat (drop_bit n (w :: 'a::len word)) = unat w div 2 ^ n"
  unfolding unat_drop_bit_eq by (simp only: drop_bit_eq_div)

lemma unat_push_bit_mod [word_nat]:
  "unat (push_bit n (w :: 'a::len word)) = (unat w * 2 ^ n) mod 2 ^ LENGTH('a)"
  unfolding unsigned_push_bit_eq by (simp only: take_bit_eq_mod push_bit_eq_mult)

lemma unat_push_or_take:
  "unat (push_bit n (a :: 'a::len word) OR take_bit n b) = unat (push_bit n a) + unat (take_bit n b)"
proof -
  have z: "push_bit n a AND take_bit n b = 0"
    by (rule bit_word_eqI) (auto simp: bit_simps)
  have z': "unat (push_bit n a) AND unat (take_bit n b) = 0"
    by (simp only: unsigned_and_eq [symmetric] z unsigned_0)
  show ?thesis
    by (simp only: unsigned_or_eq disjunctive_add_eq_or [OF z'])
qed

lemma unat_ucast_up:
  "LENGTH('a::len) \<le> LENGTH('b::len) \<Longrightarrow> unat (ucast (w :: 'a word) :: 'b word) = unat w"
proof -
  assume le: "LENGTH('a) \<le> LENGTH('b)"
  have "(2 :: nat) ^ LENGTH('a) \<le> 2 ^ LENGTH('b)" by (rule power_increasing [OF le]) simp
  then have "unat w < 2 ^ LENGTH('b)" using unat_bound [of w] by linarith
  then show ?thesis by (simp add: unsigned_ucast_eq take_bit_nat_eq_self)
qed

lemma take_bit_small: "unat c < 2 ^ n \<Longrightarrow> take_bit n (c :: 'a::len word) = c"
  by (simp only: word_unat_eq_iff unat_take_bit_mod mod_less)

lemma unat_flag [simp]: "unat (of_bool p :: 'a::len word) = of_bool p"
  by (cases p) simp_all

lemma even_unat_128: "even (unat (d :: u128)) = even d"
  by (simp only: even_iff_mod_2_eq_zero word_unat_eq_iff unat_mod) simp

lemma even_unat_64: "even (unat (d :: u64)) = even d"
  by (simp only: even_iff_mod_2_eq_zero word_unat_eq_iff unat_mod) simp

lemma and_one_flag: "d AND 1 = (of_bool (odd d) :: 'a::len word)"
  by (simp add: and_one_eq mod2_eq_if)

lemma unat_push_or_small:
  "unat c < 2 ^ n \<Longrightarrow> unat a * 2 ^ n < 2 ^ LENGTH('a) \<Longrightarrow>
   unat (push_bit n (a :: 'a::len word) OR c) = unat a * 2 ^ n + unat c"
  using unat_push_or_take [of n a c] by (simp only: take_bit_small unat_push_bit_mod mod_less)

subsection \<open>Mask idioms\<close>

text \<open>
  The code blends two values with a mask that is all zeros or all ones:
  \<open>(a & ~m) | (b & m)\<close>; \<open>m\<close> is made by negating a flag that is 0 or 1.
\<close>

definition mask_blend :: "'a::len word \<Rightarrow> 'a word \<Rightarrow> 'a word \<Rightarrow> 'a word" where
  "mask_blend m x y = (x AND m) OR (y AND NOT m)"

lemma mask_blend_of_bool [simp]: "mask_blend (- of_bool c) x y = (if c then x else y)"
  by (simp add: mask_blend_def)

lemma neg_flag_and_or [simp]:
  "(x AND NOT (- of_bool c)) OR (y AND - of_bool c) = (if c then (y :: 'a::len word) else x)"
  by simp

lemma zero_minus_flag [simp]: "(0 :: 'a::len word) - of_bool c = - of_bool c"
  by simp

lemma xor_minus_one: "(v XOR - 1 :: 'a::len word) = NOT v"
  by (rule bit_word_eqI) (auto simp: bit_simps)

lemma or_of_bool_word: "of_bool p OR of_bool q = (of_bool (p \<or> q) :: 'a::len word)"
  by (cases p; cases q) simp_all

lemma and_of_bool_word: "of_bool p AND of_bool q = (of_bool (p \<and> q) :: 'a::len word)"
  by (cases p; cases q) simp_all

subsection \<open>Signed reading of a word\<close>

lemma sint_zero_iff [simp]: "sint (v :: 'a::len word) = 0 \<longleftrightarrow> v = 0"
  by (metis signed_0 signed_word_eqI)

lemma sint_range_128: "- (2 ^ 127) \<le> sint (v :: u128)" "sint (v :: u128) < 2 ^ 127"
  using sint_ge [of v] sint_lt [of v] by simp_all

lemma sign_div:
  assumes "- b \<le> z" "z < (b :: int)"
  shows "z div b = (if z < 0 then - 1 else 0)"
proof (cases "z < 0")
  case True
  then have "z div b = - 1"
    using assms by (intro int_div_pos_eq [of _ _ _ "z + b"]) simp_all
  then show ?thesis using True by simp
next
  case False
  then show ?thesis using assms by simp
qed

lemma signed_drop_sign: "signed_drop_bit 127 (v :: u128) = (if sint v < 0 then - 1 else 0)"
proof -
  have "sint (signed_drop_bit 127 v) = sint v div 2 ^ 127"
    by (simp add: sint_signed_drop_bit_eq drop_bit_eq_div)
  also have "\<dots> = (if sint v < 0 then - 1 else 0)"
    by (rule sign_div) (use sint_range_128 [of v] in simp_all)
  finally have "sint (signed_drop_bit 127 v) = sint (if sint v < 0 then - 1 else 0 :: u128)"
    by simp
  then show ?thesis by (simp only: signed_word_eqI)
qed

lemma sint_cases_128:
  "sint (v :: u128) = (if uint v < 2 ^ 127 then uint v else uint v - 2 ^ 128)"
proof -
  have b: "0 \<le> uint v" "uint v < 2 ^ 128"
    using uint_lt2p [of v] by simp_all
  have "sint v = (uint v + 2 ^ 127) mod 2 ^ 128 - 2 ^ 127"
    by (simp add: sint_uint signed_take_bit_eq_take_bit_shift take_bit_eq_mod)
  also have "\<dots> = (if uint v < 2 ^ 127 then uint v else uint v - 2 ^ 128)"
  proof (cases "uint v < 2 ^ 127")
    case True
    then show ?thesis using b by simp
  next
    case False
    have "(uint v + 2 ^ 127) mod 2 ^ 128 = (uint v + 2 ^ 127 - 2 ^ 128) mod 2 ^ 128"
      by (simp only: mod_diff_right_eq [symmetric, of "uint v + 2 ^ 127" "2 ^ 128"] mod_self diff_zero)
    also have "\<dots> = uint v + 2 ^ 127 - 2 ^ 128"
      using False b by (intro mod_pos_pos_trivial) simp_all
    finally show ?thesis using False by simp
  qed
  finally show ?thesis .
qed

lemma uint_of_sint_nonneg: "0 \<le> sint (v :: u128) \<Longrightarrow> uint v = sint v"
  using uint_lt2p [of v] by (simp add: sint_cases_128 split: if_splits)

lemma uint_of_sint_neg: "sint (v :: u128) < 0 \<Longrightarrow> uint v = sint v + 2 ^ 128"
  using uint_lt2p [of v] by (simp add: sint_cases_128 split: if_splits)

lemma sint_word_of_int_128:
  "- (2 ^ 127) \<le> z \<Longrightarrow> z < 2 ^ 127 \<Longrightarrow> sint (word_of_int z :: u128) = z"
  by (simp add: sint_sbintrunc' signed_take_bit_int_eq_self)

lemma uint_sint_mod: "uint (w :: 'a::len word) = sint w mod 2 ^ LENGTH('a)"
  using uint_word_of_int_eq [where 'a = 'a, of "sint w"] by (simp add: take_bit_eq_mod)

lemma int_unat_abs_word:
  "int (unat (if sint w < 0 then - w else (w :: 'a::len word))) = \<bar>sint w\<bar>"
proof -
  have p: "(2 :: int) ^ (LENGTH('a) - 1) < 2 ^ LENGTH('a)" by (rule power_strict_increasing) simp_all
  have lo: "- sint w < 2 ^ LENGTH('a)" "sint w < 2 ^ LENGTH('a)"
    using sint_ge [of w] sint_lt [of w] p by linarith+
  have "uint (- w) = uint (word_of_int (- sint w) :: 'a word)" by simp
  then have "uint (- w) = (- sint w) mod 2 ^ LENGTH('a)"
    by (simp only: uint_word_of_int_eq take_bit_eq_mod)
  then have "uint (- w) = - sint w" if "sint w < 0"
    using that lo by simp
  moreover have "uint w = sint w" if "0 \<le> sint w"
    using that lo by (simp add: uint_sint_mod)
  ultimately show ?thesis by (simp add: uint_nat [symmetric] abs_if)
qed

lemma int_unat_less_iff: "unat v < n \<longleftrightarrow> uint v < int n"
  by (metis of_nat_less_iff int_nat_eq uint_nat of_nat_unat)

lemma sint_of_unat_small: "unat (v :: u128) < 2 ^ 127 \<Longrightarrow> sint v = int (unat v)"
  by (simp only: sint_cases_128 int_unat_less_iff uint_nat) simp

lemma sint_neg_small:
  assumes "unat (v :: u128) < 2 ^ 127"
  shows "sint (- v) = - int (unat v)"
proof -
  have u: "uint v < 2 ^ 127"
    using assms by (simp only: int_unat_less_iff) simp
  have p: "0 \<le> uint v" by (rule uint_ge_0)
  have "sint (word_of_int (- uint v) :: u128) = - uint v"
    by (rule sint_word_of_int_128) (use u p in linarith)+
  then show ?thesis by simp
qed

lemma msb_uint_128: "sint (v :: u128) < 0 \<longleftrightarrow> 2 ^ 127 \<le> unat v"
proof -
  have "sint v < 0 \<longleftrightarrow> \<not> uint v < 2 ^ 127"
    using uint_lt2p [of v] uint_ge_0 [of v] by (simp add: sint_cases_128)
  also have "\<dots> \<longleftrightarrow> \<not> unat v < 2 ^ 127"
    by (simp only: int_unat_less_iff) simp
  finally show ?thesis by (simp only: not_less)
qed
end
