(* ===== verification/Fixed_Core.thy ===== *)
theory Fixed_Core
  imports Fox_Prelude
begin

text \<open>
  The integer kernel of \<^verbatim>\<open>src/FixedPoint/FixedPointN.hpp\<close>: the branchless 128-bit sign
  helpers, the 128 x 128 to 256 bit product, the restoring long division, the reciprocal
  division by \<open>10 ^ 8\<close> and the half-even rounding step.  \<^typ>\<open>u128\<close> stands for both
  \<^verbatim>\<open>__int128\<close> (read with \<^const>\<open>sint\<close>) and \<^verbatim>\<open>unsigned __int128\<close> (read with \<open>unat\<close>);
  a C \<open>int\<close> that is only ever a 0/1 flag is a \<^typ>\<open>bool\<close>.
\<close>

subsection \<open>Sign helpers\<close>

definition i128_abs :: "u128 \<Rightarrow> u128" where
  "i128_abs v = (let s = signed_drop_bit 127 v in (v XOR s) - s)"

definition i128_cneg :: "u128 \<Rightarrow> bool \<Rightarrow> u128" where
  "i128_cneg v neg = (let m = - (of_bool neg) in (v XOR m) - m)"

lemma i128_abs_word: "i128_abs v = (if sint v < 0 then - v else v)"
  by (simp add: i128_abs_def signed_drop_sign xor_minus_one not_eq_complement)

lemma i128_cneg_word: "i128_cneg v neg = (if neg then - v else v)"
  by (simp add: i128_cneg_def xor_minus_one not_eq_complement)

lemma int_unat_i128_abs: "int (unat (i128_abs v)) = \<bar>sint v\<bar>"
proof (cases "sint v < 0")
  case True
  have "uint (- v) = (2 ^ 128 - uint v) mod 2 ^ 128"
    by (simp add: uint_word_ariths zmod_zminus1_eq_if mod_diff_left_eq [of "2 ^ 128", symmetric])
  also have "2 ^ 128 - uint v = - sint v"
    using True by (simp add: uint_of_sint_neg)
  also have "(- sint v) mod 2 ^ 128 = - sint v"
    using True sint_range_128 [of v] by (intro mod_pos_pos_trivial) simp_all
  finally show ?thesis using True by (simp add: i128_abs_word)
next
  case False
  then show ?thesis by (simp add: i128_abs_word uint_of_sint_nonneg)
qed

lemma unat_i128_abs: "unat (i128_abs v) = nat \<bar>sint v\<bar>"
  using int_unat_i128_abs [of v] by linarith

lemma unat_i128_abs_le: "unat (i128_abs v) \<le> 2 ^ 127"
proof -
  have "\<bar>sint v\<bar> \<le> 2 ^ 127" using sint_range_128 [of v] by linarith
  then have "int (unat (i128_abs v)) \<le> int (2 ^ 127)"
    by (simp only: int_unat_i128_abs of_nat_power of_nat_numeral)
  then show ?thesis by (simp only: of_nat_le_iff)
qed

lemma sint_i128_cneg:
  "unat m < 2 ^ 127 \<Longrightarrow> sint (i128_cneg m neg) = (if neg then - int (unat m) else int (unat m))"
  by (simp add: i128_cneg_word sint_neg_small sint_of_unat_small)

subsection \<open>The 256-bit product\<close>

record u256 =
  u256_hi :: u128
  u256_lo :: u128

definition u256_val :: "u256 \<Rightarrow> nat" where
  "u256_val p = unat (u256_hi p) * 2 ^ 128 + unat (u256_lo p)"

definition umul_128x128_256 :: "u128 \<Rightarrow> u128 \<Rightarrow> u256" where
  "umul_128x128_256 a b =
     (let a_lo = take_bit 64 a; a_hi = drop_bit 64 a;
          b_lo = take_bit 64 b; b_hi = drop_bit 64 b;
          ll = a_lo * b_lo; lh = a_lo * b_hi; hl = a_hi * b_lo; hh = a_hi * b_hi;
          mid = lh + hl + drop_bit 64 ll;
          shifted = hh + drop_bit 64 mid
      in \<lparr>u256_hi = shifted, u256_lo = push_bit 64 (take_bit 64 mid) OR take_bit 64 ll\<rparr>)"

lemma nat_umul_identity:
  fixes al ah bl bh B :: nat
  defines "mid \<equiv> al * bh + ah * bl + (al * bl) div B"
  shows "(ah * bh + mid div B) * (B * B) + (mid mod B) * B + (al * bl) mod B
       = (ah * B + al) * (bh * B + bl)"
proof -
  have l: "al * bl = al * bl div B * B + al * bl mod B" by simp
  have m: "mid div B * B + mid mod B = mid" by simp
  have "(ah * B + al) * (bh * B + bl) = ah * bh * (B * B) + (al * bh + ah * bl) * B + al * bl"
    by (simp add: algebra_simps)
  also have "\<dots> = ah * bh * (B * B) + mid * B + al * bl mod B"
    by (subst l) (simp add: mid_def algebra_simps)
  also have "\<dots> = ah * bh * (B * B) + (mid div B * B + mid mod B) * B + al * bl mod B"
    by (simp only: m)
  finally show ?thesis by (simp only: algebra_simps)
qed

text \<open>
  The product is exact as long as the middle column does not wrap; \<open>mid\<close> is the only
  partial sum that can.
\<close>

lemma umul_exact_gen:
  fixes a b :: u128
  defines "al \<equiv> unat a mod 2 ^ 64" and "ah \<equiv> unat a div 2 ^ 64"
  defines "bl \<equiv> unat b mod 2 ^ 64" and "bh \<equiv> unat b div 2 ^ 64"
  assumes fit: "al * bh + ah * bl + (al * bl) div 2 ^ 64 < 2 ^ 128"
  shows "u256_val (umul_128x128_256 a b) = unat a * unat b"
proof -
  let ?al = "take_bit 64 a" and ?ah = "drop_bit 64 a"
  let ?bl = "take_bit 64 b" and ?bh = "drop_bit 64 b"
  have u: "unat ?al = al" "unat ?ah = ah" "unat ?bl = bl" "unat ?bh = bh"
    by (simp_all only: word_nat al_def ah_def bl_def bh_def)
  have lt: "al < 2 ^ 64" "bl < 2 ^ 64" by (simp_all add: al_def bl_def)
  have lth: "ah < 2 ^ 64" "bh < 2 ^ 64"
    using unat_bound_128 [of a] unat_bound_128 [of b]
    by (simp_all add: ah_def bh_def less_mult_imp_div_less)
  have m: "unat (x * y) = unat x * unat y" if "unat x < 2 ^ 64" "unat y < 2 ^ 64" for x y :: u128
    by (rule unat_mult_fit) (use mult_strict_mono' [OF that] in simp)
  have ll: "unat (?al * ?bl) = al * bl" using lt by (simp add: m u)
  have lh: "unat (?al * ?bh) = al * bh" using lt lth by (simp add: m u)
  have hl: "unat (?ah * ?bl) = ah * bl" using lt lth by (simp add: m u)
  have hh: "unat (?ah * ?bh) = ah * bh" using lth by (simp add: m u)
  let ?mid = "?al * ?bh + ?ah * ?bl + drop_bit 64 (?al * ?bl)"
  define mid where "mid = al * bh + ah * bl + (al * bl) div 2 ^ 64"
  have s1: "unat (?al * ?bh + ?ah * ?bl) = al * bh + ah * bl"
    using fit by (subst unat_add_fit) (simp_all add: lh hl)
  have mid: "unat ?mid = mid"
    unfolding mid_def
    using fit by (subst unat_add_fit) (simp_all add: s1 unat_drop_bit_div ll)
  have hb: "ah * bh \<le> (2 ^ 64 - 1) * (2 ^ 64 - 1)"
    by (rule mult_mono) (use lth in simp_all)
  have md: "mid div 2 ^ 64 < 2 ^ 64"
    using fit by (simp add: mid_def less_mult_imp_div_less)
  have hi: "unat (?ah * ?bh + drop_bit 64 ?mid) = ah * bh + mid div 2 ^ 64"
    using hb md by (subst unat_add_fit) (simp_all add: hh unat_drop_bit_div mid)
  have "(mid mod 2 ^ 64) * 2 ^ 64 < (2 ^ 128 :: nat)"
    by (rule order_less_le_trans [of _ "2 ^ 64 * 2 ^ 64"]) simp_all
  then have pm: "unat (push_bit 64 (take_bit 64 ?mid)) = (mid mod 2 ^ 64) * 2 ^ 64"
    by (simp only: unat_push_bit_mod unat_take_bit_mod mid) simp
  have lo: "unat (push_bit 64 (take_bit 64 ?mid) OR take_bit 64 (?al * ?bl))
          = (mid mod 2 ^ 64) * 2 ^ 64 + al * bl mod 2 ^ 64"
    by (simp only: unat_push_or_take pm unat_take_bit_mod ll)
  have "u256_val (umul_128x128_256 a b)
      = (ah * bh + mid div 2 ^ 64) * (2 ^ 64 * 2 ^ 64) + (mid mod 2 ^ 64) * 2 ^ 64 + al * bl mod 2 ^ 64"
    by (simp only: u256_val_def umul_128x128_256_def Let_def u256.simps hi lo power_add [symmetric]) simp
  also have "\<dots> = (ah * 2 ^ 64 + al) * (bh * 2 ^ 64 + bl)"
    unfolding mid_def by (rule nat_umul_identity)
  also have "\<dots> = unat a * unat b"
    by (simp only: al_def ah_def bl_def bh_def div_mult_mod_eq)
  finally show ?thesis .
qed


lemma umul_exact_half:
  assumes "unat a \<le> 2 ^ 127" "unat b \<le> 2 ^ 127"
  shows "u256_val (umul_128x128_256 a b) = unat a * unat b"
proof (rule umul_exact_gen)
  have h: "unat a div 2 ^ 64 \<le> 2 ^ 63" "unat b div 2 ^ 64 \<le> 2 ^ 63"
    using div_le_mono [OF assms(1), of "2 ^ 64"] div_le_mono [OF assms(2), of "2 ^ 64"] by simp_all
  have l: "unat a mod 2 ^ 64 \<le> 2 ^ 64 - 1" "unat b mod 2 ^ 64 \<le> 2 ^ 64 - 1"
    using mod_less_divisor [of "2 ^ 64" "unat a"] mod_less_divisor [of "2 ^ 64" "unat b"] by simp_all
  have "unat a mod 2 ^ 64 * (unat b div 2 ^ 64) \<le> (2 ^ 64 - 1) * 2 ^ 63"
    by (rule mult_le_mono [OF l(1) h(2)])
  moreover have "unat a div 2 ^ 64 * (unat b mod 2 ^ 64) \<le> 2 ^ 63 * (2 ^ 64 - 1)"
    by (rule mult_le_mono [OF h(1) l(2)])
  moreover have "unat a mod 2 ^ 64 * (unat b mod 2 ^ 64) div 2 ^ 64 \<le> (2 ^ 64 - 1) * (2 ^ 64 - 1) div 2 ^ 64"
    by (rule div_le_mono [OF mult_le_mono [OF l]])
  ultimately show "unat a mod 2 ^ 64 * (unat b div 2 ^ 64) + unat a div 2 ^ 64 * (unat b mod 2 ^ 64)
      + unat a mod 2 ^ 64 * (unat b mod 2 ^ 64) div 2 ^ 64 < 2 ^ 128"
    by simp
qed

lemma u256_val_unique:
  assumes "u256_val p = n"
  shows "unat (u256_hi p) = n div 2 ^ 128" "unat (u256_lo p) = n mod 2 ^ 128"
  using assms unat_bound_128 [of "u256_lo p"] by (auto simp: u256_val_def)

subsection \<open>The restoring long division\<close>

record udiv_qr_t =
  ud_q :: u128
  ud_r :: u128

fun udiv_loop :: "nat \<Rightarrow> u128 \<Rightarrow> u128 \<Rightarrow> u128 \<Rightarrow> u128 \<Rightarrow> udiv_qr_t" where
  "udiv_loop 0 b_mag rem_hi rem_lo q = \<lparr>ud_q = q, ud_r = rem_hi\<rparr>"
| "udiv_loop (Suc k) b_mag rem_hi rem_lo q =
     (let rem_hi = push_bit 1 rem_hi OR drop_bit 127 rem_lo;
          rem_lo = push_bit 1 rem_lo;
          ge = (b_mag \<le> rem_hi);
          rem_hi = (if ge then rem_hi - b_mag else rem_hi);
          q = push_bit 1 q OR of_bool ge
      in udiv_loop k b_mag rem_hi rem_lo q)"

definition udiv256_qr :: "u128 \<Rightarrow> u128 \<Rightarrow> u128 \<Rightarrow> udiv_qr_t" where
  "udiv256_qr hi lo b_mag = udiv_loop 128 b_mag hi lo 0"

definition udiv_q64 :: "u128 \<Rightarrow> u128 \<Rightarrow> u128" where
  "udiv_q64 a_mag b_mag = ud_q (udiv256_qr (drop_bit 64 a_mag) (push_bit 64 a_mag) b_mag)"

lemma unat_shift_in:
  assumes "unat (r :: u128) < 2 ^ 127"
  shows "unat (push_bit 1 r OR drop_bit 127 l) = 2 * unat r + unat l div 2 ^ 127"
proof -
  have "unat l div 2 ^ 127 < 2"
    by (rule less_mult_imp_div_less) (use unat_bound_128 [of l] in simp)
  then show ?thesis
    using assms by (subst unat_push_or_small) (simp_all add: unat_drop_bit_div)
qed

lemma unat_bit_in:
  "unat (q :: u128) < 2 ^ 127 \<Longrightarrow> unat (push_bit 1 q OR of_bool g) = 2 * unat q + of_bool g"
  by (subst unat_push_or_small) simp_all

text \<open>
  The loop invariant: with \<open>k\<close> trips left the low half holds the \<open>k\<close> dividend bits not yet
  consumed, left aligned; the loop then appends the \<open>k\<close> quotient bits of the remaining
  dividend.
\<close>

lemma nat_div_append:
  fixes b :: nat
  assumes "s = g * b + r" "0 < b"
  shows "(s * m + x) div b = g * m + (r * m + x) div b" "(s * m + x) mod b = (r * m + x) mod b"
proof -
  have e: "s * m + x = (g * m) * b + (r * m + x)" by (simp add: assms algebra_simps)
  show "(s * m + x) div b = g * m + (r * m + x) div b"
    unfolding e using assms(2) by simp
  show "(s * m + x) mod b = (r * m + x) mod b"
    unfolding e by (simp only: mod_mult_self3)
qed

lemma udiv_loop_exact:
  assumes "k \<le> 128" "unat rh < unat b" "unat b \<le> 2 ^ 127"
    "unat rl = x * 2 ^ (128 - k)" "x < 2 ^ k" "unat q < 2 ^ (128 - k)"
  shows "unat (ud_q (udiv_loop k b rh rl q)) = unat q * 2 ^ k + (unat rh * 2 ^ k + x) div unat b \<and>
         unat (ud_r (udiv_loop k b rh rl q)) = (unat rh * 2 ^ k + x) mod unat b"
  using assms
proof (induction k arbitrary: rh rl q x)
  case 0
  then show ?case by simp
next
  case (Suc k)
  define s where "s = push_bit 1 rh OR drop_bit 127 rl"
  define ge where "ge = (b \<le> s)"
  define r where "r = (if ge then s - b else s)"
  define q' where "q' = push_bit 1 q OR of_bool ge"
  have k: "k \<le> 127" using Suc.prems by simp
  have p127: "(2 ^ 127 :: nat) = 2 ^ (127 - k) * 2 ^ k"
    using k by (simp only: power_add [symmetric]) simp
  have rl: "unat rl = x * 2 ^ (127 - k)" using Suc.prems by simp
  have "unat rl div 2 ^ 127 = x div 2 ^ k"
    unfolding rl p127 by (simp only: mult.commute [of x] div_mult_mult1_if) simp
  moreover have rh: "unat rh < 2 ^ 127" using Suc.prems by linarith
  ultimately have s: "unat s = 2 * unat rh + x div 2 ^ k"
    unfolding s_def by (simp only: unat_shift_in)
  have t: "x div 2 ^ k < 2" using Suc.prems by (simp add: less_mult_imp_div_less)
  have q': "unat q' = 2 * unat q + of_bool ge"
    unfolding q'_def
  proof (rule unat_bit_in)
    have "(2 :: nat) ^ (128 - Suc k) \<le> 2 ^ 127" by (rule power_increasing) simp_all
    then show "unat q < 2 ^ 127" using Suc.prems by linarith
  qed
  have ge: "ge \<longleftrightarrow> unat b \<le> unat s" by (simp only: ge_def word_le_nat_alt)
  have r: "unat s = of_bool ge * unat b + unat r"
    using ge by (cases ge) (simp_all add: r_def unat_diff_fit)
  have rb: "unat r < unat b"
    using r s t ge Suc.prems by (cases ge) simp_all
  have rl': "unat (push_bit 1 rl) = (x mod 2 ^ k) * 2 ^ (128 - k)"
  proof -
    have "(2 ^ 128 :: nat) = 2 ^ k * 2 ^ (128 - k)"
      using k by (simp only: power_add [symmetric]) simp
    moreover have "x * 2 ^ (127 - k) * 2 ^ 1 = x * 2 ^ (128 - k)"
    proof -
      have "128 - k = Suc (127 - k)" using k by simp
      then show ?thesis by (simp only: power_Suc mult.assoc power_one_right mult.commute [of 2])
    qed
    ultimately show ?thesis
      by (simp only: unat_push_bit_mod rl mult_mod_left len_of_numeral_defs) (simp add: mult_mod_left)
  qed
  have qb: "unat q' < 2 ^ (128 - k)"
  proof -
    have "128 - k = Suc (128 - Suc k)" using k by simp
    then have "(2 :: nat) ^ (128 - k) = 2 * 2 ^ (128 - Suc k)" by (simp only: power_Suc)
    then show ?thesis using q' Suc.prems by (cases ge) simp_all
  qed
  have unfold: "udiv_loop (Suc k) b rh rl q = udiv_loop k b r (push_bit 1 rl) q'"
    by (simp add: Let_def s_def ge_def r_def q'_def)
  have IH: "unat (ud_q (udiv_loop k b r (push_bit 1 rl) q')) = unat q' * 2 ^ k + (unat r * 2 ^ k + x mod 2 ^ k) div unat b \<and>
      unat (ud_r (udiv_loop k b r (push_bit 1 rl) q')) = (unat r * 2 ^ k + x mod 2 ^ k) mod unat b"
    by (rule Suc.IH) (use k rb rl' qb Suc.prems in simp_all)
  have e: "unat rh * 2 ^ Suc k + x = unat s * 2 ^ k + x mod 2 ^ k"
    using div_mult_mod_eq [of x "2 ^ k"] by (simp only: s add_mult_distrib) simp
  have b0: "0 < unat b" using rb by linarith
  show ?case
    unfolding unfold e nat_div_append [OF r b0] using IH q' by (simp add: algebra_simps)
qed


lemma udiv256_qr_exact:
  assumes "unat hi < unat b" "unat b \<le> 2 ^ 127"
  shows "unat (ud_q (udiv256_qr hi lo b)) = (unat hi * 2 ^ 128 + unat lo) div unat b"
    and "unat (ud_r (udiv256_qr hi lo b)) = (unat hi * 2 ^ 128 + unat lo) mod unat b"
  using udiv_loop_exact [of 128 hi b lo "unat lo" 0] assms unat_bound_128 [of lo]
  by (simp_all add: udiv256_qr_def)

text \<open>
  When the divisor is at most the high half (zero included) the first trip already emits a
  quotient bit, so the quotient has bit 127 set: the saturation test of the callers fires.
\<close>

lemma udiv_loop_top:
  assumes "k \<le> 127" "2 ^ (127 - k) \<le> unat q" "unat q < 2 ^ (128 - k)"
  shows "2 ^ 127 \<le> unat (ud_q (udiv_loop k b rh rl q))"
  using assms
proof (induction k arbitrary: rh rl q)
  case 0
  then show ?case by simp
next
  case (Suc k)
  have p: "(2 :: nat) ^ (127 - k) = 2 * 2 ^ (127 - Suc k)" "(2 :: nat) ^ (128 - k) = 2 * 2 ^ (128 - Suc k)"
  proof -
    have "127 - k = Suc (127 - Suc k)" "128 - k = Suc (128 - Suc k)" using Suc.prems by simp_all
    then show "(2 :: nat) ^ (127 - k) = 2 * 2 ^ (127 - Suc k)" "(2 :: nat) ^ (128 - k) = 2 * 2 ^ (128 - Suc k)"
      by (simp_all only: power_Suc)
  qed
  have "unat q < 2 ^ 127"
    using Suc.prems power_increasing [of "128 - Suc k" 127 "2 :: nat"] by linarith
  then have b: "unat (push_bit 1 q OR of_bool g) = 2 * unat q + of_bool g" for g
    by (rule unat_bit_in)
  show ?case
    unfolding udiv_loop.simps Let_def
    by (rule Suc.IH; (simp only: b)?; insert Suc.prems p; simp add: of_bool_def)
qed

lemma udiv256_qr_overflow:
  assumes "unat b \<le> unat hi" "unat hi < 2 ^ 127"
  shows "2 ^ 127 \<le> unat (ud_q (udiv256_qr hi lo b))"
proof -
  have s: "b \<le> push_bit 1 hi OR drop_bit 127 lo"
    unfolding word_le_nat_alt unat_shift_in [OF assms(2)] using assms(1) by linarith
  have "udiv256_qr hi lo b = udiv_loop (Suc 127) b hi lo 0"
    by (simp only: udiv256_qr_def) simp
  also have "\<dots> = udiv_loop 127 b ((push_bit 1 hi OR drop_bit 127 lo) - b) (push_bit 1 lo) 1"
    unfolding udiv_loop.simps Let_def using s by simp
  finally show ?thesis
    by (simp only:) (rule udiv_loop_top, simp_all)
qed


subsection \<open>Division by the money scale with a reciprocal\<close>

definition MONEY_SCALE :: u128 where
  "MONEY_SCALE = 100000000"

record divmul_qr =
  dm_q :: u128
  dm_r :: u128

definition divmul_pow10 :: "u128 \<Rightarrow> divmul_qr" where
  "divmul_pow10 P =
     (let M = push_bit 64 0x55e63b88c230e77e OR 0x7ee106959b5d3e1f;
          pm = umul_128x128_256 P M;
          q = drop_bit 25 (u256_hi pm);
          r = P - q * MONEY_SCALE
      in \<lparr>dm_q = q, dm_r = r\<rparr>)"

definition pow10_recip :: nat where
  "pow10_recip = 114179815416476790484662877555959610911"

lemma pow10_recip_word:
  "push_bit 64 0x55e63b88c230e77e OR 0x7ee106959b5d3e1f = (word_of_nat pow10_recip :: u128)"
  by (simp add: pow10_recip_def)

lemma unat_pow10_recip: "unat (word_of_nat pow10_recip :: u128) = pow10_recip"
  by (simp add: pow10_recip_def)

lemma unat_MONEY_SCALE [simp]: "unat MONEY_SCALE = 100000000"
  by (simp add: MONEY_SCALE_def)

lemma umul_recip_exact:
  "u256_val (umul_128x128_256 P (word_of_nat pow10_recip)) = unat P * pow10_recip"
proof -
  have M: "pow10_recip mod 2 ^ 64 = 9142595958165290527" "pow10_recip div 2 ^ 64 = 6189700196426901374"
    by (simp_all add: pow10_recip_def)
  have l: "unat P mod 2 ^ 64 \<le> 2 ^ 64 - 1" using mod_less_divisor [of "2 ^ 64" "unat P"] by simp
  have h: "unat P div 2 ^ 64 \<le> 2 ^ 64 - 1"
    using less_mult_imp_div_less [of "unat P" "2 ^ 64" "2 ^ 64"] unat_bound_128 [of P] by simp
  have "unat P mod 2 ^ 64 * 6189700196426901374 \<le> (2 ^ 64 - 1) * 6189700196426901374"
    by (rule mult_le_mono1 [OF l])
  moreover have "unat P div 2 ^ 64 * 9142595958165290527 \<le> (2 ^ 64 - 1) * 9142595958165290527"
    by (rule mult_le_mono1 [OF h])
  moreover have "unat P mod 2 ^ 64 * 9142595958165290527 div 2 ^ 64 \<le> (2 ^ 64 - 1) * 9142595958165290527 div 2 ^ 64"
    by (rule div_le_mono [OF mult_le_mono1 [OF l]])
  ultimately show ?thesis
    using umul_exact_gen [of P "word_of_nat pow10_recip"] unfolding unat_pow10_recip M by simp
qed

lemma recip_div_nat:
  fixes P :: nat
  assumes "P \<le> 2 ^ 127"
  shows "P * pow10_recip div 2 ^ 153 = P div 100000000"
proof (rule div_nat_eqI)
  let ?q = "P div 100000000"
  have id: "pow10_recip * 100000000 = 2 ^ 153 + 38027008" by (simp add: pow10_recip_def)
  have PM: "P * pow10_recip * 100000000 = P * 2 ^ 153 + P * 38027008"
    by (simp only: mult.assoc id add_mult_distrib2)
  have lo: "?q * 100000000 \<le> P" by simp
  have hi: "P + 1 \<le> (?q + 1) * 100000000" by simp
  have "P * 38027008 < 2 ^ 153" using assms by simp
  then have "P * pow10_recip * 100000000 < (P + 1) * 2 ^ 153" unfolding PM by simp
  also have "\<dots> \<le> (?q + 1) * 100000000 * 2 ^ 153" by (rule mult_le_mono1 [OF hi])
  finally have "100000000 * (P * pow10_recip) < 100000000 * ((?q + 1) * 2 ^ 153)"
    by (simp only: ac_simps)
  then have "P * pow10_recip < (?q + 1) * 2 ^ 153" by (simp only: mult_less_cancel1)
  then show "P * pow10_recip < 2 ^ 153 * Suc ?q" by (simp only: Suc_eq_plus1 mult.commute)
  have "?q * 100000000 * 2 ^ 153 \<le> P * 2 ^ 153" by (rule mult_le_mono1 [OF lo])
  also have "\<dots> \<le> P * pow10_recip * 100000000" unfolding PM by simp
  finally have "100000000 * (2 ^ 153 * ?q) \<le> 100000000 * (P * pow10_recip)" by (simp only: ac_simps)
  then show "2 ^ 153 * ?q \<le> P * pow10_recip" by (simp only: mult_le_cancel1)
qed

lemma divmul_q: "unat (dm_q (divmul_pow10 P)) = unat P * pow10_recip div 2 ^ 153"
proof -
  have "unat (u256_hi (umul_128x128_256 P (word_of_nat pow10_recip))) = unat P * pow10_recip div 2 ^ 128"
    by (rule u256_val_unique [OF umul_recip_exact])
  then show ?thesis
    by (simp only: divmul_pow10_def Let_def divmul_qr.simps pow10_recip_word unat_drop_bit_div
        div_mult2_eq [symmetric] power_add [symmetric]) simp
qed

lemma divmul_pow10_exact:
  assumes "unat P \<le> 2 ^ 127"
  shows "unat (dm_q (divmul_pow10 P)) = unat P div 100000000"
    and "unat (dm_r (divmul_pow10 P)) = unat P mod 100000000"
proof -
  show q: "unat (dm_q (divmul_pow10 P)) = unat P div 100000000"
    using divmul_q recip_div_nat [OF assms] by simp
  have r: "dm_r (divmul_pow10 P) = P - dm_q (divmul_pow10 P) * MONEY_SCALE"
    by (simp add: divmul_pow10_def Let_def)
  have m: "unat (dm_q (divmul_pow10 P) * MONEY_SCALE) = unat P div 100000000 * 100000000"
    using unat_bound_128 [of P] by (subst unat_mult_fit) (simp_all add: q order_le_less_trans [of _ "unat P"])
  show "unat (dm_r (divmul_pow10 P)) = unat P mod 100000000"
    unfolding r by (subst unat_diff_fit) (simp_all add: m minus_div_mult_eq_mod)
qed

text \<open>Past the exactness bound the quotient is still far above the money ceiling.\<close>

lemma divmul_pow10_big:
  assumes "2 ^ 127 \<le> unat P"
  shows "2 ^ 100 \<le> unat (dm_q (divmul_pow10 P))" "unat (dm_q (divmul_pow10 P)) < 2 ^ 127"
proof -
  have "2 ^ 127 * pow10_recip \<le> unat P * pow10_recip" by (rule mult_le_mono1 [OF assms])
  then have "2 ^ 127 * pow10_recip div 2 ^ 153 \<le> unat P * pow10_recip div 2 ^ 153"
    by (rule div_le_mono)
  then show "2 ^ 100 \<le> unat (dm_q (divmul_pow10 P))"
    unfolding divmul_q by (simp add: pow10_recip_def)
  have "unat P * pow10_recip \<le> 2 ^ 128 * pow10_recip"
    by (rule mult_le_mono1) (use unat_bound_128 [of P] in simp)
  then have "unat P * pow10_recip div 2 ^ 153 \<le> 2 ^ 128 * pow10_recip div 2 ^ 153"
    by (rule div_le_mono)
  then show "unat (dm_q (divmul_pow10 P)) < 2 ^ 127"
    unfolding divmul_q by (simp add: pow10_recip_def)
qed


subsection \<open>Half-even rounding\<close>

text \<open>
  \<open>rhe n d\<close> is the specification: the natural number nearest to \<open>n / d\<close>, ties to even.
\<close>

definition rhe :: "nat \<Rightarrow> nat \<Rightarrow> nat" where
  "rhe n d = (let q = n div d; r = n mod d
              in if d < 2 * r \<or> (2 * r = d \<and> odd q) then q + 1 else q)"

definition money_round_half_even :: "u128 \<Rightarrow> u128 \<Rightarrow> u128 \<Rightarrow> u128" where
  "money_round_half_even q r d =
     (let half = drop_bit 1 d;
          up = of_bool (half < r) OR
               (of_bool (r = half) AND of_bool (d AND 1 = 0) AND (q AND 1))
      in q + up)"

lemma rhe_le: "rhe n d \<le> n div d + 1"
  by (simp add: rhe_def Let_def)

lemma rhe_ge: "n div d \<le> rhe n d"
  by (simp add: rhe_def Let_def)

lemma rhe_dvd: "0 < d \<Longrightarrow> rhe (q * d) d = q"
  by (simp add: rhe_def Let_def)

lemma rhe_mono_le: "0 < d \<Longrightarrow> n \<le> q * d \<Longrightarrow> rhe n d \<le> q"
proof -
  assume d: "0 < d" and n: "n \<le> q * d"
  have q: "n div d \<le> q" using div_le_mono [OF n, of d] d by simp
  show "rhe n d \<le> q"
  proof (cases "n div d = q")
    case True
    then have "n mod d = 0" using n div_mult_mod_eq [of n d] by simp
    then show ?thesis using True d by (simp add: rhe_def Let_def)
  next
    case False
    then show ?thesis using q rhe_le [of n d] by simp
  qed
qed

lemma rhe_nearest:
  assumes "0 < d"
  shows "2 * \<bar>int (rhe n d) * int d - int n\<bar> \<le> int d"
proof -
  let ?q = "n div d" and ?r = "n mod d"
  have n: "int n = int ?q * int d + int ?r"
    by (simp only: of_nat_mult [symmetric] of_nat_add [symmetric] div_mult_mod_eq)
  have r: "int ?r < int d" using assms by simp
  show ?thesis
  proof (cases "rhe n d = ?q")
    case True
    then have "\<not> d < 2 * ?r" by (auto simp: rhe_def Let_def split: if_splits)
    then have "2 * int ?r \<le> int d" by simp
    then show ?thesis unfolding True n by simp
  next
    case False
    then have q: "rhe n d = ?q + 1" and "d \<le> 2 * ?r"
      by (auto simp: rhe_def Let_def split: if_splits)
    then have "int d \<le> 2 * int ?r" by simp
    moreover have "int (rhe n d) * int d - int n = int d - int ?r"
      unfolding q n by (simp add: algebra_simps)
    ultimately show ?thesis using r by simp
  qed
qed

lemma rhe_unique:
  assumes "2 * \<bar>int q * int d - int n\<bar> < int d"
  shows "rhe n d = q"
proof -
  have d: "0 < d" using assms by (cases d) auto
  have "2 * \<bar>int (rhe n d) * int d - int n\<bar> \<le> int d" by (rule rhe_nearest [OF d])
  moreover have "\<bar>int (rhe n d) * int d - int q * int d\<bar>
      \<le> \<bar>int (rhe n d) * int d - int n\<bar> + \<bar>int q * int d - int n\<bar>"
    by simp
  moreover have "z < w" if "2 * x \<le> w" "2 * y < w" "z \<le> x + y" for x y z w :: int
    using that by linarith
  ultimately have "\<bar>int (rhe n d) * int d - int q * int d\<bar> < int d"
    using assms by blast
  then have "\<bar>int (rhe n d) - int q\<bar> * int d < 1 * int d"
    by (simp add: abs_mult flip: left_diff_distrib)
  then have "\<bar>int (rhe n d) - int q\<bar> < 1"
    by (simp only: mult_less_cancel_right)
  then show ?thesis by simp
qed

lemma money_round_unat:
  assumes "unat q < 2 ^ 128 - 1"
  shows "unat (money_round_half_even q r d) =
         (if unat d < 2 * unat r \<or> (2 * unat r = unat d \<and> odd (unat q)) then unat q + 1 else unat q)"
proof -
  have h: "unat (drop_bit 1 d) = unat d div 2" by (simp only: unat_drop_bit_div) simp
  have e: "(d AND 1 = 0) = even (unat d)" "(q AND 1 :: u128) = of_bool (odd (unat q))"
    by (simp_all add: and_one_flag even_unat_128)
  have "unat (q + of_bool p) = unat q + of_bool p" for p
    using assms by (subst unat_add_fit) (simp_all add: of_bool_def)
  then have "unat (money_round_half_even q r d) =
        unat q + of_bool (unat d div 2 < unat r \<or> (unat r = unat d div 2 \<and> even (unat d) \<and> odd (unat q)))"
    unfolding money_round_half_even_def Let_def e and_of_bool_word or_of_bool_word
    by (simp only: h word_less_nat_alt word_unat_eq_iff conj_assoc)
  then show ?thesis by (auto simp: of_bool_def elim!: evenE oddE)
qed

lemma money_round_exact:
  assumes "unat q = n div unat d" "unat r = n mod unat d" "n div unat d < 2 ^ 128 - 1"
  shows "unat (money_round_half_even q r d) = rhe n (unat d)"
  using money_round_unat [of q r d] assms by (simp add: rhe_def Let_def)


subsection \<open>Properties\<close>

text \<open>The 256-bit product is exact on the magnitudes the callers pass: for factors of at
  most \<open>2 ^ 127\<close> no partial column wraps and the two halves spell the product.\<close>

theorem umul_spec:
  assumes "unat a \<le> 2 ^ 127" "unat b \<le> 2 ^ 127"
  shows "unat (u256_hi (umul_128x128_256 a b)) = unat a * unat b div 2 ^ 128 \<and>
    unat (u256_lo (umul_128x128_256 a b)) = unat a * unat b mod 2 ^ 128"
  using u256_val_unique [OF umul_exact_half [OF assms]] by blast

lemma umul_witness:
  "unat (u256_hi (umul_128x128_256 (2 ^ 127) (2 ^ 127))) = 2 ^ 126 \<and>
   unat (u256_lo (umul_128x128_256 (2 ^ 127) (2 ^ 127))) = 0"
  using umul_spec [of "2 ^ 127" "2 ^ 127"] by simp

text \<open>The 128-trip restoring division returns quotient and remainder of the 256-bit
  dividend whenever the quotient fits, and otherwise (zero divisor included) a quotient with
  bit 127 set, which is what the callers' saturation tests look at.\<close>

theorem udiv256_spec:
  assumes "unat b \<le> 2 ^ 127" "unat hi < 2 ^ 127"
  shows "if unat hi < unat b
    then unat (ud_q (udiv256_qr hi lo b)) = (unat hi * 2 ^ 128 + unat lo) div unat b \<and>
         unat (ud_r (udiv256_qr hi lo b)) = (unat hi * 2 ^ 128 + unat lo) mod unat b
    else 2 ^ 127 \<le> unat (ud_q (udiv256_qr hi lo b))"
  using udiv256_qr_exact [of hi b lo] udiv256_qr_overflow [of b hi lo] assms by simp

lemma udiv256_witness:
  "unat (ud_q (udiv256_qr 1 7 3)) = (2 ^ 128 + 7) div 3 \<and> 2 ^ 127 \<le> unat (ud_q (udiv256_qr 0 5 0))"
  using udiv256_spec [of 3 1 7] udiv256_spec [of 0 0 5] by simp

text \<open>The reciprocal multiplication divides exactly by \<open>10 ^ 8\<close> on every dividend up to
  \<open>2 ^ 127\<close>, remainder included.\<close>

theorem divmul_pow10_spec:
  assumes "unat P \<le> 2 ^ 127"
  shows "unat P = unat (dm_q (divmul_pow10 P)) * 100000000 + unat (dm_r (divmul_pow10 P)) \<and>
    unat (dm_r (divmul_pow10 P)) < 100000000"
  using divmul_pow10_exact [OF assms] by simp

lemma divmul_pow10_witness:
  "2 ^ 127 = unat (dm_q (divmul_pow10 (2 ^ 127))) * 100000000 + unat (dm_r (divmul_pow10 (2 ^ 127)))"
  using divmul_pow10_spec [of "2 ^ 127"] by simp

end
