(* ===== verification/Money_Ops.thy ===== *)
theory Money_Ops
  imports Fixed_Core
begin

text \<open>
  Base-10 money, \<^verbatim>\<open>Money = FixedPoint<10,8>\<close> of \<^verbatim>\<open>src/FixedPoint/FixedPointN.hpp\<close>: a signed
  128-bit payload counting units of \<open>10 ^ -8\<close>, closed under the operations in
  \<open>[-(2^63-1), 2^63-1]\<close>.  The sticky \<^verbatim>\<open>thread_local money_op_flags\<close> is only ever ORed
  into by the operations, so an operation returns its value together with the flag word it
  ORs; \<open>money_run\<close> threads the sticky word.
\<close>

subsection \<open>Data\<close>

datatype Money = Money (mv: u128)

datatype FPN_Binary = FPN_Binary (bv: u128)

abbreviation mint :: "Money \<Rightarrow> int" where
  "mint m \<equiv> sint (mv m)"

abbreviation bint :: "FPN_Binary \<Rightarrow> int" where
  "bint b \<equiv> sint (bv b)"

definition MONEY_FLAG_OVERFLOW :: u64 where "MONEY_FLAG_OVERFLOW = push_bit 0 1"
definition MONEY_FLAG_DIVZERO :: u64 where "MONEY_FLAG_DIVZERO = push_bit 1 1"
definition MONEY_MAX :: u128 where "MONEY_MAX = push_bit 63 1 - 1"

type_synonym 'a flagged = "'a \<times> u64"

definition money_run :: "'a flagged \<Rightarrow> u64 \<Rightarrow> 'a \<times> u64" where
  "money_run r money_op_flags = (fst r, money_op_flags OR snd r)"

subsection \<open>Arithmetic with saturation\<close>

definition Money_Mul_op :: "Money \<Rightarrow> Money \<Rightarrow> Money flagged" where
  "Money_Mul_op a b =
     (let neg = ((mv a <s 0) \<noteq> (mv b <s 0));
          amag = i128_abs (mv a);
          bmag = i128_abs (mv b);
          p = umul_128x128_256 amag bmag;
          dr = divmul_pow10 (u256_lo p);
          mag = money_round_half_even (dm_q dr) (dm_r dr) MONEY_SCALE;
          lim = push_bit 63 1 - 1;
          ovf = of_bool (u256_hi p \<noteq> 0) OR of_bool (lim < mag);
          of_m = 0 - ovf;
          mag = (mag AND NOT of_m) OR (lim AND of_m)
      in (Money (i128_cneg mag neg), ucast ovf))"

definition Money_Div_op :: "Money \<Rightarrow> Money \<Rightarrow> Money flagged" where
  "Money_Div_op a b =
     (let neg = ((mv a <s 0) \<noteq> (mv b <s 0));
          amag = i128_abs (mv a);
          bmag = i128_abs (mv b);
          P = umul_128x128_256 amag MONEY_SCALE;
          dr = udiv256_qr (u256_hi P) (u256_lo P) bmag;
          q = money_round_half_even (ud_q dr) (ud_r dr) bmag;
          lim = push_bit 63 1 - 1;
          dz = of_bool (bmag = 0);
          ovf = of_bool (lim < q) OR dz;
          of_m = 0 - ovf;
          flags = ucast (of_bool (lim < q) AND NOT dz) OR push_bit 1 (ucast dz);
          q = (q AND NOT of_m) OR (lim AND of_m)
      in (Money (i128_cneg q neg), flags))"

definition Money_Add_op :: "Money \<Rightarrow> Money \<Rightarrow> Money flagged" where
  "Money_Add_op a b =
     (let s = mv a + mv b;
          ovf = of_bool (MONEY_MAX <s s) OR of_bool (s <s - MONEY_MAX);
          of_m = 0 - ovf;
          sat = i128_cneg MONEY_MAX (s <s 0)
      in (Money ((s AND NOT of_m) OR (sat AND of_m)), ucast (ovf :: u128)))"

definition Money_Sub_op :: "Money \<Rightarrow> Money \<Rightarrow> Money flagged" where
  "Money_Sub_op a b = Money_Add_op a (Money (- mv b))"

definition Money_FromInt_op :: "u64 \<Rightarrow> Money flagged" where
  "Money_FromInt_op i =
     (let mag = ucast (if i <s 0 then - i else i) * MONEY_SCALE;
          lim = push_bit 63 1 - 1;
          ovf = of_bool (lim < mag);
          mag' = (if lim < mag then lim else mag)
      in (Money (i128_cneg mag' (i <s 0)), ovf))"

text \<open>The values alone, for the callers that never look at the sticky flags.\<close>

definition Money_Mul :: "Money \<Rightarrow> Money \<Rightarrow> Money" where "Money_Mul a b = fst (Money_Mul_op a b)"
definition Money_Div :: "Money \<Rightarrow> Money \<Rightarrow> Money" where "Money_Div a b = fst (Money_Div_op a b)"
definition Money_Add :: "Money \<Rightarrow> Money \<Rightarrow> Money" where "Money_Add a b = fst (Money_Add_op a b)"
definition Money_Sub :: "Money \<Rightarrow> Money \<Rightarrow> Money" where "Money_Sub a b = fst (Money_Sub_op a b)"
definition Money_FromInt :: "u64 \<Rightarrow> Money" where "Money_FromInt i = fst (Money_FromInt_op i)"

subsection \<open>One-line operations\<close>

definition Money_Zero :: Money where "Money_Zero = Money 0"
definition Money_Negate :: "Money \<Rightarrow> Money" where "Money_Negate a = Money (- mv a)"
definition Money_Abs :: "Money \<Rightarrow> Money" where "Money_Abs a = Money (i128_abs (mv a))"
definition Money_Min :: "Money \<Rightarrow> Money \<Rightarrow> Money" where
  "Money_Min a b = Money (if mv a <s mv b then mv a else mv b)"
definition Money_Max :: "Money \<Rightarrow> Money \<Rightarrow> Money" where
  "Money_Max a b = Money (if mv b <s mv a then mv a else mv b)"
definition Money_IsZero :: "Money \<Rightarrow> bool" where "Money_IsZero a = (mv a = 0)"
definition Money_Lt :: "Money \<Rightarrow> Money \<Rightarrow> bool" where "Money_Lt a b = (mv a <s mv b)"
definition Money_Le :: "Money \<Rightarrow> Money \<Rightarrow> bool" where "Money_Le a b = (mv a \<le>s mv b)"
definition Money_Eq :: "Money \<Rightarrow> Money \<Rightarrow> bool" where "Money_Eq a b = (mv a = mv b)"
definition Money_Gt :: "Money \<Rightarrow> Money \<Rightarrow> bool" where "Money_Gt a b = (mv b <s mv a)"
definition Money_Ge :: "Money \<Rightarrow> Money \<Rightarrow> bool" where "Money_Ge a b = (mv b \<le>s mv a)"

definition Money_BlendOnMask :: "Money \<Rightarrow> Money \<Rightarrow> u64 \<Rightarrow> Money" where
  "Money_BlendOnMask if_true if_false msk =
     (let m = (scast msk :: u128)
      in Money ((mv if_true AND m) OR (mv if_false AND NOT m)))"

definition Money_QuantizeToStep :: "Money \<Rightarrow> Money \<Rightarrow> Money" where
  "Money_QuantizeToStep v step =
     (if mv step \<le>s 0 then v
      else let mag = (if mv v <s 0 then - mv v else mv v);
               smag = mv step;
               q = ud_q (udiv256_qr 0 mag smag);
               r = q * smag
           in Money (if mv v <s 0 then - r else r))"

definition FP_POW10 :: "u64 list" where
  "FP_POW10 = [1, 10, 100, 1000, 10000, 100000, 1000000, 10000000, 100000000, 1000000000,
     10000000000, 100000000000, 1000000000000, 10000000000000, 100000000000000, 1000000000000000,
     10000000000000000, 100000000000000000, 1000000000000000000, 10000000000000000000]"

definition money_scale_down_pow10 :: "Money \<Rightarrow> u32 \<Rightarrow> Money" where
  "money_scale_down_pow10 a k =
     (let mag = i128_abs (mv a);
          d = FP_POW10 ! unat (if k < 20 then k else 19);
          dr = udiv256_qr 0 mag (ucast d);
          q = money_round_half_even (ud_q dr) (ud_r dr) (ucast d)
      in Money (i128_cneg q (mv a <s 0)))"

subsection \<open>The binary bridge\<close>

definition Money_ToBinary :: "Money \<Rightarrow> FPN_Binary" where
  "Money_ToBinary m =
     (let mag = i128_abs (mv m);
          dr = divmul_pow10 (push_bit 64 mag);
          q = money_round_half_even (dm_q dr) (dm_r dr) MONEY_SCALE
      in FPN_Binary (i128_cneg q (mv m <s 0)))"

definition Money_FromBinary_op :: "FPN_Binary \<Rightarrow> Money flagged" where
  "Money_FromBinary_op b =
     (let mag = i128_abs (bv b);
          p = umul_128x128_256 mag MONEY_SCALE;
          q = push_bit 64 (u256_hi p) OR take_bit 64 (drop_bit 64 (u256_lo p));
          r = take_bit 64 (u256_lo p);
          q = money_round_half_even q r (push_bit 64 1);
          lim = push_bit 63 1 - 1;
          ovf = of_bool (drop_bit 64 (u256_hi p) \<noteq> 0) OR of_bool (lim < q);
          of_m = 0 - ovf;
          q = (q AND NOT of_m) OR (lim AND of_m)
      in (Money (i128_cneg q (bv b <s 0)), ucast ovf))"

definition Money_FromBinary :: "FPN_Binary \<Rightarrow> Money" where
  "Money_FromBinary b = fst (Money_FromBinary_op b)"


subsection \<open>What the operations promise\<close>

definition money_lim :: int where "money_lim = 2 ^ 63 - 1"

definition money_sat :: "int \<Rightarrow> int" where
  "money_sat z = max (- money_lim) (min money_lim z)"

definition money_closed :: "Money \<Rightarrow> bool" where
  "money_closed m \<longleftrightarrow> \<bar>mint m\<bar> \<le> money_lim"

definition irhe :: "int \<Rightarrow> nat \<Rightarrow> int" where
  "irhe z d = (if z < 0 then - int (rhe (nat (- z)) d) else int (rhe (nat z) d))"

lemma lim_less_int: "money_lim < int n \<longleftrightarrow> 2 ^ 63 - 1 < n"
  by (auto simp: money_lim_def)

lemma money_sat_closed: "\<bar>money_sat z\<bar> \<le> money_lim"
  by (simp add: money_sat_def money_lim_def)

lemma money_sat_id: "\<bar>z\<bar> \<le> money_lim \<Longrightarrow> money_sat z = z"
  by (auto simp: money_sat_def money_lim_def)

lemma irhe_minus: "irhe (- z) d = - irhe z d"
  by (auto simp: irhe_def rhe_def)

lemma irhe_nat: "irhe (int n) d = int (rhe n d)"
  by (simp add: irhe_def)

lemma irhe_signed:
  "\<bar>z\<bar> = int n \<Longrightarrow> irhe z d = (if z < 0 then - int (rhe n d) else int (rhe n d))"
  by (auto simp: irhe_def abs_if split: if_splits)

lemma irhe_sign: "0 \<le> z \<Longrightarrow> 0 \<le> irhe z d" "z \<le> 0 \<Longrightarrow> irhe z d \<le> 0"
  by (auto simp: irhe_def rhe_def)

lemma money_sat_sign: "0 \<le> z \<Longrightarrow> 0 \<le> money_sat z" "z \<le> 0 \<Longrightarrow> money_sat z \<le> 0"
  by (simp_all add: money_sat_def money_lim_def)

lemma irhe_nearest:
  assumes "0 < d"
  shows "2 * \<bar>irhe z d * int d - z\<bar> \<le> int d"
proof (cases "z < 0")
  case True
  then have "irhe z d * int d - z = - (int (rhe (nat (- z)) d) * int d - int (nat (- z)))"
    by (simp add: irhe_def)
  then show ?thesis
    using rhe_nearest [OF assms, of "nat (- z)"] by (simp only: abs_minus_cancel)
next
  case False
  then show ?thesis
    using rhe_nearest [OF assms, of "nat z"] by (simp add: irhe_def)
qed

lemma slt_zero [simp]: "(v <s 0) \<longleftrightarrow> sint (v :: 'a::len word) < 0"
  by (simp add: word_sless_alt)

lemma lim_word: "push_bit 63 1 - 1 = (9223372036854775807 :: u128)"
  by simp

lemma unat_lim: "unat (push_bit 63 1 - 1 :: u128) = 2 ^ 63 - 1"
  by simp

lemma ucast_flag [simp]: "ucast (of_bool p :: 'a::len word) = (of_bool p :: 'b::len word)"
  by (cases p) simp_all

text \<open>The tail every operation shares: saturate the magnitude, then reapply the sign.\<close>

lemma sat_tail:
  fixes mag :: u128
  assumes "ovf \<longleftrightarrow> 2 ^ 63 - 1 < N" "\<not> ovf \<longrightarrow> unat mag = N"
  shows "sint (i128_cneg ((mag AND NOT (0 - of_bool ovf)) OR ((push_bit 63 1 - 1) AND (0 - of_bool ovf))) neg)
       = money_sat (if neg then - int N else int N)"
proof (cases ovf)
  case True
  then have "money_lim < int N" using assms(1) by (simp add: money_lim_def)
  then show ?thesis
    using True by (simp add: sint_i128_cneg money_sat_def) (simp add: money_lim_def)
next
  case False
  then have "N \<le> 2 ^ 63 - 1" "unat mag = N" using assms by simp_all
  then show ?thesis
    using False by (simp add: sint_i128_cneg money_sat_def money_lim_def)
qed


lemma closed_unat_abs: "money_closed m \<Longrightarrow> unat (i128_abs (mv m)) \<le> 2 ^ 63 - 1"
proof -
  assume "money_closed m"
  then have "int (unat (i128_abs (mv m))) \<le> int (2 ^ 63 - 1)"
    by (simp only: int_unat_i128_abs money_closed_def money_lim_def) simp
  then show ?thesis by (simp only: of_nat_le_iff)
qed

lemma sign_xor: "(x < 0) \<noteq> (y < 0) \<longleftrightarrow> x * y < 0" if "x \<noteq> 0" "y \<noteq> 0" for x y :: int
  using that by (auto simp: mult_less_0_iff)

lemma irhe_prod:
  assumes "int n = \<bar>x\<bar> * \<bar>y\<bar>"
  shows "irhe (x * y) d = (if (x < 0) \<noteq> (y < 0) then - int (rhe n d) else int (rhe n d))"
proof (cases "x = 0 \<or> y = 0")
  case True
  then have "n = 0" using assms by auto
  then show ?thesis using True by (auto simp: irhe_def rhe_def)
next
  case False
  then show ?thesis
    using irhe_signed [of "x * y" n d] assms sign_xor [of x y] by (simp add: abs_mult)
qed

subsubsection \<open>Multiplication\<close>

lemma money_mul_mag:
  fixes a b :: Money
  defines "n \<equiv> unat (i128_abs (mv a)) * unat (i128_abs (mv b))"
  defines "p \<equiv> umul_128x128_256 (i128_abs (mv a)) (i128_abs (mv b))"
  defines "mag \<equiv> money_round_half_even (dm_q (divmul_pow10 (u256_lo p)))
             (dm_r (divmul_pow10 (u256_lo p))) MONEY_SCALE"
  shows "(u256_hi p \<noteq> 0 \<or> push_bit 63 1 - 1 < mag) \<longleftrightarrow> 2 ^ 63 - 1 < rhe n 100000000"
    and "\<not> (u256_hi p \<noteq> 0 \<or> push_bit 63 1 - 1 < mag) \<longrightarrow> unat mag = rhe n 100000000"
proof -
  have v: "u256_val p = n"
    unfolding p_def n_def by (rule umul_exact_half [OF unat_i128_abs_le unat_i128_abs_le])
  note hl = u256_val_unique [OF v]
  have big: "2 ^ 63 - 1 < rhe n 100000000" if "2 ^ 127 \<le> n"
  proof -
    have "2 ^ 127 div 100000000 \<le> n div 100000000" by (rule div_le_mono [OF that])
    then have "(2 ^ 63 :: nat) \<le> n div 100000000" by simp
    then show ?thesis using rhe_ge [of n 100000000] by simp
  qed
  consider "n \<le> 2 ^ 127" | "2 ^ 127 \<le> n" "n < 2 ^ 128" | "2 ^ 128 \<le> n" by linarith
  then have "((u256_hi p \<noteq> 0 \<or> push_bit 63 1 - 1 < mag) \<longleftrightarrow> 2 ^ 63 - 1 < rhe n 100000000) \<and>
    (\<not> (u256_hi p \<noteq> 0 \<or> push_bit 63 1 - 1 < mag) \<longrightarrow> unat mag = rhe n 100000000)"
  proof cases
    case 1
    then have hi: "u256_hi p = 0" and lo: "unat (u256_lo p) = n"
      using hl by (simp_all add: word_unat_eq_iff)
    have "unat mag = rhe n (unat MONEY_SCALE)"
      unfolding mag_def
      by (rule money_round_exact) (use 1 lo in \<open>simp_all add: divmul_pow10_exact\<close>)
    then show ?thesis using hi by (simp add: word_less_nat_alt)
  next
    case 2
    then have lo: "unat (u256_lo p) = n" using hl by simp
    have "2 ^ 100 \<le> unat (dm_q (divmul_pow10 (u256_lo p)))"
      "unat (dm_q (divmul_pow10 (u256_lo p))) < 2 ^ 127"
      by (rule divmul_pow10_big, use 2 lo in simp)+
    then have "2 ^ 100 \<le> unat mag"
      unfolding mag_def by (subst money_round_unat) auto
    then have "2 ^ 63 - 1 < unat mag" by simp
    then show ?thesis using big 2 by (simp add: word_less_nat_alt)
  next
    case 3
    then have "0 < unat (u256_hi p)" using hl by (simp add: div_greater_zero_iff)
    then have "u256_hi p \<noteq> 0" by auto
    then show ?thesis using big 3 by simp
  qed
  then show "(u256_hi p \<noteq> 0 \<or> push_bit 63 1 - 1 < mag) \<longleftrightarrow> 2 ^ 63 - 1 < rhe n 100000000"
    "\<not> (u256_hi p \<noteq> 0 \<or> push_bit 63 1 - 1 < mag) \<longrightarrow> unat mag = rhe n 100000000"
    by blast+
qed


lemma money_mul_int:
  "mint (fst (Money_Mul_op a b)) = money_sat (irhe (mint a * mint b) 100000000) \<and>
   snd (Money_Mul_op a b) =
     of_bool (money_lim < \<bar>irhe (mint a * mint b) 100000000\<bar>) * MONEY_FLAG_OVERFLOW"
proof -
  let ?n = "unat (i128_abs (mv a)) * unat (i128_abs (mv b))"
  have n: "int ?n = \<bar>mint a\<bar> * \<bar>mint b\<bar>" by (simp only: of_nat_mult int_unat_i128_abs)
  note ir = irhe_prod [OF n, of 100000000]
  note mag = money_mul_mag [of a b]
  have abs: "\<bar>irhe (mint a * mint b) 100000000\<bar> = int (rhe ?n 100000000)"
    unfolding ir by simp
  show ?thesis
    unfolding abs lim_less_int
    unfolding Money_Mul_op_def Let_def fst_conv snd_conv Money.sel or_of_bool_word slt_zero
    by (simp only: ir sat_tail [OF mag]) (simp only: mag(1) ucast_flag MONEY_FLAG_OVERFLOW_def, simp)
qed


subsubsection \<open>Addition and subtraction\<close>

lemma sint_MONEY_MAX [simp]: "sint MONEY_MAX = money_lim" "sint (- MONEY_MAX) = - money_lim"
  by (simp_all add: MONEY_MAX_def money_lim_def)

lemma sint_add_128:
  "- (2 ^ 127) \<le> sint x + sint y \<Longrightarrow> sint x + sint y < 2 ^ 127 \<Longrightarrow> sint (x + y :: u128) = sint x + sint y"
  using sint_word_of_int_128 [of "sint x + sint y"] by simp

lemma sint_minus_128: "sint x \<noteq> - (2 ^ 127) \<Longrightarrow> sint (- x :: u128) = - sint x"
  using sint_word_of_int_128 [of "- sint x"] sint_range_128 [of x] by simp

definition money_wide :: "Money \<Rightarrow> bool" where
  "money_wide m \<longleftrightarrow> \<bar>mint m\<bar> < 2 ^ 126"

lemma closed_wide: "money_closed m \<Longrightarrow> money_wide m"
  by (simp add: money_closed_def money_wide_def money_lim_def)

lemma money_add_int:
  assumes "money_wide a" "money_wide b"
  shows "mint (fst (Money_Add_op a b)) = money_sat (mint a + mint b)"
    "snd (Money_Add_op a b) = of_bool (money_lim < \<bar>mint a + mint b\<bar>) * MONEY_FLAG_OVERFLOW"
proof -
  have s: "sint (mv a + mv b) = mint a + mint b"
    by (rule sint_add_128) (use assms in \<open>simp_all add: money_wide_def\<close>)
  have o: "MONEY_MAX <s mv a + mv b \<or> mv a + mv b <s - MONEY_MAX \<longleftrightarrow> money_lim < \<bar>mint a + mint b\<bar>"
    by (auto simp: word_sless_alt s)
  show "snd (Money_Add_op a b) = of_bool (money_lim < \<bar>mint a + mint b\<bar>) * MONEY_FLAG_OVERFLOW"
    by (simp add: Money_Add_op_def Let_def or_of_bool_word o MONEY_FLAG_OVERFLOW_def)
  have "mv (fst (Money_Add_op a b)) =
     (if money_lim < \<bar>mint a + mint b\<bar> then i128_cneg MONEY_MAX (mint a + mint b < 0) else mv a + mv b)"
    by (simp add: Money_Add_op_def Let_def or_of_bool_word o s)
  then show "mint (fst (Money_Add_op a b)) = money_sat (mint a + mint b)"
    by (auto simp: s money_sat_def i128_cneg_word) (auto simp: money_lim_def)
qed


lemma money_sub_int:
  assumes "money_wide a" "money_wide b"
  shows "mint (fst (Money_Sub_op a b)) = money_sat (mint a - mint b)"
    "snd (Money_Sub_op a b) = of_bool (money_lim < \<bar>mint a - mint b\<bar>) * MONEY_FLAG_OVERFLOW"
proof -
  have m: "sint (- mv b) = - mint b"
    by (rule sint_minus_128) (use assms(2) in \<open>auto simp: money_wide_def\<close>)
  then have w: "money_wide (Money (- mv b))" using assms(2) by (simp add: money_wide_def)
  show "mint (fst (Money_Sub_op a b)) = money_sat (mint a - mint b)"
    "snd (Money_Sub_op a b) = of_bool (money_lim < \<bar>mint a - mint b\<bar>) * MONEY_FLAG_OVERFLOW"
    using money_add_int [OF assms(1) w] by (simp_all add: Money_Sub_op_def m)
qed

subsubsection \<open>Division\<close>

lemma money_div_q:
  assumes "money_closed a" "mv b \<noteq> 0"
  defines "n \<equiv> unat (i128_abs (mv a)) * 100000000" and "d \<equiv> unat (i128_abs (mv b))"
  defines "P \<equiv> umul_128x128_256 (i128_abs (mv a)) MONEY_SCALE"
  defines "dr \<equiv> udiv256_qr (u256_hi P) (u256_lo P) (i128_abs (mv b))"
  shows "unat (money_round_half_even (ud_q dr) (ud_r dr) (i128_abs (mv b))) = rhe n d"
proof -
  have d: "0 < d" "d \<le> 2 ^ 127"
    using assms(2) unat_i128_abs_le by (auto simp: d_def i128_abs_word unat_gt_0)
  have n: "n \<le> (2 ^ 63 - 1) * 100000000"
    unfolding n_def by (rule mult_le_mono1 [OF closed_unat_abs [OF assms(1)]])
  have v: "u256_val P = n"
    unfolding P_def n_def
    using umul_exact_half [of "i128_abs (mv a)" MONEY_SCALE] unat_i128_abs_le by simp
  have hi: "unat (u256_hi P) = 0" and lo: "unat (u256_lo P) = n"
    using u256_val_unique [OF v] n by simp_all
  have q: "unat (ud_q dr) = n div d" "unat (ud_r dr) = n mod d"
    unfolding dr_def using udiv256_qr_exact [of "u256_hi P" "i128_abs (mv b)" "u256_lo P"] d
    by (simp_all add: hi lo d_def)
  have "n div d \<le> n" by (rule div_le_dividend)
  also note n
  finally have "n div d < 2 ^ 128 - 1" by (rule order_le_less_trans) simp
  then show ?thesis
    unfolding d_def by (intro money_round_exact) (use q in \<open>simp_all add: d_def\<close>)
qed

lemma i128_abs_zero [simp]: "i128_abs v = 0 \<longleftrightarrow> v = 0"
  by (auto simp: i128_abs_word)

lemma money_div_int:
  assumes "money_closed a"
  shows "if mint b = 0
    then mint (fst (Money_Div_op a b)) = (if mint a < 0 then - money_lim else money_lim) \<and>
         snd (Money_Div_op a b) = MONEY_FLAG_DIVZERO
    else mint (fst (Money_Div_op a b)) =
           money_sat (sgn (mint b) * irhe (mint a * 100000000) (nat \<bar>mint b\<bar>)) \<and>
         snd (Money_Div_op a b) =
           of_bool (money_lim < \<bar>irhe (mint a * 100000000) (nat \<bar>mint b\<bar>)\<bar>) * MONEY_FLAG_OVERFLOW"
proof (cases "mv b = 0")
  case True
  have s: "sint (i128_cneg (push_bit 63 1 - 1) neg) = (if neg then - money_lim else money_lim)" for neg
    using sint_i128_cneg [of "push_bit 63 1 - 1" neg] by (simp add: money_lim_def)
  show ?thesis
    using True s by (simp add: Money_Div_op_def Let_def MONEY_FLAG_DIVZERO_def or_of_bool_word)
next
  case False
  let ?n = "unat (i128_abs (mv a)) * 100000000" and ?d = "unat (i128_abs (mv b))"
  let ?P = "umul_128x128_256 (i128_abs (mv a)) MONEY_SCALE"
  let ?dr = "udiv256_qr (u256_hi ?P) (u256_lo ?P) (i128_abs (mv b))"
  let ?q = "money_round_half_even (ud_q ?dr) (ud_r ?dr) (i128_abs (mv b))"
  have q: "unat ?q = rhe ?n ?d" by (rule money_div_q [OF assms False])
  have b0: "mint b \<noteq> 0" using False by simp
  have d: "?d = nat \<bar>mint b\<bar>" by (rule unat_i128_abs)
  have n: "\<bar>mint a * 100000000\<bar> = int ?n" by (simp only: of_nat_mult int_unat_i128_abs abs_mult of_nat_numeral abs_numeral)
  have ir: "irhe (mint a * 100000000) ?d = (if mint a < 0 then - int (rhe ?n ?d) else int (rhe ?n ?d))"
    using irhe_signed [OF n, of ?d] by (simp add: mult_less_0_iff)
  have ovf: "(push_bit 63 1 - 1 < ?q) \<longleftrightarrow> 2 ^ 63 - 1 < rhe ?n ?d"
    by (simp only: word_less_nat_alt unat_lim q)
  have f: "money_lim < \<bar>irhe (mint a * 100000000) ?d\<bar> \<longleftrightarrow> 2 ^ 63 - 1 < rhe ?n ?d"
    unfolding ir by (auto simp: money_lim_def)
  have sat: "sint (i128_cneg ((?q AND NOT (0 - of_bool (push_bit 63 1 - 1 < ?q))) OR
       ((push_bit 63 1 - 1) AND (0 - of_bool (push_bit 63 1 - 1 < ?q)))) neg)
     = money_sat (if neg then - int (rhe ?n ?d) else int (rhe ?n ?d))" for neg
    by (rule sat_tail [OF ovf]) (simp only: q simp_thms)
  have v: "mint (fst (Money_Div_op a b)) = money_sat (if (mint a < 0) \<noteq> (mint b < 0)
      then - int (rhe ?n ?d) else int (rhe ?n ?d))"
    unfolding sat [symmetric]
    by (simp only: Money_Div_op_def Let_def fst_conv Money.sel slt_zero i128_abs_zero False
        or_of_bool_word simp_thms)
  have fl: "snd (Money_Div_op a b) = of_bool (push_bit 63 1 - 1 < ?q)"
    by (simp only: Money_Div_op_def Let_def snd_conv i128_abs_zero False) simp
  have sg: "sgn (mint b) * irhe (mint a * 100000000) ?d =
      (if (mint a < 0) \<noteq> (mint b < 0) then - int (rhe ?n ?d) else int (rhe ?n ?d))"
    unfolding ir using b0 by (auto simp: sgn_if)
  show ?thesis
    using b0 unfolding d [symmetric] f sg v fl ovf by (simp add: MONEY_FLAG_OVERFLOW_def)
qed

text \<open>Division of closed amounts: by a nonzero divisor the result is the half-even rounding
  of the exact quotient, saturated, with the overflow flag raised exactly on saturation; by
  zero it is the ceiling with the sign of the dividend and the distinct division flag.\<close>

theorem Money_Div_spec:
  assumes "money_closed a"
  shows "if mint b = 0
    then mint (fst (Money_Div_op a b)) = (if mint a < 0 then - money_lim else money_lim) \<and>
         snd (Money_Div_op a b) = MONEY_FLAG_DIVZERO
    else mint (fst (Money_Div_op a b)) =
           money_sat (sgn (mint b) * irhe (mint a * 100000000) (nat \<bar>mint b\<bar>)) \<and>
         snd (Money_Div_op a b) =
           of_bool (money_lim < \<bar>irhe (mint a * 100000000) (nat \<bar>mint b\<bar>)\<bar>) * MONEY_FLAG_OVERFLOW"
  by (rule money_div_int [OF assms])

subsection \<open>The binary bridge is a lossless round trip\<close>

lemma irhe_cneg:
  assumes "unat q = rhe n d" "unat q < 2 ^ 127" "\<bar>z\<bar> = int n"
  shows "sint (i128_cneg q (z < 0)) = irhe z d"
  using assms by (simp add: sint_i128_cneg irhe_signed [of z n d])

lemma money_to_binary_int:
  assumes "money_closed m"
  shows "bint (Money_ToBinary m) = irhe (mint m * 2 ^ 64) 100000000"
proof -
  let ?mag = "i128_abs (mv m)"
  let ?dr = "divmul_pow10 (push_bit 64 ?mag)"
  let ?q = "money_round_half_even (dm_q ?dr) (dm_r ?dr) MONEY_SCALE"
  have n: "unat ?mag * 2 ^ 64 \<le> (2 ^ 63 - 1) * 2 ^ 64"
    by (rule mult_le_mono1 [OF closed_unat_abs [OF assms]])
  then have p: "unat (push_bit 64 ?mag) = unat ?mag * 2 ^ 64"
    by (simp only: unat_push_bit_mod) simp
  have le: "unat (push_bit 64 ?mag) \<le> 2 ^ 127" using n unfolding p by simp
  have "(unat ?mag * 2 ^ 64) div 100000000 \<le> ((2 ^ 63 - 1) * 2 ^ 64) div 100000000"
    by (rule div_le_mono [OF n])
  then have s: "(unat ?mag * 2 ^ 64) div 100000000 < 2 ^ 127 - 1"
    by (rule order_le_less_trans) simp
  have q: "unat ?q = rhe (unat ?mag * 2 ^ 64) (unat MONEY_SCALE)"
    by (rule money_round_exact) (use divmul_pow10_exact [OF le] s in \<open>simp_all only: p unat_MONEY_SCALE\<close>, simp)
  have b: "unat ?q < 2 ^ 127"
    using s rhe_le [of "unat ?mag * 2 ^ 64" "unat MONEY_SCALE"] unfolding q unat_MONEY_SCALE by linarith
  have a: "\<bar>mint m * 2 ^ 64\<bar> = int (unat ?mag * 2 ^ 64)"
    by (simp only: of_nat_mult int_unat_i128_abs abs_mult) simp
  show ?thesis
    using irhe_cneg [OF q b a] by (simp add: Money_ToBinary_def Let_def mult_less_0_iff)
qed

lemma money_from_binary_int:
  "mint (fst (Money_FromBinary_op b)) = money_sat (irhe (bint b * 100000000) (2 ^ 64))"
  "snd (Money_FromBinary_op b) =
     of_bool (money_lim < \<bar>irhe (bint b * 100000000) (2 ^ 64)\<bar>) * MONEY_FLAG_OVERFLOW"
proof -
  let ?mag = "i128_abs (bv b)"
  let ?n = "unat ?mag * 100000000"
  let ?p = "umul_128x128_256 ?mag MONEY_SCALE"
  let ?qf = "push_bit 64 (u256_hi ?p) OR take_bit 64 (drop_bit 64 (u256_lo ?p))"
  let ?q = "money_round_half_even ?qf (take_bit 64 (u256_lo ?p)) (push_bit 64 1)"
  have n: "?n \<le> 2 ^ 127 * 100000000" by (rule mult_le_mono1 [OF unat_i128_abs_le])
  have v: "u256_val ?p = ?n"
    using umul_exact_half [of ?mag MONEY_SCALE] unat_i128_abs_le by simp
  note hl = u256_val_unique [OF v]
  have "?n div 2 ^ 128 \<le> 2 ^ 127 * 100000000 div 2 ^ 128" by (rule div_le_mono [OF n])
  then have hi: "unat (u256_hi ?p) \<le> 50000000" unfolding hl by simp
  have h0: "drop_bit 64 (u256_hi ?p) = 0"
    using hi by (simp only: word_unat_eq_iff unat_drop_bit_div) simp
  have "unat (take_bit 64 (drop_bit 64 (u256_lo ?p))) = unat (u256_lo ?p) div 2 ^ 64"
    using unat_bound_128 [of "u256_lo ?p"] less_mult_imp_div_less [of "unat (u256_lo ?p)" "2 ^ 64" "2 ^ 64"]
    by (simp only: unat_take_bit_mod unat_drop_bit_div) simp
  then have "unat ?qf = unat (u256_hi ?p) * 2 ^ 64 + unat (u256_lo ?p) div 2 ^ 64"
    using hi by (simp only: unat_push_or_take unat_push_bit_mod) simp
  also have "\<dots> = u256_val ?p div 2 ^ 64" by (simp add: u256_val_def div_add)
  finally have q0: "unat ?qf = ?n div unat (push_bit 64 1 :: u128)" unfolding v by simp
  have r: "unat (take_bit 64 (u256_lo ?p)) = ?n mod unat (push_bit 64 1 :: u128)"
    by (simp only: unat_take_bit_mod hl) (simp add: mod_mod_cancel)
  have s: "?n div unat (push_bit 64 1 :: u128) < 2 ^ 128 - 1"
  proof -
    have "?n div 2 ^ 64 \<le> 2 ^ 127 * 100000000 div 2 ^ 64" by (rule div_le_mono [OF n])
    then show ?thesis by (simp add: order_le_less_trans)
  qed
  have q: "unat ?q = rhe ?n (2 ^ 64)"
    using money_round_exact [OF q0 r s] by simp
  have ovf: "(push_bit 63 1 - 1 < ?q) \<longleftrightarrow> 2 ^ 63 - 1 < rhe ?n (2 ^ 64)"
    by (simp only: word_less_nat_alt unat_lim q)
  have a: "\<bar>bint b * 100000000\<bar> = int ?n"
    by (simp only: of_nat_mult int_unat_i128_abs abs_mult of_nat_numeral abs_numeral)
  have ir: "irhe (bint b * 100000000) (2 ^ 64) =
      (if bint b < 0 then - int (rhe ?n (2 ^ 64)) else int (rhe ?n (2 ^ 64)))"
    using irhe_signed [OF a, of "2 ^ 64"] by (simp add: mult_less_0_iff)
  have f: "money_lim < \<bar>irhe (bint b * 100000000) (2 ^ 64)\<bar> \<longleftrightarrow> 2 ^ 63 - 1 < rhe ?n (2 ^ 64)"
    unfolding ir by (auto simp: money_lim_def)
  have sat: "sint (i128_cneg ((?q AND NOT (0 - of_bool (push_bit 63 1 - 1 < ?q))) OR
       ((push_bit 63 1 - 1) AND (0 - of_bool (push_bit 63 1 - 1 < ?q)))) neg)
     = money_sat (if neg then - int (rhe ?n (2 ^ 64)) else int (rhe ?n (2 ^ 64)))" for neg
    by (rule sat_tail [OF ovf]) (simp only: q simp_thms)
  show "mint (fst (Money_FromBinary_op b)) = money_sat (irhe (bint b * 100000000) (2 ^ 64))"
    unfolding ir sat [symmetric]
    by (simp only: Money_FromBinary_op_def Let_def fst_conv Money.sel slt_zero h0 simp_thms
        or_of_bool_word)
  show "snd (Money_FromBinary_op b) =
     of_bool (money_lim < \<bar>irhe (bint b * 100000000) (2 ^ 64)\<bar>) * MONEY_FLAG_OVERFLOW"
    unfolding f ovf [symmetric]
    by (simp only: Money_FromBinary_op_def Let_def snd_conv h0 simp_thms or_of_bool_word)
      (simp add: MONEY_FLAG_OVERFLOW_def)
qed


lemma irhe_unique:
  assumes "2 * \<bar>q * int d - z\<bar> < int d"
  shows "irhe z d = q"
proof -
  have d: "0 < int d" using assms by (cases d) auto
  have aux: False if "x \<le> - e" "2 * \<bar>x - w\<bar> < e" "0 \<le> w" "0 < e" for x w e :: int
    using that by (cases "x < w") (simp_all add: abs_if)
  have p0: "0 \<le> p" if "2 * \<bar>p * int d - w\<bar> < int d" "0 \<le> w" for p w
  proof (rule ccontr)
    assume "\<not> 0 \<le> p"
    then have "p * int d \<le> - int d" using d mult_right_mono [of p "- 1" "int d"] by simp
    then show False using aux that d by blast
  qed
  have main: "rhe (nat w) d = nat p" if "2 * \<bar>p * int d - w\<bar> < int d" "0 \<le> w" for p w
    using that p0 [OF that] by (intro rhe_unique) simp
  show ?thesis
  proof (cases "z < 0")
    case True
    have "- q * int d - - z = - (q * int d - z)" by simp
    then have "2 * \<bar>- q * int d - - z\<bar> < int d" using assms by (simp only: abs_minus_cancel)
    then show ?thesis using True main [of "- q" "- z"] p0 [of "- q" "- z"] by (simp add: irhe_def)
  next
    case False
    then show ?thesis using main [OF assms] p0 [OF assms] by (simp add: irhe_def)
  qed
qed

lemma mint_inject: "mint a = mint b \<longleftrightarrow> a = b"
  by (cases a; cases b) (auto intro: signed_word_eqI)

text \<open>Converting a closed amount to the binary feature format and back is the identity:
  \<open>Money_FromBinary (Money_ToBinary m) = m\<close>, and the conversion raises no flag.\<close>

theorem Money_binary_round_trip:
  assumes "money_closed m"
  shows "Money_FromBinary_op (Money_ToBinary m) = (m, 0)"
proof -
  let ?B = "irhe (mint m * 2 ^ 64) 100000000"
  have "2 * \<bar>?B * int 100000000 - mint m * 2 ^ 64\<bar> \<le> int 100000000"
    by (rule irhe_nearest) simp
  then have "2 * \<bar>mint m * int (2 ^ 64) - ?B * 100000000\<bar> < int (2 ^ 64)"
    by (simp add: abs_minus_commute)
  then have z: "irhe (?B * 100000000) (2 ^ 64) = mint m" by (rule irhe_unique)
  have c: "\<bar>mint m\<bar> \<le> money_lim" using assms by (simp add: money_closed_def)
  have v: "mint (fst (Money_FromBinary_op (Money_ToBinary m))) = mint m"
    unfolding money_from_binary_int money_to_binary_int [OF assms] z by (rule money_sat_id [OF c])
  have "snd (Money_FromBinary_op (Money_ToBinary m)) = 0"
    using c unfolding money_from_binary_int money_to_binary_int [OF assms] z by simp
  then show ?thesis using v mint_inject by (simp add: prod_eq_iff)
qed

subsection \<open>Quantisation and unsigned helpers\<close>

lemma money_neg_int: "mint m \<noteq> - (2 ^ 127) \<Longrightarrow> mint (Money_Negate m) = - mint m"
  by (simp add: Money_Negate_def sint_minus_128)

lemma money_abs_int: "mint m \<noteq> - (2 ^ 127) \<Longrightarrow> mint (Money_Abs m) = \<bar>mint m\<bar>"
  by (simp add: Money_Abs_def i128_abs_word sint_minus_128)

lemma money_order [simp]:
  "Money_Lt a b \<longleftrightarrow> mint a < mint b" "Money_Le a b \<longleftrightarrow> mint a \<le> mint b"
  "Money_Gt a b \<longleftrightarrow> mint b < mint a" "Money_Ge a b \<longleftrightarrow> mint b \<le> mint a"
  "Money_Eq a b \<longleftrightarrow> mint a = mint b" "Money_IsZero a \<longleftrightarrow> mint a = 0"
  by (auto simp: Money_Lt_def Money_Le_def Money_Gt_def Money_Ge_def Money_Eq_def Money_IsZero_def
      word_sless_alt word_sle_eq intro: signed_word_eqI)

lemma money_minmax [simp]:
  "mint (Money_Min a b) = min (mint a) (mint b)" "mint (Money_Max a b) = max (mint a) (mint b)"
  by (simp_all add: Money_Min_def Money_Max_def word_sless_alt min_def max_def)

lemma quantize_int:
  assumes "0 < mint step" "mint v \<noteq> - (2 ^ 127)"
  shows "mint (Money_QuantizeToStep v step) = sgn (mint v) * (\<bar>mint v\<bar> div mint step * mint step)"
proof -
  let ?mag = "i128_abs (mv v)"
  let ?q = "ud_q (udiv256_qr 0 ?mag (mv step))"
  have sp: "int (unat (mv step)) = mint step"
    using uint_of_sint_nonneg [of "mv step"] assms by (simp add: uint_nat [symmetric])
  have s1: "0 < unat (mv step)" using assms sp by (cases "unat (mv step)") auto
  have s2: "unat (mv step) \<le> 2 ^ 127" using msb_uint_128 [of "mv step"] assms by linarith
  have m: "int (unat ?mag) = \<bar>mint v\<bar>" by (rule int_unat_i128_abs)
  have mb: "unat ?mag < 2 ^ 127"
  proof -
    have "int (unat ?mag) < int (2 ^ 127)" using m sint_range_128 [of "mv v"] assms(2) by simp
    then show ?thesis by (simp only: of_nat_less_iff)
  qed
  have q: "unat ?q = unat ?mag div unat (mv step)"
    using udiv256_qr_exact [of 0 "mv step" ?mag] s1 s2 by simp
  have le: "unat ?mag div unat (mv step) * unat (mv step) \<le> unat ?mag" by simp
  have r: "unat (?q * mv step) = unat ?mag div unat (mv step) * unat (mv step)"
    unfolding q [symmetric]
    by (rule unat_mult_fit, simp only: q, rule order_le_less_trans [OF le]) (use mb in simp)
  have rb: "unat (?q * mv step) < 2 ^ 127" unfolding r using le mb by (rule order_le_less_trans)
  have ri: "int (unat (?q * mv step)) = \<bar>mint v\<bar> div mint step * mint step"
    unfolding r using m sp by (simp add: zdiv_int)
  have mag: "(if mv v <s 0 then - mv v else mv v) = ?mag" by (simp add: i128_abs_word)
  have "Money_QuantizeToStep v step = Money (i128_cneg (?q * mv step) (mint v < 0))"
    using assms(1) unfolding Money_QuantizeToStep_def mag Let_def i128_cneg_word
    by (simp add: word_sle_eq)
  then show ?thesis
    using sint_i128_cneg [OF rb, of "mint v < 0"] ri by (auto simp: sgn_if)
qed


text \<open>Quantising to a positive step truncates towards zero to a multiple of the step: the
  result has the sign of the input, is the largest multiple not exceeding it in magnitude,
  and quantising again changes nothing; a step that is not positive leaves the value alone.\<close>

theorem Money_QuantizeToStep_spec:
  fixes v step :: Money
  assumes "mint v \<noteq> - (2 ^ 127)"
  defines "r \<equiv> Money_QuantizeToStep v step"
  shows "if mint step \<le> 0 then r = v
    else mint step dvd mint r \<and> \<bar>mint r\<bar> \<le> \<bar>mint v\<bar> \<and> \<bar>mint v\<bar> - \<bar>mint r\<bar> < mint step \<and>
         0 \<le> mint r * mint v \<and> Money_QuantizeToStep r step = r"
proof (cases "mint step \<le> 0")
  case True
  then show ?thesis by (simp add: r_def Money_QuantizeToStep_def word_sle_eq)
next
  case False
  then have sp: "0 < mint step" by simp
  let ?t = "\<bar>mint v\<bar> div mint step * mint step"
  have t: "0 \<le> ?t" "?t \<le> \<bar>mint v\<bar>" "\<bar>mint v\<bar> - ?t < mint step"
    using sp pos_mod_bound [OF sp, of "\<bar>mint v\<bar>"] pos_mod_sign [OF sp, of "\<bar>mint v\<bar>"]
      pos_imp_zdiv_nonneg_iff [OF sp, of "\<bar>mint v\<bar>"]
    by (simp_all add: minus_div_mult_eq_mod) (simp add: minus_mod_eq_div_mult [symmetric])
  have r: "mint r = sgn (mint v) * ?t"
    unfolding r_def by (rule quantize_int [OF sp assms(1)])
  have ar: "\<bar>mint r\<bar> = ?t" 
  proof -
    have "\<bar>mint r\<bar> = \<bar>sgn (mint v)\<bar> * \<bar>?t\<bar>" unfolding r by (rule abs_mult)
    also have "\<bar>?t\<bar> = ?t" by (rule abs_of_nonneg [OF t(1)])
    finally show ?thesis by (cases "mint v = 0") (simp_all add: abs_sgn_eq)
  qed
  have d: "mint step dvd mint r" by (simp add: r)
  have rv: "0 \<le> mint r * mint v"
    using t(1) by (auto simp: r sgn_if mult_nonneg_nonneg mult_nonneg_nonpos)
  have rm: "mint r \<noteq> - (2 ^ 127)" using assms(1) ar t(2) sint_range_128 [of "mv v"] by auto
  have "mint (Money_QuantizeToStep r step) = mint r"
  proof -
    have "\<bar>mint r\<bar> div mint step * mint step = \<bar>mint r\<bar>" using d by simp
    then show ?thesis unfolding quantize_int [OF sp rm] by (simp only: sgn_mult_abs)
  qed
  then have "Money_QuantizeToStep r step = r" by (simp only: mint_inject)
  then show ?thesis using False ar t d rv by simp
qed

lemma from_int_int:
  "mint (fst (Money_FromInt_op i)) = money_sat (sint i * 100000000)"
  "snd (Money_FromInt_op i) = of_bool (money_lim < \<bar>sint i * 100000000\<bar>) * MONEY_FLAG_OVERFLOW"
proof -
  let ?w = "if i <s 0 then - i else i"
  let ?mag = "ucast ?w * MONEY_SCALE :: u128"
  let ?n = "unat ?w * 100000000"
  have w: "int (unat ?w) = \<bar>sint i\<bar>" using int_unat_abs_word [of i] by simp
  have u: "unat (ucast ?w :: u128) = unat ?w" by (rule unat_ucast_up) simp
  have m: "unat ?mag = ?n"
    using unat_bound_64 [of ?w] by (subst unat_mult_fit) (simp_all only: u unat_MONEY_SCALE, simp)
  have ovf: "(push_bit 63 1 - 1 < ?mag) \<longleftrightarrow> 2 ^ 63 - 1 < ?n"
    by (simp only: word_less_nat_alt unat_lim m)
  have a: "\<bar>sint i * 100000000\<bar> = int ?n" by (simp only: abs_mult w of_nat_mult of_nat_numeral abs_numeral)
  have f: "money_lim < \<bar>sint i * 100000000\<bar> \<longleftrightarrow> 2 ^ 63 - 1 < ?n"
    unfolding a by (rule lim_less_int)
  have v: "(if push_bit 63 1 - 1 < ?mag then push_bit 63 1 - 1 else ?mag) =
      (?mag AND NOT (0 - of_bool (push_bit 63 1 - 1 < ?mag))) OR
       ((push_bit 63 1 - 1) AND (0 - of_bool (push_bit 63 1 - 1 < ?mag)))"
    by (simp only: zero_minus_flag neg_flag_and_or)
  have z: "sint i * 100000000 = (if i <s 0 then - int ?n else int ?n)"
    unfolding a [symmetric] by simp
  have sat: "sint (i128_cneg ((?mag AND NOT (0 - of_bool (push_bit 63 1 - 1 < ?mag))) OR
       ((push_bit 63 1 - 1) AND (0 - of_bool (push_bit 63 1 - 1 < ?mag)))) (i <s 0))
     = money_sat (sint i * 100000000)"
    unfolding z by (rule sat_tail [OF ovf]) (simp only: m simp_thms)
  show "mint (fst (Money_FromInt_op i)) = money_sat (sint i * 100000000)"
    unfolding sat [symmetric] v [symmetric]
    by (simp only: Money_FromInt_op_def Let_def fst_conv Money.sel)
  show "snd (Money_FromInt_op i) = of_bool (money_lim < \<bar>sint i * 100000000\<bar>) * MONEY_FLAG_OVERFLOW"
    unfolding f ovf [symmetric]
    by (simp only: Money_FromInt_op_def Let_def snd_conv MONEY_FLAG_OVERFLOW_def) simp
qed

text \<open>The rescaling step of the exit rows: divide by a power of ten, half-even.\<close>

lemma FP_POW10_nth: "k < 20 \<Longrightarrow> unat (FP_POW10 ! k) = 10 ^ k"
proof -
  assume "k < 20"
  then have "k \<in> set [0..<20]" by simp
  moreover have "\<forall>k \<in> set [0..<20]. unat (FP_POW10 ! k) = 10 ^ k" by (simp add: FP_POW10_def upt_rec)
  ultimately show ?thesis by blast
qed

lemma scale_down_int:
  assumes "money_closed a"
  shows "mint (money_scale_down_pow10 a k) = irhe (mint a) (10 ^ min (unat k) 19)"
proof -
  let ?mag = "i128_abs (mv a)"
  let ?k = "unat (if k < 20 then k else 19)"
  let ?d = "ucast (FP_POW10 ! ?k) :: u128"
  let ?dr = "udiv256_qr 0 ?mag ?d"
  let ?q = "money_round_half_even (ud_q ?dr) (ud_r ?dr) ?d"
  have k: "?k = min (unat k) 19" "?k < 20" by (auto simp: word_less_nat_alt)
  have u: "unat ?d = 10 ^ ?k"
    using FP_POW10_nth [OF k(2)] by (subst unat_ucast_up) simp_all
  have "(10 :: nat) ^ ?k \<le> 10 ^ 19" by (rule power_increasing) (use k(2) in simp_all)
  then have d: "0 < unat ?d" "unat ?d \<le> 2 ^ 127" unfolding u by simp_all
  have n: "unat ?mag \<le> 2 ^ 63 - 1" by (rule closed_unat_abs [OF assms])
  have qr: "unat (ud_q ?dr) = unat ?mag div unat ?d" "unat (ud_r ?dr) = unat ?mag mod unat ?d"
    using udiv256_qr_exact [of 0 ?d ?mag] d by simp_all
  have le: "unat ?mag div unat ?d \<le> 2 ^ 63 - 1"
    using div_le_dividend [of "unat ?mag" "unat ?d"] n by linarith
  have q: "unat ?q = rhe (unat ?mag) (unat ?d)"
    by (rule money_round_exact [OF qr]) (use le in simp)
  have b: "unat ?q < 2 ^ 127" using rhe_le [of "unat ?mag" "unat ?d"] le unfolding q by simp
  have ab: "\<bar>mint a\<bar> = int (unat ?mag)" by (simp only: int_unat_i128_abs)
  show ?thesis
    unfolding k(1) [symmetric] u [symmetric] irhe_cneg [OF q b ab, symmetric]
    by (simp only: money_scale_down_pow10_def Let_def Money.sel slt_zero)
qed


subsection \<open>Further properties and concrete instances\<close>

text \<open>Addition and subtraction are exact on the integers and saturate at the closure
  ceiling; a flag is raised exactly when the exact result leaves the closed range, and a
  closed pair always gives a closed result.\<close>

theorem Money_Add_Sub_spec:
  assumes "money_closed a" "money_closed b"
  shows "mint (fst (Money_Add_op a b)) = money_sat (mint a + mint b) \<and>
    mint (fst (Money_Sub_op a b)) = money_sat (mint a - mint b) \<and>
    snd (Money_Add_op a b) = of_bool (money_lim < \<bar>mint a + mint b\<bar>) * MONEY_FLAG_OVERFLOW \<and>
    snd (Money_Sub_op a b) = of_bool (money_lim < \<bar>mint a - mint b\<bar>) * MONEY_FLAG_OVERFLOW \<and>
    money_closed (fst (Money_Add_op a b)) \<and> money_closed (fst (Money_Sub_op a b))"
  using money_add_int [OF closed_wide closed_wide, OF assms]
    money_sub_int [OF closed_wide closed_wide, OF assms] money_sat_closed
  by (simp add: money_closed_def)

lemma Money_Add_Sub_witness:
  "mint (fst (Money_Add_op (Money 9223372036854775807) (Money 5))) = 9223372036854775807 \<and>
   mint (fst (Money_Sub_op (Money 3) (Money 5))) = - 2"
  using Money_Add_Sub_spec [of "Money 9223372036854775807" "Money 5"]
    Money_Add_Sub_spec [of "Money 3" "Money 5"]
  by (simp add: money_closed_def money_lim_def money_sat_def)

lemma Money_Div_witness:
  "mint (fst (Money_Div_op (Money 100000000) (Money (- 300000000)))) = - 33333333 \<and>
   snd (Money_Div_op (Money (- 7)) (Money 0)) = MONEY_FLAG_DIVZERO"
  using Money_Div_spec [of "Money 100000000" "Money (- 300000000)"] Money_Div_spec [of "Money (- 7)" "Money 0"]
  by (simp add: money_closed_def money_lim_def money_sat_def irhe_def rhe_def)

lemma Money_binary_round_trip_witness:
  "Money_FromBinary_op (Money_ToBinary (Money (- 12345678901))) = (Money (- 12345678901), 0)"
  by (rule Money_binary_round_trip) (simp add: money_closed_def money_lim_def)

lemma Money_QuantizeToStep_witness:
  "mint (Money_QuantizeToStep (Money (- 1234567)) (Money 1000)) dvd 1234000 \<and>
   \<bar>mint (Money_QuantizeToStep (Money (- 1234567)) (Money 1000))\<bar> \<le> 1234567"
  using Money_QuantizeToStep_spec [of "Money (- 1234567)" "Money 1000"] 
  by (simp add: quantize_int)

text \<open>Running an operation never clears a sticky flag.\<close>

lemma money_run_sticky: "snd (money_run r fl) AND fl = fl"
  by (rule bit_word_eqI) (auto simp: money_run_def bit_simps)

lemma money_closed_ops:
  "money_closed (Money_Mul a b)"
  "money_closed a \<Longrightarrow> money_closed b \<Longrightarrow> money_closed (Money_Add a b)"
  "money_closed a \<Longrightarrow> money_closed b \<Longrightarrow> money_closed (Money_Sub a b)"
  "money_closed (Money_FromBinary x)" "money_closed (Money_FromInt i)" "money_closed Money_Zero"
proof -
  have mul: "mint (Money_Mul a b) = money_sat (irhe (mint a * mint b) 100000000)"
    using money_mul_int [of a b] by (simp add: Money_Mul_def)
  show "money_closed (Money_Mul a b)" by (simp only: money_closed_def mul money_sat_closed)
  show "money_closed a \<Longrightarrow> money_closed b \<Longrightarrow> money_closed (Money_Add a b)"
    "money_closed a \<Longrightarrow> money_closed b \<Longrightarrow> money_closed (Money_Sub a b)"
    by (simp_all add: money_closed_def Money_Add_def Money_Sub_def money_add_int money_sub_int
        money_sat_closed closed_wide [unfolded money_closed_def])
  show "money_closed (Money_FromBinary x)" "money_closed (Money_FromInt i)"
    by (simp_all add: money_closed_def Money_FromBinary_def Money_FromInt_def money_from_binary_int
        from_int_int money_sat_closed)
  show "money_closed Money_Zero" by (simp add: money_closed_def Money_Zero_def money_lim_def)
qed


subsection \<open>The value functions on integers\<close>

lemma Money_Zero_int [simp]: "mint Money_Zero = 0"
  by (simp add: Money_Zero_def)

lemma Money_Mul_int: "mint (Money_Mul a b) = money_sat (irhe (mint a * mint b) 100000000)"
  using money_mul_int [of a b] by (simp add: Money_Mul_def)

lemma Money_Add_int:
  "money_closed a \<Longrightarrow> money_closed b \<Longrightarrow> mint (Money_Add a b) = money_sat (mint a + mint b)"
  by (simp add: Money_Add_def money_add_int closed_wide)

lemma Money_Sub_int:
  "money_closed a \<Longrightarrow> money_closed b \<Longrightarrow> mint (Money_Sub a b) = money_sat (mint a - mint b)"
  by (simp add: Money_Sub_def money_sub_int closed_wide)

lemma Money_Div_int:
  "money_closed a \<Longrightarrow> 0 < mint b \<Longrightarrow>
   mint (Money_Div a b) = money_sat (irhe (mint a * 100000000) (nat (mint b)))"
  using money_div_int [of a b] by (cases "mv b = 0") (simp_all add: Money_Div_def)

lemma Money_Div_closed: "money_closed a \<Longrightarrow> money_closed (Money_Div a b)"
  using money_div_int [of a b] money_sat_closed
  by (cases "mint b = 0") (simp_all add: Money_Div_def money_closed_def money_lim_def)

end
