(* ===== verification/Money_Text.thy ===== *)
theory Money_Text
  imports Money_Ops "HOL-Library.Char_ord"
begin

text \<open>
  Decimal text in \<^verbatim>\<open>src/FixedPoint/FixedPointN.hpp\<close>: the one-pass scanner, the money parser with
  its flags, and the money printer.  A C string is its characters up to the first NUL.
\<close>

subsection \<open>The scanner\<close>

definition FP_SCAN_BAD_CHAR :: u32 where "FP_SCAN_BAD_CHAR = push_bit 0 1"
definition FP_SCAN_DUP_DOT :: u32 where "FP_SCAN_DUP_DOT = push_bit 1 1"
definition FP_SCAN_NO_DIGITS :: u32 where "FP_SCAN_NO_DIGITS = push_bit 2 1"
definition FP_SCAN_WRAP :: u32 where "FP_SCAN_WRAP = push_bit 3 1"

record scan_vars =
  sv_int_part :: u64
  sv_frac_int :: u64
  sv_n_frac :: u32
  sv_n_digits :: u32
  sv_seen_dot :: bool
  sv_bad :: bool
  sv_dup :: bool
  sv_wrap :: bool

record fp_scan_t =
  fs_int_part :: u64
  fs_frac_int :: u64
  fs_n_frac :: u32
  fs_neg :: bool
  fs_flags :: u32

definition char_minus_zero :: "char \<Rightarrow> u8" where
  "char_minus_zero c = word_of_nat (of_char c) - 48"

definition fp_scan_step :: "scan_vars \<Rightarrow> char \<Rightarrow> scan_vars" where
  "fp_scan_step v c =
     (let is_digit = (char_minus_zero c \<le> 9);
          is_dot = (c = CHR ''.'');
          dig = (ucast (char_minus_zero c) :: u64);
          in_int = (is_digit \<and> \<not> sv_seen_dot v);
          in_frac = (is_digit \<and> sv_seen_dot v);
          bad = (sv_bad v \<or> \<not> (is_digit \<or> is_dot));
          dup = (sv_dup v \<or> (is_dot \<and> sv_seen_dot v));
          wrap = (sv_wrap v \<or> (in_int \<and> (NOT 0 - dig) div 10 < sv_int_part v)
                            \<or> (in_frac \<and> (NOT 0 - dig) div 10 < sv_frac_int v))
      in \<lparr>sv_int_part = sv_int_part v + of_bool in_int * (sv_int_part v * 9 + dig),
          sv_frac_int = sv_frac_int v + of_bool in_frac * (sv_frac_int v * 9 + dig),
          sv_n_frac = sv_n_frac v + of_bool in_frac,
          sv_n_digits = sv_n_digits v + of_bool is_digit,
          sv_seen_dot = (sv_seen_dot v \<or> is_dot),
          sv_bad = bad, sv_dup = dup, sv_wrap = wrap\<rparr>)"

definition scan_zero :: scan_vars where
  "scan_zero = \<lparr>sv_int_part = 0, sv_frac_int = 0, sv_n_frac = 0, sv_n_digits = 0, sv_seen_dot = False,
     sv_bad = False, sv_dup = False, sv_wrap = False\<rparr>"

definition fp_scan_decimal_string :: "string \<Rightarrow> fp_scan_t" where
  "fp_scan_decimal_string str =
     (let s = takeWhile (\<lambda>c. c \<noteq> CHR 0x00) str;
          neg = (s \<noteq> [] \<and> hd s = CHR ''-'');
          i = (of_bool (neg \<or> (s \<noteq> [] \<and> hd s = CHR ''+'')) :: nat);
          v = foldl fp_scan_step scan_zero (drop i s);
          flags = (of_bool (sv_bad v) * FP_SCAN_BAD_CHAR) OR (of_bool (sv_dup v) * FP_SCAN_DUP_DOT)
            OR (of_bool (sv_n_digits v = 0) * FP_SCAN_NO_DIGITS) OR (of_bool (sv_wrap v) * FP_SCAN_WRAP)
      in \<lparr>fs_int_part = sv_int_part v, fs_frac_int = sv_frac_int v, fs_n_frac = sv_n_frac v,
          fs_neg = neg, fs_flags = flags\<rparr>)"

subsection \<open>Parsing\<close>

definition MONEY_PARSE_MALFORMED :: u32 where "MONEY_PARSE_MALFORMED = push_bit 0 1"
definition MONEY_PARSE_OVERFLOW :: u32 where "MONEY_PARSE_OVERFLOW = push_bit 1 1"
definition MONEY_PARSE_EXCESS_DP :: u32 where "MONEY_PARSE_EXCESS_DP = push_bit 2 1"

record MoneyParse =
  mp_value :: Money
  mp_flags :: u32

definition scale_frac :: "u64 \<Rightarrow> nat \<Rightarrow> u64 \<times> u32" where
  "scale_frac frac_int nf =
     (if nf \<le> 8 then (frac_int * FP_POW10 ! (8 - nf), 0)
      else let d = FP_POW10 ! (nf - 8);
               q = frac_int div d;
               r = frac_int - q * d
           in (ucast (money_round_half_even (ucast q) (ucast r) (ucast d)), MONEY_PARSE_EXCESS_DP))"

definition Money_FromString :: "string \<Rightarrow> MoneyParse" where
  "Money_FromString str =
     (let s = fp_scan_decimal_string str;
          flags = (if fs_flags s AND (FP_SCAN_BAD_CHAR OR FP_SCAN_DUP_DOT OR FP_SCAN_NO_DIGITS) \<noteq> 0
                   then MONEY_PARSE_MALFORMED else 0)
               OR (if fs_flags s AND FP_SCAN_WRAP \<noteq> 0 then MONEY_PARSE_OVERFLOW else 0);
          nf = unat (if fs_n_frac s < 20 then fs_n_frac s else 19);
          (frac_scaled, excess) = scale_frac (fs_frac_int s) nf;
          flags = flags OR excess;
          scaled = ucast (fs_int_part s) * MONEY_SCALE + ucast frac_scaled;
          lim = push_bit 63 1 - 1;
          flags = flags OR (if lim < scaled then MONEY_PARSE_OVERFLOW else 0);
          scaled = (if lim < scaled then lim else scaled);
          sg = (fs_neg s \<and> scaled \<noteq> 0)
      in \<lparr>mp_value = Money (i128_cneg scaled sg), mp_flags = flags\<rparr>)"

definition FPN_FromString :: "string \<Rightarrow> FPN_Binary" where
  "FPN_FromString str =
     (let s = fp_scan_decimal_string str;
          nf = unat (if fs_n_frac s < 20 then fs_n_frac s else 19);
          frac_low = ud_q (udiv256_qr 0 (push_bit 64 (ucast (fs_frac_int s))) (ucast (FP_POW10 ! nf)));
          mag = push_bit 64 (ucast (fs_int_part s)) OR take_bit 64 frac_low;
          sg = (fs_neg s \<and> mag \<noteq> 0)
      in FPN_Binary (if sg then - mag else mag))"

subsection \<open>Printing\<close>

definition digit_char :: "u64 \<Rightarrow> char" where
  "digit_char d = char_of (48 + unat d)"

function int_digits_rev :: "u64 \<Rightarrow> string" where
  "int_digits_rev ip =
     digit_char (ip mod 10) # (let ip' = ip div 10 in if ip' \<noteq> 0 then int_digits_rev ip' else [])"
  by pat_completeness auto

termination int_digits_rev
proof (relation "measure unat")
  fix ip x :: u64
  assume a: "x = ip div 10" "x \<noteq> 0"
  have x: "unat x = unat ip div 10" by (simp only: a(1) unat_div) simp
  have "unat x \<noteq> 0" using a(2) by (simp only: unat_eq_zero not_False_eq_True)
  then have "0 < unat ip" using x by (cases "unat ip = 0") auto
  then show "(x, ip) \<in> measure unat" using x by simp
qed simp

declare int_digits_rev.simps [simp del]

fun frac_digits_rev :: "nat \<Rightarrow> u64 \<Rightarrow> string" where
  "frac_digits_rev 0 fp = []"
| "frac_digits_rev (Suc k) fp = digit_char (fp mod 10) # frac_digits_rev k (fp div 10)"

definition Money_ToCString :: "Money \<Rightarrow> int \<Rightarrow> nat \<times> string" where
  "Money_ToCString a cap =
     (if cap < 32 then (0, [])
      else let mag = i128_abs (mv a);
               dr = divmul_pow10 mag;
               ip = (ucast (dm_q dr) :: u64);
               fp = (ucast (dm_r dr) :: u64);
               buf = (if mv a <s 0 then ''-'' else []) @ rev (int_digits_rev ip) @ ''.'' @ rev (frac_digits_rev 8 fp)
           in (length buf, buf))"


subsection \<open>Digits\<close>

definition dval :: "nat list \<Rightarrow> nat" where
  "dval ds = foldl (\<lambda>a d. a * 10 + d) 0 ds"

definition dchar :: "nat \<Rightarrow> char" where
  "dchar d = char_of (48 + d)"

definition all_digits :: "nat list \<Rightarrow> bool" where
  "all_digits ds = list_all (\<lambda>d. d < 10) ds"

lemma dval_snoc [simp]: "dval (ds @ [d]) = dval ds * 10 + d"
  by (simp add: dval_def)

lemma dval_nil [simp]: "dval [] = 0"
  by (simp add: dval_def)

lemma dval_bound: "all_digits ds \<Longrightarrow> dval ds < 10 ^ length ds"
  by (induction ds rule: rev_induct) (auto simp: all_digits_def)

lemma dval_prefix: "dval ds \<le> dval (ds @ es)"
  by (induction es rule: rev_induct) (auto simp flip: append_assoc)

lemma of_char_dchar: "d < 10 \<Longrightarrow> (of_char (dchar d) :: nat) = 48 + d"
  by (simp add: dchar_def)

lemma dchar_facts:
  assumes "d < 10"
  shows "char_minus_zero (dchar d) = word_of_nat d" "dchar d \<noteq> CHR ''.''" "dchar d \<noteq> CHR ''-''"
    "dchar d \<noteq> CHR ''+''" "dchar d \<noteq> CHR 0x00"
proof -
  show "char_minus_zero (dchar d) = word_of_nat d"
    by (simp add: char_minus_zero_def of_char_dchar [OF assms])
  have ne: "dchar d \<noteq> c" if "(of_char c :: nat) < 48" for c
    using of_char_dchar [OF assms] that by auto
  show "dchar d \<noteq> CHR ''.''" "dchar d \<noteq> CHR ''-''" "dchar d \<noteq> CHR ''+''" "dchar d \<noteq> CHR 0x00"
    by (rule ne, simp)+
qed

lemma digit_le9: "d < 10 \<Longrightarrow> (word_of_nat d :: u8) \<le> 9" "d < 10 \<Longrightarrow> ucast (word_of_nat d :: u8) = (word_of_nat d :: u64)"
proof -
  assume d: "d < 10"
  have u: "unat (word_of_nat d :: u8) = d" "unat (word_of_nat d :: u64) = d"
    using d by (simp_all add: unat_of_nat)
  show "(word_of_nat d :: u8) \<le> 9" using d by (simp add: word_le_nat_alt u)
  show "ucast (word_of_nat d :: u8) = (word_of_nat d :: u64)"
    by (simp add: word_unat_eq_iff unat_ucast_up u)
qed

text \<open>The pre-multiply test detects exactly the accumulations that do not fit.\<close>

lemma wrap_test:
  fixes a :: u64
  assumes "d < 10"
  shows "(NOT 0 - word_of_nat d) div 10 < a \<longleftrightarrow> 2 ^ 64 \<le> unat a * 10 + d"
    "unat a * 10 + d < 2 ^ 64 \<Longrightarrow> a + (a * 9 + word_of_nat d) = word_of_nat (unat a * 10 + d)"
proof -
  have u: "unat (word_of_nat d :: u64) = d" using assms by (simp add: unat_of_nat)
  have m: "unat (NOT 0 - word_of_nat d :: u64) = 2 ^ 64 - 1 - d"
    by (subst unat_diff_fit) (use assms u in \<open>simp_all add: unsigned_minus_1_eq_mask mask_eq_exp_minus_1\<close>)
  have "(NOT 0 - word_of_nat d) div 10 < a \<longleftrightarrow> (2 ^ 64 - 1 - d) div 10 < unat a"
    by (simp only: word_less_nat_alt unat_div m) simp
  also have "\<dots> \<longleftrightarrow> 2 ^ 64 \<le> unat a * 10 + d"
    using assms by (simp only: div_less_iff_less_mult zero_less_numeral) (rule iffI; simp)
  finally show "(NOT 0 - word_of_nat d) div 10 < a \<longleftrightarrow> 2 ^ 64 \<le> unat a * 10 + d" .
  show "a + (a * 9 + word_of_nat d) = word_of_nat (unat a * 10 + d)"
    by simp
qed

lemma step_int_digit:
  assumes "d < 10" "\<not> sv_seen_dot v" "unat (sv_int_part v) * 10 + d < 2 ^ 64"
  shows "fp_scan_step v (dchar d) = v\<lparr>sv_int_part := word_of_nat (unat (sv_int_part v) * 10 + d),
    sv_n_digits := sv_n_digits v + 1\<rparr>"
  using assms wrap_test [OF assms(1), of "sv_int_part v"]
  by (simp add: fp_scan_step_def Let_def dchar_facts digit_le9)

lemma step_frac_digit:
  assumes "d < 10" "sv_seen_dot v" "unat (sv_frac_int v) * 10 + d < 2 ^ 64"
  shows "fp_scan_step v (dchar d) = v\<lparr>sv_frac_int := word_of_nat (unat (sv_frac_int v) * 10 + d),
    sv_n_frac := sv_n_frac v + 1, sv_n_digits := sv_n_digits v + 1\<rparr>"
  using assms wrap_test [OF assms(1), of "sv_frac_int v"]
  by (simp add: fp_scan_step_def Let_def dchar_facts digit_le9)


text \<open>Scanning a digit string: the accumulators hold its value as long as that fits 64 bits.\<close>

lemma scan_int_digits:
  assumes "all_digits ds" "dval (cs @ ds) < 2 ^ 64" "\<not> sv_seen_dot v" "sv_int_part v = word_of_nat (dval cs)"
  shows "foldl fp_scan_step v (map dchar ds) =
    v\<lparr>sv_int_part := word_of_nat (dval (cs @ ds)), sv_n_digits := sv_n_digits v + word_of_nat (length ds)\<rparr>"
  using assms
proof (induction ds arbitrary: v cs)
  case Nil
  then show ?case by simp
next
  case (Cons d ds)
  have d: "d < 10" and ds: "all_digits ds" using Cons.prems(1) by (simp_all add: all_digits_def)
  have le: "dval (cs @ [d]) \<le> dval ((cs @ [d]) @ ds)" by (rule dval_prefix)
  then have fit: "dval cs * 10 + d < 2 ^ 64" using Cons.prems(2) by simp
  then have u: "unat (sv_int_part v) = dval cs" using Cons.prems(4) by (simp add: unat_of_nat)
  let ?v = "v\<lparr>sv_int_part := word_of_nat (dval (cs @ [d])), sv_n_digits := sv_n_digits v + 1\<rparr>"
  have s: "fp_scan_step v (dchar d) = ?v"
    using step_int_digit [OF d Cons.prems(3)] u fit by simp
  have "foldl fp_scan_step ?v (map dchar ds) = ?v\<lparr>sv_int_part := word_of_nat (dval ((cs @ [d]) @ ds)),
      sv_n_digits := sv_n_digits ?v + word_of_nat (length ds)\<rparr>"
    by (rule Cons.IH [OF ds]) (use Cons.prems in simp_all)
  then show ?case by (simp only: list.map foldl_Cons s) (simp add: add.assoc)
qed

lemma scan_frac_digits:
  assumes "all_digits ds" "dval (cs @ ds) < 2 ^ 64" "sv_seen_dot v" "sv_frac_int v = word_of_nat (dval cs)"
  shows "foldl fp_scan_step v (map dchar ds) =
    v\<lparr>sv_frac_int := word_of_nat (dval (cs @ ds)), sv_n_frac := sv_n_frac v + word_of_nat (length ds),
      sv_n_digits := sv_n_digits v + word_of_nat (length ds)\<rparr>"
  using assms
proof (induction ds arbitrary: v cs)
  case Nil
  then show ?case by simp
next
  case (Cons d ds)
  have d: "d < 10" and ds: "all_digits ds" using Cons.prems(1) by (simp_all add: all_digits_def)
  have le: "dval (cs @ [d]) \<le> dval ((cs @ [d]) @ ds)" by (rule dval_prefix)
  then have fit: "dval cs * 10 + d < 2 ^ 64" using Cons.prems(2) by simp
  then have u: "unat (sv_frac_int v) = dval cs" using Cons.prems(4) by (simp add: unat_of_nat)
  let ?v = "v\<lparr>sv_frac_int := word_of_nat (dval (cs @ [d])), sv_n_frac := sv_n_frac v + 1, sv_n_digits := sv_n_digits v + 1\<rparr>"
  have s: "fp_scan_step v (dchar d) = ?v"
    using step_frac_digit [OF d Cons.prems(3)] u fit by simp
  have "foldl fp_scan_step ?v (map dchar ds) = ?v\<lparr>sv_frac_int := word_of_nat (dval ((cs @ [d]) @ ds)),
      sv_n_frac := sv_n_frac ?v + word_of_nat (length ds), sv_n_digits := sv_n_digits ?v + word_of_nat (length ds)\<rparr>"
    by (rule Cons.IH [OF ds]) (use Cons.prems in simp_all)
  then show ?case by (simp only: list.map foldl_Cons s) (simp add: add.assoc)
qed

lemma step_dot:
  "\<not> sv_seen_dot v \<Longrightarrow> fp_scan_step v (CHR ''.'') = v\<lparr>sv_seen_dot := True\<rparr>"
  by (simp add: fp_scan_step_def Let_def char_minus_zero_def)

definition decimal_text :: "bool \<Rightarrow> nat list \<Rightarrow> nat list \<Rightarrow> string" where
  "decimal_text neg ds fs = (if neg then ''-'' else []) @ map dchar ds @ ''.'' @ map dchar fs"

lemma all_digits_set: "all_digits ds \<Longrightarrow> d \<in> set ds \<Longrightarrow> d < 10"
  by (simp add: all_digits_def list_all_iff)

lemma scan_body:
  assumes "all_digits ds" "all_digits fs" "dval fs < 2 ^ 64" "dval ds < 2 ^ 64"
  shows "foldl fp_scan_step scan_zero (map dchar ds @ ''.'' @ map dchar fs) =
    \<lparr>sv_int_part = word_of_nat (dval ds), sv_frac_int = word_of_nat (dval fs),
     sv_n_frac = word_of_nat (length fs), sv_n_digits = word_of_nat (length ds) + word_of_nat (length fs),
     sv_seen_dot = True, sv_bad = False, sv_dup = False, sv_wrap = False\<rparr>"
proof -
  note f = assms(3)
  have 1: "foldl fp_scan_step scan_zero (map dchar ds) =
      scan_zero\<lparr>sv_int_part := word_of_nat (dval ds), sv_n_digits := word_of_nat (length ds)\<rparr>"
    using scan_int_digits [OF assms(1), of "[]" scan_zero] assms(4) by (simp add: scan_zero_def)
  have 2: "fp_scan_step (scan_zero\<lparr>sv_int_part := word_of_nat (dval ds), sv_n_digits := word_of_nat (length ds)\<rparr>) (CHR ''.'') =
      scan_zero\<lparr>sv_int_part := word_of_nat (dval ds), sv_n_digits := word_of_nat (length ds), sv_seen_dot := True\<rparr>"
    by (subst step_dot) (simp_all add: scan_zero_def)
  show ?thesis
    using scan_frac_digits [OF assms(2), of "[]" "scan_zero\<lparr>sv_int_part := word_of_nat (dval ds),
        sv_n_digits := word_of_nat (length ds), sv_seen_dot := True\<rparr>"] f
    by (simp only: foldl_append foldl_Cons foldl_Nil append_Cons append_Nil 1 2) (simp add: scan_zero_def)
qed

lemma scan_decimal_text:
  assumes "all_digits ds" "all_digits fs" "ds \<noteq> []" "length ds < 2 ^ 20" "length fs < 2 ^ 20"
    "dval ds < 2 ^ 64" "dval fs < 2 ^ 64"
  shows "fp_scan_decimal_string (decimal_text neg ds fs) =
    \<lparr>fs_int_part = word_of_nat (dval ds), fs_frac_int = word_of_nat (dval fs),
     fs_n_frac = word_of_nat (length fs), fs_neg = neg, fs_flags = 0\<rparr>"
proof -
  let ?body = "map dchar ds @ ''.'' @ map dchar fs"
  obtain d ds' where ds: "ds = d # ds'" using assms(3) by (cases ds) auto
  have d: "d < 10" using assms(1) ds by (simp add: all_digits_def)
  have nul: "takeWhile (\<lambda>c. c \<noteq> CHR 0x00) (decimal_text neg ds fs) = decimal_text neg ds fs"
    using all_digits_set [OF assms(1)] all_digits_set [OF assms(2)]
    by (auto simp: takeWhile_eq_all_conv decimal_text_def dchar_facts dchar_facts(5) [THEN not_sym])
  have hd: "hd (decimal_text neg ds fs) = (if neg then CHR ''-'' else dchar d)" "decimal_text neg ds fs \<noteq> []"
    by (simp_all add: decimal_text_def ds)
  have i: "drop (of_bool neg) (decimal_text neg ds fs) = ?body"
    by (simp add: decimal_text_def)
  have nz: "(word_of_nat (length ds) + word_of_nat (length fs) :: u32) \<noteq> 0"
  proof -
    have "unat (word_of_nat (length ds + length fs) :: u32) = length ds + length fs"
      using assms(4,5) by (simp only: unat_of_nat) simp
    then have "unat (word_of_nat (length ds + length fs) :: u32) \<noteq> 0" using ds by simp
    then have "(word_of_nat (length ds + length fs) :: u32) \<noteq> 0" unfolding unat_eq_zero .
    then show ?thesis unfolding of_nat_add .
  qed
  have neg: "(decimal_text neg ds fs \<noteq> [] \<and> hd (decimal_text neg ds fs) = CHR ''-'') = neg"
    "(decimal_text neg ds fs \<noteq> [] \<and> hd (decimal_text neg ds fs) = CHR ''+'') = False"
    using hd d by (simp_all add: dchar_facts)
  show ?thesis
    unfolding fp_scan_decimal_string_def Let_def nul neg simp_thms i scan_body [OF assms(1,2,7,6)]
    using nz by simp
qed

text \<open>The value a decimal text denotes, in units of \<open>10 ^ -8\<close>.\<close>

definition text_units :: "nat list \<Rightarrow> nat list \<Rightarrow> nat" where
  "text_units ds fs = dval ds * 100000000 + dval fs * 10 ^ (8 - length fs)"

lemma cneg_canonical:
  "unat x < 2 ^ 127 \<Longrightarrow> sint (i128_cneg x (neg \<and> x \<noteq> 0)) = (if neg then - int (unat x) else int (unat x))"
  by (cases "x = 0") (simp_all add: sint_i128_cneg)

lemma parse_text:
  assumes "all_digits ds" "all_digits fs" "ds \<noteq> []" "length ds < 2 ^ 20" "length fs \<le> 8" "dval ds < 2 ^ 64"
  shows "mint (mp_value (Money_FromString (decimal_text neg ds fs))) =
      money_sat (if neg then - int (text_units ds fs) else int (text_units ds fs)) \<and>
    mp_flags (Money_FromString (decimal_text neg ds fs)) =
      (if money_lim < int (text_units ds fs) then MONEY_PARSE_OVERFLOW else 0)"
proof -
  let ?N = "text_units ds fs"
  have "(10 :: nat) ^ length fs \<le> 10 ^ 8" by (rule power_increasing [OF assms(5)]) simp
  then have "length fs < 2 ^ 20" "dval fs < 2 ^ 64" using dval_bound [OF assms(2)] assms(5) by simp_all
  note s = scan_decimal_text [OF assms(1-4) this(1) assms(6) this(2), of neg]
  have nf: "unat (if (word_of_nat (length fs) :: u32) < 20 then word_of_nat (length fs) else 19 :: u32) = length fs"
    using assms(5) by (simp add: word_less_nat_alt unat_of_nat)
  have f: "dval fs < 10 ^ length fs" by (rule dval_bound [OF assms(2)])
  have p: "(10 :: nat) ^ length fs * 10 ^ (8 - length fs) = 10 ^ 8"
    using assms(5) by (simp only: power_add [symmetric]) simp
  have fl: "dval fs * 10 ^ (8 - length fs) < 10 ^ 8"
    unfolding p [symmetric] using f by simp
  have uf: "unat (word_of_nat (dval fs) :: u64) = dval fs"
  proof -
    have "(10 :: nat) ^ length fs \<le> 10 ^ 8" by (rule power_increasing [OF assms(5)]) simp
    then show ?thesis using f by (simp add: unat_of_nat)
  qed
  let ?fr = "(word_of_nat (dval fs) :: u64) * FP_POW10 ! (8 - length fs)"
  have fr: "unat ?fr = dval fs * 10 ^ (8 - length fs)"
    using fl FP_POW10_nth [of "8 - length fs"] by (subst unat_mult_fit) (simp_all add: uf)
  let ?sc = "ucast (word_of_nat (dval ds) :: u64) * MONEY_SCALE + ucast ?fr :: u128"
  have ud: "unat (ucast (word_of_nat (dval ds) :: u64) :: u128) = dval ds"
    using assms(6) by (simp add: unat_ucast_up unat_of_nat)
  have um: "unat (ucast (word_of_nat (dval ds) :: u64) * MONEY_SCALE :: u128) = dval ds * 100000000"
    using assms(6) by (subst unat_mult_fit) (simp_all add: ud)
  have sc: "unat ?sc = ?N"
    unfolding text_units_def
    using assms(6) fl by (subst unat_add_fit) (simp_all add: um unat_ucast_up fr)
  have ovf: "(push_bit 63 1 - 1 < ?sc) \<longleftrightarrow> money_lim < int ?N"
    by (simp only: word_less_nat_alt unat_lim sc lim_less_int)
  let ?sat = "if push_bit 63 1 - 1 < ?sc then push_bit 63 1 - 1 else ?sc"
  have sat: "unat ?sat \<le> 2 ^ 63 - 1" "int (unat ?sat) = money_sat (int ?N)"
  proof -
    have m: "money_sat (int ?N) = (if money_lim < int ?N then money_lim else int ?N)"
      by (simp add: money_sat_def money_lim_def)
    show "unat ?sat \<le> 2 ^ 63 - 1"
      using ovf by (simp only: if_distrib [of unat] unat_lim sc lim_less_int split: if_splits) simp
    show "int (unat ?sat) = money_sat (int ?N)"
      unfolding m ovf by (simp only: if_distrib [of unat] if_distrib [of int] unat_lim sc) (simp add: money_lim_def)
  qed
  have neg_sat: "money_sat (- int ?N) = - money_sat (int ?N)" by (simp add: money_sat_def money_lim_def)
  have "Money_FromString (decimal_text neg ds fs) =
      \<lparr>mp_value = Money (i128_cneg ?sat (neg \<and> ?sat \<noteq> 0)),
       mp_flags = (if push_bit 63 1 - 1 < ?sc then MONEY_PARSE_OVERFLOW else 0)\<rparr>"
    unfolding Money_FromString_def s Let_def fp_scan_t.simps nf scale_frac_def
    using assms(5) by simp
  then have r: "mp_value (Money_FromString (decimal_text neg ds fs)) = Money (i128_cneg ?sat (neg \<and> ?sat \<noteq> 0))"
    "mp_flags (Money_FromString (decimal_text neg ds fs)) = (if money_lim < int ?N then MONEY_PARSE_OVERFLOW else 0)"
    by (simp_all only: ovf MoneyParse.simps)
  have "unat ?sat < 2 ^ 127" using sat(1) by (rule order_le_less_trans) simp
  then have "mint (Money (i128_cneg ?sat (neg \<and> ?sat \<noteq> 0))) = (if neg then - int (unat ?sat) else int (unat ?sat))"
    unfolding Money.sel by (rule cneg_canonical)
  then show ?thesis
    unfolding r sat(2) by (simp add: neg_sat)
qed


subsection \<open>Printing and the round trip\<close>

definition digits_of :: "u64 \<Rightarrow> nat list" where
  "digits_of ip = rev (map (\<lambda>c. (of_char c :: nat) - 48) (int_digits_rev ip))"

fun frac_digits :: "nat \<Rightarrow> u64 \<Rightarrow> nat list" where
  "frac_digits 0 fp = []"
| "frac_digits (Suc k) fp = frac_digits k (fp div 10) @ [unat (fp mod 10)]"

lemma mod10: "unat (w mod 10 :: u64) = unat w mod 10" "unat (w div 10 :: u64) = unat w div 10"
  by (simp_all add: unat_mod unat_div)

lemma digit_char_dchar: "digit_char (w mod 10) = dchar (unat w mod 10)"
  by (simp only: digit_char_def dchar_def mod10)

lemma int_digits:
  "rev (int_digits_rev ip) = map dchar (digits_of ip) \<and> all_digits (digits_of ip) \<and>
   dval (digits_of ip) = unat ip \<and> digits_of ip \<noteq> [] \<and> 10 ^ (length (digits_of ip) - 1) \<le> max 1 (unat ip)"
proof (induction ip rule: int_digits_rev.induct)
  case (1 ip)
  let ?d = "unat ip mod 10"
  have d: "?d < 10" by simp
  have c: "(of_char (dchar ?d) :: nat) - 48 = ?d" using of_char_dchar [OF d] by simp
  show ?case
  proof (cases "ip div 10 = 0")
    case True
    then have "unat ip div 10 = 0" using mod10(2) [of ip] by simp
    then have lt: "unat ip < 10" by simp
    have dg: "digits_of ip = [unat ip]"
      unfolding digits_of_def by (subst int_digits_rev.simps) (use True lt c in \<open>simp add: digit_char_dchar\<close>)
    show ?thesis
      unfolding dg by (subst int_digits_rev.simps) (use True lt in \<open>simp add: digit_char_dchar all_digits_def dval_def\<close>)
  next
    case False
    note IH = "1.IH" [OF refl False]
    have dg: "digits_of ip = digits_of (ip div 10) @ [?d]"
      unfolding digits_of_def by (subst int_digits_rev.simps) (use False c in \<open>simp add: digit_char_dchar\<close>)
    have r: "rev (int_digits_rev ip) = map dchar (digits_of ip)"
      unfolding dg by (subst int_digits_rev.simps) (use IH False in \<open>simp add: digit_char_dchar\<close>)
    have q: "0 < unat ip div 10" using False mod10(2) [of ip] by (metis neq0_conv unat_eq_zero)
    have "10 ^ length (digits_of (ip div 10)) = 10 * (10 :: nat) ^ (length (digits_of (ip div 10)) - 1)"
      using IH by (cases "digits_of (ip div 10)") simp_all
    also have "\<dots> \<le> 10 * (unat ip div 10)" using IH q by (simp add: mod10)
    also have "\<dots> \<le> unat ip" by simp
    finally have len: "10 ^ length (digits_of (ip div 10)) \<le> unat ip" .
    show ?thesis
      using IH r len by (simp add: dg all_digits_def mod10)
  qed
qed

lemma int_digits_length: "length (digits_of ip) \<le> 20"
proof (rule ccontr)
  assume "\<not> length (digits_of ip) \<le> 20"
  then have "(10 :: nat) ^ 20 \<le> 10 ^ (length (digits_of ip) - 1)" by (intro power_increasing) simp_all
  also have "\<dots> \<le> max 1 (unat ip)" using int_digits [of ip] by blast
  finally show False using unat_bound_64 [of ip] by simp
qed

lemma frac_digits:
  "rev (frac_digits_rev k fp) = map dchar (frac_digits k fp) \<and> all_digits (frac_digits k fp) \<and>
   length (frac_digits k fp) = k \<and> dval (frac_digits k fp) = unat fp mod 10 ^ k"
proof (induction k arbitrary: fp)
  case 0
  then show ?case by (simp add: all_digits_def)
next
  case (Suc k)
  have "unat fp div 10 mod 10 ^ k * 10 + unat fp mod 10 = unat fp mod 10 ^ Suc k"
    by (simp add: mod_mult2_eq mult.commute)
  then show ?case
    using Suc [of "fp div 10"] by (simp add: digit_char_dchar mod10 all_digits_def)
qed

text \<open>Printing a closed amount and parsing the text gives the amount back with no flag, for
  every buffer the printer accepts; the text needs at most 30 characters, so the 32-byte
  guard is enough.\<close>

theorem Money_text_round_trip:
  assumes "money_closed m" "32 \<le> cap"
  shows "Money_FromString (snd (Money_ToCString m cap)) = \<lparr>mp_value = m, mp_flags = 0\<rparr> \<and>
    fst (Money_ToCString m cap) = length (snd (Money_ToCString m cap)) \<and>
    length (snd (Money_ToCString m cap)) < 32"
proof -
  let ?mag = "i128_abs (mv m)"
  let ?ip = "ucast (dm_q (divmul_pow10 ?mag)) :: u64" and ?fp = "ucast (dm_r (divmul_pow10 ?mag)) :: u64"
  have mag: "unat ?mag \<le> 2 ^ 63 - 1" by (rule closed_unat_abs [OF assms(1)])
  have le: "unat ?mag \<le> 2 ^ 127" by (rule unat_i128_abs_le)
  note dm = divmul_pow10_exact [OF le]
  have dn: "unat (ucast w :: u64) = unat w mod 2 ^ 64" for w :: u128
    by (simp add: unsigned_ucast_eq take_bit_eq_mod)
  have qb: "unat ?mag div 100000000 \<le> (2 ^ 63 - 1) div 100000000" by (rule div_le_mono [OF mag])
  have ip: "unat ?ip = unat ?mag div 100000000" using qb by (simp add: dn dm)
  have "unat ?mag mod 100000000 < 100000000" by simp
  then have fp: "unat ?fp = unat ?mag mod 100000000" by (simp add: dn dm)
  let ?ds = "digits_of ?ip" and ?fs = "frac_digits 8 ?fp"
  note D = int_digits [of ?ip] and F = frac_digits [of 8 ?fp]
  have printed: "snd (Money_ToCString m cap) = decimal_text (mint m < 0) ?ds ?fs"
    using assms(2) D F by (simp add: Money_ToCString_def Let_def decimal_text_def)
  have units: "text_units ?ds ?fs = unat ?mag"
    using D F by (simp add: text_units_def ip fp)
  have "all_digits ?ds" "all_digits ?fs" "?ds \<noteq> []" using D F by blast+
  moreover have "length ?ds < 2 ^ 20" "length ?fs \<le> 8" "dval ?ds < 2 ^ 64"
    using int_digits_length [of ?ip] D F unat_bound_64 [of ?ip] by simp_all
  ultimately have P: "mint (mp_value (Money_FromString (decimal_text (mint m < 0) ?ds ?fs))) =
      money_sat (if mint m < 0 then - int (unat ?mag) else int (unat ?mag))"
    "mp_flags (Money_FromString (decimal_text (mint m < 0) ?ds ?fs)) =
      (if money_lim < int (unat ?mag) then MONEY_PARSE_OVERFLOW else 0)"
    using parse_text [of ?ds ?fs "mint m < 0", unfolded units] by blast+
  have im: "int (unat ?mag) = \<bar>mint m\<bar>" by (rule int_unat_i128_abs)
  have cl: "\<bar>mint m\<bar> \<le> money_lim" using assms(1) by (simp add: money_closed_def)
  have v: "mint (mp_value (Money_FromString (decimal_text (mint m < 0) ?ds ?fs))) = mint m"
  proof -
    have "(if mint m < 0 then - \<bar>mint m\<bar> else \<bar>mint m\<bar>) = mint m" by simp
    then show ?thesis unfolding P(1) im using money_sat_id [OF cl] by (simp only:)
  qed
  have f: "mp_flags (Money_FromString (decimal_text (mint m < 0) ?ds ?fs)) = 0"
    unfolding P(2) im using cl by simp
  have "Money_FromString (decimal_text (mint m < 0) ?ds ?fs) = \<lparr>mp_value = m, mp_flags = 0\<rparr>"
    using v f mint_inject by (cases "Money_FromString (decimal_text (mint m < 0) ?ds ?fs)") simp
  moreover have "fst (Money_ToCString m cap) = length (snd (Money_ToCString m cap))"
    by (simp add: Money_ToCString_def Let_def)
  moreover have "length (decimal_text (mint m < 0) ?ds ?fs) < 32"
    using int_digits_length [of ?ip] F by (simp add: decimal_text_def)
  ultimately show ?thesis unfolding printed by blast
qed

lemma Money_text_round_trip_witness:
  "Money_FromString (snd (Money_ToCString (Money (- 250)) 64)) = \<lparr>mp_value = Money (- 250), mp_flags = 0\<rparr>"
  by (rule conjunct1, rule Money_text_round_trip) (simp_all add: money_closed_def money_lim_def)


subsection \<open>Parsing in general\<close>

text \<open>A decimal text with at most eight fractional digits is parsed exactly: the value is the
  denoted amount saturated at the closure ceiling, with the overflow flag exactly when it is
  beyond it and no other flag.\<close>

theorem Money_FromString_spec:
  assumes "all_digits ds" "all_digits fs" "ds \<noteq> []" "length ds < 2 ^ 20" "length fs \<le> 8" "dval ds < 2 ^ 64"
  shows "mint (mp_value (Money_FromString (decimal_text neg ds fs))) =
      money_sat ((if neg then - 1 else 1) * (int (dval ds) * 100000000 + int (dval fs) * 10 ^ (8 - length fs))) \<and>
    mp_flags (Money_FromString (decimal_text neg ds fs)) =
      (if money_lim < int (dval ds) * 100000000 + int (dval fs) * 10 ^ (8 - length fs)
       then MONEY_PARSE_OVERFLOW else 0)"
proof -
  have u: "int (text_units ds fs) = int (dval ds) * 100000000 + int (dval fs) * 10 ^ (8 - length fs)"
    by (simp add: text_units_def)
  show ?thesis using parse_text [OF assms, of neg] unfolding u by (cases neg) simp_all
qed

lemma Money_FromString_witness:
  "mint (mp_value (Money_FromString (decimal_text True [1, 2] [0, 5]))) = - 1205000000"
  using Money_FromString_spec [of "[1, 2]" "[0, 5]" True]
  by (simp add: all_digits_def dval_def money_sat_def money_lim_def)

text \<open>
  Beyond nineteen fractional digits the scale is clamped while the digits are not: the text
  of one unit, written with twenty decimals, parses as ten units, and the only flag is the one
  documented as "value half-even-rounded".
\<close>

lemma parse_twenty_decimals:
  "Money_FromString (decimal_text False [0] [0, 0, 0, 0, 0, 0, 0, 1, 0, 0, 0, 0, 0, 0, 0, 0, 0, 0, 0, 0]) =
     \<lparr>mp_value = Money 10, mp_flags = MONEY_PARSE_EXCESS_DP\<rparr>"
proof -
  let ?fs = "[0, 0, 0, 0, 0, 0, 0, 1, 0, 0, 0, 0, 0, 0, 0, 0, 0, 0, 0, 0 :: nat]"
  have dv: "dval ?fs = 1000000000000" by (simp add: dval_def)
  have s: "fp_scan_decimal_string (decimal_text False [0] ?fs) =
    \<lparr>fs_int_part = 0, fs_frac_int = 1000000000000, fs_n_frac = 20, fs_neg = False, fs_flags = 0\<rparr>"
    using scan_decimal_text [of "[0]" ?fs False] dv by (simp add: all_digits_def dval_def [of "[0]"])
  have r: "money_round_half_even 10 0 100000000000 = (10 :: u128)"
    by (simp add: money_round_half_even_def)
  show ?thesis
    unfolding Money_FromString_def s Let_def fp_scan_t.simps scale_frac_def
    by (simp add: FP_POW10_def r i128_cneg_word)
qed

end
