(* ===== verification/Spsc_Ring.thy ===== *)
theory Spsc_Ring
  imports Fox_Prelude
begin

text \<open>
  The single-producer single-consumer ring of \<^verbatim>\<open>src/CoreFrameworks/SPSCRing.hpp\<close>.
  The first part models the calls as the code has them, on 64-bit counters, and shows that
  the ring is a bounded FIFO: the contract is the locale \<open>bounded_fifo\<close>, the ring is its
  interpretation.  The second part splits \<^verbatim>\<open>TryPush\<close> and \<^verbatim>\<open>TryPop\<close> at their atomic
  accesses and lets the two threads interleave.
\<close>

subsection \<open>The ring and its calls\<close>

record 'a spsc_ring =
  rg_head :: u64
  rg_cached_tail :: u64
  rg_tail :: u64
  rg_cached_head :: u64
  rg_slots :: "'a list"

definition ring_N :: "'a spsc_ring \<Rightarrow> nat" where
  "ring_N r = length (rg_slots r)"

definition ring_MASK :: "nat \<Rightarrow> u64" where
  "ring_MASK N = word_of_nat N - 1"

definition SPSCRing_Init :: "'a spsc_ring \<Rightarrow> 'a spsc_ring" where
  "SPSCRing_Init r = r\<lparr>rg_head := 0, rg_tail := 0, rg_cached_tail := 0, rg_cached_head := 0\<rparr>"

definition SPSCRing_TryPush :: "'a spsc_ring \<Rightarrow> 'a \<Rightarrow> bool \<times> 'a spsc_ring" where
  "SPSCRing_TryPush r item =
     (let N = word_of_nat (ring_N r);
          head = rg_head r;
          next_head = head + 1;
          r' = (if N < next_head - rg_cached_tail r then r\<lparr>rg_cached_tail := rg_tail r\<rparr> else r)
      in if N < next_head - rg_cached_tail r \<and> N < next_head - rg_cached_tail r' then (False, r')
         else (True, r'\<lparr>rg_slots := (rg_slots r')[unat (head AND ring_MASK (ring_N r)) := item],
                        rg_head := next_head\<rparr>))"

definition SPSCRing_TryPop :: "'a spsc_ring \<Rightarrow> 'a option \<times> 'a spsc_ring" where
  "SPSCRing_TryPop r =
     (let tail = rg_tail r;
          r' = (if rg_cached_head r \<le> tail then r\<lparr>rg_cached_head := rg_head r\<rparr> else r)
      in if rg_cached_head r \<le> tail \<and> rg_cached_head r' \<le> tail then (None, r')
         else (Some (rg_slots r' ! unat (tail AND ring_MASK (ring_N r))), r'\<lparr>rg_tail := tail + 1\<rparr>))"

definition SPSCRing_Depth :: "'a spsc_ring \<Rightarrow> u64" where
  "SPSCRing_Depth r = rg_head r - rg_tail r"

definition SPSCRing_Capacity :: "'a spsc_ring \<Rightarrow> nat" where
  "SPSCRing_Capacity r = ring_N r"

subsection \<open>Well-formed rings\<close>

definition ring_geom :: "nat \<Rightarrow> bool" where
  "ring_geom N \<longleftrightarrow> N \<in> (\<lambda>k. 2 ^ k) ` {1..<64}"

definition ring_ok :: "'a spsc_ring \<Rightarrow> bool" where
  "ring_ok r \<longleftrightarrow> ring_geom (ring_N r) \<and> unat (rg_tail r) \<le> unat (rg_head r) \<and>
     unat (rg_head r) \<le> unat (rg_tail r) + ring_N r \<and>
     unat (rg_cached_tail r) \<le> unat (rg_tail r) \<and>
     unat (rg_tail r) \<le> unat (rg_cached_head r) \<and> unat (rg_cached_head r) \<le> unat (rg_head r)"

definition ring_items :: "'a spsc_ring \<Rightarrow> 'a list" where
  "ring_items r = map (\<lambda>i. rg_slots r ! (i mod ring_N r)) [unat (rg_tail r)..<unat (rg_head r)]"

lemma ring_geom_bounds:
  assumes "ring_geom N"
  shows "2 \<le> N" "N < 2 ^ 64" "unat (word_of_nat N :: u64) = N" "unat (w AND ring_MASK N) = unat (w :: u64) mod N"
proof -
  obtain k where k: "1 \<le> k" "k < 64" "N = 2 ^ k" using assms by (auto simp: ring_geom_def)
  show n2: "2 \<le> N" using k power_increasing [of 1 k "2 :: nat"] by simp
  show n64: "N < 2 ^ 64" unfolding k by (rule power_strict_increasing) (use k in simp_all)
  then show "unat (word_of_nat N :: u64) = N" by (simp add: unat_of_nat)
  have "ring_MASK N = mask k" by (simp add: ring_MASK_def k mask_eq_exp_minus_1)
  then show "unat (w AND ring_MASK N) = unat w mod N"
    by (simp only: take_bit_eq_mask [symmetric] unat_take_bit_mod k)
qed

lemma unat_succ64: "unat w + 1 < 2 ^ 64 \<Longrightarrow> unat (w + 1 :: u64) = unat w + 1"
  by (subst unat_add_fit) simp_all

lemma ring_length_items: "length (ring_items r) = unat (rg_head r) - unat (rg_tail r)"
  by (simp add: ring_items_def)

lemma ring_update_same [simp]:
  "r\<lparr>rg_cached_tail := rg_cached_tail r\<rparr> = r" "r\<lparr>rg_cached_head := rg_cached_head r\<rparr> = r"
  by (cases r, simp)+

text \<open>Two live positions never share a slot, and the next free one never hits a live one.\<close>

lemma mod_window_inj:
  fixes i j N :: nat
  assumes "i < j" "j < i + N"
  shows "i mod N \<noteq> j mod N"
proof
  assume "i mod N = j mod N"
  then have "N dvd j - i" using assms(1) mod_eq_dvd_iff_nat [of i j N] by simp
  then show False using assms dvd_imp_le [of N "j - i"] by simp
qed

lemma ring_init_ok:
  assumes "ring_geom (length (rg_slots r))"
  shows "ring_ok (SPSCRing_Init r)" "ring_items (SPSCRing_Init r) = []"
  using assms by (simp_all add: SPSCRing_Init_def ring_ok_def ring_items_def ring_N_def)

lemma ring_push_ok:
  fixes r :: "'a spsc_ring" and x :: 'a
  assumes ok: "ring_ok r" and room: "unat (rg_head r) + 1 < 2 ^ 64"
  defines "res \<equiv> SPSCRing_TryPush r x"
  shows "ring_ok (snd res) \<and> ring_N (snd res) = ring_N r \<and>
    fst res = (length (ring_items r) < ring_N r) \<and>
    ring_items (snd res) = (if fst res then ring_items r @ [x] else ring_items r) \<and>
    rg_head (snd res) = (if fst res then rg_head r + 1 else rg_head r) \<and> rg_tail (snd res) = rg_tail r"
proof -
  define h t c N where "h = unat (rg_head r)" and "t = unat (rg_tail r)"
    and "c = unat (rg_cached_tail r)" and "N = ring_N r"
  have g: "ring_geom N" using ok by (simp add: ring_ok_def N_def)
  note gb = ring_geom_bounds [OF g]
  have b: "t \<le> h" "h \<le> t + N" "c \<le> t" using ok by (simp_all add: ring_ok_def h_def t_def c_def N_def)
  have s: "unat (rg_head r + 1) = h + 1" using room by (simp add: unat_succ64 h_def)
  have d: "unat (rg_head r + 1 - w) = h + 1 - unat w" if "unat w \<le> h" for w
    using that s by (subst unat_diff_fit) simp_all
  have cmp: "(word_of_nat N < rg_head r + 1 - rg_cached_tail r) = (N < h + 1 - c)"
    "(word_of_nat N < rg_head r + 1 - rg_tail r) = (N < h + 1 - t)"
    using b by (simp_all only: word_less_nat_alt gb d c_def t_def)
  have full: "(N < h + 1 - t) = (h = t + N)" using b by auto
  have idx: "unat (rg_head r AND ring_MASK N) = h mod N" by (simp only: gb h_def)
  show ?thesis
  proof (cases "h = t + N")
    case True
    then have "res = (False, r\<lparr>rg_cached_tail := rg_tail r\<rparr>)"
      using b by (simp add: res_def SPSCRing_TryPush_def Let_def cmp [unfolded N_def] full [unfolded N_def] N_def)
    then show ?thesis
      using ok True by (simp add: ring_ok_def ring_items_def ring_N_def h_def t_def N_def)
  next
    case False
    obtain ct where res: "res = (True, r\<lparr>rg_cached_tail := ct, rg_slots := (rg_slots r)[h mod N := x],
        rg_head := rg_head r + 1\<rparr>)" and ct: "unat ct \<le> t"
    proof (rule that)
      show "res = (True, r\<lparr>rg_cached_tail := if N < h + 1 - c then rg_tail r else rg_cached_tail r,
          rg_slots := (rg_slots r)[h mod N := x], rg_head := rg_head r + 1\<rparr>)"
        using b False full cmp idx
        by (auto simp: res_def SPSCRing_TryPush_def Let_def N_def t_def c_def)
      show "unat (if N < h + 1 - c then rg_tail r else rg_cached_tail r) \<le> t"
        using b by (simp add: t_def c_def)
    qed
    have "ring_items (snd res) = ring_items r @ [x]"
    proof -
      have old: "(rg_slots r)[h mod N := x] ! (i mod N) = rg_slots r ! (i mod N)" if "t \<le> i" "i < h" for i
        using mod_window_inj [of i h N] that b False by (subst nth_list_update_neq) auto
      have new: "(rg_slots r)[h mod N := x] ! (h mod N) = x"
      proof (rule nth_list_update_eq)
        have "h mod N < N" using gb(1) by simp
        then show "h mod N < length (rg_slots r)" by (simp only: N_def ring_N_def)
      qed
      have "ring_items (snd res) = map (\<lambda>i. (rg_slots r)[h mod N := x] ! (i mod N)) [t..<h + 1]"
        using s by (simp add: res ring_items_def ring_N_def t_def N_def)
      also have "\<dots> = map (\<lambda>i. rg_slots r ! (i mod N)) [t..<h] @ [x]"
        using b old new by (simp cong: map_cong)
      finally show ?thesis by (simp add: ring_items_def h_def t_def N_def)
    qed
    moreover have "ring_ok (snd res)"
      using ok False b ct s by (simp add: res ring_ok_def ring_N_def h_def t_def N_def)
    moreover have "fst res = (length (ring_items r) < ring_N r)"
      using False b by (simp add: res ring_length_items h_def t_def N_def)
    ultimately show ?thesis by (simp add: res ring_N_def)
  qed
qed

lemma ring_items_Cons:
  assumes "unat (rg_tail r) < unat (rg_head r)"
  shows "ring_items r = rg_slots r ! (unat (rg_tail r) mod ring_N r) #
    map (\<lambda>i. rg_slots r ! (i mod ring_N r)) [unat (rg_tail r) + 1..<unat (rg_head r)]"
  using assms by (simp add: ring_items_def upt_conv_Cons)

lemma ring_pop_ok:
  fixes r :: "'a spsc_ring"
  assumes ok: "ring_ok r"
  defines "res \<equiv> SPSCRing_TryPop r"
  shows "ring_ok (snd res) \<and> ring_N (snd res) = ring_N r \<and> rg_head (snd res) = rg_head r \<and>
    (case ring_items r of [] \<Rightarrow> fst res = None \<and> ring_items (snd res) = []
     | x # xs \<Rightarrow> fst res = Some x \<and> ring_items (snd res) = xs)"
proof -
  have g: "ring_geom (ring_N r)" using ok by (simp add: ring_ok_def)
  note gb = ring_geom_bounds [OF g]
  show ?thesis
  proof (cases "unat (rg_tail r) < unat (rg_head r)")
    case False
    then have "rg_cached_head r \<le> rg_tail r" "rg_head r \<le> rg_tail r"
      using ok by (simp_all add: ring_ok_def word_le_nat_alt)
    then have "res = (None, r\<lparr>rg_cached_head := rg_head r\<rparr>)"
      by (simp add: res_def SPSCRing_TryPop_def Let_def)
    then show ?thesis
      using ok False by (simp add: ring_ok_def ring_items_def ring_N_def)
  next
    case True
    then have nle: "\<not> rg_head r \<le> rg_tail r" by (simp add: word_le_nat_alt)
    have s: "unat (rg_tail r + 1) = unat (rg_tail r) + 1"
      using True unat_bound_64 [of "rg_head r"] by (intro unat_succ64) linarith
    obtain ch where res: "res = (Some (rg_slots r ! (unat (rg_tail r) mod ring_N r)),
        r\<lparr>rg_cached_head := ch, rg_tail := rg_tail r + 1\<rparr>)"
      and ch: "unat (rg_tail r) < unat ch" "unat ch \<le> unat (rg_head r)"
    proof (rule that)
      let ?ch = "if rg_cached_head r \<le> rg_tail r then rg_head r else rg_cached_head r"
      show "res = (Some (rg_slots r ! (unat (rg_tail r) mod ring_N r)),
          r\<lparr>rg_cached_head := ?ch, rg_tail := rg_tail r + 1\<rparr>)"
        using nle gb(4) [of "rg_tail r"] by (simp add: res_def SPSCRing_TryPop_def Let_def)
      show "unat (rg_tail r) < unat ?ch" "unat ?ch \<le> unat (rg_head r)"
        using nle ok by (simp_all add: word_le_nat_alt ring_ok_def)
    qed
    have "ring_ok (snd res)"
      using ok True s ch by (simp add: res ring_ok_def ring_N_def)
    moreover have "ring_items (snd res) = tl (ring_items r)"
      unfolding ring_items_Cons [OF True] using s by (simp add: res ring_items_def ring_N_def)
    ultimately show ?thesis
      unfolding ring_items_Cons [OF True] by (simp add: res ring_items_Cons [OF True] ring_N_def)
  qed
qed


subsection \<open>The contract of a bounded queue\<close>

datatype 'a queue_op = Q_Push 'a | Q_Pop

text \<open>
  Running a sequence of calls collects the items accepted by the pushes and the items
  delivered by the pops.
\<close>

fun run_queue ::
  "('s \<Rightarrow> 'a \<Rightarrow> bool \<times> 's) \<Rightarrow> ('s \<Rightarrow> 'a option \<times> 's) \<Rightarrow> 'a queue_op list \<Rightarrow> 's \<Rightarrow> 'a list \<times> 'a list \<times> 's"
where
  "run_queue push pop [] s = ([], [], s)"
| "run_queue push pop (Q_Push x # ops) s =
     (let (b, s1) = push s x; (acc, out, s2) = run_queue push pop ops s1
      in (if b then x # acc else acc, out, s2))"
| "run_queue push pop (Q_Pop # ops) s =
     (let (m, s1) = pop s; (acc, out, s2) = run_queue push pop ops s1
      in (acc, (case m of None \<Rightarrow> out | Some x \<Rightarrow> x # out), s2))"

locale bounded_fifo =
  fixes inv :: "'s \<Rightarrow> bool"
    and items :: "'s \<Rightarrow> 'a list"
    and cap :: "'s \<Rightarrow> nat"
    and room :: "'s \<Rightarrow> nat"
    and push :: "'s \<Rightarrow> 'a \<Rightarrow> bool \<times> 's"
    and pop :: "'s \<Rightarrow> 'a option \<times> 's"
  assumes push_law: "inv s \<Longrightarrow> 0 < room s \<Longrightarrow> push s x = (b, s') \<Longrightarrow>
      inv s' \<and> cap s' = cap s \<and> room s \<le> room s' + 1 \<and> b = (length (items s) < cap s) \<and>
      items s' = (if b then items s @ [x] else items s)"
    and pop_law: "inv s \<Longrightarrow> pop s = (m, s') \<Longrightarrow>
      inv s' \<and> cap s' = cap s \<and> room s \<le> room s' \<and>
      (case items s of [] \<Rightarrow> m = None \<and> items s' = [] | y # ys \<Rightarrow> m = Some y \<and> items s' = ys)"
    and cap_law: "inv s \<Longrightarrow> length (items s) \<le> cap s"
begin

lemma run_fifo:
  assumes "inv s" "length ops \<le> room s" "run_queue push pop ops s = (acc, out, s')"
  shows "inv s' \<and> cap s' = cap s \<and> items s @ acc = out @ items s'"
  using assms
proof (induction ops arbitrary: s acc out s')
  case Nil
  then show ?case by simp
next
  case (Cons op ops)
  show ?case
  proof (cases op)
    case (Q_Push x)
    obtain b s1 where p: "push s x = (b, s1)" by (cases "push s x")
    obtain acc1 out1 s2 where r: "run_queue push pop ops s1 = (acc1, out1, s2)"
      by (cases "run_queue push pop ops s1")
    have "0 < room s" using Cons.prems(2) by simp
    note l = push_law [OF Cons.prems(1) this p]
    have "inv s2 \<and> cap s2 = cap s1 \<and> items s1 @ acc1 = out1 @ items s2"
      by (rule Cons.IH [OF _ _ r]) (use l Cons.prems(2) in simp_all)
    then show ?thesis
      using l Cons.prems(3) by (auto simp: Q_Push p r split: if_splits)
  next
    case Q_Pop
    obtain m s1 where p: "pop s = (m, s1)" by (cases "pop s")
    obtain acc1 out1 s2 where r: "run_queue push pop ops s1 = (acc1, out1, s2)"
      by (cases "run_queue push pop ops s1")
    note l = pop_law [OF Cons.prems(1) p]
    have "inv s2 \<and> cap s2 = cap s1 \<and> items s1 @ acc1 = out1 @ items s2"
      by (rule Cons.IH [OF _ _ r]) (use l Cons.prems(2) in simp_all)
    then show ?thesis
      using l Cons.prems(3) by (auto simp: Q_Pop p r split: list.splits)
  qed
qed

lemma run_bounded:
  assumes "inv s" "length ops \<le> room s" "run_queue push pop ops s = (acc, out, s')"
  shows "length (items s) + length acc \<le> length out + cap s"
proof -
  note f = run_fifo [OF assms]
  then have "length (items s) + length acc = length out + length (items s')"
    by (metis length_append)
  then show ?thesis using f cap_law [of s'] by simp
qed

end

definition ring_room :: "'a spsc_ring \<Rightarrow> nat" where
  "ring_room r = 2 ^ 64 - 1 - unat (rg_head r)"

interpretation ring: bounded_fifo ring_ok ring_items ring_N ring_room SPSCRing_TryPush SPSCRing_TryPop
proof
  fix r r' :: "'a spsc_ring" and x b
  assume ok: "ring_ok r" and "0 < ring_room r" and p: "SPSCRing_TryPush r x = (b, r')"
  then have room: "unat (rg_head r) + 1 < 2 ^ 64" by (simp add: ring_room_def)
  have "unat (rg_head r + 1) = unat (rg_head r) + 1" by (rule unat_succ64 [OF room])
  then show "ring_ok r' \<and> ring_N r' = ring_N r \<and> ring_room r \<le> ring_room r' + 1 \<and>
      b = (length (ring_items r) < ring_N r) \<and> ring_items r' = (if b then ring_items r @ [x] else ring_items r)"
    using ring_push_ok [OF ok room, of x] p by (auto simp: ring_room_def)
next
  fix r r' :: "'a spsc_ring" and m
  assume "ring_ok r" "SPSCRing_TryPop r = (m, r')"
  then show "ring_ok r' \<and> ring_N r' = ring_N r \<and> ring_room r \<le> ring_room r' \<and>
      (case ring_items r of [] \<Rightarrow> m = None \<and> ring_items r' = [] | y # ys \<Rightarrow> m = Some y \<and> ring_items r' = ys)"
    using ring_pop_ok [of r] by (simp add: ring_room_def split: list.splits)
next
  fix r :: "'a spsc_ring"
  assume "ring_ok r"
  then show "length (ring_items r) \<le> ring_N r" by (auto simp: ring_ok_def ring_length_items)
qed


definition demo_ring :: "nat spsc_ring" where
  "demo_ring = \<lparr>rg_head = 9, rg_cached_tail = 7, rg_tail = 3, rg_cached_head = 1, rg_slots = [0, 0]\<rparr>"

lemma demo_ring_run:
  "run_queue SPSCRing_TryPush SPSCRing_TryPop [Q_Push 1, Q_Push 2, Q_Push 3, Q_Pop, Q_Push 4] (SPSCRing_Init demo_ring)
   = ([1, 2, 4], [1], \<lparr>rg_head = 3, rg_cached_tail = 1, rg_tail = 1, rg_cached_head = 2, rg_slots = [4, 2]\<rparr>)"
  by (simp add: demo_ring_def SPSCRing_Init_def SPSCRing_TryPush_def SPSCRing_TryPop_def ring_N_def
      ring_MASK_def Let_def)

lemma ring_geom_2: "ring_geom 2"
  unfolding ring_geom_def by (rule image_eqI [of _ _ 1]) simp_all

lemma demo_geom: "ring_geom (length (rg_slots demo_ring))"
  using ring_geom_2 by (simp add: demo_ring_def numeral_2_eq_2)


subsection \<open>Bounded push\<close>

text \<open>
  \<^verbatim>\<open>SPSCRing_TryPushBounded\<close> spins until the push succeeds, the caller's abort flag is seen or a
  cycle budget is used up.  The other thread and the clock are the environment: before the
  attempt number \<open>i\<close> the consumer has turned the ring \<open>r\<close> into \<open>env i r\<close>; \<open>tsc j\<close> and
  \<open>abort j\<close> are what the clock and the flag (if there is one) read at the end of round \<open>j\<close>.
\<close>

fun push_attempts :: "(nat \<Rightarrow> 'a spsc_ring \<Rightarrow> 'a spsc_ring) \<Rightarrow> 'a \<Rightarrow> nat \<Rightarrow> nat \<Rightarrow> 'a spsc_ring \<Rightarrow> bool \<times> 'a spsc_ring"
where
  "push_attempts env item i 0 r = (False, r)"
| "push_attempts env item i (Suc k) r =
     (case SPSCRing_TryPush (env i r) item of
        (True, r') \<Rightarrow> (True, r')
      | (False, r') \<Rightarrow> push_attempts env item (i + 1) k r')"

fun push_rounds ::
  "(nat \<Rightarrow> 'a spsc_ring \<Rightarrow> 'a spsc_ring) \<Rightarrow> (nat \<Rightarrow> u64) \<Rightarrow> (nat \<Rightarrow> bool) option \<Rightarrow> u64 \<Rightarrow> u64 \<Rightarrow>
   'a \<Rightarrow> nat \<Rightarrow> nat \<Rightarrow> 'a spsc_ring \<Rightarrow> (bool \<times> 'a spsc_ring) option"
where
  "push_rounds env tsc abort t0 budget item 0 j r = None"
| "push_rounds env tsc abort t0 budget item (Suc fuel) j r =
     (case push_attempts env item (1 + 64 * j) 64 r of
        (True, r') \<Rightarrow> Some (True, r')
      | (False, r') \<Rightarrow>
          if (case abort of None \<Rightarrow> False | Some ab \<Rightarrow> ab j) then Some (False, r')
          else if budget \<le> tsc j - t0 then Some (False, r')
          else push_rounds env tsc abort t0 budget item fuel (j + 1) r')"

definition SPSCRing_TryPushBounded ::
  "nat \<Rightarrow> (nat \<Rightarrow> 'a spsc_ring \<Rightarrow> 'a spsc_ring) \<Rightarrow> (nat \<Rightarrow> u64) \<Rightarrow> u64 \<Rightarrow> 'a spsc_ring \<Rightarrow> 'a \<Rightarrow> u64 \<Rightarrow>
   (nat \<Rightarrow> bool) option \<Rightarrow> (bool \<times> 'a spsc_ring) option"
where
  "SPSCRing_TryPushBounded fuel env tsc t0 r item budget_cycles abort =
     (case SPSCRing_TryPush (env 0 r) item of
        (True, r') \<Rightarrow> Some (True, r')
      | (False, r') \<Rightarrow> push_rounds env tsc abort t0 budget_cycles item fuel 0 r')"

text \<open>C35: the bounded push always returns: once the clock shows the budget spent at the end of
  some round, that many rounds of fuel suffice, whatever the consumer and the abort flag do.\<close>

theorem TryPushBounded_returns:
  assumes "budget \<le> tsc n - t0"
  shows "\<exists>res. SPSCRing_TryPushBounded (n + 1) env tsc t0 r item budget abort = Some res"
proof -
  have "\<exists>res. push_rounds env tsc abort t0 budget item (Suc k) j r' = Some res" if "j + k = n" for k j r'
    using that
  proof (induction k arbitrary: j r')
    case 0
    then show ?case using assms by (auto split: prod.split bool.split option.split)
  next
    case (Suc k)
    then have "j + 1 + k = n" by simp
    note IH = Suc.IH [OF this]
    show ?case
      using IH by (subst push_rounds.simps) (auto split: prod.split bool.split simp del: push_rounds.simps)
  qed
  from this [of 0 n] show ?thesis
    by (auto simp: SPSCRing_TryPushBounded_def split: prod.split bool.split simp del: push_rounds.simps)
qed

lemma TryPushBounded_returns_witness:
  "\<exists>res. SPSCRing_TryPushBounded 4 (\<lambda>i r. r) (\<lambda>j. 100 * word_of_nat j) 7 demo_ring 5 250 None = Some res"
  using TryPushBounded_returns [of 250 "\<lambda>j. 100 * word_of_nat j" 3 7] by simp


subsection \<open>Two threads\<close>

text \<open>
  The producer and the consumer at the granularity of their accesses to the shared words
  \<open>head\<close>, \<open>tail\<close> and \<open>slots\<close>; the cached copies and the own counter are private.  Each step is
  one such access with the private computation that follows it.  The step relation
  interleaves them freely, which is what the acquire/release pairs on \<open>head\<close> and \<open>tail\<close>
  leave visible: an item is written before the \<open>head\<close> that publishes it is stored.
\<close>

definition ring_see_tail :: "'a spsc_ring \<Rightarrow> 'a spsc_ring" where
  "ring_see_tail r = r\<lparr>rg_cached_tail := rg_tail r\<rparr>"

definition ring_see_head :: "'a spsc_ring \<Rightarrow> 'a spsc_ring" where
  "ring_see_head r = r\<lparr>rg_cached_head := rg_head r\<rparr>"

definition ring_put :: "'a spsc_ring \<Rightarrow> 'a \<Rightarrow> 'a spsc_ring" where
  "ring_put r x = r\<lparr>rg_slots := (rg_slots r)[unat (rg_head r AND ring_MASK (ring_N r)) := x]\<rparr>"

definition ring_publish :: "'a spsc_ring \<Rightarrow> 'a spsc_ring" where
  "ring_publish r = r\<lparr>rg_head := rg_head r + 1\<rparr>"

definition ring_peek :: "'a spsc_ring \<Rightarrow> 'a" where
  "ring_peek r = rg_slots r ! unat (rg_tail r AND ring_MASK (ring_N r))"

definition ring_release :: "'a spsc_ring \<Rightarrow> 'a spsc_ring" where
  "ring_release r = r\<lparr>rg_tail := rg_tail r + 1\<rparr>"

definition push_full :: "'a spsc_ring \<Rightarrow> bool" where
  "push_full r \<longleftrightarrow> word_of_nat (ring_N r) < rg_head r + 1 - rg_cached_tail r"

definition pop_empty :: "'a spsc_ring \<Rightarrow> bool" where
  "pop_empty r \<longleftrightarrow> rg_cached_head r \<le> rg_tail r"

datatype 'a prod_pc = P_Idle | P_LoadTail 'a | P_Write 'a | P_Publish 'a
datatype 'a cons_pc = C_Idle | C_LoadHead | C_Read | C_Publish 'a

record 'a conc =
  cc_ring :: "'a spsc_ring"
  cc_prod :: "'a prod_pc"
  cc_cons :: "'a cons_pc"
  cc_accepted :: "'a list"
  cc_delivered :: "'a list"

inductive conc_step :: "'a conc \<Rightarrow> 'a conc \<Rightarrow> bool" where
  push_begin: "cc_prod s = P_Idle \<Longrightarrow>
    conc_step s (s\<lparr>cc_prod := (if push_full (cc_ring s) then P_LoadTail x else P_Write x)\<rparr>)"
| push_load_tail: "cc_prod s = P_LoadTail x \<Longrightarrow>
    conc_step s (s\<lparr>cc_ring := ring_see_tail (cc_ring s),
                  cc_prod := (if push_full (ring_see_tail (cc_ring s)) then P_Idle else P_Write x)\<rparr>)"
| push_write: "cc_prod s = P_Write x \<Longrightarrow>
    conc_step s (s\<lparr>cc_ring := ring_put (cc_ring s) x, cc_prod := P_Publish x\<rparr>)"
| push_publish: "cc_prod s = P_Publish x \<Longrightarrow>
    conc_step s (s\<lparr>cc_ring := ring_publish (cc_ring s), cc_prod := P_Idle,
                  cc_accepted := cc_accepted s @ [x]\<rparr>)"
| pop_begin: "cc_cons s = C_Idle \<Longrightarrow>
    conc_step s (s\<lparr>cc_cons := (if pop_empty (cc_ring s) then C_LoadHead else C_Read)\<rparr>)"
| pop_load_head: "cc_cons s = C_LoadHead \<Longrightarrow>
    conc_step s (s\<lparr>cc_ring := ring_see_head (cc_ring s),
                  cc_cons := (if pop_empty (ring_see_head (cc_ring s)) then C_Idle else C_Read)\<rparr>)"
| pop_read: "cc_cons s = C_Read \<Longrightarrow>
    conc_step s (s\<lparr>cc_cons := C_Publish (ring_peek (cc_ring s))\<rparr>)"
| pop_publish: "cc_cons s = C_Publish y \<Longrightarrow>
    conc_step s (s\<lparr>cc_ring := ring_release (cc_ring s), cc_cons := C_Idle,
                  cc_delivered := cc_delivered s @ [y]\<rparr>)"

inductive conc_reach :: "'a conc \<Rightarrow> 'a conc \<Rightarrow> bool" where
  reach_refl: "conc_reach s s"
| reach_step: "conc_reach s t \<Longrightarrow> conc_step t u \<Longrightarrow> conc_reach s u"

definition conc_init :: "'a spsc_ring \<Rightarrow> 'a conc" where
  "conc_init r = \<lparr>cc_ring = SPSCRing_Init r, cc_prod = P_Idle, cc_cons = C_Idle,
                  cc_accepted = [], cc_delivered = []\<rparr>"

text \<open>
  The invariant: the queued items are what was accepted and not yet delivered, a producer
  about to write has room behind the consumer, a producer about to publish has its item in
  the slot, a consumer about to read has an item, and one about to publish read the oldest.
\<close>

definition conc_inv :: "'a conc \<Rightarrow> bool" where
  "conc_inv s \<longleftrightarrow> ring_ok (cc_ring s) \<and> unat (rg_head (cc_ring s)) = length (cc_accepted s) \<and>
     unat (rg_tail (cc_ring s)) = length (cc_delivered s) \<and>
     cc_accepted s = cc_delivered s @ ring_items (cc_ring s) \<and>
     (case cc_prod s of P_Write x \<Rightarrow> length (ring_items (cc_ring s)) < ring_N (cc_ring s)
      | P_Publish x \<Rightarrow> length (ring_items (cc_ring s)) < ring_N (cc_ring s) \<and>
          rg_slots (cc_ring s) ! (unat (rg_head (cc_ring s)) mod ring_N (cc_ring s)) = x
      | _ \<Rightarrow> True) \<and>
     (case cc_cons s of C_Read \<Rightarrow> unat (rg_tail (cc_ring s)) < unat (rg_cached_head (cc_ring s))
      | C_Publish y \<Rightarrow> unat (rg_tail (cc_ring s)) < unat (rg_cached_head (cc_ring s)) \<and>
          rg_slots (cc_ring s) ! (unat (rg_tail (cc_ring s)) mod ring_N (cc_ring s)) = y
      | _ \<Rightarrow> True)"

lemma ring_parts [simp]:
  "rg_head (ring_see_tail r) = rg_head r" "rg_tail (ring_see_tail r) = rg_tail r"
  "rg_cached_head (ring_see_tail r) = rg_cached_head r" "rg_slots (ring_see_tail r) = rg_slots r"
  "rg_head (ring_see_head r) = rg_head r" "rg_tail (ring_see_head r) = rg_tail r"
  "rg_cached_head (ring_see_head r) = rg_head r" "rg_slots (ring_see_head r) = rg_slots r"
  "rg_head (ring_put r x) = rg_head r" "rg_tail (ring_put r x) = rg_tail r"
  "rg_cached_head (ring_put r x) = rg_cached_head r"
  "rg_head (ring_publish r) = rg_head r + 1" "rg_tail (ring_publish r) = rg_tail r"
  "rg_cached_head (ring_publish r) = rg_cached_head r" "rg_slots (ring_publish r) = rg_slots r"
  "rg_head (ring_release r) = rg_head r" "rg_tail (ring_release r) = rg_tail r + 1"
  "rg_cached_head (ring_release r) = rg_cached_head r" "rg_slots (ring_release r) = rg_slots r"
  "ring_items (ring_see_tail r) = ring_items r" "ring_items (ring_see_head r) = ring_items r"
  "ring_N (ring_see_tail r) = ring_N r" "ring_N (ring_see_head r) = ring_N r"
  "ring_N (ring_put r x) = ring_N r" "ring_N (ring_publish r) = ring_N r" "ring_N (ring_release r) = ring_N r"
  by (simp_all add: ring_see_tail_def ring_see_head_def ring_put_def ring_publish_def ring_release_def
      ring_items_def ring_N_def)

lemma push_full_iff:
  assumes "ring_ok r" "unat (rg_head r) + 1 < 2 ^ 64"
  shows "push_full r \<longleftrightarrow> ring_N r < unat (rg_head r) + 1 - unat (rg_cached_tail r)"
proof -
  have "ring_geom (ring_N r)" using assms by (simp add: ring_ok_def)
  note gb = ring_geom_bounds [OF this]
  have "unat (rg_head r + 1 - rg_cached_tail r) = unat (rg_head r) + 1 - unat (rg_cached_tail r)"
    using assms unat_succ64 [OF assms(2)] by (subst unat_diff_fit) (auto simp: ring_ok_def)
  then show ?thesis by (simp only: push_full_def word_less_nat_alt gb)
qed

lemma not_push_full_room:
  assumes "ring_ok r" "unat (rg_head r) + 1 < 2 ^ 64" "\<not> push_full r"
  shows "length (ring_items r) < ring_N r"
  using assms push_full_iff [OF assms(1,2)] by (auto simp: ring_ok_def ring_length_items)

lemma pop_empty_iff: "pop_empty r \<longleftrightarrow> \<not> unat (rg_tail r) < unat (rg_cached_head r)"
  by (simp add: pop_empty_def word_le_nat_alt not_less)

lemma ring_ok_see: "ring_ok r \<Longrightarrow> ring_ok (ring_see_tail r)" "ring_ok r \<Longrightarrow> ring_ok (ring_see_head r)"
  by (simp_all add: ring_ok_def ring_see_tail_def ring_see_head_def ring_N_def)

lemma ring_idx: "ring_ok r \<Longrightarrow> unat (w AND ring_MASK (ring_N r)) = unat w mod ring_N r"
  by (simp add: ring_ok_def ring_geom_bounds)

lemma ring_peek_nth: "ring_ok r \<Longrightarrow> ring_peek r = rg_slots r ! (unat (rg_tail r) mod ring_N r)"
  by (simp only: ring_peek_def ring_idx)

lemma ring_put_facts:
  assumes ok: "ring_ok r" and len: "length (ring_items r) < ring_N r"
  shows "ring_ok (ring_put r x)" "ring_items (ring_put r x) = ring_items r"
    "rg_slots (ring_put r x) ! (unat (rg_head r) mod ring_N r) = x"
    "unat (rg_tail r) < unat (rg_cached_head r) \<Longrightarrow>
       rg_slots (ring_put r x) ! (unat (rg_tail r) mod ring_N r) = rg_slots r ! (unat (rg_tail r) mod ring_N r)"
proof -
  have tl: "unat (rg_tail r) \<le> unat (rg_head r)" and n: "2 \<le> ring_N r"
    using ok by (simp_all add: ring_ok_def ring_geom_bounds)
  have slots: "rg_slots (ring_put r x) = (rg_slots r)[unat (rg_head r) mod ring_N r := x]"
    by (simp add: ring_put_def ring_idx [OF ok])
  have old: "rg_slots (ring_put r x) ! (i mod ring_N r) = rg_slots r ! (i mod ring_N r)"
    if "unat (rg_tail r) \<le> i" "i < unat (rg_head r)" for i
  proof -
    have "unat (rg_head r) < i + ring_N r" using len that by (simp add: ring_length_items)
    then show ?thesis using mod_window_inj [of i "unat (rg_head r)" "ring_N r"] that by (simp add: slots)
  qed
  show "ring_ok (ring_put r x)" using ok by (simp add: ring_ok_def ring_put_def ring_N_def)
  show "ring_items (ring_put r x) = ring_items r" using old by (simp add: ring_items_def)
  have "unat (rg_head r) mod ring_N r < ring_N r" using n by simp
  then show "rg_slots (ring_put r x) ! (unat (rg_head r) mod ring_N r) = x"
    unfolding slots by (intro nth_list_update_eq) (simp only: ring_N_def)
  show "unat (rg_tail r) < unat (rg_cached_head r) \<Longrightarrow>
       rg_slots (ring_put r x) ! (unat (rg_tail r) mod ring_N r) = rg_slots r ! (unat (rg_tail r) mod ring_N r)"
    using ok by (intro old) (simp_all add: ring_ok_def)
qed

lemma ring_publish_facts:
  assumes ok: "ring_ok r" and len: "length (ring_items r) < ring_N r" and room: "unat (rg_head r) + 1 < 2 ^ 64"
  shows "ring_ok (ring_publish r)"
    "ring_items (ring_publish r) = ring_items r @ [rg_slots r ! (unat (rg_head r) mod ring_N r)]"
  using ok len room
  by (simp_all add: ring_ok_def ring_items_def ring_length_items unat_succ64 ring_publish_def ring_N_def)

lemma ring_release_facts:
  assumes ok: "ring_ok r" and lt: "unat (rg_tail r) < unat (rg_cached_head r)"
  shows "ring_ok (ring_release r)" "unat (rg_tail r + 1) = unat (rg_tail r) + 1"
    "ring_items r = rg_slots r ! (unat (rg_tail r) mod ring_N r) # ring_items (ring_release r)"
proof -
  have ne: "unat (rg_tail r) < unat (rg_head r)" using assms by (simp add: ring_ok_def)
  show s: "unat (rg_tail r + 1) = unat (rg_tail r) + 1"
    using ne unat_bound_64 [of "rg_head r"] by (intro unat_succ64) linarith
  show "ring_ok (ring_release r)" using ok lt s by (simp add: ring_ok_def ring_release_def ring_N_def)
  show "ring_items r = rg_slots r ! (unat (rg_tail r) mod ring_N r) # ring_items (ring_release r)"
    unfolding ring_items_Cons [OF ne] using s by (simp add: ring_items_def ring_N_def ring_release_def)
qed

lemma conc_inv_init:
  assumes "ring_geom (length (rg_slots r))"
  shows "conc_inv (conc_init r)"
  using ring_init_ok [OF assms] by (simp add: conc_inv_def conc_init_def SPSCRing_Init_def)

lemma conc_inv_step:
  assumes "conc_step s u" "conc_inv s" "length (cc_accepted u) + 1 < 2 ^ 64"
  shows "conc_inv u"
  using assms
proof (induction rule: conc_step.induct)
  case (push_begin s x)
  then show ?case
    using not_push_full_room [of "cc_ring s"] by (auto simp: conc_inv_def split: cons_pc.splits)
next
  case (push_load_tail s x)
  then have "ring_ok (ring_see_tail (cc_ring s))" "unat (rg_head (ring_see_tail (cc_ring s))) + 1 < 2 ^ 64"
    by (simp_all add: conc_inv_def ring_ok_see)
  from push_load_tail not_push_full_room [OF this] show ?case
    by (auto simp: conc_inv_def ring_ok_see split: cons_pc.splits)
next
  case (push_write s x)
  then have ok: "ring_ok (cc_ring s)" and len: "length (ring_items (cc_ring s)) < ring_N (cc_ring s)"
    by (simp_all add: conc_inv_def)
  show ?case
    using push_write ring_put_facts [OF ok len, of x] ok
    by (auto simp: conc_inv_def ring_ok_def split: cons_pc.splits)
next
  case (push_publish s x)
  then have "ring_ok (cc_ring s)" "length (ring_items (cc_ring s)) < ring_N (cc_ring s)"
    and room: "unat (rg_head (cc_ring s)) + 1 < 2 ^ 64" by (simp_all add: conc_inv_def)
  from push_publish ring_publish_facts [OF this] room show ?case
    by (auto simp: conc_inv_def unat_succ64 split: cons_pc.splits)
next
  case (pop_begin s)
  then show ?case by (auto simp: conc_inv_def pop_empty_iff split: prod_pc.splits)
next
  case (pop_load_head s)
  then show ?case
    by (auto simp: conc_inv_def ring_ok_see pop_empty_iff split: prod_pc.splits)
next
  case (pop_read s)
  then show ?case by (auto simp: conc_inv_def ring_peek_nth split: prod_pc.splits)
next
  case (pop_publish s y)
  then have "ring_ok (cc_ring s)" "unat (rg_tail (cc_ring s)) < unat (rg_cached_head (cc_ring s))"
    by (simp_all add: conc_inv_def)
  from pop_publish ring_release_facts [OF this] show ?case
    by (auto simp: conc_inv_def split: prod_pc.splits)
qed


text \<open>The composition of the producer's steps, run alone, is the call; likewise the consumer's.\<close>

lemma try_push_steps:
  "SPSCRing_TryPush r x =
     (if push_full r \<and> push_full (ring_see_tail r) then (False, ring_see_tail r)
      else (True, ring_publish (ring_put (if push_full r then ring_see_tail r else r) x)))"
  by (simp add: SPSCRing_TryPush_def push_full_def ring_see_tail_def ring_put_def ring_publish_def
      ring_N_def Let_def)

lemma try_pop_steps:
  "SPSCRing_TryPop r =
     (if pop_empty r \<and> pop_empty (ring_see_head r) then (None, ring_see_head r)
      else (Some (ring_peek r), ring_release (if pop_empty r then ring_see_head r else r)))"
  by (simp add: SPSCRing_TryPop_def pop_empty_def ring_see_head_def ring_peek_def ring_release_def
      ring_N_def Let_def)

lemma conc_accepted_mono: "conc_step s u \<Longrightarrow> length (cc_accepted s) \<le> length (cc_accepted u)"
  by (induction rule: conc_step.induct) simp_all

lemma conc_inv_reach:
  assumes "conc_reach s u" "conc_inv s" "length (cc_accepted u) + 1 < 2 ^ 64"
  shows "conc_inv u"
  using assms
proof (induction rule: conc_reach.induct)
  case (reach_refl s)
  then show ?case by simp
next
  case (reach_step s t u)
  have "length (cc_accepted t) + 1 < 2 ^ 64"
    using conc_accepted_mono [OF reach_step.hyps(2)] reach_step.prems by simp
  then show ?case
    using reach_step by (intro conc_inv_step [of t u]) simp_all
qed

text \<open>C33: in every interleaving of one producer and one consumer, the consumer has been given a
  prefix of the accepted items, in order and without loss or duplication, the rest being
  exactly the queued ones; and a producer about to write a slot never races with a consumer
  about to read one: they are at different slots.\<close>

theorem SPSC_two_threads:
  assumes "ring_geom (length (rg_slots r))" "conc_reach (conc_init r) s"
    and "length (cc_accepted s) + 1 < 2 ^ 64"
  shows "cc_accepted s = cc_delivered s @ ring_items (cc_ring s) \<and>
    (case (cc_prod s, cc_cons s) of
       (P_Write x, C_Read) \<Rightarrow>
         unat (rg_head (cc_ring s) AND ring_MASK (ring_N (cc_ring s))) \<noteq>
         unat (rg_tail (cc_ring s) AND ring_MASK (ring_N (cc_ring s)))
     | _ \<Rightarrow> True)"
proof -
  have inv: "conc_inv s"
    by (rule conc_inv_reach [OF assms(2) conc_inv_init [OF assms(1)] assms(3)])
  have ok: "ring_ok (cc_ring s)" using inv by (simp add: conc_inv_def)
  have "unat (rg_head (cc_ring s)) mod ring_N (cc_ring s) \<noteq> unat (rg_tail (cc_ring s)) mod ring_N (cc_ring s)"
    if "cc_prod s = P_Write x" "cc_cons s = C_Read" for x
  proof -
    have "length (ring_items (cc_ring s)) < ring_N (cc_ring s)"
      "unat (rg_tail (cc_ring s)) < unat (rg_cached_head (cc_ring s))"
      using inv unfolding conc_inv_def that prod_pc.case cons_pc.case by blast+
    then have "unat (rg_tail (cc_ring s)) < unat (rg_head (cc_ring s))"
      "unat (rg_head (cc_ring s)) < unat (rg_tail (cc_ring s)) + ring_N (cc_ring s)"
      using ok unfolding ring_ok_def ring_length_items by linarith+
    then show ?thesis by (rule mod_window_inj [THEN not_sym])
  qed
  then have "case (cc_prod s, cc_cons s) of
       (P_Write x, C_Read) \<Rightarrow>
         unat (rg_head (cc_ring s) AND ring_MASK (ring_N (cc_ring s))) \<noteq>
         unat (rg_tail (cc_ring s) AND ring_MASK (ring_N (cc_ring s)))
     | _ \<Rightarrow> True"
    by (cases "cc_prod s"; cases "cc_cons s") (simp_all add: ring_idx [OF ok])
  moreover have "cc_accepted s = cc_delivered s @ ring_items (cc_ring s)"
    using inv unfolding conc_inv_def by blast
  ultimately show ?thesis by blast
qed

lemma conc_one_push:
  "conc_reach (conc_init demo_ring) (conc_init demo_ring\<lparr>cc_ring := ring_publish (ring_put (SPSCRing_Init demo_ring) 8),
     cc_accepted := [8]\<rparr>)"
proof -
  let ?s0 = "conc_init demo_ring"
  have f: "\<not> push_full (SPSCRing_Init demo_ring)"
    by (simp add: push_full_def SPSCRing_Init_def demo_ring_def ring_N_def)
  have "conc_step ?s0 (?s0\<lparr>cc_prod := P_Write 8\<rparr>)"
    using push_begin [of ?s0 8] f by (simp add: conc_init_def)
  then have "conc_reach ?s0 (?s0\<lparr>cc_prod := P_Write 8\<rparr>)" by (blast intro: conc_reach.intros)
  moreover have "conc_step (?s0\<lparr>cc_prod := P_Write 8\<rparr>)
      (?s0\<lparr>cc_ring := ring_put (SPSCRing_Init demo_ring) 8, cc_prod := P_Publish 8\<rparr>)"
    using push_write [of "?s0\<lparr>cc_prod := P_Write 8\<rparr>" 8] by (simp add: conc_init_def)
  moreover have "conc_step (?s0\<lparr>cc_ring := ring_put (SPSCRing_Init demo_ring) 8, cc_prod := P_Publish 8\<rparr>)
      (?s0\<lparr>cc_ring := ring_publish (ring_put (SPSCRing_Init demo_ring) 8), cc_accepted := [8]\<rparr>)"
    using push_publish [of "?s0\<lparr>cc_ring := ring_put (SPSCRing_Init demo_ring) 8, cc_prod := P_Publish 8\<rparr>" 8]
    by (simp add: conc_init_def)
  ultimately show ?thesis by (blast intro: conc_reach.intros)
qed

lemma SPSC_two_threads_witness:
  "[8] = [] @ ring_items (ring_publish (ring_put (SPSCRing_Init demo_ring) (8 :: nat)))"
  using SPSC_two_threads [OF demo_geom conc_one_push] by (simp add: conc_init_def)

end
