(* ===== verification/Bitmap.thy ===== *)
theory Bitmap
  imports Fox_Prelude
begin

text \<open>
  The bitmap and packed-field macros of \<^verbatim>\<open>src/MemHeaders/BitmapMacros.hpp\<close>, at any width.
  A slot bitmap is read as the increasing list of its set positions, \<open>bits_of\<close>.
\<close>

subsection \<open>Single masks\<close>

definition BITMAP_IS_SET :: "'a::len word \<Rightarrow> 'a word \<Rightarrow> bool" where
  "BITMAP_IS_SET field m \<longleftrightarrow> field AND m \<noteq> 0"

definition BITMAP_SET :: "'a::len word \<Rightarrow> 'a word \<Rightarrow> 'a word" where
  "BITMAP_SET field m = field OR m"

definition BITMAP_CLR :: "'a::len word \<Rightarrow> 'a word \<Rightarrow> 'a word" where
  "BITMAP_CLR field m = field AND NOT m"

definition BITMAP_TOGGLE :: "'a::len word \<Rightarrow> 'a word \<Rightarrow> 'a word" where
  "BITMAP_TOGGLE field m = field XOR m"

definition BITMAP_ANY :: "'a::len word \<Rightarrow> 'a word \<Rightarrow> bool" where
  "BITMAP_ANY field ms \<longleftrightarrow> field AND ms \<noteq> 0"

definition BITMAP_ALL :: "'a::len word \<Rightarrow> 'a word \<Rightarrow> bool" where
  "BITMAP_ALL field ms \<longleftrightarrow> field AND ms = ms"

definition BITMAP_NONE :: "'a::len word \<Rightarrow> 'a word \<Rightarrow> bool" where
  "BITMAP_NONE field ms \<longleftrightarrow> field AND ms = 0"

definition BITMAP_BIT :: "nat \<Rightarrow> 'a::len word" where
  "BITMAP_BIT n = push_bit n 1"

lemma bit_push_one: "bit (push_bit n 1 :: 'a::len word) i \<longleftrightarrow> i = n \<and> n < LENGTH('a)"
  by (auto simp: bit_simps)

lemma word_nonzero_iff: "(w :: 'a::len word) \<noteq> 0 \<longleftrightarrow> (\<exists>i. bit w i)"
  by (metis bit_0_eq bit_word_eqI bot_apply bot_bool_def)

lemma bit_BITMAP_BIT: "bit (BITMAP_BIT n :: 'a::len word) i \<longleftrightarrow> i = n \<and> n < LENGTH('a)"
  by (auto simp: BITMAP_BIT_def bit_simps)

lemma is_set_bit: "n < LENGTH('a) \<Longrightarrow> BITMAP_IS_SET (w :: 'a::len word) (BITMAP_BIT n) \<longleftrightarrow> bit w n"
  by (simp only: BITMAP_IS_SET_def word_nonzero_iff bit_and_iff bit_BITMAP_BIT) blast

lemma bit_set: "bit (BITMAP_SET w (BITMAP_BIT n)) i \<longleftrightarrow> bit (w :: 'a::len word) i \<or> (i = n \<and> n < LENGTH('a))"
  by (simp add: BITMAP_SET_def bit_or_iff bit_BITMAP_BIT)

lemma bit_clr: "bit (BITMAP_CLR w (BITMAP_BIT n)) i \<longleftrightarrow> bit (w :: 'a::len word) i \<and> i \<noteq> n"
  by (auto simp: BITMAP_CLR_def bit_and_iff bit_not_iff bit_BITMAP_BIT dest: bit_imp_le_length)

subsection \<open>Set positions\<close>

definition bits_of :: "'a::len word \<Rightarrow> nat list" where
  "bits_of w = filter (bit w) [0..<LENGTH('a)]"

definition BITMAP_POPCOUNT :: "'a::len word \<Rightarrow> nat" where
  "BITMAP_POPCOUNT w = length (bits_of w)"

text \<open>\<^verbatim>\<open>__builtin_ctz\<close> is undefined on zero; the callers test for it, the model gives the width.\<close>

definition BITMAP_FIRST :: "'a::len word \<Rightarrow> nat" where
  "BITMAP_FIRST w = (case bits_of w of [] \<Rightarrow> LENGTH('a) | i # _ \<Rightarrow> i)"

lemma set_bits_of: "set (bits_of w) = {i. bit (w :: 'a::len word) i}"
  by (auto simp: bits_of_def dest: bit_imp_le_length)

lemma distinct_bits_of: "distinct (bits_of w)"
  by (simp add: bits_of_def)

lemma sorted_bits_of: "sorted (bits_of w)"
  by (simp add: bits_of_def sorted_wrt_filter)

lemma popcount_card: "BITMAP_POPCOUNT w = card {i. bit w i}"
  by (metis BITMAP_POPCOUNT_def distinct_bits_of distinct_card set_bits_of)

lemma finite_bits: "finite {i. bit (w :: 'a::len word) i}"
  using finite_set [of "bits_of w"] by (simp only: set_bits_of)

lemma bits_of_zero_iff: "bits_of w = [] \<longleftrightarrow> w = 0"
proof
  assume "bits_of w = []"
  then have "{i. bit w i} = {}" using set_bits_of [of w] by simp
  then show "w = 0" by (intro bit_word_eqI) auto
qed (simp add: bits_of_def)

lemma bits_of_zero [simp]: "bits_of 0 = []"
  by (simp add: bits_of_zero_iff)

lemma popcount_zero_iff: "BITMAP_POPCOUNT w = 0 \<longleftrightarrow> w = 0"
  by (simp add: BITMAP_POPCOUNT_def bits_of_zero_iff)

lemma popcount_le: "BITMAP_POPCOUNT (w :: 'a::len word) \<le> LENGTH('a)"
  using length_filter_le [of "bit w" "[0..<LENGTH('a)]"] by (simp add: BITMAP_POPCOUNT_def bits_of_def)

lemma popcount_set:
  assumes "n < LENGTH('a)" "\<not> bit (w :: 'a::len word) n"
  shows "BITMAP_POPCOUNT (BITMAP_SET w (BITMAP_BIT n)) = BITMAP_POPCOUNT w + 1"
proof -
  have "{i. bit (BITMAP_SET w (BITMAP_BIT n)) i} = insert n {i. bit w i}"
    using assms(1) by (auto simp: bit_set)
  then show ?thesis using assms(2) finite_bits [of w] by (simp add: popcount_card)
qed

lemma popcount_clr:
  assumes "bit (w :: 'a::len word) n"
  shows "BITMAP_POPCOUNT (BITMAP_CLR w (BITMAP_BIT n)) + 1 = BITMAP_POPCOUNT w"
proof -
  have "{i. bit (BITMAP_CLR w (BITMAP_BIT n)) i} = {i. bit w i} - {n}" by (auto simp: bit_clr)
  then show ?thesis
    using assms card.remove [OF finite_bits, of n w] by (simp add: popcount_card)
qed

lemma first_bit:
  assumes "w \<noteq> 0"
  shows "bit w (BITMAP_FIRST w)" "bit w i \<Longrightarrow> BITMAP_FIRST w \<le> i" "BITMAP_FIRST (w :: 'a::len word) < LENGTH('a)"
proof -
  obtain j js where b: "bits_of w = j # js" using assms bits_of_zero_iff [of w] by (cases "bits_of w") auto
  then have f: "BITMAP_FIRST w = j" by (simp add: BITMAP_FIRST_def)
  have "j \<in> set (bits_of w)" using b by simp
  then show "bit w (BITMAP_FIRST w)" by (simp add: f set_bits_of)
  then show "BITMAP_FIRST w < LENGTH('a)" by (rule bit_imp_le_length)
  show "BITMAP_FIRST w \<le> i" if "bit w i"
  proof -
    have "i \<in> set (j # js)" using that set_bits_of [of w] b by auto
    then show ?thesis using sorted_bits_of [of w] b f by auto
  qed
qed

text \<open>
  The loop \<^verbatim>\<open>while (a) { idx = ctz(a); ...; a &= a - 1; }\<close> visits the set positions in
  increasing order: \<open>bitmap_fold\<close> is that loop, as \<open>bitmap_fold_step\<close> shows.
\<close>

definition bitmap_fold :: "(nat \<Rightarrow> 's \<Rightarrow> 's) \<Rightarrow> 'a::len word \<Rightarrow> 's \<Rightarrow> 's" where
  "bitmap_fold f a s = fold f (bits_of a) s"

lemma and_pred_clears:
  assumes "(w :: 'a::len word) \<noteq> 0"
  shows "w AND (w - 1) = BITMAP_CLR w (BITMAP_BIT (BITMAP_FIRST w))"
proof -
  define k where "k = BITMAP_FIRST w"
  define u where "u = BITMAP_CLR w (BITMAP_BIT k)"
  have k: "bit w k" "k < LENGTH('a)" using first_bit [OF assms] by (simp_all add: k_def)
  have low: "\<not> bit u i" if "i \<le> k" for i
    using first_bit(2) [OF assms, of i] that by (auto simp: u_def bit_clr k_def)
  have "u AND BITMAP_BIT k = 0" using low by (intro bit_word_eqI) (auto simp: bit_and_iff bit_BITMAP_BIT)
  then have "u + BITMAP_BIT k = u OR BITMAP_BIT k" by (rule disjunctive_add_eq_or)
  also have "\<dots> = w" using k by (intro bit_word_eqI) (auto simp: u_def bit_or_iff bit_clr bit_BITMAP_BIT)
  finally have w: "w - 1 = u + mask k" by (simp add: BITMAP_BIT_def mask_eq_exp_minus_1 algebra_simps)
  have "u AND mask k = 0" using low by (intro bit_word_eqI) (auto simp: bit_and_iff bit_mask_iff)
  then have p: "w - 1 = u OR mask k" unfolding w by (rule disjunctive_add_eq_or)
  have "w AND (u OR mask k) = u"
  proof (rule bit_word_eqI)
    fix i
    assume "i < LENGTH('a)"
    show "bit (w AND (u OR mask k)) i = bit u i"
      using first_bit(2) [OF assms, of i] low [of i]
      by (auto simp: bit_and_iff bit_or_iff bit_mask_iff u_def bit_clr k_def)
  qed
  then show ?thesis unfolding p u_def k_def .
qed

lemma bits_of_clear_first:
  assumes "(w :: 'a::len word) \<noteq> 0"
  shows "bits_of w = BITMAP_FIRST w # bits_of (w AND (w - 1))"
proof -
  have "set (bits_of (w AND (w - 1))) = {i. bit w i} - {BITMAP_FIRST w}"
    by (auto simp: and_pred_clears [OF assms] set_bits_of bit_clr)
  moreover have "sorted (BITMAP_FIRST w # bits_of (w AND (w - 1)))"
    using first_bit(2) [OF assms] by (auto simp: sorted_bits_of and_pred_clears [OF assms] set_bits_of bit_clr)
  moreover have "set (bits_of w) = set (BITMAP_FIRST w # bits_of (w AND (w - 1)))"
    using first_bit(1) [OF assms] calculation(1) by (auto simp: set_bits_of)
  moreover have "distinct (BITMAP_FIRST w # bits_of (w AND (w - 1)))"
    using calculation(1) by (auto simp: distinct_bits_of)
  ultimately show ?thesis
    by (intro sorted_distinct_set_unique) (simp_all add: sorted_bits_of distinct_bits_of)
qed

lemma bitmap_fold_step:
  "bitmap_fold f w s = (if w = 0 then s else bitmap_fold f (w AND (w - 1)) (f (BITMAP_FIRST w) s))"
  using bits_of_clear_first [of w] by (simp add: bitmap_fold_def bits_of_zero)

subsection \<open>Slots and nodes\<close>

definition BITMAP_NODE_SLOT_MASK :: "nat \<Rightarrow> bool \<Rightarrow> u16" where
  "BITMAP_NODE_SLOT_MASK node partial_on =
     (if partial_on then ucast ((push_bit (node * 2) 1 :: u32) OR push_bit (node * 2 + 1) 1)
      else ucast (push_bit node 1 :: u32))"

definition BITMAP_SLOT_NODE :: "nat \<Rightarrow> bool \<Rightarrow> nat" where
  "BITMAP_SLOT_NODE slot partial_on = drop_bit (of_bool partial_on) slot"

text \<open>The slots of a node are exactly those whose derived node it is: bit \<open>s\<close> of a node's
  slot mask is set iff \<open>BITMAP_SLOT_NODE s\<close> is the node, with and without paired legs.\<close>

theorem node_slot_mask_iff:
  assumes "s < 16" "node < 16"
  shows "bit (BITMAP_NODE_SLOT_MASK node partial_on) s \<longleftrightarrow> BITMAP_SLOT_NODE s partial_on = node"
proof -
  have "bit (BITMAP_NODE_SLOT_MASK node True) s \<longleftrightarrow> s = node * 2 \<or> s = node * 2 + 1"
    unfolding BITMAP_NODE_SLOT_MASK_def if_True bit_ucast_iff bit_or_iff bit_push_one
    using assms by auto
  moreover have "bit (BITMAP_NODE_SLOT_MASK node False) s \<longleftrightarrow> s = node"
    unfolding BITMAP_NODE_SLOT_MASK_def if_False simp_thms bit_ucast_iff bit_push_one
    using assms by auto
  moreover have "BITMAP_SLOT_NODE s True = node \<longleftrightarrow> s = node * 2 \<or> s = node * 2 + 1"
    by (auto simp: BITMAP_SLOT_NODE_def drop_bit_eq_div)
  ultimately show ?thesis by (cases partial_on) (simp_all add: BITMAP_SLOT_NODE_def)
qed

lemma node_slot_mask_witness: "bit (BITMAP_NODE_SLOT_MASK 3 True) 7 \<longleftrightarrow> BITMAP_SLOT_NODE 7 True = 3"
  by (rule node_slot_mask_iff) simp_all

subsection \<open>Packed fields\<close>

definition MBS_GET :: "'a::len word \<Rightarrow> 'a word \<Rightarrow> nat \<Rightarrow> 'a word" where
  "MBS_GET field m shift = drop_bit shift (field AND m)"

definition MBS_SET :: "'a::len word \<Rightarrow> 'a word \<Rightarrow> nat \<Rightarrow> 'a word \<Rightarrow> 'a word" where
  "MBS_SET field m shift val = (field AND NOT m) OR (push_bit shift val AND m)"

definition MBS_EQ :: "'a::len word \<Rightarrow> 'a word \<Rightarrow> nat \<Rightarrow> 'a word \<Rightarrow> bool" where
  "MBS_EQ field m shift val \<longleftrightarrow> field AND m = push_bit shift val AND m"

text \<open>
  A field occupies a window of the word: its mask is \<open>n\<close> ones at \<open>sh\<close>.  Everything the
  callers rely on follows from that.
\<close>

locale packed_field =
  fixes m :: "'a::len word" and sh n :: nat
  assumes window: "m = push_bit sh (mask n)" and fits: "sh + n \<le> LENGTH('a)"
begin

lemma bit_m: "bit m i \<longleftrightarrow> sh \<le> i \<and> i < sh + n"
  using fits by (auto simp: window bit_push_bit_iff bit_mask_iff)

lemma get_set: "MBS_GET (MBS_SET w m sh v) m sh = take_bit n v"
proof (rule bit_word_eqI)
  fix i
  assume "i < LENGTH('a)"
  show "bit (MBS_GET (MBS_SET w m sh v) m sh) i = bit (take_bit n v) i"
    using fits by (auto simp: MBS_GET_def MBS_SET_def bit_simps bit_m)
qed

lemma get_zero_iff: "MBS_GET w m sh = 0 \<longleftrightarrow> w AND m = 0"
proof -
  have "bit (w AND m) i \<Longrightarrow> bit (MBS_GET w m sh) (i - sh)" for i
    by (auto simp: MBS_GET_def bit_simps bit_m)
  moreover have "bit (MBS_GET w m sh) i \<Longrightarrow> bit (w AND m) (sh + i)" for i
    by (auto simp: MBS_GET_def bit_simps add.commute)
  ultimately show ?thesis by (metis word_nonzero_iff)
qed

lemma get_shifted: "drop_bit sh w AND mask n = MBS_GET w m sh"
  by (rule bit_word_eqI) (use fits in \<open>auto simp: MBS_GET_def bit_simps bit_m dest: bit_imp_le_length\<close>)

lemma eq_set: "unat v < 2 ^ n \<Longrightarrow> MBS_EQ (MBS_SET w m sh v) m sh v"
  by (auto simp: MBS_EQ_def MBS_SET_def bit_simps bit_eq_iff)

lemma get_bound: "unat (MBS_GET w m sh) < 2 ^ n"
proof -
  have "MBS_GET w m sh = take_bit n (drop_bit sh w)"
    by (rule bit_word_eqI) (use fits in \<open>auto simp: MBS_GET_def bit_simps bit_m dest: bit_imp_le_length\<close>)
  then show ?thesis by (simp only: unat_take_bit_mod) simp
qed

lemma set_get: "MBS_SET w m sh (MBS_GET w m sh) = w"
  by (rule bit_word_eqI) (auto simp: MBS_GET_def MBS_SET_def bit_simps bit_m)

end

text \<open>Writing one field leaves every disjoint one alone; this needs no window shape.\<close>

lemma mbs_get_set_other:
  assumes "m AND m' = 0"
  shows "MBS_GET (MBS_SET w m sh v) m' sh' = MBS_GET w m' sh'"
proof -
  have "bit m i \<Longrightarrow> \<not> bit m' i" for i using assms by (metis bit_0_eq bit_and_iff bot_apply bot_bool_def)
  then have "MBS_SET w m sh v AND m' = w AND m'"
    by (intro bit_word_eqI) (auto simp: MBS_SET_def bit_simps)
  then show ?thesis by (simp add: MBS_GET_def)
qed

end
