(* ===== verification/Order_Model.thy ===== *)
theory Order_Model
  imports Money_Ops Bitmap
begin

text \<open>
  The in-flight order record of \<^verbatim>\<open>src/CoreFrameworks/Order.hpp\<close>: its type, state, maker bit,
  leg, retry count, pre-resolved bit, bandit context and stale-warned bit are packed into
  one 32-bit word.  A \<^verbatim>\<open>SlotIdx\<close> is a signed 16-bit index, read as an \<^typ>\<open>int\<close>; \<open>- 1\<close> is the
  sentinel.  \<^verbatim>\<open>exchange_id\<close> is the C string in the 64-byte field.
\<close>

subsection \<open>Enumerations\<close>

datatype OrderType = ORDER_MARKET_BUY | ORDER_MARKET_SELL | ORDER_LIMIT_BUY | ORDER_LIMIT_SELL

datatype OrderState = ORDER_PENDING | ORDER_SUBMITTED | ORDER_ACKNOWLEDGED | ORDER_PARTIAL
  | ORDER_FILLED | ORDER_REJECTED | ORDER_CANCELED | ORDER_TIMEOUT | ORDER_UNKNOWN
  | ORDER_STATE_UNNAMED u32

fun order_type_code :: "OrderType \<Rightarrow> u32" where
  "order_type_code ORDER_MARKET_BUY = 0"
| "order_type_code ORDER_MARKET_SELL = 1"
| "order_type_code ORDER_LIMIT_BUY = 2"
| "order_type_code ORDER_LIMIT_SELL = 3"

definition order_type_of :: "u32 \<Rightarrow> OrderType" where
  "order_type_of c = (if c = 0 then ORDER_MARKET_BUY else if c = 1 then ORDER_MARKET_SELL
     else if c = 2 then ORDER_LIMIT_BUY else ORDER_LIMIT_SELL)"

fun order_state_code :: "OrderState \<Rightarrow> u32" where
  "order_state_code ORDER_PENDING = 0"
| "order_state_code ORDER_SUBMITTED = 1"
| "order_state_code ORDER_ACKNOWLEDGED = 2"
| "order_state_code ORDER_PARTIAL = 3"
| "order_state_code ORDER_FILLED = 4"
| "order_state_code ORDER_REJECTED = 5"
| "order_state_code ORDER_CANCELED = 6"
| "order_state_code ORDER_TIMEOUT = 7"
| "order_state_code ORDER_UNKNOWN = 8"
| "order_state_code (ORDER_STATE_UNNAMED c) = c"

definition order_state_of :: "u32 \<Rightarrow> OrderState" where
  "order_state_of c = (if c = 0 then ORDER_PENDING else if c = 1 then ORDER_SUBMITTED
     else if c = 2 then ORDER_ACKNOWLEDGED else if c = 3 then ORDER_PARTIAL
     else if c = 4 then ORDER_FILLED else if c = 5 then ORDER_REJECTED
     else if c = 6 then ORDER_CANCELED else if c = 7 then ORDER_TIMEOUT
     else if c = 8 then ORDER_UNKNOWN else ORDER_STATE_UNNAMED c)"

definition order_state_named :: "OrderState \<Rightarrow> bool" where
  "order_state_named s = (case s of ORDER_STATE_UNNAMED _ \<Rightarrow> False | _ \<Rightarrow> True)"

lemma order_type_of_code [simp]: "order_type_of (order_type_code t) = t"
  by (cases t) (simp_all add: order_type_of_def)

lemma order_state_of_code [simp]: "order_state_named s \<Longrightarrow> order_state_of (order_state_code s) = s"
  by (cases s) (simp_all add: order_state_of_def order_state_named_def)

subsection \<open>The record\<close>

definition MASK_ORDER_TYPE :: u32 where "MASK_ORDER_TYPE = 0x00000003"
definition MASK_ORDER_STATE :: u32 where "MASK_ORDER_STATE = 0x0000003C"
definition MASK_ORDER_IS_MAKER :: u32 where "MASK_ORDER_IS_MAKER = 0x00000040"
definition MASK_ORDER_LEG :: u32 where "MASK_ORDER_LEG = 0x00000080"
definition MASK_ORDER_RETRY_COUNT :: u32 where "MASK_ORDER_RETRY_COUNT = 0x0000FF00"
definition MASK_ORDER_PRE_RESOLVED :: u32 where "MASK_ORDER_PRE_RESOLVED = 0x00010000"
definition MASK_ORDER_STALE_WARNED :: u32 where "MASK_ORDER_STALE_WARNED = 0x04000000"
definition MASK_ORDER_BANDIT_3BIT :: u32 where "MASK_ORDER_BANDIT_3BIT = 0x7"

lemmas order_masks = MASK_ORDER_TYPE_def MASK_ORDER_STATE_def MASK_ORDER_IS_MAKER_def MASK_ORDER_LEG_def
  MASK_ORDER_RETRY_COUNT_def MASK_ORDER_PRE_RESOLVED_def MASK_ORDER_STALE_WARNED_def MASK_ORDER_BANDIT_3BIT_def

record OrderPreResolved =
  pr_fee_rate :: Money
  pr_slippage_pct :: Money
  pr_tp_pct :: Money

record Order =
  o_id :: u64
  o_client_id :: u64
  o_flags_packed :: u32
  o_portfolio_slot :: int
  o_strategy_id :: u8
  o_requested_qty :: Money
  o_requested_price :: Money
  o_filled_qty :: Money
  o_avg_fill_price :: Money
  o_intended_tp :: Money
  o_intended_sl :: Money
  o_event_price :: Money
  o_submitted_at_us :: u64
  o_last_update_us :: u64
  o_pre_resolved :: OrderPreResolved
  o_exchange_id :: string

text \<open>The fields of the per-node configuration that binding an order reads.\<close>

record PerNodeCfg =
  nc_fee_rate_maker :: Money
  nc_fee_rate_taker :: Money
  nc_slippage_pct :: Money

subsection \<open>Accessors\<close>

definition Order_GetType :: "Order \<Rightarrow> OrderType" where
  "Order_GetType od = order_type_of (drop_bit 0 (o_flags_packed od AND MASK_ORDER_TYPE))"

definition Order_SetType :: "Order \<Rightarrow> OrderType \<Rightarrow> Order" where
  "Order_SetType od t = od\<lparr>o_flags_packed := (o_flags_packed od AND NOT MASK_ORDER_TYPE)
     OR (push_bit 0 (order_type_code t) AND MASK_ORDER_TYPE)\<rparr>"

definition Order_GetState :: "Order \<Rightarrow> OrderState" where
  "Order_GetState od = order_state_of (drop_bit 2 (o_flags_packed od AND MASK_ORDER_STATE))"

definition Order_SetState :: "Order \<Rightarrow> OrderState \<Rightarrow> Order" where
  "Order_SetState od s = od\<lparr>o_flags_packed := (o_flags_packed od AND NOT MASK_ORDER_STATE)
     OR (push_bit 2 (order_state_code s) AND MASK_ORDER_STATE)\<rparr>"

definition Order_GetIsMaker :: "Order \<Rightarrow> bool" where
  "Order_GetIsMaker od = (o_flags_packed od AND MASK_ORDER_IS_MAKER \<noteq> 0)"

definition Order_SetIsMaker :: "Order \<Rightarrow> bool \<Rightarrow> Order" where
  "Order_SetIsMaker od is_maker = od\<lparr>o_flags_packed := (o_flags_packed od AND NOT MASK_ORDER_IS_MAKER)
     OR (if is_maker then MASK_ORDER_IS_MAKER else 0)\<rparr>"

definition Order_GetStaleWarned :: "Order \<Rightarrow> bool" where
  "Order_GetStaleWarned od = (o_flags_packed od AND MASK_ORDER_STALE_WARNED \<noteq> 0)"

definition Order_SetStaleWarned :: "Order \<Rightarrow> bool \<Rightarrow> Order" where
  "Order_SetStaleWarned od warned = od\<lparr>o_flags_packed := (o_flags_packed od AND NOT MASK_ORDER_STALE_WARNED)
     OR (if warned then MASK_ORDER_STALE_WARNED else 0)\<rparr>"

definition Order_GetLeg :: "Order \<Rightarrow> u8" where
  "Order_GetLeg od = ucast (drop_bit 7 (o_flags_packed od AND MASK_ORDER_LEG))"

definition Order_SetLeg :: "Order \<Rightarrow> u8 \<Rightarrow> Order" where
  "Order_SetLeg od leg = od\<lparr>o_flags_packed := (o_flags_packed od AND NOT MASK_ORDER_LEG)
     OR (push_bit 7 (ucast leg) AND MASK_ORDER_LEG)\<rparr>"

definition Order_GetRetryCount :: "Order \<Rightarrow> u8" where
  "Order_GetRetryCount od = ucast (drop_bit 8 (o_flags_packed od AND MASK_ORDER_RETRY_COUNT))"

definition Order_SetRetryCount :: "Order \<Rightarrow> u8 \<Rightarrow> Order" where
  "Order_SetRetryCount od retry = od\<lparr>o_flags_packed := (o_flags_packed od AND NOT MASK_ORDER_RETRY_COUNT)
     OR (push_bit 8 (ucast retry) AND MASK_ORDER_RETRY_COUNT)\<rparr>"

definition Order_GetPreResolvedBound :: "Order \<Rightarrow> bool" where
  "Order_GetPreResolvedBound od = (o_flags_packed od AND MASK_ORDER_PRE_RESOLVED \<noteq> 0)"

definition Order_MarkPreResolvedBound :: "Order \<Rightarrow> Order" where
  "Order_MarkPreResolvedBound od = od\<lparr>o_flags_packed := o_flags_packed od OR MASK_ORDER_PRE_RESOLVED\<rparr>"

definition MBS_OrderBanditActiveState :: "Order \<Rightarrow> u32" where
  "MBS_OrderBanditActiveState od = drop_bit 17 (o_flags_packed od) AND MASK_ORDER_BANDIT_3BIT"

definition MBS_OrderBanditRegime :: "Order \<Rightarrow> u32" where
  "MBS_OrderBanditRegime od = drop_bit 20 (o_flags_packed od) AND MASK_ORDER_BANDIT_3BIT"

definition MBS_OrderBanditChosenArm :: "Order \<Rightarrow> u32" where
  "MBS_OrderBanditChosenArm od = drop_bit 23 (o_flags_packed od) AND MASK_ORDER_BANDIT_3BIT"

definition MBS_OrderSetBanditContext :: "Order \<Rightarrow> u32 \<Rightarrow> u32 \<Rightarrow> u32 \<Rightarrow> Order" where
  "MBS_OrderSetBanditContext od state regime arm =
     (let BANDIT_CLEAR_MASK = NOT (push_bit 17 MASK_ORDER_BANDIT_3BIT OR push_bit 20 MASK_ORDER_BANDIT_3BIT
            OR push_bit 23 MASK_ORDER_BANDIT_3BIT)
      in od\<lparr>o_flags_packed := (o_flags_packed od AND BANDIT_CLEAR_MASK)
            OR push_bit 17 (state AND MASK_ORDER_BANDIT_3BIT)
            OR push_bit 20 (regime AND MASK_ORDER_BANDIT_3BIT)
            OR push_bit 23 (arm AND MASK_ORDER_BANDIT_3BIT)\<rparr>)"

subsection \<open>Construction\<close>

definition Order_Init :: "Order \<Rightarrow> u64 \<Rightarrow> int \<Rightarrow> OrderType \<Rightarrow> Order" where
  "Order_Init od oid portfolio_slot type =
     (let od = od\<lparr>o_id := oid, o_client_id := oid, o_portfolio_slot := portfolio_slot,
                o_strategy_id := 0xFF, o_flags_packed := 0\<rparr>;
          od = Order_SetType od type;
          od = Order_SetState od ORDER_PENDING
      in od\<lparr>o_requested_qty := Money_Zero, o_requested_price := Money_Zero, o_filled_qty := Money_Zero,
           o_avg_fill_price := Money_Zero, o_intended_tp := Money_Zero, o_intended_sl := Money_Zero,
           o_event_price := Money_Zero, o_submitted_at_us := 0, o_last_update_us := 0,
           o_pre_resolved := (o_pre_resolved od)\<lparr>pr_fee_rate := Money_Zero, pr_slippage_pct := Money_Zero\<rparr>,
           o_exchange_id := []\<rparr>)"

definition Order_BindPreResolved :: "Order \<Rightarrow> PerNodeCfg \<Rightarrow> Order" where
  "Order_BindPreResolved od node_cfg =
     (let is_maker = Order_GetIsMaker od
      in Order_MarkPreResolvedBound (od\<lparr>o_pre_resolved := (o_pre_resolved od)\<lparr>
           pr_fee_rate := (if is_maker then nc_fee_rate_maker node_cfg else nc_fee_rate_taker node_cfg),
           pr_slippage_pct := nc_slippage_pct node_cfg\<rparr>\<rparr>))"

definition Order_IsTerminal :: "Order \<Rightarrow> bool" where
  "Order_IsTerminal od = (let s = Order_GetState od
     in s = ORDER_FILLED \<or> s = ORDER_REJECTED \<or> s = ORDER_CANCELED \<or> s = ORDER_TIMEOUT)"


subsection \<open>The packed word implements a record of its fields\<close>

record order_view =
  v_type :: OrderType
  v_state :: OrderState
  v_is_maker :: bool
  v_leg :: u8
  v_retry :: u8
  v_bound :: bool
  v_stale_warned :: bool
  v_bandit_state :: u32
  v_bandit_regime :: u32
  v_bandit_arm :: u32

definition order_abs :: "Order \<Rightarrow> order_view" where
  "order_abs od = \<lparr>v_type = Order_GetType od, v_state = Order_GetState od, v_is_maker = Order_GetIsMaker od,
     v_leg = Order_GetLeg od, v_retry = Order_GetRetryCount od, v_bound = Order_GetPreResolvedBound od,
     v_stale_warned = Order_GetStaleWarned od, v_bandit_state = MBS_OrderBanditActiveState od,
     v_bandit_regime = MBS_OrderBanditRegime od, v_bandit_arm = MBS_OrderBanditChosenArm od\<rparr>"

interpretation f_type: packed_field MASK_ORDER_TYPE 0 2
  by unfold_locales (simp_all add: order_masks mask_eq_exp_minus_1)
interpretation f_state: packed_field MASK_ORDER_STATE 2 4
  by unfold_locales (simp_all add: order_masks mask_eq_exp_minus_1)
interpretation f_maker: packed_field MASK_ORDER_IS_MAKER 6 1
  by unfold_locales (simp_all add: order_masks mask_eq_exp_minus_1)
interpretation f_leg: packed_field MASK_ORDER_LEG 7 1
  by unfold_locales (simp_all add: order_masks mask_eq_exp_minus_1)
interpretation f_retry: packed_field MASK_ORDER_RETRY_COUNT 8 8
  by unfold_locales (simp_all add: order_masks mask_eq_exp_minus_1)
interpretation f_bound: packed_field MASK_ORDER_PRE_RESOLVED 16 1
  by unfold_locales (simp_all add: order_masks mask_eq_exp_minus_1)
interpretation f_warned: packed_field MASK_ORDER_STALE_WARNED 26 1
  by unfold_locales (simp_all add: order_masks mask_eq_exp_minus_1)
interpretation f_bstate: packed_field "0xE0000 :: u32" 17 3
  by unfold_locales (simp_all add: mask_eq_exp_minus_1)
interpretation f_bregime: packed_field "0x700000 :: u32" 20 3
  by unfold_locales (simp_all add: mask_eq_exp_minus_1)
interpretation f_barm: packed_field "0x3800000 :: u32" 23 3
  by unfold_locales (simp_all add: mask_eq_exp_minus_1)

text \<open>Getters and setters as packed-field accesses.\<close>

lemma order_getters:
  "Order_GetType od = order_type_of (MBS_GET (o_flags_packed od) MASK_ORDER_TYPE 0)"
  "Order_GetState od = order_state_of (MBS_GET (o_flags_packed od) MASK_ORDER_STATE 2)"
  "Order_GetIsMaker od = (MBS_GET (o_flags_packed od) MASK_ORDER_IS_MAKER 6 \<noteq> 0)"
  "Order_GetLeg od = ucast (MBS_GET (o_flags_packed od) MASK_ORDER_LEG 7)"
  "Order_GetRetryCount od = ucast (MBS_GET (o_flags_packed od) MASK_ORDER_RETRY_COUNT 8)"
  "Order_GetPreResolvedBound od = (MBS_GET (o_flags_packed od) MASK_ORDER_PRE_RESOLVED 16 \<noteq> 0)"
  "Order_GetStaleWarned od = (MBS_GET (o_flags_packed od) MASK_ORDER_STALE_WARNED 26 \<noteq> 0)"
  "MBS_OrderBanditActiveState od = MBS_GET (o_flags_packed od) 0xE0000 17"
  "MBS_OrderBanditRegime od = MBS_GET (o_flags_packed od) 0x700000 20"
  "MBS_OrderBanditChosenArm od = MBS_GET (o_flags_packed od) 0x3800000 23"
proof -
  have m3: "MASK_ORDER_BANDIT_3BIT = mask 3" by (simp add: order_masks mask_eq_exp_minus_1)
  show "Order_GetIsMaker od = (MBS_GET (o_flags_packed od) MASK_ORDER_IS_MAKER 6 \<noteq> 0)"
    "Order_GetPreResolvedBound od = (MBS_GET (o_flags_packed od) MASK_ORDER_PRE_RESOLVED 16 \<noteq> 0)"
    "Order_GetStaleWarned od = (MBS_GET (o_flags_packed od) MASK_ORDER_STALE_WARNED 26 \<noteq> 0)"
    by (simp_all only: Order_GetIsMaker_def Order_GetPreResolvedBound_def Order_GetStaleWarned_def
        f_maker.get_zero_iff f_bound.get_zero_iff f_warned.get_zero_iff)
  show "MBS_OrderBanditActiveState od = MBS_GET (o_flags_packed od) 0xE0000 17"
    "MBS_OrderBanditRegime od = MBS_GET (o_flags_packed od) 0x700000 20"
    "MBS_OrderBanditChosenArm od = MBS_GET (o_flags_packed od) 0x3800000 23"
    by (simp_all only: MBS_OrderBanditActiveState_def MBS_OrderBanditRegime_def MBS_OrderBanditChosenArm_def m3
        f_bstate.get_shifted f_bregime.get_shifted f_barm.get_shifted)
qed (simp_all only: Order_GetType_def Order_GetState_def Order_GetLeg_def Order_GetRetryCount_def MBS_GET_def)

lemma flags_update: "o_flags_packed (od\<lparr>o_flags_packed := w\<rparr>) = w"
  by simp

lemma order_setters:
  "o_flags_packed (Order_SetType od t) = MBS_SET (o_flags_packed od) MASK_ORDER_TYPE 0 (order_type_code t)"
  "o_flags_packed (Order_SetState od s) = MBS_SET (o_flags_packed od) MASK_ORDER_STATE 2 (order_state_code s)"
  "o_flags_packed (Order_SetIsMaker od b) = MBS_SET (o_flags_packed od) MASK_ORDER_IS_MAKER 6 (of_bool b)"
  "o_flags_packed (Order_SetLeg od l) = MBS_SET (o_flags_packed od) MASK_ORDER_LEG 7 (ucast l)"
  "o_flags_packed (Order_SetRetryCount od r) = MBS_SET (o_flags_packed od) MASK_ORDER_RETRY_COUNT 8 (ucast r)"
  "o_flags_packed (Order_SetStaleWarned od b) = MBS_SET (o_flags_packed od) MASK_ORDER_STALE_WARNED 26 (of_bool b)"
  by (simp_all only: Order_SetType_def Order_SetState_def Order_SetIsMaker_def Order_SetLeg_def
      Order_SetRetryCount_def Order_SetStaleWarned_def MBS_SET_def Order.simps)
    (cases b; simp add: order_masks)+

lemma order_mark_bound:
  "o_flags_packed (Order_MarkPreResolvedBound od) = MBS_SET (o_flags_packed od) MASK_ORDER_PRE_RESOLVED 16 1"
proof -
  have "push_bit 16 1 AND MASK_ORDER_PRE_RESOLVED = MASK_ORDER_PRE_RESOLVED" by (simp add: order_masks)
  moreover have "(w AND NOT k) OR k = w OR k" for w k :: u32
    by (rule bit_word_eqI) (auto simp: bit_simps)
  ultimately show ?thesis by (simp only: Order_MarkPreResolvedBound_def MBS_SET_def flags_update)
qed

lemma order_set_bandit:
  "o_flags_packed (MBS_OrderSetBanditContext od x y z) =
     MBS_SET (MBS_SET (MBS_SET (o_flags_packed od) 0xE0000 17 x) 0x700000 20 y) 0x3800000 23 z"
proof -
  have m: "push_bit 17 MASK_ORDER_BANDIT_3BIT = 0xE0000" "push_bit 20 MASK_ORDER_BANDIT_3BIT = 0x700000"
    "push_bit 23 MASK_ORDER_BANDIT_3BIT = 0x3800000" by (simp_all add: order_masks)
  have "o_flags_packed (MBS_OrderSetBanditContext od x y z) =
     (o_flags_packed od AND NOT (0xE0000 OR 0x700000 OR 0x3800000)) OR (push_bit 17 x AND 0xE0000)
     OR (push_bit 20 y AND 0x700000) OR (push_bit 23 z AND 0x3800000)"
    by (simp only: MBS_OrderSetBanditContext_def Let_def flags_update m push_bit_and)
  also have "\<dots> = MBS_SET (MBS_SET (MBS_SET (o_flags_packed od) 0xE0000 17 x) 0x700000 20 y) 0x3800000 23 z"
    unfolding MBS_SET_def
    by (rule bit_word_eqI)
      (simp only: bit_and_iff bit_or_iff bit_not_iff f_bstate.bit_m f_bregime.bit_m f_barm.bit_m, auto)
  finally show ?thesis .
qed

lemmas field_get_set = f_type.get_set [unfolded order_masks] f_state.get_set [unfolded order_masks]
  f_maker.get_set [unfolded order_masks] f_leg.get_set [unfolded order_masks]
  f_retry.get_set [unfolded order_masks] f_bound.get_set [unfolded order_masks]
  f_warned.get_set [unfolded order_masks] f_bstate.get_set f_bregime.get_set f_barm.get_set

lemma order_state_code_bound: "order_state_named s \<Longrightarrow> take_bit 4 (order_state_code s) = order_state_code s"
  by (cases s) (simp_all add: order_state_named_def take_bit_eq_mask mask_eq_exp_minus_1)

lemma order_type_code_bound: "take_bit 2 (order_type_code t) = order_type_code t"
  by (cases t) (simp_all add: take_bit_eq_mask mask_eq_exp_minus_1)

lemma flag_bound: "take_bit 1 (of_bool b :: u32) = of_bool b" "(of_bool b :: u32) \<noteq> 0 \<longleftrightarrow> b"
  "take_bit (Suc 0) (of_bool b :: u32) = of_bool b" "take_bit (Suc 0) 1 = (1 :: u32)"
  by (cases b; simp add: take_bit_eq_mask mask_eq_exp_minus_1)+

lemma small_bound: "(r :: u32) \<le> 7 \<Longrightarrow> take_bit 3 r = r"
  by (rule take_bit_small) (simp add: word_le_nat_alt)

lemma retry_bound: "ucast (take_bit 8 (ucast (c :: u8) :: u32)) = c"
  by (rule bit_word_eqI) (simp add: bit_simps)

text \<open>What each setter does to the abstract record.\<close>

lemma abs_SetType: "order_abs (Order_SetType od t) = (order_abs od)\<lparr>v_type := t\<rparr>"
  unfolding order_abs_def order_getters order_setters order_masks
  by (simp add: field_get_set mbs_get_set_other order_type_code_bound)

lemma abs_SetState: "order_state_named s \<Longrightarrow> order_abs (Order_SetState od s) = (order_abs od)\<lparr>v_state := s\<rparr>"
  unfolding order_abs_def order_getters order_setters order_masks
  by (simp add: field_get_set mbs_get_set_other order_state_code_bound)

lemma abs_SetIsMaker: "order_abs (Order_SetIsMaker od b) = (order_abs od)\<lparr>v_is_maker := b\<rparr>"
  unfolding order_abs_def order_getters order_setters order_masks
  by (simp add: field_get_set mbs_get_set_other flag_bound)

lemma abs_SetLeg: "order_abs (Order_SetLeg od (of_bool b)) = (order_abs od)\<lparr>v_leg := of_bool b\<rparr>"
  unfolding order_abs_def order_getters order_setters order_masks
  by (simp add: field_get_set mbs_get_set_other flag_bound)

lemma abs_SetRetryCount: "order_abs (Order_SetRetryCount od c) = (order_abs od)\<lparr>v_retry := c\<rparr>"
  unfolding order_abs_def order_getters order_setters order_masks
  by (simp add: field_get_set mbs_get_set_other retry_bound)

lemma abs_MarkBound: "order_abs (Order_MarkPreResolvedBound od) = (order_abs od)\<lparr>v_bound := True\<rparr>"
  unfolding order_abs_def order_getters order_mark_bound order_masks
  by (simp add: field_get_set mbs_get_set_other flag_bound)

lemma abs_SetStaleWarned: "order_abs (Order_SetStaleWarned od b) = (order_abs od)\<lparr>v_stale_warned := b\<rparr>"
  unfolding order_abs_def order_getters order_setters order_masks
  by (simp add: field_get_set mbs_get_set_other flag_bound)

lemma abs_SetBandit:
  "r \<le> 7 \<Longrightarrow> x \<le> 7 \<Longrightarrow> y \<le> 7 \<Longrightarrow> order_abs (MBS_OrderSetBanditContext od r x y) =
      (order_abs od)\<lparr>v_bandit_state := r, v_bandit_regime := x, v_bandit_arm := y\<rparr>"
  unfolding order_abs_def order_getters order_set_bandit order_masks
  by (simp add: field_get_set mbs_get_set_other small_bound)

text \<open>The packed 32-bit word implements a record of ten independent fields: each setter
  changes exactly its own field of the record and leaves the nine others untouched.\<close>

theorem order_flags_refine:
  assumes "order_state_named s" "r \<le> 7" "x \<le> 7" "y \<le> 7"
  shows "order_abs (Order_SetType od t) = (order_abs od)\<lparr>v_type := t\<rparr> \<and>
    order_abs (Order_SetState od s) = (order_abs od)\<lparr>v_state := s\<rparr> \<and>
    order_abs (Order_SetIsMaker od b) = (order_abs od)\<lparr>v_is_maker := b\<rparr> \<and>
    order_abs (Order_SetLeg od (of_bool b)) = (order_abs od)\<lparr>v_leg := of_bool b\<rparr> \<and>
    order_abs (Order_SetRetryCount od c) = (order_abs od)\<lparr>v_retry := c\<rparr> \<and>
    order_abs (Order_MarkPreResolvedBound od) = (order_abs od)\<lparr>v_bound := True\<rparr> \<and>
    order_abs (Order_SetStaleWarned od b) = (order_abs od)\<lparr>v_stale_warned := b\<rparr> \<and>
    order_abs (MBS_OrderSetBanditContext od r x y) =
      (order_abs od)\<lparr>v_bandit_state := r, v_bandit_regime := x, v_bandit_arm := y\<rparr>"
  using assms
  by (simp only: abs_SetType abs_SetState abs_SetIsMaker abs_SetLeg abs_SetRetryCount abs_MarkBound
      abs_SetStaleWarned abs_SetBandit simp_thms)

definition demo_order :: Order where
  "demo_order = \<lparr>o_id = 1, o_client_id = 1, o_flags_packed = 0xDEADBEEF, o_portfolio_slot = 3, o_strategy_id = 2,
     o_requested_qty = Money 5, o_requested_price = Money 0, o_filled_qty = Money 0, o_avg_fill_price = Money 0,
     o_intended_tp = Money 0, o_intended_sl = Money 0, o_event_price = Money 7, o_submitted_at_us = 0,
     o_last_update_us = 0, o_pre_resolved = \<lparr>pr_fee_rate = Money 0, pr_slippage_pct = Money 0, pr_tp_pct = Money 9\<rparr>,
     o_exchange_id = ''x1''\<rparr>"

lemma order_flags_refine_witness:
  "order_abs (Order_SetState demo_order ORDER_PARTIAL) = (order_abs demo_order)\<lparr>v_state := ORDER_PARTIAL\<rparr>"
  using order_flags_refine [of ORDER_PARTIAL 0 0 0 demo_order] by (simp add: order_state_named_def)

text \<open>What binding and initialisation give; \<^verbatim>\<open>Order_Init\<close> leaves \<open>pr_tp_pct\<close> as it was.\<close>

lemma order_abs_update [simp]:
  "order_abs (od\<lparr>o_pre_resolved := p\<rparr>) = order_abs od"
  by (simp add: order_abs_def order_getters)

lemma order_bind:
  "order_abs (Order_BindPreResolved od cfg) = (order_abs od)\<lparr>v_bound := True\<rparr>"
  "pr_fee_rate (o_pre_resolved (Order_BindPreResolved od cfg)) =
     (if Order_GetIsMaker od then nc_fee_rate_maker cfg else nc_fee_rate_taker cfg)"
  "pr_tp_pct (o_pre_resolved (Order_BindPreResolved od cfg)) = pr_tp_pct (o_pre_resolved od)"
  by (simp_all add: Order_BindPreResolved_def abs_MarkBound Let_def)
    (simp_all add: Order_MarkPreResolvedBound_def)

lemma order_init_state:
  "Order_GetState (Order_Init od oid slot t) = ORDER_PENDING" "Order_GetType (Order_Init od oid slot t) = t"
  "\<not> Order_IsTerminal (Order_Init od oid slot t)"
proof -
  let ?o = "Order_SetState (Order_SetType (od\<lparr>o_id := oid, o_client_id := oid, o_portfolio_slot := slot,
                o_strategy_id := 0xFF, o_flags_packed := 0\<rparr>) t) ORDER_PENDING"
  have f: "o_flags_packed (Order_Init od oid slot t) = o_flags_packed ?o"
    by (simp add: Order_Init_def Let_def)
  have v: "v_state (order_abs ?o) = ORDER_PENDING" "v_type (order_abs ?o) = t"
    by (simp_all add: abs_SetState abs_SetType order_state_named_def)
  show "Order_GetState (Order_Init od oid slot t) = ORDER_PENDING" "Order_GetType (Order_Init od oid slot t) = t"
    using v by (simp_all add: order_abs_def order_getters f)
  then show "\<not> Order_IsTerminal (Order_Init od oid slot t)" by (simp add: Order_IsTerminal_def)
qed

end
