(* ===== verification/Portfolio_Model.thy ===== *)
theory Portfolio_Model
  imports Money_Ops Bitmap
begin

text \<open>
  The position book of \<^verbatim>\<open>src/CoreFrameworks/Portfolio.hpp\<close>: sixteen slots, a 16-bit bitmap
  of the active ones, and the exit buffer the gate fills.  All amounts are \<^typ>\<open>Money\<close>; the
  wall clock (\<^verbatim>\<open>clock_gettime\<close>) is a parameter, \<open>None\<close> when the call fails.
\<close>

subsection \<open>Data\<close>

definition MAX_PORTFOLIO_POSITIONS :: nat where "MAX_PORTFOLIO_POSITIONS = 16"

record Position =
  p_take_profit_price :: Money
  p_stop_loss_price :: Money
  p_quantity :: Money
  p_entry_price :: Money
  p_entry_fee :: Money
  p_original_tp :: Money
  p_original_sl :: Money
  p_entry_timestamp_us :: u64
  p_pair_index :: u8

record Portfolio =
  pf_active_bitmap :: u16
  pf_positions :: "Position list"

record ExitRecord =
  er_position_index :: nat
  er_reason :: nat
  er_tick :: u64
  er_exit_price :: Money
  er_entry_price :: Money
  er_quantity :: Money
  er_entry_fee :: Money
  er_pair_index :: u8

record ExitBuffer =
  eb_count :: nat
  eb_records :: "ExitRecord list"

record PositionEntryArgs =
  ea_entry_price :: Money
  ea_quantity :: Money
  ea_take_profit_price :: Money
  ea_stop_loss_price :: Money
  ea_entry_fee :: Money
  ea_entry_timestamp_us :: u64
  ea_pair_index :: int

subsection \<open>Exit buffer\<close>

definition ExitBuffer_Init :: "ExitBuffer \<Rightarrow> ExitBuffer" where
  "ExitBuffer_Init buf = buf\<lparr>eb_count := 0\<rparr>"

definition ExitBuffer_Clear :: "ExitBuffer \<Rightarrow> ExitBuffer" where
  "ExitBuffer_Clear buf = buf\<lparr>eb_count := 0\<rparr>"

definition pending_proceeds_step :: "Money \<Rightarrow> Money \<Rightarrow> ExitRecord \<Rightarrow> Money \<Rightarrow> Money" where
  "pending_proceeds_step fee_rate slippage_pct rec tot =
     (let exit_price = er_exit_price rec;
          exit_price = (if \<not> Money_IsZero slippage_pct
                        then Money_Sub exit_price (Money_Mul exit_price slippage_pct) else exit_price);
          gross = Money_Mul exit_price (er_quantity rec);
          fee = Money_Mul gross fee_rate
      in Money_Add tot (Money_Sub gross fee))"

definition ExitBuffer_PendingProceeds :: "ExitBuffer \<Rightarrow> Money \<Rightarrow> Money \<Rightarrow> Money" where
  "ExitBuffer_PendingProceeds buf fee_rate slippage_pct =
     fold (pending_proceeds_step fee_rate slippage_pct) (take (eb_count buf) (eb_records buf)) Money_Zero"

subsection \<open>Slots\<close>

definition position_zero :: Position where
  "position_zero = \<lparr>p_take_profit_price = Money_Zero, p_stop_loss_price = Money_Zero, p_quantity = Money_Zero,
     p_entry_price = Money_Zero, p_entry_fee = Money_Zero, p_original_tp = Money_Zero,
     p_original_sl = Money_Zero, p_entry_timestamp_us = 0, p_pair_index = - 1\<rparr>"

definition Position_Reset :: "Position \<Rightarrow> Position" where
  "Position_Reset p = position_zero"

definition Portfolio_Init :: "Portfolio \<Rightarrow> Portfolio" where
  "Portfolio_Init pf = pf\<lparr>pf_positions := map Position_Reset (pf_positions pf), pf_active_bitmap := 0\<rparr>"

definition Portfolio_ClearPositions :: "Portfolio \<Rightarrow> Portfolio" where
  "Portfolio_ClearPositions pf = pf\<lparr>pf_positions := map Position_Reset (pf_positions pf), pf_active_bitmap := 0\<rparr>"

definition Portfolio_IsFull :: "Portfolio \<Rightarrow> bool" where
  "Portfolio_IsFull pf = (pf_active_bitmap pf = 0xFFFF)"

definition Portfolio_CountActive :: "Portfolio \<Rightarrow> nat" where
  "Portfolio_CountActive pf = BITMAP_POPCOUNT (pf_active_bitmap pf)"

definition Portfolio_SlotActive :: "Portfolio \<Rightarrow> nat \<Rightarrow> bool" where
  "Portfolio_SlotActive pf slot = (drop_bit slot (pf_active_bitmap pf) AND 1 \<noteq> 0)"

definition Portfolio_FindByPrice :: "Portfolio \<Rightarrow> Money \<Rightarrow> int" where
  "Portfolio_FindByPrice pf entry_price =
     (case filter (\<lambda>idx. Money_Eq (p_entry_price (pf_positions pf ! idx)) entry_price) (bits_of (pf_active_bitmap pf)) of
        [] \<Rightarrow> - 1
      | idx # _ \<Rightarrow> int idx)"

definition upd_pos :: "Portfolio \<Rightarrow> nat \<Rightarrow> (Position \<Rightarrow> Position) \<Rightarrow> Portfolio" where
  "upd_pos pf i f = pf\<lparr>pf_positions := (pf_positions pf)[i := f (pf_positions pf ! i)]\<rparr>"

definition Portfolio_AddQuantity :: "Portfolio \<Rightarrow> nat \<Rightarrow> Money \<Rightarrow> Portfolio" where
  "Portfolio_AddQuantity pf index quantity =
     upd_pos pf index (\<lambda>p. p\<lparr>p_quantity := Money_Add (p_quantity p) quantity\<rparr>)"

definition first_free :: "u16 \<Rightarrow> nat" where
  "first_free active_bitmap = BITMAP_FIRST (NOT (ucast active_bitmap :: u32))"

definition Portfolio_AddPositionWithExits :: "Portfolio \<Rightarrow> Money \<Rightarrow> Money \<Rightarrow> Money \<Rightarrow> Money \<Rightarrow> Money \<Rightarrow> int \<times> Portfolio" where
  "Portfolio_AddPositionWithExits pf quantity entry_price take_profit_price stop_loss_price entry_fee =
     (if pf_active_bitmap pf = 0xFFFF then (- 1, pf)
      else let idx = first_free (pf_active_bitmap pf);
               pf' = upd_pos pf idx (\<lambda>p. p\<lparr>p_quantity := quantity, p_entry_price := entry_price,
                       p_entry_fee := entry_fee, p_take_profit_price := take_profit_price,
                       p_stop_loss_price := stop_loss_price, p_original_tp := take_profit_price,
                       p_original_sl := stop_loss_price, p_entry_timestamp_us := 0, p_pair_index := - 1\<rparr>)
           in (int idx, pf'\<lparr>pf_active_bitmap := BITMAP_SET (pf_active_bitmap pf) (BITMAP_BIT idx)\<rparr>))"

definition Portfolio_AddPosition :: "Portfolio \<Rightarrow> Money \<Rightarrow> Money \<Rightarrow> Portfolio" where
  "Portfolio_AddPosition pf quantity entry_price =
     (if pf_active_bitmap pf = 0xFFFF then pf
      else let idx = first_free (pf_active_bitmap pf);
               pf' = upd_pos pf idx (\<lambda>p. (Position_Reset p)\<lparr>p_quantity := quantity, p_entry_price := entry_price\<rparr>)
           in pf'\<lparr>pf_active_bitmap := BITMAP_SET (pf_active_bitmap pf) (BITMAP_BIT idx)\<rparr>)"

definition Portfolio_RemovePosition :: "Portfolio \<Rightarrow> nat \<Rightarrow> Portfolio" where
  "Portfolio_RemovePosition pf index =
     pf\<lparr>pf_active_bitmap := BITMAP_CLR (pf_active_bitmap pf) (BITMAP_BIT index)\<rparr>"

definition Portfolio_UpdatePosition :: "Portfolio \<Rightarrow> nat \<Rightarrow> Money \<Rightarrow> Money \<Rightarrow> Portfolio" where
  "Portfolio_UpdatePosition pf index new_quantity new_entry_price =
     upd_pos pf index (\<lambda>p. p\<lparr>p_quantity := new_quantity, p_entry_price := new_entry_price\<rparr>)"

definition Portfolio_OpenSlot :: "u64 option \<Rightarrow> Portfolio \<Rightarrow> nat \<Rightarrow> PositionEntryArgs \<Rightarrow> Portfolio" where
  "Portfolio_OpenSlot clock pf slot args =
     (let pf' = upd_pos pf slot (\<lambda>p. p\<lparr>p_entry_price := ea_entry_price args, p_quantity := ea_quantity args,
                  p_entry_fee := ea_entry_fee args, p_take_profit_price := ea_take_profit_price args,
                  p_stop_loss_price := ea_stop_loss_price args, p_original_tp := ea_take_profit_price args,
                  p_original_sl := ea_stop_loss_price args, p_pair_index := word_of_int (ea_pair_index args),
                  p_entry_timestamp_us :=
                    (if ea_entry_timestamp_us args \<noteq> 0 then ea_entry_timestamp_us args
                     else case clock of Some t \<Rightarrow> t | None \<Rightarrow> 0)\<rparr>)
      in pf'\<lparr>pf_active_bitmap := BITMAP_SET (pf_active_bitmap pf) (BITMAP_BIT slot)\<rparr>)"

definition Portfolio_OpenSlot_legacy ::
  "u64 option \<Rightarrow> Portfolio \<Rightarrow> nat \<Rightarrow> Money \<Rightarrow> Money \<Rightarrow> Money \<Rightarrow> Money \<Rightarrow> Money \<Rightarrow> Portfolio" where
  "Portfolio_OpenSlot_legacy clock pf slot entry_price quantity take_profit_price stop_loss_price entry_fee =
     Portfolio_OpenSlot clock pf slot \<lparr>ea_entry_price = entry_price, ea_quantity = quantity,
       ea_take_profit_price = take_profit_price, ea_stop_loss_price = stop_loss_price,
       ea_entry_fee = entry_fee, ea_entry_timestamp_us = 0, ea_pair_index = - 1\<rparr>"

subsection \<open>Closing and apportioning\<close>

definition Money_FillGross :: "Money \<Rightarrow> Money \<Rightarrow> Money \<Rightarrow> Money" where
  "Money_FillGross entry_price exit_price quantity = Money_Mul (Money_Sub exit_price entry_price) quantity"

definition Portfolio_CloseSlot :: "Portfolio \<Rightarrow> nat \<Rightarrow> Money \<Rightarrow> Money \<times> Portfolio" where
  "Portfolio_CloseSlot pf slot exit_price =
     (let p = pf_positions pf ! slot
      in (Money_FillGross (p_entry_price p) exit_price (p_quantity p),
          pf\<lparr>pf_active_bitmap := BITMAP_CLR (pf_active_bitmap pf) (BITMAP_BIT slot)\<rparr>))"

definition Portfolio_CloseSlotLeg :: "Portfolio \<Rightarrow> nat \<Rightarrow> Money \<Rightarrow> Money \<Rightarrow> Money \<times> Portfolio" where
  "Portfolio_CloseSlotLeg pf slot exit_price q_leg =
     (let p = pf_positions pf ! slot;
          gross = Money_FillGross (p_entry_price p) exit_price q_leg;
          qty = Money_Sub (p_quantity p) q_leg;
          pf' = upd_pos pf slot (\<lambda>p. p\<lparr>p_quantity := qty\<rparr>);
          flat_mask = - of_bool (Money_IsZero qty)
      in (gross, pf'\<lparr>pf_active_bitmap := pf_active_bitmap pf AND NOT (BITMAP_BIT slot AND flat_mask)\<rparr>))"

definition Portfolio_ConsumeEntryFeeLeg :: "Money \<Rightarrow> Money \<Rightarrow> Money \<Rightarrow> Money \<times> Money" where
  "Portfolio_ConsumeEntryFeeLeg entry_fee_remaining q_leg pos_qty =
     (let leg_flat = Money_Eq q_leg pos_qty;
          leg = (if leg_flat then entry_fee_remaining
                 else Money_Div (Money_Mul entry_fee_remaining q_leg) pos_qty)
      in (leg, Money_Sub entry_fee_remaining leg))"

definition Portfolio_AccumulateSlotLeg :: "Portfolio \<Rightarrow> nat \<Rightarrow> Money \<Rightarrow> Money \<Rightarrow> Money \<Rightarrow> Portfolio" where
  "Portfolio_AccumulateSlotLeg pf slot fill_price q_leg fee_leg =
     upd_pos pf slot (\<lambda>p.
       let old_notional = Money_Mul (p_entry_price p) (p_quantity p);
           leg_notional = Money_Mul fill_price q_leg;
           new_qty = Money_Add (p_quantity p) q_leg
       in p\<lparr>p_entry_price := Money_Div (Money_Add old_notional leg_notional) new_qty,
            p_quantity := new_qty, p_entry_fee := Money_Add (p_entry_fee p) fee_leg\<rparr>)"

subsection \<open>Marks\<close>

definition Portfolio_ComputePnL :: "Portfolio \<Rightarrow> Money \<Rightarrow> Money" where
  "Portfolio_ComputePnL pf current_price =
     bitmap_fold (\<lambda>idx tot. Money_Add tot (Money_FillGross (p_entry_price (pf_positions pf ! idx)) current_price
       (p_quantity (pf_positions pf ! idx)))) (pf_active_bitmap pf) Money_Zero"

definition Portfolio_ComputeValue :: "Portfolio \<Rightarrow> Money \<Rightarrow> Money" where
  "Portfolio_ComputeValue pf current_price =
     bitmap_fold (\<lambda>idx tot. Money_Add tot (Money_Mul current_price (p_quantity (pf_positions pf ! idx))))
       (pf_active_bitmap pf) Money_Zero"

subsection \<open>The exit gate\<close>

definition should_exit :: "Position \<Rightarrow> Money \<Rightarrow> bool" where
  "should_exit p current_price =
     (let hit_tp = Money_Ge current_price (p_take_profit_price p);
          hit_sl = Money_Le current_price (p_stop_loss_price p);
          has_exits = \<not> Money_IsZero (p_take_profit_price p)
      in (hit_tp \<or> hit_sl) \<and> has_exits)"

definition exit_record :: "nat \<Rightarrow> Position \<Rightarrow> Money \<Rightarrow> u64 \<Rightarrow> ExitRecord" where
  "exit_record idx p current_price tick =
     \<lparr>er_position_index = idx,
      er_reason = of_bool (Money_Le current_price (p_stop_loss_price p) \<and> \<not> Money_Ge current_price (p_take_profit_price p)),
      er_tick = tick, er_exit_price = current_price, er_entry_price = p_entry_price p,
      er_quantity = p_quantity p, er_entry_fee = p_entry_fee p, er_pair_index = p_pair_index p\<rparr>"

definition exit_gate_step :: "Money \<Rightarrow> u64 \<Rightarrow> nat \<Rightarrow> Portfolio \<times> ExitBuffer \<Rightarrow> Portfolio \<times> ExitBuffer" where
  "exit_gate_step current_price tick idx st =
     (let (pf, buf) = st; p = pf_positions pf ! idx
      in if should_exit p current_price \<and> eb_count buf < 16
         then (pf\<lparr>pf_active_bitmap := BITMAP_CLR (pf_active_bitmap pf) (BITMAP_BIT idx)\<rparr>,
               buf\<lparr>eb_records := (eb_records buf)[eb_count buf := exit_record idx p current_price tick],
                   eb_count := eb_count buf + 1\<rparr>)
         else (pf, buf))"

definition PositionExitGate :: "Portfolio \<Rightarrow> Money \<Rightarrow> ExitBuffer \<Rightarrow> u64 \<Rightarrow> Portfolio \<times> ExitBuffer" where
  "PositionExitGate pf current_price exit_buf tick =
     bitmap_fold (exit_gate_step current_price tick) (pf_active_bitmap pf) (pf, exit_buf)"


subsection \<open>The slot bitmap\<close>

definition portfolio_ok :: "Portfolio \<Rightarrow> bool" where
  "portfolio_ok pf \<longleftrightarrow> length (pf_positions pf) = MAX_PORTFOLIO_POSITIONS"

lemma upd_pos_simps [simp]:
  "pf_active_bitmap (upd_pos pf i f) = pf_active_bitmap pf"
  "length (pf_positions (upd_pos pf i f)) = length (pf_positions pf)"
  "i \<noteq> j \<Longrightarrow> pf_positions (upd_pos pf i f) ! j = pf_positions pf ! j"
  "i < length (pf_positions pf) \<Longrightarrow> pf_positions (upd_pos pf i f) ! i = f (pf_positions pf ! i)"
  by (simp_all add: upd_pos_def)

lemma SlotActive_bit: "Portfolio_SlotActive pf s \<longleftrightarrow> bit (pf_active_bitmap pf) s"
  by (simp add: Portfolio_SlotActive_def and_one_flag bit_iff_odd_drop_bit)

lemma bits_lt_16: "bit (a :: u16) i \<Longrightarrow> i < 16"
  using bit_imp_le_length [of a i] by simp

lemma first_free:
  assumes "a \<noteq> (0xFFFF :: u16)"
  shows "first_free a < 16" "\<not> bit a (first_free a)" "j < first_free a \<Longrightarrow> bit a j"
proof -
  have "\<exists>i < 16. \<not> bit a i"
  proof (rule ccontr)
    assume "\<not> (\<exists>i < 16. \<not> bit a i)"
    then have "a = - 1" by (intro bit_word_eqI) auto
    then show False using assms by simp
  qed
  then obtain i where i: "i < 16" "\<not> bit a i" by blast
  let ?w = "NOT (ucast a :: u32)"
  have b: "bit ?w k \<longleftrightarrow> k < 32 \<and> \<not> bit a k" for k
    by (auto simp: bit_not_iff bit_ucast_iff dest: bits_lt_16)
  have nz: "?w \<noteq> 0" using b [of i] i by (auto simp: word_nonzero_iff)
  show lt: "first_free a < 16"
    using first_bit(2) [OF nz, of i] b [of i] i by (simp add: first_free_def)
  show "\<not> bit a (first_free a)" using first_bit(1) [OF nz] b by (simp add: first_free_def)
  show "bit a j" if "j < first_free a"
    using first_bit(2) [OF nz, of j] b [of j] that lt by (auto simp: first_free_def)
qed

lemma IsFull_count: "Portfolio_IsFull pf \<longleftrightarrow> Portfolio_CountActive pf = 16"
proof
  assume "Portfolio_IsFull pf"
  then show "Portfolio_CountActive pf = 16"
    by (simp add: Portfolio_IsFull_def Portfolio_CountActive_def BITMAP_POPCOUNT_def bits_of_def upt_rec)
next
  assume c: "Portfolio_CountActive pf = 16"
  show "Portfolio_IsFull pf"
  proof (rule ccontr)
    assume "\<not> Portfolio_IsFull pf"
    then have n: "pf_active_bitmap pf \<noteq> 0xFFFF" by (simp add: Portfolio_IsFull_def)
    have "BITMAP_POPCOUNT (BITMAP_SET (pf_active_bitmap pf) (BITMAP_BIT (first_free (pf_active_bitmap pf)))) = 17"
      using popcount_set [of "first_free (pf_active_bitmap pf)" "pf_active_bitmap pf"] first_free [OF n] c
      by (simp add: Portfolio_CountActive_def)
    then show False
      using popcount_le [of "BITMAP_SET (pf_active_bitmap pf) (BITMAP_BIT (first_free (pf_active_bitmap pf)))"] by simp
  qed
qed

text \<open>Adding a position: with sixteen active slots nothing changes and the result is \<open>- 1\<close>;
  otherwise the lowest free slot becomes active and holds the given amounts, its trail anchors
  set to the exits, every other slot and position is untouched and one more slot is active.\<close>

theorem AddPositionWithExits_spec:
  assumes "portfolio_ok pf" "Portfolio_AddPositionWithExits pf q e tp sl fee = (res, pf')"
  shows "if Portfolio_CountActive pf = 16 then res = - 1 \<and> pf' = pf
    else \<exists>idx < 16. res = int idx \<and> \<not> Portfolio_SlotActive pf idx \<and> (\<forall>j < idx. Portfolio_SlotActive pf j) \<and>
      (\<forall>j. Portfolio_SlotActive pf' j = (Portfolio_SlotActive pf j \<or> j = idx)) \<and>
      (\<forall>j. j \<noteq> idx \<longrightarrow> pf_positions pf' ! j = pf_positions pf ! j) \<and>
      pf_positions pf' ! idx = \<lparr>p_take_profit_price = tp, p_stop_loss_price = sl, p_quantity = q, p_entry_price = e,
        p_entry_fee = fee, p_original_tp = tp, p_original_sl = sl, p_entry_timestamp_us = 0, p_pair_index = - 1\<rparr> \<and>
      Portfolio_CountActive pf' = Portfolio_CountActive pf + 1 \<and> portfolio_ok pf'"
proof (cases "pf_active_bitmap pf = 0xFFFF")
  case True
  then show ?thesis
    using assms(2) IsFull_count [of pf] by (simp add: Portfolio_AddPositionWithExits_def Portfolio_IsFull_def)
next
  case False
  let ?a = "pf_active_bitmap pf"
  let ?i = "first_free ?a"
  note ff = first_free [OF False]
  have nc: "Portfolio_CountActive pf \<noteq> 16" using False IsFull_count [of pf] by (simp add: Portfolio_IsFull_def)
  have len: "?i < length (pf_positions pf)"
    using ff(1) assms(1) by (simp add: portfolio_ok_def MAX_PORTFOLIO_POSITIONS_def)
  have res: "res = int ?i" and bm: "pf_active_bitmap pf' = BITMAP_SET ?a (BITMAP_BIT ?i)"
    using assms(2) False by (auto simp: Portfolio_AddPositionWithExits_def Let_def)
  have pos: "pf_positions pf' = pf_positions (upd_pos pf ?i (\<lambda>p. p\<lparr>p_quantity := q, p_entry_price := e,
      p_entry_fee := fee, p_take_profit_price := tp, p_stop_loss_price := sl, p_original_tp := tp,
      p_original_sl := sl, p_entry_timestamp_us := 0, p_pair_index := - 1\<rparr>))"
    using assms(2) False by (auto simp: Portfolio_AddPositionWithExits_def Let_def)
  have "Portfolio_CountActive pf' = Portfolio_CountActive pf + 1"
    using popcount_set [of ?i ?a] ff by (simp add: Portfolio_CountActive_def bm)
  moreover have "\<forall>j. Portfolio_SlotActive pf' j = (Portfolio_SlotActive pf j \<or> j = ?i)"
    using ff(1) by (auto simp: SlotActive_bit bm bit_set)
  moreover have "portfolio_ok pf'" using assms(1) by (simp add: portfolio_ok_def pos)
  moreover have "pf_positions pf' ! ?i = \<lparr>p_take_profit_price = tp, p_stop_loss_price = sl, p_quantity = q, p_entry_price = e,
        p_entry_fee = fee, p_original_tp = tp, p_original_sl = sl, p_entry_timestamp_us = 0, p_pair_index = - 1\<rparr>"
    using len by (simp add: pos)
  moreover have "\<forall>j. j \<noteq> ?i \<longrightarrow> pf_positions pf' ! j = pf_positions pf ! j" by (simp add: pos)
  ultimately show ?thesis
    using nc ff res by (auto simp: SlotActive_bit intro!: exI [of _ ?i])
qed

definition demo_portfolio :: Portfolio where
  "demo_portfolio = \<lparr>pf_active_bitmap = 5, pf_positions = replicate 16 position_zero\<rparr>"

lemma demo_portfolio_ok: "portfolio_ok demo_portfolio" "Portfolio_CountActive demo_portfolio = 2"
  by (simp_all add: portfolio_ok_def demo_portfolio_def MAX_PORTFOLIO_POSITIONS_def Portfolio_CountActive_def
      BITMAP_POPCOUNT_def bits_of_def upt_rec)

lemma AddPositionWithExits_witness:
  "Portfolio_CountActive (snd (Portfolio_AddPositionWithExits demo_portfolio (Money 3) (Money 7) (Money 9) (Money 5) (Money 1))) = 3"
  using AddPositionWithExits_spec [OF demo_portfolio_ok(1) prod.collapse [symmetric],
      of "Money 3" "Money 7" "Money 9" "Money 5" "Money 1"] demo_portfolio_ok(2) by auto

text \<open>Opening, closing and querying one slot.\<close>

lemma open_close_slot:
  assumes "slot < 16"
  shows "Portfolio_SlotActive (Portfolio_OpenSlot clk pf slot args) j = (Portfolio_SlotActive pf j \<or> j = slot)"
    "Portfolio_SlotActive (snd (Portfolio_CloseSlot pf slot px)) j = (Portfolio_SlotActive pf j \<and> j \<noteq> slot)"
    "Portfolio_SlotActive (Portfolio_RemovePosition pf slot) j = (Portfolio_SlotActive pf j \<and> j \<noteq> slot)"
  using assms
  by (auto simp: Portfolio_OpenSlot_def Portfolio_CloseSlot_def Portfolio_RemovePosition_def SlotActive_bit
      bit_set bit_clr Let_def)


lemma FindByPrice_spec:
  "Portfolio_FindByPrice pf e = - 1 \<and> (\<forall>i. Portfolio_SlotActive pf i \<longrightarrow> mint (p_entry_price (pf_positions pf ! i)) \<noteq> mint e)
   \<or> (\<exists>i. Portfolio_FindByPrice pf e = int i \<and> Portfolio_SlotActive pf i \<and>
        mint (p_entry_price (pf_positions pf ! i)) = mint e \<and>
        (\<forall>j < i. Portfolio_SlotActive pf j \<longrightarrow> mint (p_entry_price (pf_positions pf ! j)) \<noteq> mint e))"
proof -
  let ?P = "\<lambda>i. Money_Eq (p_entry_price (pf_positions pf ! i)) e"
  let ?l = "filter ?P (bits_of (pf_active_bitmap pf))"
  have mem: "i \<in> set ?l \<longleftrightarrow> Portfolio_SlotActive pf i \<and> mint (p_entry_price (pf_positions pf ! i)) = mint e" for i
    by (auto simp: set_bits_of SlotActive_bit)
  have srt: "sorted ?l" by (rule sorted_wrt_filter [OF sorted_bits_of])
  show ?thesis
  proof (cases ?l)
    case Nil
    then show ?thesis using mem by (force simp: Portfolio_FindByPrice_def)
  next
    case (Cons i rest)
    then have "Portfolio_FindByPrice pf e = int i" by (simp add: Portfolio_FindByPrice_def)
    moreover have "i \<in> set ?l" using Cons by simp
    moreover have "i \<le> j" if "j \<in> set ?l" for j using srt that unfolding Cons by auto
    ultimately show ?thesis using mem by (meson not_le)
  qed
qed

subsection \<open>The entry fee is apportioned without loss\<close>

text \<open>A position closed leg by leg, as the sell fills do it.\<close>

fun consume_legs :: "Money \<Rightarrow> Money \<Rightarrow> Money list \<Rightarrow> Money list \<times> Money" where
  "consume_legs fee qty [] = ([], fee)"
| "consume_legs fee qty (q # qs) =
     (let (leg, fee') = Portfolio_ConsumeEntryFeeLeg fee q qty;
          (legs, rest) = consume_legs fee' (Money_Sub qty q) qs
      in (leg # legs, rest))"

lemma leg_sign:
  assumes "money_closed fee" "0 < mint q" "0 < mint qty"
  defines "leg \<equiv> fst (Portfolio_ConsumeEntryFeeLeg fee q qty)"
  shows "money_closed leg" "0 \<le> mint fee \<Longrightarrow> 0 \<le> mint leg" "mint fee \<le> 0 \<Longrightarrow> mint leg \<le> 0"
proof -
  have m: "mint (Money_Mul fee q) = money_sat (irhe (mint fee * mint q) 100000000)" by (rule Money_Mul_int)
  note d = Money_Div_int [OF money_closed_ops(1) assms(3), of fee q]
  show "money_closed leg"
    using assms(1) Money_Div_closed [OF money_closed_ops(1)]
    by (simp add: leg_def Portfolio_ConsumeEntryFeeLeg_def Let_def)
  show "0 \<le> mint leg" if "0 \<le> mint fee"
    using that assms(2) m
    by (simp add: leg_def Portfolio_ConsumeEntryFeeLeg_def Let_def d money_sat_sign irhe_sign)
  show "mint leg \<le> 0" if "mint fee \<le> 0"
    using that assms(2) m
    by (simp add: leg_def Portfolio_ConsumeEntryFeeLeg_def Let_def d money_sat_sign irhe_sign
        mult_nonpos_nonneg)
qed

lemma leg_conserved:
  assumes "money_closed fee" "0 < mint q" "0 < mint qty"
  shows "mint (snd (Portfolio_ConsumeEntryFeeLeg fee q qty)) =
      mint fee - mint (fst (Portfolio_ConsumeEntryFeeLeg fee q qty))"
    "money_closed (snd (Portfolio_ConsumeEntryFeeLeg fee q qty))"
proof -
  let ?leg = "fst (Portfolio_ConsumeEntryFeeLeg fee q qty)"
  note l = leg_sign [OF assms]
  have s: "snd (Portfolio_ConsumeEntryFeeLeg fee q qty) = Money_Sub fee ?leg"
    by (simp add: Portfolio_ConsumeEntryFeeLeg_def Let_def)
  have "\<bar>mint fee - mint ?leg\<bar> \<le> money_lim"
    using l assms(1) by (cases "0 \<le> mint fee") (auto simp: money_closed_def abs_if split: if_splits)
  then show "mint (snd (Portfolio_ConsumeEntryFeeLeg fee q qty)) = mint fee - mint ?leg"
    unfolding s by (simp add: Money_Sub_int [OF assms(1) l(1)] money_sat_id)
  then show "money_closed (snd (Portfolio_ConsumeEntryFeeLeg fee q qty))"
    using money_closed_ops(3) [OF assms(1) l(1)] by (simp add: s)
qed

lemma consume_legs_sum:
  assumes "money_closed fee" "money_closed qty" "\<forall>q \<in> set qs. 0 < mint q"
    "sum_list (map mint qs) = mint qty" "consume_legs fee qty qs = (legs, rest)"
  shows "sum_list (map mint legs) + mint rest = mint fee \<and> (qs \<noteq> [] \<longrightarrow> mint rest = 0)"
  using assms
proof (induction qs arbitrary: fee qty legs rest)
  case Nil
  then show ?case by simp
next
  case (Cons q qs)
  have nn: "0 \<le> sum_list (map mint qs)"
    using Cons.prems(3) by (intro sum_list_nonneg) auto
  have q: "0 < mint q" "0 < mint qty" "mint q \<le> mint qty" using Cons.prems(3,4) nn by simp_all
  obtain leg fee' where l: "Portfolio_ConsumeEntryFeeLeg fee q qty = (leg, fee')" by fastforce
  obtain legs' where r: "consume_legs fee' (Money_Sub qty q) qs = (legs', rest)" and legs: "legs = leg # legs'"
    using Cons.prems(5) by (auto simp: l split: prod.splits)
  have cq: "money_closed q" using Cons.prems(2) q by (simp add: money_closed_def)
  have sub: "mint (Money_Sub qty q) = mint qty - mint q"
    using Cons.prems(2) cq q by (simp add: Money_Sub_int money_sat_id money_closed_def)
  have fee': "mint fee' = mint fee - mint leg" "money_closed fee'"
    using leg_conserved [OF Cons.prems(1) q(1,2)] by (simp_all add: l)
  have IH: "sum_list (map mint legs') + mint rest = mint fee' \<and> (qs \<noteq> [] \<longrightarrow> mint rest = 0)"
    by (rule Cons.IH [OF fee'(2) _ _ _ r])
      (use Cons.prems q sub in \<open>auto simp: money_closed_def\<close>)
  have "mint rest = 0" if "qs = []"
  proof -
    have "mint q = mint qty" using Cons.prems(4) that by simp
    then have "leg = fee" using l by (simp add: Portfolio_ConsumeEntryFeeLeg_def Let_def)
    then show ?thesis using r fee' that by simp
  qed
  then show ?case using IH fee'(1) by (auto simp: legs)
qed

text \<open>C37: closing a position in any number of positive legs apportions its entry fee without
  loss: the booked legs sum to the fee exactly and nothing remains, whatever rounding the
  individual legs took.\<close>

theorem entry_fee_conserved:
  assumes "money_closed fee" "money_closed qty" "qs \<noteq> []" "\<forall>q \<in> set qs. 0 < mint q"
    "sum_list (map mint qs) = mint qty" "consume_legs fee qty qs = (legs, rest)"
  shows "sum_list (map mint legs) = mint fee \<and> mint rest = 0 \<and> length legs = length qs"
proof -
  have "length legs = length qs"
    using assms(6)
    by (induction qs arbitrary: fee qty legs) (auto split: prod.splits)
  moreover note consume_legs_sum [OF assms(1,2,4,5,6)]
  ultimately show ?thesis using assms(3) by linarith
qed

lemma demo_legs:
  "money_closed (Money 100)" "money_closed (Money 30)" "[Money 10, Money 20] \<noteq> []"
  "\<forall>q \<in> set [Money 10, Money 20]. 0 < mint q" "sum_list (map mint [Money 10, Money 20]) = mint (Money 30)"
  by (simp_all add: money_closed_def money_lim_def)

lemma entry_fee_conserved_witness:
  "\<exists>legs rest. consume_legs (Money 100) (Money 30) [Money 10, Money 20] = (legs, rest) \<and>
     sum_list (map mint legs) = 100 \<and> mint rest = 0"
  using entry_fee_conserved [OF demo_legs prod.collapse [symmetric]] by (auto intro: prod.collapse [symmetric])

text \<open>
  The single legs are not the half-even share: the product is rounded to eight decimals before
  the division, so on a small position a partial leg can exceed the whole fee.
\<close>

lemma fee_leg_overshoot:
  "mint (fst (Portfolio_ConsumeEntryFeeLeg (Money 5001) (Money 9999) (Money 10000))) = 10000 \<and>
   mint (snd (Portfolio_ConsumeEntryFeeLeg (Money 5001) (Money 9999) (Money 10000))) = - 4999"
proof -
  have m: "mint (Money_Mul (Money 5001) (Money 9999)) = 1"
    by (simp add: Money_Mul_int irhe_def rhe_def money_sat_def money_lim_def)
  have leg: "mint (fst (Portfolio_ConsumeEntryFeeLeg (Money 5001) (Money 9999) (Money 10000))) = 10000"
    by (simp add: Portfolio_ConsumeEntryFeeLeg_def Let_def Money_Div_int money_closed_ops m)
      (simp add: irhe_def rhe_def money_sat_def money_lim_def)
  then show ?thesis
    using leg_conserved(1) [of "Money 5001" "Money 9999" "Money 10000"]
    by (simp add: money_closed_def money_lim_def)
qed


subsection \<open>The exit gate takes exactly the positions that hit\<close>

lemma exit_gate_step_pair:
  "exit_gate_step px tick i (pf, buf) =
     (if should_exit (pf_positions pf ! i) px \<and> eb_count buf < 16
      then (pf\<lparr>pf_active_bitmap := BITMAP_CLR (pf_active_bitmap pf) (BITMAP_BIT i)\<rparr>,
            buf\<lparr>eb_records := (eb_records buf)[eb_count buf := exit_record i (pf_positions pf ! i) px tick],
                eb_count := eb_count buf + 1\<rparr>)
      else (pf, buf))"
  by (simp add: exit_gate_step_def Let_def)

lemma exit_fold:
  assumes "length (eb_records buf) = 16" "eb_count buf \<le> 16"
    "fold (exit_gate_step px tick) l (pf, buf) = (pf', buf')"
  defines "ex \<equiv> take (16 - eb_count buf) (filter (\<lambda>i. should_exit (pf_positions pf ! i) px) l)"
  shows "pf_positions pf' = pf_positions pf \<and>
    (\<forall>j. bit (pf_active_bitmap pf') j = (bit (pf_active_bitmap pf) j \<and> j \<notin> set ex)) \<and>
    length (eb_records buf') = 16 \<and> eb_count buf' = eb_count buf + length ex \<and>
    take (eb_count buf') (eb_records buf') =
      take (eb_count buf) (eb_records buf) @ map (\<lambda>i. exit_record i (pf_positions pf ! i) px tick) ex"
  using assms(1-3) unfolding ex_def
proof (induction l arbitrary: pf buf)
  case Nil
  then show ?case by simp
next
  case (Cons i l)
  let ?p = "pf_positions pf ! i"
  show ?case
  proof (cases "should_exit ?p px \<and> eb_count buf < 16")
    case True
    let ?pf = "pf\<lparr>pf_active_bitmap := BITMAP_CLR (pf_active_bitmap pf) (BITMAP_BIT i)\<rparr>"
    let ?buf = "buf\<lparr>eb_records := (eb_records buf)[eb_count buf := exit_record i ?p px tick],
                   eb_count := eb_count buf + 1\<rparr>"
    have f: "fold (exit_gate_step px tick) l (?pf, ?buf) = (pf', buf')"
      using Cons.prems(3) True by (simp add: exit_gate_step_pair)
    have "eb_count ?buf = eb_count buf + 1" by simp
    then have "16 - eb_count buf = Suc (16 - eb_count ?buf)" using True by linarith
    then have ex: "take (16 - eb_count buf) (filter (\<lambda>i. should_exit (pf_positions pf ! i) px) (i # l)) =
        i # take (16 - eb_count ?buf) (filter (\<lambda>i. should_exit (pf_positions ?pf ! i) px) l)"
      using True by simp
    have t: "take (eb_count ?buf) (eb_records ?buf) =
        take (eb_count buf) (eb_records buf) @ [exit_record i ?p px tick]"
      using True Cons.prems(1) by (simp add: take_Suc_conv_app_nth)
    have len: "length (eb_records ?buf) = 16" "eb_count ?buf \<le> 16" using Cons.prems(1) True by simp_all
    have b: "bit (pf_active_bitmap ?pf) j = (bit (pf_active_bitmap pf) j \<and> j \<noteq> i)" for j
      by (simp add: bit_clr)
    have p: "pf_positions ?pf = pf_positions pf" by simp
    note IH = Cons.IH [OF len f, unfolded t b p]
    show ?thesis
      unfolding ex p
    proof (intro conjI)
      show "\<forall>j. bit (pf_active_bitmap pf') j = (bit (pf_active_bitmap pf) j \<and>
          j \<notin> set (i # take (16 - eb_count ?buf) (filter (\<lambda>i. should_exit (pf_positions pf ! i) px) l)))"
        using IH [THEN conjunct2, THEN conjunct1] by auto
      show "eb_count buf' = eb_count buf +
          length (i # take (16 - eb_count ?buf) (filter (\<lambda>i. should_exit (pf_positions pf ! i) px) l))"
        using IH [THEN conjunct2, THEN conjunct2, THEN conjunct2, THEN conjunct1] by simp
      show "take (eb_count buf') (eb_records buf') = take (eb_count buf) (eb_records buf) @
          map (\<lambda>i. exit_record i (pf_positions pf ! i) px tick)
            (i # take (16 - eb_count ?buf) (filter (\<lambda>i. should_exit (pf_positions pf ! i) px) l))"
        using IH [THEN conjunct2, THEN conjunct2, THEN conjunct2, THEN conjunct2] by simp
    qed (use IH in blast)+
  next
    case False
    then have f: "fold (exit_gate_step px tick) l (pf, buf) = (pf', buf')"
      using Cons.prems(3) False by (simp add: exit_gate_step_pair split: if_splits)
    show ?thesis
      using Cons.IH [OF Cons.prems(1,2) f] False Cons.prems(2) by (cases "eb_count buf = 16") auto
  qed
qed

text \<open>The exit gate, from an empty buffer, closes exactly the active positions that have
  exits armed and whose take-profit or stop-loss is hit, in slot order, each with one record
  that takes the profit side when both hit; every other slot stays active and no position is
  modified.\<close>

theorem PositionExitGate_spec:
  assumes "length (eb_records buf) = 16" "eb_count buf = 0" "PositionExitGate pf px buf tick = (pf', buf')"
  defines "ex \<equiv> filter (\<lambda>i. should_exit (pf_positions pf ! i) px) (bits_of (pf_active_bitmap pf))"
  shows "pf_positions pf' = pf_positions pf \<and>
    (\<forall>j. Portfolio_SlotActive pf' j = (Portfolio_SlotActive pf j \<and> \<not> should_exit (pf_positions pf ! j) px)) \<and>
    take (eb_count buf') (eb_records buf') = map (\<lambda>i. exit_record i (pf_positions pf ! i) px tick) ex \<and>
    eb_count buf' = length ex \<and>
    (\<forall>r \<in> set (take (eb_count buf') (eb_records buf')). (er_reason r = 0) =
        (mint (p_take_profit_price (pf_positions pf ! er_position_index r)) \<le> mint px))"
proof -
  have le: "length ex \<le> 16"
    unfolding ex_def
    by (rule order_trans [OF length_filter_le]) (use popcount_le [of "pf_active_bitmap pf"] in \<open>simp add: BITMAP_POPCOUNT_def\<close>)
  have f: "fold (exit_gate_step px tick) (bits_of (pf_active_bitmap pf)) (pf, buf) = (pf', buf')"
    using assms(3) by (simp add: PositionExitGate_def bitmap_fold_def)
  have "eb_count buf \<le> 16" using assms(2) by simp
  note E = exit_fold [OF assms(1) this f, folded ex_def, unfolded assms(2)]
  have ex: "take (16 - 0) ex = ex" using le by simp
  have mem: "j \<in> set ex \<longleftrightarrow> Portfolio_SlotActive pf j \<and> should_exit (pf_positions pf ! j) px" for j
    by (auto simp: ex_def set_bits_of SlotActive_bit)
  have tk: "take (eb_count buf') (eb_records buf') = map (\<lambda>i. exit_record i (pf_positions pf ! i) px tick) ex"
  proof -
    have "take (eb_count buf') (eb_records buf') =
        take 0 (eb_records buf) @ map (\<lambda>i. exit_record i (pf_positions pf ! i) px tick) (take (16 - 0) ex)"
      using E by blast
    then show ?thesis unfolding ex by simp
  qed
  have "(er_reason r = 0) = (mint (p_take_profit_price (pf_positions pf ! er_position_index r)) \<le> mint px)"
    if "r \<in> set (take (eb_count buf') (eb_records buf'))" for r
    using that mem unfolding tk by (auto simp: exit_record_def should_exit_def Let_def)
  then show ?thesis
    using E tk unfolding ex by (auto simp: SlotActive_bit mem)
qed


definition demo_armed :: Portfolio where
  "demo_armed = upd_pos demo_portfolio 2 (\<lambda>p. p\<lparr>p_take_profit_price := Money 9, p_stop_loss_price := Money 3\<rparr>)"

definition demo_buffer :: ExitBuffer where
  "demo_buffer = \<lparr>eb_count = 0, eb_records = replicate 16 (exit_record 0 position_zero Money_Zero 0)\<rparr>"

lemma bits_of_5: "bits_of (5 :: u16) = [0, 2]"
  by (simp add: bits_of_def upt_rec)

lemma PositionExitGate_witness:
  "eb_count (snd (PositionExitGate demo_armed (Money 10) demo_buffer 77)) = 1 \<and>
   \<not> Portfolio_SlotActive (fst (PositionExitGate demo_armed (Money 10) demo_buffer 77)) 2"
proof -
  have e: "filter (\<lambda>i. should_exit (pf_positions demo_armed ! i) (Money 10)) (bits_of (pf_active_bitmap demo_armed)) = [2]"
    by (simp add: demo_armed_def demo_portfolio_def bits_of_5 should_exit_def position_zero_def upd_pos_def Let_def Money_Zero_def)
  have "should_exit (pf_positions demo_armed ! 2) (Money 10)"
    by (simp add: demo_armed_def demo_portfolio_def should_exit_def upd_pos_def Let_def)
  then show ?thesis
    using PositionExitGate_spec [of demo_buffer demo_armed "Money 10" 77, OF _ _ prod.collapse [symmetric]] e
    by (simp add: demo_buffer_def)
qed

text \<open>Closing one leg: the booked gross is the price difference times the leg, the slot keeps
  exactly the remaining quantity, and its bit is cleared exactly when nothing remains; no
  other slot changes.\<close>

theorem CloseSlotLeg_spec:
  assumes "portfolio_ok pf" "slot < 16" "0 < mint q" "mint q \<le> mint (p_quantity (pf_positions pf ! slot))"
    "money_closed (p_quantity (pf_positions pf ! slot))" "Portfolio_SlotActive pf slot"
    "Portfolio_CloseSlotLeg pf slot px q = (gross, pf')"
  shows "gross = Money_FillGross (p_entry_price (pf_positions pf ! slot)) px q \<and>
    mint (p_quantity (pf_positions pf' ! slot)) = mint (p_quantity (pf_positions pf ! slot)) - mint q \<and>
    (Portfolio_SlotActive pf' slot \<longleftrightarrow> mint q < mint (p_quantity (pf_positions pf ! slot))) \<and>
    (\<forall>j. j \<noteq> slot \<longrightarrow> pf_positions pf' ! j = pf_positions pf ! j \<and> Portfolio_SlotActive pf' j = Portfolio_SlotActive pf j)"
proof -
  let ?p = "pf_positions pf ! slot"
  have cq: "money_closed q" using assms(3,4,5) by (simp add: money_closed_def)
  have sub: "mint (Money_Sub (p_quantity ?p) q) = mint (p_quantity ?p) - mint q"
    using assms(3,4,5) cq by (simp add: Money_Sub_int money_sat_id money_closed_def)
  have len: "slot < length (pf_positions pf)"
    using assms(1,2) by (simp add: portfolio_ok_def MAX_PORTFOLIO_POSITIONS_def)
  have pf': "pf' = (upd_pos pf slot (\<lambda>p. p\<lparr>p_quantity := Money_Sub (p_quantity ?p) q\<rparr>))
      \<lparr>pf_active_bitmap := pf_active_bitmap pf AND
         NOT (BITMAP_BIT slot AND - of_bool (mint (Money_Sub (p_quantity ?p) q) = 0))\<rparr>"
    and g: "gross = Money_FillGross (p_entry_price ?p) px q"
    using assms(7) by (auto simp: Portfolio_CloseSlotLeg_def Let_def)
  have bits: "bit (pf_active_bitmap pf') j = (bit (pf_active_bitmap pf) j \<and> \<not> (j = slot \<and> mint q = mint (p_quantity ?p)))" for j
    using assms(2) by (auto simp: pf' sub bit_and_iff bit_not_iff bit_BITMAP_BIT dest: bits_lt_16)
  have "pf_positions pf' ! slot = ?p\<lparr>p_quantity := Money_Sub (p_quantity ?p) q\<rparr>"
    using len by (simp add: pf')
  moreover have "\<forall>j. j \<noteq> slot \<longrightarrow> pf_positions pf' ! j = pf_positions pf ! j" by (simp add: pf')
  ultimately show ?thesis
    using g sub bits assms(4,6) by (auto simp: SlotActive_bit)
qed

lemma CloseSlotLeg_witness:
  "mint (p_quantity (pf_positions (snd (Portfolio_CloseSlotLeg
     (upd_pos demo_portfolio 2 (\<lambda>p. p\<lparr>p_quantity := Money 30\<rparr>)) 2 (Money 8) (Money 10))) ! 2)) = 20"
proof -
  let ?pf = "upd_pos demo_portfolio 2 (\<lambda>p. p\<lparr>p_quantity := Money 30\<rparr>)"
  have p: "p_quantity (pf_positions ?pf ! 2) = Money 30" by (simp add: demo_portfolio_def upd_pos_def)
  have "portfolio_ok ?pf" "Portfolio_SlotActive ?pf 2"
    by (simp_all add: portfolio_ok_def demo_portfolio_def MAX_PORTFOLIO_POSITIONS_def Portfolio_SlotActive_def)
  then show ?thesis
    using CloseSlotLeg_spec [of ?pf 2 "Money 10" "Money 8", OF _ _ _ _ _ _ prod.collapse [symmetric]] p
    by (simp add: money_closed_def money_lim_def)
qed

end
