(* ===== verification/Event_Log.thy ===== *)
theory Event_Log
  imports Spsc_Ring Order_Model Portfolio_Model Money_Text
begin

text \<open>
  The order event log of \<^verbatim>\<open>src/CoreFrameworks/OrderEventLog.hpp\<close>: the event record and its raw
  disk image, the append path with its asynchronous writer, reset, load, and the replay fold.
  Files are byte lists; a field of \<^verbatim>\<open>el_fs\<close> is the file system the stream calls act on, and the
  outcomes of \<^verbatim>\<open>fopen\<close>, \<^verbatim>\<open>rename\<close> and \<^verbatim>\<open>malloc\<close> are arguments.  Stream buffering and short
  writes are not modelled.
\<close>

unbundle bit_operations_syntax

subsection \<open>Events\<close>

definition OEVT_SUBMITTED :: u8 where "OEVT_SUBMITTED = 0"
definition OEVT_ACKNOWLEDGED :: u8 where "OEVT_ACKNOWLEDGED = 1"
definition OEVT_PARTIAL_FILL :: u8 where "OEVT_PARTIAL_FILL = 2"
definition OEVT_FULL_FILL :: u8 where "OEVT_FULL_FILL = 3"
definition OEVT_REJECTED :: u8 where "OEVT_REJECTED = 4"
definition OEVT_CANCELED :: u8 where "OEVT_CANCELED = 5"
definition OEVT_RECONCILED :: u8 where "OEVT_RECONCILED = 6"
definition OEVT_CTRL_TRUNCATE :: u8 where "OEVT_CTRL_TRUNCATE = 7"
definition OEVT_TERMINAL_INCOMPLETE :: u8 where "OEVT_TERMINAL_INCOMPLETE = 8"
definition OEVT_RING_FULL_FATAL :: u8 where "OEVT_RING_FULL_FATAL = 9"

lemmas oevt_defs = OEVT_SUBMITTED_def OEVT_ACKNOWLEDGED_def OEVT_PARTIAL_FILL_def OEVT_FULL_FILL_def
  OEVT_REJECTED_def OEVT_CANCELED_def OEVT_RECONCILED_def OEVT_CTRL_TRUNCATE_def
  OEVT_TERMINAL_INCOMPLETE_def OEVT_RING_FULL_FATAL_def

record OrderEvent =
  ev_event_id :: u64
  ev_order_id :: u64
  ev_timestamp_us :: u64
  ev_type :: u8
  ev_order_type :: u8
  ev_node_id :: int
  ev_price :: Money
  ev_qty :: Money
  ev_tp :: Money
  ev_sl :: Money
  ev_fee :: Money
  ev_reason :: string

text \<open>\<^verbatim>\<open>strncpy\<close> of a C string into a zeroed buffer with room for \<open>n\<close> characters.\<close>

definition c_copy :: "nat \<Rightarrow> string \<Rightarrow> string" where
  "c_copy n s = take n (takeWhile (\<lambda>c. c \<noteq> CHR 0x00) s)"

lemma c_copy_ok [simp]: "length (c_copy n s) \<le> n" "CHR 0x00 \<notin> set (c_copy n s)"
  by (auto simp: c_copy_def dest: in_set_takeD set_takeWhileD)

definition event_zero :: OrderEvent where
  "event_zero = \<lparr>ev_event_id = 0, ev_order_id = 0, ev_timestamp_us = 0, ev_type = 0, ev_order_type = 0,
     ev_node_id = 0, ev_price = Money 0, ev_qty = Money 0, ev_tp = Money 0, ev_sl = Money 0,
     ev_fee = Money 0, ev_reason = []\<rparr>"

definition order_type_byte :: "OrderType \<Rightarrow> u8" where
  "order_type_byte t = ucast (order_type_code t)"

definition OrderEvent_MakeFill ::
  "u64 \<Rightarrow> u64 \<Rightarrow> OrderType \<Rightarrow> int \<Rightarrow> Money \<Rightarrow> Money \<Rightarrow> Money \<Rightarrow> Money \<Rightarrow> Money \<Rightarrow> u8 \<Rightarrow> OrderEvent" where
  "OrderEvent_MakeFill order_id timestamp_us order_type node_id price qty tp sl fee order_complete =
     event_zero\<lparr>ev_event_id := 0, ev_order_id := order_id, ev_timestamp_us := timestamp_us,
       ev_type := (if order_complete \<noteq> 0 then OEVT_FULL_FILL else OEVT_PARTIAL_FILL),
       ev_order_type := order_type_byte order_type, ev_node_id := node_id, ev_price := price, ev_qty := qty,
       ev_tp := tp, ev_sl := sl, ev_fee := fee, ev_reason := []\<rparr>"

definition OrderEvent_MakeRejection :: "u64 \<Rightarrow> u64 \<Rightarrow> OrderType \<Rightarrow> int \<Rightarrow> string option \<Rightarrow> OrderEvent" where
  "OrderEvent_MakeRejection order_id timestamp_us order_type node_id reason_str =
     event_zero\<lparr>ev_event_id := 0, ev_order_id := order_id, ev_timestamp_us := timestamp_us,
       ev_type := OEVT_REJECTED, ev_order_type := order_type_byte order_type, ev_node_id := node_id,
       ev_reason := (case reason_str of None \<Rightarrow> [] | Some s \<Rightarrow> c_copy 31 s)\<rparr>"

subsection \<open>The disk image\<close>

definition le_bytes :: "nat \<Rightarrow> 'a::len word \<Rightarrow> u8 list" where
  "le_bytes n w = map (\<lambda>i. ucast (drop_bit (8 * i) w)) [0..<n]"

definition le_word :: "u8 list \<Rightarrow> 'a::len word" where
  "le_word bs = foldr (\<lambda>b acc. push_bit 8 acc OR ucast b) bs 0"

definition chars_image :: "nat \<Rightarrow> string \<Rightarrow> u8 list" where
  "chars_image n s = take n (map (\<lambda>c. word_of_nat (of_char c)) s @ replicate n 0)"

definition chars_read :: "u8 list \<Rightarrow> string" where
  "chars_read bs = map (\<lambda>b. char_of (unat b)) (takeWhile (\<lambda>b. b \<noteq> 0) bs)"

definition ORDER_EVENT_SIZE :: nat where "ORDER_EVENT_SIZE = 144"

definition event_image :: "OrderEvent \<Rightarrow> u8 list" where
  "event_image e = le_bytes 8 (ev_event_id e) @ le_bytes 8 (ev_order_id e) @ le_bytes 8 (ev_timestamp_us e)
     @ [ev_type e, ev_order_type e] @ le_bytes 2 (word_of_int (ev_node_id e) :: u16) @ replicate 4 0
     @ le_bytes 16 (mv (ev_price e)) @ le_bytes 16 (mv (ev_qty e)) @ le_bytes 16 (mv (ev_tp e))
     @ le_bytes 16 (mv (ev_sl e)) @ le_bytes 16 (mv (ev_fee e)) @ chars_image 32 (ev_reason e)"

definition field_at :: "u8 list \<Rightarrow> nat \<Rightarrow> nat \<Rightarrow> u8 list" where
  "field_at bs off n = take n (drop off bs)"

definition event_read :: "u8 list \<Rightarrow> OrderEvent" where
  "event_read bs = \<lparr>ev_event_id = le_word (field_at bs 0 8), ev_order_id = le_word (field_at bs 8 8),
     ev_timestamp_us = le_word (field_at bs 16 8), ev_type = bs ! 24, ev_order_type = bs ! 25,
     ev_node_id = sint (le_word (field_at bs 26 2) :: u16),
     ev_price = Money (le_word (field_at bs 32 16)), ev_qty = Money (le_word (field_at bs 48 16)),
     ev_tp = Money (le_word (field_at bs 64 16)), ev_sl = Money (le_word (field_at bs 80 16)),
     ev_fee = Money (le_word (field_at bs 96 16)), ev_reason = chars_read (field_at bs 112 32)\<rparr>"

record OrderEventLogFileHeader =
  fh_magic :: "u8 list"
  fh_fpn_width :: u32
  fh_entry_size :: u32
  fh_format_version :: u64
  fh_reserved :: u64

definition ORDER_EVENT_LOG_FORMAT_VERSION :: u64 where "ORDER_EVENT_LOG_FORMAT_VERSION = 2"

definition magic_image :: "string \<Rightarrow> u8 list" where
  "magic_image s = chars_image 8 s"

definition header_image :: "OrderEventLogFileHeader \<Rightarrow> u8 list" where
  "header_image h = fh_magic h @ le_bytes 4 (fh_fpn_width h) @ le_bytes 4 (fh_entry_size h)
     @ le_bytes 8 (fh_format_version h) @ le_bytes 8 (fh_reserved h)"

definition header_read :: "u8 list \<Rightarrow> OrderEventLogFileHeader option" where
  "header_read bs = (if length bs < 32 then None else
     Some \<lparr>fh_magic = field_at bs 0 8, fh_fpn_width = le_word (field_at bs 8 4),
       fh_entry_size = le_word (field_at bs 12 4), fh_format_version = le_word (field_at bs 16 8),
       fh_reserved = le_word (field_at bs 24 8)\<rparr>)"

definition header_current :: OrderEventLogFileHeader where
  "header_current = \<lparr>fh_magic = magic_image ''OMSEL02'', fh_fpn_width = 64,
     fh_entry_size = word_of_nat ORDER_EVENT_SIZE, fh_format_version = ORDER_EVENT_LOG_FORMAT_VERSION,
     fh_reserved = 0\<rparr>"

subsection \<open>The log\<close>

definition ORDER_EVENT_LOG_MAX_CAPACITY :: nat where "ORDER_EVENT_LOG_MAX_CAPACITY = 32768"
definition ORDER_EVENT_LOG_ASYNC_RING_SIZE :: nat where "ORDER_EVENT_LOG_ASYNC_RING_SIZE = 256"

record OrderEventLog =
  el_allocated :: bool
  el_entries :: "OrderEvent list"
  el_capacity :: nat
  el_next_event_id :: u64
  el_disk_file :: "string option"
  el_disk_path :: string
  el_async_ring :: "OrderEvent spsc_ring"
  el_writer_thread_active :: bool
  el_writer_should_stop :: bool
  el_ring_full_spins :: u64
  el_writer_realloc_failed_count :: u64
  el_log_full_drops :: u64
  el_fs :: "string \<rightharpoonup> u8 list"

definition el_count :: "OrderEventLog \<Rightarrow> nat" where
  "el_count l = length (el_entries l)"

text \<open>\<^verbatim>\<open>fwrite\<close> on the open stream: the bytes are appended to its file.\<close>

definition fwrite_log :: "OrderEventLog \<Rightarrow> u8 list \<Rightarrow> OrderEventLog" where
  "fwrite_log l bs = (case el_disk_file l of
       None \<Rightarrow> l
     | Some path \<Rightarrow> l\<lparr>el_fs := (el_fs l)(path \<mapsto> (case el_fs l path of None \<Rightarrow> [] | Some c \<Rightarrow> c) @ bs)\<rparr>)"

definition OrderEventLog_ApplyEvent :: "OrderEventLog \<Rightarrow> OrderEvent \<Rightarrow> bool \<times> OrderEventLog" where
  "OrderEventLog_ApplyEvent l event =
     (if el_capacity l \<le> el_count l then (False, l\<lparr>el_log_full_drops := el_log_full_drops l + 1\<rparr>)
      else (True, fwrite_log (l\<lparr>el_entries := el_entries l @ [event]\<rparr>) (event_image event)))"

definition OrderEventLog_TruncateDisk :: "bool \<Rightarrow> bool \<Rightarrow> OrderEventLog \<Rightarrow> OrderEventLog" where
  "OrderEventLog_TruncateDisk open_wb open_ab l =
     (if el_disk_file l = None \<or> el_disk_path l = [] then l
      else if \<not> open_wb then l\<lparr>el_disk_file := None\<rparr>
      else let l = l\<lparr>el_disk_file := Some (el_disk_path l), el_fs := (el_fs l)(el_disk_path l \<mapsto> [])\<rparr>;
               l = fwrite_log l (header_image header_current)
           in l\<lparr>el_disk_file := (if open_ab then Some (el_disk_path l) else None)\<rparr>)"

definition OrderEventLog_Reset :: "bool \<Rightarrow> bool \<Rightarrow> OrderEventLog \<Rightarrow> OrderEventLog" where
  "OrderEventLog_Reset open_wb open_ab l =
     OrderEventLog_TruncateDisk open_wb open_ab (l\<lparr>el_entries := [], el_next_event_id := 1\<rparr>)"

subsection \<open>The asynchronous writer\<close>

text \<open>What the writer does with one popped event; \<open>tail\<close> marks the drain after the stop flag.\<close>

definition writer_event :: "bool \<Rightarrow> bool \<Rightarrow> bool \<Rightarrow> OrderEvent \<Rightarrow> OrderEventLog \<Rightarrow> OrderEventLog" where
  "writer_event tail open_wb open_ab event l =
     (if ev_type event = OEVT_CTRL_TRUNCATE
      then OrderEventLog_TruncateDisk open_wb open_ab (l\<lparr>el_entries := []\<rparr>)
      else let (ok, l') = OrderEventLog_ApplyEvent l event
           in if \<not> ok \<and> \<not> tail
              then l'\<lparr>el_writer_realloc_failed_count := el_writer_realloc_failed_count l' + 1\<rparr> else l')"

definition writer_pop :: "bool \<Rightarrow> bool \<Rightarrow> bool \<Rightarrow> OrderEventLog \<Rightarrow> bool \<times> OrderEventLog" where
  "writer_pop tail open_wb open_ab l =
     (case SPSCRing_TryPop (el_async_ring l) of
        (None, r) \<Rightarrow> (False, l\<lparr>el_async_ring := r\<rparr>)
      | (Some event, r) \<Rightarrow> (True, writer_event tail open_wb open_ab event (l\<lparr>el_async_ring := r\<rparr>)))"

text \<open>The drain loop, with fuel; it ends when a pop finds the ring empty.\<close>

fun writer_drain :: "nat \<Rightarrow> bool \<Rightarrow> bool \<Rightarrow> bool \<Rightarrow> OrderEventLog \<Rightarrow> OrderEventLog option" where
  "writer_drain 0 tail open_wb open_ab l = None"
| "writer_drain (Suc n) tail open_wb open_ab l =
     (let (popped, l') = writer_pop tail open_wb open_ab l
      in if popped then writer_drain n tail open_wb open_ab l' else Some l')"

text \<open>Stopping: the writer sees the stop flag after its main drain and drains the tail; the
  joining thread produces nothing meanwhile.\<close>

definition OrderEventLog_StopAsyncWriter :: "nat \<Rightarrow> bool \<Rightarrow> bool \<Rightarrow> OrderEventLog \<Rightarrow> OrderEventLog option" where
  "OrderEventLog_StopAsyncWriter fuel open_wb open_ab l =
     (if \<not> el_writer_thread_active l then Some l
      else case writer_drain fuel False open_wb open_ab (l\<lparr>el_writer_should_stop := True\<rparr>) of
             None \<Rightarrow> None
           | Some l \<Rightarrow> (case writer_drain fuel True open_wb open_ab l of
               None \<Rightarrow> None
             | Some l \<Rightarrow> Some (l\<lparr>el_writer_thread_active := False\<rparr>)))"

definition OrderEventLog_StartAsyncWriter :: "bool \<Rightarrow> OrderEventLog \<Rightarrow> bool \<times> OrderEventLog" where
  "OrderEventLog_StartAsyncWriter created l =
     (if el_writer_thread_active l then (False, l)
      else let l = l\<lparr>el_writer_should_stop := False\<rparr>
           in if \<not> created then (False, l) else (True, l\<lparr>el_writer_thread_active := True\<rparr>))"

text \<open>The spin of a full ring: \<open>env\<close> is what the writer thread does to the log during one wait.\<close>

fun spin_push :: "nat \<Rightarrow> (nat \<Rightarrow> OrderEventLog \<Rightarrow> OrderEventLog) \<Rightarrow> nat \<Rightarrow> OrderEvent \<Rightarrow> OrderEventLog \<Rightarrow> OrderEventLog option"
where
  "spin_push 0 env spin event l = None"
| "spin_push (Suc n) env spin event l =
     (case SPSCRing_TryPush (el_async_ring l) event of
        (True, r) \<Rightarrow> Some (l\<lparr>el_async_ring := r\<rparr>)
      | (False, r) \<Rightarrow> spin_push n env (spin + 1) event
          (env spin (l\<lparr>el_async_ring := r, el_ring_full_spins := el_ring_full_spins l + 1\<rparr>)))"

definition OrderEventLog_Append ::
  "nat \<Rightarrow> (nat \<Rightarrow> OrderEventLog \<Rightarrow> OrderEventLog) \<Rightarrow> OrderEventLog \<Rightarrow> OrderEvent \<Rightarrow> (bool \<times> OrderEventLog) option" where
  "OrderEventLog_Append fuel env l event =
     (if \<not> el_allocated l then Some (False, l)
      else let event = event\<lparr>ev_event_id := el_next_event_id l\<rparr>;
               l = l\<lparr>el_next_event_id := el_next_event_id l + 1\<rparr>
           in if el_writer_thread_active l
              then (case spin_push fuel env 0 event l of None \<Rightarrow> None | Some l' \<Rightarrow> Some (True, l'))
              else Some (OrderEventLog_ApplyEvent l event))"

definition OrderEventLog_RequestTruncate ::
  "nat \<Rightarrow> (nat \<Rightarrow> OrderEventLog \<Rightarrow> OrderEventLog) \<Rightarrow> bool \<Rightarrow> bool \<Rightarrow> OrderEventLog \<Rightarrow> OrderEventLog option" where
  "OrderEventLog_RequestTruncate fuel env open_wb open_ab l =
     (if \<not> el_allocated l then Some l
      else if \<not> el_writer_thread_active l then Some (OrderEventLog_Reset open_wb open_ab l)
      else case spin_push fuel env 0 (event_zero\<lparr>ev_type := OEVT_CTRL_TRUNCATE\<rparr>) l of
             None \<Rightarrow> None
           | Some l \<Rightarrow> Some (l\<lparr>el_next_event_id := 1\<rparr>))"

subsection \<open>Construction, files, load\<close>

definition OrderEventLog_Init :: "nat \<Rightarrow> bool \<Rightarrow> bool \<Rightarrow> bool \<Rightarrow> OrderEventLog \<Rightarrow> OrderEventLog option" where
  "OrderEventLog_Init fuel open_wb open_ab alloc_ok l =
     (case OrderEventLog_StopAsyncWriter fuel open_wb open_ab l of
        None \<Rightarrow> None
      | Some l \<Rightarrow> Some (l\<lparr>el_allocated := alloc_ok,
          el_capacity := (if alloc_ok then ORDER_EVENT_LOG_MAX_CAPACITY else 0), el_entries := [],
          el_next_event_id := 1, el_disk_file := None, el_disk_path := [],
          el_async_ring := SPSCRing_Init (el_async_ring l), el_writer_thread_active := False,
          el_writer_should_stop := False, el_ring_full_spins := 0, el_writer_realloc_failed_count := 0,
          el_log_full_drops := 0\<rparr>))"

definition OrderEventLog_Free :: "nat \<Rightarrow> bool \<Rightarrow> bool \<Rightarrow> OrderEventLog \<Rightarrow> OrderEventLog option" where
  "OrderEventLog_Free fuel open_wb open_ab l =
     (case OrderEventLog_StopAsyncWriter fuel open_wb open_ab l of
        None \<Rightarrow> None
      | Some l \<Rightarrow> Some (l\<lparr>el_disk_file := None, el_allocated := False, el_capacity := 0, el_entries := [],
          el_next_event_id := 0\<rparr>))"

definition rotated_path :: "string \<Rightarrow> u64 \<Rightarrow> string" where
  "rotated_path path now = take 287 (path @ ''.pre-epoch.'' @ rev (int_digits_rev now))"

definition probe_current :: "u8 list \<Rightarrow> bool" where
  "probe_current content = (case header_read content of
       None \<Rightarrow> False
     | Some h \<Rightarrow> fh_magic h = magic_image ''OMSEL02'' \<and> fh_format_version h = ORDER_EVENT_LOG_FORMAT_VERSION
         \<and> fh_fpn_width h = 64 \<and> fh_entry_size h = word_of_nat ORDER_EVENT_SIZE)"

definition open_log_file :: "bool \<Rightarrow> bool \<Rightarrow> u64 \<Rightarrow> OrderEventLog \<Rightarrow> string \<Rightarrow> OrderEventLog" where
  "open_log_file rename_ok open_ok now l path =
     (let l = l\<lparr>el_disk_path := take 255 path\<rparr>;
          stale = (case el_fs l path of None \<Rightarrow> False | Some c \<Rightarrow> \<not> probe_current c)
      in if stale \<and> \<not> rename_ok then l
         else let fs = (if stale then ((el_fs l)(path := None))(rotated_path path now := el_fs l path) else el_fs l);
                  file_exists = (el_fs l path \<noteq> None \<and> \<not> stale)
              in if \<not> open_ok then l\<lparr>el_disk_file := None, el_fs := fs\<rparr>
                 else let l = l\<lparr>el_disk_file := Some path,
                                el_fs := (if fs path = None then fs(path \<mapsto> []) else fs)\<rparr>
                      in if file_exists then l else fwrite_log l (header_image header_current))"

definition OrderEventLog_InitWithFile ::
  "nat \<Rightarrow> bool \<Rightarrow> bool \<Rightarrow> bool \<Rightarrow> bool \<Rightarrow> bool \<Rightarrow> u64 \<Rightarrow> OrderEventLog \<Rightarrow> string \<Rightarrow> OrderEventLog option" where
  "OrderEventLog_InitWithFile fuel open_wb open_ab alloc_ok rename_ok open_ok now l path =
     (case (if el_allocated l then Some l else OrderEventLog_Init fuel open_wb open_ab alloc_ok l) of
        None \<Rightarrow> None
      | Some l \<Rightarrow> Some (open_log_file rename_ok open_ok now l path))"

function read_records :: "u8 list \<Rightarrow> OrderEvent list" where
  "read_records bs = (if length bs < ORDER_EVENT_SIZE then []
     else event_read (take ORDER_EVENT_SIZE bs) # read_records (drop ORDER_EVENT_SIZE bs))"
  by pat_completeness auto

termination read_records
  by (relation "measure length") (simp_all add: ORDER_EVENT_SIZE_def)

declare read_records.simps [simp del]

definition load_step :: "OrderEvent \<Rightarrow> OrderEventLog \<times> int \<times> nat \<Rightarrow> OrderEventLog \<times> int \<times> nat" where
  "load_step event st = (case st of (l, loaded, truncated) \<Rightarrow>
     if el_capacity l \<le> el_count l then (l, loaded, truncated + 1)
     else (l\<lparr>el_entries := el_entries l @ [event],
             el_next_event_id := (if el_next_event_id l \<le> ev_event_id event then ev_event_id event + 1
                                  else el_next_event_id l)\<rparr>, loaded + 1, truncated))"

definition OrderEventLog_LoadFromDisk :: "OrderEventLog \<Rightarrow> string \<Rightarrow> int \<times> OrderEventLog" where
  "OrderEventLog_LoadFromDisk l path =
     (case el_fs l path of
        None \<Rightarrow> (0, l)
      | Some content \<Rightarrow> (case header_read content of
          None \<Rightarrow> (- 1, l)
        | Some h \<Rightarrow>
            if fh_magic h = magic_image ''OMSEL01'' then (- 1, l)
            else if fh_magic h \<noteq> magic_image ''OMSEL02'' then (- 1, l)
            else if fh_format_version h \<noteq> ORDER_EVENT_LOG_FORMAT_VERSION then (- 1, l)
            else if fh_fpn_width h \<noteq> 64 then (- 1, l)
            else if fh_entry_size h \<noteq> word_of_nat ORDER_EVENT_SIZE then (- 1, l)
            else let (l', loaded, truncated) = fold load_step (read_records (drop 32 content)) (l, 0, 0)
                 in (loaded, l')))"

subsection \<open>The replay fold\<close>

record FoldResult =
  fr_balance :: Money
  fr_realized_pnl :: Money
  fr_portfolio :: Portfolio
  fr_fills_processed :: nat

definition fold_buy :: "Money \<Rightarrow> u64 option \<Rightarrow> OrderEvent \<Rightarrow> nat \<Rightarrow> FoldResult \<Rightarrow> FoldResult" where
  "fold_buy fee_rate clock e slot result =
     (let notional = Money_Mul (ev_price e) (ev_qty e);
          leg_fee = (if \<not> Money_IsZero (ev_fee e) then ev_fee e else Money_Mul notional fee_rate)
      in if Portfolio_SlotActive (fr_portfolio result) slot
         then result\<lparr>fr_portfolio := Portfolio_AccumulateSlotLeg (fr_portfolio result) slot (ev_price e) (ev_qty e) leg_fee\<rparr>
         else result\<lparr>fr_portfolio := Portfolio_OpenSlot clock (fr_portfolio result) slot
                \<lparr>ea_entry_price = ev_price e, ea_quantity = ev_qty e, ea_take_profit_price = ev_tp e,
                 ea_stop_loss_price = ev_sl e, ea_entry_fee = leg_fee,
                 ea_entry_timestamp_us = ev_timestamp_us e, ea_pair_index = - 1\<rparr>\<rparr>)"

definition fold_sell :: "Money \<Rightarrow> OrderEvent \<Rightarrow> nat \<Rightarrow> FoldResult \<Rightarrow> FoldResult option" where
  "fold_sell fee_rate e slot result =
     (if \<not> Portfolio_SlotActive (fr_portfolio result) slot then None
      else let pos = pf_positions (fr_portfolio result) ! slot;
               pos_qty = p_quantity pos;
               q_leg = (if Money_Gt (ev_qty e) pos_qty then pos_qty else ev_qty e)
           in if Money_IsZero q_leg then None
              else let (entry_fee_leg, fee_left) = Portfolio_ConsumeEntryFeeLeg (p_entry_fee pos) q_leg pos_qty;
                       pf = upd_pos (fr_portfolio result) slot (\<lambda>p. p\<lparr>p_entry_fee := fee_left\<rparr>);
                       exit_fee = (if \<not> Money_IsZero (ev_fee e) then ev_fee e
                                   else Money_Mul (Money_Mul (ev_price e) q_leg) fee_rate);
                       (gross, pf) = Portfolio_CloseSlotLeg pf slot (ev_price e) q_leg;
                       total_fee = Money_Add entry_fee_leg exit_fee;
                       net = Money_Sub gross total_fee
                   in Some (result\<lparr>fr_portfolio := pf, fr_balance := Money_Add (fr_balance result) net,
                                   fr_realized_pnl := Money_Add (fr_realized_pnl result) net\<rparr>))"

definition fold_event :: "Money \<Rightarrow> u64 option \<Rightarrow> OrderEvent \<Rightarrow> FoldResult \<Rightarrow> FoldResult" where
  "fold_event fee_rate clock e result =
     (if ev_type e \<noteq> OEVT_FULL_FILL \<and> ev_type e \<noteq> OEVT_PARTIAL_FILL then result
      else if ev_node_id e < 0 \<or> int MAX_PORTFOLIO_POSITIONS \<le> ev_node_id e then result
      else let slot = nat (ev_node_id e);
               bump = (\<lambda>r. r\<lparr>fr_fills_processed := fr_fills_processed r + 1\<rparr>)
           in if ev_order_type e = order_type_byte ORDER_MARKET_BUY then bump (fold_buy fee_rate clock e slot result)
              else if ev_order_type e = order_type_byte ORDER_MARKET_SELL
              then (case fold_sell fee_rate e slot result of None \<Rightarrow> result | Some r \<Rightarrow> bump r)
              else bump result)"

definition Portfolio_FromEventLog :: "u64 option \<Rightarrow> Portfolio \<Rightarrow> OrderEventLog \<Rightarrow> Money \<Rightarrow> Money \<Rightarrow> FoldResult" where
  "Portfolio_FromEventLog clock pf0 l starting_balance fee_rate =
     fold (fold_event fee_rate clock) (el_entries l)
       \<lparr>fr_balance = starting_balance, fr_realized_pnl = Money_Zero,
        fr_portfolio = Portfolio_Init pf0, fr_fills_processed = 0\<rparr>"

subsection \<open>The image reads back\<close>

lemma le_word_bytes_from:
  "le_word (map (\<lambda>i. ucast (drop_bit (8 * i) w) :: u8) [k..<k + n]) = take_bit (8 * n) (drop_bit (8 * k) (w :: 'a::len word))"
proof (induction n arbitrary: k)
  case 0
  then show ?case by (simp add: le_word_def)
next
  case (Suc n)
  have "le_word (map (\<lambda>i. ucast (drop_bit (8 * i) w) :: u8) [k..<k + Suc n]) =
     push_bit 8 (le_word (map (\<lambda>i. ucast (drop_bit (8 * i) w) :: u8) [Suc k..<Suc k + n])) OR ucast (ucast (drop_bit (8 * k) w) :: u8)"
  proof -
    have u: "[k..<k + Suc n] = k # [Suc k..<Suc k + n]" by (subst upt_conv_Cons) simp_all
    show ?thesis unfolding u by (simp only: le_word_def list.map foldr.simps comp_apply)
  qed
  also have "\<dots> = push_bit 8 (take_bit (8 * n) (drop_bit (8 * Suc k) w)) OR ucast (ucast (drop_bit (8 * k) w) :: u8)"
    by (simp only: Suc.IH)
  also have "\<dots> = take_bit (8 * Suc n) (drop_bit (8 * k) w)"
  proof (rule bit_word_eqI)
    fix i assume i: "i < LENGTH('a)"
    show "bit (push_bit 8 (take_bit (8 * n) (drop_bit (8 * Suc k) w)) OR ucast (ucast (drop_bit (8 * k) w) :: u8)) i
       = bit (take_bit (8 * Suc n) (drop_bit (8 * k) w)) i"
    proof (cases "i < 8")
      case True
      then show ?thesis using i
        by (simp only: bit_or_iff bit_push_bit_iff bit_take_bit_iff bit_drop_bit_eq bit_ucast_iff comp_def) auto
    next
      case False
      then obtain j where "i = 8 + j" using le_Suc_ex not_less by blast
      then show ?thesis using i
        by (simp only: bit_or_iff bit_push_bit_iff bit_take_bit_iff bit_drop_bit_eq bit_ucast_iff comp_def)
          (auto simp: algebra_simps)
    qed
  qed
  finally show ?case .
qed

lemma le_word_bytes: "LENGTH('a::len) = 8 * n \<Longrightarrow> le_word (le_bytes n (w :: 'a word)) = w"
  using le_word_bytes_from [of w 0 n] by (simp add: le_bytes_def take_bit_word_eq_self)

lemma length_le_bytes [simp]: "length (le_bytes n w) = n"
  by (simp add: le_bytes_def)

lemma length_chars_image [simp]: "length (chars_image n s) = n"
  by (simp add: chars_image_def)

lemma chars_read_image:
  assumes "length s < n" "CHR 0x00 \<notin> set s"
  shows "chars_read (chars_image n s) = s"
proof -
  have c: "unat (word_of_nat (of_char c) :: u8) = of_char c" for c :: char
    by (simp add: unat_of_nat)
  have z: "(word_of_nat (of_char c) :: u8) = 0 \<longleftrightarrow> c = CHR 0x00" for c :: char
  proof -
    have "(word_of_nat (of_char c) :: u8) = 0 \<longleftrightarrow> (of_char c :: nat) = of_char (CHR 0x00)"
      using c [of c] by (simp add: word_unat_eq_iff)
    then show ?thesis by (simp only: of_char_eq_iff)
  qed
  obtain m where m: "n = length s + Suc m" using assms(1) less_imp_Suc_add by fastforce
  have "takeWhile (\<lambda>b. b \<noteq> 0) (map (\<lambda>c. word_of_nat (of_char c) :: u8) s @ replicate (Suc m) 0)
     = map (\<lambda>c. word_of_nat (of_char c)) s"
    using assms(2) by (subst takeWhile_append2) (auto simp: z)
  then show ?thesis by (simp add: chars_read_def chars_image_def m c comp_def)
qed

definition event_ok :: "OrderEvent \<Rightarrow> bool" where
  "event_ok e \<longleftrightarrow> - (2 ^ 15) \<le> ev_node_id e \<and> ev_node_id e < 2 ^ 15 \<and>
     length (ev_reason e) < 32 \<and> CHR 0x00 \<notin> set (ev_reason e)"

lemma length_event_image [simp]: "length (event_image e) = 144"
  by (simp add: event_image_def)

lemma field_at_image:
  assumes "length a = off" "length b = n"
  shows "field_at (a @ b @ c) off n = b"
  using assms by (simp add: field_at_def)

lemma event_read_image:
  assumes "event_ok e"
  shows "event_read (event_image e) = e"
proof -
  have f: "field_at (event_image e) 0 8 = le_bytes 8 (ev_event_id e)"
    "field_at (event_image e) 8 8 = le_bytes 8 (ev_order_id e)"
    "field_at (event_image e) 16 8 = le_bytes 8 (ev_timestamp_us e)"
    "field_at (event_image e) 26 2 = le_bytes 2 (word_of_int (ev_node_id e) :: u16)"
    "field_at (event_image e) 32 16 = le_bytes 16 (mv (ev_price e))"
    "field_at (event_image e) 48 16 = le_bytes 16 (mv (ev_qty e))"
    "field_at (event_image e) 64 16 = le_bytes 16 (mv (ev_tp e))"
    "field_at (event_image e) 80 16 = le_bytes 16 (mv (ev_sl e))"
    "field_at (event_image e) 96 16 = le_bytes 16 (mv (ev_fee e))"
    "field_at (event_image e) 112 32 = chars_image 32 (ev_reason e)"
    "event_image e ! 24 = ev_type e" "event_image e ! 25 = ev_order_type e"
    by (simp_all add: event_image_def field_at_def nth_append)
  have "sint (word_of_int (ev_node_id e) :: u16) = ev_node_id e"
    using assms by (simp add: event_ok_def sint_sbintrunc' signed_take_bit_int_eq_self)
  then show ?thesis using assms
    by (simp add: event_read_def f le_word_bytes chars_read_image event_ok_def)
qed

lemma header_read_image:
  assumes "length (fh_magic h) = 8"
  shows "header_read (header_image h @ rest) = Some h"
proof -
  let ?c = "header_image h @ rest"
  have "field_at ?c 0 8 = fh_magic h" "field_at ?c 8 4 = le_bytes 4 (fh_fpn_width h)"
    "field_at ?c 12 4 = le_bytes 4 (fh_entry_size h)" "field_at ?c 16 8 = le_bytes 8 (fh_format_version h)"
    "field_at ?c 24 8 = le_bytes 8 (fh_reserved h)" "\<not> length ?c < 32"
    using assms by (simp_all add: header_image_def field_at_def)
  then show ?thesis by (simp add: header_read_def le_word_bytes)
qed

lemma header_current_facts:
  "length (header_image header_current) = 32" "probe_current (header_image header_current @ rest)"
  "magic_image ''OMSEL02'' \<noteq> magic_image ''OMSEL01''"
proof -
  have l: "length (fh_magic header_current) = 8" by (simp add: header_current_def magic_image_def)
  then show "length (header_image header_current) = 32" by (simp add: header_image_def)
  show "probe_current (header_image header_current @ rest)"
    unfolding probe_current_def header_read_image [OF l] by (simp add: header_current_def)
  show "magic_image ''OMSEL02'' \<noteq> magic_image ''OMSEL01''"
    by (simp add: magic_image_def chars_image_def numeral_eq_Suc)
qed

lemma read_records_images:
  assumes "\<forall>e \<in> set es. event_ok e"
  shows "read_records (concat (map event_image es)) = es"
  using assms
proof (induction es)
  case Nil
  then show ?case by (simp add: read_records.simps ORDER_EVENT_SIZE_def)
next
  case (Cons e es)
  then show ?case by (subst read_records.simps) (simp add: ORDER_EVENT_SIZE_def event_read_image)
qed

subsection \<open>Calls\<close>

datatype log_call = L_Append OrderEvent | L_Truncate

fun log_call_run ::
  "nat \<Rightarrow> (nat \<Rightarrow> OrderEventLog \<Rightarrow> OrderEventLog) \<Rightarrow> log_call \<Rightarrow> OrderEventLog \<Rightarrow> OrderEventLog option" where
  "log_call_run fuel env (L_Append ev) l = map_option snd (OrderEventLog_Append fuel env l ev)"
| "log_call_run fuel env L_Truncate l = OrderEventLog_RequestTruncate fuel env True True l"

definition log_sync :: "log_call \<Rightarrow> OrderEventLog \<Rightarrow> OrderEventLog" where
  "log_sync c l = (case log_call_run 0 (\<lambda>_ l. l) c l of None \<Rightarrow> l | Some l' \<Rightarrow> l')"

definition call_ok :: "log_call \<Rightarrow> bool" where
  "call_ok c = (case c of L_Append e \<Rightarrow> event_ok e \<and> ev_type e \<noteq> OEVT_CTRL_TRUNCATE | L_Truncate \<Rightarrow> True)"

lemma fwrite_log_simps [simp]:
  "el_allocated (fwrite_log l bs) = el_allocated l" "el_entries (fwrite_log l bs) = el_entries l"
  "el_capacity (fwrite_log l bs) = el_capacity l" "el_next_event_id (fwrite_log l bs) = el_next_event_id l"
  "el_disk_file (fwrite_log l bs) = el_disk_file l" "el_disk_path (fwrite_log l bs) = el_disk_path l"
  "el_async_ring (fwrite_log l bs) = el_async_ring l"
  "el_writer_thread_active (fwrite_log l bs) = el_writer_thread_active l"
  "el_log_full_drops (fwrite_log l bs) = el_log_full_drops l"
  by (simp_all add: fwrite_log_def split: option.splits)

lemma log_sync_append:
  "el_allocated l \<Longrightarrow> \<not> el_writer_thread_active l \<Longrightarrow> log_sync (L_Append e) l =
     snd (OrderEventLog_ApplyEvent (l\<lparr>el_next_event_id := el_next_event_id l + 1\<rparr>) (e\<lparr>ev_event_id := el_next_event_id l\<rparr>))"
  by (simp add: log_sync_def OrderEventLog_Append_def Let_def)

lemma log_sync_truncate:
  "el_allocated l \<Longrightarrow> \<not> el_writer_thread_active l \<Longrightarrow> log_sync L_Truncate l = OrderEventLog_Reset True True l"
  by (simp add: log_sync_def OrderEventLog_RequestTruncate_def)

subsection \<open>The file mirrors the log\<close>

definition log_synced :: "string \<Rightarrow> nat \<Rightarrow> OrderEventLog \<Rightarrow> bool" where
  "log_synced path n l \<longleftrightarrow> el_allocated l \<and> \<not> el_writer_thread_active l \<and> path \<noteq> [] \<and>
     el_disk_file l = Some path \<and> el_disk_path l = path \<and>
     el_fs l path = Some (header_image header_current @ concat (map event_image (el_entries l))) \<and>
     (\<forall>e \<in> set (el_entries l). event_ok e \<and> unat (ev_event_id e) < unat (el_next_event_id l)) \<and>
     unat (el_next_event_id l) \<le> n + 1"

lemma log_synced_append:
  assumes "log_synced path n l" "event_ok e" "n + 2 < 2 ^ 64"
  shows "log_synced path (n + 1) (log_sync (L_Append e) l)"
proof -
  let ?id = "el_next_event_id l"
  have "unat (?id + 1) = unat ?id + 1" using assms(1,3) by (intro unat_succ64) (simp add: log_synced_def)
  moreover have "event_ok (e\<lparr>ev_event_id := ?id\<rparr>)" using assms(2) by (simp add: event_ok_def)
  ultimately show ?thesis using assms(1)
    by (auto simp: log_synced_def log_sync_append OrderEventLog_ApplyEvent_def fwrite_log_def el_count_def less_Suc_eq)
qed

lemma log_synced_truncate:
  assumes "log_synced path n l"
  shows "log_synced path (n + 1) (log_sync L_Truncate l)"
  using assms by (auto simp: log_synced_def log_sync_truncate OrderEventLog_Reset_def
      OrderEventLog_TruncateDisk_def Let_def fwrite_log_def)

lemma log_synced_calls:
  assumes "log_synced path n l" "\<forall>c \<in> set cs. call_ok c" "n + length cs + 1 < 2 ^ 64"
  shows "log_synced path (n + length cs) (fold log_sync cs l)"
  using assms
proof (induction cs arbitrary: n l)
  case Nil
  then show ?case by simp
next
  case (Cons c cs)
  have "log_synced path (n + 1) (log_sync c l)"
    using Cons.prems log_synced_append [of path n l] log_synced_truncate [of path n l]
    by (cases c) (simp_all add: call_ok_def)
  from Cons.IH [OF this] Cons.prems show ?case by simp
qed

lemma open_fresh_synced:
  assumes "el_allocated l" "\<not> el_writer_thread_active l" "el_entries l = []" "el_next_event_id l = 1"
    "path \<noteq> []" "length path < 256" "el_fs l path = None"
  shows "log_synced path 0 (open_log_file rename_ok True now l path)"
  using assms by (simp add: log_synced_def open_log_file_def Let_def fwrite_log_def)

subsection \<open>Loading\<close>

definition next_after :: "OrderEvent list \<Rightarrow> u64 \<Rightarrow> u64" where
  "next_after es nx = fold (\<lambda>e nx. if nx \<le> ev_event_id e then ev_event_id e + 1 else nx) es nx"

lemma next_after_Cons:
  "next_after (e # es) nx = next_after es (if nx \<le> ev_event_id e then ev_event_id e + 1 else nx)"
  by (simp only: next_after_def fold_simps comp_apply)

lemma load_fold:
  assumes "el_count b + length es \<le> el_capacity b"
  shows "fold load_step es (b, k, t) = (b\<lparr>el_entries := el_entries b @ es,
     el_next_event_id := next_after es (el_next_event_id b)\<rparr>, k + int (length es), t)"
  using assms
proof (induction es arbitrary: b k)
  case Nil
  then show ?case by (simp add: next_after_def)
next
  case (Cons e es)
  define nx where "nx = (if el_next_event_id b \<le> ev_event_id e then ev_event_id e + 1 else el_next_event_id b)"
  let ?b = "b\<lparr>el_entries := el_entries b @ [e], el_next_event_id := nx\<rparr>"
  have "load_step e (b, k, t) = (?b, k + 1, t)"
    using Cons.prems by (simp add: load_step_def el_count_def nx_def)
  then have "fold load_step (e # es) (b, k, t) = fold load_step es (?b, k + 1, t)"
    by (simp only: fold_simps comp_apply)
  also have "\<dots> = (?b\<lparr>el_entries := el_entries ?b @ es,
     el_next_event_id := next_after es (el_next_event_id ?b)\<rparr>, k + 1 + int (length es), t)"
    using Cons.prems by (intro Cons.IH) (simp add: el_count_def)
  also have "?b\<lparr>el_entries := el_entries ?b @ es, el_next_event_id := next_after es (el_next_event_id ?b)\<rparr>
     = b\<lparr>el_entries := el_entries b @ e # es, el_next_event_id := next_after es nx\<rparr>"
    by simp
  also have "k + 1 + int (length es) = k + int (length (e # es))"
    by simp
  finally show ?case unfolding next_after_Cons nx_def .
qed

lemma next_after_above:
  assumes "\<forall>e \<in> set es. unat (ev_event_id e) + 1 < 2 ^ 64"
  shows "nx \<le> next_after es nx \<and> (\<forall>e \<in> set es. ev_event_id e < next_after es nx)"
  using assms
proof (induction es arbitrary: nx)
  case Nil
  then show ?case by (simp add: next_after_def)
next
  case (Cons e es)
  let ?nx = "if nx \<le> ev_event_id e then ev_event_id e + 1 else nx"
  have "unat (ev_event_id e + 1) = unat (ev_event_id e) + 1" using Cons.prems by (intro unat_succ64) simp
  then have n: "nx \<le> ?nx \<and> ev_event_id e < ?nx" by (auto simp: word_le_nat_alt word_less_nat_alt)
  have ih: "?nx \<le> next_after es ?nx \<and> (\<forall>e \<in> set es. ev_event_id e < next_after es ?nx)"
    using Cons.prems by (intro Cons.IH) simp
  have "nx \<le> next_after es ?nx" by (rule order_trans [OF conjunct1 [OF n] conjunct1 [OF ih]])
  moreover have "ev_event_id e < next_after es ?nx" by (rule less_le_trans [OF conjunct2 [OF n] conjunct1 [OF ih]])
  ultimately show ?case unfolding next_after_Cons using ih by simp
qed

lemma load_synced:
  assumes "log_synced path n l" "n + 2 < 2 ^ 64" "el_fs b path = el_fs l path" "el_entries b = []"
    "el_count l \<le> el_capacity b"
  shows "\<exists>b'. OrderEventLog_LoadFromDisk b path = (int (el_count l), b') \<and> el_entries b' = el_entries l \<and>
    (\<forall>e \<in> set (el_entries l). ev_event_id e < el_next_event_id b')"
proof -
  let ?es = "el_entries l"
  have c: "el_fs b path = Some (header_image header_current @ concat (map event_image ?es))"
    and ev: "\<forall>e \<in> set ?es. event_ok e" and ids: "\<forall>e \<in> set ?es. unat (ev_event_id e) + 1 < 2 ^ 64"
    using assms(1-3) by (force simp: log_synced_def)+
  have h: "length (fh_magic header_current) = 8" by (simp add: header_current_def magic_image_def)
  have d: "drop 32 (header_image header_current @ concat (map event_image ?es)) = concat (map event_image ?es)"
    by (simp add: header_current_facts(1))
  have "OrderEventLog_LoadFromDisk b path = (int (el_count l),
      b\<lparr>el_entries := ?es, el_next_event_id := next_after ?es (el_next_event_id b)\<rparr>)"
    unfolding OrderEventLog_LoadFromDisk_def c option.case header_read_image [OF h] d read_records_images [OF ev]
    using header_current_facts(3) assms(4,5) load_fold [of b ?es 0 0]
    by (simp add: header_current_def el_count_def)
  then show ?thesis using next_after_above [OF ids] by auto
qed

text \<open>C39: the log survives a restart: after any sequence of appends and resets on a log opened on a
  fresh path, loading that file into an empty log returns the number of live events, rebuilds
  exactly the live entries in order, and leaves the next event id above every loaded id.\<close>

theorem log_disk_round_trip:
  assumes "el_allocated l0" "\<not> el_writer_thread_active l0" "el_entries l0 = []" "el_next_event_id l0 = 1"
    and "path \<noteq> []" "length path < 256" "el_fs l0 path = None"
    and "\<forall>c \<in> set calls. call_ok c" "length calls + 2 < 2 ^ 64"
    and "l = fold log_sync calls (open_log_file rename_ok True now l0 path)"
    and "el_fs b path = el_fs l path" "el_entries b = []" "el_count l \<le> el_capacity b"
  shows "\<exists>b'. OrderEventLog_LoadFromDisk b path = (int (el_count l), b') \<and> el_entries b' = el_entries l \<and>
    (\<forall>e \<in> set (el_entries l). ev_event_id e < el_next_event_id b')"
proof (rule load_synced)
  show "log_synced path (0 + length calls) l" unfolding assms(10)
    using assms(8,9) by (intro log_synced_calls open_fresh_synced assms) simp_all
qed (use assms in simp_all)

definition demo_log :: OrderEventLog where
  "demo_log = \<lparr>el_allocated = True, el_entries = [], el_capacity = 3, el_next_event_id = 1, el_disk_file = None,
     el_disk_path = [], el_async_ring = \<lparr>rg_head = 0, rg_cached_tail = 0, rg_tail = 0, rg_cached_head = 0,
       rg_slots = [event_zero, event_zero]\<rparr>,
     el_writer_thread_active = False, el_writer_should_stop = False, el_ring_full_spins = 0,
     el_writer_realloc_failed_count = 0, el_log_full_drops = 0, el_fs = (\<lambda>_. None)\<rparr>"

definition demo_event :: OrderEvent where
  "demo_event = OrderEvent_MakeFill 7 1000 ORDER_MARKET_BUY 2 (Money 300) (Money 100000000) (Money 330) (Money 280) (Money 5) 1"

lemma demo_event_ok: "call_ok (L_Append demo_event)" "event_ok demo_event" "ev_type demo_event = OEVT_FULL_FILL"
  by (simp_all add: call_ok_def event_ok_def demo_event_def OrderEvent_MakeFill_def event_zero_def oevt_defs)

definition demo_calls :: "log_call list" where
  "demo_calls = [L_Append demo_event, L_Truncate, L_Append demo_event, L_Append demo_event]"

definition demo_persisted :: OrderEventLog where
  "demo_persisted = fold log_sync demo_calls (open_log_file True True 0 demo_log ''ev'')"

lemma demo_log_run: "el_count demo_persisted = 2"
  by (simp add: demo_persisted_def demo_calls_def demo_log_def open_log_file_def Let_def fwrite_log_def log_sync_append
      log_sync_truncate OrderEventLog_Reset_def OrderEventLog_TruncateDisk_def OrderEventLog_ApplyEvent_def el_count_def)

lemma log_disk_round_trip_witness:
  "\<exists>b'. OrderEventLog_LoadFromDisk (demo_log\<lparr>el_fs := el_fs demo_persisted\<rparr>) ''ev'' = (2, b')"
proof -
  have d: "el_allocated demo_log" "\<not> el_writer_thread_active demo_log" "el_entries demo_log = []"
    "el_next_event_id demo_log = 1" "el_fs demo_log ''ev'' = None" "el_capacity demo_log = 3"
    by (simp_all add: demo_log_def)
  have c: "\<forall>c \<in> set demo_calls. call_ok c" "length demo_calls + 2 < 2 ^ 64"
    using demo_event_ok(1) by (simp_all add: demo_calls_def call_ok_def)
  have "\<exists>b'. OrderEventLog_LoadFromDisk (demo_log\<lparr>el_fs := el_fs demo_persisted\<rparr>) ''ev'' = (int (el_count demo_persisted), b') \<and>
      el_entries b' = el_entries demo_persisted \<and> (\<forall>e \<in> set (el_entries demo_persisted). ev_event_id e < el_next_event_id b')"
    by (rule log_disk_round_trip [OF d(1-4) _ _ d(5) c demo_persisted_def]) (simp_all add: d demo_log_run)
  then show ?thesis unfolding demo_log_run by auto
qed

text \<open>Records past the capacity are counted but do not advance the next event id, so events appended
  after such a load reuse ids that are on disk.\<close>

lemma load_past_capacity:
  assumes "el_capacity b \<le> el_count b"
  shows "fold load_step es (b, k, t) = (b, k, t + length es)"
  using assms by (induction es arbitrary: t) (simp_all add: load_step_def)

end
