(* ===== verification/Event_Log_Async.thy ===== *)
theory Event_Log_Async
  imports Event_Log
begin

text \<open>
  The asynchronous writer of the order event log against the synchronous log: the drainer's calls
  and the writer's steps may interleave in any way, and once the writer is stopped the log is the
  one the same calls build without a writer.
\<close>

subsection \<open>The asynchronous log implements the synchronous one\<close>

definition no_ring :: "OrderEvent spsc_ring" where
  "no_ring = \<lparr>rg_head = 0, rg_cached_tail = 0, rg_tail = 0, rg_cached_head = 0, rg_slots = []\<rparr>"

text \<open>The part of the log the reader of events sees: entries, disk, drops.\<close>

definition log_core :: "OrderEventLog \<Rightarrow> OrderEventLog" where
  "log_core l = l\<lparr>el_next_event_id := 0, el_async_ring := no_ring, el_writer_thread_active := False,
     el_writer_should_stop := False, el_ring_full_spins := 0, el_writer_realloc_failed_count := 0\<rparr>"

definition log_settled :: "OrderEventLog \<Rightarrow> OrderEventLog" where
  "log_settled l = fold (writer_event True True True) (ring_items (el_async_ring l)) (log_core l)"

definition writer_steps :: "nat \<Rightarrow> OrderEventLog \<Rightarrow> OrderEventLog" where
  "writer_steps n = (\<lambda>l. snd (writer_pop False True True l)) ^^ n"

text \<open>A schedule: for each call, the writer's steps before it, its steps during each spin, and fuel.\<close>

type_synonym scheduled_call = "nat \<times> (nat \<Rightarrow> nat) \<times> nat \<times> log_call"

fun run_schedule :: "scheduled_call list \<Rightarrow> OrderEventLog \<Rightarrow> OrderEventLog option" where
  "run_schedule [] l = Some l"
| "run_schedule ((n, ks, fuel, c) # sched) l =
     (case log_call_run fuel (\<lambda>i. writer_steps (ks i)) c (writer_steps n l) of
        None \<Rightarrow> None
      | Some l' \<Rightarrow> run_schedule sched l')"

definition sched_call :: "scheduled_call \<Rightarrow> log_call" where
  "sched_call s = snd (snd (snd s))"

lemma fwrite_core: "log_core (fwrite_log l bs) = fwrite_log (log_core l) bs"
  by (simp add: fwrite_log_def log_core_def split: option.splits)

lemma log_core_simps [simp]:
  "el_capacity (log_core l) = el_capacity l" "el_entries (log_core l) = el_entries l"
  "el_disk_file (log_core l) = el_disk_file l" "el_disk_path (log_core l) = el_disk_path l"
  "el_allocated (log_core l) = el_allocated l" "el_fs (log_core l) = el_fs l"
  "el_log_full_drops (log_core l) = el_log_full_drops l" "el_count (log_core l) = el_count l"
  by (simp_all add: log_core_def el_count_def)

lemma log_core_upd:
  "log_core (l\<lparr>el_entries := es\<rparr>) = (log_core l)\<lparr>el_entries := es\<rparr>"
  "log_core (l\<lparr>el_log_full_drops := d\<rparr>) = (log_core l)\<lparr>el_log_full_drops := d\<rparr>"
  "log_core (l\<lparr>el_disk_file := f\<rparr>) = (log_core l)\<lparr>el_disk_file := f\<rparr>"
  "log_core (l\<lparr>el_fs := fs\<rparr>) = (log_core l)\<lparr>el_fs := fs\<rparr>"
  "log_core (l\<lparr>el_next_event_id := i\<rparr>) = log_core l" "log_core (l\<lparr>el_async_ring := r\<rparr>) = log_core l"
  "log_core (l\<lparr>el_writer_realloc_failed_count := c\<rparr>) = log_core l"
  "log_core (l\<lparr>el_ring_full_spins := c\<rparr>) = log_core l" "log_core (l\<lparr>el_writer_should_stop := b\<rparr>) = log_core l"
  "log_core (l\<lparr>el_writer_thread_active := b\<rparr>) = log_core l"
  by (simp_all add: log_core_def)

lemma apply_core:
  "log_core (snd (OrderEventLog_ApplyEvent l e)) = snd (OrderEventLog_ApplyEvent (log_core l) e)"
  "fst (OrderEventLog_ApplyEvent (log_core l) e) = fst (OrderEventLog_ApplyEvent l e)"
  by (simp_all add: OrderEventLog_ApplyEvent_def fwrite_core log_core_upd)

lemma truncate_core:
  "log_core (OrderEventLog_TruncateDisk wb ab l) = OrderEventLog_TruncateDisk wb ab (log_core l)"
  by (simp add: OrderEventLog_TruncateDisk_def Let_def fwrite_core log_core_upd)

lemma writer_event_core:
  "log_core (writer_event t wb ab e l) = writer_event True wb ab e (log_core l)"
  using apply_core [of l e]
  by (auto simp: writer_event_def truncate_core log_core_upd split: prod.splits)

text \<open>What the writer leaves alone.\<close>

lemma writer_event_frame [simp]:
  "el_async_ring (writer_event t wb ab e l) = el_async_ring l"
  "el_next_event_id (writer_event t wb ab e l) = el_next_event_id l"
  "el_allocated (writer_event t wb ab e l) = el_allocated l"
  "el_writer_thread_active (writer_event t wb ab e l) = el_writer_thread_active l"
  by (simp_all add: writer_event_def OrderEventLog_ApplyEvent_def OrderEventLog_TruncateDisk_def Let_def)

lemma fold_writer_core:
  "log_core (fold (writer_event t True True) es l) = fold (writer_event True True True) es (log_core l)"
  by (induction es arbitrary: l) (simp_all add: writer_event_core)

lemma pop_settled:
  fixes t :: bool
  assumes "ring_ok (el_async_ring l)"
  defines "l' \<equiv> snd (writer_pop t True True l)"
  shows "ring_ok (el_async_ring l') \<and> ring_N (el_async_ring l') = ring_N (el_async_ring l) \<and>
    rg_head (el_async_ring l') = rg_head (el_async_ring l) \<and> log_settled l' = log_settled l \<and>
    ring_items (el_async_ring l') = tl (ring_items (el_async_ring l)) \<and>
    el_next_event_id l' = el_next_event_id l \<and> el_allocated l' = el_allocated l \<and>
    el_writer_thread_active l' = el_writer_thread_active l \<and>
    fst (writer_pop t True True l) = (ring_items (el_async_ring l) \<noteq> [])"
proof (cases "ring_items (el_async_ring l)")
  case Nil
  obtain r where r: "SPSCRing_TryPop (el_async_ring l) = (None, r)"
    using ring_pop_ok [OF assms(1)] Nil by (cases "SPSCRing_TryPop (el_async_ring l)") simp
  have l': "l' = l\<lparr>el_async_ring := r\<rparr>" "fst (writer_pop t True True l) = False"
    by (simp_all add: l'_def writer_pop_def r)
  show ?thesis unfolding l' using ring_pop_ok [OF assms(1)] Nil
    by (simp add: r log_settled_def log_core_upd)
next
  case (Cons e es)
  obtain r where r: "SPSCRing_TryPop (el_async_ring l) = (Some e, r)"
    using ring_pop_ok [OF assms(1)] Cons by (cases "SPSCRing_TryPop (el_async_ring l)") simp
  have l': "l' = writer_event t True True e (l\<lparr>el_async_ring := r\<rparr>)" "fst (writer_pop t True True l) = True"
    by (simp_all add: l'_def writer_pop_def r)
  show ?thesis unfolding l' using ring_pop_ok [OF assms(1)] Cons
    by (simp add: r log_settled_def writer_event_core log_core_upd)
qed

definition async_frame :: "OrderEventLog \<Rightarrow> OrderEventLog \<Rightarrow> bool" where
  "async_frame l l' \<longleftrightarrow> ring_ok (el_async_ring l') \<and> ring_N (el_async_ring l') = ring_N (el_async_ring l) \<and>
     rg_head (el_async_ring l') = rg_head (el_async_ring l) \<and> log_settled l' = log_settled l \<and>
     el_next_event_id l' = el_next_event_id l \<and> el_allocated l' = el_allocated l \<and>
     el_writer_thread_active l' = el_writer_thread_active l"

lemma async_frame_trans: "async_frame l l' \<Longrightarrow> async_frame l' l'' \<Longrightarrow> async_frame l l''"
  by (simp add: async_frame_def)

lemma steps_frame:
  assumes "ring_ok (el_async_ring l)"
  shows "async_frame l (writer_steps n l) \<and>
    length (ring_items (el_async_ring (writer_steps n l))) = length (ring_items (el_async_ring l)) - n"
proof (induction n)
  case 0
  then show ?case using assms by (simp add: writer_steps_def async_frame_def)
next
  case (Suc n)
  let ?l = "writer_steps n l"
  have s: "writer_steps (Suc n) l = snd (writer_pop False True True ?l)" by (simp add: writer_steps_def)
  have "ring_ok (el_async_ring ?l)" using Suc by (simp add: async_frame_def)
  from pop_settled [OF this, of False] have "async_frame ?l (writer_steps (Suc n) l)"
    "length (ring_items (el_async_ring (writer_steps (Suc n) l))) = length (ring_items (el_async_ring ?l)) - 1"
    unfolding s by (simp_all add: async_frame_def)
  then show ?case using Suc async_frame_trans [of l ?l] by simp
qed

lemma upd_frame:
  "ring_ok r \<Longrightarrow> ring_N r = ring_N (el_async_ring l) \<Longrightarrow> rg_head r = rg_head (el_async_ring l) \<Longrightarrow>
   ring_items r = ring_items (el_async_ring l) \<Longrightarrow>
   async_frame l (l\<lparr>el_async_ring := r, el_ring_full_spins := k\<rparr>)"
  by (simp add: async_frame_def log_settled_def log_core_upd)

text \<open>A push that succeeds appends the event to what remains to be written.\<close>

definition pushed :: "OrderEvent \<Rightarrow> OrderEventLog \<Rightarrow> OrderEventLog \<Rightarrow> bool" where
  "pushed e l l' \<longleftrightarrow> ring_ok (el_async_ring l') \<and> ring_N (el_async_ring l') = ring_N (el_async_ring l) \<and>
     rg_head (el_async_ring l') = rg_head (el_async_ring l) + 1 \<and>
     log_settled l' = writer_event True True True e (log_settled l) \<and>
     el_next_event_id l' = el_next_event_id l \<and> el_allocated l' = el_allocated l \<and>
     el_writer_thread_active l' = el_writer_thread_active l"

lemma try_push_pushed:
  assumes "ring_ok (el_async_ring l)" "unat (rg_head (el_async_ring l)) + 1 < 2 ^ 64"
    "SPSCRing_TryPush (el_async_ring l) e = (True, r)"
  shows "pushed e l (l\<lparr>el_async_ring := r\<rparr>)"
  using ring_push_ok [OF assms(1,2), of e] assms(3)
  by (simp add: pushed_def log_settled_def log_core_upd)

lemma try_push_full:
  assumes "ring_ok (el_async_ring l)" "unat (rg_head (el_async_ring l)) + 1 < 2 ^ 64"
    "SPSCRing_TryPush (el_async_ring l) e = (False, r)"
  shows "async_frame l (l\<lparr>el_async_ring := r, el_ring_full_spins := k\<rparr>) \<and>
    ring_items r = ring_items (el_async_ring l) \<and> ring_N (el_async_ring l) \<le> length (ring_items (el_async_ring l))"
  using ring_push_ok [OF assms(1,2), of e] assms(3)
  by (intro conjI upd_frame) (simp_all add: not_less)

lemma ring_len_le: "ring_ok r \<Longrightarrow> length (ring_items r) \<le> ring_N r \<and> 2 \<le> ring_N r"
  using ring_geom_bounds(1) [of "ring_N r"] by (auto simp: ring_ok_def ring_length_items)

lemma spin_push_returns:
  assumes ok: "ring_ok (el_async_ring l)" and room: "unat (rg_head (el_async_ring l)) + 1 < 2 ^ 64"
    and ks: "\<forall>i. 0 < ks i" and fuel: "2 \<le> fuel"
  shows "\<exists>l'. spin_push fuel (\<lambda>i. writer_steps (ks i)) s e l = Some l' \<and> pushed e l l'"
proof -
  obtain n where n: "fuel = Suc (Suc n)" using fuel by (metis add_2_eq_Suc le_Suc_ex)
  obtain b r where r: "SPSCRing_TryPush (el_async_ring l) e = (b, r)" by fastforce
  show ?thesis
  proof (cases b)
    case True
    then show ?thesis using try_push_pushed [OF ok room] r n by simp
  next
    case False
    let ?l0 = "l\<lparr>el_async_ring := r, el_ring_full_spins := el_ring_full_spins l + 1\<rparr>"
    let ?l1 = "writer_steps (ks s) ?l0"
    have f0: "async_frame l ?l0" "ring_items r = ring_items (el_async_ring l)"
      using try_push_full [OF ok room, of e r] r False by simp_all
    then have "ring_ok (el_async_ring ?l0)" by (simp add: async_frame_def)
    note st = steps_frame [OF this, of "ks s"]
    have f1: "async_frame l ?l1" using async_frame_trans f0(1) st by blast
    have ok1: "ring_ok (el_async_ring ?l1)" and room1: "unat (rg_head (el_async_ring ?l1)) + 1 < 2 ^ 64"
      using f1 room by (simp_all add: async_frame_def)
    have "length (ring_items (el_async_ring ?l1)) < ring_N (el_async_ring ?l1)"
    proof -
      have "length (ring_items (el_async_ring ?l1)) = length (ring_items (el_async_ring l)) - ks s"
        "ring_N (el_async_ring ?l1) = ring_N (el_async_ring l)"
        using st f1 f0(2) by (simp_all add: async_frame_def)
      then show ?thesis using ring_len_le [OF ok] ks [rule_format, of s] by linarith
    qed
    then have "fst (SPSCRing_TryPush (el_async_ring ?l1) e)" using ring_push_ok [OF ok1 room1, of e] by simp
    then obtain r1 where r1: "SPSCRing_TryPush (el_async_ring ?l1) e = (True, r1)"
      by (cases "SPSCRing_TryPush (el_async_ring ?l1) e") simp
    have "spin_push fuel (\<lambda>i. writer_steps (ks i)) s e l = Some (?l1\<lparr>el_async_ring := r1\<rparr>)"
      using r False r1 n by simp
    moreover have "pushed e l (?l1\<lparr>el_async_ring := r1\<rparr>)"
      using try_push_pushed [OF ok1 room1 r1] f1 by (simp add: pushed_def async_frame_def)
    ultimately show ?thesis by blast
  qed
qed


text \<open>The relation between the asynchronous log and the synchronous one.\<close>

definition async_rel :: "nat \<Rightarrow> nat \<Rightarrow> OrderEventLog \<Rightarrow> OrderEventLog \<Rightarrow> bool" where
  "async_rel N h la ls \<longleftrightarrow> ring_ok (el_async_ring la) \<and> ring_N (el_async_ring la) = N \<and> el_allocated la \<and> el_writer_thread_active la \<and>
     unat (rg_head (el_async_ring la)) = h \<and> log_settled la = log_core ls \<and>
     el_next_event_id la = el_next_event_id ls \<and> el_allocated ls \<and> \<not> el_writer_thread_active ls"

lemma log_sync_core:
  assumes "el_allocated ls" "\<not> el_writer_thread_active ls" "call_ok c"
  defines "e \<equiv> (case c of L_Append e \<Rightarrow> e\<lparr>ev_event_id := el_next_event_id ls\<rparr>
                        | L_Truncate \<Rightarrow> event_zero\<lparr>ev_type := OEVT_CTRL_TRUNCATE\<rparr>)"
  shows "log_core (log_sync c ls) = writer_event True True True e (log_core ls)"
    "el_next_event_id (log_sync c ls) = (case c of L_Append _ \<Rightarrow> el_next_event_id ls + 1 | L_Truncate \<Rightarrow> 1)"
    "el_allocated (log_sync c ls)" "\<not> el_writer_thread_active (log_sync c ls)"
proof -
  have a: "writer_event True True True e' l = snd (OrderEventLog_ApplyEvent l e')"
    if "ev_type e' \<noteq> OEVT_CTRL_TRUNCATE" for e' l
    using that by (auto simp: writer_event_def split: prod.splits)
  show "log_core (log_sync c ls) = writer_event True True True e (log_core ls)"
  proof (cases c)
    case (L_Append ev)
    then show ?thesis using assms(1-3)
      by (simp add: log_sync_append apply_core log_core_upd e_def a call_ok_def)
  next
    case L_Truncate
    then show ?thesis using assms(1,2)
      by (simp add: log_sync_truncate OrderEventLog_Reset_def truncate_core log_core_upd e_def writer_event_def)
  qed
  show "el_next_event_id (log_sync c ls) = (case c of L_Append _ \<Rightarrow> el_next_event_id ls + 1 | L_Truncate \<Rightarrow> 1)"
    "el_allocated (log_sync c ls)" "\<not> el_writer_thread_active (log_sync c ls)"
    using assms(1,2) by (cases c; simp add: log_sync_append log_sync_truncate OrderEventLog_ApplyEvent_def
        OrderEventLog_Reset_def OrderEventLog_TruncateDisk_def Let_def)+
qed

lemma async_call:
  assumes rel: "async_rel N h la ls" and h: "h + 1 < 2 ^ 64" and c: "call_ok c"
    and ks: "\<forall>i. 0 < ks i" "2 \<le> fuel"
  shows "\<exists>la'. log_call_run fuel (\<lambda>i. writer_steps (ks i)) c (writer_steps n la) = Some la' \<and>
    async_rel N (h + 1) la' (log_sync c ls)"
proof -
  let ?l = "writer_steps n la"
  have f: "async_frame la ?l" using rel steps_frame [of la n] by (simp add: async_rel_def)
  then have ok: "ring_ok (el_async_ring ?l)" and room: "unat (rg_head (el_async_ring ?l)) + 1 < 2 ^ 64"
    and act: "el_allocated ?l" "el_writer_thread_active ?l"
    and core: "log_settled ?l = log_core ls" and nx: "el_next_event_id ?l = el_next_event_id ls"
    and hd: "unat (rg_head (el_async_ring ?l)) = h" "ring_N (el_async_ring ?l) = N"
    and s: "el_allocated ls" "\<not> el_writer_thread_active ls"
    using rel h by (simp_all add: async_frame_def async_rel_def)
  note sync = log_sync_core [OF s c]
  show ?thesis
  proof (cases c)
    case (L_Append ev)
    let ?e = "ev\<lparr>ev_event_id := el_next_event_id ?l\<rparr>"
    let ?l1 = "?l\<lparr>el_next_event_id := el_next_event_id ?l + 1\<rparr>"
    have "\<exists>l'. spin_push fuel (\<lambda>i. writer_steps (ks i)) 0 ?e ?l1 = Some l' \<and> pushed ?e ?l1 l'"
      using ok room by (intro spin_push_returns ks) simp_all
    then obtain l' where l': "spin_push fuel (\<lambda>i. writer_steps (ks i)) 0 ?e ?l1 = Some l'" "pushed ?e ?l1 l'" by blast
    have "log_call_run fuel (\<lambda>i. writer_steps (ks i)) c ?l = Some l'"
      using act l' by (simp add: L_Append OrderEventLog_Append_def Let_def)
    moreover have "async_rel N (h + 1) l' (log_sync c ls)"
      using l'(2) sync core act nx hd room
      by (simp add: async_rel_def pushed_def L_Append log_settled_def log_core_upd unat_succ64)
    ultimately show ?thesis by blast
  next
    case L_Truncate
    let ?e = "event_zero\<lparr>ev_type := OEVT_CTRL_TRUNCATE\<rparr>"
    obtain l' where l': "spin_push fuel (\<lambda>i. writer_steps (ks i)) 0 ?e ?l = Some l'" "pushed ?e ?l l'"
      using spin_push_returns [OF ok room ks] by blast
    have "log_call_run fuel (\<lambda>i. writer_steps (ks i)) c ?l = Some (l'\<lparr>el_next_event_id := 1\<rparr>)"
      using act l' by (simp add: L_Truncate OrderEventLog_RequestTruncate_def)
    moreover have "async_rel N (h + 1) (l'\<lparr>el_next_event_id := 1\<rparr>) (log_sync c ls)"
      using l'(2) sync core act nx hd room
      by (simp add: async_rel_def pushed_def L_Truncate log_settled_def log_core_upd unat_succ64)
    ultimately show ?thesis by blast
  qed
qed

lemma async_schedule:
  assumes "async_rel N h la ls" "h + length sched < 2 ^ 64" "\<forall>s \<in> set sched. call_ok (sched_call s)"
    and "\<forall>s \<in> set sched. 2 \<le> fst (snd (snd s)) \<and> (\<forall>i. 0 < fst (snd s) i)"
  shows "\<exists>la'. run_schedule sched la = Some la' \<and>
    async_rel N (h + length sched) la' (fold log_sync (map sched_call sched) ls)"
  using assms
proof (induction sched arbitrary: h la ls)
  case Nil
  then show ?case by simp
next
  case (Cons s sched)
  obtain n ks fuel c where s: "s = (n, ks, fuel, c)" by (cases s) auto
  have "\<exists>la'. log_call_run fuel (\<lambda>i. writer_steps (ks i)) c (writer_steps n la) = Some la' \<and>
    async_rel N (h + 1) la' (log_sync c ls)"
    using Cons.prems by (intro async_call) (simp_all add: s sched_call_def)
  then obtain la' where la': "log_call_run fuel (\<lambda>i. writer_steps (ks i)) c (writer_steps n la) = Some la'"
    "async_rel N (h + 1) la' (log_sync c ls)" by blast
  have "\<exists>la''. run_schedule sched la' = Some la'' \<and>
    async_rel N (h + 1 + length sched) la'' (fold log_sync (map sched_call sched) (log_sync c ls))"
    using Cons.prems by (intro Cons.IH la'(2)) simp_all
  moreover have "sched_call (n, ks, fuel, c) = c" by (simp add: sched_call_def)
  ultimately show ?case using la'(1) by (auto simp: s)
qed

lemma drain_settles:
  assumes "ring_ok (el_async_ring l)" "length (ring_items (el_async_ring l)) < fuel"
  shows "\<exists>l'. writer_drain fuel t True True l = Some l' \<and> async_frame l l' \<and> ring_items (el_async_ring l') = []"
  using assms
proof (induction fuel arbitrary: l)
  case 0
  then show ?case by simp
next
  case (Suc n)
  obtain b l1 where p: "writer_pop t True True l = (b, l1)" by fastforce
  note ps = pop_settled [OF Suc.prems(1), of t, unfolded p prod.sel]
  have f: "async_frame l l1" using ps by (simp add: async_frame_def)
  show ?case
  proof (cases b)
    case True
    have "\<exists>l'. writer_drain n t True True l1 = Some l' \<and> async_frame l1 l' \<and> ring_items (el_async_ring l') = []"
    proof (rule Suc.IH)
      show "ring_ok (el_async_ring l1)" using ps by blast
      have "ring_items (el_async_ring l1) = tl (ring_items (el_async_ring l))" "ring_items (el_async_ring l) \<noteq> []"
        using ps True by blast+
      then show "length (ring_items (el_async_ring l1)) < n"
        using Suc.prems(2) by (cases "ring_items (el_async_ring l)") simp_all
    qed
    then show ?thesis using f p True async_frame_trans by fastforce
  next
    case False
    then show ?thesis using f p ps by simp
  qed
qed

lemma stop_settles:
  assumes "async_rel N h la ls" "N < fuel"
  shows "\<exists>l2. OrderEventLog_StopAsyncWriter fuel True True la = Some l2 \<and> el_entries l2 = el_entries ls \<and>
    el_fs l2 = el_fs ls \<and> el_log_full_drops l2 = el_log_full_drops ls \<and>
    el_next_event_id l2 = el_next_event_id ls \<and> \<not> el_writer_thread_active l2"
proof -
  let ?l0 = "la\<lparr>el_writer_should_stop := True\<rparr>"
  have r: "ring_ok (el_async_ring ?l0)" "length (ring_items (el_async_ring ?l0)) < fuel"
    using assms ring_len_le [of "el_async_ring la"] by (auto simp: async_rel_def)
  obtain l1 where l1: "writer_drain fuel False True True ?l0 = Some l1" "async_frame ?l0 l1" "ring_items (el_async_ring l1) = []"
    using drain_settles [OF r] by blast
  have r1: "ring_ok (el_async_ring l1)" "length (ring_items (el_async_ring l1)) < fuel"
    using l1 r(2) by (simp_all add: async_frame_def)
  obtain l2 where l2: "writer_drain fuel True True True l1 = Some l2" "async_frame l1 l2" "ring_items (el_async_ring l2) = []"
    using drain_settles [OF r1] by blast
  have "log_settled l2 = log_settled la" "el_next_event_id l2 = el_next_event_id la"
    using l1(2) l2(2) by (simp_all add: async_frame_def log_settled_def log_core_upd)
  then have c: "log_core l2 = log_core ls" "el_next_event_id l2 = el_next_event_id ls"
    using l2(3) assms(1) by (simp_all add: log_settled_def async_rel_def)
  then have "el_entries l2 = el_entries ls" "el_fs l2 = el_fs ls" "el_log_full_drops l2 = el_log_full_drops ls"
    by (metis log_core_simps)+
  moreover have "OrderEventLog_StopAsyncWriter fuel True True la = Some (l2\<lparr>el_writer_thread_active := False\<rparr>)"
    using assms(1) l1(1) l2(1) by (simp add: OrderEventLog_StopAsyncWriter_def async_rel_def)
  ultimately show ?thesis using c by simp
qed

text \<open>C38: the asynchronous log implements the synchronous one: whatever steps the writer takes between
  and during the drainer's calls (at least one per wait on a full ring), every append and reset
  request returns, stopping the writer returns, and then the live entries, the files, the drop
  count and the next event id are those of the same calls made synchronously.\<close>

theorem async_log_refines_sync:
  assumes "el_allocated la" "el_writer_thread_active la" "ring_ok (el_async_ring la)"
    and "ring_items (el_async_ring la) = []" "unat (rg_head (el_async_ring la)) + length sched < 2 ^ 64"
    and "\<forall>s \<in> set sched. call_ok (sched_call s)"
    and "\<forall>s \<in> set sched. 2 \<le> fst (snd (snd s)) \<and> (\<forall>i. 0 < fst (snd s) i)"
    and "ring_N (el_async_ring la) < fuel"
  defines "ls \<equiv> fold log_sync (map sched_call sched) (la\<lparr>el_writer_thread_active := False\<rparr>)"
  shows "\<exists>l1 l2. run_schedule sched la = Some l1 \<and> OrderEventLog_StopAsyncWriter fuel True True l1 = Some l2 \<and>
    el_entries l2 = el_entries ls \<and> el_fs l2 = el_fs ls \<and> el_log_full_drops l2 = el_log_full_drops ls \<and>
    el_next_event_id l2 = el_next_event_id ls \<and> \<not> el_writer_thread_active l2"
proof -
  let ?h = "unat (rg_head (el_async_ring la))" and ?N = "ring_N (el_async_ring la)"
  have "async_rel ?N ?h la (la\<lparr>el_writer_thread_active := False\<rparr>)"
    using assms(1-4) by (simp add: async_rel_def log_settled_def log_core_upd)
  from async_schedule [OF this assms(5-7)] obtain l1 where l1: "run_schedule sched la = Some l1"
    "async_rel ?N (?h + length sched) l1 ls" unfolding ls_def by blast
  from stop_settles [OF l1(2) assms(8)] l1(1) show ?thesis by blast
qed

definition demo_schedule :: "scheduled_call list" where
  "demo_schedule = [(0, \<lambda>_. 1, 2, L_Append demo_event), (0, \<lambda>_. 1, 2, L_Append demo_event),
     (0, \<lambda>_. 1, 2, L_Append demo_event), (1, \<lambda>_. 2, 3, L_Truncate)]"

lemma async_log_witness:
  "\<exists>l1 l2. run_schedule demo_schedule (demo_log\<lparr>el_writer_thread_active := True\<rparr>) = Some l1 \<and>
     OrderEventLog_StopAsyncWriter 3 True True l1 = Some l2 \<and> el_entries l2 = [] \<and> el_next_event_id l2 = 1"
proof -
  let ?la = "demo_log\<lparr>el_writer_thread_active := True\<rparr>"
  have r: "ring_ok (el_async_ring ?la)" "ring_items (el_async_ring ?la) = []" "ring_N (el_async_ring ?la) = 2"
    using ring_geom_2 by (simp_all add: demo_log_def ring_ok_def ring_items_def ring_N_def numeral_2_eq_2)
  have c: "\<forall>s \<in> set demo_schedule. call_ok (sched_call s)"
    "\<forall>s \<in> set demo_schedule. 2 \<le> fst (snd (snd s)) \<and> (\<forall>i. 0 < fst (snd s) i)"
    using demo_event_ok(1) by (simp_all add: demo_schedule_def sched_call_def call_ok_def)
  let ?ls = "fold log_sync (map sched_call demo_schedule) (?la\<lparr>el_writer_thread_active := False\<rparr>)"
  have "el_entries ?ls = []" "el_next_event_id ?ls = 1"
    by (simp_all add: demo_schedule_def sched_call_def demo_log_def log_sync_append log_sync_truncate
        OrderEventLog_ApplyEvent_def fwrite_log_def OrderEventLog_Reset_def OrderEventLog_TruncateDisk_def el_count_def)
  moreover have "\<exists>l1 l2. run_schedule demo_schedule ?la = Some l1 \<and> OrderEventLog_StopAsyncWriter 3 True True l1 = Some l2 \<and>
    el_entries l2 = el_entries ?ls \<and> el_fs l2 = el_fs ?ls \<and> el_log_full_drops l2 = el_log_full_drops ?ls \<and>
    el_next_event_id l2 = el_next_event_id ?ls \<and> \<not> el_writer_thread_active l2"
    by (rule async_log_refines_sync [OF _ _ r(1,2) _ c]) (simp add: demo_log_def, simp add: demo_log_def, simp add: demo_log_def demo_schedule_def, simp only: r(3))
  ultimately show ?thesis by metis
qed

end
