(* ===== verification/Binary64.thy ===== *)
theory Binary64
  imports Money_Ops "HOL-Library.Log_Nat"
begin

text \<open>
  The C++ \<^verbatim>\<open>double\<close> of the target: IEEE 754 binary64, round to nearest, ties to even.  A finite
  value is the rational it denotes; the sign of a zero is not recorded, and no operation of the
  modelled code observes it.  On it, the two bridges of \<^verbatim>\<open>src/FixedPoint/FixedPointN.hpp\<close> between
  money and \<^verbatim>\<open>double\<close>, and the proof that they are inverse on amounts below \<open>2 ^ 50\<close> units.
\<close>

subsection \<open>Numbers and rounding\<close>

datatype f64 = F64_NaN | F64_Inf bool | F64_Fin rat

definition f64_exponent :: "rat \<Rightarrow> int" where
  "f64_exponent q =
     (let (n, d) = quotient_of \<bar>q\<bar>;
          k = int (floorlog 2 (nat n)) - int (floorlog 2 (nat d))
      in if 2 powi k \<le> \<bar>q\<bar> then k else k - 1)"

definition rat_half_even :: "rat \<Rightarrow> int" where
  "rat_half_even q =
     (let f = \<lfloor>q\<rfloor>; r = q - of_int f
      in if r < 1 / 2 then f else if 1 / 2 < r then f + 1 else if even f then f else f + 1)"

definition rat_half_away :: "rat \<Rightarrow> int" where
  "rat_half_away q = (if q < 0 then - \<lfloor>- q + 1 / 2\<rfloor> else \<lfloor>q + 1 / 2\<rfloor>)"

definition f64_round :: "rat \<Rightarrow> f64" where
  "f64_round q =
     (if q = 0 then F64_Fin 0
      else let u = max (f64_exponent q - 52) (- 1074);
               v = of_int (rat_half_even (q / 2 powi u)) * 2 powi u
           in if 2 ^ 1024 \<le> \<bar>v\<bar> then F64_Inf (q < 0) else F64_Fin v)"

definition f64_of_int :: "int \<Rightarrow> f64" where
  "f64_of_int z = f64_round (of_int z)"

fun f64_neg :: "f64 \<Rightarrow> f64" where
  "f64_neg F64_NaN = F64_NaN"
| "f64_neg (F64_Inf s) = F64_Inf (\<not> s)"
| "f64_neg (F64_Fin a) = F64_Fin (- a)"

fun f64_add :: "f64 \<Rightarrow> f64 \<Rightarrow> f64" where
  "f64_add (F64_Fin a) (F64_Fin b) = f64_round (a + b)"
| "f64_add (F64_Inf s) (F64_Fin b) = F64_Inf s"
| "f64_add (F64_Fin a) (F64_Inf t) = F64_Inf t"
| "f64_add (F64_Inf s) (F64_Inf t) = (if s = t then F64_Inf s else F64_NaN)"
| "f64_add a b = F64_NaN"

definition f64_sub :: "f64 \<Rightarrow> f64 \<Rightarrow> f64" where
  "f64_sub a b = f64_add a (f64_neg b)"

fun f64_mul :: "f64 \<Rightarrow> f64 \<Rightarrow> f64" where
  "f64_mul (F64_Fin a) (F64_Fin b) = f64_round (a * b)"
| "f64_mul (F64_Inf s) (F64_Fin b) = (if b = 0 then F64_NaN else F64_Inf (s \<noteq> (b < 0)))"
| "f64_mul (F64_Fin a) (F64_Inf t) = (if a = 0 then F64_NaN else F64_Inf (t \<noteq> (a < 0)))"
| "f64_mul (F64_Inf s) (F64_Inf t) = F64_Inf (s \<noteq> t)"
| "f64_mul a b = F64_NaN"

text \<open>Division; the modelled code divides only by positive finite numbers.\<close>

fun f64_div :: "f64 \<Rightarrow> f64 \<Rightarrow> f64" where
  "f64_div (F64_Fin a) (F64_Fin b) =
     (if b \<noteq> 0 then f64_round (a / b) else if a = 0 then F64_NaN else F64_Inf (a < 0))"
| "f64_div (F64_Inf s) (F64_Fin b) = F64_Inf (s \<noteq> (b < 0))"
| "f64_div (F64_Fin a) (F64_Inf t) = F64_Fin 0"
| "f64_div a b = F64_NaN"

fun f64_lt :: "f64 \<Rightarrow> f64 \<Rightarrow> bool" where
  "f64_lt (F64_Fin a) (F64_Fin b) = (a < b)"
| "f64_lt (F64_Inf s) (F64_Inf t) = (s \<and> \<not> t)"
| "f64_lt (F64_Inf s) (F64_Fin b) = s"
| "f64_lt (F64_Fin a) (F64_Inf t) = (\<not> t)"
| "f64_lt a b = False"

definition f64_gt :: "f64 \<Rightarrow> f64 \<Rightarrow> bool" where
  "f64_gt a b = f64_lt b a"

definition f64_eq :: "f64 \<Rightarrow> f64 \<Rightarrow> bool" where
  "f64_eq a b = (a \<noteq> F64_NaN \<and> a = b)"

subsection \<open>The money bridges\<close>

definition Money_ToDouble :: "Money \<Rightarrow> f64" where
  "Money_ToDouble a = f64_div (f64_of_int (mint a)) (F64_Fin 100000000)"

text \<open>The saturation bound as the literal the code writes, rounded to a \<^verbatim>\<open>double\<close>.\<close>

definition payload_limit :: f64 where
  "payload_limit = f64_round 9223372036854700000"

text \<open>\<^verbatim>\<open>llround\<close> of a number inside the guards.\<close>

fun f64_llround :: "f64 \<Rightarrow> int" where
  "f64_llround (F64_Fin a) = rat_half_away a"
| "f64_llround _ = 0"

definition money_from_double_payload :: "f64 \<Rightarrow> u128" where
  "money_from_double_payload d =
     (let s = f64_mul d (F64_Fin 100000000)
      in if \<not> f64_lt s payload_limit then word_of_int (2 ^ 63 - 1)
         else if \<not> f64_gt s (f64_neg payload_limit) then - word_of_int (2 ^ 63 - 1)
         else word_of_int (f64_llround s))"

subsection \<open>Rounding error\<close>

lemma f64_exponent_bounds:
  assumes "q \<noteq> 0"
  shows "2 powi (f64_exponent q) \<le> \<bar>q\<bar>" "\<bar>q\<bar> < 2 powi (f64_exponent q + 1)"
proof -
  obtain n d where nd: "quotient_of \<bar>q\<bar> = (n, d)" by fastforce
  have d: "0 < d" using quotient_of_denom_pos [OF nd] .
  have q: "\<bar>q\<bar> = of_int n / of_int d" using quotient_of_div [OF nd] .
  then have "0 < (of_int n :: rat) / of_int d" using assms by simp
  then have n: "0 < n" using d by (simp add: zero_less_divide_iff)
  let ?a = "floorlog 2 (nat n)" and ?b = "floorlog 2 (nat d)"
  let ?k = "int ?a - int ?b"
  have fa: "2 ^ (?a - 1) \<le> nat n" "nat n < 2 ^ ?a" using floorlog_bounds [of "nat n" 2] n by simp_all
  have fb: "2 ^ (?b - 1) \<le> nat d" "nat d < 2 ^ ?b" using floorlog_bounds [of "nat d" 2] d by simp_all
  have ab: "0 < ?a" "0 < ?b" using n d floorlog_eq_zero_iff [of 2 "nat n"] floorlog_eq_zero_iff [of 2 "nat d"] by simp_all
  have r: "(of_nat (nat z) :: rat) = of_int z" if "0 < z" for z using that by simp
  have ra: "(2 :: rat) ^ (?a - 1) \<le> of_int n" "of_int n < (2 :: rat) ^ ?a"
    using fa [folded of_nat_le_iff [where 'a = rat] of_nat_less_iff [where 'a = rat]] unfolding r [OF n] by simp_all
  have rb: "(2 :: rat) ^ (?b - 1) \<le> of_int d" "of_int d < (2 :: rat) ^ ?b"
    using fb [folded of_nat_le_iff [where 'a = rat] of_nat_less_iff [where 'a = rat]] unfolding r [OF d] by simp_all
  have lo: "2 powi (?k - 1) \<le> \<bar>q\<bar>"
  proof -
    have "?k - 1 = int (?a - 1) - int ?b" using ab by simp
    then have "(2 :: rat) powi (?k - 1) = 2 ^ (?a - 1) / 2 ^ ?b"
      by (simp only: power_int_diff power_int_of_nat simp_thms zero_neq_numeral [symmetric])
    also have "\<dots> \<le> of_int n / of_int d" using ra rb d n by (intro frac_le) simp_all
    finally show ?thesis using q by simp
  qed
  have hi: "\<bar>q\<bar> < 2 powi (?k + 1)"
  proof -
    have "?k + 1 = int ?a - int (?b - 1)" using ab by simp
    then have e: "(2 :: rat) powi (?k + 1) = 2 ^ ?a / 2 ^ (?b - 1)"
      by (simp only: power_int_diff power_int_of_nat simp_thms zero_neq_numeral [symmetric])
    have "of_int n / of_int d < (2 :: rat) ^ ?a / 2 ^ (?b - 1)" using ra rb d n by (intro frac_less) simp_all
    then show ?thesis using q e by simp
  qed
  have e: "f64_exponent q = (if 2 powi ?k \<le> \<bar>q\<bar> then ?k else ?k - 1)"
    by (simp add: f64_exponent_def nd)
  show "2 powi (f64_exponent q) \<le> \<bar>q\<bar>" "\<bar>q\<bar> < 2 powi (f64_exponent q + 1)"
    using lo hi by (simp_all add: e)
qed

lemma rat_half_even_error: "\<bar>of_int (rat_half_even q) - q\<bar> \<le> 1 / 2"
proof -
  have "of_int \<lfloor>q\<rfloor> \<le> q" "q < of_int \<lfloor>q\<rfloor> + 1" by linarith+
  then show ?thesis by (auto simp: rat_half_even_def Let_def abs_le_iff)
qed

lemma rat_half_away_unique:
  assumes "\<bar>q - of_int z\<bar> < 1 / 2"
  shows "rat_half_away q = z"
proof (cases "q < 0")
  case True
  have "- (1 / 2) < q - of_int z" "q - of_int z < 1 / 2" using assms by (simp_all only: abs_less_iff) linarith+
  then have "\<lfloor>- q + 1 / 2\<rfloor> = - z" by (intro floor_unique; simp only: of_int_minus; linarith)
  then show ?thesis using True by (simp add: rat_half_away_def)
next
  case False
  have "- (1 / 2) < q - of_int z" "q - of_int z < 1 / 2" using assms by (simp_all only: abs_less_iff) linarith+
  then have "\<lfloor>q + 1 / 2\<rfloor> = z" by (intro floor_unique) linarith+
  then show ?thesis using False by (simp add: rat_half_away_def)
qed

lemma f64_round_error:
  assumes "1 / 2 ^ 60 \<le> \<bar>q\<bar>" "\<bar>q\<bar> \<le> 2 ^ 1000"
  obtains v where "f64_round q = F64_Fin v" "\<bar>v - q\<bar> \<le> \<bar>q\<bar> / 2 ^ 53"
proof -
  have q: "q \<noteq> 0" using assms(1) by auto
  let ?e = "f64_exponent q"
  note eb = f64_exponent_bounds [OF q]
  have "(2 :: rat) powi - 61 < 2 powi (?e + 1)"
    by (rule le_less_trans [OF _ eb(2)]) (use assms(1) in \<open>simp add: power_int_minus\<close>)
  moreover have "(2 :: rat) powi (?e + 1) \<le> 2 powi - 61" if "?e + 1 \<le> - 61"
    using that by (intro power_int_increasing) simp_all
  ultimately have "- 61 < ?e + 1" by (meson not_le order_less_le_trans less_irrefl)
  then have u: "max (?e - 52) (- 1074) = ?e - 52" by simp
  define m where "m = rat_half_even (q / 2 powi (?e - 52))"
  define v where "v = of_int m * (2 :: rat) powi (?e - 52)"
  have p: "(0 :: rat) < 2 powi (?e - 52)" by simp
  have "v - q = (of_int m - q / 2 powi (?e - 52)) * 2 powi (?e - 52)"
    using p by (simp add: v_def field_simps)
  then have "\<bar>v - q\<bar> = \<bar>of_int m - q / 2 powi (?e - 52)\<bar> * 2 powi (?e - 52)"
    by (simp add: abs_mult)
  also have "\<dots> \<le> 1 / 2 * 2 powi (?e - 52)"
    using rat_half_even_error [of "q / 2 powi (?e - 52)"] p unfolding m_def by (intro mult_right_mono) simp_all
  also have "\<dots> = 2 powi ?e / 2 ^ 53" by (simp add: power_int_diff)
  also have "\<dots> \<le> \<bar>q\<bar> / 2 ^ 53" using eb(1) by (intro divide_right_mono) simp_all
  finally have err: "\<bar>v - q\<bar> \<le> \<bar>q\<bar> / 2 ^ 53" .
  have "\<bar>q\<bar> / 2 ^ 53 \<le> \<bar>q\<bar>" by (simp add: field_simps)
  then have "\<bar>v\<bar> \<le> 2 * \<bar>q\<bar>" using err by linarith
  also have "\<dots> \<le> 2 * 2 ^ 1000" using assms(2) by simp
  also have "\<dots> < (2 :: rat) ^ 1024" by simp
  finally have "\<not> 2 ^ 1024 \<le> \<bar>v\<bar>" by simp
  then have "f64_round q = F64_Fin v"
    using q by (simp add: f64_round_def u Let_def v_def m_def)
  then show ?thesis using err by (rule that)
qed


lemma payload_limit_large: obtains L where "payload_limit = F64_Fin L" "2 ^ 60 \<le> L"
proof -
  obtain v where v: "payload_limit = F64_Fin v" "\<bar>v - 9223372036854700000\<bar> \<le> \<bar>9223372036854700000\<bar> / 2 ^ 53"
    unfolding payload_limit_def by (rule f64_round_error [of 9223372036854700000]) simp_all
  have "\<bar>v - 9223372036854700000\<bar> \<le> 2048" by (rule order_trans [OF v(2)]) simp
  then have "9223372036854697952 \<le> v" by linarith
  then have "2 ^ 60 \<le> v" by simp
  with v(1) show ?thesis by (rule that)
qed

text \<open>Three roundings of a nonzero integer below \<open>2 ^ 50\<close> stay within half a unit of it.\<close>

lemma double_bridge_close:
  fixes z :: int
  assumes "z \<noteq> 0" "\<bar>z\<bar> \<le> 2 ^ 50"
  obtains d s where "f64_div (f64_of_int z) (F64_Fin 100000000) = F64_Fin d" "\<bar>d * 100000000 - of_int z\<bar> < 1 / 2"
    "f64_mul (F64_Fin d) (F64_Fin 100000000) = F64_Fin s" "\<bar>s - of_int z\<bar> < 1 / 2"
proof -
  let ?z = "of_int z :: rat"
  let ?k = "100000000 :: rat"
  have "1 \<le> \<bar>z\<bar>" using assms(1) by linarith
  then have "(of_int 1 :: rat) \<le> of_int \<bar>z\<bar>" by (simp only: of_int_le_iff)
  then have z1: "1 \<le> \<bar>?z\<bar>" by simp
  have z2: "\<bar>?z\<bar> \<le> 2 ^ 50" using assms(2) by (metis of_int_abs of_int_le_iff of_int_numeral of_int_power)
  obtain a where a: "f64_of_int z = F64_Fin a" "\<bar>a - ?z\<bar> \<le> \<bar>?z\<bar> / 2 ^ 53"
    unfolding f64_of_int_def by (rule f64_round_error [of ?z]) (use z1 z2 in simp_all)
  have ae: "\<bar>a - ?z\<bar> \<le> 1 / 8" using a(2) z2 by simp
  have al: "1 / 2 \<le> \<bar>a\<bar>" "\<bar>a\<bar> \<le> 2 ^ 50 + 1" using ae z1 z2 by (simp_all add: abs_if split: if_splits)
  obtain d where d: "f64_div (F64_Fin a) (F64_Fin ?k) = F64_Fin d" "\<bar>d - a / ?k\<bar> \<le> \<bar>a / ?k\<bar> / 2 ^ 53"
    by (rule f64_round_error [of "a / ?k"]) (use al in \<open>simp_all add: field_simps\<close>)
  have "\<bar>d * ?k - a\<bar> = \<bar>d - a / ?k\<bar> * ?k" by (simp add: abs_if field_simps)
  also have "\<dots> \<le> \<bar>a / ?k\<bar> / 2 ^ 53 * ?k" using d(2) by (intro mult_right_mono) simp_all
  also have "\<dots> = \<bar>a\<bar> / 2 ^ 53" by simp
  also have "\<dots> \<le> 9 / 64" using al(2) by simp
  finally have de: "\<bar>d * ?k - a\<bar> \<le> 9 / 64" .
  have dl: "1 / 4 \<le> \<bar>d * ?k\<bar>" "\<bar>d * ?k\<bar> \<le> 2 ^ 50 + 2" using de al by (simp_all add: abs_if split: if_splits)
  obtain s where s: "f64_mul (F64_Fin d) (F64_Fin ?k) = F64_Fin s" "\<bar>s - d * ?k\<bar> \<le> \<bar>d * ?k\<bar> / 2 ^ 53"
    by (rule f64_round_error [of "d * ?k"]) (use dl in simp_all)
  have se: "\<bar>s - d * ?k\<bar> \<le> 9 / 64" using s(2) dl(2) by simp
  have "\<bar>s - ?z\<bar> \<le> \<bar>s - d * ?k\<bar> + \<bar>d * ?k - a\<bar> + \<bar>a - ?z\<bar>" by linarith
  also have "\<dots> < 1 / 2" using se de ae by linarith
  finally have "\<bar>s - ?z\<bar> < 1 / 2" .
  moreover have "\<bar>d * ?k - ?z\<bar> < 1 / 2" using de ae by linarith
  ultimately show ?thesis using a(1) d(1) s(1) by (intro that) simp_all
qed

lemma payload_of_close:
  assumes "f64_mul d (F64_Fin 100000000) = F64_Fin s" "\<bar>s - of_int z\<bar> < 1 / 2" "\<bar>z\<bar> \<le> 2 ^ 50"
  shows "money_from_double_payload d = word_of_int z"
proof -
  obtain L where L: "payload_limit = F64_Fin L" "2 ^ 60 \<le> L" by (rule payload_limit_large)
  have "\<bar>of_int z :: rat\<bar> \<le> 2 ^ 50" using assms(3) by (metis of_int_abs of_int_le_iff of_int_numeral of_int_power)
  then have "s < L" "- L < s" using assms(2) L(2) by (simp_all add: abs_if split: if_splits)
  then show ?thesis
    unfolding money_from_double_payload_def Let_def assms(1) L(1) f64_gt_def
    using rat_half_away_unique [OF assms(2)] by simp
qed

lemma money_double_bridge:
  assumes "\<bar>mint m\<bar> \<le> 2 ^ 50"
  shows "money_from_double_payload (Money_ToDouble m) = mv m"
    "0 < mint m \<Longrightarrow> f64_gt (Money_ToDouble m) (F64_Fin 0)"
proof -
  have "money_from_double_payload (Money_ToDouble m) = mv m \<and> (0 < mint m \<longrightarrow> f64_gt (Money_ToDouble m) (F64_Fin 0))"
  proof (cases "mint m = 0")
    case True
    have "money_from_double_payload (Money_ToDouble m) = word_of_int 0"
      by (rule payload_of_close [where s = 0])
        (simp_all add: Money_ToDouble_def True f64_of_int_def f64_round_def)
    then show ?thesis using True by simp
  next
    case False
    obtain d s where d: "Money_ToDouble m = F64_Fin d" "\<bar>d * 100000000 - of_int (mint m)\<bar> < 1 / 2"
        "f64_mul (F64_Fin d) (F64_Fin 100000000) = F64_Fin s" "\<bar>s - of_int (mint m)\<bar> < 1 / 2"
      unfolding Money_ToDouble_def by (rule double_bridge_close [OF False assms])
    have "0 < d" if "0 < mint m"
    proof -
      have "of_int 1 \<le> (of_int (mint m) :: rat)" using that by (simp only: of_int_le_iff)
      then have "0 < d * 100000000" using d(2) by (simp add: abs_if split: if_splits)
      then show ?thesis by simp
    qed
    then show ?thesis using payload_of_close [OF d(3,4) assms] d(1) by (simp add: f64_gt_def)
  qed
  then show "money_from_double_payload (Money_ToDouble m) = mv m"
    "0 < mint m \<Longrightarrow> f64_gt (Money_ToDouble m) (F64_Fin 0)" by simp_all
qed

text \<open>The \<^verbatim>\<open>double\<close> bridge is lossless on amounts of at most \<open>2 ^ 50\<close> units (about eleven million
  at eight decimals): converting such an amount to a \<^verbatim>\<open>double\<close> and back gives the same payload,
  whatever the three roundings do.\<close>

theorem money_double_round_trip:
  assumes "\<bar>mint m\<bar> \<le> 2 ^ 50"
  shows "money_from_double_payload (Money_ToDouble m) = mv m"
  by (rule money_double_bridge(1) [OF assms])

lemma money_double_round_trip_witness:
  "money_from_double_payload (Money_ToDouble (Money 654321001234567)) = 654321001234567"
  using money_double_round_trip [of "Money 654321001234567"] by simp

end
