(* ===== verification/Order_Manager.thy ===== *)
theory Order_Manager
  imports Event_Log Binary64
begin

text \<open>
  The order management state machine of \<^verbatim>\<open>src/CoreFrameworks/OrderManager.hpp\<close>: submission, order
  ids, result transport, fills, the in-flight table and the ledger.  The environment holds what
  the code gets from outside: the clocks, the exchange adapter's two submit pointers (\<open>None\<close> when
  null), the fill sink it was wired with and the effect of an append on the event log.  Prints,
  the trade-log and calibration sinks and the unused padding are left out.  The state record is
  extensible, so that the engine's composer can add its own fields.
\<close>

unbundle bit_operations_syntax

subsection \<open>Commands\<close>

definition CMD_FILL_RESULT :: u8 where "CMD_FILL_RESULT = 0"
definition CMD_WS_FILL :: u8 where "CMD_WS_FILL = 1"
definition CMD_RECONCILE :: u8 where "CMD_RECONCILE = 2"

record OrderResult =
  rs_success :: int
  rs_exchange_id :: string
  rs_avg_fill_price :: f64
  rs_fill_qty :: f64
  rs_error_code :: int
  rs_error_message :: string
  rs_is_maker :: u8
  rs_order_complete :: u8
  rs_venue_terminal :: u8
  rs_commission :: f64
  rs_commission_asset :: string

definition result_zero :: OrderResult where
  "result_zero = \<lparr>rs_success = 0, rs_exchange_id = [], rs_avg_fill_price = F64_Fin 0, rs_fill_qty = F64_Fin 0,
     rs_error_code = 0, rs_error_message = [], rs_is_maker = 0, rs_order_complete = 0, rs_venue_terminal = 0,
     rs_commission = F64_Fin 0, rs_commission_asset = []\<rparr>"

record Command =
  cm_type :: u8
  cm_order_id :: u64
  cm_result :: OrderResult

record SubmitCommand =
  sc_portfolio_slot :: int
  sc_order_type :: OrderType
  sc_qty :: Money
  sc_leg :: u8
  sc_node_cfg :: "PerNodeCfg option"
  sc_strategy_id :: u8
  sc_intended_tp :: Money
  sc_intended_sl :: Money
  sc_event_price :: Money
  sc_tp_pct :: Money

definition SubmitCommand_make :: "int \<Rightarrow> OrderType \<Rightarrow> Money \<Rightarrow> u8 \<Rightarrow> PerNodeCfg option \<Rightarrow> SubmitCommand" where
  "SubmitCommand_make slot t q lg cfg = \<lparr>sc_portfolio_slot = slot, sc_order_type = t, sc_qty = q, sc_leg = lg,
     sc_node_cfg = cfg, sc_strategy_id = 0xFF, sc_intended_tp = Money_Zero, sc_intended_sl = Money_Zero,
     sc_event_price = Money_Zero, sc_tp_pct = Money_Zero\<rparr>"

record FillEvent =
  fe_slot :: int
  fe_node :: int
  fe_is_sell :: bool
  fe_order_complete :: bool
  fe_is_maker :: bool
  fe_slot_flat :: bool
  fe_seq :: u64
  fe_qty :: Money
  fe_price :: Money
  fe_fee :: Money
  fe_net :: Money
  fe_notional :: Money
  fe_entry_fee_leg :: Money
  fe_venue_fee_reserved :: Money

definition FillEvent_Make ::
  "int \<Rightarrow> int \<Rightarrow> bool \<Rightarrow> bool \<Rightarrow> bool \<Rightarrow> bool \<Rightarrow> u64 \<Rightarrow> Money \<Rightarrow> Money \<Rightarrow> Money \<Rightarrow> Money \<Rightarrow> Money \<Rightarrow> Money \<Rightarrow> FillEvent" where
  "FillEvent_Make slot node is_sell order_complete is_maker slot_flat seq qty price fee net notional entry_fee_leg =
     \<lparr>fe_slot = slot, fe_node = node, fe_is_sell = is_sell, fe_order_complete = order_complete,
      fe_is_maker = is_maker, fe_slot_flat = slot_flat, fe_seq = seq, fe_qty = qty, fe_price = price,
      fe_fee = fee, fe_net = net, fe_notional = notional, fe_entry_fee_leg = entry_fee_leg,
      fe_venue_fee_reserved = Money_Zero\<rparr>"

subsection \<open>Order ids\<close>

definition ORDER_ID_SLOT_SHIFT :: nat where "ORDER_ID_SLOT_SHIFT = 60"
definition ORDER_ID_NODE_SHIFT :: nat where "ORDER_ID_NODE_SHIFT = 56"
definition ORDER_ID_LANE_MASK :: u64 where "ORDER_ID_LANE_MASK = 0xF"
definition ORDER_ID_COUNTER_MASK :: u64 where "ORDER_ID_COUNTER_MASK = push_bit ORDER_ID_NODE_SHIFT 1 - 1"

definition OMS_OrderIdSlot :: "u64 \<Rightarrow> nat" where
  "OMS_OrderIdSlot order_id = unat (drop_bit ORDER_ID_SLOT_SHIFT order_id AND ORDER_ID_LANE_MASK)"

definition OMS_OrderIdNode :: "u64 \<Rightarrow> nat" where
  "OMS_OrderIdNode order_id = unat (drop_bit ORDER_ID_NODE_SHIFT order_id AND ORDER_ID_LANE_MASK)"

definition encode_order_id :: "u64 \<Rightarrow> int \<Rightarrow> nat \<Rightarrow> u64" where
  "encode_order_id oid submit_node slot = (oid AND ORDER_ID_COUNTER_MASK)
     OR push_bit ORDER_ID_NODE_SHIFT (word_of_int submit_node) OR push_bit ORDER_ID_SLOT_SHIFT (word_of_nat slot)"

subsection \<open>State\<close>

definition MAX_INFLIGHT_ORDERS :: nat where "MAX_INFLIGHT_ORDERS = 16"
definition MAX_EXECUTION_NODES :: nat where "MAX_EXECUTION_NODES = 16"
definition OMS_STALE_INFLIGHT_WARN_US :: u64 where "OMS_STALE_INFLIGHT_WARN_US = 10000000"

definition MASK_OMS_STATE_LIVE_TRADING :: u8 where "MASK_OMS_STATE_LIVE_TRADING = BITMAP_BIT 0"
definition MASK_OMS_STATE_PARTIAL_EXIT_ENABLED :: u8 where "MASK_OMS_STATE_PARTIAL_EXIT_ENABLED = BITMAP_BIT 1"
definition MASK_OMS_STATE_KILL_SWITCH_TRIPPED :: u8 where "MASK_OMS_STATE_KILL_SWITCH_TRIPPED = BITMAP_BIT 2"
definition SHIFT_OMS_STATE_EVENT_LOG_MODE :: nat where "SHIFT_OMS_STATE_EVENT_LOG_MODE = 3"
definition MASK_OMS_STATE_EVENT_LOG_MODE :: u8 where
  "MASK_OMS_STATE_EVENT_LOG_MODE = push_bit SHIFT_OMS_STATE_EVENT_LOG_MODE (push_bit 2 1 - 1)"

record OrderManagerState =
  om_orders :: "Order list"
  om_order_bitmap :: u16
  om_next_order_id :: u64
  om_result_rings :: "Command spsc_ring list"
  om_ws_result_queue :: "Command spsc_ring"
  om_reconcile_queue :: "Command spsc_ring"
  om_submit_queues :: "SubmitCommand spsc_ring list"
  om_event_log :: OrderEventLog
  om_oe_rings :: "OrderEvent spsc_ring list"
  om_portfolio :: Portfolio
  om_balance :: Money
  om_realized_pnl :: Money
  om_maker_fills_count :: u32
  om_taker_fills_count :: u32
  om_total_maker_fees :: Money
  om_total_taker_fees :: Money
  om_total_fees :: Money
  om_last_closed_mask :: u16
  om_last_opened_mask :: u16
  om_last_realized_return :: "f64 list"
  om_last_was_win_bitmap :: u16
  om_last_exit_fill_price :: "Money list"
  om_last_exit_fee :: "Money list"
  om_last_trade_net :: "Money list"
  om_last_trade_notional :: "Money list"
  om_bandit_reward_bps :: "f64 list"
  om_oms_state_flags :: u8
  om_ks_peak_balance :: Money
  om_total_submitted :: u64
  om_total_filled :: u64
  om_total_rejected :: u64
  om_paper_session_start_us :: u64
  om_ks_min_balance :: Money
  om_ks_max_drawdown_pct :: Money
  om_ks_trips_total :: u64
  om_last_exit_predicted_bitmap :: u16
  om_last_exit_predicted_p :: "f64 list"
  om_last_exit_predicted_meta :: "u8 list"
  om_flatten_pending :: int
  om_recovery_until_us :: u64
  om_last_seen_trade_id :: u64
  om_agg_attached :: bool
  om_fill_emit_seq :: "u64 list"

type_synonym 'a oms = "'a OrderManagerState_scheme"

record 'a oms_env =
  env_now_us :: u64
  env_clock :: "u64 option"
  env_submit_buy :: "(u64 \<Rightarrow> f64 \<Rightarrow> bool) option"
  env_submit_sell :: "(u64 \<Rightarrow> f64 \<Rightarrow> bool) option"
  env_append :: "OrderEventLog \<Rightarrow> OrderEvent \<Rightarrow> OrderEventLog"
  env_emit :: "'a oms \<Rightarrow> FillEvent \<Rightarrow> 'a oms"

definition set_order :: "nat \<Rightarrow> (Order \<Rightarrow> Order) \<Rightarrow> 'a oms \<Rightarrow> 'a oms" where
  "set_order i f oms = oms\<lparr>om_orders := (om_orders oms)[i := f (om_orders oms ! i)]\<rparr>"

definition order_at :: "'a oms \<Rightarrow> nat \<Rightarrow> Order" where
  "order_at oms i = om_orders oms ! i"

definition oms_live :: "'a oms \<Rightarrow> bool" where
  "oms_live oms = BITMAP_IS_SET (om_oms_state_flags oms) MASK_OMS_STATE_LIVE_TRADING"

definition oms_partial_on :: "'a oms \<Rightarrow> nat" where
  "oms_partial_on oms = of_bool (BITMAP_IS_SET (om_oms_state_flags oms) MASK_OMS_STATE_PARTIAL_EXIT_ENABLED)"

definition oms_event_log_on :: "'a oms \<Rightarrow> bool" where
  "oms_event_log_on oms = MBS_EQ (om_oms_state_flags oms) MASK_OMS_STATE_EVENT_LOG_MODE SHIFT_OMS_STATE_EVENT_LOG_MODE 1"

text \<open>\<^verbatim>\<open>BITMAP_SLOT_NODE\<close> on a signed slot: an arithmetic shift.\<close>

definition slot_node :: "int \<Rightarrow> nat \<Rightarrow> int" where
  "slot_node slot partial_on = drop_bit partial_on slot"

subsection \<open>Result transport\<close>

definition OMS_ResultPush :: "'a oms \<Rightarrow> Command \<Rightarrow> bool \<times> 'a oms" where
  "OMS_ResultPush oms cmd =
     (let nn = OMS_OrderIdNode (cm_order_id cmd);
          (ok, r) = SPSCRing_TryPush (om_result_rings oms ! nn) cmd
      in (ok, oms\<lparr>om_result_rings := (om_result_rings oms)[nn := r]\<rparr>))"

text \<open>The scan over the nodes, from \<open>n\<close> on with \<open>k\<close> nodes left.\<close>

fun result_pop_from :: "nat \<Rightarrow> nat \<Rightarrow> 'a oms \<Rightarrow> Command option \<times> 'a oms" where
  "result_pop_from n 0 oms = (None, oms)"
| "result_pop_from n (Suc k) oms =
     (case SPSCRing_TryPop (om_result_rings oms ! n) of
        (Some cmd, r) \<Rightarrow> (Some cmd, oms\<lparr>om_result_rings := (om_result_rings oms)[n := r]\<rparr>)
      | (None, r) \<Rightarrow> result_pop_from (n + 1) k (oms\<lparr>om_result_rings := (om_result_rings oms)[n := r]\<rparr>))"

definition OMS_ResultPop :: "'a oms \<Rightarrow> Command option \<times> 'a oms" where
  "OMS_ResultPop oms = result_pop_from 0 MAX_EXECUTION_NODES oms"

definition OrderManager_FillResultCallback :: "'a oms \<Rightarrow> u64 \<Rightarrow> OrderResult \<Rightarrow> 'a oms" where
  "OrderManager_FillResultCallback oms client_id result =
     snd (OMS_ResultPush oms \<lparr>cm_type = CMD_FILL_RESULT, cm_order_id = client_id, cm_result = result\<rparr>)"

subsection \<open>Submission\<close>

definition NULL_PER_NODE_CFG_STUB :: PerNodeCfg where
  "NULL_PER_NODE_CFG_STUB = \<lparr>nc_fee_rate_maker = Money 0, nc_fee_rate_taker = Money 0, nc_slippage_pct = Money 0\<rparr>"

definition submitted_order :: "u64 \<Rightarrow> SubmitCommand \<Rightarrow> u64 \<Rightarrow> Order \<Rightarrow> Order" where
  "submitted_order now_us cmd oid od =
     (let od = Order_Init od oid (sc_portfolio_slot cmd) (sc_order_type cmd);
          od = od\<lparr>o_submitted_at_us := now_us, o_requested_qty := sc_qty cmd, o_intended_tp := sc_intended_tp cmd,
                  o_intended_sl := sc_intended_sl cmd, o_strategy_id := sc_strategy_id cmd,
                  o_event_price := sc_event_price cmd\<rparr>;
          od = Order_SetLeg od (sc_leg cmd);
          od = Order_SetState od ORDER_SUBMITTED;
          effective_cfg = (case sc_node_cfg cmd of Some cfg \<Rightarrow> cfg | None \<Rightarrow> NULL_PER_NODE_CFG_STUB);
          od = Order_BindPreResolved od effective_cfg
      in od\<lparr>o_pre_resolved := (o_pre_resolved od)\<lparr>pr_tp_pct := sc_tp_pct cmd\<rparr>\<rparr>)"

definition paper_fill_price :: "OrderType \<Rightarrow> Money \<Rightarrow> Money \<Rightarrow> Money" where
  "paper_fill_price type event_price slippage_pct =
     (let a9_slip = Money_Mul event_price slippage_pct;
          a9_buy_fill = Money_Add event_price a9_slip;
          a9_sell_fill = Money_Sub event_price a9_slip
      in if type = ORDER_MARKET_SELL then a9_sell_fill else a9_buy_fill)"

definition paper_result :: "OrderType \<Rightarrow> Money \<Rightarrow> Money \<Rightarrow> Money \<Rightarrow> OrderResult" where
  "paper_result type event_price slippage_pct qty =
     result_zero\<lparr>rs_success := 1,
       rs_avg_fill_price := Money_ToDouble (paper_fill_price type event_price slippage_pct),
       rs_fill_qty := Money_ToDouble qty, rs_order_complete := 1, rs_exchange_id := ''PAPER''\<rparr>"

definition reject_submit :: "nat \<Rightarrow> 'a oms \<Rightarrow> 'a oms" where
  "reject_submit slot oms =
     (let oms = set_order slot (\<lambda>od. Order_SetState od ORDER_REJECTED) oms
      in oms\<lparr>om_total_rejected := om_total_rejected oms + 1,
             om_order_bitmap := BITMAP_CLR (om_order_bitmap oms) (BITMAP_BIT slot)\<rparr>)"

definition submit_id :: "'a oms \<Rightarrow> SubmitCommand \<Rightarrow> nat \<Rightarrow> u64" where
  "submit_id oms cmd slot =
     encode_order_id (om_next_order_id oms) (slot_node (sc_portfolio_slot cmd) (oms_partial_on oms)) slot"

text \<open>The order entered in a free slot, the id counter advanced.\<close>

definition submit_entered :: "'a oms_env \<Rightarrow> 'a oms \<Rightarrow> SubmitCommand \<Rightarrow> nat \<Rightarrow> 'a oms" where
  "submit_entered env oms cmd slot =
     (let oms' = set_order slot (submitted_order (env_now_us env) cmd (submit_id oms cmd slot))
                   (oms\<lparr>om_next_order_id := om_next_order_id oms + 1,
                        om_order_bitmap := om_order_bitmap oms OR BITMAP_BIT slot\<rparr>)
      in oms'\<lparr>om_total_submitted := om_total_submitted oms' + 1\<rparr>)"

text \<open>The adapter call: false when a pointer is null or the enqueue fails.\<close>

definition adapter_submit :: "'a oms_env \<Rightarrow> SubmitCommand \<Rightarrow> u64 \<Rightarrow> bool" where
  "adapter_submit env cmd oid =
     (case (env_submit_buy env, env_submit_sell env) of
        (Some buy, Some sell) \<Rightarrow>
          (if sc_order_type cmd = ORDER_MARKET_BUY then buy oid (Money_ToDouble (sc_qty cmd))
           else sell oid (Money_ToDouble (sc_qty cmd)))
      | _ \<Rightarrow> False)"

definition OrderManager_Submit :: "'a oms_env \<Rightarrow> 'a oms \<Rightarrow> SubmitCommand \<Rightarrow> u64 \<times> 'a oms" where
  "OrderManager_Submit env oms cmd =
     (let free_mask = NOT (om_order_bitmap oms)
      in if free_mask = 0 then (0, oms\<lparr>om_next_order_id := om_next_order_id oms + 1\<rparr>)
         else
           let slot = BITMAP_FIRST (ucast free_mask :: u32);
               oid = submit_id oms cmd slot;
               oms = submit_entered env oms cmd slot
           in if \<not> oms_live oms
              then let res = paper_result (sc_order_type cmd) (sc_event_price cmd)
                         (pr_slippage_pct (o_pre_resolved (order_at oms slot))) (sc_qty cmd)
                   in (oid, snd (OMS_ResultPush oms \<lparr>cm_type = CMD_FILL_RESULT, cm_order_id = oid, cm_result = res\<rparr>))
              else if adapter_submit env cmd oid then (oid, oms) else (0, reject_submit slot oms))"

definition OMS_PushSubmit :: "'a oms \<Rightarrow> SubmitCommand \<Rightarrow> bool \<times> 'a oms" where
  "OMS_PushSubmit oms cmd =
     (if sc_portfolio_slot cmd < 0 \<or> int MAX_PORTFOLIO_POSITIONS \<le> sc_portfolio_slot cmd then (False, oms)
      else let s = nat (sc_portfolio_slot cmd);
               (pushed, r) = SPSCRing_TryPush (om_submit_queues oms ! s) cmd
           in (pushed, oms\<lparr>om_submit_queues := (om_submit_queues oms)[s := r]\<rparr>))"

text \<open>Draining one submit queue; the fuel bounds the pops, a queue of \<open>n\<close> commands needs \<open>n + 1\<close>.\<close>

fun drain_submit_queue :: "nat \<Rightarrow> 'a oms_env \<Rightarrow> nat \<Rightarrow> nat \<times> 'a oms \<Rightarrow> (nat \<times> 'a oms) option" where
  "drain_submit_queue 0 env s st = None"
| "drain_submit_queue (Suc n) env s (drained, oms) =
     (case SPSCRing_TryPop (om_submit_queues oms ! s) of
        (None, r) \<Rightarrow> Some (drained, oms\<lparr>om_submit_queues := (om_submit_queues oms)[s := r]\<rparr>)
      | (Some cmd, r) \<Rightarrow> drain_submit_queue n env s
          (drained + 1, snd (OrderManager_Submit env (oms\<lparr>om_submit_queues := (om_submit_queues oms)[s := r]\<rparr>) cmd)))"

definition OMS_DrainSubmit :: "nat \<Rightarrow> 'a oms_env \<Rightarrow> 'a oms \<Rightarrow> int \<Rightarrow> (nat \<times> 'a oms) option" where
  "OMS_DrainSubmit fuel env oms num_slots =
     (let m = (if int MAX_PORTFOLIO_POSITIONS < num_slots then MAX_PORTFOLIO_POSITIONS else nat num_slots)
      in fold (\<lambda>s st. case st of None \<Rightarrow> None | Some st \<Rightarrow> drain_submit_queue fuel env s st) [0..<m] (Some (0, oms)))"

subsection \<open>The ledger\<close>

definition OrderManager_AccountMakerTakerFee :: "'a oms \<Rightarrow> bool \<Rightarrow> Money \<Rightarrow> 'a oms" where
  "OrderManager_AccountMakerTakerFee oms maker fee =
     oms\<lparr>om_total_fees := Money_Add (om_total_fees oms) fee,
        om_maker_fills_count := om_maker_fills_count oms + of_bool maker,
        om_taker_fills_count := om_taker_fills_count oms + of_bool (\<not> maker),
        om_total_maker_fees := (if maker then Money_Add (om_total_maker_fees oms) fee else om_total_maker_fees oms),
        om_total_taker_fees := (if maker then om_total_taker_fees oms else Money_Add (om_total_taker_fees oms) fee)\<rparr>"

definition OrderManager_LedgerApplyFill :: "'a oms \<Rightarrow> FillEvent \<Rightarrow> 'a oms" where
  "OrderManager_LedgerApplyFill oms fe =
     (let oms = OrderManager_AccountMakerTakerFee oms (fe_is_maker fe) (fe_fee fe);
          oms = oms\<lparr>om_balance := Money_Add (om_balance oms) (fe_net fe),
                    om_realized_pnl := Money_Add (om_realized_pnl oms) (fe_net fe)\<rparr>
      in oms\<lparr>om_ks_peak_balance := Money_Max (om_ks_peak_balance oms) (om_balance oms)\<rparr>)"

definition OrderManager_FillEmitDirect :: "'a oms \<Rightarrow> FillEvent \<Rightarrow> 'a oms" where
  "OrderManager_FillEmitDirect oms fe = OrderManager_LedgerApplyFill oms fe"

subsection \<open>The event funnel\<close>

fun drain_event_ring :: "nat \<Rightarrow> 'a oms_env \<Rightarrow> nat \<Rightarrow> nat \<times> 'a oms \<Rightarrow> nat \<times> 'a oms" where
  "drain_event_ring 0 env n st = st"
| "drain_event_ring (Suc fuel) env n (drained, oms) =
     (case SPSCRing_TryPop (om_oe_rings oms ! n) of
        (None, r) \<Rightarrow> (drained, oms\<lparr>om_oe_rings := (om_oe_rings oms)[n := r]\<rparr>)
      | (Some ev, r) \<Rightarrow> drain_event_ring fuel env n
          (drained + 1, oms\<lparr>om_oe_rings := (om_oe_rings oms)[n := r],
                            om_event_log := env_append env (om_event_log oms) ev\<rparr>))"

text \<open>The drainer is the only producer of these rings, so one pass of ring size plus one pops empties each.\<close>

definition OMS_EventFunnelDrain :: "'a oms_env \<Rightarrow> 'a oms \<Rightarrow> nat \<times> 'a oms" where
  "OMS_EventFunnelDrain env oms =
     fold (\<lambda>n st. drain_event_ring (ring_N (om_oe_rings oms ! n) + 1) env n st) [0..<MAX_EXECUTION_NODES] (0, oms)"

definition OMS_EventFunnelPush :: "'a oms_env \<Rightarrow> 'a oms \<Rightarrow> OrderEvent \<Rightarrow> int \<Rightarrow> 'a oms" where
  "OMS_EventFunnelPush env oms ev slot =
     (if \<not> om_agg_attached oms then oms\<lparr>om_event_log := env_append env (om_event_log oms) ev\<rparr>
      else let nn = nat (if 0 \<le> slot then slot_node slot (oms_partial_on oms) else 0);
               (ok, r) = SPSCRing_TryPush (om_oe_rings oms ! nn) ev;
               oms = oms\<lparr>om_oe_rings := (om_oe_rings oms)[nn := r]\<rparr>
           in if ok then oms
              else let oms = snd (OMS_EventFunnelDrain env oms);
                       (_, r) = SPSCRing_TryPush (om_oe_rings oms ! nn) ev
                   in oms\<lparr>om_oe_rings := (om_oe_rings oms)[nn := r]\<rparr>)"

end
