(* ===== verification/Order_Fills.thy ===== *)
theory Order_Fills
  imports Order_Manager
begin

text \<open>
  Fills, results and the tick of \<^verbatim>\<open>src/CoreFrameworks/OrderManager.hpp\<close>: the buy and sell handlers and
  their dispatch, the processing of one result command, the disposition of an order the venue ended
  early, the free-cash estimate and the drains of one tick.
\<close>

unbundle bit_operations_syntax

subsection \<open>Fill handlers\<close>

definition set_nth :: "nat \<Rightarrow> 'b \<Rightarrow> 'b list \<Rightarrow> 'b list" where
  "set_nth i x xs = xs[i := x]"

definition emit_fill :: "'a oms_env \<Rightarrow> 'a oms \<Rightarrow> Order \<Rightarrow> bool \<Rightarrow> bool \<Rightarrow>
    Money \<Rightarrow> Money \<Rightarrow> Money \<Rightarrow> Money \<Rightarrow> Money \<Rightarrow> Money \<Rightarrow> 'a oms" where
  "emit_fill env oms od is_sell slot_flat qty price fee net notional entry_fee_leg =
     (let fill_node = slot_node (o_portfolio_slot od) (oms_partial_on oms);
          seq = om_fill_emit_seq oms ! nat fill_node + 1;
          oms = oms\<lparr>om_fill_emit_seq := set_nth (nat fill_node) seq (om_fill_emit_seq oms)\<rparr>
      in env_emit env oms (FillEvent_Make (o_portfolio_slot od) fill_node is_sell
           (Order_GetState od = ORDER_FILLED) (Order_GetIsMaker od) slot_flat seq qty price fee net notional entry_fee_leg))"

definition per_fill_tp :: "Order \<Rightarrow> Money \<Rightarrow> Money" where
  "per_fill_tp od fill_price =
     (if \<not> Money_IsZero (pr_tp_pct (o_pre_resolved od))
      then Money_Add fill_price (Money_Mul fill_price (pr_tp_pct (o_pre_resolved od)))
      else o_intended_tp od)"

definition handle_buy_fill :: "'a oms_env \<Rightarrow> 'a oms \<Rightarrow> Order \<Rightarrow> Money \<Rightarrow> Money \<Rightarrow> Money \<Rightarrow> 'a oms" where
  "handle_buy_fill env oms od fill_price fill_qty booked_fee =
     (let slot = nat (o_portfolio_slot od);
          oms = emit_fill env oms od False False fill_qty fill_price booked_fee Money_Zero
                  (Money_Mul fill_price fill_qty) Money_Zero;
          pf = (if Portfolio_SlotActive (om_portfolio oms) slot
                then Portfolio_AccumulateSlotLeg (om_portfolio oms) slot fill_price fill_qty booked_fee
                else Portfolio_OpenSlot_legacy (env_clock env) (om_portfolio oms) slot fill_price fill_qty
                       (per_fill_tp od fill_price) (o_intended_sl od) booked_fee)
      in oms\<lparr>om_portfolio := pf, om_last_opened_mask := om_last_opened_mask oms OR BITMAP_BIT slot\<rparr>)"

definition realized_return :: "Money \<Rightarrow> Money \<Rightarrow> f64 option" where
  "realized_return entry_price exit_price =
     (let entry_d = Money_ToDouble entry_price; exit_d = Money_ToDouble exit_price
      in if f64_gt entry_d (F64_Fin 0) then Some (f64_div (f64_sub exit_d entry_d) entry_d) else None)"

definition trade_bps :: "Money \<Rightarrow> Money \<Rightarrow> f64" where
  "trade_bps trade_net trade_notional =
     (let tnet_d = Money_ToDouble trade_net; tnotl_d = Money_ToDouble trade_notional
      in if f64_gt tnotl_d (F64_Fin 0) then f64_mul (f64_div tnet_d tnotl_d) (F64_Fin 10000) else F64_Fin 0)"

text \<open>The part of a sell after its fill event: per-slot memory of the trade.\<close>

definition sell_slot_memory :: "nat \<Rightarrow> bool \<Rightarrow> Money \<Rightarrow> Money \<Rightarrow> 'a oms \<Rightarrow> 'a oms" where
  "sell_slot_memory pslot leg_flat fill_price exit_fee oms =
     (let win_bit = BITMAP_BIT pslot;
          flat_sel = - of_bool leg_flat;
          was_win_mask = (if Money_Gt (om_last_trade_net oms ! pslot) Money_Zero then win_bit else 0) AND flat_sel;
          bps = trade_bps (om_last_trade_net oms ! pslot) (om_last_trade_notional oms ! pslot)
      in oms\<lparr>om_last_exit_fill_price := set_nth pslot fill_price (om_last_exit_fill_price oms),
             om_last_exit_fee := set_nth pslot exit_fee (om_last_exit_fee oms),
             om_last_was_win_bitmap := (om_last_was_win_bitmap oms AND NOT (win_bit AND flat_sel)) OR was_win_mask,
             om_bandit_reward_bps := (if leg_flat then set_nth pslot bps (om_bandit_reward_bps oms)
                                      else om_bandit_reward_bps oms)\<rparr>)"

definition sell_trade_memory :: "nat \<Rightarrow> bool \<Rightarrow> f64 option \<Rightarrow> Money \<Rightarrow> Money \<Rightarrow> 'a oms \<Rightarrow> 'a oms" where
  "sell_trade_memory pslot leg_flat ret net notional oms =
     oms\<lparr>om_last_realized_return := (case ret of Some r \<Rightarrow> set_nth pslot r (om_last_realized_return oms)
                                     | None \<Rightarrow> om_last_realized_return oms),
         om_last_closed_mask := om_last_closed_mask oms OR (if ret \<noteq> None \<and> leg_flat then BITMAP_BIT pslot else 0),
         om_last_trade_net := set_nth pslot (Money_Add (om_last_trade_net oms ! pslot) net) (om_last_trade_net oms),
         om_last_trade_notional := set_nth pslot (Money_Add (om_last_trade_notional oms ! pslot) notional)
           (om_last_trade_notional oms)\<rparr>"

text \<open>The money of one sell leg: its net, the entry fee it carries, and the book after it.\<close>

definition sell_leg :: "Portfolio \<Rightarrow> nat \<Rightarrow> Money \<Rightarrow> Money \<Rightarrow> Money \<Rightarrow> Money \<times> Money \<times> Portfolio" where
  "sell_leg pf pslot fill_price q_leg exit_fee =
     (let pos = pf_positions pf ! pslot;
          (entry_fee_leg, fee_left) = Portfolio_ConsumeEntryFeeLeg (p_entry_fee pos) q_leg (p_quantity pos);
          pf = upd_pos pf pslot (\<lambda>p. p\<lparr>p_entry_fee := fee_left\<rparr>);
          (gross, pf) = Portfolio_CloseSlotLeg pf pslot fill_price q_leg;
          total_fee = Money_Add entry_fee_leg exit_fee
      in (Money_Sub gross total_fee, entry_fee_leg, pf))"

definition sell_book :: "'a oms_env \<Rightarrow> 'a oms \<Rightarrow> Order \<Rightarrow> Money \<Rightarrow> Money \<Rightarrow> Money \<Rightarrow> 'a oms" where
  "sell_book env oms od fill_price q_leg booked_fee =
     (let pslot = nat (o_portfolio_slot od);
          pos = pf_positions (om_portfolio oms) ! pslot;
          leg_flat = Money_Eq q_leg (p_quantity pos);
          (net, entry_fee_leg, pf) = sell_leg (om_portfolio oms) pslot fill_price q_leg booked_fee;
          notional = Money_Mul (p_entry_price pos) q_leg;
          oms = sell_trade_memory pslot leg_flat (realized_return (p_entry_price pos) fill_price) net notional
                  (oms\<lparr>om_portfolio := pf\<rparr>);
          oms = emit_fill env oms od True leg_flat q_leg fill_price booked_fee net notional entry_fee_leg
      in sell_slot_memory pslot leg_flat fill_price booked_fee oms)"

definition handle_sell_fill :: "'a oms_env \<Rightarrow> 'a oms \<Rightarrow> Order \<Rightarrow> Money \<Rightarrow> Money \<Rightarrow> Money \<Rightarrow> 'a oms" where
  "handle_sell_fill env oms od fill_price fill_qty booked_fee =
     (let pslot = nat (o_portfolio_slot od)
      in if \<not> Portfolio_SlotActive (om_portfolio oms) pslot then oms
         else let pos_qty = p_quantity (pf_positions (om_portfolio oms) ! pslot);
                  q_leg = (if Money_Gt fill_qty pos_qty then pos_qty else fill_qty)
              in if Money_IsZero q_leg then oms else sell_book env oms od fill_price q_leg booked_fee)"

definition g_fill_dispatch :: "OrderType \<Rightarrow> 'a oms_env \<Rightarrow> 'a oms \<Rightarrow> Order \<Rightarrow> Money \<Rightarrow> Money \<Rightarrow> Money \<Rightarrow> 'a oms" where
  "g_fill_dispatch t = (case t of ORDER_MARKET_BUY \<Rightarrow> handle_buy_fill | ORDER_MARKET_SELL \<Rightarrow> handle_sell_fill
     | ORDER_LIMIT_BUY \<Rightarrow> handle_buy_fill | ORDER_LIMIT_SELL \<Rightarrow> handle_sell_fill)"

definition booked_fee_of :: "Order \<Rightarrow> Money \<Rightarrow> Money \<Rightarrow> f64 \<Rightarrow> string \<Rightarrow> Money" where
  "booked_fee_of od fill_price fill_qty venue_commission venue_commission_asset =
     (let computed_fee = Money_Mul (Money_Mul fill_price fill_qty) (pr_fee_rate (o_pre_resolved od))
      in if f64_gt venue_commission (F64_Fin 0) \<and> venue_commission_asset = ''USDT''
         then Money (money_from_double_payload venue_commission) else computed_fee)"

definition fill_event_of :: "Order \<Rightarrow> Money \<Rightarrow> Money \<Rightarrow> Money \<Rightarrow> OrderEvent" where
  "fill_event_of od fill_price fill_qty booked_fee =
     OrderEvent_MakeFill (o_id od) (o_submitted_at_us od) (Order_GetType od) (o_portfolio_slot od)
       fill_price fill_qty (o_intended_tp od) (o_intended_sl od) booked_fee (of_bool (Order_GetState od = ORDER_FILLED))"

definition OrderManager_HandleFill :: "'a oms_env \<Rightarrow> 'a oms \<Rightarrow> Order \<Rightarrow> Money \<Rightarrow> Money \<Rightarrow> f64 \<Rightarrow> string \<Rightarrow> 'a oms" where
  "OrderManager_HandleFill env oms od fill_price fill_qty venue_commission venue_commission_asset =
     (if o_portfolio_slot od < 0 \<or> int MAX_PORTFOLIO_POSITIONS \<le> o_portfolio_slot od then oms
      else let booked_fee = booked_fee_of od fill_price fill_qty venue_commission venue_commission_asset;
               oms = (if oms_event_log_on oms
                      then OMS_EventFunnelPush env oms (fill_event_of od fill_price fill_qty booked_fee) (o_portfolio_slot od)
                      else oms)
           in g_fill_dispatch (Order_GetType od) env oms od fill_price fill_qty booked_fee)"

subsection \<open>Results\<close>

text \<open>\<^verbatim>\<open>printf("%.8f")\<close> of a finite \<^verbatim>\<open>double\<close>: the nearest eight-decimal text, ties to even.\<close>

fun dec_nat :: "nat \<Rightarrow> string" where
  "dec_nat n = (if n < 10 then [char_of (48 + n)] else dec_nat (n div 10) @ [char_of (48 + n mod 10)])"

declare dec_nat.simps [simp del]

definition printf_f8 :: "f64 \<Rightarrow> string" where
  "printf_f8 x = (case x of
       F64_NaN \<Rightarrow> ''nan''
     | F64_Inf s \<Rightarrow> (if s then ''-inf'' else ''inf'')
     | F64_Fin q \<Rightarrow>
         let m = nat (rat_half_even (\<bar>q\<bar> * 100000000)); f = dec_nat (m mod 100000000)
         in (if q < 0 then ''-'' else []) @ dec_nat (m div 100000000) @ ''.'' @ replicate (8 - length f) (CHR ''0'') @ f)"

definition terminal_event :: "Order \<Rightarrow> Money \<Rightarrow> OrderEvent" where
  "terminal_event od remaining =
     event_zero\<lparr>ev_type := OEVT_TERMINAL_INCOMPLETE, ev_order_id := o_id od, ev_timestamp_us := o_submitted_at_us od,
       ev_order_type := order_type_byte (Order_GetType od), ev_node_id := o_portfolio_slot od,
       ev_qty := o_filled_qty od, ev_reason := c_copy 31 (''term-incomplete rem='' @ printf_f8 (Money_ToDouble remaining))\<rparr>"

text \<open>The disposition of an order the venue ended short of filled.\<close>

definition terminal_incomplete :: "'a oms_env \<Rightarrow> nat \<Rightarrow> 'a oms \<Rightarrow> 'a oms" where
  "terminal_incomplete env slot oms =
     (let oms = set_order slot (\<lambda>od. Order_SetState od ORDER_CANCELED) oms;
          dead = order_at oms slot;
          tslot = o_portfolio_slot dead;
          remaining = (if Portfolio_SlotActive (om_portfolio oms) (nat tslot) then p_quantity (pf_positions (om_portfolio oms) ! nat tslot)
                       else Money_Zero);
          oms = oms\<lparr>om_order_bitmap := om_order_bitmap oms AND NOT (BITMAP_BIT slot)\<rparr>;
          oms = (if oms_event_log_on oms then OMS_EventFunnelPush env oms (terminal_event dead remaining) tslot else oms)
      in if Order_GetType dead = ORDER_MARKET_SELL \<and> \<not> Money_IsZero remaining
         then let re = (SubmitCommand_make tslot ORDER_MARKET_SELL remaining (word_of_int (tslot AND 1)) None)
                         \<lparr>sc_intended_tp := o_intended_tp dead, sc_intended_sl := o_intended_sl dead,
                          sc_strategy_id := o_strategy_id dead, sc_event_price := o_avg_fill_price dead\<rparr>;
                  (rid, oms) = OrderManager_Submit env oms re;
                  rslot = OMS_OrderIdSlot rid
              in set_order rslot (\<lambda>od. od\<lparr>o_pre_resolved := o_pre_resolved dead\<rparr>) oms
         else oms)"

text \<open>The slot an id names, when it is in use by that very order.\<close>

definition fill_slot :: "'a oms \<Rightarrow> u64 \<Rightarrow> nat option" where
  "fill_slot oms order_id =
     (let slot = OMS_OrderIdSlot order_id
      in if om_order_bitmap oms AND BITMAP_BIT slot = 0 \<or> o_id (order_at oms slot) \<noteq> order_id then None else Some slot)"

definition free_if_terminal :: "nat \<Rightarrow> 'a oms \<Rightarrow> 'a oms" where
  "free_if_terminal slot oms =
     (let term_sel = - of_bool (Order_IsTerminal (order_at oms slot))
      in oms\<lparr>om_order_bitmap := om_order_bitmap oms AND NOT (BITMAP_BIT slot AND term_sel)\<rparr>)"

text \<open>A successful result that carries a price or a quantity: the leg is added to the order, booked
  when its quantity is positive, and the order disposed of when the venue ended it early.\<close>

definition apply_leg :: "'a oms_env \<Rightarrow> nat \<Rightarrow> OrderResult \<Rightarrow> 'a oms \<Rightarrow> 'a oms" where
  "apply_leg env slot r oms =
     (let fill_qty = Money (money_from_double_payload (rs_fill_qty r));
          oms = set_order slot (\<lambda>od. od\<lparr>o_filled_qty := Money_Add (o_filled_qty od) fill_qty\<rparr>) oms;
          oms = set_order slot (\<lambda>od. Order_SetIsMaker od (rs_is_maker r \<noteq> 0)) oms;
          oms = set_order slot (\<lambda>od. Order_SetState od (if rs_order_complete r \<noteq> 0 then ORDER_FILLED else ORDER_PARTIAL)) oms;
          oms = (if Order_GetState (order_at oms slot) = ORDER_FILLED
                 then oms\<lparr>om_total_filled := om_total_filled oms + 1\<rparr> else oms);
          oms = (if f64_gt (rs_fill_qty r) (F64_Fin 0)
                 then OrderManager_HandleFill env oms (order_at oms slot) (o_avg_fill_price (order_at oms slot)) fill_qty
                        (rs_commission r) (rs_commission_asset r)
                 else oms)
      in if rs_venue_terminal r \<noteq> 0 \<and> rs_order_complete r = 0 then terminal_incomplete env slot oms else oms)"

definition process_failure :: "'a oms_env \<Rightarrow> nat \<Rightarrow> OrderResult \<Rightarrow> 'a oms \<Rightarrow> 'a oms" where
  "process_failure env slot r oms =
     (let oms = set_order slot (\<lambda>od. Order_SetState od ORDER_REJECTED) oms;
          oms = oms\<lparr>om_total_rejected := om_total_rejected oms + 1\<rparr>;
          od = order_at oms slot
      in if oms_event_log_on oms
         then OMS_EventFunnelPush env oms (OrderEvent_MakeRejection (o_id od) (o_submitted_at_us od) (Order_GetType od)
                (o_portfolio_slot od) (Some (rs_error_message r))) (o_portfolio_slot od)
         else oms)"

definition OrderManager_ProcessFillCommand :: "'a oms_env \<Rightarrow> 'a oms \<Rightarrow> Command \<Rightarrow> bool \<times> 'a oms" where
  "OrderManager_ProcessFillCommand env oms cmd =
     (if cm_order_id cmd = 0 \<and> cm_type cmd = CMD_WS_FILL then (False, oms)
      else case fill_slot oms (cm_order_id cmd) of
        None \<Rightarrow> (False, oms)
      | Some slot \<Rightarrow>
          let r = cm_result cmd
          in if Order_GetState (order_at oms slot) = ORDER_FILLED then (False, oms)
             else if rs_success r \<noteq> 0 then
               let oms = set_order slot (\<lambda>od. od\<lparr>o_exchange_id := c_copy 63 (rs_exchange_id r)\<rparr>) oms
               in if f64_eq (rs_fill_qty r) (F64_Fin 0) \<and> f64_eq (rs_avg_fill_price r) (F64_Fin 0) \<and> rs_venue_terminal r = 0
                  then (True, if Order_GetState (order_at oms slot) \<noteq> ORDER_PARTIAL
                              then set_order slot (\<lambda>od. Order_SetState od ORDER_ACKNOWLEDGED) oms else oms)
                  else
                    let oms = set_order slot (\<lambda>od. od\<lparr>o_avg_fill_price :=
                                 Money (money_from_double_payload (rs_avg_fill_price r))\<rparr>) oms
                    in if cm_type cmd = CMD_FILL_RESULT \<and> \<not> Money_IsZero (o_filled_qty (order_at oms slot))
                          \<and> f64_gt (rs_fill_qty r) (F64_Fin 0)
                       then (False, oms)
                       else (True, free_if_terminal slot (apply_leg env slot r oms))
             else (True, free_if_terminal slot (process_failure env slot r oms)))"

subsection \<open>Cash and the tick\<close>

definition OMS_OpenPositionCost :: "'a oms \<Rightarrow> Money" where
  "OMS_OpenPositionCost oms =
     bitmap_fold (\<lambda>idx cost. let p = pf_positions (om_portfolio oms) ! idx
        in Money_Add cost (Money_Add (Money_Mul (p_entry_price p) (p_quantity p)) (p_entry_fee p)))
       (pf_active_bitmap (om_portfolio oms)) Money_Zero"

definition order_commitment :: "Order \<Rightarrow> Money option" where
  "order_commitment od =
     (let ostate = Order_GetState od
      in if (ostate = ORDER_SUBMITTED \<or> ostate = ORDER_ACKNOWLEDGED \<or> ostate = ORDER_PARTIAL)
            \<and> Order_GetType od = ORDER_MARKET_BUY
         then let remain = Money_Sub (o_requested_qty od) (o_filled_qty od);
                  notional = Money_Mul remain (o_event_price od);
                  est_fee = Money_Mul notional (pr_fee_rate (o_pre_resolved od))
              in Some (Money_Add notional est_fee)
         else None)"

definition OMS_ExpectedFreeCash :: "'a oms \<Rightarrow> Money" where
  "OMS_ExpectedFreeCash oms =
     fold (\<lambda>i expected. if drop_bit i (om_order_bitmap oms) AND 1 = 0 then expected
             else case order_commitment (order_at oms i) of None \<Rightarrow> expected | Some c \<Rightarrow> Money_Sub expected c)
       [0..<MAX_INFLIGHT_ORDERS] (Money_Sub (om_balance oms) (OMS_OpenPositionCost oms))"

definition OrderManager_ProcessReconcile :: "'a oms_env \<Rightarrow> 'a oms \<Rightarrow> Command \<Rightarrow> 'a oms" where
  "OrderManager_ProcessReconcile env oms cmd =
     (if oms_event_log_on oms
      then OMS_EventFunnelPush env oms (event_zero\<lparr>ev_type := OEVT_RECONCILED,
             ev_order_type := order_type_byte ORDER_MARKET_BUY, ev_node_id := - 1,
             ev_price := Money (money_from_double_payload (rs_avg_fill_price (cm_result cmd))),
             ev_reason := c_copy 31 (rs_error_message (cm_result cmd))\<rparr>) (- 1)
      else oms)"

text \<open>The three drains of a tick.  Each loop pops until its queue is empty; the fuel bounds the pops.\<close>

fun tick_results :: "nat \<Rightarrow> 'a oms_env \<Rightarrow> 'a oms \<Rightarrow> 'a oms option" where
  "tick_results 0 env oms = None"
| "tick_results (Suc n) env oms =
     (case OMS_ResultPop oms of
        (None, oms) \<Rightarrow> Some oms
      | (Some cmd, oms) \<Rightarrow> tick_results n env
          (if cm_type cmd = CMD_FILL_RESULT then snd (OrderManager_ProcessFillCommand env oms cmd) else oms))"

fun tick_ws :: "nat \<Rightarrow> 'a oms_env \<Rightarrow> 'a oms \<Rightarrow> 'a oms option" where
  "tick_ws 0 env oms = None"
| "tick_ws (Suc n) env oms =
     (case SPSCRing_TryPop (om_ws_result_queue oms) of
        (None, r) \<Rightarrow> Some (oms\<lparr>om_ws_result_queue := r\<rparr>)
      | (Some cmd, r) \<Rightarrow> let oms = oms\<lparr>om_ws_result_queue := r\<rparr> in tick_ws n env
          (if cm_type cmd = CMD_WS_FILL then snd (OrderManager_ProcessFillCommand env oms cmd) else oms))"

fun tick_reconcile :: "nat \<Rightarrow> 'a oms_env \<Rightarrow> 'a oms \<Rightarrow> 'a oms option" where
  "tick_reconcile 0 env oms = None"
| "tick_reconcile (Suc n) env oms =
     (case SPSCRing_TryPop (om_reconcile_queue oms) of
        (None, r) \<Rightarrow> Some (oms\<lparr>om_reconcile_queue := r\<rparr>)
      | (Some cmd, r) \<Rightarrow> let oms = oms\<lparr>om_reconcile_queue := r\<rparr> in tick_reconcile n env
          (if cm_type cmd = CMD_RECONCILE then OrderManager_ProcessReconcile env oms cmd else oms))"

definition stale_step :: "u64 \<Rightarrow> nat \<Rightarrow> 'a oms \<Rightarrow> 'a oms" where
  "stale_step now_us slot oms =
     (let od = order_at oms slot
      in if Order_IsTerminal od \<or> Order_GetStaleWarned od then oms
         else if OMS_STALE_INFLIGHT_WARN_US < now_us - o_submitted_at_us od
         then set_order slot (\<lambda>od. Order_SetStaleWarned od True) oms else oms)"

definition stale_sweep :: "'a oms_env \<Rightarrow> 'a oms \<Rightarrow> 'a oms" where
  "stale_sweep env oms =
     (if om_order_bitmap oms \<noteq> 0 \<and> oms_live oms
      then bitmap_fold (stale_step (env_now_us env)) (om_order_bitmap oms) oms else oms)"

definition OrderManager_Tick :: "nat \<Rightarrow> 'a oms_env \<Rightarrow> 'a oms \<Rightarrow> 'a oms option" where
  "OrderManager_Tick fuel env oms =
     (case tick_results fuel env oms of None \<Rightarrow> None
      | Some oms \<Rightarrow> (case tick_ws fuel env oms of None \<Rightarrow> None
          | Some oms \<Rightarrow> map_option (stale_sweep env) (tick_reconcile fuel env oms)))"

definition OrderManager_TotalSubmitted :: "'a oms \<Rightarrow> u64" where "OrderManager_TotalSubmitted oms = om_total_submitted oms"
definition OrderManager_TotalFilled :: "'a oms \<Rightarrow> u64" where "OrderManager_TotalFilled oms = om_total_filled oms"
definition OrderManager_TotalRejected :: "'a oms \<Rightarrow> u64" where "OrderManager_TotalRejected oms = om_total_rejected oms"

definition OrderManager_InflightCount :: "'a oms \<Rightarrow> nat" where
  "OrderManager_InflightCount oms = BITMAP_POPCOUNT (om_order_bitmap oms)"

end
