(* ===== verification/Order_Table.thy ===== *)
theory Order_Table
  imports Order_Fills
begin

text \<open>
  The in-flight table of the order manager: what an order id says, what each operation leaves alone,
  and the invariant that every operation keeps.  The contract of the fill sink, the function the
  manager is wired with at boot, is the locale \<open>fill_sink\<close>; the direct sink is its interpretation here.
\<close>

unbundle bit_operations_syntax

subsection \<open>Order ids\<close>

lemma lane_nibble: "unat (w AND ORDER_ID_LANE_MASK) = unat (take_bit 4 w)"
  by (simp add: ORDER_ID_LANE_MASK_def take_bit_eq_mask mask_eq_exp_minus_1)

lemma order_id_lanes:
  assumes "slot < 16" "0 \<le> node" "node < 16"
  shows "OMS_OrderIdSlot (encode_order_id oid node slot) = slot"
    "OMS_OrderIdNode (encode_order_id oid node slot) = nat node"
proof -
  obtain n where n: "node = int n" "n < 16" using assms(2,3) by (metis nonneg_int_cases of_nat_less_iff of_nat_numeral)
  define ws wn :: u64 where "ws = word_of_nat slot" and "wn = word_of_nat n"
  have c: "unat ws = slot" "unat wn = n"
    using assms(1) n(2) by (simp_all add: ws_def wn_def unat_of_nat)
  have "take_bit 4 ws = ws" "take_bit 4 wn = wn"
    using assms(1) n(2) c by (simp_all add: take_bit_small)
  then have b: "4 \<le> i \<Longrightarrow> bit ws i = False" "4 \<le> i \<Longrightarrow> bit wn i = False" for i
    by (metis bit_take_bit_iff not_le)+
  have m: "ORDER_ID_COUNTER_MASK = mask 56"
    by (simp add: ORDER_ID_COUNTER_MASK_def ORDER_ID_NODE_SHIFT_def mask_eq_exp_minus_1)
  have e: "encode_order_id oid node slot = (oid AND mask 56) OR push_bit 56 wn OR push_bit 60 ws"
    by (simp add: encode_order_id_def m ORDER_ID_NODE_SHIFT_def ORDER_ID_SLOT_SHIFT_def ws_def wn_def n(1))
  have s: "take_bit 4 (drop_bit 60 (encode_order_id oid node slot)) = ws"
    unfolding e by (rule bit_word_eqI) (auto simp: bit_simps b not_less intro: ccontr)
  have d: "take_bit 4 (drop_bit 56 (encode_order_id oid node slot)) = wn"
    unfolding e by (rule bit_word_eqI) (auto simp: bit_simps b not_less intro: ccontr)
  show "OMS_OrderIdSlot (encode_order_id oid node slot) = slot"
    unfolding OMS_OrderIdSlot_def lane_nibble ORDER_ID_SLOT_SHIFT_def s by (simp add: c)
  show "OMS_OrderIdNode (encode_order_id oid node slot) = nat node"
    unfolding OMS_OrderIdNode_def lane_nibble ORDER_ID_NODE_SHIFT_def d by (simp add: c n(1))
qed

lemma id_slot_lt: "OMS_OrderIdSlot oid < 16" "OMS_OrderIdNode oid < 16"
  unfolding OMS_OrderIdSlot_def OMS_OrderIdNode_def lane_nibble unat_take_bit_mod by simp_all

subsection \<open>State and flags of an order\<close>

lemma order_state_simps [simp]:
  "order_state_named s \<Longrightarrow> Order_GetState (Order_SetState od s) = s"
  "Order_GetState (Order_SetIsMaker od b) = Order_GetState od"
  "Order_GetState (Order_SetStaleWarned od b) = Order_GetState od"
  "Order_GetType (Order_SetState od s) = Order_GetType od"
  "Order_GetType (Order_SetIsMaker od b) = Order_GetType od"
  using arg_cong [OF abs_SetState, of s v_state od] arg_cong [OF abs_SetIsMaker, of v_state od b]
    arg_cong [OF abs_SetStaleWarned, of v_state od b] arg_cong [OF abs_SetIsMaker, of v_type od b]
  unfolding order_getters(1) order_setters
  by (simp_all add: order_abs_def) (simp_all add: order_masks mbs_get_set_other)

lemma order_state_fields [simp]:
  "Order_GetState (od\<lparr>o_filled_qty := q\<rparr>) = Order_GetState od"
  "Order_GetState (od\<lparr>o_avg_fill_price := q\<rparr>) = Order_GetState od"
  "Order_GetState (od\<lparr>o_exchange_id := x\<rparr>) = Order_GetState od"
  "Order_GetState (od\<lparr>o_pre_resolved := x1\<rparr>) = Order_GetState od"
  by (simp_all add: Order_GetState_def)

lemma order_named [simp]:
  "order_state_named ORDER_PENDING" "order_state_named ORDER_SUBMITTED" "order_state_named ORDER_ACKNOWLEDGED"
  "order_state_named ORDER_PARTIAL" "order_state_named ORDER_FILLED" "order_state_named ORDER_REJECTED"
  "order_state_named ORDER_CANCELED"
  by (simp_all add: order_state_named_def)

lemma order_setter_frame [simp]:
  "o_id (Order_SetState od s) = o_id od" "o_id (Order_SetIsMaker od b) = o_id od"
  "o_id (Order_SetStaleWarned od b) = o_id od" "o_id (Order_SetLeg od l) = o_id od"
  "o_portfolio_slot (Order_SetState od s) = o_portfolio_slot od" "o_portfolio_slot (Order_SetIsMaker od b) = o_portfolio_slot od"
  "o_pre_resolved (Order_SetState od s) = o_pre_resolved od" "o_pre_resolved (Order_SetIsMaker od b) = o_pre_resolved od"
  "o_pre_resolved (Order_SetLeg od l) = o_pre_resolved od"
  "o_filled_qty (Order_SetState od s) = o_filled_qty od" "o_filled_qty (Order_SetIsMaker od b) = o_filled_qty od"
  "o_avg_fill_price (Order_SetState od s) = o_avg_fill_price od" "o_avg_fill_price (Order_SetIsMaker od b) = o_avg_fill_price od"
  "o_intended_tp (Order_SetState od s) = o_intended_tp od" "o_intended_tp (Order_SetIsMaker od b) = o_intended_tp od"
  "o_intended_sl (Order_SetState od s) = o_intended_sl od" "o_intended_sl (Order_SetIsMaker od b) = o_intended_sl od"
  "o_submitted_at_us (Order_SetState od s) = o_submitted_at_us od" "o_submitted_at_us (Order_SetIsMaker od b) = o_submitted_at_us od"
  by (simp_all add: Order_SetState_def Order_SetIsMaker_def Order_SetStaleWarned_def Order_SetLeg_def)

lemma terminal_states [simp]:
  "Order_GetState od = ORDER_SUBMITTED \<Longrightarrow> \<not> Order_IsTerminal od"
  "Order_GetState od = ORDER_ACKNOWLEDGED \<Longrightarrow> \<not> Order_IsTerminal od"
  "Order_GetState od = ORDER_PARTIAL \<Longrightarrow> \<not> Order_IsTerminal od"
  by (simp_all add: Order_IsTerminal_def)

lemma terminal_cong: "Order_GetState od = Order_GetState od' \<Longrightarrow> Order_IsTerminal od = Order_IsTerminal od'"
  by (simp add: Order_IsTerminal_def)

lemma order_leg_state [simp]:
  "Order_GetState (Order_SetLeg od l) = Order_GetState od" "Order_GetType (Order_SetLeg od l) = Order_GetType od"
  "Order_GetIsMaker (Order_SetLeg od l) = Order_GetIsMaker od" "Order_GetIsMaker (Order_SetState od s) = Order_GetIsMaker od"
  "Order_GetIsMaker (Order_SetIsMaker od b) = b"
  unfolding order_getters order_setters
  by (simp_all add: order_masks mbs_get_set_other field_get_set flag_bound)

lemma order_more_fields [simp]:
  "Order_GetState (od\<lparr>o_submitted_at_us := t, o_requested_qty := q, o_intended_tp := tp, o_intended_sl := sl,
     o_strategy_id := st, o_event_price := ep\<rparr>) = Order_GetState od"
  "Order_GetType (od\<lparr>o_submitted_at_us := t, o_requested_qty := q, o_intended_tp := tp, o_intended_sl := sl,
     o_strategy_id := st, o_event_price := ep\<rparr>) = Order_GetType od"
  "Order_GetIsMaker (od\<lparr>o_submitted_at_us := t, o_requested_qty := q, o_intended_tp := tp, o_intended_sl := sl,
     o_strategy_id := st, o_event_price := ep\<rparr>) = Order_GetIsMaker od"
  "Order_GetType (od\<lparr>o_pre_resolved := x1\<rparr>) = Order_GetType od"
  "Order_GetIsMaker (od\<lparr>o_pre_resolved := x1\<rparr>) = Order_GetIsMaker od"
  "Order_GetType (od\<lparr>o_filled_qty := q\<rparr>) = Order_GetType od"
  "Order_GetType (od\<lparr>o_avg_fill_price := q\<rparr>) = Order_GetType od"
  "Order_GetType (od\<lparr>o_exchange_id := x\<rparr>) = Order_GetType od"
  by (simp_all add: Order_GetState_def Order_GetType_def Order_GetIsMaker_def)

lemma order_init_maker: "\<not> Order_GetIsMaker (Order_Init od oid slot t)"
proof -
  have "o_flags_packed (Order_Init od oid slot t) =
     MBS_SET (MBS_SET 0 MASK_ORDER_TYPE 0 (order_type_code t)) MASK_ORDER_STATE 2 (order_state_code ORDER_PENDING)"
    by (simp add: Order_Init_def Let_def order_setters)
  then show ?thesis
    unfolding order_getters by (simp add: order_masks mbs_get_set_other) (simp add: MBS_GET_def)
qed

lemma order_bind_facts [simp]:
  "Order_GetState (Order_BindPreResolved od cfg) = Order_GetState od"
  "Order_GetType (Order_BindPreResolved od cfg) = Order_GetType od"
  "Order_GetIsMaker (Order_BindPreResolved od cfg) = Order_GetIsMaker od"
  "o_pre_resolved (Order_BindPreResolved od cfg) = (o_pre_resolved od)\<lparr>
     pr_fee_rate := (if Order_GetIsMaker od then nc_fee_rate_maker cfg else nc_fee_rate_taker cfg),
     pr_slippage_pct := nc_slippage_pct cfg\<rparr>"
  using order_bind(1) [of od cfg] by (auto simp: order_abs_def)
    (simp_all add: Order_BindPreResolved_def Order_MarkPreResolvedBound_def Let_def)

lemma order_bind_frame [simp]:
  "o_id (Order_BindPreResolved od cfg) = o_id od" "o_portfolio_slot (Order_BindPreResolved od cfg) = o_portfolio_slot od"
  "o_requested_qty (Order_BindPreResolved od cfg) = o_requested_qty od"
  "o_filled_qty (Order_BindPreResolved od cfg) = o_filled_qty od"
  "o_intended_tp (Order_BindPreResolved od cfg) = o_intended_tp od"
  "o_intended_sl (Order_BindPreResolved od cfg) = o_intended_sl od"
  "o_event_price (Order_BindPreResolved od cfg) = o_event_price od"
  "o_submitted_at_us (Order_BindPreResolved od cfg) = o_submitted_at_us od"
  by (simp_all add: Order_BindPreResolved_def Order_MarkPreResolvedBound_def Let_def)

lemma order_init_frame [simp]:
  "o_id (Order_Init od oid slot t) = oid" "o_portfolio_slot (Order_Init od oid slot t) = slot"
  "o_filled_qty (Order_Init od oid slot t) = Money_Zero"
  by (simp_all add: Order_Init_def Order_SetType_def Let_def)

lemma order_leg_frame [simp]:
  "o_portfolio_slot (Order_SetLeg od l) = o_portfolio_slot od" "o_requested_qty (Order_SetLeg od l) = o_requested_qty od"
  "o_filled_qty (Order_SetLeg od l) = o_filled_qty od" "o_intended_tp (Order_SetLeg od l) = o_intended_tp od"
  "o_intended_sl (Order_SetLeg od l) = o_intended_sl od" "o_event_price (Order_SetLeg od l) = o_event_price od"
  "o_submitted_at_us (Order_SetLeg od l) = o_submitted_at_us od"
  "o_requested_qty (Order_SetState od s) = o_requested_qty od" "o_event_price (Order_SetState od s) = o_event_price od"
  by (simp_all add: Order_SetLeg_def Order_SetState_def)

lemma submitted_order_facts:
  "o_id (submitted_order t cmd oid od) = oid" "Order_GetState (submitted_order t cmd oid od) = ORDER_SUBMITTED"
  "Order_GetType (submitted_order t cmd oid od) = sc_order_type cmd"
  "o_portfolio_slot (submitted_order t cmd oid od) = sc_portfolio_slot cmd"
  "o_requested_qty (submitted_order t cmd oid od) = sc_qty cmd"
  "o_filled_qty (submitted_order t cmd oid od) = Money_Zero"
  "o_intended_tp (submitted_order t cmd oid od) = sc_intended_tp cmd"
  "o_intended_sl (submitted_order t cmd oid od) = sc_intended_sl cmd"
  "o_event_price (submitted_order t cmd oid od) = sc_event_price cmd"
  "o_submitted_at_us (submitted_order t cmd oid od) = t"
  "o_pre_resolved (submitted_order t cmd oid od) =
     (let cfg = (case sc_node_cfg cmd of Some c \<Rightarrow> c | None \<Rightarrow> NULL_PER_NODE_CFG_STUB)
      in \<lparr>pr_fee_rate = nc_fee_rate_taker cfg, pr_slippage_pct = nc_slippage_pct cfg, pr_tp_pct = sc_tp_pct cmd\<rparr>)"
  by (simp_all add: submitted_order_def Let_def order_init_state order_init_maker split: option.split)

subsection \<open>What the operations leave alone\<close>

definition oms_table :: "'a oms \<Rightarrow> Order list \<times> u16" where
  "oms_table oms = (om_orders oms, om_order_bitmap oms)"

text \<open>Everything but the event transport.\<close>

definition without_events :: "'a oms \<Rightarrow> 'a oms" where
  "without_events oms = oms\<lparr>om_event_log := demo_log, om_oe_rings := []\<rparr>"

definition same_but_events :: "'a oms \<Rightarrow> 'a oms \<Rightarrow> bool" where
  "same_but_events oms oms' \<longleftrightarrow> without_events oms' = without_events oms"

lemma same_but_events_refl [simp]: "same_but_events oms oms"
  by (simp add: same_but_events_def)

lemma same_but_events_trans: "same_but_events a b \<Longrightarrow> same_but_events b c \<Longrightarrow> same_but_events a c"
  by (simp add: same_but_events_def)

lemma same_but_events_upd [simp]:
  "same_but_events a (b\<lparr>om_event_log := l\<rparr>) = same_but_events a b"
  "same_but_events a (b\<lparr>om_oe_rings := rs\<rparr>) = same_but_events a b"
  by (simp_all add: same_but_events_def without_events_def)

lemma drain_event_ring_same: "same_but_events oms (snd st) \<Longrightarrow> same_but_events oms (snd (drain_event_ring fuel env n st))"
proof (induction fuel env n st rule: drain_event_ring.induct)
  case (1 env n st)
  then show ?case by simp
next
  case (2 fuel env n drained oms')
  obtain x r where "SPSCRing_TryPop (om_oe_rings oms' ! n) = (x, r)" by fastforce
  then show ?case using 2 by (cases x) simp_all
qed

lemma funnel_drain_same: "same_but_events a oms \<Longrightarrow> same_but_events a (snd (OMS_EventFunnelDrain env oms))"
proof -
  assume a: "same_but_events a oms"
  have "same_but_events a (snd (fold (\<lambda>n st. drain_event_ring (f n) env n st) ns st))"
    if "same_but_events a (snd st)" for ns st f
    using that
  proof (induction ns arbitrary: st)
    case Nil
    then show ?case by simp
  next
    case (Cons n ns)
    from Cons.IH [OF drain_event_ring_same [OF Cons.prems]] show ?case by (simp only: fold_simps comp_apply)
  qed
  from this [of "(0, oms)"] a show ?thesis by (simp only: OMS_EventFunnelDrain_def snd_conv simp_thms)
qed

lemma funnel_push_same: "same_but_events oms (OMS_EventFunnelPush env oms ev slot)"
  by (auto simp: OMS_EventFunnelPush_def Let_def funnel_drain_same split: prod.splits)

lemma same_but_events_fields:
  assumes "same_but_events oms oms'"
  shows "om_orders oms' = om_orders oms" "om_order_bitmap oms' = om_order_bitmap oms"
    "om_portfolio oms' = om_portfolio oms" "om_oms_state_flags oms' = om_oms_state_flags oms"
    "om_balance oms' = om_balance oms" "om_realized_pnl oms' = om_realized_pnl oms"
    "om_next_order_id oms' = om_next_order_id oms" "om_agg_attached oms' = om_agg_attached oms"
    "om_total_filled oms' = om_total_filled oms" "om_result_rings oms' = om_result_rings oms"
  using arg_cong [OF assms [unfolded same_but_events_def], of om_orders]
    arg_cong [OF assms [unfolded same_but_events_def], of om_order_bitmap]
    arg_cong [OF assms [unfolded same_but_events_def], of om_portfolio]
    arg_cong [OF assms [unfolded same_but_events_def], of om_oms_state_flags]
    arg_cong [OF assms [unfolded same_but_events_def], of om_balance]
    arg_cong [OF assms [unfolded same_but_events_def], of om_realized_pnl]
    arg_cong [OF assms [unfolded same_but_events_def], of om_next_order_id]
    arg_cong [OF assms [unfolded same_but_events_def], of om_agg_attached]
    arg_cong [OF assms [unfolded same_but_events_def], of om_total_filled]
    arg_cong [OF assms [unfolded same_but_events_def], of om_result_rings]
  by (simp_all add: without_events_def)

lemmas funnel_push_fields [simp] = same_but_events_fields [OF funnel_push_same]

lemma free_slot:
  assumes "NOT (bm :: u16) \<noteq> 0"
  defines "s \<equiv> BITMAP_FIRST (ucast (NOT bm) :: u32)"
  shows "s < 16" "\<not> bit bm s" "\<And>j. j < s \<Longrightarrow> bit bm j"
proof -
  let ?w = "ucast (NOT bm) :: u32"
  have b: "bit ?w k \<longleftrightarrow> k < 16 \<and> \<not> bit bm k" for k
    by (auto simp: bit_ucast_iff bit_not_iff)
  obtain i where "bit (NOT bm) i" using assms(1) word_nonzero_iff by blast
  then have i: "bit ?w i" using b bit_imp_le_length by (fastforce simp: bit_not_iff)
  then have nz: "?w \<noteq> 0" by auto
  show "s < 16" "\<not> bit bm s" using first_bit(1) [OF nz] b unfolding s_def by blast+
  then show "bit bm j" if "j < s" for j
    using first_bit(2) [OF nz, of j] b that unfolding s_def by force
qed

subsection \<open>Effects on the order table\<close>

lemma sell_memory_frame [simp]:
  "om_orders (sell_trade_memory p fl r net n oms) = om_orders oms" "om_order_bitmap (sell_trade_memory p fl r net n oms) = om_order_bitmap oms"
  "om_portfolio (sell_trade_memory p fl r net n oms) = om_portfolio oms"
  "om_oms_state_flags (sell_trade_memory p fl r net n oms) = om_oms_state_flags oms"
  "om_event_log (sell_trade_memory p fl r net n oms) = om_event_log oms"
  "om_agg_attached (sell_trade_memory p fl r net n oms) = om_agg_attached oms"
  "om_balance (sell_trade_memory p fl r net n oms) = om_balance oms"
  "om_realized_pnl (sell_trade_memory p fl r net n oms) = om_realized_pnl oms"
  "om_orders (sell_slot_memory p fl px fee oms) = om_orders oms" "om_order_bitmap (sell_slot_memory p fl px fee oms) = om_order_bitmap oms"
  "om_portfolio (sell_slot_memory p fl px fee oms) = om_portfolio oms"
  "om_oms_state_flags (sell_slot_memory p fl px fee oms) = om_oms_state_flags oms"
  "om_event_log (sell_slot_memory p fl px fee oms) = om_event_log oms"
  "om_agg_attached (sell_slot_memory p fl px fee oms) = om_agg_attached oms"
  "om_balance (sell_slot_memory p fl px fee oms) = om_balance oms"
  "om_realized_pnl (sell_slot_memory p fl px fee oms) = om_realized_pnl oms"
  by (simp_all add: sell_trade_memory_def sell_slot_memory_def Let_def)

lemma sell_book_eq:
  "sell_book env oms od px q fee =
     (let pslot = nat (o_portfolio_slot od); pos = pf_positions (om_portfolio oms) ! pslot;
          r = sell_leg (om_portfolio oms) pslot px q fee; n = Money_Mul (p_entry_price pos) q;
          fl = Money_Eq q (p_quantity pos)
      in sell_slot_memory pslot fl px fee (emit_fill env (sell_trade_memory pslot fl
        (realized_return (p_entry_price pos) px) (fst r) n (oms\<lparr>om_portfolio := snd (snd r)\<rparr>))
        od True fl q px fee (fst r) n (fst (snd r))))"
  unfolding sell_book_def Let_def split_def ..

locale fill_sink =
  fixes emit :: "'a oms \<Rightarrow> FillEvent \<Rightarrow> 'a oms"
  assumes emit_orders: "om_orders (emit oms fe) = om_orders oms"
    and emit_bitmap: "om_order_bitmap (emit oms fe) = om_order_bitmap oms"
    and emit_portfolio: "om_portfolio (emit oms fe) = om_portfolio oms"
    and emit_flags: "om_oms_state_flags (emit oms fe) = om_oms_state_flags oms"
    and emit_agg: "om_agg_attached (emit oms fe) = om_agg_attached oms"
begin

lemmas emit_frame = emit_orders emit_bitmap emit_portfolio emit_flags emit_agg

lemma buy_frame:
  assumes "env_emit env = emit"
  shows "om_orders (handle_buy_fill env oms od px q fee) = om_orders oms"
    "om_order_bitmap (handle_buy_fill env oms od px q fee) = om_order_bitmap oms"
    "om_oms_state_flags (handle_buy_fill env oms od px q fee) = om_oms_state_flags oms"
    "om_agg_attached (handle_buy_fill env oms od px q fee) = om_agg_attached oms"
  by (simp_all add: handle_buy_fill_def emit_fill_def Let_def assms emit_frame)

lemma emit_fill_frame:
  assumes "env_emit env = emit"
  shows "om_orders (emit_fill env oms od b fl q px fee net n efl) = om_orders oms"
    "om_order_bitmap (emit_fill env oms od b fl q px fee net n efl) = om_order_bitmap oms"
    "om_portfolio (emit_fill env oms od b fl q px fee net n efl) = om_portfolio oms"
    "om_oms_state_flags (emit_fill env oms od b fl q px fee net n efl) = om_oms_state_flags oms"
    "om_agg_attached (emit_fill env oms od b fl q px fee net n efl) = om_agg_attached oms"
  by (simp_all add: emit_fill_def Let_def assms emit_frame)

lemma sell_book_frame:
  assumes "env_emit env = emit"
  shows "om_orders (sell_book env oms od px q fee) = om_orders oms"
    "om_order_bitmap (sell_book env oms od px q fee) = om_order_bitmap oms"
    "om_oms_state_flags (sell_book env oms od px q fee) = om_oms_state_flags oms"
    "om_agg_attached (sell_book env oms od px q fee) = om_agg_attached oms"
    "om_portfolio (sell_book env oms od px q fee) =
       snd (snd (sell_leg (om_portfolio oms) (nat (o_portfolio_slot od)) px q fee))"
  by (simp_all only: sell_book_eq Let_def sell_memory_frame emit_fill_frame [OF assms]) simp_all

lemma sell_frame:
  assumes "env_emit env = emit"
  shows "om_orders (handle_sell_fill env oms od px q fee) = om_orders oms"
    "om_order_bitmap (handle_sell_fill env oms od px q fee) = om_order_bitmap oms"
    "om_oms_state_flags (handle_sell_fill env oms od px q fee) = om_oms_state_flags oms"
    "om_agg_attached (handle_sell_fill env oms od px q fee) = om_agg_attached oms"
  by (simp_all add: handle_sell_fill_def Let_def sell_book_frame [OF assms])

lemma handle_fill_frame:
  assumes "env_emit env = emit"
  shows "om_orders (OrderManager_HandleFill env oms od px q c a) = om_orders oms"
    "om_order_bitmap (OrderManager_HandleFill env oms od px q c a) = om_order_bitmap oms"
    "om_oms_state_flags (OrderManager_HandleFill env oms od px q c a) = om_oms_state_flags oms"
    "om_agg_attached (OrderManager_HandleFill env oms od px q c a) = om_agg_attached oms"
  by (simp_all add: OrderManager_HandleFill_def g_fill_dispatch_def Let_def buy_frame [OF assms] sell_frame [OF assms]
      split: OrderType.split)

end

text \<open>A sink that also leaves the event log alone, as the direct one does; the engine's sink does not.\<close>

locale ledger_sink = fill_sink emit for emit :: "'a oms \<Rightarrow> FillEvent \<Rightarrow> 'a oms" +
  assumes emit_log: "om_event_log (emit oms fe) = om_event_log oms"
begin

lemma buy_log: "env_emit env = emit \<Longrightarrow> om_event_log (handle_buy_fill env oms od px q fee) = om_event_log oms"
  by (simp add: handle_buy_fill_def emit_fill_def Let_def emit_log)

lemma emit_fill_log:
  "env_emit env = emit \<Longrightarrow> om_event_log (emit_fill env oms od b fl q px fee net n efl) = om_event_log oms"
  by (simp add: emit_fill_def Let_def emit_log)

lemma sell_book_log:
  assumes "env_emit env = emit"
  shows "om_event_log (sell_book env oms od px q fee) = om_event_log oms"
  by (simp only: sell_book_eq Let_def sell_memory_frame emit_fill_log [OF assms]) simp

lemma sell_log: "env_emit env = emit \<Longrightarrow> om_event_log (handle_sell_fill env oms od px q fee) = om_event_log oms"
  by (simp add: handle_sell_fill_def Let_def sell_book_log)

end

interpretation direct: ledger_sink OrderManager_FillEmitDirect
  by unfold_locales (simp_all add: OrderManager_FillEmitDirect_def OrderManager_LedgerApplyFill_def
      OrderManager_AccountMakerTakerFee_def Let_def)

subsection \<open>Submission\<close>

definition table_len :: "'a oms \<Rightarrow> bool" where
  "table_len oms \<longleftrightarrow> length (om_orders oms) = MAX_INFLIGHT_ORDERS"

lemma set_order_fields [simp]:
  "om_orders (set_order i f oms) = (om_orders oms)[i := f (om_orders oms ! i)]"
  "om_order_bitmap (set_order i f oms) = om_order_bitmap oms"
  "om_oms_state_flags (set_order i f oms) = om_oms_state_flags oms"
  "om_portfolio (set_order i f oms) = om_portfolio oms" "om_event_log (set_order i f oms) = om_event_log oms"
  "om_balance (set_order i f oms) = om_balance oms" "om_realized_pnl (set_order i f oms) = om_realized_pnl oms"
  "om_agg_attached (set_order i f oms) = om_agg_attached oms"
  "om_next_order_id (set_order i f oms) = om_next_order_id oms"
  "om_result_rings (set_order i f oms) = om_result_rings oms"
  "om_total_submitted (set_order i f oms) = om_total_submitted oms"
  "om_total_rejected (set_order i f oms) = om_total_rejected oms"
  by (simp_all add: set_order_def)

lemma result_push_fields [simp]:
  "om_orders (snd (OMS_ResultPush oms c)) = om_orders oms"
  "om_order_bitmap (snd (OMS_ResultPush oms c)) = om_order_bitmap oms"
  "om_oms_state_flags (snd (OMS_ResultPush oms c)) = om_oms_state_flags oms"
  "om_portfolio (snd (OMS_ResultPush oms c)) = om_portfolio oms"
  "om_event_log (snd (OMS_ResultPush oms c)) = om_event_log oms"
  "om_balance (snd (OMS_ResultPush oms c)) = om_balance oms"
  "om_realized_pnl (snd (OMS_ResultPush oms c)) = om_realized_pnl oms"
  "om_agg_attached (snd (OMS_ResultPush oms c)) = om_agg_attached oms"
  "om_next_order_id (snd (OMS_ResultPush oms c)) = om_next_order_id oms"
  "om_total_submitted (snd (OMS_ResultPush oms c)) = om_total_submitted oms"
  "om_total_rejected (snd (OMS_ResultPush oms c)) = om_total_rejected oms"
  by (simp_all add: OMS_ResultPush_def Let_def split: prod.split)

lemma oms_live_cong: "om_oms_state_flags a = om_oms_state_flags b \<Longrightarrow> oms_live a = oms_live b"
  "om_oms_state_flags a = om_oms_state_flags b \<Longrightarrow> oms_partial_on a = oms_partial_on b"
  "om_oms_state_flags a = om_oms_state_flags b \<Longrightarrow> oms_event_log_on a = oms_event_log_on b"
  by (simp_all add: oms_live_def oms_partial_on_def oms_event_log_on_def)

text \<open>The three outcomes of a submission.\<close>

lemma submit_full:
  assumes "om_order_bitmap oms = - 1"
  shows "OrderManager_Submit env oms cmd = (0, oms\<lparr>om_next_order_id := om_next_order_id oms + 1\<rparr>)"
  by (simp add: OrderManager_Submit_def Let_def assms)

lemma submit_entered_fields [simp]:
  "om_orders (submit_entered env oms cmd s) =
     (om_orders oms)[s := submitted_order (env_now_us env) cmd (submit_id oms cmd s) (om_orders oms ! s)]"
  "om_order_bitmap (submit_entered env oms cmd s) = BITMAP_SET (om_order_bitmap oms) (BITMAP_BIT s)"
  "om_oms_state_flags (submit_entered env oms cmd s) = om_oms_state_flags oms"
  "om_portfolio (submit_entered env oms cmd s) = om_portfolio oms" "om_event_log (submit_entered env oms cmd s) = om_event_log oms"
  "om_balance (submit_entered env oms cmd s) = om_balance oms" "om_realized_pnl (submit_entered env oms cmd s) = om_realized_pnl oms"
  "om_agg_attached (submit_entered env oms cmd s) = om_agg_attached oms"
  "om_total_rejected (submit_entered env oms cmd s) = om_total_rejected oms"
  "om_result_rings (submit_entered env oms cmd s) = om_result_rings oms"
  "om_next_order_id (submit_entered env oms cmd s) = om_next_order_id oms + 1"
  by (simp_all add: submit_entered_def Let_def BITMAP_SET_def)

lemma reject_submit_fields [simp]:
  "om_orders (reject_submit s oms) = (om_orders oms)[s := Order_SetState (om_orders oms ! s) ORDER_REJECTED]"
  "om_order_bitmap (reject_submit s oms) = BITMAP_CLR (om_order_bitmap oms) (BITMAP_BIT s)"
  "om_oms_state_flags (reject_submit s oms) = om_oms_state_flags oms"
  "om_portfolio (reject_submit s oms) = om_portfolio oms" "om_event_log (reject_submit s oms) = om_event_log oms"
  "om_balance (reject_submit s oms) = om_balance oms" "om_realized_pnl (reject_submit s oms) = om_realized_pnl oms"
  "om_agg_attached (reject_submit s oms) = om_agg_attached oms"
  "om_total_rejected (reject_submit s oms) = om_total_rejected oms + 1"
  "om_next_order_id (reject_submit s oms) = om_next_order_id oms"
  by (simp_all add: reject_submit_def Let_def)

text \<open>A submission is accepted when it is a paper one or the adapter takes it.\<close>

definition submit_accepts :: "'a oms_env \<Rightarrow> 'a oms \<Rightarrow> SubmitCommand \<Rightarrow> nat \<Rightarrow> bool" where
  "submit_accepts env oms cmd slot \<longleftrightarrow> \<not> oms_live oms \<or> adapter_submit env cmd (submit_id oms cmd slot)"

definition free_order_slot :: "'a oms \<Rightarrow> nat" where
  "free_order_slot oms = BITMAP_FIRST (ucast (NOT (om_order_bitmap oms)) :: u32)"

lemma not_full: "om_order_bitmap oms \<noteq> - 1 \<Longrightarrow> NOT (om_order_bitmap oms) \<noteq> 0"
  by (metis bit.double_compl bit.compl_zero)

lemma submit_live_entered: "oms_live (submit_entered env oms cmd s) = oms_live oms"
  by (rule oms_live_cong) simp

lemma submit_table:
  fixes oms :: "'a oms" and env :: "'a oms_env" and cmd :: SubmitCommand
  assumes "om_order_bitmap oms \<noteq> - 1"
  defines "s \<equiv> free_order_slot oms" and "res \<equiv> OrderManager_Submit env oms cmd"
  shows "submit_accepts env oms cmd s \<Longrightarrow> fst res = submit_id oms cmd s \<and>
      oms_table (snd res) = oms_table (submit_entered env oms cmd s)"
    "\<not> submit_accepts env oms cmd s \<Longrightarrow> res = (0, reject_submit s (submit_entered env oms cmd s))"
  using not_full [OF assms(1)]
  by (simp_all add: res_def OrderManager_Submit_def s_def free_order_slot_def submit_accepts_def submit_live_entered
      oms_table_def Let_def)

lemma submit_frame:
  "om_oms_state_flags (snd (OrderManager_Submit env oms cmd)) = om_oms_state_flags oms"
  "om_portfolio (snd (OrderManager_Submit env oms cmd)) = om_portfolio oms"
  "om_event_log (snd (OrderManager_Submit env oms cmd)) = om_event_log oms"
  "om_balance (snd (OrderManager_Submit env oms cmd)) = om_balance oms"
  "om_realized_pnl (snd (OrderManager_Submit env oms cmd)) = om_realized_pnl oms"
  "om_agg_attached (snd (OrderManager_Submit env oms cmd)) = om_agg_attached oms"
  "om_next_order_id (snd (OrderManager_Submit env oms cmd)) = om_next_order_id oms + 1"
  by (simp_all add: OrderManager_Submit_def Let_def)

subsection \<open>The in-flight table invariant\<close>

definition order_id_ok :: "nat \<Rightarrow> Order \<Rightarrow> bool" where
  "order_id_ok i od \<longleftrightarrow> OMS_OrderIdSlot (o_id od) = i \<and> 0 \<le> o_portfolio_slot od \<and> o_portfolio_slot od < 16 \<and>
     Order_GetType od \<in> {ORDER_MARKET_BUY, ORDER_MARKET_SELL}"

text \<open>Every order in use has an id that names its slot, a portfolio slot in range and a market type,
  and is not terminal, \<open>x\<close> apart.\<close>

definition inflight_almost :: "nat set \<Rightarrow> 'a oms \<Rightarrow> bool" where
  "inflight_almost x oms \<longleftrightarrow> length (om_orders oms) = MAX_INFLIGHT_ORDERS \<and>
     (\<forall>i. bit (om_order_bitmap oms) i \<longrightarrow> order_id_ok i (order_at oms i) \<and> (i \<notin> x \<longrightarrow> \<not> Order_IsTerminal (order_at oms i)))"

definition inflight_ok :: "'a oms \<Rightarrow> bool" where
  "inflight_ok oms \<longleftrightarrow> inflight_almost {} oms"

definition cmd_ok :: "SubmitCommand \<Rightarrow> bool" where
  "cmd_ok cmd \<longleftrightarrow> 0 \<le> sc_portfolio_slot cmd \<and> sc_portfolio_slot cmd < 16 \<and>
     sc_order_type cmd \<in> {ORDER_MARKET_BUY, ORDER_MARKET_SELL}"

lemma almost_cong:
  "om_orders oms' = om_orders oms \<Longrightarrow> om_order_bitmap oms' = om_order_bitmap oms \<Longrightarrow>
   inflight_almost x oms' = inflight_almost x oms"
  by (simp add: inflight_almost_def order_at_def)

lemma almost_mono: "inflight_almost x oms \<Longrightarrow> x \<subseteq> y \<Longrightarrow> inflight_almost y oms"
  by (auto simp: inflight_almost_def)

lemma almost_set_order:
  assumes "inflight_almost x oms"
    and "\<And>od. o_id (f od) = o_id od" "\<And>od. o_portfolio_slot (f od) = o_portfolio_slot od"
    and "\<And>od. Order_GetType (f od) = Order_GetType od"
    and "s \<in> x \<or> (\<forall>od. Order_GetState (f od) = Order_GetState od)"
  shows "inflight_almost x (set_order s f oms)"
proof -
  have "order_at (set_order s f oms) i = (if i = s \<and> s < length (om_orders oms) then f (order_at oms i) else order_at oms i)" for i
    by (cases "s < length (om_orders oms)") (auto simp: order_at_def nth_list_update list_update_beyond)
  moreover have "Order_IsTerminal (f od) = Order_IsTerminal od" if "s \<notin> x" for od
    using assms(5) that terminal_cong by blast
  ultimately show ?thesis using assms(1-4) by (auto simp: inflight_almost_def order_id_ok_def)
qed

lemma almost_clear:
  assumes "inflight_almost {s} oms"
  shows "inflight_ok (oms\<lparr>om_order_bitmap := om_order_bitmap oms AND NOT (BITMAP_BIT s)\<rparr>)"
  using assms by (auto simp: inflight_ok_def inflight_almost_def order_at_def bit_clr [unfolded BITMAP_CLR_def])

lemma free_if_terminal_ok:
  assumes "inflight_almost {s} oms"
  shows "inflight_ok (free_if_terminal s oms)"
proof (cases "Order_IsTerminal (order_at oms s)")
  case True
  then have "free_if_terminal s oms = oms\<lparr>om_order_bitmap := om_order_bitmap oms AND NOT (BITMAP_BIT s)\<rparr>"
    by (simp add: free_if_terminal_def)
  then show ?thesis using almost_clear [OF assms] by simp
next
  case False
  then have "free_if_terminal s oms = oms" by (simp add: free_if_terminal_def)
  moreover have "i = s \<longrightarrow> \<not> Order_IsTerminal (order_at oms i)" for i using False by simp
  ultimately show ?thesis using assms by (auto simp: inflight_ok_def inflight_almost_def)
qed

lemma slot_node_range: "0 \<le> s \<Longrightarrow> s < 16 \<Longrightarrow> p \<le> 1 \<Longrightarrow> 0 \<le> slot_node s p \<and> slot_node s p < 16"
  by (cases p) (auto simp: slot_node_def drop_bit_eq_div)

lemma partial_on_le: "oms_partial_on oms \<le> 1"
  by (simp add: oms_partial_on_def)

lemma submit_id_lanes:
  assumes "cmd_ok cmd" "s < 16"
  shows "OMS_OrderIdSlot (submit_id oms cmd s) = s"
    "OMS_OrderIdNode (submit_id oms cmd s) = nat (slot_node (sc_portfolio_slot cmd) (oms_partial_on oms))"
  using assms slot_node_range [OF _ _ partial_on_le, of "sc_portfolio_slot cmd" oms]
  by (simp_all add: submit_id_def cmd_ok_def order_id_lanes)

lemma entered_ok:
  assumes "inflight_ok oms" "cmd_ok cmd" "s < 16"
  shows "inflight_ok (submit_entered env oms cmd s)"
  using assms submit_id_lanes(1) [OF assms(2,3), of oms]
  by (auto simp: inflight_ok_def inflight_almost_def order_at_def bit_set nth_list_update order_id_ok_def
      submitted_order_facts cmd_ok_def MAX_INFLIGHT_ORDERS_def)

lemma submit_ok:
  assumes "inflight_ok oms" "cmd_ok cmd"
  shows "inflight_ok (snd (OrderManager_Submit env oms cmd))"
proof (cases "om_order_bitmap oms = - 1")
  case True
  have "inflight_ok (oms\<lparr>om_next_order_id := om_next_order_id oms + 1\<rparr>) = inflight_ok oms"
    unfolding inflight_ok_def by (rule almost_cong) simp_all
  then show ?thesis using assms submit_full [OF True, of env cmd] by simp
next
  case False
  let ?s = "free_order_slot oms" and ?e = "submit_entered env oms cmd (free_order_slot oms)"
  have s: "?s < 16" unfolding free_order_slot_def using free_slot(1) [OF not_full [OF False]] .
  note e = entered_ok [OF assms s, of env]
  show ?thesis
  proof (cases "submit_accepts env oms cmd ?s")
    case True
    have "oms_table (snd (OrderManager_Submit env oms cmd)) = oms_table ?e"
      using submit_table(1) [OF False True] by blast
    then have "inflight_almost {} (snd (OrderManager_Submit env oms cmd)) = inflight_almost {} ?e"
      by (intro almost_cong) (simp_all add: oms_table_def)
    then show ?thesis using e by (simp add: inflight_ok_def)
  next
    case rej: False
    have "inflight_almost {?s} (set_order ?s (\<lambda>od. Order_SetState od ORDER_REJECTED) ?e)"
      using e by (intro almost_set_order) (auto simp: inflight_ok_def intro: almost_mono)
    from almost_clear [OF this]
    have "inflight_almost {} (reject_submit ?s ?e)"
      unfolding inflight_ok_def by (subst almost_cong) (simp_all add: BITMAP_CLR_def)
    then show ?thesis using submit_table(2) [OF False rej] by (simp add: inflight_ok_def)
  qed
qed

subsection \<open>Results\<close>

lemma terminal_incomplete_ok:
  assumes "inflight_almost {s} oms" "s < 16" "bit (om_order_bitmap oms) s"
  shows "inflight_ok (terminal_incomplete env s oms)"
proof -
  let ?c = "set_order s (\<lambda>od. Order_SetState od ORDER_CANCELED) oms"
  define dead where "dead = order_at ?c s"
  define remaining where "remaining = (if Portfolio_SlotActive (om_portfolio ?c) (nat (o_portfolio_slot dead))
    then p_quantity (pf_positions (om_portfolio ?c) ! nat (o_portfolio_slot dead)) else Money_Zero)"
  define cleared where "cleared = ?c\<lparr>om_order_bitmap := om_order_bitmap ?c AND NOT (BITMAP_BIT s)\<rparr>"
  define logged where "logged = (if oms_event_log_on cleared
    then OMS_EventFunnelPush env cleared (terminal_event dead remaining) (o_portfolio_slot dead) else cleared)"
  define re where "re = (SubmitCommand_make (o_portfolio_slot dead) ORDER_MARKET_SELL remaining
      (word_of_int (o_portfolio_slot dead AND 1)) None)
     \<lparr>sc_intended_tp := o_intended_tp dead, sc_intended_sl := o_intended_sl dead,
      sc_strategy_id := o_strategy_id dead, sc_event_price := o_avg_fill_price dead\<rparr>"
  have c: "inflight_almost {s} ?c" using assms(1) by (intro almost_set_order) simp_all
  have d: "order_id_ok s dead" using c assms(3) by (auto simp: inflight_almost_def dead_def)
  have "inflight_ok cleared" unfolding cleared_def by (rule almost_clear [OF c])
  then have l: "inflight_ok logged"
    unfolding logged_def inflight_ok_def by (auto intro: almost_cong [THEN iffD2])
  have "cmd_ok re" using d by (simp add: cmd_ok_def re_def SubmitCommand_make_def order_id_ok_def)
  then have r: "inflight_ok (snd (OrderManager_Submit env logged re))" using l by (intro submit_ok)
  have p: "inflight_ok (set_order k (\<lambda>od. od\<lparr>o_pre_resolved := o_pre_resolved dead\<rparr>) (snd (OrderManager_Submit env logged re)))" for k
    using r unfolding inflight_ok_def by (intro almost_set_order) simp_all
  have "terminal_incomplete env s oms = (if Order_GetType dead = ORDER_MARKET_SELL \<and> \<not> Money_IsZero remaining
     then let (rid, oms') = OrderManager_Submit env logged re
          in set_order (OMS_OrderIdSlot rid) (\<lambda>od. od\<lparr>o_pre_resolved := o_pre_resolved dead\<rparr>) oms'
     else logged)"
    unfolding terminal_incomplete_def Let_def dead_def remaining_def cleared_def logged_def re_def ..
  then show ?thesis using l p by (simp add: split_def Let_def)
qed

lemma process_failure_ok:
  assumes "inflight_almost {s} oms"
  shows "inflight_almost {s} (process_failure env s r oms)"
proof -
  let ?c = "set_order s (\<lambda>od. Order_SetState od ORDER_REJECTED) oms"
  have "inflight_almost {s} ?c" using assms by (intro almost_set_order) simp_all
  moreover have "inflight_almost {s} (process_failure env s r oms) = inflight_almost {s} ?c"
    by (rule almost_cong) (simp_all add: process_failure_def Let_def)
  ultimately show ?thesis by simp
qed

context fill_sink
begin

text \<open>The order a leg is booked on, its quantity, maker bit and state updated.\<close>

lemma apply_leg_ok:
  assumes env: "env_emit env = emit" and ok: "inflight_almost {s} oms" and s: "s < 16" "bit (om_order_bitmap oms) s"
  shows "inflight_almost {s} (apply_leg env s r oms)"
proof -
  let ?q = "Money (money_from_double_payload (rs_fill_qty r))"
  define o1 where "o1 = set_order s (\<lambda>od. od\<lparr>o_filled_qty := Money_Add (o_filled_qty od) ?q\<rparr>) oms"
  define o2 where "o2 = set_order s (\<lambda>od. Order_SetIsMaker od (rs_is_maker r \<noteq> 0)) o1"
  define o3 where "o3 = set_order s (\<lambda>od. Order_SetState od (if rs_order_complete r \<noteq> 0 then ORDER_FILLED else ORDER_PARTIAL)) o2"
  define o4 where "o4 = (if Order_GetState (order_at o3 s) = ORDER_FILLED
    then o3\<lparr>om_total_filled := om_total_filled o3 + 1\<rparr> else o3)"
  define o5 where "o5 = (if f64_gt (rs_fill_qty r) (F64_Fin 0)
    then OrderManager_HandleFill env o4 (order_at o4 s) (o_avg_fill_price (order_at o4 s)) ?q (rs_commission r) (rs_commission_asset r)
    else o4)"
  have 1: "inflight_almost {s} o1" unfolding o1_def using ok by (rule almost_set_order) simp_all
  have 2: "inflight_almost {s} o2" unfolding o2_def using 1 by (rule almost_set_order) simp_all
  have 3: "inflight_almost {s} o3" unfolding o3_def using 2 by (rule almost_set_order) simp_all
  have 5: "inflight_almost {s} o5" and b: "om_order_bitmap o5 = om_order_bitmap oms"
    using almost_cong [of o5 o3 "{s}"] 3
    by (auto simp: o5_def o4_def o3_def o2_def o1_def handle_fill_frame [OF env])
  have "apply_leg env s r oms = (if rs_venue_terminal r \<noteq> 0 \<and> rs_order_complete r = 0 then terminal_incomplete env s o5 else o5)"
    unfolding apply_leg_def Let_def o1_def o2_def o3_def o4_def o5_def ..
  moreover have "inflight_almost {s} (terminal_incomplete env s o5)"
    using terminal_incomplete_ok [OF 5 s(1)] s(2) b by (auto simp: inflight_ok_def intro: almost_mono)
  ultimately show ?thesis using 5 by simp
qed

lemma process_ok:
  assumes env: "env_emit env = emit" and ok: "inflight_ok oms"
  shows "inflight_ok (snd (OrderManager_ProcessFillCommand env oms cmd))"
proof (cases "fill_slot oms (cm_order_id cmd)")
  case None
  then show ?thesis using ok by (simp add: OrderManager_ProcessFillCommand_def)
next
  case (Some s)
  then have s: "s < 16" "om_order_bitmap oms AND BITMAP_BIT s \<noteq> 0"
    using id_slot_lt(1) by (auto simp: fill_slot_def Let_def split: if_splits)
  then have b: "bit (om_order_bitmap oms) s" using is_set_bit [of s "om_order_bitmap oms"] by (simp add: BITMAP_IS_SET_def)
  let ?r = "cm_result cmd"
  define o1 where "o1 = set_order s (\<lambda>od. od\<lparr>o_exchange_id := c_copy 63 (rs_exchange_id ?r)\<rparr>) oms"
  define o2 where "o2 = set_order s (\<lambda>od. od\<lparr>o_avg_fill_price := Money (money_from_double_payload (rs_avg_fill_price ?r))\<rparr>) o1"
  have 1: "inflight_ok o1" using ok unfolding o1_def inflight_ok_def by (intro almost_set_order) simp_all
  have 2: "inflight_ok o2" using 1 unfolding o2_def inflight_ok_def by (intro almost_set_order) simp_all
  have bs: "om_order_bitmap o1 = om_order_bitmap oms" "om_order_bitmap o2 = om_order_bitmap oms"
    by (simp_all add: o1_def o2_def)
  have ack: "inflight_ok (set_order s (\<lambda>od. Order_SetState od ORDER_ACKNOWLEDGED) o1)"
  proof -
    have a: "inflight_almost {s} (set_order s (\<lambda>od. Order_SetState od ORDER_ACKNOWLEDGED) o1)"
      using 1 by (intro almost_set_order) (auto simp: inflight_ok_def intro: almost_mono)
    have l: "s < length (om_orders o1)" using 1 s(1) by (simp add: inflight_ok_def inflight_almost_def MAX_INFLIGHT_ORDERS_def)
    have "free_if_terminal s (set_order s (\<lambda>od. Order_SetState od ORDER_ACKNOWLEDGED) o1) =
        set_order s (\<lambda>od. Order_SetState od ORDER_ACKNOWLEDGED) o1"
      using l by (simp add: free_if_terminal_def order_at_def)
    then show ?thesis using free_if_terminal_ok [OF a] by simp
  qed
  have leg: "inflight_ok (free_if_terminal s (apply_leg env s ?r o2))"
    using 2 b bs by (intro free_if_terminal_ok apply_leg_ok [OF env _ s(1)]) (auto simp: inflight_ok_def intro: almost_mono)
  have fail: "inflight_ok (free_if_terminal s (process_failure env s ?r oms))"
    using ok by (intro free_if_terminal_ok process_failure_ok) (auto simp: inflight_ok_def intro: almost_mono)
  show ?thesis
    using ok 1 2 ack leg fail unfolding o1_def o2_def
    by (simp add: OrderManager_ProcessFillCommand_def Some Let_def)
qed

end

end
