(* ===== verification/Order_Calls.thy ===== *)
theory Order_Calls
  imports Order_Table
begin

text \<open>
  Sequences of calls of the order manager: the tick's drains, the step relation of all entry points,
  what a submission does, final results, the queues and their draining.  The contract of a fill sink
  that also leaves the queues alone is the locale \<open>quiet_sink\<close>, an extension of \<open>fill_sink\<close>.
\<close>

unbundle bit_operations_syntax

subsection \<open>A tick\<close>

lemma inflight_cong:
  "om_orders oms' = om_orders oms \<Longrightarrow> om_order_bitmap oms' = om_order_bitmap oms \<Longrightarrow> inflight_ok oms' = inflight_ok oms"
  unfolding inflight_ok_def by (rule almost_cong)

lemma inflight_table: "oms_table oms' = oms_table oms \<Longrightarrow> inflight_ok oms \<Longrightarrow> inflight_ok oms'"
  using inflight_cong [of oms' oms] by (simp add: oms_table_def)

lemma result_pop_frame:
  "oms_table (snd (OMS_ResultPop oms)) = oms_table oms"
  "om_result_rings_update (\<lambda>_. []) (snd (OMS_ResultPop oms)) = om_result_rings_update (\<lambda>_. []) oms"
proof -
  have "om_result_rings_update (\<lambda>_. []) (snd (result_pop_from n k oms)) = om_result_rings_update (\<lambda>_. []) oms" for n k
    by (induction n k oms rule: result_pop_from.induct) (simp_all split: prod.split option.split)
  then show r: "om_result_rings_update (\<lambda>_. []) (snd (OMS_ResultPop oms)) = om_result_rings_update (\<lambda>_. []) oms"
    by (simp add: OMS_ResultPop_def)
  show "oms_table (snd (OMS_ResultPop oms)) = oms_table oms"
    using arg_cong [OF r, of oms_table] by (simp add: oms_table_def)
qed

lemma reconcile_table: "oms_table (OrderManager_ProcessReconcile env oms cmd) = oms_table oms"
  by (simp add: OrderManager_ProcessReconcile_def oms_table_def)

lemma stale_sweep_rule:
  assumes "P oms" and "\<And>oms slot now. P oms \<Longrightarrow> P (set_order slot (\<lambda>od. Order_SetStaleWarned od True) oms)"
  shows "P (stale_sweep env oms)"
proof -
  have "P (fold (stale_step t) ss oms)" for ss t
    using assms(1)
  proof (induction ss arbitrary: oms)
    case (Cons s ss)
    have "P (stale_step t s oms)" using Cons.prems assms(2) by (simp add: stale_step_def Let_def)
    then show ?case using Cons.IH by simp
  qed simp
  then show ?thesis using assms(1) by (simp add: stale_sweep_def bitmap_fold_def)
qed

lemma stale_warned_frame [simp]:
  "o_portfolio_slot (Order_SetStaleWarned od b) = o_portfolio_slot od"
  "Order_GetType (Order_SetStaleWarned od b) = Order_GetType od"
  using arg_cong [OF abs_SetStaleWarned, of v_type od b]
  by (simp_all add: order_abs_def) (simp_all add: Order_SetStaleWarned_def)

text \<open>What holds before a tick, is kept by taking a command off a queue and by processing one, holds
  after it.\<close>

definition drain_keeps :: "('a oms \<Rightarrow> bool) \<Rightarrow> 'a oms_env \<Rightarrow> bool" where
  "drain_keeps P env \<longleftrightarrow>
     (\<forall>oms cmd. P oms \<longrightarrow> P (snd (OrderManager_ProcessFillCommand env oms cmd))) \<and>
     (\<forall>oms cmd. P oms \<longrightarrow> P (OrderManager_ProcessReconcile env oms cmd)) \<and>
     (\<forall>oms. P oms \<longrightarrow> P (snd (OMS_ResultPop oms))) \<and>
     (\<forall>oms r. P oms \<longrightarrow> P (oms\<lparr>om_ws_result_queue := r\<rparr>)) \<and> (\<forall>oms r. P oms \<longrightarrow> P (oms\<lparr>om_reconcile_queue := r\<rparr>)) \<and>
     (\<forall>oms s. P oms \<longrightarrow> P (set_order s (\<lambda>od. Order_SetStaleWarned od True) oms))"

lemma if_keeps: "P a \<Longrightarrow> P b \<Longrightarrow> P (if c then a else b)"
  by simp

lemma tick_rule:
  assumes "drain_keeps P env" and p: "P oms" and t: "OrderManager_Tick fuel env oms = Some oms'"
  shows "P oms'"
proof -
  note k1 = assms(1) [unfolded drain_keeps_def]
  note k2 = k1 [THEN conjunct2] note k3 = k2 [THEN conjunct2] note k4 = k3 [THEN conjunct2] note k5 = k4 [THEN conjunct2]
  note fill = k1 [THEN conjunct1, rule_format] and rec = k2 [THEN conjunct1, rule_format]
    and pop = k3 [THEN conjunct1, rule_format] and warn = k5 [THEN conjunct2, rule_format]
    and queues = k4 [THEN conjunct1, rule_format] k5 [THEN conjunct1, rule_format]
  have 1: "tick_results n env oms = Some oms' \<Longrightarrow> P oms \<Longrightarrow> P oms'" for n oms oms'
  proof (induction n arbitrary: oms)
    case (Suc n)
    obtain x o1 where x: "OMS_ResultPop oms = (x, o1)" by fastforce
    have o1: "P o1" using pop [OF Suc.prems(2)] unfolding x snd_conv .
    show ?case
    proof (cases x)
      case None
      then have "oms' = o1" using Suc.prems(1) by (simp add: x)
      then show ?thesis using o1 by simp
    next
      case (Some c)
      have "tick_results n env (if cm_type c = CMD_FILL_RESULT then snd (OrderManager_ProcessFillCommand env o1 c) else o1) = Some oms'"
        using Suc.prems(1) by (simp add: x Some)
      from Suc.IH [OF this if_keeps [where P = P, OF _ o1]] show ?thesis using fill [OF o1] .
    qed
  qed simp
  have 2: "tick_ws n env oms = Some oms' \<Longrightarrow> P oms \<Longrightarrow> P oms'" for n oms oms'
  proof (induction n arbitrary: oms)
    case (Suc n)
    obtain x r where x: "SPSCRing_TryPop (om_ws_result_queue oms) = (x, r)" by fastforce
    note o1 = queues(1) [OF Suc.prems(2), of r]
    show ?case
    proof (cases x)
      case None
      then have "oms' = oms\<lparr>om_ws_result_queue := r\<rparr>" using Suc.prems(1) by (simp add: x)
      then show ?thesis using o1 by simp
    next
      case (Some c)
      let ?o = "oms\<lparr>om_ws_result_queue := r\<rparr>"
      have "tick_ws n env (if cm_type c = CMD_WS_FILL then snd (OrderManager_ProcessFillCommand env ?o c) else ?o) = Some oms'"
        using Suc.prems(1) by (simp add: x Some Let_def)
      from Suc.IH [OF this if_keeps [where P = P, OF _ o1]] show ?thesis using fill [OF o1] .
    qed
  qed simp
  have 3: "tick_reconcile n env oms = Some oms' \<Longrightarrow> P oms \<Longrightarrow> P oms'" for n oms oms'
  proof (induction n arbitrary: oms)
    case (Suc n)
    obtain x r where x: "SPSCRing_TryPop (om_reconcile_queue oms) = (x, r)" by fastforce
    note o1 = queues(2) [OF Suc.prems(2), of r]
    show ?case
    proof (cases x)
      case None
      then have "oms' = oms\<lparr>om_reconcile_queue := r\<rparr>" using Suc.prems(1) by (simp add: x)
      then show ?thesis using o1 by simp
    next
      case (Some c)
      let ?o = "oms\<lparr>om_reconcile_queue := r\<rparr>"
      have "tick_reconcile n env (if cm_type c = CMD_RECONCILE then OrderManager_ProcessReconcile env ?o c else ?o) = Some oms'"
        using Suc.prems(1) by (simp add: x Some Let_def)
      from Suc.IH [OF this if_keeps [where P = P, OF _ o1]] show ?thesis using rec [OF o1] .
    qed
  qed simp
  obtain o1 o2 o3 where o: "tick_results fuel env oms = Some o1" "tick_ws fuel env o1 = Some o2"
    "tick_reconcile fuel env o2 = Some o3" "oms' = stale_sweep env o3"
    using t by (auto simp: OrderManager_Tick_def split: option.splits)
  show ?thesis
    unfolding o(4) using 3 [OF o(3) 2 [OF o(2) 1 [OF o(1) p]]] by (rule stale_sweep_rule [of P]) (rule warn)
qed

context fill_sink
begin

lemma drain_inflight:
  assumes "env_emit env = emit"
  shows "drain_keeps inflight_ok env"
proof -
  have "inflight_ok (OrderManager_ProcessReconcile env oms cmd)" if "inflight_ok oms" for oms :: "'a oms" and cmd
    using that by (rule inflight_table [OF reconcile_table])
  moreover have "inflight_ok (snd (OMS_ResultPop oms))" if "inflight_ok oms" for oms :: "'a oms"
    using that by (rule inflight_table [OF result_pop_frame(1)])
  moreover have "inflight_ok (set_order s (\<lambda>od. Order_SetStaleWarned od True) oms)" if "inflight_ok oms" for oms :: "'a oms" and s
    using that unfolding inflight_ok_def by (intro almost_set_order) simp_all
  moreover have "inflight_ok (oms\<lparr>om_ws_result_queue := r\<rparr>) = inflight_ok oms"
    "inflight_ok (oms\<lparr>om_reconcile_queue := r\<rparr>) = inflight_ok oms" for oms :: "'a oms" and r
    by (rule inflight_cong; simp)+
  ultimately show ?thesis unfolding drain_keeps_def using process_ok [OF assms] by (intro conjI allI impI) simp_all
qed

end

subsection \<open>Any sequence of calls\<close>

text \<open>One call of the manager, with an environment that satisfies \<open>E\<close>: the clocks, the adapter's
  answers and the pushes of the two other producers may differ from call to call.\<close>

inductive oms_step :: "('a oms_env \<Rightarrow> bool) \<Rightarrow> 'a oms \<Rightarrow> 'a oms \<Rightarrow> bool" for E where
  step_submit: "E env \<Longrightarrow> cmd_ok cmd \<Longrightarrow> oms_step E oms (snd (OrderManager_Submit env oms cmd))"
| step_push_submit: "oms_step E oms (snd (OMS_PushSubmit oms cmd))"
| step_result: "oms_step E oms (OrderManager_FillResultCallback oms client_id result)"
| step_ws: "oms_step E oms (oms\<lparr>om_ws_result_queue := snd (SPSCRing_TryPush (om_ws_result_queue oms) cmd)\<rparr>)"
| step_reconcile: "oms_step E oms (oms\<lparr>om_reconcile_queue := snd (SPSCRing_TryPush (om_reconcile_queue oms) cmd)\<rparr>)"
| step_tick: "E env \<Longrightarrow> OrderManager_Tick fuel env oms = Some oms' \<Longrightarrow> oms_step E oms oms'"

inductive oms_reach :: "('a oms_env \<Rightarrow> bool) \<Rightarrow> 'a oms \<Rightarrow> 'a oms \<Rightarrow> bool" for E where
  reach_refl: "oms_reach E oms oms"
| reach_step: "oms_reach E a b \<Longrightarrow> oms_step E b c \<Longrightarrow> oms_reach E a c"

definition direct_env :: "'a oms_env \<Rightarrow> bool" where
  "direct_env env \<longleftrightarrow> env_emit env = OrderManager_FillEmitDirect"

lemma push_submit_frame: "om_submit_queues_update (\<lambda>_. []) (snd (OMS_PushSubmit oms cmd)) = om_submit_queues_update (\<lambda>_. []) oms"
  by (simp add: OMS_PushSubmit_def Let_def split_def)

context fill_sink
begin

lemma oms_step_inflight:
  assumes "oms_step (\<lambda>env. env_emit env = emit) oms oms'" "inflight_ok oms"
  shows "inflight_ok oms'"
  using assms
proof cases
  case (step_submit env cmd)
  then show ?thesis using submit_ok assms(2) by blast
next
  case (step_push_submit cmd)
  have "oms_table oms' = oms_table oms"
    using arg_cong [OF push_submit_frame [of oms cmd], of oms_table] step_push_submit by (simp add: oms_table_def)
  then show ?thesis using assms(2) by (rule inflight_table)
next
  case (step_tick env fuel)
  then show ?thesis using tick_rule [OF drain_inflight assms(2)] by auto
qed (use assms(2) in \<open>auto simp: OrderManager_FillResultCallback_def oms_table_def elim!: inflight_table [rotated]\<close>)

end

lemma step_inflight:
  assumes "oms_step direct_env oms oms'" "inflight_ok oms"
  shows "inflight_ok oms'"
proof -
  have e: "direct_env = (\<lambda>env. env_emit env = OrderManager_FillEmitDirect)" by (simp add: direct_env_def fun_eq_iff)
  show ?thesis by (rule direct.oms_step_inflight [OF assms(1) [unfolded e] assms(2)])
qed

text \<open>C2: The in-flight table stays well formed.  Start with sixteen free entries and make any calls:
  submissions, pushes by the other threads, ticks.  Every entry in use then holds a live order,
  its id names that very entry, its portfolio slot is in range and its type is a market one.\<close>

theorem inflight_table_invariant:
  assumes "oms_reach direct_env oms oms'" "length (om_orders oms) = MAX_INFLIGHT_ORDERS" "om_order_bitmap oms = 0"
  shows "length (om_orders oms') = MAX_INFLIGHT_ORDERS \<and>
    (\<forall>i. bit (om_order_bitmap oms') i \<longrightarrow> OMS_OrderIdSlot (o_id (om_orders oms' ! i)) = i \<and>
       0 \<le> o_portfolio_slot (om_orders oms' ! i) \<and> o_portfolio_slot (om_orders oms' ! i) < 16 \<and>
       Order_GetType (om_orders oms' ! i) \<in> {ORDER_MARKET_BUY, ORDER_MARKET_SELL} \<and>
       \<not> Order_IsTerminal (om_orders oms' ! i))"
proof -
  from assms(1) have "inflight_ok oms \<Longrightarrow> inflight_ok oms'"
    by (induction rule: oms_reach.induct) (auto intro: step_inflight)
  moreover have "inflight_ok oms" using assms(2,3) by (simp add: inflight_ok_def inflight_almost_def)
  ultimately show ?thesis
    by (auto simp: inflight_ok_def inflight_almost_def order_id_ok_def order_at_def)
qed

subsection \<open>What a submission does\<close>

lemma set_then_clear: "\<not> bit bm s \<Longrightarrow> BITMAP_CLR (BITMAP_SET bm (BITMAP_BIT s)) (BITMAP_BIT s) = (bm :: u16)"
  by (rule bit_word_eqI) (auto simp: bit_set bit_clr)

lemma submit_id_counter: "submit_id oms cmd s AND ORDER_ID_COUNTER_MASK = om_next_order_id oms AND ORDER_ID_COUNTER_MASK"
proof -
  have m: "ORDER_ID_COUNTER_MASK = mask 56"
    by (simp add: ORDER_ID_COUNTER_MASK_def ORDER_ID_NODE_SHIFT_def mask_eq_exp_minus_1 push_bit_eq_mult)
  show ?thesis
    by (rule bit_word_eqI) (auto simp: submit_id_def encode_order_id_def m ORDER_ID_NODE_SHIFT_def ORDER_ID_SLOT_SHIFT_def
        bit_simps)
qed

text \<open>C5: What \<^verbatim>\<open>OrderManager_Submit\<close> does.  A full table gives id 0 and burns a counter value.  Otherwise the
  lowest free entry is taken: an accepted order has an id whose lanes name the entry and the node and
  whose counter is the next one, it is SUBMITTED with nothing filled and the node's rates bound, and no
  other entry changes; a refused one leaves the entry free and counts a rejection.\<close>

theorem OrderManager_Submit_spec:
  fixes oms :: "'a oms" and env :: "'a oms_env"
  assumes c: "cmd_ok cmd" and l: "length (om_orders oms) = MAX_INFLIGHT_ORDERS"
  defines "res \<equiv> OrderManager_Submit env oms cmd" and "s \<equiv> free_order_slot oms"
  shows "om_next_order_id (snd res) = om_next_order_id oms + 1 \<and>
    (if om_order_bitmap oms = - 1 then fst res = 0 \<and> oms_table (snd res) = oms_table oms
     else s < MAX_INFLIGHT_ORDERS \<and> \<not> bit (om_order_bitmap oms) s \<and> (\<forall>j. j < s \<longrightarrow> bit (om_order_bitmap oms) j) \<and>
       (\<forall>j. j \<noteq> s \<longrightarrow> om_orders (snd res) ! j = om_orders oms ! j) \<and>
       (if submit_accepts env oms cmd s
        then OMS_OrderIdSlot (fst res) = s \<and>
          OMS_OrderIdNode (fst res) = nat (slot_node (sc_portfolio_slot cmd) (oms_partial_on oms)) \<and>
          fst res AND ORDER_ID_COUNTER_MASK = om_next_order_id oms AND ORDER_ID_COUNTER_MASK \<and>
          om_order_bitmap (snd res) = BITMAP_SET (om_order_bitmap oms) (BITMAP_BIT s) \<and>
          o_id (om_orders (snd res) ! s) = fst res \<and> Order_GetState (om_orders (snd res) ! s) = ORDER_SUBMITTED \<and>
          Order_GetType (om_orders (snd res) ! s) = sc_order_type cmd \<and>
          o_requested_qty (om_orders (snd res) ! s) = sc_qty cmd \<and> o_filled_qty (om_orders (snd res) ! s) = Money_Zero \<and>
          pr_fee_rate (o_pre_resolved (om_orders (snd res) ! s)) =
            (case sc_node_cfg cmd of Some cfg \<Rightarrow> nc_fee_rate_taker cfg | None \<Rightarrow> Money 0)
        else fst res = 0 \<and> om_order_bitmap (snd res) = om_order_bitmap oms \<and>
          om_total_rejected (snd res) = om_total_rejected oms + 1 \<and>
          Order_GetState (om_orders (snd res) ! s) = ORDER_REJECTED))"
proof (cases "om_order_bitmap oms = - 1")
  case True
  then show ?thesis by (simp add: res_def submit_full [OF True] oms_table_def)
next
  case False
  note fs = free_slot [OF not_full [OF False], folded free_order_slot_def, folded s_def]
  have i: "s < length (om_orders oms)" using fs(1) l by (simp add: MAX_INFLIGHT_ORDERS_def)
  note lanes = submit_id_lanes [OF c fs(1)] submit_id_counter
  show ?thesis
  proof (cases "submit_accepts env oms cmd s")
    case True
    have t: "fst res = submit_id oms cmd s" "om_order_bitmap (snd res) = BITMAP_SET (om_order_bitmap oms) (BITMAP_BIT s)"
      "om_orders (snd res) = (om_orders oms)[s := submitted_order (env_now_us env) cmd (submit_id oms cmd s) (om_orders oms ! s)]"
      using submit_table(1) [OF False, folded s_def, OF True] by (simp_all add: oms_table_def res_def)
    have n: "om_next_order_id (snd res) = om_next_order_id oms + 1" by (simp add: res_def submit_frame)
    have r: "pr_fee_rate (o_pre_resolved (submitted_order t cmd oid od)) =
        (case sc_node_cfg cmd of Some cfg \<Rightarrow> nc_fee_rate_taker cfg | None \<Rightarrow> Money 0)" for t oid od
      by (simp add: submitted_order_facts Let_def NULL_PER_NODE_CFG_STUB_def split: option.split)
    show ?thesis
      using False True fs i by (simp add: t n r lanes submitted_order_facts(1-6) MAX_INFLIGHT_ORDERS_def)
  next
    case rej: False
    from submit_table(2) [OF False, folded s_def res_def, OF rej]
    show ?thesis
      using False rej fs i by (simp add: res_def set_then_clear MAX_INFLIGHT_ORDERS_def)
  qed
qed

subsection \<open>A final result counts once\<close>

lemma fill_slot_facts:
  assumes "fill_slot oms oid = Some s"
  shows "s = OMS_OrderIdSlot oid" "s < 16" "bit (om_order_bitmap oms) s" "o_id (om_orders oms ! s) = oid"
proof -
  have m: "s = OMS_OrderIdSlot oid" "om_order_bitmap oms AND BITMAP_BIT s \<noteq> 0" "o_id (om_orders oms ! s) = oid"
    using assms by (auto simp: fill_slot_def Let_def order_at_def split: if_splits)
  then show "s = OMS_OrderIdSlot oid" "s < 16" "o_id (om_orders oms ! s) = oid" using id_slot_lt(1) by simp_all
  with m(2) show "bit (om_order_bitmap oms) s" using is_set_bit [of s "om_order_bitmap oms"] by (simp add: BITMAP_IS_SET_def)
qed

lemma fill_slot_freed:
  assumes "OMS_OrderIdSlot oid = s" "Order_IsTerminal (order_at oms s)"
  shows "fill_slot (free_if_terminal s oms) oid = None"
proof -
  have "om_order_bitmap (free_if_terminal s oms) AND BITMAP_BIT s = 0"
    by (rule bit_word_eqI) (auto simp: free_if_terminal_def assms bit_clr [unfolded BITMAP_CLR_def] BITMAP_BIT_def bit_simps)
  then show ?thesis by (simp add: fill_slot_def assms)
qed

lemma process_failure_state:
  assumes "s < length (om_orders oms)"
  shows "Order_GetState (order_at (process_failure env s r oms) s) = ORDER_REJECTED"
  using assms by (simp add: process_failure_def Let_def order_at_def)

lemma order_state_terminal: "Order_GetState od \<in> {ORDER_FILLED, ORDER_REJECTED, ORDER_CANCELED} \<Longrightarrow> Order_IsTerminal od"
  by (auto simp: Order_IsTerminal_def)

context fill_sink
begin

lemma apply_leg_complete:
  assumes "env_emit env = emit" "s < length (om_orders oms)" "rs_order_complete r \<noteq> 0"
  shows "Order_GetState (order_at (apply_leg env s r oms) s) = ORDER_FILLED"
  using assms(2,3) by (simp add: apply_leg_def Let_def order_at_def handle_fill_frame [OF assms(1)])

lemma final_result_frees:
  assumes env: "env_emit env = emit" and len: "length (om_orders oms) = MAX_INFLIGHT_ORDERS"
    and p: "OrderManager_ProcessFillCommand env oms cmd = (True, oms')"
    and final: "rs_success (cm_result cmd) = 0 \<or> rs_order_complete (cm_result cmd) \<noteq> 0 \<and> f64_gt (rs_fill_qty (cm_result cmd)) (F64_Fin 0)"
  shows "fill_slot oms' (cm_order_id cmd) = None"
proof -
  let ?r = "cm_result cmd"
  obtain s where s: "fill_slot oms (cm_order_id cmd) = Some s"
    using p by (auto simp: OrderManager_ProcessFillCommand_def split: option.splits if_splits)
  have i: "s < length (om_orders oms)" using fill_slot_facts(2) [OF s] len by (simp add: MAX_INFLIGHT_ORDERS_def)
  note lane = fill_slot_facts(1) [OF s, symmetric]
  show ?thesis
  proof (cases "rs_success ?r = 0")
    case True
    then have "oms' = free_if_terminal s (process_failure env s ?r oms)"
      using p by (simp add: OrderManager_ProcessFillCommand_def s Let_def split: if_splits)
    then show ?thesis
      by (simp add: fill_slot_freed [OF lane order_state_terminal] process_failure_state [OF i])
  next
    case False
    define o2 where "o2 = set_order s (\<lambda>od. od\<lparr>o_avg_fill_price := Money (money_from_double_payload (rs_avg_fill_price ?r))\<rparr>)
      (set_order s (\<lambda>od. od\<lparr>o_exchange_id := c_copy 63 (rs_exchange_id ?r)\<rparr>) oms)"
    have f: "rs_order_complete ?r \<noteq> 0" "f64_gt (rs_fill_qty ?r) (F64_Fin 0)" using final False by simp_all
    then have "\<not> f64_eq (rs_fill_qty ?r) (F64_Fin 0)" by (cases "rs_fill_qty ?r") (auto simp: f64_gt_def f64_eq_def)
    then have "oms' = free_if_terminal s (apply_leg env s ?r o2)"
      using p False f by (simp add: OrderManager_ProcessFillCommand_def s Let_def o2_def split: if_splits)
    moreover have "s < length (om_orders o2)" using i by (simp add: o2_def)
    ultimately show ?thesis
      by (simp add: fill_slot_freed [OF lane order_state_terminal] apply_leg_complete [OF env _ f(1)])
  qed
qed

end

text \<open>C4: A final result counts once.  Once a rejection, or a fill that completes its order, has been
  applied, any further result for that order id, from the REST path or the websocket, is refused and
  changes nothing.\<close>

theorem final_result_applied_once:
  assumes "direct_env env" "length (om_orders oms) = MAX_INFLIGHT_ORDERS"
    and "OrderManager_ProcessFillCommand env oms cmd = (True, oms')"
    and "rs_success (cm_result cmd) = 0 \<or> rs_order_complete (cm_result cmd) \<noteq> 0 \<and> f64_gt (rs_fill_qty (cm_result cmd)) (F64_Fin 0)"
    and "cm_order_id again = cm_order_id cmd"
  shows "OrderManager_ProcessFillCommand env' oms' again = (False, oms')"
  using direct.final_result_frees [OF assms(1) [unfolded direct_env_def] assms(2-4)]
  by (simp add: OrderManager_ProcessFillCommand_def assms(5))

subsection \<open>A refused re-submission\<close>

lemma id_slot_zero: "OMS_OrderIdSlot 0 = 0"
  by (simp add: OMS_OrderIdSlot_def)

text \<open>C40: A refused exit of a remainder.  When the venue ends a sell short of filled and the adapter refuses
  the exit for the remainder, the submission returns id 0, whose slot lane is 0: the rates of the dead
  order then overwrite those of entry 0, whatever order that entry holds.\<close>

theorem refused_resubmit_overwrites_entry_zero:
  assumes "oms_live oms" "env_submit_buy env = None" "length (om_orders oms) = MAX_INFLIGHT_ORDERS"
    and "s < MAX_INFLIGHT_ORDERS" "s \<noteq> 0" "bit (om_order_bitmap oms) 0"
    and "Order_GetType (order_at oms s) = ORDER_MARKET_SELL"
    and "Portfolio_SlotActive (om_portfolio oms) (nat (o_portfolio_slot (order_at oms s)))"
    and "\<not> Money_IsZero (p_quantity (pf_positions (om_portfolio oms) ! nat (o_portfolio_slot (order_at oms s))))"
  shows "o_pre_resolved (order_at (terminal_incomplete env s oms) 0) = o_pre_resolved (order_at oms s) \<and>
    bit (om_order_bitmap (terminal_incomplete env s oms)) 0 \<and>
    o_id (order_at (terminal_incomplete env s oms) 0) = o_id (order_at oms 0)"
proof -
  let ?c = "set_order s (\<lambda>od. Order_SetState od ORDER_CANCELED) oms"
  define dead where "dead = order_at ?c s"
  define remaining where "remaining = (if Portfolio_SlotActive (om_portfolio ?c) (nat (o_portfolio_slot dead))
    then p_quantity (pf_positions (om_portfolio ?c) ! nat (o_portfolio_slot dead)) else Money_Zero)"
  define cleared where "cleared = ?c\<lparr>om_order_bitmap := om_order_bitmap ?c AND NOT (BITMAP_BIT s)\<rparr>"
  define logged where "logged = (if oms_event_log_on cleared
    then OMS_EventFunnelPush env cleared (terminal_event dead remaining) (o_portfolio_slot dead) else cleared)"
  define re where "re = (SubmitCommand_make (o_portfolio_slot dead) ORDER_MARKET_SELL remaining
      (word_of_int (o_portfolio_slot dead AND 1)) None)
     \<lparr>sc_intended_tp := o_intended_tp dead, sc_intended_sl := o_intended_sl dead,
      sc_strategy_id := o_strategy_id dead, sc_event_price := o_avg_fill_price dead\<rparr>"
  have i: "s < length (om_orders oms)" using assms(3,4) by simp
  have d: "dead = Order_SetState (order_at oms s) ORDER_CANCELED" using i by (simp add: dead_def order_at_def)
  have l: "om_orders logged = (om_orders oms)[s := dead]" "om_oms_state_flags logged = om_oms_state_flags oms"
    "om_order_bitmap logged = om_order_bitmap oms AND NOT (BITMAP_BIT s)"
    by (simp_all add: logged_def cleared_def d order_at_def)
  have nf: "om_order_bitmap logged \<noteq> - 1"
  proof
    assume "om_order_bitmap logged = - 1"
    then have "bit (om_order_bitmap logged) s" using assms(4) by (simp add: MAX_INFLIGHT_ORDERS_def)
    then show False by (simp add: l bit_clr [unfolded BITMAP_CLR_def])
  qed
  have ref: "\<not> submit_accepts env logged re (free_order_slot logged)"
    using assms(1,2) oms_live_cong(1) [OF l(2)] by (simp add: submit_accepts_def adapter_submit_def)
  note sub = submit_table(2) [OF nf ref]
  note fs = free_slot [OF not_full [OF nf], folded free_order_slot_def]
  have b0: "bit (om_order_bitmap logged) 0" using assms(5,6) by (simp add: l bit_clr [unfolded BITMAP_CLR_def])
  then have f0: "free_order_slot logged \<noteq> 0" using fs(2) by metis
  have "terminal_incomplete env s oms = set_order 0 (\<lambda>od. od\<lparr>o_pre_resolved := o_pre_resolved dead\<rparr>)
      (reject_submit (free_order_slot logged) (submit_entered env logged re (free_order_slot logged)))"
  proof -
    have "terminal_incomplete env s oms = (if Order_GetType dead = ORDER_MARKET_SELL \<and> \<not> Money_IsZero remaining
       then let (rid, oms') = OrderManager_Submit env logged re
            in set_order (OMS_OrderIdSlot rid) (\<lambda>od. od\<lparr>o_pre_resolved := o_pre_resolved dead\<rparr>) oms'
       else logged)"
      unfolding terminal_incomplete_def Let_def dead_def remaining_def cleared_def logged_def re_def ..
    moreover have "Order_GetType dead = ORDER_MARKET_SELL" "o_portfolio_slot dead = o_portfolio_slot (order_at oms s)"
      using assms(7) by (simp_all add: d)
    ultimately show ?thesis using assms(8,9) by (simp add: remaining_def sub id_slot_zero)
  qed
  then show ?thesis using assms(3,5) f0 b0 set_then_clear [OF fs(2)]
    by (simp add: order_at_def l d MAX_INFLIGHT_ORDERS_def)
qed

subsection \<open>Which operations touch the queues\<close>

definition oms_queues :: "'a oms \<Rightarrow> Command spsc_ring list \<times> Command spsc_ring \<times> Command spsc_ring \<times> SubmitCommand spsc_ring list" where
  "oms_queues oms = (om_result_rings oms, om_ws_result_queue oms, om_reconcile_queue oms, om_submit_queues oms)"

definition push_ring :: "Command \<Rightarrow> Command spsc_ring list \<Rightarrow> Command spsc_ring list" where
  "push_ring c rings = (let n = OMS_OrderIdNode (cm_order_id c) in rings[n := snd (SPSCRing_TryPush (rings ! n) c)])"

text \<open>A result the manager feeds back to itself never ends its order early: only paper fills are.\<close>

definition may_feed :: "bool \<Rightarrow> Command spsc_ring list \<Rightarrow> Command spsc_ring list \<Rightarrow> bool" where
  "may_feed b rings rings' \<longleftrightarrow>
     rings' = rings \<or> b \<and> (\<exists>c. rs_venue_terminal (cm_result c) = 0 \<and> rings' = push_ring c rings)"

text \<open>The queues after an operation: the results as before, or with one more fed back.\<close>

definition feeds :: "bool \<Rightarrow> 'a oms \<Rightarrow> 'a oms \<Rightarrow> bool" where
  "feeds b oms oms' \<longleftrightarrow> may_feed b (om_result_rings oms) (om_result_rings oms') \<and> snd (oms_queues oms') = snd (oms_queues oms)"

lemma feeds_same: "oms_queues oms' = oms_queues oms \<Longrightarrow> feeds b oms oms'"
  by (simp add: feeds_def may_feed_def oms_queues_def)

lemma feeds_cong: "feeds b oms oms' \<Longrightarrow> oms_queues o2 = oms_queues oms \<Longrightarrow> oms_queues o3 = oms_queues oms' \<Longrightarrow> feeds b o2 o3"
  by (simp add: feeds_def oms_queues_def)

lemma queues_simps [simp]:
  "oms_queues (set_order i f oms) = oms_queues oms" "oms_queues (submit_entered env oms cmd s) = oms_queues oms"
  "oms_queues (reject_submit s oms) = oms_queues oms" "oms_queues (free_if_terminal s oms) = oms_queues oms"
  "oms_queues (sell_trade_memory p fl ret net n oms) = oms_queues oms" "oms_queues (sell_slot_memory p fl px fee oms) = oms_queues oms"
  "oms_queues (oms\<lparr>om_portfolio := pf\<rparr>) = oms_queues oms" "oms_queues (oms\<lparr>om_order_bitmap := bm\<rparr>) = oms_queues oms"
  "oms_queues (oms\<lparr>om_total_rejected := k\<rparr>) = oms_queues oms" "oms_queues (oms\<lparr>om_total_filled := k\<rparr>) = oms_queues oms"
  "oms_queues (oms\<lparr>om_next_order_id := oid\<rparr>) = oms_queues oms" "oms_queues (oms\<lparr>om_fill_emit_seq := sq\<rparr>) = oms_queues oms"
  by (simp_all add: oms_queues_def set_order_def submit_entered_def reject_submit_def free_if_terminal_def
      sell_trade_memory_def sell_slot_memory_def Let_def)

lemma funnel_push_queues [simp]: "oms_queues (OMS_EventFunnelPush env oms ev slot) = oms_queues oms"
  using arg_cong [OF funnel_push_same [unfolded same_but_events_def, of env oms ev slot], of oms_queues]
  by (simp add: without_events_def oms_queues_def)

lemma reconcile_queues [simp]: "oms_queues (OrderManager_ProcessReconcile env oms cmd) = oms_queues oms"
  by (simp add: OrderManager_ProcessReconcile_def)

lemma process_failure_queues [simp]: "oms_queues (process_failure env s r oms) = oms_queues oms"
  by (simp add: process_failure_def Let_def)

lemma result_push_queues:
  "oms_queues (snd (OMS_ResultPush oms c)) = (push_ring c (om_result_rings oms), snd (oms_queues oms))"
  by (simp add: OMS_ResultPush_def push_ring_def oms_queues_def Let_def split_def)

lemma submit_feeds: "feeds True oms (snd (OrderManager_Submit env oms cmd))"
proof (cases "om_order_bitmap oms = - 1 \<or> oms_live oms")
  case True
  have "oms_queues (snd (OrderManager_Submit env oms cmd)) = oms_queues oms"
    using True by (auto simp: OrderManager_Submit_def Let_def submit_live_entered)
  then show ?thesis by (rule feeds_same)
next
  case False
  then obtain oms1 c where "snd (OrderManager_Submit env oms cmd) = snd (OMS_ResultPush oms1 c)"
    "oms_queues oms1 = oms_queues oms" "rs_venue_terminal (cm_result c) = 0"
    using not_full [of oms] that [of "submit_entered env oms cmd (free_order_slot oms)"]
    by (simp add: OrderManager_Submit_def Let_def submit_live_entered free_order_slot_def)
      (simp add: paper_result_def result_zero_def)
  then show ?thesis using result_push_queues [of oms1 c] by (auto simp: feeds_def may_feed_def oms_queues_def)
qed

lemma terminal_incomplete_feeds: "feeds True oms (terminal_incomplete env s oms)"
proof -
  have "oms_queues o1 = oms_queues oms \<Longrightarrow> feeds True oms (set_order k f (snd (OrderManager_Submit env o1 cmd)))" for o1 k f cmd
    by (rule feeds_cong [OF submit_feeds]) simp_all
  then show ?thesis unfolding terminal_incomplete_def Let_def split_def by (simp add: feeds_same)
qed

locale quiet_sink = fill_sink emit for emit :: "'a oms \<Rightarrow> FillEvent \<Rightarrow> 'a oms" +
  assumes emit_queues: "oms_queues (emit oms fe) = oms_queues oms"
begin

lemma handle_fill_queues:
  assumes "env_emit env = emit"
  shows "oms_queues (OrderManager_HandleFill env oms od px q c a) = oms_queues oms"
proof -
  have e: "oms_queues (emit_fill env o1 od b fl q px fee net n efl) = oms_queues o1" for o1 b fl q px fee net n efl
    by (simp add: emit_fill_def Let_def assms emit_queues)
  have m: "oms_queues (oms'\<lparr>om_portfolio := pf, om_last_opened_mask := k\<rparr>) = oms_queues oms'" for oms' :: "'a oms" and pf k
    by (simp add: oms_queues_def)
  have "oms_queues (handle_buy_fill env o1 od px q fee) = oms_queues o1"
    "oms_queues (handle_sell_fill env o1 od px q fee) = oms_queues o1" for o1 q fee
    by (simp_all add: handle_buy_fill_def handle_sell_fill_def sell_book_eq Let_def e m)
  then show ?thesis by (simp add: OrderManager_HandleFill_def g_fill_dispatch_def Let_def split: OrderType.split)
qed

lemma process_feeds:
  assumes "env_emit env = emit"
  shows "feeds (rs_venue_terminal (cm_result cmd) \<noteq> 0) oms (snd (OrderManager_ProcessFillCommand env oms cmd))"
proof -
  let ?r = "cm_result cmd"
  have t: "feeds True oms (terminal_incomplete env s o1)" if "oms_queues o1 = oms_queues oms" for s o1
    by (rule feeds_cong [OF terminal_incomplete_feeds]) (simp_all add: that)
  have leg: "feeds (rs_venue_terminal ?r \<noteq> 0) oms (apply_leg env s ?r o1)" if "oms_queues o1 = oms_queues oms" for s o1
    using that t unfolding apply_leg_def Let_def by (simp add: handle_fill_queues [OF assms] feeds_same)
  have "feeds (rs_venue_terminal ?r \<noteq> 0) oms (free_if_terminal s (apply_leg env s ?r o1))" if "oms_queues o1 = oms_queues oms" for s o1
    by (rule feeds_cong [OF leg [OF that]]) simp_all
  then show ?thesis
    unfolding OrderManager_ProcessFillCommand_def Let_def by (simp add: feeds_same split: option.split)
qed

end

interpretation direct: quiet_sink OrderManager_FillEmitDirect
  by unfold_locales (simp add: OrderManager_FillEmitDirect_def OrderManager_LedgerApplyFill_def
      OrderManager_AccountMakerTakerFee_def oms_queues_def Let_def)

subsection \<open>Draining the results\<close>

text \<open>The work a queued result is: a result that ends its order early may feed one more back.\<close>

definition result_weight :: "Command \<Rightarrow> nat" where
  "result_weight c = (if rs_venue_terminal (cm_result c) = 0 then 1 else 2)"

definition ring_work :: "Command spsc_ring \<Rightarrow> nat" where
  "ring_work r = sum_list (map result_weight (ring_items r))"

definition result_work :: "Command spsc_ring list \<Rightarrow> nat" where
  "result_work rings = sum_list (map ring_work rings)"

text \<open>Sixteen well-formed rings, each with room for \<open>w\<close> more pushes before its counter runs out.\<close>

definition rings_ready :: "nat \<Rightarrow> Command spsc_ring list \<Rightarrow> bool" where
  "rings_ready w rings \<longleftrightarrow> length rings = MAX_EXECUTION_NODES \<and> (\<forall>r \<in> set rings. ring_ok r \<and> w \<le> ring_room r)"

lemma rings_ready_mono: "rings_ready w rings \<Longrightarrow> v \<le> w \<Longrightarrow> rings_ready v rings"
  by (auto simp: rings_ready_def)

lemma rings_ready_nth: "rings_ready w rings \<Longrightarrow> n < 16 \<Longrightarrow> ring_ok (rings ! n) \<and> w \<le> ring_room (rings ! n)"
  by (simp add: rings_ready_def MAX_EXECUTION_NODES_def)

lemma rings_ready_update:
  assumes "rings_ready w rings" "ring_ok r" "v \<le> ring_room r" "v \<le> w"
  shows "rings_ready v (rings[n := r])"
  unfolding rings_ready_def
proof (intro conjI ballI)
  show "length (rings[n := r]) = MAX_EXECUTION_NODES" using assms(1) by (simp add: rings_ready_def)
  fix ra
  assume "ra \<in> set (rings[n := r])"
  then have "ra = r \<or> ra \<in> set rings" using set_update_subset_insert [of rings n r] by blast
  then show "ring_ok ra" "v \<le> ring_room ra" using assms unfolding rings_ready_def by (auto intro: order_trans)
qed

lemma result_work_update:
  assumes "n < length rings"
  shows "result_work (rings[n := r]) + ring_work (rings ! n) = result_work rings + ring_work r"
proof -
  have "ring_work (rings ! n) \<le> result_work rings"
    using assms unfolding result_work_def by (intro member_le_sum_list) auto
  moreover have "result_work (rings[n := r]) = result_work rings + ring_work r - ring_work (rings ! n)"
    using assms by (simp add: result_work_def map_update sum_list_update)
  ultimately show ?thesis by simp
qed

lemma push_ring_work:
  assumes "rings_ready (Suc w) rings" "rs_venue_terminal (cm_result c) = 0"
  shows "rings_ready w (push_ring c rings)" "result_work (push_ring c rings) \<le> Suc (result_work rings)"
proof -
  let ?n = "OMS_OrderIdNode (cm_order_id c)"
  obtain b r where p: "SPSCRing_TryPush (rings ! ?n) c = (b, r)" by fastforce
  have n: "?n < length rings" using assms(1) id_slot_lt(2) by (simp add: rings_ready_def MAX_EXECUTION_NODES_def)
  have ok: "ring_ok (rings ! ?n)" "Suc w \<le> ring_room (rings ! ?n)"
    using rings_ready_nth [OF assms(1) id_slot_lt(2)] by simp_all
  then have "ring_ok r" "w \<le> ring_room r" "ring_items r = (if b then ring_items (rings ! ?n) @ [c] else ring_items (rings ! ?n))"
    using ring.push_law [OF ok(1) _ p] by simp_all
  then show "rings_ready w (push_ring c rings)" "result_work (push_ring c rings) \<le> Suc (result_work rings)"
    using rings_ready_update [OF assms(1), of r w ?n] result_work_update [OF n, of r] assms(2)
    by (auto simp: push_ring_def p Let_def ring_work_def result_weight_def split: if_splits)
qed

lemma may_feed_work:
  assumes "may_feed (rs_venue_terminal (cm_result c) \<noteq> 0) rings rings'"
    and r: "rings_ready (result_work rings + result_weight c) rings"
  shows "rings_ready (result_work rings') rings' \<and> result_work rings' < result_work rings + result_weight c"
proof (cases "rings' = rings")
  case True
  then show ?thesis using r by (auto simp: result_weight_def elim: rings_ready_mono)
next
  case False
  then obtain d where d: "rs_venue_terminal (cm_result c) \<noteq> 0" "rs_venue_terminal (cm_result d) = 0" "rings' = push_ring d rings"
    using assms(1) by (auto simp: may_feed_def)
  have "rings_ready (Suc (result_work rings + 1)) rings" using r d(1) by (simp add: result_weight_def)
  note p = push_ring_work [OF this d(2), folded d(3)] push_ring_work(2) [OF this d(2), folded d(3)]
  show ?thesis using p d(1) by (auto simp: result_weight_def elim: rings_ready_mono)
qed

lemma result_pop_from_ok:
  assumes "n + k \<le> 16" "rings_ready w (om_result_rings oms)" "result_pop_from n k oms = (x, oms')"
  shows "rings_ready w (om_result_rings oms') \<and> (\<forall>j. j < n \<longrightarrow> om_result_rings oms' ! j = om_result_rings oms ! j) \<and>
    snd (oms_queues oms') = snd (oms_queues oms) \<and>
    (case x of None \<Rightarrow> result_work (om_result_rings oms') = result_work (om_result_rings oms) \<and>
          (\<forall>j. n \<le> j \<and> j < n + k \<longrightarrow> ring_items (om_result_rings oms' ! j) = [])
     | Some c \<Rightarrow> result_work (om_result_rings oms) = result_work (om_result_rings oms') + result_weight c)"
  using assms
proof (induction n k oms arbitrary: x oms' rule: result_pop_from.induct)
  case (1 n oms)
  then show ?case by auto
next
  case (2 n k oms)
  let ?rs = "om_result_rings oms"
  obtain y r where p: "SPSCRing_TryPop (?rs ! n) = (y, r)" by fastforce
  have n: "n < length ?rs" using 2(2,3) by (simp add: rings_ready_def MAX_EXECUTION_NODES_def)
  have ok: "ring_ok (?rs ! n)" "w \<le> ring_room (?rs ! n)" using rings_ready_nth [OF 2(3)] 2(2) by simp_all
  note l = ring.pop_law [OF ok(1) p]
  define o1 where "o1 = oms\<lparr>om_result_rings := ?rs[n := r]\<rparr>"
  have r1: "rings_ready w (om_result_rings o1)" using rings_ready_update [OF 2(3), of r w n] l ok by (simp add: o1_def)
  have w1: "result_work (om_result_rings o1) + ring_work (?rs ! n) = result_work ?rs + ring_work r"
    using result_work_update [OF n, of r] by (simp add: o1_def)
  have q1: "snd (oms_queues o1) = snd (oms_queues oms)" by (simp add: o1_def oms_queues_def)
  show ?case
  proof (cases y)
    case None
    have e: "ring_items (?rs ! n) = []" "ring_items r = []" using l None by (auto split: list.splits)
    have r2: "result_pop_from (n + 1) k o1 = (x, oms')" using 2(4) by (simp add: p None o1_def)
    have b: "n + 1 + k \<le> 16" using 2(2) by simp
    note i = 2(1) [OF p [symmetric] None b r1 [unfolded o1_def] r2 [unfolded o1_def]]
    have "result_work (om_result_rings o1) = result_work ?rs" using w1 e by (simp add: ring_work_def)
    moreover have "om_result_rings oms' ! n = r" using i n by (simp add: o1_def)
    moreover have "om_result_rings o1 ! j = ?rs ! j" if "j < n" for j using that by (simp add: o1_def)
    moreover have "ring_items (om_result_rings oms' ! j) = []" if "x = None" "n \<le> j" "j < n + Suc k" for j
      using that i e(2) calculation(2) by (cases "j = n") (auto simp: o1_def)
    ultimately show ?thesis using i q1 by (auto simp: o1_def split: option.splits)
  next
    case (Some c)
    have "x = Some c" "oms' = o1" using 2(4) by (simp_all add: p Some o1_def)
    moreover have "ring_work (?rs ! n) = result_weight c + ring_work r"
      using l Some by (auto simp: ring_work_def split: list.splits)
    ultimately show ?thesis using r1 w1 q1 by (simp add: o1_def)
  qed
qed


lemma result_pop_ok:
  assumes "rings_ready w (om_result_rings oms)" "OMS_ResultPop oms = (x, oms')"
  shows "rings_ready w (om_result_rings oms')" "snd (oms_queues oms') = snd (oms_queues oms)"
    "x = None \<Longrightarrow> \<forall>r \<in> set (om_result_rings oms'). ring_items r = []"
    "x = Some c \<Longrightarrow> result_work (om_result_rings oms) = result_work (om_result_rings oms') + result_weight c"
proof -
  note i = result_pop_from_ok [OF _ assms(1) assms(2) [unfolded OMS_ResultPop_def MAX_EXECUTION_NODES_def], simplified]
  show 1: "rings_ready w (om_result_rings oms')" "snd (oms_queues oms') = snd (oms_queues oms)" using i by simp_all
  show "x = None \<Longrightarrow> \<forall>r \<in> set (om_result_rings oms'). ring_items r = []"
    using i 1(1) by (auto simp: in_set_conv_nth rings_ready_def MAX_EXECUTION_NODES_def)
  show "x = Some c \<Longrightarrow> result_work (om_result_rings oms) = result_work (om_result_rings oms') + result_weight c"
    using i by simp
qed

context quiet_sink
begin

lemma tick_results_returns:
  assumes "env_emit env = emit" "rings_ready (result_work (om_result_rings oms)) (om_result_rings oms)"
    and "result_work (om_result_rings oms) < fuel"
  shows "\<exists>oms'. tick_results fuel env oms = Some oms' \<and> snd (oms_queues oms') = snd (oms_queues oms) \<and>
    (\<forall>r \<in> set (om_result_rings oms'). ring_items r = []) \<and> (\<exists>w. rings_ready w (om_result_rings oms'))"
  using assms(2,3)
proof (induction fuel arbitrary: oms)
  case 0
  then show ?case by simp
next
  case (Suc n)
  obtain x o1 where x: "OMS_ResultPop oms = (x, o1)" by fastforce
  note p = result_pop_ok [OF Suc.prems(1) x]
  show ?case
  proof (cases x)
    case None
    then show ?thesis using p(1,2) p(3) [OF None] by (auto simp: x)
  next
    case (Some c)
    define o2 where "o2 = (if cm_type c = CMD_FILL_RESULT then snd (OrderManager_ProcessFillCommand env o1 c) else o1)"
    have f: "feeds (rs_venue_terminal (cm_result c) \<noteq> 0) o1 o2"
      by (simp add: o2_def process_feeds [OF assms(1)] feeds_same)
    note w = may_feed_work [of c "om_result_rings o1" "om_result_rings o2"]
    have g: "rings_ready (result_work (om_result_rings o2)) (om_result_rings o2)"
      "result_work (om_result_rings o2) < n"
      using w f p(1) p(4) [OF Some] Suc.prems(2) by (auto simp: feeds_def)
    have "tick_results (Suc n) env oms = tick_results n env o2" by (simp add: x Some o2_def)
    then show ?thesis using Suc.IH [OF g] f p(2) by (simp add: feeds_def)
  qed
qed

lemma tick_ws_returns:
  assumes "env_emit env = emit" "ring_ok (om_ws_result_queue oms)" "length (ring_items (om_ws_result_queue oms)) < fuel"
  shows "\<exists>oms'. tick_ws fuel env oms = Some oms' \<and> om_reconcile_queue oms' = om_reconcile_queue oms \<and>
    om_submit_queues oms' = om_submit_queues oms \<and> ring_items (om_ws_result_queue oms') = []"
  using assms(2,3)
proof (induction fuel arbitrary: oms)
  case 0
  then show ?case by simp
next
  case (Suc n)
  obtain x r where x: "SPSCRing_TryPop (om_ws_result_queue oms) = (x, r)" by fastforce
  note l = ring.pop_law [OF Suc.prems(1) x]
  show ?case
  proof (cases x)
    case None
    then show ?thesis using l by (auto simp: x split: list.splits)
  next
    case (Some c)
    define o1 where "o1 = oms\<lparr>om_ws_result_queue := r\<rparr>"
    define o2 where "o2 = (if cm_type c = CMD_WS_FILL then snd (OrderManager_ProcessFillCommand env o1 c) else o1)"
    have "feeds (rs_venue_terminal (cm_result c) \<noteq> 0) o1 o2"
      by (simp add: o2_def process_feeds [OF assms(1)] feeds_same)
    then have q: "om_ws_result_queue o2 = r" "om_reconcile_queue o2 = om_reconcile_queue oms" "om_submit_queues o2 = om_submit_queues oms"
      by (simp_all add: feeds_def oms_queues_def o1_def)
    have e: "tick_ws (Suc n) env oms = tick_ws n env o2" by (simp add: x Some o1_def o2_def)
    have "ring_ok (om_ws_result_queue o2)" "length (ring_items (om_ws_result_queue o2)) < n"
      using l Suc.prems(2) Some by (auto simp: q split: list.splits)
    from Suc.IH [OF this] show ?thesis unfolding e q .
  qed
qed

end

lemma tick_reconcile_returns:
  assumes "ring_ok (om_reconcile_queue oms)" "length (ring_items (om_reconcile_queue oms)) < fuel"
  shows "\<exists>oms'. tick_reconcile fuel env oms = Some oms' \<and> om_ws_result_queue oms' = om_ws_result_queue oms \<and>
    om_submit_queues oms' = om_submit_queues oms \<and> ring_items (om_reconcile_queue oms') = []"
  using assms
proof (induction fuel arbitrary: oms)
  case 0
  then show ?case by simp
next
  case (Suc n)
  obtain x r where x: "SPSCRing_TryPop (om_reconcile_queue oms) = (x, r)" by fastforce
  note l = ring.pop_law [OF Suc.prems(1) x]
  show ?case
  proof (cases x)
    case None
    then show ?thesis using l by (auto simp: x split: list.splits)
  next
    case (Some c)
    define o1 where "o1 = oms\<lparr>om_reconcile_queue := r\<rparr>"
    define o2 where "o2 = (if cm_type c = CMD_RECONCILE then OrderManager_ProcessReconcile env o1 c else o1)"
    have "oms_queues o2 = oms_queues o1" by (simp add: o2_def)
    then have q: "om_reconcile_queue o2 = r" "om_ws_result_queue o2 = om_ws_result_queue oms" "om_submit_queues o2 = om_submit_queues oms"
      by (simp_all add: oms_queues_def o1_def)
    have e: "tick_reconcile (Suc n) env oms = tick_reconcile n env o2" by (simp add: x Some o1_def o2_def)
    have "ring_ok (om_reconcile_queue o2)" "length (ring_items (om_reconcile_queue o2)) < n"
      using l Suc.prems(2) Some by (auto simp: q split: list.splits)
    from Suc.IH [OF this] show ?thesis unfolding e q .
  qed
qed

lemma stale_sweep_queues: "oms_queues (stale_sweep env oms) = oms_queues oms"
  by (rule stale_sweep_rule [of "\<lambda>u. oms_queues u = oms_queues oms"]) simp_all

text \<open>C6: A tick ends.  With well-formed queues and the direct sink, fuel above the queued work (a result
  that ends its order early counts twice, for the exit it may feed back) is enough: the tick returns,
  and the websocket and reconcile queues are empty after it.\<close>

theorem OrderManager_Tick_returns:
  assumes "direct_env env" "rings_ready (result_work (om_result_rings oms)) (om_result_rings oms)"
    and "ring_ok (om_ws_result_queue oms)" "ring_ok (om_reconcile_queue oms)"
    and "result_work (om_result_rings oms) < fuel" "length (ring_items (om_ws_result_queue oms)) < fuel"
    and "length (ring_items (om_reconcile_queue oms)) < fuel"
  shows "\<exists>oms'. OrderManager_Tick fuel env oms = Some oms' \<and> ring_items (om_ws_result_queue oms') = [] \<and>
    ring_items (om_reconcile_queue oms') = [] \<and> om_submit_queues oms' = om_submit_queues oms"
proof -
  note env = assms(1) [unfolded direct_env_def]
  obtain o1 where o1: "tick_results fuel env oms = Some o1" "snd (oms_queues o1) = snd (oms_queues oms)"
    using direct.tick_results_returns [OF env assms(2,5)] by blast
  then have q: "om_ws_result_queue o1 = om_ws_result_queue oms" "om_reconcile_queue o1 = om_reconcile_queue oms"
    "om_submit_queues o1 = om_submit_queues oms"
    by (simp_all add: oms_queues_def)
  obtain o2 where o2: "tick_ws fuel env o1 = Some o2" "om_reconcile_queue o2 = om_reconcile_queue o1"
    "om_submit_queues o2 = om_submit_queues o1" "ring_items (om_ws_result_queue o2) = []"
    using direct.tick_ws_returns [OF env, of o1 fuel] assms(3,6) q by auto
  obtain o3 where o3: "tick_reconcile fuel env o2 = Some o3" "om_ws_result_queue o3 = om_ws_result_queue o2"
    "om_submit_queues o3 = om_submit_queues o2" "ring_items (om_reconcile_queue o3) = []"
    using tick_reconcile_returns [of o2 fuel env] assms(4,7) q o2(2) by auto
  have "OrderManager_Tick fuel env oms = Some (stale_sweep env o3)" by (simp add: OrderManager_Tick_def o1 o2 o3)
  moreover have "oms_queues (stale_sweep env o3) = oms_queues o3" by (rule stale_sweep_queues)
  ultimately show ?thesis using o2 o3 q by (simp add: oms_queues_def)
qed

subsection \<open>Draining the submit queues\<close>

text \<open>A submission does not read the submit queues.\<close>

lemma submit_ignores_queues:
  "OrderManager_Submit env (oms\<lparr>om_submit_queues := q\<rparr>) cmd =
     (fst (OrderManager_Submit env oms cmd), snd (OrderManager_Submit env oms cmd)\<lparr>om_submit_queues := q\<rparr>)"
proof -
  have e: "submit_id (oms\<lparr>om_submit_queues := q\<rparr>) cmd s = submit_id oms cmd s"
    "submit_entered env (oms\<lparr>om_submit_queues := q\<rparr>) cmd s = submit_entered env oms cmd s\<lparr>om_submit_queues := q\<rparr>" for s
    by (simp_all add: submit_id_def submit_entered_def set_order_def oms_partial_on_def Let_def)
  have p: "OMS_ResultPush (oms\<lparr>om_submit_queues := q\<rparr>) c = (fst (OMS_ResultPush oms c), snd (OMS_ResultPush oms c)\<lparr>om_submit_queues := q\<rparr>)"
    "reject_submit s (oms\<lparr>om_submit_queues := q\<rparr>) = reject_submit s oms\<lparr>om_submit_queues := q\<rparr>"
    "order_at (oms\<lparr>om_submit_queues := q\<rparr>) s = order_at oms s" "oms_live (oms\<lparr>om_submit_queues := q\<rparr>) = oms_live oms"
    for oms :: "'a oms" and c s
    by (simp_all add: OMS_ResultPush_def reject_submit_def set_order_def order_at_def oms_live_def Let_def split_def)
  show ?thesis by (simp add: OrderManager_Submit_def e p Let_def)
qed

definition run_submits :: "'a oms_env \<Rightarrow> SubmitCommand list \<Rightarrow> 'a oms \<Rightarrow> 'a oms" where
  "run_submits env cmds oms = fold (\<lambda>cmd st. snd (OrderManager_Submit env st cmd)) cmds oms"

lemma run_submits_simps [simp]:
  "run_submits env [] oms = oms" "run_submits env (c # cs) oms = run_submits env cs (snd (OrderManager_Submit env oms c))"
  "run_submits env (cs @ ds) oms = run_submits env ds (run_submits env cs oms)"
  by (simp_all add: run_submits_def)

lemma run_submits_queues: "run_submits env cmds (oms\<lparr>om_submit_queues := q\<rparr>) = run_submits env cmds oms\<lparr>om_submit_queues := q\<rparr>"
  by (induction cmds arbitrary: oms) (simp_all add: submit_ignores_queues)

lemma submit_queues_kept: "om_submit_queues (snd (OrderManager_Submit env oms cmd)) = om_submit_queues oms"
  using submit_feeds [of oms env cmd] by (simp add: feeds_def oms_queues_def)

lemma drain_one:
  assumes "s < length (om_submit_queues oms)" "ring_ok (om_submit_queues oms ! s)" "length (ring_items (om_submit_queues oms ! s)) < fuel"
  shows "\<exists>r. drain_submit_queue fuel env s (k, oms) =
    Some (k + length (ring_items (om_submit_queues oms ! s)),
      run_submits env (ring_items (om_submit_queues oms ! s)) oms\<lparr>om_submit_queues := (om_submit_queues oms)[s := r]\<rparr>)"
  using assms
proof (induction fuel arbitrary: k oms)
  case 0
  then show ?case by simp
next
  case (Suc n)
  obtain x r where x: "SPSCRing_TryPop (om_submit_queues oms ! s) = (x, r)" by fastforce
  note l = ring.pop_law [OF Suc.prems(2) x]
  show ?case
  proof (cases x)
    case None
    then show ?thesis using l by (auto simp: x split: list.splits)
  next
    case (Some c)
    define o1 where "o1 = oms\<lparr>om_submit_queues := (om_submit_queues oms)[s := r]\<rparr>"
    define o2 where "o2 = snd (OrderManager_Submit env o1 c)"
    have q: "om_submit_queues o2 = (om_submit_queues oms)[s := r]" by (simp add: o2_def submit_queues_kept o1_def)
    have i: "ring_items (om_submit_queues oms ! s) = c # ring_items r" using l Some by (simp split: list.splits)
    have "s < length (om_submit_queues o2)" "ring_ok (om_submit_queues o2 ! s)" "length (ring_items (om_submit_queues o2 ! s)) < n"
      using Suc.prems l i by (simp_all add: q)
    from Suc.IH [OF this, of "k + 1"] obtain r' where
      "drain_submit_queue n env s (k + 1, o2) = Some (k + 1 + length (ring_items r),
         run_submits env (ring_items r) o2\<lparr>om_submit_queues := (om_submit_queues oms)[s := r']\<rparr>)"
      using Suc.prems(1) by (auto simp: q)
    moreover have "run_submits env (ring_items r) o2\<lparr>om_submit_queues := z\<rparr> =
        run_submits env (c # ring_items r) oms\<lparr>om_submit_queues := z\<rparr>" for z
      by (simp add: o2_def o1_def submit_ignores_queues run_submits_queues)
    moreover have "drain_submit_queue (Suc n) env s (k, oms) = drain_submit_queue n env s (k + 1, o2)"
      by (simp add: x Some o1_def o2_def)
    ultimately show ?thesis by (auto simp: i)
  qed
qed

lemma drain_range:
  assumes "m \<le> length (om_submit_queues oms)" "\<forall>r \<in> set (om_submit_queues oms). ring_ok r \<and> length (ring_items r) < fuel"
  defines "cmds \<equiv> concat (map (\<lambda>s. ring_items (om_submit_queues oms ! s)) [0..<m])"
  shows "\<exists>q. fold (\<lambda>s st. case st of None \<Rightarrow> None | Some st \<Rightarrow> drain_submit_queue fuel env s st) [0..<m] (Some (0, oms)) =
    Some (length cmds, run_submits env cmds oms\<lparr>om_submit_queues := q\<rparr>) \<and>
    length q = length (om_submit_queues oms) \<and> (\<forall>j. m \<le> j \<longrightarrow> q ! j = om_submit_queues oms ! j)"
  using assms(1) unfolding cmds_def
proof (induction m)
  case 0
  then show ?case by (auto intro: exI [of _ "om_submit_queues oms"])
next
  case (Suc m)
  let ?c = "concat (map (\<lambda>s. ring_items (om_submit_queues oms ! s)) [0..<m])"
  let ?o = "\<lambda>q. run_submits env ?c oms\<lparr>om_submit_queues := q\<rparr>"
  obtain q where q: "fold (\<lambda>s st. case st of None \<Rightarrow> None | Some st \<Rightarrow> drain_submit_queue fuel env s st) [0..<m] (Some (0, oms)) =
      Some (length ?c, ?o q)" "length q = length (om_submit_queues oms)" "\<forall>j. m \<le> j \<longrightarrow> q ! j = om_submit_queues oms ! j"
    using Suc by auto
  have m: "m < length q" "q ! m \<in> set (om_submit_queues oms)" using Suc.prems q(2,3) by simp_all
  obtain r where "drain_submit_queue fuel env m (length ?c, ?o q) =
      Some (length ?c + length (ring_items (q ! m)), run_submits env (ring_items (q ! m)) (?o q)\<lparr>om_submit_queues := q[m := r]\<rparr>)"
    using drain_one [of m "?o q" fuel env "length ?c"] m assms(2) by auto
  then show ?case
    using q by (auto simp: run_submits_queues intro!: exI [of _ "q[m := r]"])
qed

text \<open>Submissions leave the queues in order.  Draining runs exactly the queued commands, slot by slot
  and first in first out within a slot, as the same sequence of direct submissions would, and counts
  them; fuel above the longest queue is enough.\<close>

theorem OMS_DrainSubmit_fifo:
  fixes oms :: "'a oms" and num_slots :: int
  assumes "length (om_submit_queues oms) = MAX_PORTFOLIO_POSITIONS"
    and "\<forall>r \<in> set (om_submit_queues oms). ring_ok r \<and> length (ring_items r) < fuel"
  defines "cmds \<equiv> concat (map (\<lambda>s. ring_items (om_submit_queues oms ! s)) [0..<min MAX_PORTFOLIO_POSITIONS (nat num_slots)])"
  shows "\<exists>q. OMS_DrainSubmit fuel env oms num_slots =
    Some (length cmds, fold (\<lambda>cmd st. snd (OrderManager_Submit env st cmd)) cmds oms\<lparr>om_submit_queues := q\<rparr>)"
proof -
  let ?m = "min MAX_PORTFOLIO_POSITIONS (nat num_slots)"
  have m: "(if int MAX_PORTFOLIO_POSITIONS < num_slots then MAX_PORTFOLIO_POSITIONS else nat num_slots) = ?m" by auto
  have "?m \<le> length (om_submit_queues oms)" using assms(1) by simp
  from drain_range [OF this assms(2), of env] show ?thesis
    unfolding OMS_DrainSubmit_def Let_def m cmds_def run_submits_def by blast
qed

end
