(* ===== verification/Order_Replay.thy ===== *)
theory Order_Replay
  imports Order_Calls
begin

text \<open>
  The event log against the ledger: as long as the log has dropped nothing, replaying it from the
  boot balance gives the live balance, the realised profit and the open book.
\<close>

unbundle bit_operations_syntax

subsection \<open>Replay of the log\<close>

text \<open>What the fold and the live handlers must agree on: the active slots, and for each position its
  entry, quantity, entry fee and stop.\<close>

definition pos_core :: "Position \<Rightarrow> Money \<times> Money \<times> Money \<times> Money" where
  "pos_core p = (p_entry_price p, p_quantity p, p_entry_fee p, p_stop_loss_price p)"

definition book :: "Portfolio \<Rightarrow> u16 \<times> (Money \<times> Money \<times> Money \<times> Money) list" where
  "book pf = (pf_active_bitmap pf, map pos_core (pf_positions pf))"

lemma book_length: "book a = book b \<Longrightarrow> length (pf_positions a) = length (pf_positions b)"
  by (auto simp: book_def dest: map_eq_imp_length_eq)

lemma book_at:
  assumes "book a = book b" "i < length (pf_positions a)"
  shows "p_entry_price (pf_positions a ! i) = p_entry_price (pf_positions b ! i)"
    "p_quantity (pf_positions a ! i) = p_quantity (pf_positions b ! i)"
    "p_entry_fee (pf_positions a ! i) = p_entry_fee (pf_positions b ! i)"
    "p_stop_loss_price (pf_positions a ! i) = p_stop_loss_price (pf_positions b ! i)"
proof -
  have "map pos_core (pf_positions a) ! i = map pos_core (pf_positions b) ! i" using assms(1) by (simp add: book_def)
  then have "pos_core (pf_positions a ! i) = pos_core (pf_positions b ! i)"
    using assms book_length [OF assms(1)] by simp
  then show "p_entry_price (pf_positions a ! i) = p_entry_price (pf_positions b ! i)"
    "p_quantity (pf_positions a ! i) = p_quantity (pf_positions b ! i)"
    "p_entry_fee (pf_positions a ! i) = p_entry_fee (pf_positions b ! i)"
    "p_stop_loss_price (pf_positions a ! i) = p_stop_loss_price (pf_positions b ! i)"
    by (simp_all add: pos_core_def)
qed

lemma book_upd:
  assumes "book a = book b" "pos_core (f (pf_positions a ! i)) = pos_core (g (pf_positions b ! i))"
  shows "book (upd_pos a i f) = book (upd_pos b i g)"
  using assms by (simp add: book_def upd_pos_def map_update)

lemma book_bitmap: "book a = book b \<Longrightarrow> book (a\<lparr>pf_active_bitmap := m\<rparr>) = book (b\<lparr>pf_active_bitmap := m\<rparr>)"
  by (simp add: book_def)

lemma book_active: "book a = book b \<Longrightarrow> pf_active_bitmap a = pf_active_bitmap b"
  by (simp add: book_def)

lemma book_accumulate:
  assumes "book a = book b" "i < length (pf_positions a)"
  shows "book (Portfolio_AccumulateSlotLeg a i px q fee) = book (Portfolio_AccumulateSlotLeg b i px q fee)"
  unfolding Portfolio_AccumulateSlotLeg_def
  by (rule book_upd [OF assms(1)]) (simp add: pos_core_def Let_def book_at [OF assms])

lemma book_open:
  assumes "book a = book b" "ea_entry_price x = ea_entry_price y" "ea_quantity x = ea_quantity y"
    "ea_entry_fee x = ea_entry_fee y" "ea_stop_loss_price x = ea_stop_loss_price y"
  shows "book (Portfolio_OpenSlot c a i x) = book (Portfolio_OpenSlot d b i y)"
  unfolding Portfolio_OpenSlot_def Let_def book_active [OF assms(1)]
  by (intro book_bitmap book_upd [OF assms(1)]) (simp add: pos_core_def assms)

lemma book_sell_leg:
  assumes "book a = book b" "i < length (pf_positions a)"
  shows "fst (sell_leg a i px q fee) = fst (sell_leg b i px q fee)"
    "book (snd (snd (sell_leg a i px q fee))) = book (snd (snd (sell_leg b i px q fee)))"
proof -
  obtain l r where c: "Portfolio_ConsumeEntryFeeLeg (p_entry_fee (pf_positions b ! i)) q (p_quantity (pf_positions b ! i)) = (l, r)"
    by fastforce
  let ?f = "\<lambda>p. p\<lparr>p_entry_fee := r\<rparr>"
  let ?a = "upd_pos a i ?f" and ?b = "upd_pos b i ?f"
  have ab: "book ?a = book ?b"
    by (rule book_upd [OF assms(1)]) (simp add: pos_core_def book_at [OF assms])
  have i: "i < length (pf_positions ?a)" using assms(2) by simp
  have g: "fst (Portfolio_CloseSlotLeg ?a i px q) = fst (Portfolio_CloseSlotLeg ?b i px q)"
    by (simp add: Portfolio_CloseSlotLeg_def Let_def book_at [OF ab i])
  have p: "book (snd (Portfolio_CloseSlotLeg ?a i px q)) = book (snd (Portfolio_CloseSlotLeg ?b i px q))"
    unfolding Portfolio_CloseSlotLeg_def Let_def snd_conv book_active [OF ab] book_at [OF ab i]
    by (intro book_bitmap book_upd [OF ab]) (simp add: pos_core_def book_at [OF ab i])
  show "fst (sell_leg a i px q fee) = fst (sell_leg b i px q fee)"
    "book (snd (snd (sell_leg a i px q fee))) = book (snd (snd (sell_leg b i px q fee)))"
    using g p by (simp_all add: sell_leg_def Let_def book_at [OF assms] c split_def)
qed

subsection \<open>One fill, live and replayed\<close>

text \<open>Sums and differences are closed whatever their operands.\<close>

lemma add_always_closed: "money_closed (Money_Add a b)" "money_closed (Money_Sub a b)"
proof -
  have a: "money_closed (Money_Add a b)" for a b
  proof -
    let ?s = "mv a + mv b"
    have o: "MONEY_MAX <s ?s \<or> ?s <s - MONEY_MAX \<longleftrightarrow> money_lim < \<bar>sint ?s\<bar>"
      by (auto simp: word_sless_alt)
    have "mv (Money_Add a b) = (if money_lim < \<bar>sint ?s\<bar> then i128_cneg MONEY_MAX (sint ?s < 0) else ?s)"
      by (simp add: Money_Add_def Money_Add_op_def Let_def or_of_bool_word o)
    then have "mint (Money_Add a b) = money_sat (sint ?s)"
      by (auto simp: money_sat_def i128_cneg_word) (auto simp: money_lim_def)
    then show ?thesis by (simp add: money_closed_def money_sat_closed)
  qed
  then show "money_closed (Money_Add a b)" "money_closed (Money_Sub a b)"
    by (simp_all add: Money_Sub_def Money_Sub_op_def Money_Add_def)
qed

lemma mul_zero: "Money_Mul a Money_Zero = Money_Zero"
  by (subst mint_inject [symmetric])
    (simp add: Money_Mul_int Money_Zero_def irhe_def rhe_def money_sat_def money_lim_def)

lemma add_zero: "money_closed a \<Longrightarrow> Money_Add a Money_Zero = a"
  by (subst mint_inject [symmetric], subst Money_Add_int)
    (simp_all add: money_closed_def Money_Zero_def money_sat_id money_lim_def)

definition ledger_matches :: "'a oms \<Rightarrow> FoldResult \<Rightarrow> bool" where
  "ledger_matches oms fr \<longleftrightarrow> fr_balance fr = om_balance oms \<and> fr_realized_pnl fr = om_realized_pnl oms \<and>
     book (fr_portfolio fr) = book (om_portfolio oms) \<and> length (pf_positions (om_portfolio oms)) = 16 \<and>
     money_closed (om_balance oms) \<and> money_closed (om_realized_pnl oms)"

lemma direct_emit:
  assumes "env_emit env = OrderManager_FillEmitDirect"
  shows "om_balance (emit_fill env oms od b fl q px fee net n efl) = Money_Add (om_balance oms) net"
    "om_realized_pnl (emit_fill env oms od b fl q px fee net n efl) = Money_Add (om_realized_pnl oms) net"
  by (simp_all add: emit_fill_def Let_def assms OrderManager_FillEmitDirect_def OrderManager_LedgerApplyFill_def
      OrderManager_AccountMakerTakerFee_def FillEvent_Make_def)


definition market_fill :: "Order \<Rightarrow> bool" where
  "market_fill od \<longleftrightarrow> 0 \<le> o_portfolio_slot od \<and> o_portfolio_slot od < 16 \<and>
     Order_GetType od \<in> {ORDER_MARKET_BUY, ORDER_MARKET_SELL}"

lemma market_fill_slot: "market_fill od \<Longrightarrow> nat (o_portfolio_slot od) < 16"
  by (simp add: market_fill_def nat_less_iff)

lemma fill_event_fields:
  "ev_order_type (fill_event_of od px q fee) = order_type_byte (Order_GetType od)"
  "ev_node_id (fill_event_of od px q fee) = o_portfolio_slot od" "ev_price (fill_event_of od px q fee) = px"
  "ev_qty (fill_event_of od px q fee) = q" "ev_fee (fill_event_of od px q fee) = fee"
  "ev_sl (fill_event_of od px q fee) = o_intended_sl od"
  "ev_type (fill_event_of od px q fee) \<in> {OEVT_FULL_FILL, OEVT_PARTIAL_FILL}"
  by (simp_all add: fill_event_of_def OrderEvent_MakeFill_def)

lemma order_type_bytes: "order_type_byte ORDER_MARKET_BUY = 0" "order_type_byte ORDER_MARKET_SELL = 1"
  by (simp_all add: order_type_byte_def)

lemma fold_event_fill:
  assumes "market_fill od"
  shows "fold_event rate c (fill_event_of od px q fee) fr =
     (let slot = nat (o_portfolio_slot od); e = fill_event_of od px q fee;
          bump = (\<lambda>r. r\<lparr>fr_fills_processed := fr_fills_processed r + 1\<rparr>)
      in if Order_GetType od = ORDER_MARKET_BUY then bump (fold_buy rate c e slot fr)
         else case fold_sell rate e slot fr of None \<Rightarrow> fr | Some r \<Rightarrow> bump r)"
proof -
  have t: "\<not> (ev_type (fill_event_of od px q fee) \<noteq> OEVT_FULL_FILL \<and> ev_type (fill_event_of od px q fee) \<noteq> OEVT_PARTIAL_FILL)"
    using fill_event_fields(7) by blast
  have r: "\<not> (o_portfolio_slot od < 0 \<or> int MAX_PORTFOLIO_POSITIONS \<le> o_portfolio_slot od)"
    using assms by (auto simp: market_fill_def MAX_PORTFOLIO_POSITIONS_def)
  show ?thesis
    using assms unfolding fold_event_def fill_event_fields(1,2) Let_def
    by (simp only: t r if_False) (auto simp: market_fill_def order_type_bytes)
qed

lemma leg_fee_booked: "(if \<not> Money_IsZero fee then fee else Money_Mul x Money_Zero) = fee"
  using mul_zero [of x] by (cases fee) (simp add: Money_Zero_def)

lemma replay_buy:
  assumes m: "ledger_matches oms fr" and od: "market_fill od" and env: "env_emit env = OrderManager_FillEmitDirect"
  shows "ledger_matches (handle_buy_fill env oms od px q fee)
     (fold_buy Money_Zero c (fill_event_of od px q fee) (nat (o_portfolio_slot od)) fr)"
proof -
  let ?s = "nat (o_portfolio_slot od)" and ?pf = "om_portfolio oms"
  let ?h = "handle_buy_fill env oms od px q fee"
  let ?f = "fold_buy Money_Zero c (fill_event_of od px q fee) ?s fr"
  note mm = m [unfolded ledger_matches_def]
  have bk: "book (fr_portfolio fr) = book ?pf" using mm by blast
  have len: "?s < length (pf_positions (fr_portfolio fr))" "length (pf_positions ?pf) = 16"
    using mm market_fill_slot [OF od] book_length [OF bk] by simp_all
  have act: "Portfolio_SlotActive (fr_portfolio fr) ?s = Portfolio_SlotActive ?pf ?s"
    by (simp add: Portfolio_SlotActive_def book_active [OF bk])
  have b: "book (fr_portfolio ?f) = book (om_portfolio ?h)"
    unfolding fold_buy_def Let_def fill_event_fields leg_fee_booked act
    by (simp add: handle_buy_fill_def Let_def direct.emit_fill_frame [OF env] direct.emit_fill_log [OF env] book_accumulate [OF bk len(1)] Portfolio_OpenSlot_legacy_def book_open [OF bk])
  have l: "length (pf_positions (om_portfolio ?h)) = 16"
    using len(2) by (simp add: handle_buy_fill_def Let_def direct.emit_fill_frame [OF env] direct.emit_fill_log [OF env]
        Portfolio_AccumulateSlotLeg_def Portfolio_OpenSlot_legacy_def Portfolio_OpenSlot_def)
  have bal: "om_balance ?h = om_balance oms" "om_realized_pnl ?h = om_realized_pnl oms"
    using mm by (simp_all add: handle_buy_fill_def Let_def direct_emit [OF env] add_zero)
  have fb: "fr_balance ?f = fr_balance fr" "fr_realized_pnl ?f = fr_realized_pnl fr"
    by (simp_all add: fold_buy_def Let_def)
  show ?thesis unfolding ledger_matches_def using b l bal fb mm by simp
qed

lemma replay_sell:
  assumes m: "ledger_matches oms fr" and od: "market_fill od" and env: "env_emit env = OrderManager_FillEmitDirect"
  shows "case fold_sell Money_Zero (fill_event_of od px q fee) (nat (o_portfolio_slot od)) fr of
     None \<Rightarrow> handle_sell_fill env oms od px q fee = oms
   | Some fr' \<Rightarrow> ledger_matches (handle_sell_fill env oms od px q fee) fr'"
proof -
  let ?s = "nat (o_portfolio_slot od)" and ?pf = "om_portfolio oms" and ?pr = "fr_portfolio fr"
  let ?e = "fill_event_of od px q fee"
  note mm = m [unfolded ledger_matches_def]
  have bk: "book ?pr = book ?pf" using mm by blast
  have len: "?s < length (pf_positions ?pr)" "length (pf_positions ?pf) = 16" "?s < length (pf_positions ?pf)"
    using mm market_fill_slot [OF od] book_length [OF bk] by simp_all
  have act: "Portfolio_SlotActive ?pr ?s = Portfolio_SlotActive ?pf ?s"
    by (simp add: Portfolio_SlotActive_def book_active [OF bk])
  define Q where "Q = p_quantity (pf_positions ?pf ! ?s)"
  have Q: "p_quantity (pf_positions ?pr ! ?s) = Q" by (simp add: Q_def book_at [OF bk len(1)])
  define g where "g = (if Money_Gt q Q then Q else q)"
  show ?thesis
  proof (cases "\<not> Portfolio_SlotActive ?pf ?s \<or> Money_IsZero g")
    case True
    then have "fold_sell Money_Zero ?e ?s fr = None"
      unfolding fold_sell_def Let_def fill_event_fields Q act g_def [symmetric] by auto
    moreover have "handle_sell_fill env oms od px q fee = oms"
      using True unfolding handle_sell_fill_def Let_def Q_def [symmetric] g_def [symmetric] by auto
    ultimately show ?thesis by simp
  next
    case False
    let ?live = "sell_leg ?pf ?s px g fee" and ?rep = "sell_leg ?pr ?s px g fee"
    have f: "fold_sell Money_Zero ?e ?s fr = Some (fr\<lparr>fr_portfolio := snd (snd ?rep),
        fr_balance := Money_Add (fr_balance fr) (fst ?rep), fr_realized_pnl := Money_Add (fr_realized_pnl fr) (fst ?rep)\<rparr>)"
      using False unfolding fold_sell_def Let_def fill_event_fields Q act g_def [symmetric] leg_fee_booked sell_leg_def split_def
      by simp
    have h: "handle_sell_fill env oms od px q fee = sell_book env oms od px g fee"
      using False unfolding handle_sell_fill_def Let_def Q_def [symmetric] g_def [symmetric] by auto
    have bal: "om_balance (sell_book env oms od px g fee) = Money_Add (om_balance oms) (fst ?live)"
      "om_realized_pnl (sell_book env oms od px g fee) = Money_Add (om_realized_pnl oms) (fst ?live)"
      by (simp_all only: sell_book_eq Let_def sell_memory_frame direct_emit [OF env]) simp_all
    have l: "length (pf_positions (snd (snd ?live))) = 16"
      using len(2) by (simp add: sell_leg_def Let_def split_def Portfolio_CloseSlotLeg_def)
    show ?thesis
      unfolding f h option.case ledger_matches_def bal direct.sell_book_frame [OF env]
      using mm l book_sell_leg [OF bk len(1)] by (simp add: add_always_closed)
  qed
qed

lemma replay_fill:
  assumes m: "ledger_matches oms fr" and od: "market_fill od" and env: "env_emit env = OrderManager_FillEmitDirect"
  shows "ledger_matches (g_fill_dispatch (Order_GetType od) env oms od px q fee)
    (fold_event Money_Zero c (fill_event_of od px q fee) fr)"
proof (cases "Order_GetType od = ORDER_MARKET_BUY")
  case True
  have "ledger_matches oms' (r\<lparr>fr_fills_processed := k\<rparr>) = ledger_matches oms' r" for oms' :: "'a oms" and r k
    by (simp add: ledger_matches_def)
  then show ?thesis using replay_buy [OF m od env, of px q fee c] True
    by (simp add: fold_event_fill [OF od] g_fill_dispatch_def Let_def)
next
  case False
  then have t: "Order_GetType od = ORDER_MARKET_SELL" using od by (auto simp: market_fill_def)
  have "ledger_matches oms' (r\<lparr>fr_fills_processed := k\<rparr>) = ledger_matches oms' r" for oms' :: "'a oms" and r k
    by (simp add: ledger_matches_def)
  then show ?thesis using replay_sell [OF m od env, of px q fee] m t
    by (simp add: fold_event_fill [OF od] g_fill_dispatch_def Let_def split: option.splits)
qed

subsection \<open>The log follows the ledger\<close>

definition sync_env :: "'a oms_env \<Rightarrow> bool" where
  "sync_env env \<longleftrightarrow> env_emit env = OrderManager_FillEmitDirect \<and> env_append env = (\<lambda>l e. log_sync (L_Append e) l)"

definition replay_of :: "Money \<Rightarrow> Portfolio \<Rightarrow> OrderEventLog \<Rightarrow> FoldResult" where
  "replay_of start pf0 l = Portfolio_FromEventLog None pf0 l start Money_Zero"

text \<open>The log is open, on a file when there is one, and while it has dropped nothing the file mirrors it.\<close>

definition log_live :: "string option \<Rightarrow> OrderEventLog \<Rightarrow> bool" where
  "log_live p l \<longleftrightarrow> el_allocated l \<and> \<not> el_writer_thread_active l \<and> el_capacity l \<le> ORDER_EVENT_LOG_MAX_CAPACITY \<and>
     (case p of None \<Rightarrow> True
      | Some path \<Rightarrow> path \<noteq> [] \<and> el_disk_file l = Some path \<and> el_disk_path l = path \<and>
          (el_count l < el_capacity l \<longrightarrow> log_synced path (el_count l) l))"

text \<open>As long as the log has dropped nothing, replaying it gives the ledger.\<close>

definition replay_inv :: "Money \<Rightarrow> Portfolio \<Rightarrow> string option \<Rightarrow> 'a oms \<Rightarrow> bool" where
  "replay_inv start pf0 p oms \<longleftrightarrow> oms_event_log_on oms \<and> \<not> om_agg_attached oms \<and> log_live p (om_event_log oms) \<and>
     length (pf_positions (om_portfolio oms)) = 16 \<and>
     (el_count (om_event_log oms) < el_capacity (om_event_log oms) \<longrightarrow>
        ledger_matches oms (replay_of start pf0 (om_event_log oms)))"

definition same_ledger :: "'a oms \<Rightarrow> 'a oms \<Rightarrow> bool" where
  "same_ledger oms oms' \<longleftrightarrow> om_event_log oms' = om_event_log oms \<and> om_balance oms' = om_balance oms \<and>
     om_realized_pnl oms' = om_realized_pnl oms \<and> om_portfolio oms' = om_portfolio oms \<and>
     om_oms_state_flags oms' = om_oms_state_flags oms \<and> om_agg_attached oms' = om_agg_attached oms"

lemma same_ledger_inv: "same_ledger oms oms' \<Longrightarrow> replay_inv start pf0 p oms' = replay_inv start pf0 p oms"
  by (simp add: same_ledger_def replay_inv_def ledger_matches_def oms_event_log_on_def)

lemma fold_cong:
  assumes "ev_price e = ev_price e'" "ev_qty e = ev_qty e'" "ev_fee e = ev_fee e'" "ev_tp e = ev_tp e'" "ev_sl e = ev_sl e'"
    "ev_timestamp_us e = ev_timestamp_us e'" "ev_type e = ev_type e'" "ev_order_type e = ev_order_type e'" "ev_node_id e = ev_node_id e'"
  shows "fold_event rate c e fr = fold_event rate c e' fr"
proof -
  have "fold_buy rate c e = fold_buy rate c e'" "fold_sell rate e = fold_sell rate e'"
    unfolding fold_buy_def fold_sell_def assms by (rule refl)+
  then show ?thesis unfolding fold_event_def assms by (simp only:)
qed

lemma event_id_irrelevant: "fold_event rate c (e\<lparr>ev_event_id := i\<rparr>) fr = fold_event rate c e fr"
  by (rule fold_cong) simp_all

definition event_valid :: "OrderEvent \<Rightarrow> bool" where
  "event_valid e \<longleftrightarrow> call_ok (L_Append e)"

lemma append_log:
  assumes "log_live p l" "event_valid e"
  shows "log_live p (log_sync (L_Append e) l)"
    "el_count (log_sync (L_Append e) l) < el_capacity (log_sync (L_Append e) l) \<Longrightarrow> el_count l < el_capacity l"
    "el_count l < el_capacity l \<Longrightarrow> el_entries (log_sync (L_Append e) l) = el_entries l @ [e\<lparr>ev_event_id := el_next_event_id l\<rparr>]"
proof -
  let ?l = "log_sync (L_Append e) l"
  have l: "el_allocated l" "\<not> el_writer_thread_active l" using assms(1) by (simp_all add: log_live_def)
  have f: "el_allocated ?l" "\<not> el_writer_thread_active ?l" "el_capacity ?l = el_capacity l"
    "el_disk_file ?l = el_disk_file l" "el_disk_path ?l = el_disk_path l"
    "el_count ?l = (if el_count l < el_capacity l then el_count l + 1 else el_count l)"
    using l by (auto simp: log_sync_append OrderEventLog_ApplyEvent_def el_count_def Let_def split: if_splits)
  have s: "log_synced path (el_count l + 1) ?l" if "log_synced path (el_count l) l" "el_count l + 1 < el_capacity l" for path
    using that assms by (intro log_synced_append) (simp_all add: event_valid_def call_ok_def log_live_def ORDER_EVENT_LOG_MAX_CAPACITY_def)
  show "log_live p ?l" using assms(1) s f by (auto simp: log_live_def split: option.splits if_splits)
  show "el_count ?l < el_capacity ?l \<Longrightarrow> el_count l < el_capacity l" using f by (simp split: if_splits)
  show "el_count l < el_capacity l \<Longrightarrow> el_entries ?l = el_entries l @ [e\<lparr>ev_event_id := el_next_event_id l\<rparr>]"
    using l by (simp add: log_sync_append OrderEventLog_ApplyEvent_def el_count_def)
qed

lemma replay_append:
  assumes "log_live p l" "event_valid e" "el_count l < el_capacity l"
  shows "replay_of start pf0 (log_sync (L_Append e) l) = fold_event Money_Zero None e (replay_of start pf0 l)"
  by (simp add: replay_of_def Portfolio_FromEventLog_def append_log(3) [OF assms] event_id_irrelevant)

lemma push_log:
  assumes "\<not> om_agg_attached oms" "sync_env env"
  shows "OMS_EventFunnelPush env oms e s = oms\<lparr>om_event_log := log_sync (L_Append e) (om_event_log oms)\<rparr>"
  using assms by (simp add: OMS_EventFunnelPush_def sync_env_def)

text \<open>An event that is not a fill, and a fill with its handler, both keep the invariant.\<close>

lemma push_other:
  assumes inv: "replay_inv start pf0 p oms" and env: "sync_env env" and v: "event_valid e"
    and t: "ev_type e \<notin> {OEVT_FULL_FILL, OEVT_PARTIAL_FILL}"
  shows "replay_inv start pf0 p (OMS_EventFunnelPush env oms e s)"
proof -
  let ?l = "om_event_log oms"
  have l: "log_live p ?l" using inv by (simp add: replay_inv_def)
  have "fold_event Money_Zero None e fr = fr" for fr using t by (simp add: fold_event_def)
  then show ?thesis
    using inv append_log [OF l v] replay_append [OF l v, of start pf0]
    by (simp add: replay_inv_def push_log [OF _ env] oms_event_log_on_def ledger_matches_def)
qed

lemma fill_event_valid: "market_fill od \<Longrightarrow> event_valid (fill_event_of od px q fee)"
  by (simp add: event_valid_def call_ok_def event_ok_def fill_event_of_def OrderEvent_MakeFill_def market_fill_def
      event_zero_def oevt_defs)

lemma handlers_keep_length:
  assumes "env_emit env = OrderManager_FillEmitDirect"
  shows "length (pf_positions (om_portfolio (handle_buy_fill env oms od px q fee))) = length (pf_positions (om_portfolio oms))"
    "length (pf_positions (om_portfolio (handle_sell_fill env oms od px q fee))) = length (pf_positions (om_portfolio oms))"
  by (simp_all add: handle_buy_fill_def handle_sell_fill_def Let_def direct.emit_fill_frame [OF assms] direct.emit_fill_log [OF assms]
      direct.sell_book_frame [OF assms] Portfolio_AccumulateSlotLeg_def Portfolio_OpenSlot_legacy_def Portfolio_OpenSlot_def
      sell_leg_def split_def Portfolio_CloseSlotLeg_def)

lemma handle_fill_replay:
  assumes inv: "replay_inv start pf0 p oms" and env: "sync_env env" and od: "market_fill od"
  shows "replay_inv start pf0 p (OrderManager_HandleFill env oms od px q c a)"
proof -
  let ?l = "om_event_log oms"
  let ?fee = "booked_fee_of od px q c a"
  let ?e = "fill_event_of od px q ?fee"
  let ?o1 = "oms\<lparr>om_event_log := log_sync (L_Append ?e) ?l\<rparr>"
  let ?o2 = "g_fill_dispatch (Order_GetType od) env ?o1 od px q ?fee"
  have em: "env_emit env = OrderManager_FillEmitDirect" using env by (simp add: sync_env_def)
  have l: "log_live p ?l" and on: "oms_event_log_on oms" "\<not> om_agg_attached oms"
    using inv by (simp_all add: replay_inv_def)
  note v = fill_event_valid [OF od, of px q ?fee]
  have r: "\<not> (o_portfolio_slot od < 0 \<or> int MAX_PORTFOLIO_POSITIONS \<le> o_portfolio_slot od)"
    using od by (auto simp: market_fill_def MAX_PORTFOLIO_POSITIONS_def)
  have h: "OrderManager_HandleFill env oms od px q c a = ?o2"
    unfolding OrderManager_HandleFill_def Let_def using r on push_log [OF on(2) env] by simp
  have fr: "om_event_log ?o2 = om_event_log ?o1" "om_oms_state_flags ?o2 = om_oms_state_flags oms"
    "om_agg_attached ?o2 = om_agg_attached oms" "length (pf_positions (om_portfolio ?o2)) = length (pf_positions (om_portfolio oms))"
    by (simp_all add: g_fill_dispatch_def direct.buy_frame [OF em] direct.sell_frame [OF em] direct.buy_log [OF em] direct.sell_log [OF em] handlers_keep_length [OF em]
        split: OrderType.split)
  have "ledger_matches ?o2 (replay_of start pf0 (om_event_log ?o1))"
    if "el_count (om_event_log ?o1) < el_capacity (om_event_log ?o1)"
  proof -
    have c: "el_count ?l < el_capacity ?l" using append_log(2) [OF l v] that by simp
    have "ledger_matches ?o1 (replay_of start pf0 ?l)"
      using inv c by (simp add: replay_inv_def ledger_matches_def)
    from replay_fill [OF this od em] show ?thesis by (simp add: replay_append [OF l v c])
  qed
  then show ?thesis
    unfolding h replay_inv_def fr oms_event_log_on_def
    using inv append_log(1) [OF l v] by (simp add: replay_inv_def oms_event_log_on_def)
qed

lemma same_ledger_steps:
  "same_ledger oms (set_order s f oms)" "same_ledger oms (snd (OrderManager_Submit env oms cmd))"
  "same_ledger oms (oms\<lparr>om_total_filled := k\<rparr>)" "same_ledger oms (oms\<lparr>om_total_rejected := k\<rparr>)"
  "same_ledger oms (oms\<lparr>om_order_bitmap := bm\<rparr>)" "same_ledger oms (free_if_terminal s oms)"
  "same_ledger oms (snd (OMS_ResultPush oms c))"
  by (simp_all add: same_ledger_def submit_frame free_if_terminal_def Let_def)

lemmas same_ledger_step_inv = same_ledger_steps [THEN same_ledger_inv]

lemma other_events_valid:
  assumes "0 \<le> n" "n < 16"
  shows "o_portfolio_slot od = n \<Longrightarrow> event_valid (terminal_event od rem)"
    "event_valid (OrderEvent_MakeRejection i t ty n msg)"
proof -
  have c: "length (c_copy 31 s) < 32" for s by (rule le_less_trans [OF c_copy_ok(1)]) simp
  show "o_portfolio_slot od = n \<Longrightarrow> event_valid (terminal_event od rem)"
    "event_valid (OrderEvent_MakeRejection i t ty n msg)"
    using assms c by (simp_all add: event_valid_def call_ok_def event_ok_def terminal_event_def OrderEvent_MakeRejection_def
        event_zero_def oevt_defs split: option.split)
qed

text \<open>The order a result is applied to has its portfolio slot in range.\<close>

definition slot_valid :: "nat \<Rightarrow> 'a oms \<Rightarrow> bool" where
  "slot_valid s oms \<longleftrightarrow> s < length (om_orders oms) \<and> 0 \<le> o_portfolio_slot (order_at oms s) \<and> o_portfolio_slot (order_at oms s) < 16"

lemma terminal_incomplete_replay:
  assumes "replay_inv start pf0 p oms" "sync_env env" and v: "slot_valid s oms"
  shows "replay_inv start pf0 p (terminal_incomplete env s oms)"
proof -
  have t: "ev_type (terminal_event dead rem) \<notin> {OEVT_FULL_FILL, OEVT_PARTIAL_FILL}" for dead rem
    by (simp add: terminal_event_def oevt_defs)
  let ?d = "order_at (set_order s (\<lambda>od. Order_SetState od ORDER_CANCELED) oms) s"
  have "event_valid (terminal_event ?d rem)" for rem
    using v by (intro other_events_valid(1) [of "o_portfolio_slot (order_at oms s)"]) (simp_all add: slot_valid_def order_at_def)
  note p = push_other [OF _ assms(2) this t]
  show ?thesis
    unfolding terminal_incomplete_def Let_def split_def
    using assms(1) p by (simp add: same_ledger_step_inv)
qed

lemma slot_valid_cong: "om_orders oms' = om_orders oms \<Longrightarrow> slot_valid s oms' = slot_valid s oms"
  by (simp add: slot_valid_def order_at_def)

lemma slot_valid_filled: "slot_valid s (oms\<lparr>om_total_filled := k\<rparr>) = slot_valid s oms"
  by (rule slot_valid_cong) simp

lemma slot_valid_set_order: "(\<And>od. o_portfolio_slot (f od) = o_portfolio_slot od) \<Longrightarrow> slot_valid s (set_order s f oms) = slot_valid s oms"
  by (auto simp: slot_valid_def order_at_def)

lemma almost_slot_valid: "inflight_almost {s} oms \<Longrightarrow> bit (om_order_bitmap oms) s \<Longrightarrow> slot_valid s oms"
  using bits_lt_16 [of "om_order_bitmap oms" s] by (auto simp: inflight_almost_def slot_valid_def order_id_ok_def MAX_INFLIGHT_ORDERS_def)

lemma apply_leg_replay:
  assumes inv: "replay_inv start pf0 p oms" and env: "sync_env env" and ok: "inflight_almost {s} oms"
    and b: "bit (om_order_bitmap oms) s"
  shows "replay_inv start pf0 p (apply_leg env s r oms)"
proof -
  have em: "env_emit env = OrderManager_FillEmitDirect" using env by (simp add: sync_env_def)
  have v: "slot_valid s oms" by (rule almost_slot_valid [OF ok b])
  have id: "order_id_ok s (order_at oms s)" "s < length (om_orders oms)"
    using ok b v by (auto simp: inflight_almost_def slot_valid_def)
  define o3 where "o3 = (let fill_qty = Money (money_from_double_payload (rs_fill_qty r));
      oms = set_order s (\<lambda>od. od\<lparr>o_filled_qty := Money_Add (o_filled_qty od) fill_qty\<rparr>) oms;
      oms = set_order s (\<lambda>od. Order_SetIsMaker od (rs_is_maker r \<noteq> 0)) oms;
      oms = set_order s (\<lambda>od. Order_SetState od (if rs_order_complete r \<noteq> 0 then ORDER_FILLED else ORDER_PARTIAL)) oms
    in if Order_GetState (order_at oms s) = ORDER_FILLED then oms\<lparr>om_total_filled := om_total_filled oms + 1\<rparr> else oms)"
  define o4 where "o4 = (if f64_gt (rs_fill_qty r) (F64_Fin 0)
      then OrderManager_HandleFill env o3 (order_at o3 s) (o_avg_fill_price (order_at o3 s))
        (Money (money_from_double_payload (rs_fill_qty r))) (rs_commission r) (rs_commission_asset r) else o3)"
  have r: "apply_leg env s r oms = (if rs_venue_terminal r \<noteq> 0 \<and> rs_order_complete r = 0 then terminal_incomplete env s o4 else o4)"
    unfolding apply_leg_def o3_def o4_def Let_def ..
  have 3: "replay_inv start pf0 p o3" unfolding o3_def Let_def using inv by (simp add: same_ledger_step_inv)
  have v3: "slot_valid s o3" unfolding o3_def Let_def using v by (simp add: slot_valid_set_order slot_valid_filled)
  have m: "market_fill (order_at o3 s)"
    unfolding o3_def Let_def using id by (simp add: market_fill_def order_id_ok_def order_at_def)
  have "replay_inv start pf0 p o4" "slot_valid s o4"
    using 3 v3 handle_fill_replay [OF 3 env m] by (simp_all add: o4_def slot_valid_cong [OF direct.handle_fill_frame(1) [OF em]])
  then show ?thesis unfolding r using terminal_incomplete_replay [OF _ env] by simp
qed

lemma process_failure_replay:
  assumes "replay_inv start pf0 p oms" "sync_env env" and v: "slot_valid s oms"
  shows "replay_inv start pf0 p (process_failure env s r oms)"
proof -
  have t: "ev_type (OrderEvent_MakeRejection i t ty n msg) \<notin> {OEVT_FULL_FILL, OEVT_PARTIAL_FILL}" for i t ty n msg
    by (simp add: OrderEvent_MakeRejection_def oevt_defs)
  have n: "0 \<le> o_portfolio_slot (order_at oms s)" "o_portfolio_slot (order_at oms s) < 16" "s < length (om_orders oms)"
    using v by (simp_all add: slot_valid_def)
  note p = push_other [OF _ assms(2) other_events_valid(2) [OF n(1,2)] t]
  show ?thesis
    unfolding process_failure_def Let_def using assms(1) p n(3) by (simp add: same_ledger_step_inv order_at_def)
qed

lemma process_replay:
  assumes inv: "replay_inv start pf0 p oms" and env: "sync_env env" and ok: "inflight_ok oms"
  shows "replay_inv start pf0 p (snd (OrderManager_ProcessFillCommand env oms cmd))"
proof (cases "fill_slot oms (cm_order_id cmd)")
  case None
  then show ?thesis using inv by (simp add: OrderManager_ProcessFillCommand_def)
next
  case (Some s)
  then have s: "s < 16" "om_order_bitmap oms AND BITMAP_BIT s \<noteq> 0"
    using id_slot_lt(1) by (auto simp: fill_slot_def Let_def split: if_splits)
  then have b: "bit (om_order_bitmap oms) s" using is_set_bit [of s "om_order_bitmap oms"] by (simp add: BITMAP_IS_SET_def)
  let ?r = "cm_result cmd"
  define o1 where "o1 = set_order s (\<lambda>od. od\<lparr>o_exchange_id := c_copy 63 (rs_exchange_id ?r)\<rparr>) oms"
  define o2 where "o2 = set_order s (\<lambda>od. od\<lparr>o_avg_fill_price := Money (money_from_double_payload (rs_avg_fill_price ?r))\<rparr>) o1"
  have 1: "inflight_almost {} o1" using ok unfolding o1_def inflight_ok_def by (intro almost_set_order) simp_all
  have 2: "inflight_almost {} o2" using 1 unfolding o2_def by (intro almost_set_order) simp_all
  have r: "replay_inv start pf0 p o1" "replay_inv start pf0 p o2" using inv by (simp_all add: o1_def o2_def same_ledger_step_inv)
  have "replay_inv start pf0 p (apply_leg env s ?r o2)"
    using r b 2 by (intro apply_leg_replay [OF _ env almost_mono [OF 2]]) (simp_all add: o1_def o2_def)
  moreover have "replay_inv start pf0 p (process_failure env s ?r oms)" by (rule process_failure_replay [OF inv env almost_slot_valid [OF almost_mono [OF ok [unfolded inflight_ok_def]] b]]) simp
  ultimately show ?thesis
    using inv r unfolding o1_def o2_def
    by (simp add: OrderManager_ProcessFillCommand_def Some Let_def same_ledger_step_inv)
qed

subsection \<open>Any sequence of calls\<close>

definition tracked :: "Money \<Rightarrow> Portfolio \<Rightarrow> string option \<Rightarrow> 'a oms \<Rightarrow> bool" where
  "tracked start pf0 p oms \<longleftrightarrow> inflight_ok oms \<and> replay_inv start pf0 p oms"

lemma reconcile_replay:
  assumes "replay_inv start pf0 p oms" "sync_env env"
  shows "replay_inv start pf0 p (OrderManager_ProcessReconcile env oms cmd)"
proof -
  have c: "length (c_copy 31 s) < 32" for s by (rule le_less_trans [OF c_copy_ok(1)]) simp
  show ?thesis
    using assms unfolding OrderManager_ProcessReconcile_def
    by (simp add: push_other event_valid_def call_ok_def event_ok_def event_zero_def oevt_defs c)
qed

lemma result_pop_ledger: "same_ledger oms (snd (OMS_ResultPop oms))"
proof -
  note f = arg_cong [OF result_pop_frame(2) [of oms]]
  show ?thesis
    using f [of om_event_log] f [of om_balance] f [of om_realized_pnl] f [of om_portfolio] f [of om_oms_state_flags] f [of om_agg_attached]
    by (simp add: same_ledger_def)
qed

lemma drain_tracked:
  assumes env: "sync_env env"
  shows "drain_keeps (tracked start pf0 p) env"
proof -
  note i = direct.drain_inflight [OF assms [unfolded sync_env_def, THEN conjunct1]]
  have s: "replay_inv start pf0 p oms' = replay_inv start pf0 p oms" if "same_ledger oms oms'" for oms oms' :: "'a oms"
    using that by (rule same_ledger_inv)
  have q: "same_ledger oms (oms\<lparr>om_ws_result_queue := r\<rparr>)" "same_ledger oms (oms\<lparr>om_reconcile_queue := r\<rparr>)" for oms :: "'a oms" and r
    by (simp_all add: same_ledger_def)
  show ?thesis
    using i [unfolded drain_keeps_def] process_replay [OF _ env] reconcile_replay [OF _ env]
    unfolding drain_keeps_def tracked_def s [OF result_pop_ledger] s [OF q(1)] s [OF q(2)] s [OF same_ledger_steps(1)]
    by (intro conjI allI impI) simp_all
qed

lemma tracked_quiet:
  assumes "same_ledger oms oms'" "oms_table oms' = oms_table oms" "tracked start pf0 p oms"
  shows "tracked start pf0 p oms'"
  using assms(3) inflight_table [OF assms(2)] same_ledger_inv [OF assms(1)] by (simp add: tracked_def)

lemma step_tracked:
  assumes "oms_step sync_env oms oms'" "tracked start pf0 p oms"
  shows "tracked start pf0 p oms'"
  using assms(1)
proof cases
  case (step_submit env cmd)
  then show ?thesis using assms(2) by (simp add: tracked_def submit_ok same_ledger_step_inv)
next
  case (step_tick env fuel)
  then show ?thesis using tick_rule [OF drain_tracked [OF step_tick(1)] assms(2)] by blast
next
  case (step_push_submit cmd)
  note f = arg_cong [OF push_submit_frame [of oms cmd], folded step_push_submit]
  have "same_ledger oms oms'" "oms_table oms' = oms_table oms"
    using f [of om_event_log] f [of om_balance] f [of om_realized_pnl] f [of om_portfolio] f [of om_oms_state_flags]
      f [of om_agg_attached] f [of oms_table]
    by (simp_all add: same_ledger_def oms_table_def)
  then show ?thesis using assms(2) by (rule tracked_quiet)
next
  case (step_result i r)
  have "same_ledger oms oms'" "oms_table oms' = oms_table oms"
    using same_ledger_steps(7) by (auto simp: step_result OrderManager_FillResultCallback_def oms_table_def)
  then show ?thesis using assms(2) by (rule tracked_quiet)
next
  case (step_ws cmd)
  have "same_ledger oms oms'" "oms_table oms' = oms_table oms" by (simp_all add: step_ws same_ledger_def oms_table_def)
  then show ?thesis using assms(2) by (rule tracked_quiet)
next
  case (step_reconcile cmd)
  have "same_ledger oms oms'" "oms_table oms' = oms_table oms" by (simp_all add: step_reconcile same_ledger_def oms_table_def)
  then show ?thesis using assms(2) by (rule tracked_quiet)
qed

lemma reach_tracked: "oms_reach sync_env oms oms' \<Longrightarrow> tracked start pf0 p oms \<Longrightarrow> tracked start pf0 p oms'"
  by (induction rule: oms_reach.induct) (auto intro: step_tracked)

end
