(* ===== verification/Order_Boot.thy ===== *)
theory Order_Boot
  imports Order_Replay
begin

text \<open>
  Boot, paper reset and the persisted block of the order manager, from the field registry of
  \<^verbatim>\<open>src/MemHeaders/OmsFieldRegistry.hpp\<close> and its callers, and recovery: a session that is cut off
  and booted again from its event log finds its ledger.
\<close>

unbundle bit_operations_syntax

subsection \<open>Field rows\<close>

record OmsInitCtx =
  ic_live_trading :: int
  ic_partial_exit_enabled :: int
  ic_event_log_mode :: int
  ic_starting_balance :: Money
  ic_event_log_path :: "string option"

text \<open>A \<^verbatim>\<open>BIT\<close> row: the masked bit is set or cleared by the truth of the value.\<close>

definition write_bit_row :: "bool \<Rightarrow> u8 \<Rightarrow> u8 \<Rightarrow> u8" where
  "write_bit_row b smask flags = (if b then flags OR smask else flags AND NOT smask)"

text \<open>The flag byte after its rows: cleared, then the mode rows in their order.\<close>

definition oms_init_flags :: "OmsInitCtx \<Rightarrow> u8" where
  "oms_init_flags ctx =
     (let flags = 0;
          flags = write_bit_row (ic_live_trading ctx \<noteq> 0) MASK_OMS_STATE_LIVE_TRADING flags;
          flags = write_bit_row (ic_partial_exit_enabled ctx \<noteq> 0) MASK_OMS_STATE_PARTIAL_EXIT_ENABLED flags;
          flags = MBS_SET flags MASK_OMS_STATE_EVENT_LOG_MODE SHIFT_OMS_STATE_EVENT_LOG_MODE (word_of_int (ic_event_log_mode ctx))
      in write_bit_row False MASK_OMS_STATE_KILL_SWITCH_TRIPPED flags)"

definition oms_init_value_fields :: "OmsInitCtx \<Rightarrow> u64 \<Rightarrow> 'a oms \<Rightarrow> 'a oms" where
  "oms_init_value_fields ctx now_us oms = oms\<lparr>
     om_oms_state_flags := oms_init_flags ctx,
     om_order_bitmap := 0, om_next_order_id := 1,
     om_balance := ic_starting_balance ctx, om_realized_pnl := Money_Zero, om_ks_peak_balance := ic_starting_balance ctx,
     om_total_fees := Money_Zero, om_total_maker_fees := Money_Zero, om_total_taker_fees := Money_Zero,
     om_maker_fills_count := 0, om_taker_fills_count := 0, om_paper_session_start_us := now_us,
     om_ks_min_balance := Money_Zero, om_ks_max_drawdown_pct := Money_Zero, om_ks_trips_total := 0,
     om_last_closed_mask := 0, om_last_opened_mask := 0, om_last_exit_predicted_bitmap := 0, om_last_was_win_bitmap := 0,
     om_flatten_pending := 0, om_recovery_until_us := 0,
     om_total_submitted := 0, om_total_filled := 0, om_total_rejected := 0, om_last_seen_trade_id := 0\<rparr>"

definition oms_reset_value_fields :: "Money \<Rightarrow> u64 \<Rightarrow> 'a oms \<Rightarrow> 'a oms" where
  "oms_reset_value_fields starting_balance now_us oms = oms\<lparr>
     om_balance := starting_balance, om_realized_pnl := Money_Zero, om_ks_peak_balance := starting_balance,
     om_oms_state_flags := write_bit_row False MASK_OMS_STATE_KILL_SWITCH_TRIPPED (om_oms_state_flags oms),
     om_total_fees := Money_Zero, om_total_maker_fees := Money_Zero, om_total_taker_fees := Money_Zero,
     om_maker_fills_count := 0, om_taker_fills_count := 0, om_paper_session_start_us := now_us,
     om_total_submitted := 0, om_total_filled := 0, om_total_rejected := 0\<rparr>"

definition oms_init_per_slot :: "'a oms \<Rightarrow> 'a oms" where
  "oms_init_per_slot oms = oms\<lparr>
     om_last_realized_return := map (\<lambda>_. F64_Fin 0) (om_last_realized_return oms),
     om_last_exit_predicted_p := map (\<lambda>_. F64_Fin 0) (om_last_exit_predicted_p oms),
     om_last_exit_fill_price := map (\<lambda>_. Money_Zero) (om_last_exit_fill_price oms),
     om_last_exit_fee := map (\<lambda>_. Money_Zero) (om_last_exit_fee oms),
     om_bandit_reward_bps := map (\<lambda>_. F64_Fin 0) (om_bandit_reward_bps oms),
     om_last_trade_net := map (\<lambda>_. Money_Zero) (om_last_trade_net oms),
     om_last_trade_notional := map (\<lambda>_. Money_Zero) (om_last_trade_notional oms),
     om_last_exit_predicted_meta := map (\<lambda>_. 0) (om_last_exit_predicted_meta oms)\<rparr>"

subsection \<open>Boot\<close>

text \<open>What the boot gets from outside: fuel for stopping an old writer, the clocks, and which system calls
  succeed.\<close>

record boot_env =
  be_fuel :: nat
  be_now_us :: u64
  be_clock :: "u64 option"
  be_open_wb :: bool
  be_open_ab :: bool
  be_alloc_ok :: bool
  be_rename_ok :: bool
  be_open_ok :: bool
  be_rotate_now :: u64
  be_thread_created :: bool

definition oms_init_substructs :: "'a oms \<Rightarrow> 'a oms" where
  "oms_init_substructs oms =
     (let oms = oms\<lparr>om_portfolio := Portfolio_Init (om_portfolio oms),
            om_orders := map (\<lambda>od. Order_SetState (Order_Init od 0 (- 1) ORDER_MARKET_BUY) ORDER_FILLED) (om_orders oms)\<rparr>;
          oms = oms_init_per_slot oms
      in oms\<lparr>om_result_rings := map SPSCRing_Init (om_result_rings oms),
             om_ws_result_queue := SPSCRing_Init (om_ws_result_queue oms),
             om_reconcile_queue := SPSCRing_Init (om_reconcile_queue oms),
             om_submit_queues := map SPSCRing_Init (om_submit_queues oms)\<rparr>)"

definition replay_into :: "boot_env \<Rightarrow> OmsInitCtx \<Rightarrow> int \<Rightarrow> 'a oms \<Rightarrow> 'a oms" where
  "replay_into be ctx loaded oms =
     (if 0 < loaded
      then let fr = Portfolio_FromEventLog (be_clock be) (om_portfolio oms) (om_event_log oms) (ic_starting_balance ctx) Money_Zero;
               oms = oms\<lparr>om_portfolio := fr_portfolio fr, om_balance := fr_balance fr, om_realized_pnl := fr_realized_pnl fr\<rparr>
           in if Money_Gt (om_balance oms) (om_ks_peak_balance oms) then oms\<lparr>om_ks_peak_balance := om_balance oms\<rparr> else oms
      else oms)"

definition oms_boot_log :: "boot_env \<Rightarrow> OmsInitCtx \<Rightarrow> 'a oms \<Rightarrow> 'a oms option" where
  "oms_boot_log be ctx oms =
     (case OrderEventLog_Init (be_fuel be) (be_open_wb be) (be_open_ab be) (be_alloc_ok be) (om_event_log oms) of
        None \<Rightarrow> None
      | Some l \<Rightarrow>
          (case ic_event_log_path ctx of
             Some path \<Rightarrow>
               (if ic_event_log_mode ctx = 1 \<and> path \<noteq> []
                then let (loaded, l) = OrderEventLog_LoadFromDisk l path;
                         oms = replay_into be ctx loaded (oms\<lparr>om_event_log := l\<rparr>)
                     in map_option (\<lambda>l. oms\<lparr>om_event_log := l\<rparr>)
                          (OrderEventLog_InitWithFile (be_fuel be) (be_open_wb be) (be_open_ab be) (be_alloc_ok be)
                            (be_rename_ok be) (be_open_ok be) (be_rotate_now be) (om_event_log oms) path)
                else Some (oms\<lparr>om_event_log := l\<rparr>))
           | None \<Rightarrow> Some (oms\<lparr>om_event_log := l\<rparr>)))"

definition OrderManager_Init :: "boot_env \<Rightarrow> OmsInitCtx \<Rightarrow> 'a oms \<Rightarrow> 'a oms option" where
  "OrderManager_Init be ctx oms =
     map_option (\<lambda>oms. oms\<lparr>om_event_log := snd (OrderEventLog_StartAsyncWriter (be_thread_created be) (om_event_log oms))\<rparr>)
       (oms_boot_log be ctx (oms_init_substructs (oms_init_value_fields ctx (be_now_us be) oms)))"

definition OMS_RESET :: "Money \<Rightarrow> u64 \<Rightarrow> 'a oms \<Rightarrow> 'a oms" where
  "OMS_RESET starting_balance now_us oms =
     (let oms = oms_reset_value_fields starting_balance now_us oms
      in oms\<lparr>om_portfolio := Portfolio_Init (om_portfolio oms)\<rparr>)"

subsection \<open>The persisted block\<close>

definition oms_persist_save :: "'a oms \<Rightarrow> u8 list" where
  "oms_persist_save oms =
     le_bytes 16 (mv (om_balance oms)) @ le_bytes 16 (mv (om_realized_pnl oms)) @ le_bytes 16 (mv (om_ks_peak_balance oms))
     @ le_bytes 4 (of_bool (BITMAP_IS_SET (om_oms_state_flags oms) MASK_OMS_STATE_KILL_SWITCH_TRIPPED) :: u32)
     @ le_bytes 16 (mv (om_total_fees oms)) @ le_bytes 16 (mv (om_total_maker_fees oms)) @ le_bytes 16 (mv (om_total_taker_fees oms))
     @ le_bytes 4 (om_maker_fills_count oms) @ le_bytes 4 (om_taker_fills_count oms) @ le_bytes 8 (om_paper_session_start_us oms)"

text \<open>The load: every read must succeed before anything is committed.\<close>

definition oms_persist_load :: "u8 list \<Rightarrow> 'a oms \<Rightarrow> 'a oms option" where
  "oms_persist_load bs oms =
     (if length bs < 116 then None
      else Some (oms\<lparr>
        om_balance := Money (le_word (field_at bs 0 16)), om_realized_pnl := Money (le_word (field_at bs 16 16)),
        om_ks_peak_balance := Money (le_word (field_at bs 32 16)),
        om_oms_state_flags := write_bit_row ((le_word (field_at bs 48 4) :: u32) \<noteq> 0) MASK_OMS_STATE_KILL_SWITCH_TRIPPED (om_oms_state_flags oms),
        om_total_fees := Money (le_word (field_at bs 52 16)), om_total_maker_fees := Money (le_word (field_at bs 68 16)),
        om_total_taker_fees := Money (le_word (field_at bs 84 16)),
        om_maker_fills_count := le_word (field_at bs 100 4), om_taker_fills_count := le_word (field_at bs 104 4),
        om_paper_session_start_us := le_word (field_at bs 108 8)\<rparr>))"

text \<open>The rows of the wire, and the flag bits that are not on it.\<close>

definition persisted_rows :: "'a oms \<Rightarrow> Money list \<times> bool \<times> u32 \<times> u32 \<times> u64" where
  "persisted_rows oms = ([om_balance oms, om_realized_pnl oms, om_ks_peak_balance oms, om_total_fees oms,
       om_total_maker_fees oms, om_total_taker_fees oms],
     BITMAP_IS_SET (om_oms_state_flags oms) MASK_OMS_STATE_KILL_SWITCH_TRIPPED,
     om_maker_fills_count oms, om_taker_fills_count oms, om_paper_session_start_us oms)"

text \<open>The persisted block comes back.  Loading a saved block into another manager, whatever follows it
  in the file, restores the ten persisted rows and leaves that manager's other flags, its trading
  mode among them, as they were.\<close>

theorem oms_persist_round_trip:
  "\<exists>oms'. oms_persist_load (oms_persist_save saved @ rest) oms = Some oms' \<and> persisted_rows oms' = persisted_rows saved \<and>
     om_oms_state_flags oms' AND NOT MASK_OMS_STATE_KILL_SWITCH_TRIPPED = om_oms_state_flags oms AND NOT MASK_OMS_STATE_KILL_SWITCH_TRIPPED"
proof -
  let ?bs = "oms_persist_save saved @ rest"
  have f: "field_at ?bs 0 16 = le_bytes 16 (mv (om_balance saved))" "field_at ?bs 16 16 = le_bytes 16 (mv (om_realized_pnl saved))"
    "field_at ?bs 32 16 = le_bytes 16 (mv (om_ks_peak_balance saved))"
    "field_at ?bs 48 4 = le_bytes 4 (of_bool (BITMAP_IS_SET (om_oms_state_flags saved) MASK_OMS_STATE_KILL_SWITCH_TRIPPED) :: u32)"
    "field_at ?bs 52 16 = le_bytes 16 (mv (om_total_fees saved))" "field_at ?bs 68 16 = le_bytes 16 (mv (om_total_maker_fees saved))"
    "field_at ?bs 84 16 = le_bytes 16 (mv (om_total_taker_fees saved))" "field_at ?bs 100 4 = le_bytes 4 (om_maker_fills_count saved)"
    "field_at ?bs 104 4 = le_bytes 4 (om_taker_fills_count saved)" "field_at ?bs 108 8 = le_bytes 8 (om_paper_session_start_us saved)"
    "length (oms_persist_save saved) = 116"
    by (simp_all add: field_at_def oms_persist_save_def)
  have b: "BITMAP_IS_SET (write_bit_row x MASK_OMS_STATE_KILL_SWITCH_TRIPPED w) MASK_OMS_STATE_KILL_SWITCH_TRIPPED = x"
    "write_bit_row x MASK_OMS_STATE_KILL_SWITCH_TRIPPED w AND NOT MASK_OMS_STATE_KILL_SWITCH_TRIPPED = w AND NOT MASK_OMS_STATE_KILL_SWITCH_TRIPPED"
    for x w
  proof -
    have m: "MASK_OMS_STATE_KILL_SWITCH_TRIPPED = BITMAP_BIT 2" by (simp add: MASK_OMS_STATE_KILL_SWITCH_TRIPPED_def)
    show "BITMAP_IS_SET (write_bit_row x MASK_OMS_STATE_KILL_SWITCH_TRIPPED w) MASK_OMS_STATE_KILL_SWITCH_TRIPPED = x"
      unfolding m using is_set_bit [of 2 "write_bit_row x (BITMAP_BIT 2) w"]
      by (simp add: write_bit_row_def bit_simps BITMAP_BIT_def)
    show "write_bit_row x MASK_OMS_STATE_KILL_SWITCH_TRIPPED w AND NOT MASK_OMS_STATE_KILL_SWITCH_TRIPPED = w AND NOT MASK_OMS_STATE_KILL_SWITCH_TRIPPED"
      by (rule bit_word_eqI) (auto simp: write_bit_row_def bit_simps)
  qed
  show ?thesis
    by (simp add: oms_persist_load_def f le_word_bytes persisted_rows_def b)
qed

subsection \<open>The fold does not depend on the clock\<close>

definition fold_same :: "FoldResult \<Rightarrow> FoldResult \<Rightarrow> bool" where
  "fold_same a b \<longleftrightarrow> fr_balance a = fr_balance b \<and> fr_realized_pnl a = fr_realized_pnl b \<and>
     book (fr_portfolio a) = book (fr_portfolio b) \<and> length (pf_positions (fr_portfolio a)) = 16"

lemma fold_same_buy:
  assumes "fold_same a b" "s < 16"
  shows "fold_same (fold_buy rate c e s a) (fold_buy rate d e s b)"
proof -
  have bk: "book (fr_portfolio a) = book (fr_portfolio b)" and len: "s < length (pf_positions (fr_portfolio a))"
    "length (pf_positions (fr_portfolio a)) = 16"
    using assms by (simp_all add: fold_same_def)
  have "Portfolio_SlotActive (fr_portfolio a) s = Portfolio_SlotActive (fr_portfolio b) s"
    by (simp add: Portfolio_SlotActive_def book_active [OF bk])
  moreover have "length (pf_positions (Portfolio_AccumulateSlotLeg pf s px q fee)) = length (pf_positions pf)"
    "length (pf_positions (Portfolio_OpenSlot c pf s x)) = length (pf_positions pf)" for pf px q fee x
    by (simp_all add: Portfolio_AccumulateSlotLeg_def Portfolio_OpenSlot_def Let_def)
  ultimately show ?thesis
    using assms(1) by (simp add: fold_same_def fold_buy_def Let_def book_accumulate [OF bk len(1)] book_open [OF bk])
qed

lemma fold_same_sell:
  assumes "fold_same a b" "s < 16"
  shows "rel_option fold_same (fold_sell rate e s a) (fold_sell rate e s b)"
proof -
  have bk: "book (fr_portfolio a) = book (fr_portfolio b)" and len: "s < length (pf_positions (fr_portfolio a))"
    "length (pf_positions (fr_portfolio a)) = 16"
    using assms by (simp_all add: fold_same_def)
  have act: "Portfolio_SlotActive (fr_portfolio a) s = Portfolio_SlotActive (fr_portfolio b) s"
    by (simp add: Portfolio_SlotActive_def book_active [OF bk])
  have f: "fold_sell rate e s r = (let Q = p_quantity (pf_positions (fr_portfolio r) ! s); g = (if Money_Gt (ev_qty e) Q then Q else ev_qty e);
      l = sell_leg (fr_portfolio r) s (ev_price e) g (if \<not> Money_IsZero (ev_fee e) then ev_fee e else Money_Mul (Money_Mul (ev_price e) g) rate)
      in if \<not> Portfolio_SlotActive (fr_portfolio r) s \<or> Money_IsZero g then None
         else Some (r\<lparr>fr_portfolio := snd (snd l), fr_balance := Money_Add (fr_balance r) (fst l),
                      fr_realized_pnl := Money_Add (fr_realized_pnl r) (fst l)\<rparr>))" for r
    by (simp add: fold_sell_def sell_leg_def Let_def split_def)
  have l: "length (pf_positions (snd (snd (sell_leg pf s px g fee)))) = length (pf_positions pf)" for pf px g fee
    by (simp add: sell_leg_def Let_def split_def Portfolio_CloseSlotLeg_def)
  show ?thesis
    unfolding f Let_def act book_at [OF bk len(1)]
    using assms(1) by (simp add: fold_same_def book_sell_leg [OF bk len(1)] l)
qed

lemma fold_same_event:
  assumes "fold_same a b"
  shows "fold_same (fold_event rate c e a) (fold_event rate d e b)"
proof (cases "(ev_type e \<noteq> OEVT_FULL_FILL \<and> ev_type e \<noteq> OEVT_PARTIAL_FILL) \<or> ev_node_id e < 0 \<or> int MAX_PORTFOLIO_POSITIONS \<le> ev_node_id e")
  case True
  then show ?thesis using assms by (auto simp: fold_event_def)
next
  case False
  let ?s = "nat (ev_node_id e)"
  have s: "?s < 16" using False by (auto simp: MAX_PORTFOLIO_POSITIONS_def)
  have k: "fold_same (x\<lparr>fr_fills_processed := i\<rparr>) (y\<lparr>fr_fills_processed := j\<rparr>) = fold_same x y" for x y i j
    by (simp add: fold_same_def)
  have "(case fold_sell rate e ?s a of None \<Rightarrow> fold_sell rate e ?s b = None
     | Some x \<Rightarrow> \<exists>y. fold_sell rate e ?s b = Some y \<and> fold_same x y)"
    using fold_same_sell [OF assms s, of rate e] by (cases "fold_sell rate e ?s a"; cases "fold_sell rate e ?s b") auto
  then show ?thesis
    using False assms fold_same_buy [OF assms s, of rate c e d] by (auto simp: fold_event_def Let_def k split: option.splits)
qed

lemma fold_same_log:
  assumes "length (pf_positions pf) = 16" "length (pf_positions pf') = 16" "el_entries l = el_entries l'"
  shows "fold_same (Portfolio_FromEventLog c pf l start rate) (Portfolio_FromEventLog d pf' l' start rate)"
proof -
  have f: "fold_same (fold (fold_event rate c) es a) (fold (fold_event rate d) es b)" if "fold_same a b" for es a b
    using that
  proof (induction es arbitrary: a b)
    case (Cons e es)
    from Cons.IH [OF fold_same_event [OF Cons.prems]] show ?case by (simp only: fold_simps comp_apply)
  qed simp
  have "map Position_Reset (pf_positions pf) = map Position_Reset (pf_positions pf')"
    using assms by (intro nth_equalityI) (simp_all add: Position_Reset_def)
  then show ?thesis
    unfolding Portfolio_FromEventLog_def assms(3)
    by (intro f) (simp add: fold_same_def Portfolio_Init_def book_def assms)
qed


subsection \<open>Sessions\<close>

text \<open>A paper reset: the fields, then the in-band truncation of the log.\<close>

definition paper_reset :: "Money \<Rightarrow> u64 \<Rightarrow> 'a oms \<Rightarrow> 'a oms" where
  "paper_reset starting_balance now_us oms =
     (let oms = OMS_RESET starting_balance now_us oms
      in oms\<lparr>om_event_log := log_sync L_Truncate (om_event_log oms)\<rparr>)"

inductive session :: "Money \<Rightarrow> 'a oms \<Rightarrow> 'a oms \<Rightarrow> bool" for start where
  session_boot: "session start oms oms"
| session_call: "session start a b \<Longrightarrow> oms_step sync_env b c \<Longrightarrow> session start a c"
| session_reset: "session start a b \<Longrightarrow> session start a (paper_reset start now_us b)"

lemma ledger_matches_empty:
  assumes "om_balance oms = start" "om_realized_pnl oms = Money_Zero" "om_portfolio oms = Portfolio_Init pf"
    "length (pf_positions pf) = 16" "length (pf_positions pf0) = 16" "money_closed start" "el_entries l = []"
  shows "ledger_matches oms (replay_of start pf0 l)"
proof -
  have "map Position_Reset (pf_positions pf0) = map Position_Reset (pf_positions pf)"
    using assms by (intro nth_equalityI) (simp_all add: Position_Reset_def)
  moreover have "money_closed Money_Zero" by (simp add: money_closed_def Money_Zero_def money_lim_def)
  ultimately show ?thesis
    using assms by (simp add: ledger_matches_def replay_of_def Portfolio_FromEventLog_def Portfolio_Init_def book_def)
qed

lemma log_mode_kept:
  "MBS_EQ (write_bit_row b MASK_OMS_STATE_KILL_SWITCH_TRIPPED w) MASK_OMS_STATE_EVENT_LOG_MODE SHIFT_OMS_STATE_EVENT_LOG_MODE 1
   = MBS_EQ w MASK_OMS_STATE_EVENT_LOG_MODE SHIFT_OMS_STATE_EVENT_LOG_MODE 1"
proof -
  have m: "MASK_OMS_STATE_KILL_SWITCH_TRIPPED = 4" "MASK_OMS_STATE_EVENT_LOG_MODE = 24"
    by (simp_all add: MASK_OMS_STATE_KILL_SWITCH_TRIPPED_def MASK_OMS_STATE_EVENT_LOG_MODE_def SHIFT_OMS_STATE_EVENT_LOG_MODE_def
        BITMAP_BIT_def push_bit_eq_mult)
  have "write_bit_row b 4 w AND 24 = w AND 24"
    by (cases b) (simp_all add: write_bit_row_def bit.conj_disj_distrib2 and.assoc)
  then show ?thesis by (simp add: MBS_EQ_def m)
qed

lemma truncate_live:
  assumes "log_live p l"
  shows "log_live p (log_sync L_Truncate l)" "el_entries (log_sync L_Truncate l) = []"
proof -
  have l: "el_allocated l" "\<not> el_writer_thread_active l" using assms by (simp_all add: log_live_def)
  show "el_entries (log_sync L_Truncate l) = []"
    using l by (auto simp: log_sync_truncate OrderEventLog_Reset_def OrderEventLog_TruncateDisk_def Let_def)
  show "log_live p (log_sync L_Truncate l)"
    using assms l by (auto simp: log_live_def log_synced_def log_sync_truncate OrderEventLog_Reset_def
        OrderEventLog_TruncateDisk_def Let_def fwrite_log_def el_count_def split: option.splits)
qed

lemma reset_tracked:
  assumes "tracked start pf0 p oms" "length (pf_positions pf0) = 16" "money_closed start"
  shows "tracked start pf0 p (paper_reset start now_us oms)"
proof -
  let ?r = "paper_reset start now_us oms"
  have t: "replay_inv start pf0 p oms" "inflight_ok oms" using assms(1) by (simp_all add: tracked_def)
  have f: "om_balance ?r = start" "om_realized_pnl ?r = Money_Zero" "om_portfolio ?r = Portfolio_Init (om_portfolio oms)"
    "om_event_log ?r = log_sync L_Truncate (om_event_log oms)" "oms_table ?r = oms_table oms" "om_agg_attached ?r = om_agg_attached oms"
    "om_oms_state_flags ?r = write_bit_row False MASK_OMS_STATE_KILL_SWITCH_TRIPPED (om_oms_state_flags oms)"
    by (simp_all add: paper_reset_def OMS_RESET_def oms_reset_value_fields_def Let_def oms_table_def)
  have l: "log_live p (om_event_log oms)" "length (pf_positions (om_portfolio oms)) = 16" "oms_event_log_on oms" "\<not> om_agg_attached oms"
    using t(1) by (simp_all add: replay_inv_def)
  have "ledger_matches ?r (replay_of start pf0 (om_event_log ?r))"
    using f l(2) assms(2,3) truncate_live(2) [OF l(1)] by (intro ledger_matches_empty) simp_all
  then show ?thesis
    using l inflight_table [OF f(5) t(2)] truncate_live(1) [OF l(1)]
    by (simp add: tracked_def replay_inv_def f oms_event_log_on_def log_mode_kept) (simp add: Portfolio_Init_def)
qed

lemma session_tracked:
  assumes "session start a b" "tracked start pf0 p a" "length (pf_positions pf0) = 16" "money_closed start"
  shows "tracked start pf0 p b"
  using assms(1,2)
proof (induction rule: session.induct)
  case (session_call a b c)
  then show ?case using step_tracked by blast
next
  case (session_reset a b now_us)
  then show ?case using reset_tracked [OF _ assms(3,4)] by blast
qed

subsection \<open>Recovery\<close>

text \<open>A boot that keeps its event log in a file.\<close>

definition logged_boot :: "boot_env \<Rightarrow> OmsInitCtx \<Rightarrow> string \<Rightarrow> 'a oms \<Rightarrow> bool" where
  "logged_boot be ctx path oms \<longleftrightarrow> length (om_orders oms) = MAX_INFLIGHT_ORDERS \<and>
     length (pf_positions (om_portfolio oms)) = MAX_PORTFOLIO_POSITIONS \<and> \<not> om_agg_attached oms \<and>
     \<not> el_writer_thread_active (om_event_log oms) \<and> ic_event_log_mode ctx = 1 \<and> ic_event_log_path ctx = Some path \<and>
     path \<noteq> [] \<and> length path < 256 \<and> money_closed (ic_starting_balance ctx) \<and> be_alloc_ok be \<and> be_open_ok be"

definition fresh_log :: "OrderEventLog \<Rightarrow> OrderEventLog" where
  "fresh_log l = l\<lparr>el_allocated := True, el_capacity := ORDER_EVENT_LOG_MAX_CAPACITY, el_entries := [],
     el_next_event_id := 1, el_disk_file := None, el_disk_path := [], el_async_ring := SPSCRing_Init (el_async_ring l),
     el_writer_thread_active := False, el_writer_should_stop := False, el_ring_full_spins := 0,
     el_writer_realloc_failed_count := 0, el_log_full_drops := 0\<rparr>"

lemma log_init_fresh: "\<not> el_writer_thread_active l \<Longrightarrow> OrderEventLog_Init fuel wb ab True l = Some (fresh_log l)"
  by (simp add: OrderEventLog_Init_def OrderEventLog_StopAsyncWriter_def fresh_log_def)

lemma load_keeps:
  "el_allocated (snd (OrderEventLog_LoadFromDisk l path)) = el_allocated l"
  "el_writer_thread_active (snd (OrderEventLog_LoadFromDisk l path)) = el_writer_thread_active l"
proof -
  have "el_allocated (fst (fold load_step es st)) = el_allocated (fst st) \<and>
      el_writer_thread_active (fst (fold load_step es st)) = el_writer_thread_active (fst st)" for es st
  proof (induction es arbitrary: st)
    case (Cons e es)
    have "el_allocated (fst (load_step e st)) = el_allocated (fst st)"
      "el_writer_thread_active (fst (load_step e st)) = el_writer_thread_active (fst st)"
      by (simp_all add: load_step_def split: prod.split)
    then show ?case using Cons.IH [of "load_step e st"] by simp
  qed simp
  from this [of _ "(l, 0, 0)"]
  show "el_allocated (snd (OrderEventLog_LoadFromDisk l path)) = el_allocated l"
    "el_writer_thread_active (snd (OrderEventLog_LoadFromDisk l path)) = el_writer_thread_active l"
    by (simp_all add: OrderEventLog_LoadFromDisk_def split_def Let_def split: option.split)
qed

text \<open>The state a logged boot ends in, in terms of what the load found.\<close>

definition boot_base :: "boot_env \<Rightarrow> OmsInitCtx \<Rightarrow> 'a oms \<Rightarrow> 'a oms" where
  "boot_base be ctx oms = oms_init_substructs (oms_init_value_fields ctx (be_now_us be) oms)"

lemma boot_base_facts:
  "om_balance (boot_base be ctx oms) = ic_starting_balance ctx" "om_realized_pnl (boot_base be ctx oms) = Money_Zero"
  "om_portfolio (boot_base be ctx oms) = Portfolio_Init (om_portfolio oms)" "om_order_bitmap (boot_base be ctx oms) = 0"
  "length (om_orders (boot_base be ctx oms)) = length (om_orders oms)" "om_event_log (boot_base be ctx oms) = om_event_log oms"
  "om_oms_state_flags (boot_base be ctx oms) = oms_init_flags ctx" "om_agg_attached (boot_base be ctx oms) = om_agg_attached oms"
  by (simp_all add: boot_base_def oms_init_substructs_def oms_init_value_fields_def oms_init_per_slot_def Let_def)

lemma boot_log_mode: "ic_event_log_mode ctx = 1 \<Longrightarrow> oms_event_log_on (boot_base be ctx oms)"
proof -
  assume "ic_event_log_mode ctx = 1"
  moreover have "MBS_EQ (MBS_SET f MASK_OMS_STATE_EVENT_LOG_MODE SHIFT_OMS_STATE_EVENT_LOG_MODE 1)
      MASK_OMS_STATE_EVENT_LOG_MODE SHIFT_OMS_STATE_EVENT_LOG_MODE 1" for f :: u8
    unfolding MBS_EQ_def MBS_SET_def by (rule bit_word_eqI) (auto simp: bit_simps)
  ultimately show ?thesis
    by (simp add: oms_event_log_on_def boot_base_facts oms_init_flags_def Let_def log_mode_kept)
qed

lemma logged_boot_result:
  assumes "logged_boot be ctx path oms"
  defines "ld \<equiv> OrderEventLog_LoadFromDisk (fresh_log (om_event_log oms)) path"
  shows "\<exists>l. OrderManager_Init be ctx oms = Some ((replay_into be ctx (fst ld) ((boot_base be ctx oms)\<lparr>om_event_log := snd ld\<rparr>))
      \<lparr>om_event_log := snd (OrderEventLog_StartAsyncWriter (be_thread_created be) l)\<rparr>) \<and>
    l = open_log_file (be_rename_ok be) True (be_rotate_now be) (snd ld) path"
proof -
  have c: "\<not> el_writer_thread_active (om_event_log oms)" "be_alloc_ok be" "be_open_ok be" "ic_event_log_mode ctx = 1"
    "ic_event_log_path ctx = Some path" "path \<noteq> []"
    using assms(1) by (simp_all add: logged_boot_def)
  have a: "el_allocated (snd ld)" unfolding ld_def load_keeps by (simp add: fresh_log_def)
  have r: "om_event_log (replay_into be ctx k o1) = om_event_log o1" for k and o1 :: "'a oms"
    by (simp add: replay_into_def Let_def)
  show ?thesis
    unfolding OrderManager_Init_def oms_boot_log_def boot_base_def [symmetric] boot_base_facts
    using c a by (simp add: log_init_fresh ld_def [symmetric] split_def Let_def r OrderEventLog_InitWithFile_def)
qed

lemma fresh_log_facts:
  "el_allocated (fresh_log l)" "\<not> el_writer_thread_active (fresh_log l)" "el_entries (fresh_log l) = []"
  "el_next_event_id (fresh_log l) = 1" "el_fs (fresh_log l) = el_fs l" "el_capacity (fresh_log l) = ORDER_EVENT_LOG_MAX_CAPACITY"
  by (simp_all add: fresh_log_def)

lemma boot_tracked:
  assumes b: "logged_boot be ctx path oms" and f: "el_fs (om_event_log oms) path = None" "\<not> be_thread_created be"
    and i: "OrderManager_Init be ctx oms = Some oms0" and pf0: "length (pf_positions pf0) = 16"
  shows "tracked (ic_starting_balance ctx) pf0 (Some path) oms0"
    "el_entries (om_event_log oms0) = []" "el_capacity (om_event_log oms0) = ORDER_EVENT_LOG_MAX_CAPACITY"
proof -
  let ?l = "om_event_log oms" and ?o = "boot_base be ctx oms"
  let ?op = "open_log_file (be_rename_ok be) True (be_rotate_now be) (fresh_log ?l) path"
  have c: "path \<noteq> []" "length path < 256" "length (om_orders oms) = 16" "length (pf_positions (om_portfolio oms)) = 16"
    "\<not> om_agg_attached oms" "ic_event_log_mode ctx = 1" "money_closed (ic_starting_balance ctx)"
    using b by (simp_all add: logged_boot_def MAX_INFLIGHT_ORDERS_def MAX_PORTFOLIO_POSITIONS_def)
  have ld: "OrderEventLog_LoadFromDisk (fresh_log ?l) path = (0, fresh_log ?l)"
    using f(1) by (simp add: OrderEventLog_LoadFromDisk_def fresh_log_facts)
  have o: "oms0 = ?o\<lparr>om_event_log := ?op\<lparr>el_writer_should_stop := False\<rparr>\<rparr>"
  proof -
    have a: "\<not> el_writer_thread_active ?op"
      using open_fresh_synced [OF fresh_log_facts(1-4) c(1,2), of ?l "be_rename_ok be" "be_rotate_now be"] f(1)
      by (simp add: fresh_log_facts log_synced_def)
    show ?thesis
      using logged_boot_result [OF b] i f(2) a
      by (simp add: ld replay_into_def OrderEventLog_StartAsyncWriter_def)
  qed
  have s: "log_synced path 0 ?op" using f(1) by (intro open_fresh_synced fresh_log_facts c) (simp add: fresh_log_facts)
  have e: "el_entries ?op = []" "el_capacity ?op = ORDER_EVENT_LOG_MAX_CAPACITY"
    using f(1) by (simp_all add: open_log_file_def Let_def fresh_log_facts)
  have live: "log_live (Some path) (?op\<lparr>el_writer_should_stop := False\<rparr>)"
    using s e c(1) by (simp add: log_live_def el_count_def log_synced_def)
  have "inflight_ok oms0" by (simp add: inflight_ok_def inflight_almost_def o boot_base_facts c MAX_INFLIGHT_ORDERS_def)
  moreover have "ledger_matches oms0 (replay_of (ic_starting_balance ctx) pf0 (om_event_log oms0))"
    by (rule ledger_matches_empty [where pf = "om_portfolio oms"]) (simp_all add: o boot_base_facts c e pf0)
  moreover have "oms_event_log_on oms0" using boot_log_mode [OF c(6), of be oms] by (simp add: o oms_event_log_on_def)
  ultimately show "tracked (ic_starting_balance ctx) pf0 (Some path) oms0"
    using live c by (simp add: tracked_def replay_inv_def o boot_base_facts Portfolio_Init_def)
  show "el_entries (om_event_log oms0) = []" "el_capacity (om_event_log oms0) = ORDER_EVENT_LOG_MAX_CAPACITY"
    by (simp_all add: o e)
qed


end
