(* ===== verification/Order_Paper.thy ===== *)
theory Order_Paper
  imports Order_Calls
begin

text \<open>
  A paper order from submission to position: what a paper submission queues, what the tick takes off
  the queue, and what processing it does to the book.
\<close>

unbundle bit_operations_syntax

subsection \<open>A paper order from submission to position\<close>

lemma pop_single:
  assumes "rings_ready w (om_result_rings oms)" "n + k \<le> 16" "n \<le> t" "t < n + k"
    and "\<forall>j. n \<le> j \<and> j < n + k \<longrightarrow> ring_items (om_result_rings oms ! j) = (if j = t then [c] else [])"
  shows "fst (result_pop_from n k oms) = Some c"
  using assms
proof (induction n k oms rule: result_pop_from.induct)
  case (1 n oms)
  then show ?case by simp
next
  case (2 n k oms)
  let ?rs = "om_result_rings oms"
  obtain y r where p: "SPSCRing_TryPop (?rs ! n) = (y, r)" by fastforce
  have ok: "ring_ok (?rs ! n)" "w \<le> ring_room (?rs ! n)" using rings_ready_nth [OF 2(2)] 2(3) by simp_all
  note l = ring.pop_law [OF ok(1) p]
  have i: "ring_items (?rs ! n) = (if n = t then [c] else [])" using 2(6) by simp
  show ?case
  proof (cases "n = t")
    case True
    then show ?thesis using l i p by (simp split: list.splits)
  next
    case False
    then have y: "y = None" "ring_items r = []" using l i by simp_all
    have "rings_ready w (?rs[n := r])" using rings_ready_update [OF 2(2), of r w n] l ok by simp
    moreover have "\<forall>j. n + 1 \<le> j \<and> j < n + 1 + k \<longrightarrow>
        ring_items (?rs[n := r] ! j) = (if j = t then [c] else [])"
      using 2(6) by simp
    ultimately have "fst (result_pop_from (n + 1) k (oms\<lparr>om_result_rings := ?rs[n := r]\<rparr>)) = Some c"
      using 2(3-5) False by (intro 2(1) [OF p [symmetric] y(1)]) simp_all
    then show ?thesis by (simp add: p y)
  qed
qed

text \<open>Nothing is queued on any result ring, and each has room for one push.\<close>

definition rings_idle :: "'a oms \<Rightarrow> bool" where
  "rings_idle oms \<longleftrightarrow> rings_ready 1 (om_result_rings oms) \<and> (\<forall>r \<in> set (om_result_rings oms). ring_items r = [])"

lemma push_then_pop:
  assumes "rings_idle oms"
  shows "fst (OMS_ResultPop (snd (OMS_ResultPush oms c))) = Some c"
    "oms_table (snd (OMS_ResultPop (snd (OMS_ResultPush oms c)))) = oms_table oms"
    "om_portfolio (snd (OMS_ResultPop (snd (OMS_ResultPush oms c)))) = om_portfolio oms"
    "om_oms_state_flags (snd (OMS_ResultPop (snd (OMS_ResultPush oms c)))) = om_oms_state_flags oms"
proof -
  let ?rs = "om_result_rings oms" and ?n = "OMS_OrderIdNode (cm_order_id c)"
  have r: "rings_ready 1 ?rs" using assms by (simp add: rings_idle_def)
  have e: "ring_items (?rs ! j) = []" if "j < 16" for j
    using assms that by (auto simp: rings_idle_def rings_ready_def MAX_EXECUTION_NODES_def)
  obtain b rr where p: "SPSCRing_TryPush (?rs ! ?n) c = (b, rr)" by fastforce
  have ok: "ring_ok (?rs ! ?n)" "0 < ring_room (?rs ! ?n)" using rings_ready_nth [OF r id_slot_lt(2), of "cm_order_id c"] by simp_all
  note l = ring.push_law [OF ok p]
  have "2 \<le> ring_N (?rs ! ?n)" using ok(1) ring_geom_bounds(1) by (simp add: ring_ok_def)
  then have it: "ring_items rr = [c]" using l e [OF id_slot_lt(2)] by simp
  have len: "length ?rs = 16" using r by (simp add: rings_ready_def MAX_EXECUTION_NODES_def)
  have rs: "om_result_rings (snd (OMS_ResultPush oms c)) = ?rs[?n := rr]"
    by (simp add: OMS_ResultPush_def Let_def p)
  have "rings_ready 0 (?rs[?n := rr])" using rings_ready_update [OF r, of rr 0 ?n] l by simp
  then show "fst (OMS_ResultPop (snd (OMS_ResultPush oms c))) = Some c"
    unfolding OMS_ResultPop_def MAX_EXECUTION_NODES_def
    by (intro pop_single [where w = 0 and t = ?n]) (use id_slot_lt(2) e it len in \<open>auto simp: rs nth_list_update\<close>)
  note f = arg_cong [OF result_pop_frame(2) [of "snd (OMS_ResultPush oms c)"]]
  show "oms_table (snd (OMS_ResultPop (snd (OMS_ResultPush oms c)))) = oms_table oms"
    by (simp add: result_pop_frame(1)) (simp add: oms_table_def)
  show "om_portfolio (snd (OMS_ResultPop (snd (OMS_ResultPush oms c)))) = om_portfolio oms"
    "om_oms_state_flags (snd (OMS_ResultPop (snd (OMS_ResultPush oms c)))) = om_oms_state_flags oms"
    using f [of om_portfolio] f [of om_oms_state_flags] by simp_all
qed


text \<open>What a paper submission queues.\<close>

definition paper_command :: "'a oms \<Rightarrow> SubmitCommand \<Rightarrow> nat \<Rightarrow> Command" where
  "paper_command oms cmd s =
     \<lparr>cm_type = CMD_FILL_RESULT, cm_order_id = submit_id oms cmd s,
      cm_result = paper_result (sc_order_type cmd) (sc_event_price cmd)
        (case sc_node_cfg cmd of Some cfg \<Rightarrow> nc_slippage_pct cfg | None \<Rightarrow> Money 0) (sc_qty cmd)\<rparr>"

lemma paper_submit:
  assumes "\<not> oms_live oms" "om_order_bitmap oms \<noteq> - 1" "length (om_orders oms) = MAX_INFLIGHT_ORDERS"
  defines "s \<equiv> free_order_slot oms"
  shows "snd (OrderManager_Submit env oms cmd) = snd (OMS_ResultPush (submit_entered env oms cmd s) (paper_command oms cmd s))"
proof -
  have "s < length (om_orders oms)"
    using free_slot(1) [OF not_full [OF assms(2)]] assms(3) by (simp add: s_def free_order_slot_def MAX_INFLIGHT_ORDERS_def)
  then have "pr_slippage_pct (o_pre_resolved (order_at (submit_entered env oms cmd s) s)) =
      (case sc_node_cfg cmd of Some cfg \<Rightarrow> nc_slippage_pct cfg | None \<Rightarrow> Money 0)"
    by (simp add: order_at_def submitted_order_facts Let_def NULL_PER_NODE_CFG_STUB_def split: option.split)
  then show ?thesis
    using not_full [OF assms(2)] assms(1)
    by (simp add: OrderManager_Submit_def Let_def submit_live_entered s_def free_order_slot_def paper_command_def)
qed

lemma entered_idle: "rings_idle (submit_entered env oms cmd s) = rings_idle oms"
  by (simp add: rings_idle_def)

text \<open>The command of a paper submission, applied to the order it was made for: the leg is booked at
  exactly the price and quantity asked for, as both pass through \<^verbatim>\<open>double\<close> unchanged.\<close>

lemma paper_command_fill:
  fixes cmd :: SubmitCommand
  defines "px \<equiv> paper_fill_price (sc_order_type cmd) (sc_event_price cmd)
      (case sc_node_cfg cmd of Some cfg \<Rightarrow> nc_slippage_pct cfg | None \<Rightarrow> Money 0)"
  assumes q: "0 < mint (sc_qty cmd)" "mint (sc_qty cmd) \<le> 2 ^ 50" and p: "\<bar>mint px\<bar> \<le> 2 ^ 50"
  shows "rs_success (cm_result (paper_command oms cmd s)) = 1" "rs_order_complete (cm_result (paper_command oms cmd s)) = 1"
    "rs_venue_terminal (cm_result (paper_command oms cmd s)) = 0" "f64_gt (rs_fill_qty (cm_result (paper_command oms cmd s))) (F64_Fin 0)"
    "Money (money_from_double_payload (rs_fill_qty (cm_result (paper_command oms cmd s)))) = sc_qty cmd"
    "Money (money_from_double_payload (rs_avg_fill_price (cm_result (paper_command oms cmd s)))) = px"
    "rs_commission (cm_result (paper_command oms cmd s)) = F64_Fin 0" "rs_is_maker (cm_result (paper_command oms cmd s)) = 0"
    "rs_exchange_id (cm_result (paper_command oms cmd s)) = ''PAPER''"
    "cm_type (paper_command oms cmd s) = CMD_FILL_RESULT" "cm_order_id (paper_command oms cmd s) = submit_id oms cmd s"
proof -
  have a: "\<bar>mint (sc_qty cmd)\<bar> \<le> 2 ^ 50" using q by simp
  note b = money_double_bridge [OF a] money_double_bridge(1) [OF p]
  show "rs_success (cm_result (paper_command oms cmd s)) = 1" "rs_order_complete (cm_result (paper_command oms cmd s)) = 1"
    "rs_venue_terminal (cm_result (paper_command oms cmd s)) = 0" "f64_gt (rs_fill_qty (cm_result (paper_command oms cmd s))) (F64_Fin 0)"
    "Money (money_from_double_payload (rs_fill_qty (cm_result (paper_command oms cmd s)))) = sc_qty cmd"
    "Money (money_from_double_payload (rs_avg_fill_price (cm_result (paper_command oms cmd s)))) = px"
    "rs_commission (cm_result (paper_command oms cmd s)) = F64_Fin 0" "rs_is_maker (cm_result (paper_command oms cmd s)) = 0"
    "rs_exchange_id (cm_result (paper_command oms cmd s)) = ''PAPER''"
    "cm_type (paper_command oms cmd s) = CMD_FILL_RESULT" "cm_order_id (paper_command oms cmd s) = submit_id oms cmd s"
    using b q by (simp_all add: paper_command_def paper_result_def result_zero_def px_def)
qed


context fill_sink
begin

lemma handle_buy_opens:
  assumes "env_emit env = emit" "Order_GetType od = ORDER_MARKET_BUY" "0 \<le> o_portfolio_slot od" "o_portfolio_slot od < 16"
    and "\<not> Portfolio_SlotActive (om_portfolio oms) (nat (o_portfolio_slot od))"
  shows "om_portfolio (OrderManager_HandleFill env oms od px q c a) =
    Portfolio_OpenSlot_legacy (env_clock env) (om_portfolio oms) (nat (o_portfolio_slot od)) px q (per_fill_tp od px)
      (o_intended_sl od) (booked_fee_of od px q c a)"
  using assms by (simp add: OrderManager_HandleFill_def g_fill_dispatch_def handle_buy_fill_def Let_def
      emit_fill_frame [OF assms(1)] MAX_PORTFOLIO_POSITIONS_def)

text \<open>A complete fill of a buy order that has filled nothing yet.\<close>

lemma process_full_buy:
  assumes env: "env_emit env = emit" and s: "fill_slot oms (cm_order_id c) = Some s" "s < length (om_orders oms)"
    and od: "Order_GetType (order_at oms s) = ORDER_MARKET_BUY" "0 \<le> o_portfolio_slot (order_at oms s)"
      "o_portfolio_slot (order_at oms s) < 16" "\<not> Order_IsTerminal (order_at oms s)" "o_filled_qty (order_at oms s) = Money_Zero"
    and idle: "\<not> Portfolio_SlotActive (om_portfolio oms) (nat (o_portfolio_slot (order_at oms s)))"
    and r: "cm_type c = CMD_FILL_RESULT" "rs_success (cm_result c) = 1" "rs_order_complete (cm_result c) = 1" "rs_venue_terminal (cm_result c) = 0"
      "f64_gt (rs_fill_qty (cm_result c)) (F64_Fin 0)" "rs_commission (cm_result c) = F64_Fin 0"
    and px: "Money (money_from_double_payload (rs_avg_fill_price (cm_result c))) = px"
    and q: "Money (money_from_double_payload (rs_fill_qty (cm_result c))) = q"
  shows "fst (OrderManager_ProcessFillCommand env oms c)"
    "om_order_bitmap (snd (OrderManager_ProcessFillCommand env oms c)) = om_order_bitmap oms AND NOT (BITMAP_BIT s)"
    "om_portfolio (snd (OrderManager_ProcessFillCommand env oms c)) =
       Portfolio_OpenSlot_legacy (env_clock env) (om_portfolio oms) (nat (o_portfolio_slot (order_at oms s))) px q
         (per_fill_tp (order_at oms s) px) (o_intended_sl (order_at oms s))
         (Money_Mul (Money_Mul px q) (pr_fee_rate (o_pre_resolved (order_at oms s))))"
proof -
  let ?od = "order_at oms s"
  define o2 where "o2 = set_order s (\<lambda>od. od\<lparr>o_avg_fill_price := px\<rparr>)
      (set_order s (\<lambda>od. od\<lparr>o_exchange_id := c_copy 63 (rs_exchange_id (cm_result c))\<rparr>) oms)"
  define o4 where "o4 = (let oms = set_order s (\<lambda>od. od\<lparr>o_filled_qty := Money_Add (o_filled_qty od) q\<rparr>) o2;
      oms = set_order s (\<lambda>od. Order_SetIsMaker od (rs_is_maker (cm_result c) \<noteq> 0)) oms;
      oms = set_order s (\<lambda>od. Order_SetState od ORDER_FILLED) oms
    in oms\<lparr>om_total_filled := om_total_filled oms + 1\<rparr>)"
  let ?o5 = "OrderManager_HandleFill env o4 (order_at o4 s) px q (rs_commission (cm_result c)) (rs_commission_asset (cm_result c))"
  have n: "Order_GetState ?od \<noteq> ORDER_FILLED" using od(4) order_state_terminal by fastforce
  have z: "\<not> f64_eq (rs_fill_qty (cm_result c)) (F64_Fin 0)"
    using r(5) by (cases "rs_fill_qty (cm_result c)") (auto simp: f64_gt_def f64_eq_def)
  have avg: "o_avg_fill_price (order_at o4 s) = px" using s(2) by (simp add: o4_def o2_def Let_def order_at_def)
  have a: "apply_leg env s (cm_result c) o2 = ?o5"
    using r s(2) avg by (simp add: apply_leg_def o4_def Let_def q order_at_def o2_def)
  have f2: "o_filled_qty (order_at o2 s) = Money_Zero" using s(2) od(5) by (simp add: o2_def order_at_def)
  have "OrderManager_ProcessFillCommand env oms c = (True, free_if_terminal s (apply_leg env s (cm_result c) o2))"
    using n z r(1-5) f2 by (simp add: OrderManager_ProcessFillCommand_def s(1) Let_def px o2_def [symmetric]
        CMD_FILL_RESULT_def CMD_WS_FILL_def Money_Zero_def)
  then have pr: "OrderManager_ProcessFillCommand env oms c = (True, free_if_terminal s ?o5)" unfolding a .
  show "fst (OrderManager_ProcessFillCommand env oms c)" by (simp add: pr)
  have od4: "Order_GetType (order_at o4 s) = ORDER_MARKET_BUY" "o_portfolio_slot (order_at o4 s) = o_portfolio_slot ?od"
    "o_intended_sl (order_at o4 s) = o_intended_sl ?od" "o_intended_tp (order_at o4 s) = o_intended_tp ?od"
    "o_pre_resolved (order_at o4 s) = o_pre_resolved ?od" "Order_GetState (order_at o4 s) = ORDER_FILLED"
    "om_portfolio o4 = om_portfolio oms" "om_order_bitmap o4 = om_order_bitmap oms"
    using s(2) od(1) by (simp_all add: o4_def o2_def Let_def order_at_def)
  have b: "booked_fee_of (order_at o4 s) px q (rs_commission (cm_result c)) (rs_commission_asset (cm_result c)) =
      Money_Mul (Money_Mul px q) (pr_fee_rate (o_pre_resolved ?od))"
    by (simp add: booked_fee_of_def r(6) f64_gt_def od4)
  have t: "per_fill_tp (order_at o4 s) px = per_fill_tp ?od px" by (simp add: per_fill_tp_def od4)
  have "om_portfolio ?o5 = Portfolio_OpenSlot_legacy (env_clock env) (om_portfolio oms) (nat (o_portfolio_slot ?od)) px q
      (per_fill_tp ?od px) (o_intended_sl ?od) (Money_Mul (Money_Mul px q) (pr_fee_rate (o_pre_resolved ?od)))"
    using handle_buy_opens [OF env od4(1), of o4 px q "rs_commission (cm_result c)" "rs_commission_asset (cm_result c)"] od(2,3) idle
    by (simp add: od4 b t)
  then show "om_portfolio (snd (OrderManager_ProcessFillCommand env oms c)) =
       Portfolio_OpenSlot_legacy (env_clock env) (om_portfolio oms) (nat (o_portfolio_slot ?od)) px q
         (per_fill_tp ?od px) (o_intended_sl ?od) (Money_Mul (Money_Mul px q) (pr_fee_rate (o_pre_resolved ?od)))"
    by (simp add: pr free_if_terminal_def)
  have "Order_IsTerminal (order_at ?o5 s)"
    using order_state_terminal [of "order_at o4 s"] by (simp add: order_at_def handle_fill_frame [OF env] od4(6) [unfolded order_at_def])
  then show "om_order_bitmap (snd (OrderManager_ProcessFillCommand env oms c)) = om_order_bitmap oms AND NOT (BITMAP_BIT s)"
    by (simp add: pr free_if_terminal_def handle_fill_frame [OF env] od4)
qed

end

text \<open>C3: A paper buy, end to end.  In paper mode, with a free entry, an empty slot and idle result rings,
  submit a buy whose quantity and slipped price are at most \<open>2 ^ 50\<close> units.  The next result popped is
  its fill; processing it succeeds, opens the slot with exactly that quantity and price, the taker fee
  of the node bound at submission and the take-profit and stop asked for, and frees the entry.\<close>

theorem paper_buy_opens_position:
  fixes oms :: "'a oms" and cmd :: SubmitCommand
  defines "cfg \<equiv> (case sc_node_cfg cmd of Some c \<Rightarrow> c | None \<Rightarrow> NULL_PER_NODE_CFG_STUB)"
  defines "px \<equiv> Money_Add (sc_event_price cmd) (Money_Mul (sc_event_price cmd) (nc_slippage_pct cfg))"
  assumes env: "direct_env env" and ok: "inflight_ok oms" "om_order_bitmap oms \<noteq> - 1" "rings_idle oms" "\<not> oms_live oms"
    and cmd: "sc_order_type cmd = ORDER_MARKET_BUY" "0 \<le> sc_portfolio_slot cmd" "sc_portfolio_slot cmd < 16"
    and idle: "\<not> Portfolio_SlotActive (om_portfolio oms) (nat (sc_portfolio_slot cmd))"
    and q: "0 < mint (sc_qty cmd)" "mint (sc_qty cmd) \<le> 2 ^ 50" and p: "\<bar>mint px\<bar> \<le> 2 ^ 50"
    and run: "OMS_ResultPop (snd (OrderManager_Submit env oms cmd)) = (res, oms2)"
  shows "\<exists>c oms3. res = Some c \<and> OrderManager_ProcessFillCommand env oms2 c = (True, oms3) \<and>
    om_order_bitmap oms3 = om_order_bitmap oms \<and>
    om_portfolio oms3 = Portfolio_OpenSlot_legacy (env_clock env) (om_portfolio oms) (nat (sc_portfolio_slot cmd)) px (sc_qty cmd)
      (if \<not> Money_IsZero (sc_tp_pct cmd) then Money_Add px (Money_Mul px (sc_tp_pct cmd)) else sc_intended_tp cmd)
      (sc_intended_sl cmd) (Money_Mul (Money_Mul px (sc_qty cmd)) (nc_fee_rate_taker cfg))"
proof -
  let ?s = "free_order_slot oms"
  let ?e = "submit_entered env oms cmd ?s" and ?c = "paper_command oms cmd ?s"
  have slip: "(case sc_node_cfg cmd of Some cfg \<Rightarrow> nc_slippage_pct cfg | None \<Rightarrow> Money 0) = nc_slippage_pct cfg"
    by (simp add: cfg_def NULL_PER_NODE_CFG_STUB_def split: option.split)
  have px: "paper_fill_price (sc_order_type cmd) (sc_event_price cmd)
      (case sc_node_cfg cmd of Some cfg \<Rightarrow> nc_slippage_pct cfg | None \<Rightarrow> Money 0) = px"
    unfolding slip by (simp add: paper_fill_price_def cmd(1) px_def Let_def)
  note fs = free_slot [OF not_full [OF ok(2)], folded free_order_slot_def]
  have len: "length (om_orders oms) = 16" using ok(1) by (simp add: inflight_ok_def inflight_almost_def MAX_INFLIGHT_ORDERS_def)
  have cok: "cmd_ok cmd" using cmd by (simp add: cmd_ok_def)
  have sub: "snd (OrderManager_Submit env oms cmd) = snd (OMS_ResultPush ?e ?c)"
    by (rule paper_submit) (use ok len in \<open>simp_all add: MAX_INFLIGHT_ORDERS_def\<close>)
  have "rings_idle ?e" using ok(3) by (simp add: entered_idle)
  note pop = push_then_pop [OF this, of ?c, folded sub, unfolded run fst_conv snd_conv]
  have t: "om_orders oms2 = om_orders ?e" "om_order_bitmap oms2 = om_order_bitmap ?e" using pop(2) by (simp_all add: oms_table_def)
  note cf = paper_command_fill [OF q p [folded px], of oms ?s, unfolded px]
  have o: "order_at oms2 ?s = submitted_order (env_now_us env) cmd (submit_id oms cmd ?s) (om_orders oms ! ?s)"
    using fs(1) len by (simp add: order_at_def t)
  have "bit (om_order_bitmap oms2) ?s" using fs(1) by (simp add: t bit_set)
  then have b: "om_order_bitmap oms2 AND BITMAP_BIT ?s \<noteq> 0"
    using is_set_bit [of ?s "om_order_bitmap oms2"] fs(1) by (simp add: BITMAP_IS_SET_def)
  have fl: "fill_slot oms2 (cm_order_id ?c) = Some ?s"
    using b by (simp add: fill_slot_def cf(11) submit_id_lanes(1) [OF cok fs(1)] o submitted_order_facts)
  have env': "env_emit env = OrderManager_FillEmitDirect" using env by (simp add: direct_env_def)
  have od: "Order_GetType (order_at oms2 ?s) = ORDER_MARKET_BUY" "0 \<le> o_portfolio_slot (order_at oms2 ?s)"
    "o_portfolio_slot (order_at oms2 ?s) < 16" "\<not> Order_IsTerminal (order_at oms2 ?s)" "o_filled_qty (order_at oms2 ?s) = Money_Zero"
    "\<not> Portfolio_SlotActive (om_portfolio oms2) (nat (o_portfolio_slot (order_at oms2 ?s)))"
    using cmd idle by (simp_all add: o submitted_order_facts pop(3))
  note pf = direct.process_full_buy [OF env' fl _ od cf(10,1,2,3,4,7,6,5)]
  have l2: "?s < length (om_orders oms2)" using fs(1) len by (simp add: t)
  have bm: "om_order_bitmap oms2 AND NOT (BITMAP_BIT ?s) = om_order_bitmap oms"
    using set_then_clear [OF fs(2)] by (simp add: t BITMAP_CLR_def)
  have rate: "pr_fee_rate (o_pre_resolved (order_at oms2 ?s)) = nc_fee_rate_taker cfg" "pr_tp_pct (o_pre_resolved (order_at oms2 ?s)) = sc_tp_pct cmd"
    by (simp_all add: o submitted_order_facts Let_def cfg_def)
  obtain oms3 where "OrderManager_ProcessFillCommand env oms2 ?c = (True, oms3)"
    using pf(1) [OF l2] by (cases "OrderManager_ProcessFillCommand env oms2 ?c") simp
  then show ?thesis
    using pop(1) pf(2,3) [OF l2] bm rate
    by (simp add: pop(3) o submitted_order_facts per_fill_tp_def)
qed

end
