(* ===== verification/Order_Witness.thy ===== *)
theory Order_Witness
  imports Order_Boot Order_Paper
begin

text \<open>
  A concrete manager with its queues, log and one order, and the instances of the properties of the
  order theories on it.
\<close>

unbundle bit_operations_syntax

subsection \<open>A concrete manager\<close>

definition demo_order :: Order where
  "demo_order = \<lparr>o_id = 0, o_client_id = 0, o_flags_packed = 0, o_portfolio_slot = - 1, o_strategy_id = 0,
     o_requested_qty = Money 0, o_requested_price = Money 0, o_filled_qty = Money 0, o_avg_fill_price = Money 0,
     o_intended_tp = Money 0, o_intended_sl = Money 0, o_event_price = Money 0, o_submitted_at_us = 0, o_last_update_us = 0,
     o_pre_resolved = \<lparr>pr_fee_rate = Money 0, pr_slippage_pct = Money 0, pr_tp_pct = Money 0\<rparr>, o_exchange_id = []\<rparr>"

definition demo_cmd :: Command where
  "demo_cmd = \<lparr>cm_type = 0, cm_order_id = 0, cm_result = result_zero\<rparr>"

definition demo_buy :: SubmitCommand where
  "demo_buy = (SubmitCommand_make 3 ORDER_MARKET_BUY (Money 200000000) 1 None)\<lparr>sc_event_price := Money 5000000000\<rparr>"

definition empty_ring :: "'a \<Rightarrow> 'a spsc_ring" where
  "empty_ring x = \<lparr>rg_head = 0, rg_cached_tail = 0, rg_tail = 0, rg_cached_head = 0, rg_slots = [x, x]\<rparr>"

definition demo_oms :: OrderManagerState where
  "demo_oms = \<lparr>om_orders = replicate 16 demo_order, om_order_bitmap = 0, om_next_order_id = 1,
     om_result_rings = replicate 16 (empty_ring demo_cmd), om_ws_result_queue = empty_ring demo_cmd,
     om_reconcile_queue = empty_ring demo_cmd, om_submit_queues = replicate 16 (empty_ring demo_buy),
     om_event_log = demo_log, om_oe_rings = replicate 16 (empty_ring event_zero),
     om_portfolio = \<lparr>pf_active_bitmap = 0, pf_positions = replicate 16 position_zero\<rparr>,
     om_balance = Money 100000000000, om_realized_pnl = Money 0, om_maker_fills_count = 0, om_taker_fills_count = 0,
     om_total_maker_fees = Money 0, om_total_taker_fees = Money 0, om_total_fees = Money 0,
     om_last_closed_mask = 0, om_last_opened_mask = 0, om_last_realized_return = replicate 16 (F64_Fin 0),
     om_last_was_win_bitmap = 0, om_last_exit_fill_price = replicate 16 (Money 0), om_last_exit_fee = replicate 16 (Money 0),
     om_last_trade_net = replicate 16 (Money 0), om_last_trade_notional = replicate 16 (Money 0),
     om_bandit_reward_bps = replicate 16 (F64_Fin 0), om_oms_state_flags = 0, om_ks_peak_balance = Money 0,
     om_total_submitted = 0, om_total_filled = 0, om_total_rejected = 0, om_paper_session_start_us = 0,
     om_ks_min_balance = Money 0, om_ks_max_drawdown_pct = Money 0, om_ks_trips_total = 0, om_last_exit_predicted_bitmap = 0,
     om_last_exit_predicted_p = replicate 16 (F64_Fin 0), om_last_exit_predicted_meta = replicate 16 0,
     om_flatten_pending = 0, om_recovery_until_us = 0, om_last_seen_trade_id = 0, om_agg_attached = False,
     om_fill_emit_seq = replicate 16 0\<rparr>"

definition demo_env :: "unit oms_env" where
  "demo_env = \<lparr>env_now_us = 7, env_clock = None, env_submit_buy = None, env_submit_sell = None,
     env_append = (\<lambda>l e. log_sync (L_Append e) l), env_emit = OrderManager_FillEmitDirect\<rparr>"

lemma demo_env_ok: "direct_env demo_env" "sync_env demo_env"
  by (simp_all add: direct_env_def sync_env_def demo_env_def)

lemma demo_buy_ok: "cmd_ok demo_buy"
  by (simp add: cmd_ok_def demo_buy_def SubmitCommand_make_def)

lemma demo_oms_table: "length (om_orders demo_oms) = MAX_INFLIGHT_ORDERS" "om_order_bitmap demo_oms = 0"
  by (simp_all add: demo_oms_def MAX_INFLIGHT_ORDERS_def)

definition demo_bought :: OrderManagerState where
  "demo_bought = snd (OrderManager_Submit demo_env demo_oms demo_buy)"

lemma demo_submit:
  "free_order_slot demo_oms = 0" "submit_accepts demo_env demo_oms demo_buy 0" "om_order_bitmap demo_bought = BITMAP_BIT 0"
proof -
  have n: "om_order_bitmap demo_oms \<noteq> - 1" by (simp add: demo_oms_table)
  show f: "free_order_slot demo_oms = 0"
    using free_slot(3) [OF not_full [OF n], folded free_order_slot_def, of 0] by (auto simp: demo_oms_table)
  show a: "submit_accepts demo_env demo_oms demo_buy 0"
    by (simp add: submit_accepts_def oms_live_def BITMAP_IS_SET_def demo_oms_def)
  show "om_order_bitmap demo_bought = BITMAP_BIT 0"
    using submit_table(1) [OF n, of demo_env demo_buy] a
    by (simp add: f demo_bought_def oms_table_def demo_oms_table BITMAP_SET_def)
qed

lemma demo_bit: "bit (BITMAP_BIT 0 :: u16) 0"
  by (simp add: BITMAP_BIT_def)

lemma demo_step: "oms_step direct_env demo_oms demo_bought"
  unfolding demo_bought_def by (rule step_submit) (rule demo_env_ok demo_buy_ok)+

lemma demo_bought_ok:
  "length (om_orders demo_bought) = MAX_INFLIGHT_ORDERS" "OMS_OrderIdSlot (o_id (om_orders demo_bought ! 0)) = 0"
  "\<not> Order_IsTerminal (order_at demo_bought 0)"
proof -
  have "inflight_ok demo_oms" by (simp add: inflight_ok_def inflight_almost_def demo_oms_table)
  from step_inflight [OF demo_step this]
  show "length (om_orders demo_bought) = MAX_INFLIGHT_ORDERS" "OMS_OrderIdSlot (o_id (om_orders demo_bought ! 0)) = 0"
    "\<not> Order_IsTerminal (order_at demo_bought 0)"
    using demo_bit by (auto simp: inflight_ok_def inflight_almost_def order_id_ok_def order_at_def demo_submit(3))
qed

lemma inflight_table_invariant_witness:
  "OMS_OrderIdSlot (o_id (om_orders demo_bought ! 0)) = 0 \<and> \<not> Order_IsTerminal (om_orders demo_bought ! 0)"
  using inflight_table_invariant [OF reach_step [OF reach_refl demo_step] demo_oms_table] demo_bit
  by (simp add: demo_submit(3))

lemma OrderManager_Submit_spec_witness:
  "Order_GetState (om_orders demo_bought ! 0) = ORDER_SUBMITTED \<and> o_requested_qty (om_orders demo_bought ! 0) = sc_qty demo_buy"
proof -
  have "om_order_bitmap demo_oms \<noteq> - 1" by (simp add: demo_oms_table)
  then show ?thesis
    using OrderManager_Submit_spec [OF demo_buy_ok demo_oms_table(1), of demo_env] demo_submit(2)
    unfolding demo_submit(1) demo_bought_def [symmetric] by simp
qed

text \<open>A rejection of that order, and the same rejection again.\<close>

definition demo_reject :: Command where
  "demo_reject = \<lparr>cm_type = CMD_FILL_RESULT, cm_order_id = o_id (om_orders demo_bought ! 0), cm_result = result_zero\<rparr>"

lemma final_result_applied_once_witness:
  "\<exists>oms'. OrderManager_ProcessFillCommand demo_env demo_bought demo_reject = (True, oms') \<and>
     OrderManager_ProcessFillCommand demo_env oms' demo_reject = (False, oms')"
proof -
  have "fill_slot demo_bought (cm_order_id demo_reject) = Some 0"
    by (simp add: fill_slot_def demo_reject_def demo_bought_ok order_at_def demo_submit(3) BITMAP_BIT_def)
  moreover have "Order_GetState (order_at demo_bought 0) \<noteq> ORDER_FILLED"
    using demo_bought_ok(3) order_state_terminal by fastforce
  ultimately obtain oms' where o: "OrderManager_ProcessFillCommand demo_env demo_bought demo_reject = (True, oms')"
    by (simp add: OrderManager_ProcessFillCommand_def demo_reject_def result_zero_def CMD_FILL_RESULT_def CMD_WS_FILL_def)
  have r: "rs_success (cm_result demo_reject) = 0 \<or> rs_order_complete (cm_result demo_reject) \<noteq> 0 \<and> f64_gt (rs_fill_qty (cm_result demo_reject)) (F64_Fin 0)"
    by (simp add: demo_reject_def result_zero_def)
  from final_result_applied_once [OF demo_env_ok(1) demo_bought_ok(1) o r refl] o show ?thesis by blast
qed


text \<open>The result rings are idle, and a tick on them ends.\<close>

lemma empty_ring_ok: "ring_ok (empty_ring x)" "ring_items (empty_ring x) = []" "ring_room (empty_ring x) = 2 ^ 64 - 1"
  using ring_geom_2 [unfolded numeral_2_eq_2] by (simp_all add: empty_ring_def ring_ok_def ring_items_def ring_room_def ring_N_def)

lemma demo_queues:
  "om_result_rings demo_oms = replicate 16 (empty_ring demo_cmd)" "om_ws_result_queue demo_oms = empty_ring demo_cmd"
  "om_reconcile_queue demo_oms = empty_ring demo_cmd" "om_submit_queues demo_oms = replicate 16 (empty_ring demo_buy)"
  by (simp_all add: demo_oms_def)

lemma demo_idle: "rings_ready (2 ^ 64 - 1) (om_result_rings demo_oms)" "rings_idle demo_oms" "result_work (om_result_rings demo_oms) = 0"
  by (auto simp: rings_idle_def rings_ready_def demo_queues empty_ring_ok MAX_EXECUTION_NODES_def result_work_def ring_work_def
      sum_list_replicate)

lemma OrderManager_Tick_returns_witness: "\<exists>oms'. OrderManager_Tick 1 demo_env demo_oms = Some oms'"
proof -
  have "rings_ready (result_work (om_result_rings demo_oms)) (om_result_rings demo_oms)"
    using demo_idle(1) by (rule rings_ready_mono) (simp add: demo_idle(3))
  from OrderManager_Tick_returns [OF demo_env_ok(1) this, of 1] show ?thesis
    by (auto simp: demo_queues demo_idle(3) [unfolded demo_queues] empty_ring_ok)
qed

definition demo_queued :: OrderManagerState where
  "demo_queued = demo_oms\<lparr>om_submit_queues := (replicate 16 (empty_ring demo_buy))
     [3 := snd (SPSCRing_TryPush (empty_ring demo_buy) demo_buy)]\<rparr>"

lemma OMS_DrainSubmit_fifo_witness:
  "\<exists>oms'. OMS_DrainSubmit 2 demo_env demo_queued 16 = Some (1, oms')"
proof -
  let ?r = "snd (SPSCRing_TryPush (empty_ring demo_buy) demo_buy)"
  obtain b r where p: "SPSCRing_TryPush (empty_ring demo_buy) demo_buy = (b, r)" by fastforce
  have "0 < ring_room (empty_ring demo_buy)" by (simp add: empty_ring_ok)
  from ring.push_law [OF empty_ring_ok(1) this p]
  have r: "ring_ok ?r" "ring_items ?r = [demo_buy]"
    by (simp_all add: p empty_ring_ok) (simp add: empty_ring_def ring_N_def)
  have q: "om_submit_queues demo_queued = (replicate 16 (empty_ring demo_buy))[3 := ?r]" by (simp add: demo_queued_def)
  have s: "\<forall>x \<in> set (om_submit_queues demo_queued). ring_ok x \<and> length (ring_items x) < 2"
  proof
    fix x
    assume "x \<in> set (om_submit_queues demo_queued)"
    then have "x = ?r \<or> x = empty_ring demo_buy"
      by (auto simp: q in_set_conv_nth nth_list_update split: if_splits)
    then show "ring_ok x \<and> length (ring_items x) < 2" using r empty_ring_ok(1,2) [of demo_buy] by auto
  qed
  have l: "length (om_submit_queues demo_queued) = MAX_PORTFOLIO_POSITIONS" by (simp add: q MAX_PORTFOLIO_POSITIONS_def)
  have "length (concat (map (\<lambda>s. ring_items (om_submit_queues demo_queued ! s)) [0..<16])) = 1"
  proof -
    have "[0..<16] = [0..<3] @ 3 # [4..<16]" by code_simp
    moreover have "concat (map (\<lambda>s. ring_items (om_submit_queues demo_queued ! s)) ns) = []" if "set ns \<subseteq> {0..<16} - {3}" for ns
      using that by (auto simp: q empty_ring_ok nth_list_update subset_iff)
    ultimately show ?thesis by (simp add: q r empty_ring_ok)
  qed
  then show ?thesis
    using OMS_DrainSubmit_fifo [OF l s, of demo_env 16] by (auto simp: MAX_PORTFOLIO_POSITIONS_def)
qed

lemma paper_buy_opens_position_witness:
  "\<exists>c oms3. fst (OMS_ResultPop demo_bought) = Some c \<and>
     OrderManager_ProcessFillCommand demo_env (snd (OMS_ResultPop demo_bought)) c = (True, oms3) \<and> om_order_bitmap oms3 = 0"
proof -
  have i: "inflight_ok demo_oms" "om_order_bitmap demo_oms \<noteq> - 1" "\<not> oms_live demo_oms"
    by (simp_all add: inflight_ok_def inflight_almost_def demo_oms_table oms_live_def BITMAP_IS_SET_def demo_oms_def MAX_INFLIGHT_ORDERS_def)
  have c: "sc_order_type demo_buy = ORDER_MARKET_BUY" "0 \<le> sc_portfolio_slot demo_buy" "sc_portfolio_slot demo_buy < 16"
    "0 < mint (sc_qty demo_buy)" "mint (sc_qty demo_buy) \<le> 2 ^ 50" "sc_event_price demo_buy = Money 5000000000"
    "(case sc_node_cfg demo_buy of Some c \<Rightarrow> c | None \<Rightarrow> NULL_PER_NODE_CFG_STUB) = NULL_PER_NODE_CFG_STUB"
    by (simp_all add: demo_buy_def SubmitCommand_make_def)
  have n: "\<not> Portfolio_SlotActive (om_portfolio demo_oms) (nat (sc_portfolio_slot demo_buy))"
    by (simp add: Portfolio_SlotActive_def demo_oms_def)
  have "nc_slippage_pct NULL_PER_NODE_CFG_STUB = Money_Zero" by (simp add: NULL_PER_NODE_CFG_STUB_def Money_Zero_def)
  moreover have "money_closed (Money 5000000000)" by (simp add: money_closed_def money_lim_def)
  ultimately have px: "\<bar>mint (Money_Add (sc_event_price demo_buy) (Money_Mul (sc_event_price demo_buy)
      (nc_slippage_pct (case sc_node_cfg demo_buy of Some c \<Rightarrow> c | None \<Rightarrow> NULL_PER_NODE_CFG_STUB))))\<bar> \<le> 2 ^ 50"
    by (simp add: c mul_zero add_zero)
  obtain res oms2 where r: "OMS_ResultPop demo_bought = (res, oms2)" by fastforce
  from paper_buy_opens_position [OF demo_env_ok(1) i(1,2) demo_idle(2) i(3) c(1-3) n c(4,5) px r [unfolded demo_bought_def]]
  show ?thesis by (auto simp: r demo_oms_table)
qed


text \<open>A boot on a fresh log file, one submission, and a boot from that file.\<close>

definition demo_ctx :: OmsInitCtx where
  "demo_ctx = \<lparr>ic_live_trading = 0, ic_partial_exit_enabled = 0, ic_event_log_mode = 1,
     ic_starting_balance = Money 100000000000, ic_event_log_path = Some ''ev''\<rparr>"

definition demo_be :: boot_env where
  "demo_be = \<lparr>be_fuel = 1, be_now_us = 1, be_clock = None, be_open_wb = True, be_open_ab = True, be_alloc_ok = True,
     be_rename_ok = True, be_open_ok = True, be_rotate_now = 1, be_thread_created = False\<rparr>"

lemma demo_logged:
  "\<not> el_writer_thread_active l \<Longrightarrow> logged_boot demo_be demo_ctx ''ev'' (demo_oms\<lparr>om_event_log := l\<rparr>)"
  by (simp add: logged_boot_def demo_be_def demo_ctx_def demo_oms_def MAX_INFLIGHT_ORDERS_def MAX_PORTFOLIO_POSITIONS_def
      money_closed_def money_lim_def)



text \<open>Live trading, no adapter, a sell at entry 1 for a position of five.\<close>

definition demo_live :: OrderManagerState where
  "demo_live = demo_oms\<lparr>om_oms_state_flags := MASK_OMS_STATE_LIVE_TRADING, om_order_bitmap := BITMAP_BIT 0 OR BITMAP_BIT 1,
     om_orders := (replicate 16 demo_order)[1 := demo_order\<lparr>o_id := 9, o_flags_packed := 1, o_portfolio_slot := 3,
       o_pre_resolved := \<lparr>pr_fee_rate = Money 100000, pr_slippage_pct = Money 0, pr_tp_pct = Money 0\<rparr>\<rparr>],
     om_portfolio := \<lparr>pf_active_bitmap = BITMAP_BIT 3,
       pf_positions = (replicate 16 position_zero)[3 := position_zero\<lparr>p_quantity := Money 5\<rparr>]\<rparr>\<rparr>"

lemma refused_resubmit_overwrites_entry_zero_witness:
  "pr_fee_rate (o_pre_resolved (order_at demo_live 0)) = Money 0 \<and>
   pr_fee_rate (o_pre_resolved (order_at (terminal_incomplete demo_env 1 demo_live) 0)) = Money 100000"
proof -
  have o: "order_at demo_live 1 = demo_order\<lparr>o_id := 9, o_flags_packed := 1, o_portfolio_slot := 3,
      o_pre_resolved := \<lparr>pr_fee_rate = Money 100000, pr_slippage_pct = Money 0, pr_tp_pct = Money 0\<rparr>\<rparr>"
    by (simp add: demo_live_def order_at_def)
  have "oms_live demo_live" by (simp add: demo_live_def oms_live_def BITMAP_IS_SET_def MASK_OMS_STATE_LIVE_TRADING_def BITMAP_BIT_def)
  moreover have "env_submit_buy demo_env = None" by (simp add: demo_env_def)
  moreover have "length (om_orders demo_live) = MAX_INFLIGHT_ORDERS" by (simp add: demo_live_def MAX_INFLIGHT_ORDERS_def)
  moreover have "bit (om_order_bitmap demo_live) 0" by (simp add: demo_live_def BITMAP_BIT_def bit_simps)
  moreover have "Order_GetType (order_at demo_live 1) = ORDER_MARKET_SELL"
    unfolding o by code_simp
  moreover have "Portfolio_SlotActive (om_portfolio demo_live) (nat (o_portfolio_slot (order_at demo_live 1)))"
    unfolding o by (simp add: demo_live_def Portfolio_SlotActive_def BITMAP_BIT_def bit_simps)
  moreover have "\<not> Money_IsZero (p_quantity (pf_positions (om_portfolio demo_live) ! nat (o_portfolio_slot (order_at demo_live 1))))"
    unfolding o by (simp add: demo_live_def)
  ultimately have "o_pre_resolved (order_at (terminal_incomplete demo_env 1 demo_live) 0) = o_pre_resolved (order_at demo_live 1)"
    using refused_resubmit_overwrites_entry_zero [of demo_live demo_env 1] by (simp add: MAX_INFLIGHT_ORDERS_def)
  then show ?thesis unfolding o by (simp add: demo_live_def order_at_def demo_order_def)
qed

end
