(* ===== verification/Gate_Params.thy ===== *)
theory Gate_Params
  imports Money_Ops
begin

text \<open>
  The gate parameter pack and its evaluators (\<^verbatim>\<open>src/CoreFrameworks/GateParameters.hpp\<close>), the
  tick and trade-event records they work on (\<^verbatim>\<open>Tick.hpp\<close>, \<^verbatim>\<open>TradeEvent.hpp\<close>) and the
  per-core latency counters (\<^verbatim>\<open>NodeLatencyStats.hpp\<close>).  The evaluators are kept in the
  branchless form of the source, on 64-bit masks; the lemmas read them as conditions.
\<close>

subsection \<open>Ticks, trade events, parameter packs\<close>

record Tick =
  tk_price :: Money
  tk_volume :: Money
  tk_timestamp :: u64
  tk_sequence :: u64
  tk_is_buyer_maker :: u8

record TradeEvent =
  te_price :: Money
  te_timestamp :: u64
  te_node_id :: u16
  te_type :: u8
  te_leg :: u8

definition TRADE_EVENT_ENTRY :: u8 where "TRADE_EVENT_ENTRY = 1"
definition TRADE_EVENT_EXIT :: u8 where "TRADE_EVENT_EXIT = 2"
definition PARTIAL_LEG_A :: u8 where "PARTIAL_LEG_A = 0"
definition PARTIAL_LEG_B :: u8 where "PARTIAL_LEG_B = 1"

lemmas event_codes = TRADE_EVENT_ENTRY_def TRADE_EVENT_EXIT_def PARTIAL_LEG_A_def PARTIAL_LEG_B_def

definition GATE_FLAG_TP_ENABLED :: u8 where "GATE_FLAG_TP_ENABLED = 0x01"
definition GATE_FLAG_SL_ENABLED :: u8 where "GATE_FLAG_SL_ENABLED = 0x02"
definition GATE_FLAG_TRAILING_ENABLED :: u8 where "GATE_FLAG_TRAILING_ENABLED = 0x04"
definition GATE_FLAG_VOLUME_REQUIRED :: u8 where "GATE_FLAG_VOLUME_REQUIRED = 0x08"
definition GATE_FLAG_BUY_ABOVE :: u8 where "GATE_FLAG_BUY_ABOVE = 0x10"
definition GATE_FLAG_BUY_BLOCKED :: u8 where "GATE_FLAG_BUY_BLOCKED = 0x20"
definition GATE_FLAG_PAIR_ACTIVE :: u8 where "GATE_FLAG_PAIR_ACTIVE = 0x40"
definition GATE_FLAG_STALENESS_ENABLED :: u8 where "GATE_FLAG_STALENESS_ENABLED = 0x80"

lemmas gate_flags = GATE_FLAG_TP_ENABLED_def GATE_FLAG_SL_ENABLED_def GATE_FLAG_TRAILING_ENABLED_def
  GATE_FLAG_VOLUME_REQUIRED_def GATE_FLAG_BUY_ABOVE_def GATE_FLAG_BUY_BLOCKED_def
  GATE_FLAG_PAIR_ACTIVE_def GATE_FLAG_STALENESS_ENABLED_def

definition STRATEGY_NONE :: u8 where "STRATEGY_NONE = 0xFF"

record GateParameters =
  gp_bg_price_threshold :: Money
  gp_bg_volume_threshold :: Money
  gp_sg_take_profit_price :: Money
  gp_sg_stop_loss_price :: Money
  gp_tp_pct :: Money
  gp_sl_pct :: Money
  gp_tp_pct_b :: Money
  gp_trade_size :: Money
  gp_ratchet_sl :: Money
  gp_ratchet_tp :: Money
  gp_strategy_id :: u8
  gp_flags :: u8
  gp_pad :: "u8 list"
  gp_param_max_age_ticks :: u64
  gp_tail_pad :: "u8 list"

definition gate_flag :: "u8 \<Rightarrow> u8 \<Rightarrow> u64" where
  "gate_flag flags m = of_bool (flags AND m \<noteq> 0)"

definition BG_Evaluate :: "Tick \<Rightarrow> GateParameters \<Rightarrow> bool" where
  "BG_Evaluate tick params =
     (let price_below = of_bool (Money_Lt (tk_price tick) (gp_bg_price_threshold params)) :: u64;
          price_above = of_bool (Money_Gt (tk_price tick) (gp_bg_price_threshold params)) :: u64;
          buy_above = gate_flag (gp_flags params) GATE_FLAG_BUY_ABOVE;
          price_ok = (price_above AND buy_above) OR (price_below AND NOT buy_above);
          volume_ok = of_bool (Money_Gt (tk_volume tick) (gp_bg_volume_threshold params)) :: u64;
          volume_required = gate_flag (gp_flags params) GATE_FLAG_VOLUME_REQUIRED;
          volume_check = (volume_required AND volume_ok) OR (NOT volume_required AND 1);
          blocked = gate_flag (gp_flags params) GATE_FLAG_BUY_BLOCKED;
          blocked_mask = - blocked
      in (price_ok AND volume_check) AND NOT blocked_mask \<noteq> 0)"

definition SG_Evaluate :: "Money \<Rightarrow> Money \<Rightarrow> GateParameters \<Rightarrow> bool" where
  "SG_Evaluate current_price entry_price params =
     (let tp_enabled = gate_flag (gp_flags params) GATE_FLAG_TP_ENABLED;
          sl_enabled = gate_flag (gp_flags params) GATE_FLAG_SL_ENABLED;
          effective_tp = Money_Max (gp_sg_take_profit_price params) (gp_ratchet_tp params);
          effective_sl = Money_Max (gp_sg_stop_loss_price params) (gp_ratchet_sl params);
          tp_hit = of_bool (Money_Ge current_price effective_tp);
          sl_hit = of_bool (Money_Le current_price effective_sl)
      in (tp_enabled AND tp_hit) OR (sl_enabled AND sl_hit) \<noteq> 0)"

definition GateParameters_Init :: "GateParameters \<Rightarrow> GateParameters" where
  "GateParameters_Init params =
     params\<lparr>gp_bg_price_threshold := Money_Zero, gp_bg_volume_threshold := Money_Zero,
            gp_sg_take_profit_price := Money_Zero, gp_sg_stop_loss_price := Money_Zero,
            gp_tp_pct := Money_Zero, gp_sl_pct := Money_Zero, gp_tp_pct_b := Money_Zero,
            gp_trade_size := Money_Zero, gp_ratchet_sl := Money_Zero, gp_ratchet_tp := Money_Zero,
            gp_strategy_id := STRATEGY_NONE, gp_flags := 0, gp_param_max_age_ticks := 0,
            gp_pad := map (\<lambda>_. 0) (gp_pad params), gp_tail_pad := map (\<lambda>_. 0) (gp_tail_pad params)\<rparr>"

text \<open>The pack has six padding bytes before the age threshold and sixteen at its tail.\<close>

definition gate_layout :: "GateParameters \<Rightarrow> bool" where
  "gate_layout params \<longleftrightarrow> length (gp_pad params) = 6 \<and> length (gp_tail_pad params) = 16"

definition gate_fresh :: GateParameters where
  "gate_fresh =
     \<lparr>gp_bg_price_threshold = Money_Zero, gp_bg_volume_threshold = Money_Zero,
      gp_sg_take_profit_price = Money_Zero, gp_sg_stop_loss_price = Money_Zero,
      gp_tp_pct = Money_Zero, gp_sl_pct = Money_Zero, gp_tp_pct_b = Money_Zero,
      gp_trade_size = Money_Zero, gp_ratchet_sl = Money_Zero, gp_ratchet_tp = Money_Zero,
      gp_strategy_id = STRATEGY_NONE, gp_flags = 0, gp_pad = replicate 6 0,
      gp_param_max_age_ticks = 0, gp_tail_pad = replicate 16 0\<rparr>"

lemma init_reproducible: "gate_layout params \<Longrightarrow> GateParameters_Init params = gate_fresh"
  by (cases params) (simp add: gate_layout_def GateParameters_Init_def gate_fresh_def map_replicate_const)

subsection \<open>The gates as conditions\<close>

definition flag_on :: "u8 \<Rightarrow> u8 \<Rightarrow> bool" where
  "flag_on flags m \<longleftrightarrow> flags AND m \<noteq> 0"

lemma gate_flag_bool: "gate_flag flags m = of_bool (flag_on flags m)"
  by (simp add: gate_flag_def flag_on_def)

lemma mask_select: "(of_bool p AND of_bool c) OR (of_bool q AND NOT (of_bool c)) = (of_bool (if c then p else q) :: 'a::len word)"
  by (cases p; cases q; cases c) simp_all

lemma required_mask: "(of_bool r AND of_bool p) OR (NOT (of_bool r) AND 1) = (of_bool (r \<longrightarrow> p) :: 'a::len word)"
  by (cases p; cases r) simp_all

lemma veto_mask: "of_bool p AND NOT (- of_bool c) = (of_bool (p \<and> \<not> c) :: 'a::len word)"
  by (cases p; cases c) simp_all

lemmas mask_logic = mask_select required_mask veto_mask or_of_bool_word and_of_bool_word

definition buy_price_ok :: "Tick \<Rightarrow> GateParameters \<Rightarrow> bool" where
  "buy_price_ok tick params \<longleftrightarrow>
     (if flag_on (gp_flags params) GATE_FLAG_BUY_ABOVE
      then mint (gp_bg_price_threshold params) < mint (tk_price tick)
      else mint (tk_price tick) < mint (gp_bg_price_threshold params))"

definition buy_gate :: "Tick \<Rightarrow> GateParameters \<Rightarrow> bool" where
  "buy_gate tick params \<longleftrightarrow>
     buy_price_ok tick params \<and>
     (flag_on (gp_flags params) GATE_FLAG_VOLUME_REQUIRED \<longrightarrow>
        mint (gp_bg_volume_threshold params) < mint (tk_volume tick)) \<and>
     \<not> flag_on (gp_flags params) GATE_FLAG_BUY_BLOCKED"

definition sell_gate :: "Money \<Rightarrow> Money \<Rightarrow> Money \<Rightarrow> GateParameters \<Rightarrow> bool" where
  "sell_gate price tp sl params \<longleftrightarrow>
     flag_on (gp_flags params) GATE_FLAG_TP_ENABLED \<and> max (mint tp) (mint (gp_ratchet_tp params)) \<le> mint price \<or>
     flag_on (gp_flags params) GATE_FLAG_SL_ENABLED \<and> mint price \<le> max (mint sl) (mint (gp_ratchet_sl params))"

lemma BG_Evaluate_iff: "BG_Evaluate tick params \<longleftrightarrow> buy_gate tick params"
  unfolding BG_Evaluate_def Let_def gate_flag_bool mask_logic
  by (auto simp: buy_gate_def buy_price_ok_def)

lemma SG_Evaluate_iff:
  "SG_Evaluate price entry params \<longleftrightarrow>
   sell_gate price (gp_sg_take_profit_price params) (gp_sg_stop_loss_price params) params"
  unfolding SG_Evaluate_def Let_def gate_flag_bool mask_logic
  by (auto simp: sell_gate_def)

lemma fresh_never_fires: "\<not> flag_on (gp_flags gate_fresh) m" "\<not> SG_Evaluate price entry gate_fresh"
  by (simp_all add: SG_Evaluate_iff sell_gate_def flag_on_def gate_fresh_def)

subsection \<open>Latency counters\<close>

record NodeLatencyStats =
  nl_enabled :: u8
  nl_total_count :: u64
  nl_total_cycles :: u64
  nl_min_cycles :: u64
  nl_max_cycles :: u64
  nl_ring_head :: u32
  nl_last_sample_tsc :: u64
  nl_recent :: "u32 list"
  nl_lifetime_buckets :: "u64 list"

definition NL_RING_SIZE :: nat where "NL_RING_SIZE = 256"
definition NL_HIST_BUCKETS :: nat where "NL_HIST_BUCKETS = 64"

definition NodeLatencyStats_Reset :: "NodeLatencyStats \<Rightarrow> NodeLatencyStats" where
  "NodeLatencyStats_Reset s =
     s\<lparr>nl_total_count := 0, nl_total_cycles := 0, nl_min_cycles := - 1, nl_max_cycles := 0,
       nl_ring_head := 0, nl_last_sample_tsc := 0, nl_recent := replicate NL_RING_SIZE 0,
       nl_lifetime_buckets := replicate NL_HIST_BUCKETS 0\<rparr>"

definition NodeLatencyStats_Init :: "NodeLatencyStats \<Rightarrow> NodeLatencyStats" where
  "NodeLatencyStats_Init s =
     s\<lparr>nl_enabled := 0, nl_total_count := 0, nl_total_cycles := 0, nl_min_cycles := - 1, nl_max_cycles := 0,
       nl_ring_head := 0, nl_last_sample_tsc := 0, nl_recent := replicate NL_RING_SIZE 0,
       nl_lifetime_buckets := replicate NL_HIST_BUCKETS 0\<rparr>"

definition NodeLatencyStats_Enable :: "NodeLatencyStats \<Rightarrow> NodeLatencyStats" where
  "NodeLatencyStats_Enable s = s\<lparr>nl_enabled := 1\<rparr>"

definition NodeLatencyStats_Disable :: "NodeLatencyStats \<Rightarrow> NodeLatencyStats" where
  "NodeLatencyStats_Disable s = s\<lparr>nl_enabled := 0\<rparr>"

text \<open>\<^verbatim>\<open>__builtin_clzll\<close> counts the zero bits above the highest set bit.\<close>

definition clz64 :: "u64 \<Rightarrow> nat" where
  "clz64 w = length (takeWhile (\<lambda>i. \<not> bit w i) (rev [0..<64]))"

definition latency_bucket :: "u64 \<Rightarrow> nat" where
  "latency_bucket cycles =
     (let bucket = (if cycles = 0 then 0 else 63 - clz64 cycles)
      in if NL_HIST_BUCKETS \<le> bucket then NL_HIST_BUCKETS - 1 else bucket)"

definition NodeLatencyStats_Sample :: "u64 \<Rightarrow> u64 \<Rightarrow> NodeLatencyStats \<Rightarrow> NodeLatencyStats" where
  "NodeLatencyStats_Sample cycles now_tsc s =
     (let clamped = (if 0xFFFFFFFF < cycles then 0xFFFFFFFF else ucast cycles);
          bucket = latency_bucket cycles
      in s\<lparr>nl_total_count := nl_total_count s + 1,
           nl_total_cycles := nl_total_cycles s + cycles,
           nl_min_cycles := (if cycles < nl_min_cycles s then cycles else nl_min_cycles s),
           nl_max_cycles := (if nl_max_cycles s < cycles then cycles else nl_max_cycles s),
           nl_recent := (nl_recent s)[unat (nl_ring_head s) := clamped],
           nl_ring_head := (nl_ring_head s + 1) AND (word_of_nat NL_RING_SIZE - 1),
           nl_last_sample_tsc := now_tsc,
           nl_lifetime_buckets := (nl_lifetime_buckets s)[bucket := nl_lifetime_buckets s ! bucket + 1]\<rparr>)"

text \<open>What a list of samples, oldest first, must leave in the counters.\<close>

definition run_samples :: "(u64 \<times> u64) list \<Rightarrow> NodeLatencyStats \<Rightarrow> NodeLatencyStats" where
  "run_samples xs s = fold (\<lambda>(c, t). NodeLatencyStats_Sample c t) xs s"

lemma leading_zeros:
  "length (takeWhile (\<lambda>i. \<not> bit w i) (rev [0..<n])) = n \<and> (\<forall>i<n. \<not> bit w i) \<or>
   (\<exists>k<n. length (takeWhile (\<lambda>i. \<not> bit w i) (rev [0..<n])) = n - 1 - k \<and> bit w k \<and> (\<forall>i<n. k < i \<longrightarrow> \<not> bit w i))"
proof (induction n)
  case (Suc n)
  show ?case
  proof (cases "bit w n")
    case True
    then have "length (takeWhile (\<lambda>i. \<not> bit w i) (rev [0..<Suc n])) = Suc n - 1 - n \<and> bit w n \<and>
        (\<forall>i<Suc n. n < i \<longrightarrow> \<not> bit w i)" by simp
    then show ?thesis by blast
  next
    case False
    from Suc.IH show ?thesis
    proof (elim disjE exE conjE)
      assume "length (takeWhile (\<lambda>i. \<not> bit w i) (rev [0..<n])) = n" "\<forall>i<n. \<not> bit w i"
      then show ?thesis using False by (simp add: less_Suc_eq)
    next
      fix k
      assume "k < n" "length (takeWhile (\<lambda>i. \<not> bit w i) (rev [0..<n])) = n - 1 - k" "bit w k"
        "\<forall>i<n. k < i \<longrightarrow> \<not> bit w i"
      then show ?thesis using False by (intro disjI2 exI [of _ k]) (simp add: less_Suc_eq)
    qed
  qed
qed simp

lemma highest_bit_range:
  assumes "bit (w :: u64) k" "\<forall>i<64. k < i \<longrightarrow> \<not> bit w i"
  shows "2 ^ k \<le> unat w \<and> unat w < 2 ^ (k + 1)"
proof
  have "odd (unat w div 2 ^ k)"
    using assms(1) by (simp only: bit_iff_odd_drop_bit even_unat_64 [symmetric] unat_drop_bit_div simp_thms)
  then have "unat w div 2 ^ k \<noteq> 0" by (metis even_zero)
  then show "2 ^ k \<le> unat w" by (simp add: div_eq_0_iff)
  have "take_bit (k + 1) w = w"
    using assms(2) by (intro bit_word_eqI) (auto simp: bit_take_bit_iff)
  then have "unat w = unat w mod 2 ^ (k + 1)" by (metis unat_take_bit_mod)
  then show "unat w < 2 ^ (k + 1)" by (metis mod_less_divisor zero_less_numeral zero_less_power)
qed

text \<open>Bucket \<open>b\<close> of the histogram holds the cycles from \<open>2 ^ b\<close> to \<open>2 ^ (b + 1) - 1\<close>.\<close>

lemma latency_bucket_range:
  "latency_bucket c < 64 \<and> (c \<noteq> 0 \<longrightarrow> 2 ^ latency_bucket c \<le> unat c \<and> unat c < 2 ^ (latency_bucket c + 1))"
proof (cases "c = 0")
  case True
  then show ?thesis by (simp add: latency_bucket_def NL_HIST_BUCKETS_def)
next
  case False
  then have "\<exists>i<64. bit c i" using bit_word_eqI [of c 0] by auto
  then obtain k where "k < 64" "clz64 c = 63 - k" "bit c k" "\<forall>i<64. k < i \<longrightarrow> \<not> bit c i"
    using leading_zeros [of c 64] by (auto simp: clz64_def simp del: upt_rec_numeral)
  then show ?thesis
    using highest_bit_range [of c k] by (simp add: latency_bucket_def NL_HIST_BUCKETS_def Let_def)
qed

definition latency_ok :: "(u64 \<times> u64) list \<Rightarrow> NodeLatencyStats \<Rightarrow> bool" where
  "latency_ok xs s \<longleftrightarrow>
     nl_total_count s = word_of_nat (length xs) \<and>
     nl_total_cycles s = sum_list (map fst xs) \<and>
     nl_min_cycles s = fold min (map fst xs) (- 1) \<and>
     nl_max_cycles s = fold max (map fst xs) 0 \<and>
     unat (nl_ring_head s) = length xs mod 256 \<and> length (nl_recent s) = 256 \<and>
     (\<forall>i<length xs. length xs \<le> i + 256 \<longrightarrow>
        nl_recent s ! (i mod 256) = (if 0xFFFFFFFF < fst (xs ! i) then 0xFFFFFFFF else ucast (fst (xs ! i)))) \<and>
     length (nl_lifetime_buckets s) = 64 \<and>
     (\<forall>b<64. nl_lifetime_buckets s ! b = word_of_nat (length (filter (\<lambda>x. latency_bucket (fst x) = b) xs)))"

lemma latency_ok_init: "latency_ok [] (NodeLatencyStats_Init s)"
  by (simp add: latency_ok_def NodeLatencyStats_Init_def NL_RING_SIZE_def NL_HIST_BUCKETS_def)

lemma ring_head_next:
  assumes "unat (h :: u32) = n mod 256"
  shows "unat ((h + 1) AND (word_of_nat NL_RING_SIZE - 1)) = Suc n mod 256"
proof -
  have "(word_of_nat NL_RING_SIZE - 1 :: u32) = mask 8" by (simp add: NL_RING_SIZE_def mask_eq_exp_minus_1)
  then have "unat ((h + 1) AND (word_of_nat NL_RING_SIZE - 1)) = unat (h + 1) mod 256"
    by (simp only: take_bit_eq_mask [symmetric] unat_take_bit_mod) simp
  moreover have "n mod 256 < 256" by simp
  then have "unat (h + 1) = n mod 256 + 1" using assms by (subst unat_add_fit) simp_all
  ultimately show ?thesis by (simp only: Suc_eq_plus1 mod_simps)
qed

lemma latency_ok_sample:
  assumes ok: "latency_ok xs s"
  shows "latency_ok (xs @ [(c, t)]) (NodeLatencyStats_Sample c t s)"
proof -
  have lim: "unat (nl_ring_head s) = length xs mod 256" "length (nl_recent s) = 256" "length xs mod 256 < 256"
    using ok by (simp_all add: latency_ok_def)
  have nm: "(i mod 256 = length xs mod 256) = False" "(length xs mod 256 = i mod 256) = False" if "i < length xs" "length xs < i + 256" for i
  proof -
    have "\<not> 256 dvd length xs - i" using that dvd_imp_le [of 256 "length xs - i"] by auto
    then show "(i mod 256 = length xs mod 256) = False" "(length xs mod 256 = i mod 256) = False"
      using that(1) mod_eq_dvd_iff_nat [of i "length xs" 256] by auto
  qed
  have b: "latency_bucket c < 64" using latency_bucket_range by simp
  show ?thesis
    unfolding latency_ok_def
  proof (intro conjI)
    show "unat (nl_ring_head (NodeLatencyStats_Sample c t s)) = length (xs @ [(c, t)]) mod 256"
      using ring_head_next [OF lim(1)] by (simp add: NodeLatencyStats_Sample_def Let_def)
    show "\<forall>i<length (xs @ [(c, t)]). length (xs @ [(c, t)]) \<le> i + 256 \<longrightarrow>
        nl_recent (NodeLatencyStats_Sample c t s) ! (i mod 256) =
        (if 0xFFFFFFFF < fst ((xs @ [(c, t)]) ! i) then 0xFFFFFFFF else ucast (fst ((xs @ [(c, t)]) ! i)))"
      using ok lim nm
      by (auto simp: NodeLatencyStats_Sample_def Let_def latency_ok_def nth_append less_Suc_eq nth_list_update)
    show "\<forall>k<64. nl_lifetime_buckets (NodeLatencyStats_Sample c t s) ! k =
        word_of_nat (length (filter (\<lambda>x. latency_bucket (fst x) = k) (xs @ [(c, t)])))"
      using ok b by (auto simp: NodeLatencyStats_Sample_def Let_def latency_ok_def nth_list_update)
  qed (use ok in \<open>auto simp: NodeLatencyStats_Sample_def Let_def latency_ok_def min_def max_def\<close>)
qed

text \<open>After any run of samples on freshly initialised counters, the count, the cycle sum, the
  extremes, the histogram and the window of the last 256 samples are those of the sample list
  (the sums on 64 bits), and every bucket \<open>b > 0\<close> counts the samples from \<open>2 ^ b\<close> below \<open>2 ^ (b + 1)\<close>.\<close>

theorem latency_stats_spec:
  "latency_ok xs (run_samples xs (NodeLatencyStats_Init s))"
proof (induction xs rule: rev_induct)
  case Nil
  then show ?case by (simp add: run_samples_def latency_ok_init)
next
  case (snoc x xs)
  then show ?case by (cases x) (simp add: run_samples_def latency_ok_sample)
qed

end
