(* ===== verification/Param_Slot.thy ===== *)
theory Param_Slot
  imports Fox_Prelude
begin

text \<open>
  The parameter slot of \<^verbatim>\<open>src/CoreFrameworks/ParameterSlot.hpp\<close>: two payload buffers behind a
  64-bit sequence word (a seqlock).  The calls are modelled first; then the writer's and the
  reader's accesses are interleaved, the payload being copied field by field, to show that
  a read never returns a mixture of two payloads.
\<close>

subsection \<open>The slot and its calls\<close>

record 'a pslot =
  ps_buffers :: "'a list"
  ps_seq :: u64
  ps_publish_ticks :: "u64 list"

definition ParameterSlot_Init :: "'a pslot \<Rightarrow> 'a \<Rightarrow> 'a pslot" where
  "ParameterSlot_Init slot initial =
     slot\<lparr>ps_buffers := [initial, initial], ps_publish_ticks := [0, 0], ps_seq := 0\<rparr>"

definition slot_index :: "u64 \<Rightarrow> u64" where
  "slot_index s = (drop_bit 1 s AND 1)"

definition ParameterSlot_Write :: "'a pslot \<Rightarrow> 'a \<Rightarrow> u64 \<Rightarrow> 'a pslot" where
  "ParameterSlot_Write slot new_params publish_tick =
     (let s = ps_seq slot;
          next_idx = unat (slot_index s XOR 1)
      in slot\<lparr>ps_seq := s + 2,
              ps_buffers := (ps_buffers slot)[next_idx := new_params],
              ps_publish_ticks := (ps_publish_ticks slot)[next_idx := publish_tick]\<rparr>)"

text \<open>One trip of the read loop that no write overlaps: \<open>None\<close> means it spins again.\<close>

definition ParameterSlot_Read :: "'a pslot \<Rightarrow> ('a \<times> u64) option" where
  "ParameterSlot_Read slot =
     (let s1 = ps_seq slot
      in if s1 AND 1 \<noteq> 0 then None
         else Some (ps_buffers slot ! unat (slot_index s1), ps_publish_ticks slot ! unat (slot_index s1)))"

definition ParameterSlot_Sequence :: "'a pslot \<Rightarrow> u64" where
  "ParameterSlot_Sequence slot = ps_seq slot"

definition ParameterSlot_ActiveIndex :: "'a pslot \<Rightarrow> u8" where
  "ParameterSlot_ActiveIndex slot = ucast (slot_index (ps_seq slot))"

definition pslot_ok :: "'a pslot \<Rightarrow> bool" where
  "pslot_ok slot \<longleftrightarrow> length (ps_buffers slot) = 2 \<and> length (ps_publish_ticks slot) = 2 \<and> even (ps_seq slot)"

lemma slot_index_unat: "unat (slot_index s) = unat s div 2 mod 2"
proof -
  have "slot_index s = take_bit 1 (drop_bit 1 s)"
    by (simp add: slot_index_def take_bit_eq_mask)
  then show ?thesis by (simp only: unat_take_bit_mod unat_drop_bit_div power_one_right)
qed

lemma slot_index_next: "unat (slot_index s XOR 1) = 1 - unat s div 2 mod 2"
proof -
  have "slot_index s = 0 \<or> slot_index s = 1"
    using slot_index_unat [of s] by (auto simp: word_unat_eq_iff)
  then show ?thesis using slot_index_unat [of s] by auto
qed

lemma slot_init_ok:
  "pslot_ok (ParameterSlot_Init slot v)" "ParameterSlot_Read (ParameterSlot_Init slot v) = Some (v, 0)"
  by (simp_all add: pslot_ok_def ParameterSlot_Init_def ParameterSlot_Read_def slot_index_def Let_def)

lemma mod_div_half: "x mod (2 * m) div 2 = x div 2 mod (m :: nat)"
  unfolding mod_mult2_eq by simp

lemma half_plus2: "(x + 2) div 2 mod 2 = 1 - x div 2 mod (2 :: nat)"
  by simp presburger

lemma unat_plus2_div: "unat (s + 2 :: u64) div 2 mod 2 = 1 - unat s div 2 mod 2"
proof -
  have "unat (s + 2) = (unat s + 2) mod (2 * 2 ^ 63)" by (simp add: unat_word_ariths)
  then have "unat (s + 2) div 2 mod 2 = (unat s + 2) div 2 mod 2 ^ 63 mod 2"
    by (simp only: mod_div_half)
  also have "\<dots> = (unat s + 2) div 2 mod 2" by (rule mod_mod_cancel) simp
  also have "\<dots> = 1 - unat s div 2 mod 2" by (rule half_plus2)
  finally show ?thesis .
qed

lemma slot_written:
  assumes "pslot_ok slot"
  shows "ParameterSlot_Read (ParameterSlot_Write slot v tk) = Some (v, tk) \<and>
    pslot_ok (ParameterSlot_Write slot v tk) \<and>
    ParameterSlot_Sequence (ParameterSlot_Write slot v tk) = ParameterSlot_Sequence slot + 2"
proof -
  let ?s = "ps_seq slot"
  have e: "even ?s" "even (?s + 2)" using assms by (simp_all add: pslot_ok_def)
  have i: "unat (slot_index (?s + 2)) = unat (slot_index ?s XOR 1)"
    by (simp only: slot_index_unat slot_index_next unat_plus2_div)
  have lt: "unat (slot_index ?s XOR 1) < 2" by (simp only: slot_index_next)
  show ?thesis
    using assms e lt
    by (simp add: ParameterSlot_Read_def ParameterSlot_Write_def ParameterSlot_Sequence_def pslot_ok_def
        Let_def i and_one_flag)
qed

text \<open>A read that follows a completed write, with no write in between, returns exactly what
  was written, whatever the slot held; the sequence word stays even and advances by two.\<close>

theorem slot_write_read:
  assumes "pslot_ok slot"
  shows "ParameterSlot_Read (ParameterSlot_Write slot v tk) = Some (v, tk) \<and>
    pslot_ok (ParameterSlot_Write slot v tk) \<and>
    ParameterSlot_Sequence (ParameterSlot_Write slot v tk) = ParameterSlot_Sequence slot + 2"
  by (rule slot_written [OF assms])

lemma slot_write_read_witness:
  "ParameterSlot_Read (ParameterSlot_Write \<lparr>ps_buffers = [10, 20 :: nat], ps_seq = 6, ps_publish_ticks = [1, 2]\<rparr> 30 9)
   = Some (30, 9)"
  using slot_write_read [of "\<lparr>ps_buffers = [10, 20 :: nat], ps_seq = 6, ps_publish_ticks = [1, 2]\<rparr>" 30 9]
  by (simp add: pslot_ok_def)


subsection \<open>A writer and a reader interleaved\<close>

text \<open>
  The payload is a list of fields and each step is one access: a load or store of \<open>seq\<close>, one
  field of a buffer, or one publish tick.  The writer keeps the sequence word \<open>s\<close> it started
  from, the reader the word \<open>s1\<close> of its first load.  \<open>sl_pub\<close> records the published
  payloads with their ticks (the initial one first), \<open>sl_got\<close> what reads returned, with the
  number of the payload the reader believed current.
\<close>

datatype 'f writer_pc = W_Idle | W_Copy u64 "'f list" u64 nat | W_Seal u64 "'f list" u64
datatype 'f reader_pc = R_Idle | R_Copy u64 "'f list" | R_Check u64 "'f list" u64

record 'f slot_conc =
  sl_slot :: "'f list pslot"
  sl_w :: "'f writer_pc"
  sl_r :: "'f reader_pc"
  sl_pub :: "('f list \<times> u64) list"
  sl_got :: "(nat \<times> 'f list \<times> u64) list"

definition next_buf :: "u64 \<Rightarrow> nat" where
  "next_buf s = unat (slot_index s XOR 1)"

definition active_buf :: "u64 \<Rightarrow> nat" where
  "active_buf s = unat (slot_index s)"

inductive slot_step :: "'f slot_conc \<Rightarrow> 'f slot_conc \<Rightarrow> bool" where
  w_begin: "sl_w c = W_Idle \<Longrightarrow> length v = length (ps_buffers (sl_slot c) ! 0) \<Longrightarrow>
    slot_step c (c\<lparr>sl_slot := (sl_slot c)\<lparr>ps_seq := ps_seq (sl_slot c) + 1\<rparr>,
                   sl_w := W_Copy (ps_seq (sl_slot c)) v tk 0\<rparr>)"
| w_field: "sl_w c = W_Copy s v tk i \<Longrightarrow> i < length v \<Longrightarrow>
    slot_step c (c\<lparr>sl_slot := (sl_slot c)\<lparr>ps_buffers :=
                     (ps_buffers (sl_slot c))[next_buf s := (ps_buffers (sl_slot c) ! next_buf s)[i := v ! i]]\<rparr>,
                   sl_w := W_Copy s v tk (i + 1)\<rparr>)"
| w_tick: "sl_w c = W_Copy s v tk (length v) \<Longrightarrow>
    slot_step c (c\<lparr>sl_slot := (sl_slot c)\<lparr>ps_publish_ticks :=
                     (ps_publish_ticks (sl_slot c))[next_buf s := tk]\<rparr>,
                   sl_w := W_Seal s v tk\<rparr>)"
| w_publish: "sl_w c = W_Seal s v tk \<Longrightarrow>
    slot_step c (c\<lparr>sl_slot := (sl_slot c)\<lparr>ps_seq := s + 2\<rparr>, sl_w := W_Idle,
                   sl_pub := sl_pub c @ [(v, tk)]\<rparr>)"
| r_begin: "sl_r c = R_Idle \<Longrightarrow>
    slot_step c (c\<lparr>sl_r := (if ps_seq (sl_slot c) AND 1 \<noteq> 0 then R_Idle else R_Copy (ps_seq (sl_slot c)) [])\<rparr>)"
| r_field: "sl_r c = R_Copy s1 acc \<Longrightarrow> length acc < length (ps_buffers (sl_slot c) ! active_buf s1) \<Longrightarrow>
    slot_step c (c\<lparr>sl_r := R_Copy s1 (acc @ [ps_buffers (sl_slot c) ! active_buf s1 ! length acc])\<rparr>)"
| r_tick: "sl_r c = R_Copy s1 acc \<Longrightarrow> length acc = length (ps_buffers (sl_slot c) ! active_buf s1) \<Longrightarrow>
    slot_step c (c\<lparr>sl_r := R_Check s1 acc (ps_publish_ticks (sl_slot c) ! active_buf s1)\<rparr>)"
| r_return: "sl_r c = R_Check s1 acc tk \<Longrightarrow> ps_seq (sl_slot c) = s1 \<Longrightarrow>
    slot_step c (c\<lparr>sl_r := R_Idle, sl_got := sl_got c @ [(unat s1 div 2, acc, tk)]\<rparr>)"
| r_retry: "sl_r c = R_Check s1 acc tk \<Longrightarrow> ps_seq (sl_slot c) \<noteq> s1 \<Longrightarrow>
    slot_step c (c\<lparr>sl_r := R_Idle\<rparr>)"

inductive slot_reach :: "'f slot_conc \<Rightarrow> 'f slot_conc \<Rightarrow> bool" where
  slot_refl: "slot_reach c c"
| slot_trans: "slot_reach c d \<Longrightarrow> slot_step d e \<Longrightarrow> slot_reach c e"

definition slot_start :: "'f list pslot \<Rightarrow> 'f list \<Rightarrow> 'f slot_conc" where
  "slot_start slot v = \<lparr>sl_slot = ParameterSlot_Init slot v, sl_w = W_Idle, sl_r = R_Idle,
                        sl_pub = [(v, 0)], sl_got = []\<rparr>"

text \<open>
  The invariant, by component; \<open>q\<close> is the sequence number and \<open>P\<close> the published payloads.
\<close>

definition geom_ok :: "'f list list \<Rightarrow> u64 list \<Rightarrow> ('f list \<times> u64) list \<Rightarrow> bool" where
  "geom_ok B T P \<longleftrightarrow> length B = 2 \<and> length T = 2 \<and> length (B ! 1) = length (B ! 0) \<and> P \<noteq> [] \<and>
     (B ! ((length P - 1) mod 2), T ! ((length P - 1) mod 2)) = P ! (length P - 1)"

fun writer_ok :: "'f list list \<Rightarrow> u64 list \<Rightarrow> nat \<Rightarrow> ('f list \<times> u64) list \<Rightarrow> 'f writer_pc \<Rightarrow> bool" where
  "writer_ok B T q P W_Idle \<longleftrightarrow> q = 2 * (length P - 1) \<and>
     (2 \<le> length P \<longrightarrow> (B ! (length P mod 2), T ! (length P mod 2)) = P ! (length P - 2))"
| "writer_ok B T q P (W_Copy s v tk i) \<longleftrightarrow> q = 2 * (length P - 1) + 1 \<and> unat s = 2 * (length P - 1) \<and>
     length v = length (B ! 0) \<and> i \<le> length v \<and> take i (B ! (length P mod 2)) = take i v"
| "writer_ok B T q P (W_Seal s v tk) \<longleftrightarrow> q = 2 * (length P - 1) + 1 \<and> unat s = 2 * (length P - 1) \<and>
     (B ! (length P mod 2), T ! (length P mod 2)) = (v, tk)"

fun reader_ok :: "nat \<Rightarrow> ('f list \<times> u64) list \<Rightarrow> 'f reader_pc \<Rightarrow> bool" where
  "reader_ok q P R_Idle \<longleftrightarrow> True"
| "reader_ok q P (R_Copy s1 acc) \<longleftrightarrow> even (unat s1) \<and> unat s1 div 2 < length P \<and>
     (q \<le> unat s1 + 2 \<longrightarrow> acc = take (length acc) (fst (P ! (unat s1 div 2))))"
| "reader_ok q P (R_Check s1 acc tk) \<longleftrightarrow> even (unat s1) \<and> unat s1 div 2 < length P \<and>
     (q \<le> unat s1 + 2 \<longrightarrow> (acc, tk) = P ! (unat s1 div 2))"

definition got_ok :: "('f list \<times> u64) list \<Rightarrow> (nat \<times> 'f list \<times> u64) list \<Rightarrow> bool" where
  "got_ok P G \<longleftrightarrow> (\<forall>g \<in> set G. fst g < length P \<and> snd g = P ! fst g)"

definition slot_inv :: "'f slot_conc \<Rightarrow> bool" where
  "slot_inv c \<longleftrightarrow>
     geom_ok (ps_buffers (sl_slot c)) (ps_publish_ticks (sl_slot c)) (sl_pub c) \<and>
     writer_ok (ps_buffers (sl_slot c)) (ps_publish_ticks (sl_slot c)) (unat (ps_seq (sl_slot c))) (sl_pub c) (sl_w c) \<and>
     reader_ok (unat (ps_seq (sl_slot c))) (sl_pub c) (sl_r c) \<and> got_ok (sl_pub c) (sl_got c)"

lemma slot_inv_start: "slot_inv (slot_start slot v)"
  by (simp add: slot_inv_def slot_start_def ParameterSlot_Init_def geom_ok_def got_ok_def)

lemma bufs: "active_buf s = unat s div 2 mod 2" "next_buf s = 1 - unat s div 2 mod 2"
  by (simp_all only: active_buf_def next_buf_def slot_index_unat slot_index_next)

lemma next_buf_N:
  assumes "unat s = 2 * (N - 1)" "1 \<le> N"
  shows "next_buf s = N mod 2"
proof -
  obtain M where M: "N = Suc M" using assms(2) by (cases N) auto
  have "next_buf s = 1 - M mod 2" by (simp only: bufs assms(1) M) simp
  also have "\<dots> = Suc M mod 2" by presburger
  finally show ?thesis by (simp only: M)
qed

lemma prev_ne: "(N - 1) mod 2 \<noteq> N mod (2 :: nat)" if "1 \<le> N"
proof -
  obtain M where "N = Suc M" using \<open>1 \<le> N\<close> by (cases N) auto
  then show ?thesis by (simp add: mod_Suc)
qed

lemma writer_range: "writer_ok B T q P w \<Longrightarrow> 2 * (length P - 1) \<le> q \<and> q \<le> 2 * (length P - 1) + 1"
  by (cases w) simp_all

text \<open>The buffer a reader copies still holds its payload unless the writer has gone past it.\<close>

lemma read_buf:
  assumes "geom_ok B T P" "writer_ok B T q P w" "even (unat s1)" "unat s1 div 2 < length P" "q \<le> unat s1 + 2"
  shows "(B ! active_buf s1, T ! active_buf s1) = P ! (unat s1 div 2)"
proof -
  let ?N = "length P" and ?k = "unat s1 div 2"
  have k: "unat s1 = 2 * ?k" using assms(3) by simp
  have cur: "(B ! ((?N - 1) mod 2), T ! ((?N - 1) mod 2)) = P ! (?N - 1)"
    using assms(1) by (simp add: geom_ok_def)
  show ?thesis
  proof (cases "?k = ?N - 1")
    case True
    then show ?thesis using cur by (simp only: bufs True)
  next
    case False
    then have N: "?k \<le> ?N - 2" "2 \<le> ?N" using assms(4) by linarith+
    note q = writer_range [OF assms(2)]
    then have k2: "?k = ?N - 2" and idle: "q = 2 * (?N - 1)"
      using N k assms(5) by linarith+
    have "w = W_Idle" using assms(2) idle by (cases w) simp_all
    then have "(B ! (?N mod 2), T ! (?N mod 2)) = P ! (?N - 2)" using assms(2) N by simp
    moreover have "(?N - 2) mod 2 = ?N mod 2" using N(2) by (metis le_mod_geq)
    ultimately show ?thesis by (simp only: bufs k2)
  qed
qed


text \<open>Writer steps touch only the spare buffer until the payload is published.\<close>

lemma length_update_nth: "length b = length (B ! k) \<Longrightarrow> length (B[k := b] ! j) = length (B ! j)"
  by (cases "k < length B"; cases "j = k") (simp_all add: list_update_beyond not_less)

lemma geom_ok_spare:
  assumes "geom_ok B T P" "length b = length (B ! (length P mod 2))"
  shows "geom_ok (B[length P mod 2 := b]) T P" "geom_ok B (T[length P mod 2 := t]) P"
proof -
  have "1 \<le> length P" using assms(1) by (cases P) (simp_all add: geom_ok_def)
  note ne = prev_ne [OF this]
  have lt: "length P mod 2 < 2" by simp
  have l2: "length (B[length P mod 2 := b] ! 1) = length (B[length P mod 2 := b] ! 0)"
    using assms lt by (cases "length P mod 2 = 0") (auto simp: geom_ok_def nth_list_update mod_2_eq_odd split: if_splits)
  show "geom_ok (B[length P mod 2 := b]) T P"
    using assms(1) ne l2 by (simp add: geom_ok_def)
  show "geom_ok B (T[length P mod 2 := t]) P"
    using assms(1) ne by (simp add: geom_ok_def)
qed

lemma geom_len: "geom_ok B T P \<Longrightarrow> length (B ! (n mod 2)) = length (B ! 0)"
  by (cases "n mod 2 = 0") (simp_all add: geom_ok_def mod_2_eq_odd)

lemma reader_ok_later: "reader_ok q P r \<Longrightarrow> q \<le> q' \<Longrightarrow> reader_ok q' P r"
  by (cases r) auto

lemma reader_ok_snoc: "reader_ok q P r \<Longrightarrow> reader_ok q (P @ [p]) r"
  by (cases r) (auto simp: nth_append)

lemma got_ok_snoc: "got_ok P G \<Longrightarrow> got_ok (P @ [p]) G"
  by (auto simp: got_ok_def nth_append)

lemma slot_invD:
  assumes "slot_inv c"
  shows "geom_ok (ps_buffers (sl_slot c)) (ps_publish_ticks (sl_slot c)) (sl_pub c)"
    "writer_ok (ps_buffers (sl_slot c)) (ps_publish_ticks (sl_slot c)) (unat (ps_seq (sl_slot c))) (sl_pub c) (sl_w c)"
    "reader_ok (unat (ps_seq (sl_slot c))) (sl_pub c) (sl_r c)" "got_ok (sl_pub c) (sl_got c)"
  using assms unfolding slot_inv_def by blast+

lemma slot_inv_set_reader:
  "slot_inv c \<Longrightarrow> reader_ok (unat (ps_seq (sl_slot c))) (sl_pub c) x \<Longrightarrow> slot_inv (c\<lparr>sl_r := x\<rparr>)"
  by (simp add: slot_inv_def)

lemma slot_inv_step:
  assumes "slot_step c d" "slot_inv c" "length (sl_pub d) < 2 ^ 62"
  shows "slot_inv d"
  using assms
proof (induction rule: slot_step.induct)
  case (w_begin c v tk)
  then have q: "unat (ps_seq (sl_slot c)) = 2 * (length (sl_pub c) - 1)" by (simp add: slot_inv_def)
  have r: "reader_ok (unat (ps_seq (sl_slot c))) (sl_pub c) (sl_r c)"
    using w_begin.prems(1) unfolding slot_inv_def by blast
  have s: "unat (ps_seq (sl_slot c) + 1) = unat (ps_seq (sl_slot c)) + 1"
    using q w_begin.prems(2) by (subst unat_add_fit) simp_all
  have "reader_ok (unat (ps_seq (sl_slot c)) + 1) (sl_pub c) (sl_r c)"
    by (rule reader_ok_later [OF r]) simp
  then show ?case
    using w_begin.hyps w_begin.prems(1) by (simp add: slot_inv_def s)
next
  case (w_field c s v tk i)
  let ?B = "ps_buffers (sl_slot c)" and ?T = "ps_publish_ticks (sl_slot c)" and ?P = "sl_pub c"
  have g: "geom_ok ?B ?T ?P" and w: "writer_ok ?B ?T (unat (ps_seq (sl_slot c))) ?P (W_Copy s v tk i)"
    using slot_invD [OF w_field.prems(1)] w_field.hyps(1) by (simp_all only:)
  have N: "1 \<le> length ?P" using g by (cases ?P) (simp_all add: geom_ok_def)
  have nb: "next_buf s = length ?P mod 2" using w N by (intro next_buf_N) simp_all
  have lb: "length (?B ! (length ?P mod 2)) = length v" using geom_len [OF g] w by simp
  have lt: "length ?P mod 2 < length ?B" using g by (simp add: geom_ok_def)
  have g': "geom_ok (?B[length ?P mod 2 := (?B ! (length ?P mod 2))[i := v ! i]]) ?T ?P"
    by (rule geom_ok_spare [OF g]) simp
  have "take (i + 1) ((?B ! (length ?P mod 2))[i := v ! i]) = take (i + 1) v"
    using w w_field.hyps(2) lb by (simp add: take_Suc_conv_app_nth)
  then have "writer_ok (?B[length ?P mod 2 := (?B ! (length ?P mod 2))[i := v ! i]]) ?T
      (unat (ps_seq (sl_slot c))) ?P (W_Copy s v tk (i + 1))"
    using w w_field.hyps(2) lt by (simp add: length_update_nth)
  then show ?case
    using w_field.prems(1) g' by (simp add: slot_inv_def nb)
next
  case (w_tick c s v tk)
  let ?B = "ps_buffers (sl_slot c)" and ?T = "ps_publish_ticks (sl_slot c)" and ?P = "sl_pub c"
  have g: "geom_ok ?B ?T ?P" and w: "writer_ok ?B ?T (unat (ps_seq (sl_slot c))) ?P (W_Copy s v tk (length v))"
    using slot_invD [OF w_tick.prems(1)] w_tick.hyps(1) by (simp_all only:)
  have N: "1 \<le> length ?P" using g by (cases ?P) (simp_all add: geom_ok_def)
  have nb: "next_buf s = length ?P mod 2" using w N by (intro next_buf_N) simp_all
  have lb: "length (?B ! (length ?P mod 2)) = length v" using geom_len [OF g] w by simp
  have lt: "length ?P mod 2 < length ?T" using g by (simp add: geom_ok_def)
  have g': "geom_ok ?B (?T[length ?P mod 2 := tk]) ?P" by (rule geom_ok_spare(2) [OF g refl])
  have "?B ! (length ?P mod 2) = v" using w lb by simp
  then have "writer_ok ?B (?T[length ?P mod 2 := tk]) (unat (ps_seq (sl_slot c))) ?P (W_Seal s v tk)"
    using w lt by simp
  then show ?case
    using w_tick.prems(1) g' by (simp add: slot_inv_def nb)
next
  case (w_publish c s v tk)
  let ?B = "ps_buffers (sl_slot c)" and ?T = "ps_publish_ticks (sl_slot c)" and ?P = "sl_pub c"
  have g: "geom_ok ?B ?T ?P" and w: "writer_ok ?B ?T (unat (ps_seq (sl_slot c))) ?P (W_Seal s v tk)"
    and r: "reader_ok (unat (ps_seq (sl_slot c))) ?P (sl_r c)" and gg: "got_ok ?P (sl_got c)"
    using slot_invD [OF w_publish.prems(1)] w_publish.hyps(1) by (simp_all only:)
  have N: "1 \<le> length ?P" using g by (cases ?P) (simp_all add: geom_ok_def)
  have s2: "unat (s + 2) = 2 * length ?P"
    using w N w_publish.prems(2) by (subst unat_add_fit) simp_all
  have g': "geom_ok ?B ?T (?P @ [(v, tk)])" using g w by (simp add: geom_ok_def)
  have "(length ?P + 1) mod 2 = (length ?P - 1) mod 2" using N by (cases ?P) simp_all
  then have "writer_ok ?B ?T (unat (s + 2)) (?P @ [(v, tk)]) W_Idle"
    using s2 N g by (simp add: geom_ok_def nth_append)
  moreover have "reader_ok (unat (s + 2)) (?P @ [(v, tk)]) (sl_r c)"
    using reader_ok_snoc [OF reader_ok_later [OF r]] w s2 N by simp
  ultimately show ?case
    using g' got_ok_snoc [OF gg] by (simp add: slot_inv_def)
next
  case (r_begin c)
  let ?q = "unat (ps_seq (sl_slot c))"
  have g: "geom_ok (ps_buffers (sl_slot c)) (ps_publish_ticks (sl_slot c)) (sl_pub c)"
    and w: "writer_ok (ps_buffers (sl_slot c)) (ps_publish_ticks (sl_slot c)) ?q (sl_pub c) (sl_w c)"
    using slot_invD [OF r_begin.prems(1)] r_begin.hyps(1) by (simp_all only:)
  have "?q div 2 < length (sl_pub c)"
  proof (rule less_mult_imp_div_less)
    have "1 \<le> length (sl_pub c)" using g by (cases "sl_pub c") (simp_all add: geom_ok_def)
    then show "?q < length (sl_pub c) * 2" using writer_range [OF w] by linarith
  qed
  then show ?case
    using r_begin.prems(1) by (simp add: slot_inv_def and_one_flag even_unat_64)
next
  case (r_field c s1 acc)
  let ?B = "ps_buffers (sl_slot c)" and ?T = "ps_publish_ticks (sl_slot c)" and ?P = "sl_pub c"
  let ?q = "unat (ps_seq (sl_slot c))"
  have g: "geom_ok ?B ?T ?P" and w: "writer_ok ?B ?T ?q ?P (sl_w c)" and r: "reader_ok ?q ?P (R_Copy s1 acc)"
    using slot_invD [OF r_field.prems(1)] r_field.hyps(1) by (simp_all only:)
  have "acc @ [?B ! active_buf s1 ! length acc] = take (length acc + 1) (fst (?P ! (unat s1 div 2)))"
    if "?q \<le> unat s1 + 2"
  proof -
    have "?B ! active_buf s1 = fst (?P ! (unat s1 div 2))"
      using read_buf [OF g w _ _ that] r by (metis fst_conv reader_ok.simps(2))
    then show ?thesis
      using r that r_field.hyps(2) by (simp add: take_Suc_conv_app_nth)
  qed
  then have "reader_ok ?q ?P (R_Copy s1 (acc @ [?B ! active_buf s1 ! length acc]))"
    using r unfolding reader_ok.simps length_append_singleton Suc_eq_plus1 by blast
  then show ?case by (rule slot_inv_set_reader [OF r_field.prems(1)])
next
  case (r_tick c s1 acc)
  let ?B = "ps_buffers (sl_slot c)" and ?T = "ps_publish_ticks (sl_slot c)" and ?P = "sl_pub c"
  let ?q = "unat (ps_seq (sl_slot c))"
  have g: "geom_ok ?B ?T ?P" and w: "writer_ok ?B ?T ?q ?P (sl_w c)" and r: "reader_ok ?q ?P (R_Copy s1 acc)"
    using slot_invD [OF r_tick.prems(1)] r_tick.hyps(1) by (simp_all only:)
  have "(acc, ?T ! active_buf s1) = ?P ! (unat s1 div 2)" if "?q \<le> unat s1 + 2"
  proof -
    have b: "(?B ! active_buf s1, ?T ! active_buf s1) = ?P ! (unat s1 div 2)"
      using read_buf [OF g w _ _ that] r by simp
    moreover have "acc = ?B ! active_buf s1"
      using r that r_tick.hyps(2) by (metis b fst_conv reader_ok.simps(2) take_all_iff order_refl)
    ultimately show ?thesis by simp
  qed
  then have "reader_ok ?q ?P (R_Check s1 acc (?T ! active_buf s1))" using r by simp
  then show ?case by (rule slot_inv_set_reader [OF r_tick.prems(1)])
next
  case (r_return c s1 acc tk)
  then have "reader_ok (unat s1) (sl_pub c) (R_Check s1 acc tk)" "got_ok (sl_pub c) (sl_got c)"
    using slot_invD [OF r_return.prems(1)] by (simp_all only:)
  then have "got_ok (sl_pub c) (sl_got c @ [(unat s1 div 2, acc, tk)])" by (simp add: got_ok_def)
  then show ?case using r_return.prems(1) by (simp add: slot_inv_def)
next
  case (r_retry c s1 acc tk)
  then show ?case by (simp add: slot_inv_def)
qed

lemma pub_mono: "slot_step c d \<Longrightarrow> length (sl_pub c) \<le> length (sl_pub d)"
  by (induction rule: slot_step.induct) simp_all

lemma slot_inv_reach:
  assumes "slot_reach c d" "slot_inv c" "length (sl_pub d) < 2 ^ 62"
  shows "slot_inv d"
  using assms
proof (induction rule: slot_reach.induct)
  case (slot_refl c)
  then show ?case by simp
next
  case (slot_trans c d e)
  have "length (sl_pub d) < 2 ^ 62" using pub_mono [OF slot_trans.hyps(2)] slot_trans.prems by simp
  then show ?case using slot_trans by (intro slot_inv_step [of d e]) simp_all
qed

text \<open>C36: no torn read: in every interleaving of the writer's and the reader's accesses, each
  value a read returns is one of the published payloads together with its own publish tick,
  never a mixture of two (over fewer than \<open>2 ^ 62\<close> publications).\<close>

theorem slot_no_torn_read:
  assumes "slot_reach (slot_start slot v) c" "length (sl_pub c) < 2 ^ 62"
  shows "\<forall>(k, payload, tick) \<in> set (sl_got c). k < length (sl_pub c) \<and> (payload, tick) = sl_pub c ! k"
  using slot_inv_reach [OF assms(1) slot_inv_start assms(2)]
  by (auto simp: slot_inv_def got_ok_def)


definition demo_slot :: "nat list pslot" where
  "demo_slot = \<lparr>ps_buffers = [], ps_seq = 3, ps_publish_ticks = []\<rparr>"

lemma demo_slot_reach:
  "slot_reach (slot_start demo_slot [7]) (slot_start demo_slot [7]\<lparr>sl_got := [(0, [7], 0)]\<rparr>)"
proof -
  let ?c = "slot_start demo_slot [7]"
  have "slot_step ?c (?c\<lparr>sl_r := R_Copy 0 []\<rparr>)"
    using r_begin [of ?c] by (simp add: slot_start_def ParameterSlot_Init_def)
  then have "slot_reach ?c (?c\<lparr>sl_r := R_Copy 0 []\<rparr>)" by (blast intro: slot_reach.intros)
  moreover have "slot_step (?c\<lparr>sl_r := R_Copy 0 []\<rparr>) (?c\<lparr>sl_r := R_Copy 0 [7]\<rparr>)"
    using r_field [of "?c\<lparr>sl_r := R_Copy 0 []\<rparr>" 0 "[]"] by (simp add: slot_start_def ParameterSlot_Init_def active_buf_def slot_index_def)
  moreover have "slot_step (?c\<lparr>sl_r := R_Copy 0 [7]\<rparr>) (?c\<lparr>sl_r := R_Check 0 [7] 0\<rparr>)"
    using r_tick [of "?c\<lparr>sl_r := R_Copy 0 [7]\<rparr>" 0 "[7]"] by (simp add: slot_start_def ParameterSlot_Init_def active_buf_def slot_index_def)
  moreover have "slot_step (?c\<lparr>sl_r := R_Check 0 [7] 0\<rparr>) (?c\<lparr>sl_got := [(0, [7], 0)]\<rparr>)"
    using r_return [of "?c\<lparr>sl_r := R_Check 0 [7] 0\<rparr>" 0 "[7]" 0] by (simp add: slot_start_def ParameterSlot_Init_def)
  ultimately show ?thesis by (blast intro: slot_reach.intros)
qed

lemma slot_no_torn_read_witness: "([7 :: nat], 0) = sl_pub (slot_start demo_slot [7]) ! 0"
  using slot_no_torn_read [OF demo_slot_reach] by (simp add: slot_start_def)

end
