(* ===== verification/Execution_Core.thy ===== *)
theory Execution_Core
  imports Gate_Params Spsc_Ring Param_Slot
begin

text \<open>
  The per-core trading state machine and its tick kernel
  (\<^verbatim>\<open>src/CoreFrameworks/ExecutionCore.hpp\<close>).  A core owns the parameter slot the controller
  writes, the event ring the controller drains, the cached parameter pack and the two leg
  flags.  \<^verbatim>\<open>ExecutionCore_Tick_Impl\<close> is modelled in the order of the source: cache refresh,
  buy signal, sell signals, masks, event pushes, flag update, latency sample.
\<close>

subsection \<open>State and controller calls\<close>

record ExecutionCore =
  ec_active :: u8
  ec_active_b :: u8
  ec_live_tp :: Money
  ec_live_sl :: Money
  ec_entry_price :: Money
  ec_entry_price_b :: Money
  ec_live_tp_b :: Money
  ec_live_sl_b :: Money
  ec_permission :: u8
  ec_param_slot :: "GateParameters pslot"
  ec_cached_seq :: u64
  ec_cached_params :: GateParameters
  ec_cached_publish_tick :: u64
  ec_node_id :: u16
  ec_event_ring :: "TradeEvent spsc_ring"
  ec_tick_ring :: u64
  ec_latency_stats :: NodeLatencyStats
  ec_ring_push_failures :: u64

text \<open>\<^verbatim>\<open>GateParameters<F> initial{}\<close> zero-initialises every byte; \<^verbatim>\<open>tick_ring\<close> is a pointer.\<close>

definition gate_zero :: GateParameters where
  "gate_zero =
     \<lparr>gp_bg_price_threshold = Money 0, gp_bg_volume_threshold = Money 0,
      gp_sg_take_profit_price = Money 0, gp_sg_stop_loss_price = Money 0,
      gp_tp_pct = Money 0, gp_sl_pct = Money 0, gp_tp_pct_b = Money 0,
      gp_trade_size = Money 0, gp_ratchet_sl = Money 0, gp_ratchet_tp = Money 0,
      gp_strategy_id = 0, gp_flags = 0, gp_pad = replicate 6 0,
      gp_param_max_age_ticks = 0, gp_tail_pad = replicate 16 0\<rparr>"

definition ExecutionCore_Init :: "ExecutionCore \<Rightarrow> u16 \<Rightarrow> u64 \<Rightarrow> ExecutionCore" where
  "ExecutionCore_Init core node_id tick_ring =
     (let initial = GateParameters_Init gate_zero
      in core\<lparr>ec_permission := 0, ec_active := 0, ec_entry_price := Money_Zero,
              ec_live_tp := Money_Zero, ec_live_sl := Money_Zero, ec_active_b := 0,
              ec_entry_price_b := Money_Zero, ec_live_tp_b := Money_Zero, ec_live_sl_b := Money_Zero,
              ec_node_id := node_id, ec_tick_ring := tick_ring,
              ec_param_slot := ParameterSlot_Init (ec_param_slot core) initial,
              ec_cached_params := initial, ec_cached_seq := - 1, ec_cached_publish_tick := 0,
              ec_event_ring := SPSCRing_Init (ec_event_ring core),
              ec_latency_stats := NodeLatencyStats_Init (ec_latency_stats core),
              ec_ring_push_failures := 0\<rparr>)"

definition ExecutionCore_SetParameters :: "ExecutionCore \<Rightarrow> GateParameters \<Rightarrow> u64 \<Rightarrow> ExecutionCore" where
  "ExecutionCore_SetParameters core new_params publish_tick =
     core\<lparr>ec_param_slot := ParameterSlot_Write (ec_param_slot core) new_params publish_tick\<rparr>"

definition ExecutionCore_SetPermission :: "ExecutionCore \<Rightarrow> u8 \<Rightarrow> ExecutionCore" where
  "ExecutionCore_SetPermission core v = core\<lparr>ec_permission := v\<rparr>"

subsection \<open>The tick kernel\<close>

text \<open>
  The controller runs on another CPU.  What it may do between two accesses of one tick is an
  argument: to the slot before the full read and before the second load of \<^verbatim>\<open>seq\<close>, and to
  the permission byte before its load.  \<open>ti_tsc\<close> holds the two timestamp-counter reads.
\<close>

record tick_env =
  ti_before_read :: "GateParameters pslot \<Rightarrow> GateParameters pslot"
  ti_before_reload :: "GateParameters pslot \<Rightarrow> GateParameters pslot"
  ti_before_perm :: "u8 \<Rightarrow> u8"
  ti_tsc :: "u64 \<times> u64"

definition refresh_cache :: "tick_env \<Rightarrow> ExecutionCore \<Rightarrow> ExecutionCore option" where
  "refresh_cache env core =
     (let s_now = ps_seq (ec_param_slot core)
      in if s_now \<noteq> ec_cached_seq core \<or> s_now AND 1 \<noteq> 0
         then let slot = ti_before_read env (ec_param_slot core)
              in case ParameterSlot_Read slot of
                   None \<Rightarrow> None
                 | Some (params, publish_tick) \<Rightarrow>
                     let slot = ti_before_reload env slot
                     in Some (core\<lparr>ec_param_slot := slot, ec_cached_params := params,
                                   ec_cached_publish_tick := publish_tick,
                                   ec_cached_seq := ps_seq slot AND NOT 1\<rparr>)
         else Some core)"

definition stale_signal :: "ExecutionCore \<Rightarrow> Tick \<Rightarrow> u64" where
  "stale_signal core tick =
     (let stale_enabled = gate_flag (gp_flags (ec_cached_params core)) GATE_FLAG_STALENESS_ENABLED;
          has_stamp = of_bool (ec_cached_publish_tick core \<noteq> 0);
          tick_ge_stamp = of_bool (ec_cached_publish_tick core \<le> tk_sequence tick);
          param_gap = (tk_sequence tick - ec_cached_publish_tick core) AND - tick_ge_stamp;
          over_age = of_bool (gp_param_max_age_ticks (ec_cached_params core) < param_gap)
      in stale_enabled AND has_stamp AND over_age)"

definition bg_signal :: "ExecutionCore \<Rightarrow> Tick \<Rightarrow> u64" where
  "bg_signal core tick =
     (let params = ec_cached_params core;
          price_below = of_bool (Money_Lt (tk_price tick) (gp_bg_price_threshold params));
          price_above = of_bool (Money_Gt (tk_price tick) (gp_bg_price_threshold params));
          buy_above = gate_flag (gp_flags params) GATE_FLAG_BUY_ABOVE;
          price_ok = (price_above AND buy_above) OR (price_below AND NOT buy_above);
          volume_ok = of_bool (Money_Gt (tk_volume tick) (gp_bg_volume_threshold params));
          volume_req = gate_flag (gp_flags params) GATE_FLAG_VOLUME_REQUIRED;
          volume_check = (volume_req AND volume_ok) OR (NOT volume_req AND 1);
          blocked = gate_flag (gp_flags params) GATE_FLAG_BUY_BLOCKED;
          bg_fires = (price_ok AND volume_check) AND NOT (- blocked)
      in bg_fires AND NOT (- stale_signal core tick))"

definition leg_signal :: "GateParameters \<Rightarrow> Tick \<Rightarrow> Money \<Rightarrow> Money \<Rightarrow> u64" where
  "leg_signal params tick tp sl =
     (let tp_enabled = gate_flag (gp_flags params) GATE_FLAG_TP_ENABLED;
          sl_enabled = gate_flag (gp_flags params) GATE_FLAG_SL_ENABLED;
          effective_sl = Money_Max sl (gp_ratchet_sl params);
          effective_tp = Money_Max tp (gp_ratchet_tp params);
          tp_hit = of_bool (Money_Ge (tk_price tick) effective_tp);
          sl_hit = of_bool (Money_Le (tk_price tick) effective_sl)
      in (tp_enabled AND tp_hit) OR (sl_enabled AND sl_hit))"

definition sg_signal_a :: "ExecutionCore \<Rightarrow> Tick \<Rightarrow> u64" where
  "sg_signal_a core tick =
     (let tp = (if ec_active core \<noteq> 0 then ec_live_tp core else gp_sg_take_profit_price (ec_cached_params core));
          sl = (if ec_active core \<noteq> 0 then ec_live_sl core else gp_sg_stop_loss_price (ec_cached_params core))
      in leg_signal (ec_cached_params core) tick tp sl)"

definition sg_signal_b :: "bool \<Rightarrow> ExecutionCore \<Rightarrow> Tick \<Rightarrow> u64" where
  "sg_signal_b PAIR_BRANCHLESS core tick =
     (if PAIR_BRANCHLESS
      then leg_signal (ec_cached_params core) tick (ec_live_tp_b core) (ec_live_sl_b core)
             AND - ucast (ec_active_b core)
      else if ec_active_b core \<noteq> 0
      then leg_signal (ec_cached_params core) tick (ec_live_tp_b core) (ec_live_sl_b core)
      else 0)"

definition push_event :: "u8 \<Rightarrow> u8 \<Rightarrow> Tick \<Rightarrow> ExecutionCore \<Rightarrow> bool \<times> ExecutionCore" where
  "push_event ty leg tick core =
     (let event = \<lparr>te_price = tk_price tick, te_timestamp = tk_timestamp tick,
                   te_node_id = ec_node_id core, te_type = ty, te_leg = leg\<rparr>;
          (ok, ring) = SPSCRing_TryPush (ec_event_ring core) event
      in (ok, core\<lparr>ec_event_ring := ring\<rparr>))"

definition fire_exit :: "u64 \<Rightarrow> u8 \<Rightarrow> Tick \<Rightarrow> ExecutionCore \<Rightarrow> bool \<times> ExecutionCore" where
  "fire_exit can_exit leg tick core =
     (if can_exit \<noteq> 0 then push_event TRADE_EVENT_EXIT leg tick core else (True, core))"

definition set_levels_a :: "Tick \<Rightarrow> ExecutionCore \<Rightarrow> ExecutionCore" where
  "set_levels_a tick core =
     (let params = ec_cached_params core; tp_pct = gp_tp_pct params; sl_pct = gp_sl_pct params
      in core\<lparr>ec_entry_price := tk_price tick,
              ec_live_tp := (if \<not> Money_IsZero tp_pct
                             then Money_Add (tk_price tick) (Money_Mul (tk_price tick) tp_pct)
                             else gp_sg_take_profit_price params),
              ec_live_sl := (if \<not> Money_IsZero sl_pct
                             then Money_Sub (tk_price tick) (Money_Mul (tk_price tick) sl_pct)
                             else gp_sg_stop_loss_price params)\<rparr>)"

definition set_levels_b :: "Tick \<Rightarrow> ExecutionCore \<Rightarrow> ExecutionCore" where
  "set_levels_b tick core =
     (let tp_pct_b = gp_tp_pct_b (ec_cached_params core)
      in core\<lparr>ec_entry_price_b := tk_price tick,
              ec_live_tp_b := (if \<not> Money_IsZero tp_pct_b
                               then Money_Add (tk_price tick) (Money_Mul (tk_price tick) tp_pct_b)
                               else ec_live_tp core),
              ec_live_sl_b := ec_live_sl core\<rparr>)"

text \<open>The results are the two success flags of the entry pushes and the core.\<close>

definition fire_entry :: "u64 \<Rightarrow> u64 \<Rightarrow> Tick \<Rightarrow> ExecutionCore \<Rightarrow> bool \<times> bool \<times> ExecutionCore" where
  "fire_entry can_enter pair_active tick core =
     (if can_enter = 0 then (True, True, core)
      else let (entry_a_pushed, core) = push_event TRADE_EVENT_ENTRY PARTIAL_LEG_A tick core
           in if \<not> entry_a_pushed then (False, True, core)
              else let core = set_levels_a tick core
                   in if pair_active = 0 then (True, True, core)
                      else let (entry_b_pushed, core) = push_event TRADE_EVENT_ENTRY PARTIAL_LEG_B tick core
                           in (True, entry_b_pushed, if entry_b_pushed then set_levels_b tick core else core))"

definition fire_events ::
    "u64 \<Rightarrow> u64 \<Rightarrow> u64 \<Rightarrow> u64 \<Rightarrow> Tick \<Rightarrow> ExecutionCore \<Rightarrow> (bool \<times> bool \<times> bool \<times> bool) \<times> ExecutionCore" where
  "fire_events can_enter can_exit_a can_exit_b pair_active tick core =
     (if can_enter OR can_exit_a OR can_exit_b = 0 then ((True, True, True, True), core)
      else let (exit_a_pushed, core) = fire_exit can_exit_a PARTIAL_LEG_A tick core;
               (exit_b_pushed, core) = fire_exit can_exit_b PARTIAL_LEG_B tick core;
               (entry_a_pushed, entry_b_pushed, core) = fire_entry can_enter pair_active tick core
           in ((exit_a_pushed, exit_b_pushed, entry_a_pushed, entry_b_pushed),
               if \<not> (exit_a_pushed \<and> exit_b_pushed \<and> entry_a_pushed \<and> entry_b_pushed)
               then core\<lparr>ec_ring_push_failures := ec_ring_push_failures core + 1\<rparr> else core))"

definition update_flags ::
    "u64 \<Rightarrow> u64 \<Rightarrow> u64 \<Rightarrow> u64 \<Rightarrow> u8 \<Rightarrow> u8 \<Rightarrow> bool \<times> bool \<times> bool \<times> bool \<Rightarrow> ExecutionCore \<Rightarrow> ExecutionCore" where
  "update_flags can_enter can_exit_a can_exit_b pair_active active active_b pushed core =
     (let (exit_a_pushed, exit_b_pushed, entry_a_pushed, entry_b_pushed) = pushed;
          exit_a_eff = can_exit_a AND of_bool exit_a_pushed;
          exit_b_eff = can_exit_b AND of_bool exit_b_pushed;
          enter_a_eff = can_enter AND of_bool entry_a_pushed;
          enter_b_eff = enter_a_eff AND of_bool entry_b_pushed AND pair_active
      in core\<lparr>ec_active := ucast ((ucast active OR enter_a_eff) AND NOT exit_a_eff),
              ec_active_b := ucast ((ucast active_b OR enter_b_eff) AND NOT exit_b_eff)\<rparr>)"

definition tick_body :: "bool \<Rightarrow> tick_env \<Rightarrow> Tick \<Rightarrow> ExecutionCore \<Rightarrow> ExecutionCore" where
  "tick_body PAIR_BRANCHLESS env tick core =
     (let active = ec_active core; active_b = ec_active_b core;
          bg_fires = bg_signal core tick;
          sg_fires_a = sg_signal_a core tick;
          sg_fires_b = sg_signal_b PAIR_BRANCHLESS core tick;
          core = core\<lparr>ec_permission := ti_before_perm env (ec_permission core)\<rparr>;
          perm = ec_permission core;
          any_active = ucast ((active OR active_b) AND 1) :: u64;
          can_enter = (NOT any_active AND ucast perm AND bg_fires) AND 1;
          can_exit_a = (ucast active AND sg_fires_a) AND 1;
          can_exit_b = (ucast active_b AND sg_fires_b) AND 1;
          pair_active = gate_flag (gp_flags (ec_cached_params core)) GATE_FLAG_PAIR_ACTIVE;
          (pushed, core) = fire_events can_enter can_exit_a can_exit_b pair_active tick core
      in update_flags can_enter can_exit_a can_exit_b pair_active active active_b pushed core)"

definition ExecutionCore_Tick_Impl ::
    "bool \<Rightarrow> bool \<Rightarrow> tick_env \<Rightarrow> Tick \<Rightarrow> ExecutionCore \<Rightarrow> ExecutionCore option" where
  "ExecutionCore_Tick_Impl LAT_ENABLED PAIR_BRANCHLESS env tick core =
     (let lat_enabled = (if LAT_ENABLED then nl_enabled (ec_latency_stats core) else 0);
          (lat_t0, lat_t1) = ti_tsc env
      in case refresh_cache env core of
           None \<Rightarrow> None
         | Some core \<Rightarrow>
             let core = tick_body PAIR_BRANCHLESS env tick core
             in Some (if LAT_ENABLED \<and> lat_enabled \<noteq> 0
                      then core\<lparr>ec_latency_stats := NodeLatencyStats_Sample (lat_t1 - lat_t0) lat_t1 (ec_latency_stats core)\<rparr>
                      else core))"

definition ExecutionCore_Tick :: "bool \<Rightarrow> tick_env \<Rightarrow> Tick \<Rightarrow> ExecutionCore \<Rightarrow> ExecutionCore option" where
  "ExecutionCore_Tick LATENCY_PROFILING env tick core =
     (let flags = gp_flags (ec_cached_params core);
          pair_branchless = (flags AND GATE_FLAG_PAIR_ACTIVE \<noteq> 0)
      in if LATENCY_PROFILING
         then if pair_branchless then ExecutionCore_Tick_Impl True True env tick core
              else ExecutionCore_Tick_Impl True False env tick core
         else if pair_branchless then ExecutionCore_Tick_Impl False True env tick core
              else ExecutionCore_Tick_Impl False False env tick core)"

subsection \<open>The tick read as conditions\<close>

definition leg_flag_ok :: "u8 \<Rightarrow> bool" where
  "leg_flag_ok w \<longleftrightarrow> w = 0 \<or> w = 1"

definition core_ok :: "ExecutionCore \<Rightarrow> bool" where
  "core_ok core \<longleftrightarrow> leg_flag_ok (ec_active core) \<and> leg_flag_ok (ec_active_b core) \<and> ring_ok (ec_event_ring core)"

definition stale :: "ExecutionCore \<Rightarrow> Tick \<Rightarrow> bool" where
  "stale core tick \<longleftrightarrow>
     flag_on (gp_flags (ec_cached_params core)) GATE_FLAG_STALENESS_ENABLED \<and> ec_cached_publish_tick core \<noteq> 0 \<and>
     unat (ec_cached_publish_tick core) + unat (gp_param_max_age_ticks (ec_cached_params core)) < unat (tk_sequence tick)"

lemma stale_signal_iff: "stale_signal core tick = of_bool (stale core tick)"
proof -
  let ?p = "ec_cached_publish_tick core" and ?t = "tk_sequence tick"
    and ?m = "gp_param_max_age_ticks (ec_cached_params core)"
  have "(?m < (?t - ?p) AND - of_bool (?p \<le> ?t)) \<longleftrightarrow> unat ?p + unat ?m < unat ?t"
  proof (cases "?p \<le> ?t")
    case True
    then have le: "unat ?p \<le> unat ?t" by (simp add: word_le_nat_alt)
    show ?thesis using True unat_diff_fit [OF le] le by (auto simp: word_less_nat_alt)
  next
    case False
    then show ?thesis by (simp add: word_le_nat_alt)
  qed
  then show ?thesis
    unfolding stale_signal_def Let_def gate_flag_bool and_of_bool_word stale_def by simp
qed

lemma bg_signal_iff:
  "bg_signal core tick = of_bool (buy_gate tick (ec_cached_params core) \<and> \<not> stale core tick)"
  unfolding bg_signal_def Let_def gate_flag_bool stale_signal_iff mask_logic
  by (simp add: buy_gate_def buy_price_ok_def conj_ac)

lemma leg_signal_iff: "leg_signal params tick tp sl = of_bool (sell_gate (tk_price tick) tp sl params)"
  unfolding leg_signal_def Let_def gate_flag_bool mask_logic
  by (simp add: sell_gate_def conj_ac)

lemma sg_signal_b_iff:
  assumes "leg_flag_ok (ec_active_b core)"
  shows "sg_signal_b pb core tick =
    of_bool (ec_active_b core = 1 \<and> sell_gate (tk_price tick) (ec_live_tp_b core) (ec_live_sl_b core) (ec_cached_params core))"
  using assms by (auto simp: sg_signal_b_def leg_signal_iff leg_flag_ok_def)

lemma ucast_and_one: "ucast (w :: u8) AND 1 = (of_bool (odd w) :: u64)"
  by (rule bit_word_eqI) (auto simp: bit_simps even_word_iff bit_0)

lemma one_bit_masks:
  assumes "leg_flag_ok a" "leg_flag_ok b"
  shows "(ucast a AND of_bool p) AND 1 = (of_bool (a = 1 \<and> p) :: u64)"
    and "(NOT (ucast ((a OR b) AND 1)) AND (ucast perm AND of_bool p)) AND 1 =
         (of_bool (a = 0 \<and> b = 0 \<and> odd (perm :: u8) \<and> p) :: u64)"
  using assms
  using ucast_and_one [of perm]
  by (auto simp: leg_flag_ok_def and.assoc and.left_commute [of _ "ucast perm"])

subsection \<open>Offering events to the ring\<close>

definition core_event :: "ExecutionCore \<Rightarrow> Tick \<Rightarrow> u8 \<Rightarrow> u8 \<Rightarrow> TradeEvent" where
  "core_event core tick ty leg =
     \<lparr>te_price = tk_price tick, te_timestamp = tk_timestamp tick, te_node_id = ec_node_id core,
      te_type = ty, te_leg = leg\<rparr>"

text \<open>A ring that was offered \<open>evs\<close> keeps a prefix of them: what does not fit is dropped.\<close>

definition offered :: "TradeEvent spsc_ring \<Rightarrow> TradeEvent list \<Rightarrow> TradeEvent spsc_ring \<Rightarrow> bool" where
  "offered r evs r' \<longleftrightarrow>
     ring_ok r' \<and> ring_N r' = ring_N r \<and> ring_room r \<le> ring_room r' + length evs \<and>
     ring_items r' = take (ring_N r) (ring_items r @ evs)"

definition ring_free :: "TradeEvent spsc_ring \<Rightarrow> nat" where
  "ring_free r = ring_N r - length (ring_items r)"

lemma offered_nil: "ring_ok r \<Longrightarrow> offered r [] r"
  using ring.cap_law [of r] by (simp add: offered_def)

lemma take_refill: "take n (take n xs @ ys) = take n (xs @ ys)"
  by (cases "n \<le> length xs") simp_all

lemma offered_trans:
  assumes "offered r xs r1" "offered r1 ys r2"
  shows "offered r (xs @ ys) r2"
proof -
  have "ring_items r2 = take (ring_N r) (take (ring_N r) (ring_items r @ xs) @ ys)"
    using assms by (simp only: offered_def)
  then show ?thesis
    using assms by (simp add: take_refill offered_def del: take_append)
qed

lemma offered_free: "offered r xs r1 \<Longrightarrow> ring_free r1 = ring_free r - length xs"
  by (auto simp: offered_def ring_free_def)

lemma offered_room: "offered r xs r1 \<Longrightarrow> length xs + n \<le> ring_room r \<Longrightarrow> n \<le> ring_room r1"
  by (simp add: offered_def)

lemma offered_ok: "offered r xs r1 \<Longrightarrow> ring_ok r1"
  by (simp add: offered_def)

lemma push_event_offer:
  assumes "ring_ok (ec_event_ring core)" "1 \<le> ring_room (ec_event_ring core)"
  obtains r where "offered (ec_event_ring core) [core_event core tick ty leg] r"
    "push_event ty leg tick core = (0 < ring_free (ec_event_ring core), core\<lparr>ec_event_ring := r\<rparr>)"
proof -
  let ?r = "ec_event_ring core" and ?e = "core_event core tick ty leg"
  obtain b r' where p: "SPSCRing_TryPush ?r ?e = (b, r')" by (cases "SPSCRing_TryPush ?r ?e")
  have "0 < ring_room ?r" using assms(2) by simp
  note l = ring.push_law [OF assms(1) this p] ring.cap_law [OF assms(1)]
  have "offered ?r [?e] r'" using l by (auto simp: offered_def)
  moreover have "push_event ty leg tick core = (0 < ring_free ?r, core\<lparr>ec_event_ring := r'\<rparr>)"
    using p l by (simp add: push_event_def core_event_def ring_free_def)
  ultimately show thesis by (rule that)
qed

lemma fire_exit_offer:
  assumes "ring_ok (ec_event_ring core)" "1 \<le> ring_room (ec_event_ring core)"
  obtains r where "offered (ec_event_ring core) (if x then [core_event core tick TRADE_EVENT_EXIT leg] else []) r"
    "fire_exit (of_bool x) leg tick core = (x \<longrightarrow> 0 < ring_free (ec_event_ring core), core\<lparr>ec_event_ring := r\<rparr>)"
proof (cases x)
  case True
  obtain r where "offered (ec_event_ring core) [core_event core tick TRADE_EVENT_EXIT leg] r"
    "push_event TRADE_EVENT_EXIT leg tick core = (0 < ring_free (ec_event_ring core), core\<lparr>ec_event_ring := r\<rparr>)"
    by (rule push_event_offer [OF assms, of tick TRADE_EVENT_EXIT leg])
  then show thesis using True that by (simp add: fire_exit_def)
next
  case False
  then show thesis using that [of "ec_event_ring core"] offered_nil [OF assms(1)] by (simp add: fire_exit_def)
qed

definition wanted :: "ExecutionCore \<Rightarrow> Tick \<Rightarrow> bool \<Rightarrow> bool \<Rightarrow> bool \<Rightarrow> bool \<Rightarrow> TradeEvent list" where
  "wanted core tick en xa xb pair =
     (if en then core_event core tick TRADE_EVENT_ENTRY PARTIAL_LEG_A #
                 (if pair then [core_event core tick TRADE_EVENT_ENTRY PARTIAL_LEG_B] else [])
      else (if xa then [core_event core tick TRADE_EVENT_EXIT PARTIAL_LEG_A] else []) @
           (if xb then [core_event core tick TRADE_EVENT_EXIT PARTIAL_LEG_B] else []))"

text \<open>The levels an entry stores, for the legs whose event was queued.\<close>

definition entry_levels :: "Tick \<Rightarrow> bool \<Rightarrow> bool \<Rightarrow> ExecutionCore \<Rightarrow> ExecutionCore" where
  "entry_levels tick a b core =
     (let core = (if a then set_levels_a tick core else core) in if b then set_levels_b tick core else core)"

lemma levels_ring [simp]:
  "set_levels_a tick (core\<lparr>ec_event_ring := r\<rparr>) = (set_levels_a tick core)\<lparr>ec_event_ring := r\<rparr>"
  "set_levels_b tick (core\<lparr>ec_event_ring := r\<rparr>) = (set_levels_b tick core)\<lparr>ec_event_ring := r\<rparr>"
  "ec_event_ring (set_levels_a tick core) = ec_event_ring core"
  "ec_event_ring (set_levels_b tick core) = ec_event_ring core"
  "core_event (set_levels_a tick core) tick' ty leg = core_event core tick' ty leg"
  by (simp_all add: set_levels_a_def set_levels_b_def core_event_def Let_def)

lemma event_ring [simp]: "core_event (core\<lparr>ec_event_ring := r\<rparr>) tick ty leg = core_event core tick ty leg"
  by (simp add: core_event_def)

lemma fire_entry_offer:
  assumes ok: "ring_ok (ec_event_ring core)" "2 \<le> ring_room (ec_event_ring core)"
  defines "f \<equiv> ring_free (ec_event_ring core)"
  obtains r where "offered (ec_event_ring core) (wanted core tick True xa xb pair) r"
    "fire_entry 1 (of_bool pair) tick core =
       (0 < f, 0 < f \<longrightarrow> pair \<longrightarrow> 1 < f, (entry_levels tick (0 < f) (pair \<and> 1 < f) core)\<lparr>ec_event_ring := r\<rparr>)"
proof -
  have one: "1 \<le> ring_room (ec_event_ring core)" using ok(2) by simp
  let ?A = "core_event core tick TRADE_EVENT_ENTRY PARTIAL_LEG_A"
    and ?B = "core_event core tick TRADE_EVENT_ENTRY PARTIAL_LEG_B"
  obtain r1 where 1: "offered (ec_event_ring core) [?A] r1"
    "push_event TRADE_EVENT_ENTRY PARTIAL_LEG_A tick core = (0 < f, core\<lparr>ec_event_ring := r1\<rparr>)"
    unfolding f_def by (rule push_event_offer [OF ok(1) one, of tick TRADE_EVENT_ENTRY PARTIAL_LEG_A])
  consider (full) "f = 0" | (single) "0 < f" "\<not> pair" | (both) "0 < f" pair by auto
  then show thesis
  proof cases
    case full
    then have "offered (ec_event_ring core) (wanted core tick True xa xb pair) r1"
      using 1(1) ok by (auto simp: offered_def f_def ring_free_def wanted_def)
    then show thesis
      by (rule that) (use full 1(2) in \<open>simp add: fire_entry_def entry_levels_def\<close>)
  next
    case single
    have "offered (ec_event_ring core) (wanted core tick True xa xb pair) r1"
      using 1(1) single by (simp add: wanted_def)
    then show thesis
      by (rule that) (use single 1(2) in \<open>simp add: fire_entry_def entry_levels_def\<close>)
  next
    case both
    let ?c = "set_levels_a tick core\<lparr>ec_event_ring := r1\<rparr>"
    have "ring_ok (ec_event_ring ?c)" "1 \<le> ring_room (ec_event_ring ?c)"
      using 1(1) ok(2) offered_room [OF 1(1), of 1] by (simp_all add: offered_def)
    then obtain r2 where 2: "offered (ec_event_ring ?c) [core_event ?c tick TRADE_EVENT_ENTRY PARTIAL_LEG_B] r2"
      "push_event TRADE_EVENT_ENTRY PARTIAL_LEG_B tick ?c = (0 < ring_free (ec_event_ring ?c), ?c\<lparr>ec_event_ring := r2\<rparr>)"
      by (rule push_event_offer)
    have f2: "0 < ring_free r1 \<longleftrightarrow> 1 < f" using offered_free [OF 1(1)] by (auto simp: f_def)
    have "offered (ec_event_ring core) (wanted core tick True xa xb pair) r2"
      using offered_trans [OF 1(1), of "[?B]" r2] 2(1) both(2) by (simp add: wanted_def)
    then show thesis
      by (rule that) (use both 1(2) 2(2) f2 in \<open>simp add: fire_entry_def entry_levels_def Let_def\<close>)
  qed
qed

text \<open>Both kinds of push are mutually exclusive, so a tick offers at most two events.\<close>

lemma fire_exits_offer:
  assumes ok: "ring_ok (ec_event_ring core)" "2 \<le> ring_room (ec_event_ring core)" and x: "xa \<or> xb"
  defines "f \<equiv> ring_free (ec_event_ring core)"
  obtains r where "offered (ec_event_ring core) (wanted core tick False xa xb pair) r"
    "fire_events 0 (of_bool xa) (of_bool xb) pr tick core =
       ((xa \<longrightarrow> 0 < f, xb \<longrightarrow> of_bool xa < f, True, True),
        core\<lparr>ec_event_ring := r,
             ec_ring_push_failures := ec_ring_push_failures core + of_bool (f < length (wanted core tick False xa xb pair))\<rparr>)"
proof -
  have one: "1 \<le> ring_room (ec_event_ring core)" using ok(2) by simp
  let ?wa = "if xa then [core_event core tick TRADE_EVENT_EXIT PARTIAL_LEG_A] else []"
  obtain r1 where 1: "offered (ec_event_ring core) ?wa r1"
    "fire_exit (of_bool xa) PARTIAL_LEG_A tick core = (xa \<longrightarrow> 0 < f, core\<lparr>ec_event_ring := r1\<rparr>)"
    unfolding f_def by (rule fire_exit_offer [OF ok(1) one, of xa tick PARTIAL_LEG_A])
  let ?c = "core\<lparr>ec_event_ring := r1\<rparr>"
  have "ring_ok (ec_event_ring ?c)" "1 \<le> ring_room (ec_event_ring ?c)"
    using offered_ok [OF 1(1)] offered_room [OF 1(1), of 1] ok(2) by simp_all
  then obtain r2 where 2:
    "offered (ec_event_ring ?c) (if xb then [core_event ?c tick TRADE_EVENT_EXIT PARTIAL_LEG_B] else []) r2"
    "fire_exit (of_bool xb) PARTIAL_LEG_B tick ?c = (xb \<longrightarrow> 0 < ring_free (ec_event_ring ?c), ?c\<lparr>ec_event_ring := r2\<rparr>)"
    by (rule fire_exit_offer)
  have f2: "ring_free r1 = f - of_bool xa" using offered_free [OF 1(1)] by (simp add: f_def)
  have o: "offered (ec_event_ring core) (wanted core tick False xa xb pair) r2"
    using offered_trans [OF 1(1), of "if xb then [core_event ?c tick TRADE_EVENT_EXIT PARTIAL_LEG_B] else []" r2] 2(1)
    by (cases xa; cases xb) (simp_all add: wanted_def)
  have len: "length (wanted core tick False xa xb pair) = of_bool xa + of_bool xb"
    by (simp add: wanted_def)
  show thesis
    by (rule that [OF o]) (use x in \<open>auto simp: fire_events_def or_of_bool_word 1(2) 2(2) fire_entry_def len f2\<close>)
qed

lemma fire_entry_events:
  assumes ok: "ring_ok (ec_event_ring core)" "2 \<le> ring_room (ec_event_ring core)"
  defines "f \<equiv> ring_free (ec_event_ring core)"
  obtains r where "offered (ec_event_ring core) (wanted core tick True xa xb pair) r"
    "fire_events 1 0 0 (of_bool pair) tick core =
       ((True, True, 0 < f, 0 < f \<longrightarrow> pair \<longrightarrow> 1 < f),
        (entry_levels tick (0 < f) (pair \<and> 1 < f) core)\<lparr>ec_event_ring := r,
          ec_ring_push_failures := ec_ring_push_failures core + of_bool (f < length (wanted core tick True xa xb pair))\<rparr>)"
proof -
  obtain r where r: "offered (ec_event_ring core) (wanted core tick True xa xb pair) r"
    "fire_entry 1 (of_bool pair) tick core =
       (0 < f, 0 < f \<longrightarrow> pair \<longrightarrow> 1 < f, (entry_levels tick (0 < f) (pair \<and> 1 < f) core)\<lparr>ec_event_ring := r\<rparr>)"
    unfolding f_def by (rule fire_entry_offer [OF ok])
  have e: "ec_ring_push_failures (entry_levels tick a b core) = ec_ring_push_failures core" for a b
    by (simp add: entry_levels_def set_levels_a_def set_levels_b_def Let_def)
  show thesis
    by (rule that [OF r(1)]) (auto simp: fire_events_def fire_exit_def r(2) wanted_def e)
qed

subsection \<open>What a tick does\<close>

definition enters :: "ExecutionCore \<Rightarrow> Tick \<Rightarrow> u8 \<Rightarrow> bool" where
  "enters core tick perm \<longleftrightarrow>
     ec_active core = 0 \<and> ec_active_b core = 0 \<and> odd perm \<and>
     buy_gate tick (ec_cached_params core) \<and> \<not> stale core tick"

definition exits_a :: "ExecutionCore \<Rightarrow> Tick \<Rightarrow> bool" where
  "exits_a core tick \<longleftrightarrow>
     ec_active core = 1 \<and> sell_gate (tk_price tick) (ec_live_tp core) (ec_live_sl core) (ec_cached_params core)"

definition exits_b :: "ExecutionCore \<Rightarrow> Tick \<Rightarrow> bool" where
  "exits_b core tick \<longleftrightarrow>
     ec_active_b core = 1 \<and> sell_gate (tk_price tick) (ec_live_tp_b core) (ec_live_sl_b core) (ec_cached_params core)"

definition pair_on :: "ExecutionCore \<Rightarrow> bool" where
  "pair_on core \<longleftrightarrow> flag_on (gp_flags (ec_cached_params core)) GATE_FLAG_PAIR_ACTIVE"

definition tick_wants :: "ExecutionCore \<Rightarrow> Tick \<Rightarrow> u8 \<Rightarrow> TradeEvent list" where
  "tick_wants core tick perm =
     wanted core tick (enters core tick perm) (exits_a core tick) (exits_b core tick) (pair_on core)"

text \<open>The legs as a consumer of the events sees them.\<close>

definition leg_event :: "TradeEvent \<Rightarrow> bool \<times> bool \<Rightarrow> bool \<times> bool" where
  "leg_event e legs =
     (let open_leg = (te_type e = TRADE_EVENT_ENTRY)
      in if te_leg e = PARTIAL_LEG_A then (open_leg, snd legs) else (fst legs, open_leg))"

definition core_legs :: "ExecutionCore \<Rightarrow> bool \<times> bool" where
  "core_legs core = (ec_active core = 1, ec_active_b core = 1)"

definition tick_result :: "ExecutionCore \<Rightarrow> Tick \<Rightarrow> u8 \<Rightarrow> TradeEvent spsc_ring \<Rightarrow> ExecutionCore" where
  "tick_result core tick perm r =
     (let f = ring_free (ec_event_ring core); en = enters core tick perm; wants = tick_wants core tick perm;
          legs = fold leg_event (take f wants) (core_legs core)
      in (entry_levels tick (en \<and> 0 < f) (en \<and> pair_on core \<and> 1 < f) core)
           \<lparr>ec_active := of_bool (fst legs), ec_active_b := of_bool (snd legs),
            ec_permission := perm, ec_event_ring := r,
            ec_ring_push_failures := ec_ring_push_failures core + of_bool (f < length wants)\<rparr>)"

lemma take_few:
  "take f [x] = (if 0 < f then [x] else [])"
  "take f [x, y] = (if 0 < f then if 1 < f then [x, y] else [x] else [])"
  by (simp_all add: take_Cons split: nat.splits)

lemma events_legs:
  "leg_event (core_event core tick TRADE_EVENT_ENTRY PARTIAL_LEG_A) l = (True, snd l)"
  "leg_event (core_event core tick TRADE_EVENT_ENTRY PARTIAL_LEG_B) l = (fst l, True)"
  "leg_event (core_event core tick TRADE_EVENT_EXIT PARTIAL_LEG_A) l = (False, snd l)"
  "leg_event (core_event core tick TRADE_EVENT_EXIT PARTIAL_LEG_B) l = (fst l, False)"
  by (simp_all add: leg_event_def core_event_def event_codes)

lemma levels_frame [simp]:
  "entry_levels tick a b (core\<lparr>ec_permission := p\<rparr>) = (entry_levels tick a b core)\<lparr>ec_permission := p\<rparr>"
  "ec_ring_push_failures (entry_levels tick a b core) = ec_ring_push_failures core"
  by (simp_all add: entry_levels_def set_levels_a_def set_levels_b_def Let_def)

lemma of_bool_eq_word: "(of_bool p = (1 :: 'a::len word)) = p" "(of_bool p = (0 :: 'a::len word)) = (\<not> p)"
  by simp_all

lemma flag_words:
  assumes "leg_flag_ok a"
  shows "ucast ((ucast a OR of_bool p) AND NOT (of_bool q) :: u64) = (of_bool ((a = 1 \<or> p) \<and> \<not> q) :: u8)"
  using assms by (auto simp: leg_flag_ok_def)

lemma tick_body_result:
  fixes env core tick pb
  assumes ok: "core_ok core" and room: "2 \<le> ring_room (ec_event_ring core)"
  defines "perm \<equiv> ti_before_perm env (ec_permission core)"
  obtains r where "offered (ec_event_ring core) (tick_wants core tick perm) r"
    "tick_body pb env tick core = tick_result core tick perm r"
proof -
  let ?en = "enters core tick perm" and ?xa = "exits_a core tick" and ?xb = "exits_b core tick"
    and ?pr = "pair_on core" and ?c = "core\<lparr>ec_permission := perm\<rparr>"
  have fl: "leg_flag_ok (ec_active core)" "leg_flag_ok (ec_active_b core)" "ring_ok (ec_event_ring core)"
    using ok by (simp_all add: core_ok_def)
  have sa: "(ucast (ec_active core) AND sg_signal_a core tick) AND 1 = (of_bool ?xa :: u64)"
    using fl(1) by (auto simp: sg_signal_a_def leg_signal_iff leg_flag_ok_def exits_a_def)
  have sb: "(ucast (ec_active_b core) AND sg_signal_b pb core tick) AND 1 = (of_bool ?xb :: u64)"
    using one_bit_masks(1) [OF fl(2,2), of ?xb]
    by (simp add: sg_signal_b_iff [OF fl(2)] exits_b_def one_bit_masks(1) [OF fl(2,2)])
  have en: "(NOT (ucast ((ec_active core OR ec_active_b core) AND 1)) AND (ucast perm AND bg_signal core tick)) AND 1
      = (of_bool ?en :: u64)"
    by (simp add: bg_signal_iff one_bit_masks(2) [OF fl(1,2)] enters_def)
  have body: "tick_body pb env tick core =
     (let (pushed, core') = fire_events (of_bool ?en) (of_bool ?xa) (of_bool ?xb) (of_bool ?pr) tick ?c
      in update_flags (of_bool ?en) (of_bool ?xa) (of_bool ?xb) (of_bool ?pr) (ec_active core) (ec_active_b core) pushed core')"
    by (simp add: tick_body_def Let_def sa sb en perm_def [symmetric] gate_flag_bool pair_on_def)
  have c: "ec_event_ring ?c = ec_event_ring core" "wanted ?c = wanted core" for tick
    by (simp_all add: wanted_def core_event_def fun_eq_iff)
  consider (enter) ?en "\<not> ?xa" "\<not> ?xb" | (exit) "?xa \<or> ?xb" "\<not> ?en" | (quiet) "\<not> ?en" "\<not> ?xa" "\<not> ?xb"
    by (auto simp: enters_def exits_a_def exits_b_def)
  then show thesis
  proof cases
    case enter
    obtain r where r: "offered (ec_event_ring ?c) (wanted ?c tick True ?xa ?xb ?pr) r"
      "fire_events 1 0 0 (of_bool ?pr) tick ?c = ((True, True, 0 < ring_free (ec_event_ring ?c),
         0 < ring_free (ec_event_ring ?c) \<longrightarrow> ?pr \<longrightarrow> 1 < ring_free (ec_event_ring ?c)),
        (entry_levels tick (0 < ring_free (ec_event_ring ?c)) (?pr \<and> 1 < ring_free (ec_event_ring ?c)) ?c)
         \<lparr>ec_event_ring := r, ec_ring_push_failures := ec_ring_push_failures ?c +
            of_bool (ring_free (ec_event_ring ?c) < length (wanted ?c tick True ?xa ?xb ?pr))\<rparr>)"
      by (rule fire_entry_events [where core = ?c and xa = ?xa and xb = ?xb and pair = ?pr and tick = tick]) (use fl room in simp_all)
    show thesis
    proof (rule that)
      show "offered (ec_event_ring core) (tick_wants core tick perm) r"
        using r(1) enter by (simp add: tick_wants_def c)
      show "tick_body pb env tick core = tick_result core tick perm r"
        using fl enter
        by (auto simp: body r(2) tick_result_def tick_wants_def c wanted_def take_few events_legs
            update_flags_def flag_words [of "ec_active core" True False, simplified] core_legs_def enters_def leg_flag_ok_def)
    qed
  next
    case exit
    obtain r where r: "offered (ec_event_ring ?c) (wanted ?c tick False ?xa ?xb ?pr) r"
      "fire_events 0 (of_bool ?xa) (of_bool ?xb) (of_bool ?pr) tick ?c =
       ((?xa \<longrightarrow> 0 < ring_free (ec_event_ring ?c), ?xb \<longrightarrow> of_bool ?xa < ring_free (ec_event_ring ?c), True, True),
        ?c\<lparr>ec_event_ring := r, ec_ring_push_failures := ec_ring_push_failures ?c +
            of_bool (ring_free (ec_event_ring ?c) < length (wanted ?c tick False ?xa ?xb ?pr))\<rparr>)"
      by (rule fire_exits_offer [where core = ?c and xa = ?xa and xb = ?xb and pair = ?pr and tick = tick
            and pr = "of_bool ?pr"]) (use fl room exit(1) in simp_all)
    have en0: "of_bool ?en = (0 :: u64)" using exit(2) by simp
    note b = body [unfolded en0 r(2) Let_def prod.case]
    have x: "?xa \<Longrightarrow> ec_active core = 1" "?xb \<Longrightarrow> ec_active_b core = 1"
      by (simp_all add: exits_a_def exits_b_def)
    show thesis
    proof (rule that)
      show "offered (ec_event_ring core) (tick_wants core tick perm) r"
        using r(1) exit by (simp add: tick_wants_def c)
      show "tick_body pb env tick core = tick_result core tick perm r"
        unfolding b tick_result_def tick_wants_def wanted_def Let_def
        using fl(1,2) exit x
        by (cases ?xa; cases ?xb) (auto simp: take_few events_legs c wanted_def
            update_flags_def core_legs_def leg_flag_ok_def entry_levels_def)
    qed
  next
    case quiet
    show thesis
    proof (rule that)
      show "offered (ec_event_ring core) (tick_wants core tick perm) (ec_event_ring core)"
        using quiet offered_nil [OF fl(3)] by (simp add: tick_wants_def wanted_def)
      show "tick_body pb env tick core = tick_result core tick perm (ec_event_ring core)"
        using fl quiet
        by (auto simp: body tick_result_def tick_wants_def wanted_def fire_events_def entry_levels_def
            update_flags_def core_legs_def leg_flag_ok_def)
    qed
  qed
qed

end
