(* ===== verification/Execution_Runs.thy ===== *)
theory Execution_Runs
  imports Execution_Core
begin

text \<open>
  Properties of the execution core: the equivalence of the two compiled tick paths, the tick's
  specification, the runs of a core with its controller (every interleaving of ticks,
  parameter pushes, permission changes and drains), the revoked permission and the cached
  parameter pack.
\<close>

lemma refresh_frame:
  assumes "refresh_cache env core = Some c"
  shows "ec_active c = ec_active core \<and> ec_active_b c = ec_active_b core \<and>
    ec_event_ring c = ec_event_ring core \<and> ec_permission c = ec_permission core \<and>
    ec_node_id c = ec_node_id core \<and> ec_ring_push_failures c = ec_ring_push_failures core \<and>
    ec_latency_stats c = ec_latency_stats core"
  using assms by (auto simp: refresh_cache_def Let_def split: if_splits option.splits)

lemma tick_body_pair:
  assumes "leg_flag_ok (ec_active_b core)"
  shows "tick_body True env tick core = tick_body False env tick core"
  using sg_signal_b_iff [OF assms, of True tick] sg_signal_b_iff [OF assms, of False tick]
  by (simp add: tick_body_def)

lemma tick_impl_pair:
  assumes "leg_flag_ok (ec_active_b core)"
  shows "ExecutionCore_Tick_Impl lat True env tick core = ExecutionCore_Tick_Impl lat False env tick core"
proof (cases "refresh_cache env core")
  case None
  then show ?thesis by (simp add: ExecutionCore_Tick_Impl_def)
next
  case (Some c)
  have "tick_body True env tick c = tick_body False env tick c"
    by (rule tick_body_pair) (use assms refresh_frame [OF Some] in simp)
  then show ?thesis unfolding ExecutionCore_Tick_Impl_def Some option.case Let_def by (rule arg_cong)
qed

lemma tick_dispatch:
  assumes "leg_flag_ok (ec_active_b core)"
  shows "ExecutionCore_Tick lat env tick core = ExecutionCore_Tick_Impl lat pb env tick core"
  by (cases pb; cases lat) (simp_all add: tick_impl_pair [OF assms] ExecutionCore_Tick_def Let_def)

text \<open>The two compile-time paths for leg B compute the same core, so the run-time dispatch of
  the tick on the cached pair flag (which may be one refresh old) never matters.\<close>

theorem tick_paths_agree:
  assumes "leg_flag_ok (ec_active_b core)"
  shows "ExecutionCore_Tick_Impl lat True env tick core = ExecutionCore_Tick_Impl lat False env tick core \<and>
    ExecutionCore_Tick lat env tick core = ExecutionCore_Tick_Impl lat pb env tick core"
  using tick_impl_pair [OF assms] tick_dispatch [OF assms] by simp

lemma tick_cases:
  assumes ok: "core_ok core" and room: "2 \<le> ring_room (ec_event_ring core)"
    and t: "ExecutionCore_Tick lat env tick core = Some core'"
  obtains c r stats where "refresh_cache env core = Some c"
    "offered (ec_event_ring core) (tick_wants c tick (ti_before_perm env (ec_permission core))) r"
    "core' = (tick_result c tick (ti_before_perm env (ec_permission core)) r)\<lparr>ec_latency_stats := stats\<rparr>"
proof -
  have fl: "leg_flag_ok (ec_active_b core)" using ok by (simp add: core_ok_def)
  have i: "ExecutionCore_Tick_Impl lat True env tick core = Some core'"
    using tick_dispatch [OF fl, of lat env tick True] t by simp
  then obtain c where c: "refresh_cache env core = Some c"
    by (auto simp: ExecutionCore_Tick_Impl_def Let_def split: option.splits prod.splits)
  note f = refresh_frame [OF c]
  have "core_ok c" "2 \<le> ring_room (ec_event_ring c)" using ok room f by (simp_all add: core_ok_def)
  then obtain r where r: "offered (ec_event_ring c) (tick_wants c tick (ti_before_perm env (ec_permission c))) r"
    "tick_body True env tick c = tick_result c tick (ti_before_perm env (ec_permission c)) r"
    by (rule tick_body_result)
  have "\<exists>stats. core' = (tick_body True env tick c)\<lparr>ec_latency_stats := stats\<rparr>"
    using i by (auto simp: ExecutionCore_Tick_Impl_def Let_def c split: prod.splits if_splits
        intro: exI [of _ "ec_latency_stats (tick_body True env tick c)"])
  then obtain stats where "core' = (tick_body True env tick c)\<lparr>ec_latency_stats := stats\<rparr>" by blast
  then show thesis using that [OF c] r f by simp
qed

lemma tick_result_fields:
  "core_legs (tick_result c tick perm r) = fold leg_event (take (ring_free (ec_event_ring c)) (tick_wants c tick perm)) (core_legs c)"
  "ec_event_ring (tick_result c tick perm r) = r" "ec_permission (tick_result c tick perm r) = perm"
  "leg_flag_ok (ec_active (tick_result c tick perm r))" "leg_flag_ok (ec_active_b (tick_result c tick perm r))"
  by (auto simp: tick_result_def core_legs_def leg_flag_ok_def Let_def)

lemma offered_items:
  "offered r evs r' \<Longrightarrow> ring_ok r \<Longrightarrow> ring_items r' = ring_items r @ take (ring_free r) evs"
  using ring.cap_law [of r] by (simp add: offered_def ring_free_def)

text \<open>C30: one tick, with any interference of the controller on the slot and on the permission
  byte: the core offers the ring exactly the events its state calls for (an entry only
  when flat, permitted, the buy gate open and the parameters not stale; an exit of a leg only
  when it is open and its sell gate fires), the ring keeps what fits, the leg flags follow the
  queued events and nothing else, a queued entry stores its levels, and the failure counter
  moves exactly when an event was dropped.\<close>

theorem ExecutionCore_Tick_spec:
  assumes "core_ok core" "2 \<le> ring_room (ec_event_ring core)"
    and "ExecutionCore_Tick lat env tick core = Some core'" and "refresh_cache env core = Some c"
  defines "perm \<equiv> ti_before_perm env (ec_permission core)" and "f \<equiv> ring_free (ec_event_ring core)"
  shows "ring_items (ec_event_ring core') = ring_items (ec_event_ring core) @ take f (tick_wants c tick perm) \<and>
    core_legs core' = fold leg_event (take f (tick_wants c tick perm)) (core_legs core) \<and>
    ec_ring_push_failures core' = ec_ring_push_failures core + of_bool (f < length (tick_wants c tick perm)) \<and>
    (let d = entry_levels tick (enters c tick perm \<and> 0 < f) (enters c tick perm \<and> pair_on c \<and> 1 < f) c
     in ec_live_tp core' = ec_live_tp d \<and> ec_live_sl core' = ec_live_sl d \<and>
        ec_live_tp_b core' = ec_live_tp_b d \<and> ec_live_sl_b core' = ec_live_sl_b d \<and>
        ec_entry_price core' = ec_entry_price d \<and> ec_entry_price_b core' = ec_entry_price_b d) \<and>
    core_ok core' \<and> ec_permission core' = perm \<and> ec_cached_params core' = ec_cached_params c \<and>
    ec_param_slot core' = ec_param_slot c \<and> ec_node_id core' = ec_node_id core"
proof -
  obtain r stats where r: "offered (ec_event_ring core) (tick_wants c tick perm) r"
    and e: "core' = (tick_result c tick perm r)\<lparr>ec_latency_stats := stats\<rparr>"
    using tick_cases [OF assms(1-3)] assms(4) unfolding perm_def by (metis option.inject)
  note fr = refresh_frame [OF assms(4)]
  have ok: "ring_ok (ec_event_ring core)" using assms(1) by (simp add: core_ok_def)
  have l: "core_legs c = core_legs core" "ring_free (ec_event_ring c) = f"
    using fr by (simp_all add: core_legs_def f_def)
  have s: "core_legs core' = core_legs (tick_result c tick perm r)" by (simp add: e core_legs_def)
  have k: "core_ok core'"
    using tick_result_fields [of c tick perm r] offered_ok [OF r] by (simp add: e core_ok_def)
  have d: "ec_live_tp core' = ec_live_tp d" "ec_live_sl core' = ec_live_sl d"
    "ec_live_tp_b core' = ec_live_tp_b d" "ec_live_sl_b core' = ec_live_sl_b d"
    "ec_entry_price core' = ec_entry_price d" "ec_entry_price_b core' = ec_entry_price_b d"
    "ec_cached_params core' = ec_cached_params c" "ec_param_slot core' = ec_param_slot c" "ec_node_id core' = ec_node_id c"
    "ec_ring_push_failures core' = ec_ring_push_failures c + of_bool (f < length (tick_wants c tick perm))"
    if "d = entry_levels tick (enters c tick perm \<and> 0 < f) (enters c tick perm \<and> pair_on c \<and> 1 < f) c" for d
    unfolding that
    by (simp_all add: e tick_result_def Let_def l entry_levels_def set_levels_a_def set_levels_b_def)
  show ?thesis
    using offered_items [OF r ok] s tick_result_fields [of c tick perm r] k d fr
    by (simp add: l f_def [symmetric]) (simp add: e)
qed

subsection \<open>Runs of a core and its controller\<close>

definition EXECUTION_NODE_EVENT_RING_SIZE :: nat where "EXECUTION_NODE_EVENT_RING_SIZE = 1024"

text \<open>
  \<open>core_run n h core\<close>: after \<open>n\<close> ticks, the controller having popped the events \<open>h\<close>.
  Ticks, parameter pushes, permission changes, drains and latency controls come in any order.
\<close>

inductive core_run :: "nat \<Rightarrow> TradeEvent list \<Rightarrow> ExecutionCore \<Rightarrow> bool" where
  boot: "length (rg_slots (ec_event_ring core)) = EXECUTION_NODE_EVENT_RING_SIZE \<Longrightarrow>
    core_run 0 [] (ExecutionCore_Init core node_id tick_ring)"
| tick: "core_run n h core \<Longrightarrow> ExecutionCore_Tick lat env tick core = Some core' \<Longrightarrow> core_run (Suc n) h core'"
| params: "core_run n h core \<Longrightarrow> core_run n h (ExecutionCore_SetParameters core params publish_tick)"
| permission: "core_run n h core \<Longrightarrow> core_run n h (ExecutionCore_SetPermission core v)"
| drain: "core_run n h core \<Longrightarrow> SPSCRing_TryPop (ec_event_ring core) = (m, r) \<Longrightarrow>
    core_run n (h @ (case m of None \<Rightarrow> [] | Some e \<Rightarrow> [e])) (core\<lparr>ec_event_ring := r\<rparr>)"
| latency: "core_run n h core \<Longrightarrow> f \<in> {NodeLatencyStats_Enable, NodeLatencyStats_Disable, NodeLatencyStats_Reset} \<Longrightarrow>
    core_run n h (core\<lparr>ec_latency_stats := f (ec_latency_stats core)\<rparr>)"

text \<open>When an event makes sense for a consumer that believes the legs to be \<open>legs\<close>.\<close>

definition event_legal :: "TradeEvent \<Rightarrow> bool \<times> bool \<Rightarrow> bool" where
  "event_legal e legs \<longleftrightarrow>
     (if te_type e = TRADE_EVENT_ENTRY
      then if te_leg e = PARTIAL_LEG_A then legs = (False, False) else legs = (True, False)
      else te_type e = TRADE_EVENT_EXIT \<and> (if te_leg e = PARTIAL_LEG_A then fst legs else snd legs))"

primrec legal_events :: "TradeEvent list \<Rightarrow> bool \<times> bool \<Rightarrow> bool" where
  "legal_events [] legs = True"
| "legal_events (e # es) legs = (event_legal e legs \<and> legal_events es (leg_event e legs))"

lemma legal_append: "legal_events (xs @ ys) legs = (legal_events xs legs \<and> legal_events ys (fold leg_event xs legs))"
  by (induction xs arbitrary: legs) auto

lemma legal_take: "legal_events xs legs \<Longrightarrow> legal_events (take n xs) legs"
  using legal_append [of "take n xs" "drop n xs" legs] by simp

lemma event_legal_cases:
  "event_legal (core_event core tick TRADE_EVENT_ENTRY PARTIAL_LEG_A) l \<longleftrightarrow> l = (False, False)"
  "event_legal (core_event core tick TRADE_EVENT_ENTRY PARTIAL_LEG_B) l \<longleftrightarrow> l = (True, False)"
  "event_legal (core_event core tick TRADE_EVENT_EXIT PARTIAL_LEG_A) l \<longleftrightarrow> fst l"
  "event_legal (core_event core tick TRADE_EVENT_EXIT PARTIAL_LEG_B) l \<longleftrightarrow> snd l"
  by (simp_all add: event_legal_def core_event_def event_codes)

lemma wants_legal: "legal_events (tick_wants c tick perm) (core_legs c)"
proof -
  have "enters c tick perm \<Longrightarrow> core_legs c = (False, False)" "exits_a c tick \<Longrightarrow> fst (core_legs c)"
    "exits_b c tick \<Longrightarrow> snd (core_legs c)"
    by (simp_all add: enters_def exits_a_def exits_b_def core_legs_def)
  then show ?thesis
    by (cases "enters c tick perm") (simp_all add: tick_wants_def wanted_def events_legs event_legal_cases)
qed

lemma wants_length: "length (tick_wants c tick perm) \<le> 2"
  by (simp add: tick_wants_def wanted_def)

definition core_inv :: "nat \<Rightarrow> TradeEvent list \<Rightarrow> ExecutionCore \<Rightarrow> bool" where
  "core_inv n h core \<longleftrightarrow>
     core_ok core \<and> ring_N (ec_event_ring core) = EXECUTION_NODE_EVENT_RING_SIZE \<and>
     2 ^ 64 \<le> ring_room (ec_event_ring core) + 2 * n + 1 \<and>
     legal_events (h @ ring_items (ec_event_ring core)) (False, False) \<and>
     fold leg_event (h @ ring_items (ec_event_ring core)) (False, False) = core_legs core"

lemma core_inv_same:
  assumes "core_inv n h core" "ec_active c = ec_active core" "ec_active_b c = ec_active_b core"
    "ec_event_ring c = ec_event_ring core"
  shows "core_inv n h c"
  using assms by (simp add: core_inv_def core_ok_def core_legs_def)

lemma core_inv_boot:
  assumes "length (rg_slots (ec_event_ring core)) = EXECUTION_NODE_EVENT_RING_SIZE"
  shows "core_inv 0 [] (ExecutionCore_Init core node_id tick_ring)"
proof -
  have g: "ring_geom (length (rg_slots (ec_event_ring core)))"
    by (auto simp: assms ring_geom_def EXECUTION_NODE_EVENT_RING_SIZE_def intro: image_eqI [of _ _ 10])
  then show ?thesis
    using ring_init_ok [OF g] assms
    by (simp add: core_inv_def ExecutionCore_Init_def Let_def core_ok_def leg_flag_ok_def core_legs_def
        ring_room_def SPSCRing_Init_def ring_N_def)
qed

lemma core_inv_tick:
  assumes inv: "core_inv n h core" and n: "2 * Suc n < 2 ^ 64"
    and t: "ExecutionCore_Tick lat env tick core = Some core'"
  shows "core_inv (Suc n) h core'"
proof -
  have ok: "core_ok core" "2 \<le> ring_room (ec_event_ring core)" using inv n by (simp_all add: core_inv_def)
  let ?p = "ti_before_perm env (ec_permission core)"
  obtain c r stats where c: "refresh_cache env core = Some c"
    "offered (ec_event_ring core) (tick_wants c tick ?p) r"
    "core' = (tick_result c tick ?p r)\<lparr>ec_latency_stats := stats\<rparr>"
    by (rule tick_cases [OF ok t])
  note f = refresh_frame [OF c(1)]
  let ?evs = "take (ring_free (ec_event_ring core)) (tick_wants c tick ?p)"
  have i: "ring_items r = ring_items (ec_event_ring core) @ ?evs"
    by (rule offered_items [OF c(2)]) (use ok in \<open>simp add: core_ok_def\<close>)
  have l: "core_legs c = core_legs core" using f by (simp add: core_legs_def)
  have "core_legs core' = core_legs (tick_result c tick ?p r)" by (simp add: c(3) core_legs_def)
  then have legs: "core_legs core' = fold leg_event ?evs (core_legs core)"
    using f l by (simp add: tick_result_fields)
  have "legal_events ?evs (core_legs core)" using legal_take [OF wants_legal] l by metis
  then have "legal_events (h @ ring_items r) (False, False)"
    "fold leg_event (h @ ring_items r) (False, False) = core_legs core'"
    using inv by (simp_all add: core_inv_def i legal_append legs del: fold_append) (simp_all add: legs)
  moreover have "core_ok core'" "ec_event_ring core' = r"
    using offered_ok [OF c(2)] tick_result_fields [of c tick ?p r] by (simp_all add: c(3) core_ok_def)
  moreover have "ring_N r = ring_N (ec_event_ring core)" "ring_room (ec_event_ring core) \<le> ring_room r + 2"
    using c(2) wants_length [of c tick ?p] by (simp_all add: offered_def)
  ultimately show ?thesis using inv by (simp add: core_inv_def)
qed

lemma core_inv_drain:
  assumes inv: "core_inv n h core" and p: "SPSCRing_TryPop (ec_event_ring core) = (m, r)"
  shows "core_inv n (h @ (case m of None \<Rightarrow> [] | Some e \<Rightarrow> [e])) (core\<lparr>ec_event_ring := r\<rparr>)"
proof -
  have "ring_ok (ec_event_ring core)" using inv by (simp add: core_inv_def core_ok_def)
  note l = ring.pop_law [OF this p]
  then have "(case m of None \<Rightarrow> [] | Some e \<Rightarrow> [e]) @ ring_items r = ring_items (ec_event_ring core)"
    by (simp split: list.splits)
  then show ?thesis
    using inv l by (simp add: core_inv_def core_ok_def core_legs_def)
qed

lemma core_run_inv: "core_run n h core \<Longrightarrow> 2 * n < 2 ^ 64 \<Longrightarrow> core_inv n h core"
proof (induction rule: core_run.induct)
  case (boot core node_id tick_ring)
  then show ?case by (intro core_inv_boot)
next
  case (tick n h core lat env tick core')
  then show ?case by (intro core_inv_tick) simp_all
next
  case (drain n h core m r)
  then show ?case by (intro core_inv_drain) simp_all
qed (auto elim!: core_inv_same simp: ExecutionCore_SetParameters_def ExecutionCore_SetPermission_def)


subsection \<open>Revoking the permission\<close>

primrec tick_all :: "bool \<Rightarrow> (tick_env \<times> Tick) list \<Rightarrow> ExecutionCore \<Rightarrow> ExecutionCore option" where
  "tick_all lat [] core = Some core"
| "tick_all lat (x # xs) core =
     (case ExecutionCore_Tick lat (fst x) (snd x) core of None \<Rightarrow> None | Some core' \<Rightarrow> tick_all lat xs core')"

lemma wants_revoked:
  assumes "even perm"
  shows "\<forall>e \<in> set (tick_wants c tick perm). te_type e = TRADE_EVENT_EXIT"
  using assms by (auto simp: tick_wants_def wanted_def enters_def core_event_def)

lemma exit_closes:
  "te_type e = TRADE_EVENT_EXIT \<Longrightarrow> (fst (leg_event e l) \<longrightarrow> fst l) \<and> (snd (leg_event e l) \<longrightarrow> snd l)"
  by (simp add: leg_event_def event_codes)

lemma exits_close:
  assumes "\<forall>e \<in> set evs. te_type e = TRADE_EVENT_EXIT"
  shows "(fst (fold leg_event evs l) \<longrightarrow> fst l) \<and> (snd (fold leg_event evs l) \<longrightarrow> snd l)"
  using assms
proof (induction evs arbitrary: l)
  case (Cons e evs)
  have "te_type e = TRADE_EVENT_EXIT" using Cons.prems by simp
  note e = exit_closes [OF this, of l]
  have "\<forall>e \<in> set evs. te_type e = TRADE_EVENT_EXIT" using Cons.prems by simp
  then show ?case using Cons.IH [of "leg_event e l"] e unfolding fold_simps by blast
qed simp

lemma revoked_ticks:
  assumes "core_ok core" "2 * length xs \<le> ring_room (ec_event_ring core)" "even (ec_permission core)"
    and "\<forall>x \<in> set xs. \<forall>p. even p \<longrightarrow> even (ti_before_perm (fst x) p)" and "tick_all lat xs core = Some core'"
  shows "\<exists>evs. ring_items (ec_event_ring core') = ring_items (ec_event_ring core) @ evs \<and>
    (\<forall>e \<in> set evs. te_type e = TRADE_EVENT_EXIT) \<and> core_legs core' = fold leg_event evs (core_legs core)"
  using assms
proof (induction xs arbitrary: core)
  case Nil
  then show ?case by (auto intro: exI [of _ "[]"])
next
  case (Cons x xs)
  let ?p = "ti_before_perm (fst x) (ec_permission core)"
  obtain c1 where t: "ExecutionCore_Tick lat (fst x) (snd x) core = Some c1"
    using Cons.prems(5) by (auto split: option.splits)
  have room: "2 \<le> ring_room (ec_event_ring core)" using Cons.prems(2) by simp
  obtain c r stats where c: "refresh_cache (fst x) core = Some c"
    "offered (ec_event_ring core) (tick_wants c (snd x) ?p) r"
    "c1 = (tick_result c (snd x) ?p r)\<lparr>ec_latency_stats := stats\<rparr>"
    by (rule tick_cases [OF Cons.prems(1) room t])
  let ?evs = "take (ring_free (ec_event_ring core)) (tick_wants c (snd x) ?p)"
  note f = refresh_frame [OF c(1)]
  have ev: "even ?p" using Cons.prems(3,4) by simp
  have ok1: "core_ok c1" "ec_event_ring c1 = r" "ec_permission c1 = ?p"
    using offered_ok [OF c(2)] tick_result_fields [of c "snd x" ?p r] by (simp_all add: c(3) core_ok_def)
  have l1: "core_legs c1 = fold leg_event ?evs (core_legs core)"
    using tick_result_fields(1) [of c "snd x" ?p r] f by (simp add: c(3) core_legs_def)
  have i1: "ring_items r = ring_items (ec_event_ring core) @ ?evs"
    by (rule offered_items [OF c(2)]) (use Cons.prems(1) in \<open>simp add: core_ok_def\<close>)
  have "2 * length xs \<le> ring_room r"
    using Cons.prems(2) c(2) wants_length [of c "snd x" ?p] by (simp add: offered_def)
  then have "\<exists>evs. ring_items (ec_event_ring core') = ring_items (ec_event_ring c1) @ evs \<and>
      (\<forall>e \<in> set evs. te_type e = TRADE_EVENT_EXIT) \<and> core_legs core' = fold leg_event evs (core_legs c1)"
    using Cons.IH [of c1] Cons.prems(4,5) ok1 ev t by simp
  then obtain evs where evs: "ring_items (ec_event_ring core') = ring_items r @ evs"
    "\<forall>e \<in> set evs. te_type e = TRADE_EVENT_EXIT" "core_legs core' = fold leg_event evs (core_legs c1)"
    using ok1 by auto
  have "\<forall>e \<in> set ?evs. te_type e = TRADE_EVENT_EXIT"
    using wants_revoked [OF ev, of c "snd x"] by (auto dest: in_set_takeD)
  then show ?case
    using evs i1 l1 by (intro exI [of _ "?evs @ evs"]) auto
qed

text \<open>C31: once the controller has revoked the permission (and while it does not grant it again),
  no run of ticks queues an entry or opens a leg; open legs still close.\<close>

theorem revoked_core_never_enters:
  assumes "core_ok core" "2 * length xs \<le> ring_room (ec_event_ring core)" "even v"
    and "\<forall>x \<in> set xs. \<forall>p. even p \<longrightarrow> even (ti_before_perm (fst x) p)"
    and "tick_all lat xs (ExecutionCore_SetPermission core v) = Some core'"
  shows "\<exists>evs. ring_items (ec_event_ring core') = ring_items (ec_event_ring core) @ evs \<and>
    (\<forall>e \<in> set evs. te_type e = TRADE_EVENT_EXIT) \<and>
    (fst (core_legs core') \<longrightarrow> fst (core_legs core)) \<and> (snd (core_legs core') \<longrightarrow> snd (core_legs core))"
proof -
  let ?c = "ExecutionCore_SetPermission core v"
  have s: "core_ok ?c" "ec_event_ring ?c = ec_event_ring core" "ec_permission ?c = v" "core_legs ?c = core_legs core"
    using assms(1) by (simp_all add: ExecutionCore_SetPermission_def core_ok_def core_legs_def)
  then show ?thesis
    using revoked_ticks [of ?c xs lat core'] assms(2-5) exits_close [where l = "core_legs core"] by auto
qed

subsection \<open>The cached parameter pack\<close>

definition cache_view :: "ExecutionCore \<Rightarrow> GateParameters pslot \<times> u64 \<times> GateParameters \<times> u64" where
  "cache_view core = (ec_param_slot core, ec_cached_seq core, ec_cached_params core, ec_cached_publish_tick core)"

lemma levels_cache [simp]:
  "cache_view (set_levels_a tick core) = cache_view core" "cache_view (set_levels_b tick core) = cache_view core"
  "cache_view (core\<lparr>ec_event_ring := r\<rparr>) = cache_view core"
  "cache_view (core\<lparr>ec_ring_push_failures := n\<rparr>) = cache_view core"
  "cache_view (core\<lparr>ec_permission := p\<rparr>) = cache_view core"
  "cache_view (core\<lparr>ec_latency_stats := s\<rparr>) = cache_view core"
  "cache_view (core\<lparr>ec_active := a, ec_active_b := b\<rparr>) = cache_view core"
  by (simp_all add: cache_view_def set_levels_a_def set_levels_b_def Let_def)

lemma push_cache: "push_event ty leg tick core = (b, c) \<Longrightarrow> cache_view c = cache_view core"
  by (auto simp: push_event_def Let_def split: prod.splits)

lemma exit_cache: "fire_exit x leg tick core = (b, c) \<Longrightarrow> cache_view c = cache_view core"
  by (auto simp: fire_exit_def dest: push_cache split: if_splits)

lemma entry_cache: "fire_entry x y tick core = (b, b', c) \<Longrightarrow> cache_view c = cache_view core"
  by (auto simp: fire_entry_def Let_def split: if_splits prod.splits dest!: push_cache)

lemma events_cache: "fire_events x y z w tick core = (b, c) \<Longrightarrow> cache_view c = cache_view core"
  by (auto simp: fire_events_def Let_def split: if_splits prod.splits dest!: exit_cache entry_cache)

lemma body_cache: "cache_view (tick_body pb env tick core) = cache_view core"
  by (auto simp: tick_body_def update_flags_def Let_def split: prod.splits dest!: events_cache)

lemma tick_cache:
  assumes "ExecutionCore_Tick lat env tick core = Some core'"
  shows "\<exists>c. refresh_cache env core = Some c \<and> cache_view core' = cache_view c"
proof -
  obtain pb where "ExecutionCore_Tick_Impl lat pb env tick core = Some core'"
    using assms by (auto simp: ExecutionCore_Tick_def Let_def split: if_splits)
  then show ?thesis
    by (auto simp: ExecutionCore_Tick_Impl_def Let_def body_cache split: option.splits prod.splits if_splits)
qed

definition quiet_slot :: "tick_env \<Rightarrow> bool" where
  "quiet_slot env \<longleftrightarrow> ti_before_read env = (\<lambda>s. s) \<and> ti_before_reload env = (\<lambda>s. s)"

lemma cached_ticks_keep:
  assumes "ps_seq (ec_param_slot core) = ec_cached_seq core" "even (ec_cached_seq core)"
    and "tick_all lat xs core = Some core'"
  shows "cache_view core' = cache_view core"
  using assms
proof (induction xs arbitrary: core)
  case (Cons x xs)
  obtain c1 where t: "ExecutionCore_Tick lat (fst x) (snd x) core = Some c1" "tick_all lat xs c1 = Some core'"
    using Cons.prems(3) by (auto split: option.splits)
  have "refresh_cache (fst x) core = Some core"
    using Cons.prems(1,2) by (simp add: refresh_cache_def and_one_flag)
  then have "cache_view c1 = cache_view core" using tick_cache [OF t(1)] by simp
  then show ?case using Cons.IH [of c1] Cons.prems(1,2) t(2) by (simp add: cache_view_def)
qed simp

text \<open>The slot is read by its sequence word: a cache whose word is current holds the current pack.\<close>

definition cache_coherent :: "ExecutionCore \<Rightarrow> bool" where
  "cache_coherent core \<longleftrightarrow>
     pslot_ok (ec_param_slot core) \<and>
     (ps_seq (ec_param_slot core) = ec_cached_seq core \<longrightarrow>
        ParameterSlot_Read (ec_param_slot core) = Some (ec_cached_params core, ec_cached_publish_tick core))"

lemma even_clear: "even s \<Longrightarrow> s AND NOT 1 = (s :: u64)"
  by (rule bit_word_eqI) (auto simp: bit_simps bit_0 split: if_splits intro: ccontr)

lemma quiet_tick_coherent:
  assumes "cache_coherent core" "quiet_slot env" "ExecutionCore_Tick lat env tick core = Some core'"
  shows "ParameterSlot_Read (ec_param_slot core') = Some (ec_cached_params core', ec_cached_publish_tick core') \<and>
    ec_param_slot core' = ec_param_slot core \<and> cache_coherent core'"
proof -
  obtain c where c: "refresh_cache env core = Some c" "cache_view core' = cache_view c"
    using tick_cache [OF assms(3)] by blast
  have "ParameterSlot_Read (ec_param_slot c) = Some (ec_cached_params c, ec_cached_publish_tick c) \<and>
      ec_param_slot c = ec_param_slot core"
    using c(1) assms(1,2)
    by (auto simp: refresh_cache_def Let_def quiet_slot_def cache_coherent_def split: if_splits option.splits)
  then have r: "ParameterSlot_Read (ec_param_slot core) = Some (ec_cached_params c, ec_cached_publish_tick c)"
    "ec_param_slot c = ec_param_slot core" by metis+
  have "ec_param_slot core' = ec_param_slot c" "ec_cached_params core' = ec_cached_params c"
    "ec_cached_publish_tick core' = ec_cached_publish_tick c"
    using c(2) by (simp_all add: cache_view_def)
  then show ?thesis using r assms(1) by (simp add: cache_coherent_def)
qed

text \<open>The refresh reloads the sequence word after the guarded read.  A publication that
  completes between the two leaves the new word beside the old pack, and from then on every
  tick takes the cache for current: the core keeps trading on the superseded parameters, however many
  ticks follow, until the controller publishes once more.\<close>

theorem refresh_race_keeps_old_parameters:
  assumes "pslot_ok (ec_param_slot core)" "ps_seq (ec_param_slot core) \<noteq> ec_cached_seq core"
    and "ParameterSlot_Read (ec_param_slot core) = Some (old, t0)"
    and "ti_before_read env = (\<lambda>s. s)" "ti_before_reload env = (\<lambda>s. ParameterSlot_Write s new t1)"
    and "ExecutionCore_Tick lat env tick core = Some c1"
    and "\<forall>x \<in> set xs. quiet_slot (fst x)" "tick_all lat xs c1 = Some core'"
  shows "ec_cached_params core' = old \<and> ec_cached_publish_tick core' = t0 \<and>
    ParameterSlot_Read (ec_param_slot core') = Some (new, t1)"
proof -
  let ?w = "ParameterSlot_Write (ec_param_slot core) new t1"
  have w: "pslot_ok ?w" "ParameterSlot_Read ?w = Some (new, t1)"
    using slot_written [OF assms(1), of new t1] by simp_all
  have s: "even (ps_seq ?w)" using w(1) by (simp add: pslot_ok_def)
  obtain c where c: "refresh_cache env core = Some c" "cache_view c1 = cache_view c"
    using tick_cache [OF assms(6)] by blast
  have v: "cache_view c = (?w, ps_seq ?w, old, t0)"
    using c(1) assms(2-5) even_clear [OF s] by (auto simp: refresh_cache_def Let_def cache_view_def)
  then have "cache_view core' = cache_view c1"
    by (intro cached_ticks_keep [OF _ _ assms(8)]) (use c(2) s in \<open>simp_all add: cache_view_def\<close>)
  then show ?thesis using v c(2) w(2) by (simp add: cache_view_def)
qed

subsection \<open>Stored levels\<close>

lemma entry_levels_bracket:
  assumes "money_closed (tk_price tick)" "0 < mint (tk_price tick)"
    and "0 < mint (gp_tp_pct (ec_cached_params core))" "0 < mint (gp_sl_pct (ec_cached_params core))"
  shows "mint (ec_live_sl (set_levels_a tick core)) \<le> mint (tk_price tick) \<and>
    mint (tk_price tick) \<le> mint (ec_live_tp (set_levels_a tick core))"
proof -
  let ?p = "mint (tk_price tick)" and ?m = "\<lambda>q. Money_Mul (tk_price tick) q"
  have nn: "0 \<le> mint (?m q)" if "0 < mint q" for q
    using that assms(2) by (simp add: Money_Mul_int irhe_sign money_sat_sign)
  have hi: "?p \<le> money_lim" using assms(1) by (simp add: money_closed_def)
  have "mint (Money_Add (tk_price tick) (?m q)) = money_sat (?p + mint (?m q))"
    "mint (Money_Sub (tk_price tick) (?m q)) = money_sat (?p - mint (?m q))" for q
    using Money_Add_int [OF assms(1) money_closed_ops(1)] Money_Sub_int [OF assms(1) money_closed_ops(1)] by blast+
  moreover have "?p \<le> money_sat (?p + d)" "money_sat (?p - d) \<le> ?p" if "0 \<le> d" for d
    using that hi assms(2) by (simp_all add: money_sat_def money_lim_def)
  moreover have "\<not> Money_IsZero (gp_tp_pct (ec_cached_params core))" "\<not> Money_IsZero (gp_sl_pct (ec_cached_params core))"
    using assms(3,4) by (simp_all only: money_order)
  ultimately show ?thesis using nn assms(3,4) by (simp only: set_levels_a_def Let_def) simp
qed

subsection \<open>A concrete core\<close>

definition demo_params :: GateParameters where
  "demo_params = gate_fresh\<lparr>gp_bg_price_threshold := Money 20000000000, gp_tp_pct := Money 1000000,
     gp_sl_pct := Money 500000, gp_flags := 0x43\<rparr>"

definition demo_tick :: "u64 \<Rightarrow> Tick" where
  "demo_tick p = \<lparr>tk_price = Money (ucast p), tk_volume = Money 100000000, tk_timestamp = 7, tk_sequence = 3,
     tk_is_buyer_maker = 0\<rparr>"

definition demo_env :: tick_env where
  "demo_env = \<lparr>ti_before_read = (\<lambda>s. s), ti_before_reload = (\<lambda>s. s), ti_before_perm = (\<lambda>p. p), ti_tsc = (10, 25)\<rparr>"

definition demo_event :: TradeEvent where
  "demo_event = \<lparr>te_price = Money 0, te_timestamp = 0, te_node_id = 0, te_type = 0, te_leg = 0\<rparr>"

definition demo_latency :: NodeLatencyStats where
  "demo_latency = \<lparr>nl_enabled = 0, nl_total_count = 0, nl_total_cycles = 0, nl_min_cycles = 0, nl_max_cycles = 0,
     nl_ring_head = 0, nl_last_sample_tsc = 0, nl_recent = replicate 256 0, nl_lifetime_buckets = replicate 64 0\<rparr>"

text \<open>A flat core with permission, a ring of \<open>n\<close> slots and freshly pushed parameters.\<close>

definition demo_raw :: "nat \<Rightarrow> ExecutionCore" where
  "demo_raw n =
     \<lparr>ec_active = 0, ec_active_b = 0, ec_live_tp = Money 0, ec_live_sl = Money 0, ec_entry_price = Money 0,
      ec_entry_price_b = Money 0, ec_live_tp_b = Money 0, ec_live_sl_b = Money 0, ec_permission = 0,
      ec_param_slot = \<lparr>ps_buffers = [gate_zero, gate_zero], ps_seq = 0, ps_publish_ticks = [0, 0]\<rparr>,
      ec_cached_seq = 0, ec_cached_params = gate_zero, ec_cached_publish_tick = 0, ec_node_id = 0,
      ec_event_ring = \<lparr>rg_head = 0, rg_cached_tail = 0, rg_tail = 0, rg_cached_head = 0, rg_slots = replicate n demo_event\<rparr>,
      ec_tick_ring = 0, ec_latency_stats = demo_latency, ec_ring_push_failures = 0\<rparr>"

definition demo_core :: "nat \<Rightarrow> ExecutionCore" where
  "demo_core n =
     ExecutionCore_SetPermission (ExecutionCore_SetParameters (ExecutionCore_Init (demo_raw n) 5 0x1000) demo_params 1) 1"

definition demo_slot_after :: "GateParameters pslot" where
  "demo_slot_after = ec_param_slot (demo_core 2)"

lemma demo_core_fields:
  "ec_active (demo_core n) = 0" "ec_active_b (demo_core n) = 0" "ec_permission (demo_core n) = 1"
  "ec_node_id (demo_core n) = 5" "ec_cached_seq (demo_core n) = - 1"
  "ec_param_slot (demo_core n) = \<lparr>ps_buffers = [gate_fresh, demo_params], ps_seq = 2, ps_publish_ticks = [0, 1]\<rparr>"
  "ec_event_ring (demo_core n) =
     \<lparr>rg_head = 0, rg_cached_tail = 0, rg_tail = 0, rg_cached_head = 0, rg_slots = replicate n demo_event\<rparr>"
  "ec_ring_push_failures (demo_core n) = 0"
  by (simp_all add: demo_core_def demo_raw_def ExecutionCore_SetPermission_def ExecutionCore_SetParameters_def
      ExecutionCore_Init_def Let_def ParameterSlot_Init_def ParameterSlot_Write_def slot_index_def
      SPSCRing_Init_def init_reproducible gate_layout_def gate_zero_def gate_fresh_def GateParameters_Init_def
      map_replicate_const)

lemma demo_read: "ParameterSlot_Read (ec_param_slot (demo_core n)) = Some (demo_params, 1)"
  by (simp add: demo_core_fields ParameterSlot_Read_def slot_index_def)

lemma demo_core_ok: "1 \<le> k \<Longrightarrow> k < 64 \<Longrightarrow> core_ok (demo_core (2 ^ k))"
  by (auto simp: core_ok_def demo_core_fields leg_flag_ok_def ring_ok_def ring_N_def ring_geom_def)

lemma demo_core_room: "ring_room (ec_event_ring (demo_core n)) = 2 ^ 64 - 1"
  by (simp add: demo_core_fields ring_room_def)

definition demo_next :: "tick_env \<Rightarrow> Tick \<Rightarrow> ExecutionCore \<Rightarrow> ExecutionCore" where
  "demo_next env tick core = the (ExecutionCore_Tick False env tick core)"

lemma demo_tick_runs:
  assumes "refresh_cache env core = Some c"
  shows "ExecutionCore_Tick False env tick core = Some (demo_next env tick core)"
  using assms by (auto simp: demo_next_def ExecutionCore_Tick_def ExecutionCore_Tick_Impl_def Let_def split: prod.splits)

definition demo_cached :: "nat \<Rightarrow> ExecutionCore" where
  "demo_cached n = (demo_core n)\<lparr>ec_cached_params := demo_params, ec_cached_publish_tick := 1, ec_cached_seq := 2\<rparr>"

lemma demo_refresh: "refresh_cache demo_env (demo_core n) = Some (demo_cached n)"
proof -
  have "(2 :: u64) AND NOT 1 = 2" by (rule even_clear) simp
  then show ?thesis
    using demo_read [of n]
    by (simp add: refresh_cache_def Let_def demo_env_def demo_cached_def demo_core_fields)
qed

lemma demo_wants:
  "tick_wants (demo_cached n) (demo_tick 10000000000) 1 =
   [core_event (demo_cached n) (demo_tick 10000000000) TRADE_EVENT_ENTRY PARTIAL_LEG_A,
    core_event (demo_cached n) (demo_tick 10000000000) TRADE_EVENT_ENTRY PARTIAL_LEG_B]"
proof -
  have "enters (demo_cached n) (demo_tick 10000000000) 1"
    by (simp add: enters_def demo_cached_def demo_core_fields demo_params_def gate_fresh_def buy_gate_def
        buy_price_ok_def stale_def flag_on_def gate_flags demo_tick_def)
  moreover have "pair_on (demo_cached n)"
    by (simp add: pair_on_def demo_cached_def demo_params_def flag_on_def gate_flags)
  ultimately show ?thesis by (simp add: tick_wants_def wanted_def)
qed

lemma demo_core2_ok: "core_ok (demo_core 2)" "2 \<le> ring_room (ec_event_ring (demo_core 2))"
  "ring_free (ec_event_ring (demo_core 2)) = 2"
  using demo_core_ok [of 1] demo_core_room [of 2]
  by (simp_all add: ring_free_def ring_N_def ring_items_def demo_core_fields(7))

lemma tick_paths_agree_witness:
  "ExecutionCore_Tick_Impl True True demo_env (demo_tick 1) (demo_core 2) =
   ExecutionCore_Tick_Impl True False demo_env (demo_tick 1) (demo_core 2)"
  using tick_paths_agree [of "demo_core 2" True demo_env "demo_tick 1"] by (simp add: demo_core_fields leg_flag_ok_def)

lemma ExecutionCore_Tick_spec_witness:
  "core_legs (demo_next demo_env (demo_tick 10000000000) (demo_core 2)) = (True, True)"
  using ExecutionCore_Tick_spec [OF demo_core2_ok(1,2) demo_tick_runs [OF demo_refresh] demo_refresh,
      of "demo_tick 10000000000"] demo_core2_ok(3)
  by (simp add: demo_env_def demo_core_fields demo_wants events_legs core_legs_def)

lemma demo_run: "core_run 1 [] (demo_next demo_env (demo_tick 10000000000) (demo_core 1024))"
proof -
  have "core_run 0 [] (ExecutionCore_Init (demo_raw 1024) 5 0x1000)"
    by (rule core_run.boot) (simp add: demo_raw_def EXECUTION_NODE_EVENT_RING_SIZE_def)
  then have "core_run 0 [] (demo_core 1024)"
    unfolding demo_core_def by (intro core_run.permission core_run.params)
  then show ?thesis using core_run.tick [OF _ demo_tick_runs [OF demo_refresh]] by simp
qed


lemma revoked_core_never_enters_witness:
  "\<not> fst (core_legs (demo_next demo_env (demo_tick 10000000000) (ExecutionCore_SetPermission (demo_core 2) 0)))"
proof -
  let ?c = "ExecutionCore_SetPermission (demo_core 2) 0"
  have "refresh_cache demo_env ?c \<noteq> None"
    using demo_read [of 2] by (simp add: refresh_cache_def demo_env_def ExecutionCore_SetPermission_def Let_def)
  then obtain c where "refresh_cache demo_env ?c = Some c" by blast
  note t = demo_tick_runs [OF this, of "demo_tick 10000000000"]
  then show ?thesis
    using revoked_core_never_enters [OF demo_core2_ok(1), of "[(demo_env, demo_tick 10000000000)]" 0 False
        "demo_next demo_env (demo_tick 10000000000) ?c"] demo_core2_ok(2)
    by (auto simp: core_legs_def demo_core_fields(1,2)) (simp add: demo_env_def)
qed

lemma refresh_race_keeps_old_parameters_witness:
  "ec_cached_params (demo_next (demo_env\<lparr>ti_before_reload := (\<lambda>s. ParameterSlot_Write s gate_fresh 9)\<rparr>)
     (demo_tick 1) (demo_core 2)) = demo_params"
proof -
  let ?env = "demo_env\<lparr>ti_before_reload := (\<lambda>s. ParameterSlot_Write s gate_fresh 9)\<rparr>"
  have "refresh_cache ?env (demo_core 2) \<noteq> None"
    using demo_read [of 2] by (simp add: refresh_cache_def demo_env_def Let_def demo_core_fields)
  then obtain c where "refresh_cache ?env (demo_core 2) = Some c" by blast
  note t = demo_tick_runs [OF this, of "demo_tick 1"]
  have p: "pslot_ok (ec_param_slot (demo_core 2))" "ps_seq (ec_param_slot (demo_core 2)) \<noteq> ec_cached_seq (demo_core 2)"
    by (simp_all add: demo_core_fields pslot_ok_def)
  show ?thesis
    using refresh_race_keeps_old_parameters [OF p demo_read _ _ t, where xs = "[]"] by (simp add: demo_env_def)
qed

end
