(* ===== verification/Engine_State.thy ===== *)
theory Engine_State
  imports Order_Calls Execution_Core
begin

text \<open>
  The state of the sharded engine around the order manager: the per-node contexts and the event
  loop state of \<^verbatim>\<open>src/CoreFrameworks/ControllerEventLoop.hpp\<close>, the aggregator of
  \<^verbatim>\<open>src/CoreFrameworks/NodeState.hpp\<close> and the calls on them that the composer uses.  The
  engine state extends the order manager's record, as the two structures point to each other.
  Fields used only by the learned models, the displays and the regime detector are left out.
\<close>

unbundle bit_operations_syntax

subsection \<open>Nodes\<close>

definition NODE_STATE_DIRTY :: u8 where "NODE_STATE_DIRTY = BITMAP_BIT 0"
definition NODE_STATE_KILL_TRIPPED :: u8 where "NODE_STATE_KILL_TRIPPED = BITMAP_BIT 1"
definition MASK_DRIFT_KILL_TRIPPED :: u8 where "MASK_DRIFT_KILL_TRIPPED = BITMAP_BIT 1"

record NodeContext =
  nx_core :: "ExecutionCore option"
  nx_strategy_id :: u8
  nx_resolved_strategy_id :: u8
  nx_node_state_flags :: u8
  nx_pending_params :: GateParameters
  nx_intended_tp :: Money
  nx_intended_sl :: Money
  nx_intended_qty :: Money
  nx_allocated_balance :: Money
  nx_staged_prediction :: f64
  nx_active_prediction :: f64
  nx_entries_processed :: u64
  nx_exits_processed :: u64
  nx_last_entry_price :: Money
  nx_last_entry_tick :: u64
  nx_last_entry_wall_us :: u64
  nx_node_realized :: Money
  nx_node_fees :: Money
  nx_node_wins :: u32
  nx_node_losses :: u32
  nx_partner_pending_pnl :: Money
  nx_node_gross_wins :: Money
  nx_node_gross_losses :: Money
  nx_node_open_notional :: Money
  nx_node_peak_balance :: Money
  nx_node_dd_pct :: Money
  nx_node_unrealized_view :: Money
  nx_node_ks_trips_total :: u32
  nx_drift_state_flags :: u8

subsection \<open>The aggregator\<close>

record MoneySnapshotNodeRow =
  mr_alloc :: Money
  mr_realized :: Money
  mr_fees :: Money
  mr_peak :: Money
  mr_dd :: Money
  mr_unrealized :: Money

record MoneySnapshot =
  ms_generation :: u64
  ms_kill_word_copy :: u64
  ms_balance :: Money
  ms_realized :: Money
  ms_ks_peak :: Money
  ms_rows :: "MoneySnapshotNodeRow list"
  ms_expected_free :: Money
  ms_total_fees :: Money
  ms_total_maker_fees :: Money
  ms_total_taker_fees :: Money

record DragCmd =
  dc_slot :: int
  dc_is_tp :: bool
  dc_price :: Money

record AggregatorState =
  ag_kill_word :: u64
  ag_generation :: u64
  ag_kill_reset_mask :: u32
  ag_save_request :: u32
  ag_fill_ring_full_events :: u64
  ag_reset_request :: u32
  ag_reset_seq :: u32
  ag_kill_trip_request :: u32
  ag_kill_trip_fatal_seq :: u32
  ag_composer_tid :: u64
  ag_composer_identity_violations :: u32
  ag_composer_stop_request :: u32
  ag_applied_seq :: "u64 list"
  ag_publish :: "MoneySnapshot pslot"
  ag_fill_rings :: "FillEvent spsc_ring list"
  ag_drag_ring :: "DragCmd spsc_ring"
  ag_slot_notional :: "Money list"
  ag_pending_trade_net :: "Money list"

definition FILL_EVENT_RING_SIZE :: nat where "FILL_EVENT_RING_SIZE = 128"

definition KILLWORD_MASK_GLOBAL :: u64 where "KILLWORD_MASK_GLOBAL = push_bit 0 1"
definition KILLWORD_NODE_MASK :: "nat \<Rightarrow> u64" where "KILLWORD_NODE_MASK n = push_bit (16 + n) 1"

definition KILL_TRIP_SHIFT_GLOBAL :: nat where "KILL_TRIP_SHIFT_GLOBAL = 16"
definition KILL_TRIP_MASK_NODES :: u32 where "KILL_TRIP_MASK_NODES = 0x0000FFFF"
definition KILL_TRIP_MASK_GLOBAL :: u32 where "KILL_TRIP_MASK_GLOBAL = 0xFFFF0000"

datatype KillTripSite = KTS_WS_RING_FULL | KTS_REST_RING_FULL | KTS_PAPER_SYNTH_RING_FULL | KTS_BUCKET_OVERFLOW

definition KillTripSite_Name :: "nat \<Rightarrow> string" where
  "KillTripSite_Name site =
     (if site = 0 then ''WS_RING_FULL'' else if site = 1 then ''REST_RING_FULL''
      else if site = 2 then ''PAPER_SYNTH_RING_FULL'' else if site = 3 then ''BUCKET_OVERFLOW''
      else ''UNKNOWN_SITE'')"

definition kill_trip_site_code :: "KillTripSite \<Rightarrow> nat" where
  "kill_trip_site_code s = (case s of KTS_WS_RING_FULL \<Rightarrow> 0 | KTS_REST_RING_FULL \<Rightarrow> 1
     | KTS_PAPER_SYNTH_RING_FULL \<Rightarrow> 2 | KTS_BUCKET_OVERFLOW \<Rightarrow> 3)"

definition KILL_TRIP_LANE_NODE :: "nat \<Rightarrow> u32" where
  "KILL_TRIP_LANE_NODE n = push_bit (n mod 16) 1"

definition KILL_TRIP_LANE_GLOBAL :: "nat \<Rightarrow> u32" where
  "KILL_TRIP_LANE_GLOBAL site = push_bit (KILL_TRIP_SHIFT_GLOBAL + site mod 16) 1"

subsection \<open>The engine\<close>

record EngineState = OrderManagerState +
  el_nodes :: "NodeContext list"
  el_registered_count :: int
  el_total_events_processed :: u64
  el_total_entries :: u64
  el_total_exits :: u64
  el_partner_pending_bitmap :: u16
  el_agg :: AggregatorState
  el_global_gate_flags :: u16
  el_ws_last_tick_us :: u64

definition upd_node :: "nat \<Rightarrow> (NodeContext \<Rightarrow> NodeContext) \<Rightarrow> EngineState \<Rightarrow> EngineState" where
  "upd_node n f st = st\<lparr>el_nodes := (el_nodes st)[n := f (el_nodes st ! n)]\<rparr>"

definition node_at :: "EngineState \<Rightarrow> nat \<Rightarrow> NodeContext" where
  "node_at st n = el_nodes st ! n"

definition upd_agg :: "(AggregatorState \<Rightarrow> AggregatorState) \<Rightarrow> EngineState \<Rightarrow> EngineState" where
  "upd_agg f st = st\<lparr>el_agg := f (el_agg st)\<rparr>"

definition node_flag_is_set :: "NodeContext \<Rightarrow> u8 \<Rightarrow> bool" where
  "node_flag_is_set ctx m \<longleftrightarrow> nx_node_state_flags ctx AND m \<noteq> 0"

definition node_flag_set :: "u8 \<Rightarrow> NodeContext \<Rightarrow> NodeContext" where
  "node_flag_set m ctx = ctx\<lparr>nx_node_state_flags := BITMAP_SET (nx_node_state_flags ctx) m\<rparr>"

definition node_flag_clr :: "u8 \<Rightarrow> NodeContext \<Rightarrow> NodeContext" where
  "node_flag_clr m ctx = ctx\<lparr>nx_node_state_flags := BITMAP_CLR (nx_node_state_flags ctx) m\<rparr>"

text \<open>The loop bound \<^verbatim>\<open>n < state.registered_count && n < MAX_EXECUTION_NODES\<close>.\<close>

definition node_range :: "EngineState \<Rightarrow> nat list" where
  "node_range st = [0..<min (nat (el_registered_count st)) MAX_EXECUTION_NODES]"

subsection \<open>Slot geometry\<close>

definition Sharded_LegSlot :: "int \<Rightarrow> int \<Rightarrow> bool \<Rightarrow> int" where
  "Sharded_LegSlot node leg partial_exit_enabled =
     (if node < 0 then - 1
      else if \<not> partial_exit_enabled then (if leg = 0 then node else - 1)
      else if leg \<noteq> 0 \<and> leg \<noteq> 1 then - 1
      else let slot = node * 2 + leg in if int MAX_PORTFOLIO_POSITIONS \<le> slot then - 1 else slot)"

definition Sharded_NodeSlotMask :: "int \<Rightarrow> bool \<Rightarrow> u16" where
  "Sharded_NodeSlotMask node_id partial_exit_enabled =
     (if node_id < 0 \<or> int MAX_PORTFOLIO_POSITIONS \<le> node_id then 0
      else if partial_exit_enabled \<and> int MAX_PORTFOLIO_POSITIONS \<le> node_id * 2 + 1 then 0
      else BITMAP_NODE_SLOT_MASK (nat node_id) partial_exit_enabled)"

definition Sharded_SlotNode :: "int \<Rightarrow> bool \<Rightarrow> int" where
  "Sharded_SlotNode slot partial_exit_enabled = slot_node slot (of_bool partial_exit_enabled)"

subsection \<open>Registration and parameters\<close>

definition EventLoopState_RegisterCore ::
    "EngineState \<Rightarrow> ExecutionCore \<Rightarrow> Money \<Rightarrow> Money \<Rightarrow> Money \<Rightarrow> int \<times> EngineState" where
  "EventLoopState_RegisterCore st core intended_tp intended_sl intended_qty =
     (if int MAX_EXECUTION_NODES \<le> el_registered_count st then (- 1, st)
      else let slot = el_registered_count st;
               st = st\<lparr>el_registered_count := el_registered_count st + 1\<rparr>
           in (slot, upd_node (nat slot)
                 (\<lambda>x. x\<lparr>nx_core := Some (core\<lparr>ec_node_id := word_of_int slot\<rparr>), nx_intended_tp := intended_tp,
                        nx_intended_sl := intended_sl, nx_intended_qty := intended_qty,
                        nx_entries_processed := 0, nx_exits_processed := 0\<rparr>) st))"

definition EventLoopState_SetCoreStrategy :: "EngineState \<Rightarrow> int \<Rightarrow> u8 \<Rightarrow> Money \<Rightarrow> EngineState" where
  "EventLoopState_SetCoreStrategy st slot strategy_id allocated_balance =
     (if slot < 0 \<or> el_registered_count st \<le> slot \<or> int MAX_EXECUTION_NODES \<le> slot then st
      else upd_node (nat slot) (\<lambda>x. x\<lparr>nx_strategy_id := strategy_id, nx_resolved_strategy_id := strategy_id,
             nx_allocated_balance := allocated_balance\<rparr>) st)"

definition EventLoop_QueueParameters :: "EngineState \<Rightarrow> int \<Rightarrow> GateParameters \<Rightarrow> EngineState" where
  "EventLoop_QueueParameters st slot new_params =
     (if slot < 0 \<or> el_registered_count st \<le> slot then st
      else upd_node (nat slot) (\<lambda>x. node_flag_set NODE_STATE_DIRTY (x\<lparr>nx_pending_params := new_params\<rparr>)) st)"

definition push_parameters_node :: "u64 \<Rightarrow> nat \<Rightarrow> int \<times> EngineState \<Rightarrow> int \<times> EngineState" where
  "push_parameters_node publish_tick slot = (\<lambda>(pushed, st).
     let ctx = node_at st slot
     in if \<not> node_flag_is_set ctx NODE_STATE_DIRTY then (pushed, st)
        else case nx_core ctx of
               None \<Rightarrow> (pushed, upd_node slot (node_flag_clr NODE_STATE_DIRTY) st)
             | Some core \<Rightarrow>
                 (pushed + 1,
                  upd_node slot (\<lambda>x. node_flag_clr NODE_STATE_DIRTY
                    (x\<lparr>nx_core := Some (ExecutionCore_SetParameters core (nx_pending_params x) publish_tick)\<rparr>)) st))"

definition EventLoop_PushParameters :: "EngineState \<Rightarrow> u64 \<Rightarrow> int \<times> EngineState" where
  "EventLoop_PushParameters st publish_tick =
     fold (push_parameters_node publish_tick) [0..<nat (el_registered_count st)] (0, st)"

subsection \<open>The global kill switch\<close>

definition EventLoopState_ConfigureKillSwitch :: "EngineState \<Rightarrow> Money \<Rightarrow> Money \<Rightarrow> EngineState" where
  "EventLoopState_ConfigureKillSwitch st min_balance max_drawdown_pct =
     st\<lparr>om_ks_min_balance := min_balance, om_ks_max_drawdown_pct := max_drawdown_pct\<rparr>"

definition EventLoop_ClearAllPermissions :: "EngineState \<Rightarrow> EngineState" where
  "EventLoop_ClearAllPermissions st =
     fold (\<lambda>slot. upd_node slot (\<lambda>x. x\<lparr>nx_core := map_option (\<lambda>c. ExecutionCore_SetPermission c 0) (nx_core x)\<rparr>))
       [0..<nat (el_registered_count st)] st"

definition EventLoop_KillSwitchTrip :: "EngineState \<Rightarrow> EngineState" where
  "EventLoop_KillSwitchTrip st =
     (let st = (if \<not> BITMAP_IS_SET (om_oms_state_flags st) MASK_OMS_STATE_KILL_SWITCH_TRIPPED
                then st\<lparr>om_oms_state_flags := BITMAP_SET (om_oms_state_flags st) MASK_OMS_STATE_KILL_SWITCH_TRIPPED,
                        om_ks_trips_total := om_ks_trips_total st + 1\<rparr>
                else st)
      in EventLoop_ClearAllPermissions st)"

definition ks_should_trip :: "'a oms \<Rightarrow> bool" where
  "ks_should_trip oms =
     (let floor_trip = (\<not> Money_IsZero (om_ks_min_balance oms) \<and> Money_Lt (om_balance oms) (om_ks_min_balance oms));
          drop_amt = Money_Sub (om_ks_peak_balance oms) (om_balance oms);
          dd_trip = (\<not> Money_IsZero (om_ks_max_drawdown_pct oms) \<and> \<not> Money_IsZero (om_ks_peak_balance oms)
             \<and> Money_Gt drop_amt Money_Zero
             \<and> Money_Gt (Money_Div drop_amt (om_ks_peak_balance oms)) (om_ks_max_drawdown_pct oms))
      in floor_trip \<or> dd_trip)"

definition EventLoop_KillSwitchEvaluate :: "EngineState \<Rightarrow> bool \<times> EngineState" where
  "EventLoop_KillSwitchEvaluate st =
     (if BITMAP_IS_SET (om_oms_state_flags st) MASK_OMS_STATE_KILL_SWITCH_TRIPPED then (False, st)
      else if \<not> ks_should_trip st then (False, st)
      else (True, EventLoop_ClearAllPermissions
        (st\<lparr>om_oms_state_flags := BITMAP_SET (om_oms_state_flags st) MASK_OMS_STATE_KILL_SWITCH_TRIPPED,
            om_ks_trips_total := om_ks_trips_total st + 1\<rparr>)))"

end
