(* ===== verification/Composer.thy ===== *)
theory Composer
  imports Engine_State
begin

text \<open>
  The composer of \<^verbatim>\<open>src/CoreFrameworks/EngineCommon.hpp\<close>: the single writer of the account and of the
  node rows.  Fill events reach it through one ring per node; each compose applies them, serves the
  kill-reset, kill-trip and drag requests, evaluates the drawdown kills, publishes the kill word
  and the money snapshot.  The second half is the drain of the cores' trade events into
  submit commands.  The trade log and the calibration file are taken as detached, notifications and prints
  are left out, and a requested snapshot save only clears its request.
\<close>

unbundle bit_operations_syntax

subsection \<open>Configuration read by the composer\<close>

record EngineNodeCfg = PerNodeCfg +
  nc_max_drawdown_pct :: Money
  nc_partial_exit_pct :: Money
  nc_tp2_mult :: Money
  nc_take_profit_pct :: Money
  nc_simpledip_tp_pct :: Money
  nc_mr_tp_pct :: Money
  nc_max_hold_ticks :: u32
  nc_fee_rate :: Money

record NodeOverride =
  ov_partial_exit_pct :: Money
  ov_tp2_mult :: Money

record ControllerConfig =
  cc_nodes :: "EngineNodeCfg list"
  cc_node_overrides :: "NodeOverride list"
  cc_max_drawdown_pct :: Money
  cc_min_kill_loss :: Money
  cc_mtm_kill_switch_enabled :: bool
  cc_pay_fees_in_bnb :: bool
  cc_node_time_exit_ticks :: "u32 list"
  cc_min_hold_gain_pct :: Money
  cc_lazy_rebuild_enabled :: bool
  cc_ws_dead_time_flatten_enabled :: bool
  cc_breakeven_on_profit :: bool
  cc_ws_dead_time_flatten_threshold_secs :: int
  cc_recovery_delay_secs :: int
  cc_min_warmup_samples :: u32
  cc_kill_switch_enabled :: bool
  cc_kill_switch_drawdown_pct :: Money
  cc_starting_balance :: Money
  cc_node_strategies :: "u8 list"

definition EngineCommon_ApplyBnbDiscount :: "ControllerConfig \<Rightarrow> ControllerConfig" where
  "EngineCommon_ApplyBnbDiscount cfg =
     (if cc_pay_fees_in_bnb cfg
      then let bnb_factor = Money 75000000
           in cfg\<lparr>cc_nodes := map (\<lambda>c. c\<lparr>nc_fee_rate_maker := Money_Mul (nc_fee_rate_maker c) bnb_factor,
                                          nc_fee_rate_taker := Money_Mul (nc_fee_rate_taker c) bnb_factor\<rparr>)
                            (cc_nodes cfg)\<rparr>
      else cfg)"

subsection \<open>Seeding and identity\<close>

definition AggregatorState_Seed :: "AggregatorState \<Rightarrow> Portfolio \<Rightarrow> AggregatorState" where
  "AggregatorState_Seed agg pf =
     agg\<lparr>ag_slot_notional := map (\<lambda>s. if drop_bit s (pf_active_bitmap pf) AND 1 \<noteq> 0
           then Money_Mul (p_entry_price (pf_positions pf ! s)) (p_quantity (pf_positions pf ! s)) else Money_Zero)
           [0..<MAX_PORTFOLIO_POSITIONS],
         ag_pending_trade_net := replicate MAX_PORTFOLIO_POSITIONS Money_Zero\<rparr>"

definition AggregatorState_BindComposer :: "u64 \<Rightarrow> AggregatorState \<Rightarrow> AggregatorState" where
  "AggregatorState_BindComposer self agg = agg\<lparr>ag_composer_tid := self\<rparr>"

definition Composer_AssertIdentity :: "u64 \<Rightarrow> AggregatorState \<Rightarrow> bool \<times> AggregatorState" where
  "Composer_AssertIdentity self agg =
     (if ag_composer_tid agg = 0 then (True, agg)
      else if ag_composer_tid agg = self then (True, agg)
      else (False, agg\<lparr>ag_composer_identity_violations := ag_composer_identity_violations agg + 1\<rparr>))"

subsection \<open>Node rows\<close>

definition book_trade_result :: "int \<Rightarrow> Money \<Rightarrow> EngineState \<Rightarrow> EngineState" where
  "book_trade_result node trade_net st =
     (let n = nat node; node_bit = BITMAP_BIT n;
          win = (\<lambda>v x. x\<lparr>nx_node_wins := nx_node_wins x + 1, nx_node_gross_wins := Money_Add (nx_node_gross_wins x) v\<rparr>);
          loss = (\<lambda>v x. x\<lparr>nx_node_losses := nx_node_losses x + 1,
                          nx_node_gross_losses := Money_Add (nx_node_gross_losses x) (Money_Negate v)\<rparr>)
      in if oms_partial_on st \<noteq> 0
         then if BITMAP_IS_SET (el_partner_pending_bitmap st) node_bit
              then let total_net = Money_Add (nx_partner_pending_pnl (node_at st n)) trade_net;
                       st = upd_node n (if Money_Gt total_net Money_Zero then win total_net else loss total_net) st;
                       st = upd_node n (\<lambda>x. x\<lparr>nx_partner_pending_pnl := Money_Zero\<rparr>) st
                   in st\<lparr>el_partner_pending_bitmap := BITMAP_CLR (el_partner_pending_bitmap st) node_bit\<rparr>
              else (upd_node n (\<lambda>x. x\<lparr>nx_partner_pending_pnl := trade_net\<rparr>) st)
                     \<lparr>el_partner_pending_bitmap := BITMAP_SET (el_partner_pending_bitmap st) node_bit\<rparr>
         else upd_node n (if Money_Gt trade_net Money_Zero then win trade_net else loss trade_net) st)"

definition EngineCommon_NodeRowsBook :: "EngineState \<Rightarrow> FillEvent \<Rightarrow> EngineState" where
  "EngineCommon_NodeRowsBook st fe =
     (let n = nat (fe_node fe); slot = nat (fe_slot fe)
      in if \<not> fe_is_sell fe
         then let st = upd_agg (\<lambda>a. a\<lparr>ag_slot_notional := (ag_slot_notional a)
                         [slot := Money_Add (ag_slot_notional a ! slot) (fe_notional fe)]\<rparr>) st;
                  st = upd_node n (\<lambda>x. x\<lparr>nx_node_open_notional := Money_Add (nx_node_open_notional x) (fe_notional fe),
                                         nx_entries_processed := nx_entries_processed x + 1\<rparr>) st
              in st\<lparr>el_total_entries := el_total_entries st + 1,
                    el_total_events_processed := el_total_events_processed st + 1\<rparr>
         else let relief = (if fe_slot_flat fe then ag_slot_notional (el_agg st) ! slot else fe_notional fe);
                  st = upd_node n (\<lambda>x. x\<lparr>nx_node_realized := Money_Add (nx_node_realized x) (fe_net fe),
                         nx_node_fees := Money_Add (nx_node_fees x) (Money_Add (fe_entry_fee_leg fe) (fe_fee fe)),
                         nx_node_open_notional := Money_Sub (nx_node_open_notional x) relief,
                         nx_exits_processed := nx_exits_processed x + 1\<rparr>) st;
                  st = upd_agg (\<lambda>a. a\<lparr>ag_slot_notional := (ag_slot_notional a)
                         [slot := Money_Sub (ag_slot_notional a ! slot) relief]\<rparr>) st;
                  st = st\<lparr>el_total_exits := el_total_exits st + 1,
                          el_total_events_processed := el_total_events_processed st + 1\<rparr>;
                  st = upd_agg (\<lambda>a. a\<lparr>ag_pending_trade_net := (ag_pending_trade_net a)
                         [slot := Money_Add (ag_pending_trade_net a ! slot) (fe_net fe)]\<rparr>) st
              in if fe_slot_flat fe
                 then let trade_net = ag_pending_trade_net (el_agg st) ! slot
                      in book_trade_result (fe_node fe) trade_net
                           (upd_agg (\<lambda>a. a\<lparr>ag_pending_trade_net := (ag_pending_trade_net a)[slot := Money_Zero]\<rparr>) st)
                 else st)"

subsection \<open>Applying the fill rings\<close>

definition apply_fill :: "nat \<Rightarrow> FillEvent \<Rightarrow> EngineState \<Rightarrow> EngineState" where
  "apply_fill n fe st =
     (let st = OrderManager_LedgerApplyFill st fe;
          st = EngineCommon_NodeRowsBook st fe
      in upd_agg (\<lambda>a. a\<lparr>ag_applied_seq := (ag_applied_seq a)[n := fe_seq fe]\<rparr>) st)"

text \<open>The inner loop of one node; a ring of \<open>N\<close> slots is empty after \<open>N\<close> pops.\<close>

fun drain_fill_ring :: "nat \<Rightarrow> nat \<Rightarrow> nat \<times> EngineState \<Rightarrow> nat \<times> EngineState" where
  "drain_fill_ring 0 n st = st"
| "drain_fill_ring (Suc fuel) n (applied, st) =
     (let (m, r) = SPSCRing_TryPop (ag_fill_rings (el_agg st) ! n);
          st = upd_agg (\<lambda>a. a\<lparr>ag_fill_rings := (ag_fill_rings a)[n := r]\<rparr>) st
      in case m of None \<Rightarrow> (applied, st)
         | Some fe \<Rightarrow> drain_fill_ring fuel n (applied + 1, apply_fill n fe st))"

definition EngineCommon_FillRingsApply :: "(unit EngineState_ext) oms_env \<Rightarrow> EngineState \<Rightarrow> nat \<times> EngineState" where
  "EngineCommon_FillRingsApply env st =
     (let (applied, st) = fold (\<lambda>n st. drain_fill_ring (ring_N (ag_fill_rings (el_agg (snd st)) ! n) + 1) n st)
            [0..<MAX_EXECUTION_NODES] (0, st)
      in (applied, snd (OMS_EventFunnelDrain env st)))"

definition EngineCommon_FillEmit :: "(unit EngineState_ext) oms_env \<Rightarrow> EngineState \<Rightarrow> FillEvent \<Rightarrow> bool \<times> EngineState" where
  "EngineCommon_FillEmit env st fe =
     (let n = nat (fe_node fe);
          (ok, r) = SPSCRing_TryPush (ag_fill_rings (el_agg st) ! n) fe;
          st = upd_agg (\<lambda>a. a\<lparr>ag_fill_rings := (ag_fill_rings a)[n := r]\<rparr>) st
      in if ok then (True, st)
         else let st = upd_agg (\<lambda>a. a\<lparr>ag_fill_ring_full_events := ag_fill_ring_full_events a + 1\<rparr>) st;
                  st = snd (EngineCommon_FillRingsApply env st);
                  (ok, r) = SPSCRing_TryPush (ag_fill_rings (el_agg st) ! n) fe
              in (ok, upd_agg (\<lambda>a. a\<lparr>ag_fill_rings := (ag_fill_rings a)[n := r]\<rparr>) st))"

definition EngineCommon_FillEmitSink :: "(unit EngineState_ext) oms_env \<Rightarrow> EngineState \<Rightarrow> FillEvent \<Rightarrow> EngineState" where
  "EngineCommon_FillEmitSink env st fe = snd (EngineCommon_FillEmit env st fe)"

text \<open>The environment with the sink pointer the engine installs at boot.\<close>

definition wired :: "(unit EngineState_ext) oms_env \<Rightarrow> (unit EngineState_ext) oms_env" where
  "wired env = env\<lparr>env_emit := EngineCommon_FillEmitSink env\<rparr>"

subsection \<open>Requests\<close>

definition serve_kill_reset :: "EngineState \<Rightarrow> EngineState" where
  "serve_kill_reset st =
     (let rm = ag_kill_reset_mask (el_agg st);
          st = upd_agg (\<lambda>a. a\<lparr>ag_kill_reset_mask := 0\<rparr>) st
      in bitmap_fold (\<lambda>c. upd_node c (\<lambda>x. (node_flag_clr NODE_STATE_KILL_TRIPPED x)
             \<lparr>nx_node_peak_balance := Money_Zero, nx_node_dd_pct := Money_Zero,
              nx_drift_state_flags := BITMAP_CLR (nx_drift_state_flags x) MASK_DRIFT_KILL_TRIPPED\<rparr>)) rm st)"

definition trip_node :: "NodeContext \<Rightarrow> NodeContext" where
  "trip_node x = (node_flag_set NODE_STATE_KILL_TRIPPED x)\<lparr>nx_node_ks_trips_total := nx_node_ks_trips_total x + 1\<rparr>"

definition serve_node_trip :: "nat \<Rightarrow> EngineState \<Rightarrow> EngineState" where
  "serve_node_trip c st =
     (if el_registered_count st \<le> int c \<or> MAX_EXECUTION_NODES \<le> c then st
      else if node_flag_is_set (node_at st c) NODE_STATE_KILL_TRIPPED then st
      else upd_node c trip_node st)"

definition fatal_marker :: "u32 \<Rightarrow> nat \<Rightarrow> OrderEvent" where
  "fatal_marker fatal_seq site =
     event_zero\<lparr>ev_type := OEVT_RING_FULL_FATAL, ev_order_type := order_type_byte ORDER_MARKET_BUY, ev_node_id := - 1,
       ev_qty := Money_FromInt (ucast fatal_seq), ev_reason := c_copy 31 (''FATAL:'' @ KillTripSite_Name site)\<rparr>"

definition serve_global_trip :: "(unit EngineState_ext) oms_env \<Rightarrow> nat \<Rightarrow> EngineState \<Rightarrow> EngineState" where
  "serve_global_trip env site st =
     (let st = upd_agg (\<lambda>a. a\<lparr>ag_kill_trip_fatal_seq := ag_kill_trip_fatal_seq a + 1\<rparr>) st;
          st = EventLoop_KillSwitchTrip st
      in if oms_event_log_on st
         then st\<lparr>om_event_log := env_append env (om_event_log st) (fatal_marker (ag_kill_trip_fatal_seq (el_agg st)) site)\<rparr>
         else st)"

definition serve_kill_trips :: "(unit EngineState_ext) oms_env \<Rightarrow> EngineState \<Rightarrow> EngineState" where
  "serve_kill_trips env st =
     (let tr = ag_kill_trip_request (el_agg st);
          st = upd_agg (\<lambda>a. a\<lparr>ag_kill_trip_request := 0\<rparr>) st;
          st = bitmap_fold serve_node_trip (tr AND KILL_TRIP_MASK_NODES) st
      in bitmap_fold (serve_global_trip env) (drop_bit KILL_TRIP_SHIFT_GLOBAL (tr AND KILL_TRIP_MASK_GLOBAL)) st)"

definition apply_drag :: "DragCmd \<Rightarrow> EngineState \<Rightarrow> EngineState" where
  "apply_drag dc st =
     (let ps = dc_slot dc
      in if 0 \<le> ps \<and> ps < int MAX_PORTFOLIO_POSITIONS \<and> pf_active_bitmap (om_portfolio st) AND push_bit (nat ps) 1 \<noteq> 0
         then st\<lparr>om_portfolio := upd_pos (om_portfolio st) (nat ps)
                (\<lambda>p. if dc_is_tp dc then p\<lparr>p_take_profit_price := dc_price dc\<rparr> else p\<lparr>p_stop_loss_price := dc_price dc\<rparr>)\<rparr>
         else st)"

text \<open>The GUI is the only producer of the drag ring; one pass of ring size plus one pops empties it.\<close>

fun drain_drags :: "nat \<Rightarrow> EngineState \<Rightarrow> EngineState" where
  "drain_drags 0 st = st"
| "drain_drags (Suc fuel) st =
     (let (m, r) = SPSCRing_TryPop (ag_drag_ring (el_agg st));
          st = upd_agg (\<lambda>a. a\<lparr>ag_drag_ring := r\<rparr>) st
      in case m of None \<Rightarrow> st | Some dc \<Rightarrow> drain_drags fuel (apply_drag dc st))"

subsection \<open>Node drawdown\<close>

definition node_unrealized :: "EngineState \<Rightarrow> nat \<Rightarrow> Money \<Rightarrow> Money" where
  "node_unrealized st n current_price =
     (let msk = Sharded_NodeSlotMask (int n) (oms_partial_on st \<noteq> 0)
      in bitmap_fold (\<lambda>ps u. let pos = pf_positions (om_portfolio st) ! ps
           in Money_Add u (Money_FillGross (p_entry_price pos) current_price (p_quantity pos)))
         (pf_active_bitmap (om_portfolio st) AND msk) Money_Zero)"

definition node_drawdown :: "ControllerConfig \<Rightarrow> nat \<Rightarrow> Money \<Rightarrow> NodeContext \<Rightarrow> NodeContext" where
  "node_drawdown cfg n unrealized x =
     (let alloc = nx_allocated_balance x;
          current_value = Money_Add alloc (Money_Add (nx_node_realized x) unrealized);
          peak = (if Money_IsZero (nx_node_peak_balance x) then alloc else nx_node_peak_balance x);
          peak = Money_Max peak current_value;
          drop_amt = Money_Sub peak current_value;
          dd = (if Money_Gt drop_amt Money_Zero \<and> Money_Gt peak Money_Zero then Money_Div drop_amt peak else Money_Zero);
          x = x\<lparr>nx_node_unrealized_view := unrealized, nx_node_peak_balance := peak, nx_node_dd_pct := dd\<rparr>
      in if node_flag_is_set x NODE_STATE_KILL_TRIPPED then x
         else let nc = cc_nodes cfg ! n;
                  threshold = (if \<not> Money_IsZero (nc_max_drawdown_pct nc) then nc_max_drawdown_pct nc
                               else cc_max_drawdown_pct cfg)
              in if Money_Gt dd threshold \<and> Money_Gt drop_amt (cc_min_kill_loss cfg) then trip_node x else x)"

definition eval_nodes :: "ControllerConfig \<Rightarrow> Money \<Rightarrow> EngineState \<Rightarrow> EngineState" where
  "eval_nodes cfg current_price st =
     (let mtm_on = (cc_mtm_kill_switch_enabled cfg \<and> \<not> Money_IsZero current_price)
      in fold (\<lambda>n st. let unrealized = (if mtm_on then node_unrealized st n current_price else Money_Zero)
                      in upd_node n (node_drawdown cfg n unrealized) st) (node_range st) st)"

subsection \<open>The published view\<close>

definition kill_word_of :: "EngineState \<Rightarrow> u64" where
  "kill_word_of st =
     fold (\<lambda>n kw. if node_flag_is_set (node_at st n) NODE_STATE_KILL_TRIPPED then kw OR KILLWORD_NODE_MASK n else kw)
       (node_range st)
       (if BITMAP_IS_SET (om_oms_state_flags st) MASK_OMS_STATE_KILL_SWITCH_TRIPPED then KILLWORD_MASK_GLOBAL else 0)"

definition node_row :: "NodeContext \<Rightarrow> MoneySnapshotNodeRow" where
  "node_row x = \<lparr>mr_alloc = nx_allocated_balance x, mr_realized = nx_node_realized x, mr_fees = nx_node_fees x,
     mr_peak = nx_node_peak_balance x, mr_dd = nx_node_dd_pct x, mr_unrealized = nx_node_unrealized_view x\<rparr>"

definition money_pack :: "EngineState \<Rightarrow> u64 \<Rightarrow> MoneySnapshot" where
  "money_pack st kw =
     \<lparr>ms_generation = ag_generation (el_agg st), ms_kill_word_copy = kw, ms_balance = om_balance st,
      ms_realized = om_realized_pnl st, ms_ks_peak = om_ks_peak_balance st,
      ms_rows = map (\<lambda>n. node_row (node_at st n)) [0..<MAX_EXECUTION_NODES],
      ms_expected_free = OMS_ExpectedFreeCash st, ms_total_fees = om_total_fees st,
      ms_total_maker_fees = om_total_maker_fees st, ms_total_taker_fees = om_total_taker_fees st\<rparr>"

definition publish_view :: "u64 \<Rightarrow> EngineState \<Rightarrow> EngineState" where
  "publish_view publish_tick st =
     (let kw = kill_word_of st;
          st = upd_agg (\<lambda>a. a\<lparr>ag_kill_word := kw, ag_generation := ag_generation a + 1\<rparr>) st
      in upd_agg (\<lambda>a. a\<lparr>ag_publish := ParameterSlot_Write (ag_publish a) (money_pack st kw) publish_tick\<rparr>) st)"

definition EngineCommon_ComposeAndKillEval ::
    "(unit EngineState_ext) oms_env \<Rightarrow> u64 \<Rightarrow> ControllerConfig \<Rightarrow> Money \<Rightarrow> u64 \<Rightarrow> EngineState \<Rightarrow> EngineState" where
  "EngineCommon_ComposeAndKillEval env self cfg current_price publish_tick st =
     (let st = upd_agg (\<lambda>a. snd (Composer_AssertIdentity self a)) st;
          st = snd (EngineCommon_FillRingsApply env st);
          st = serve_kill_reset st;
          st = serve_kill_trips env st;
          st = drain_drags (ring_N (ag_drag_ring (el_agg st)) + 1) st;
          st = eval_nodes cfg current_price st;
          st = snd (EventLoop_KillSwitchEvaluate st);
          st = publish_view publish_tick st
      in upd_agg (\<lambda>a. a\<lparr>ag_save_request := 0\<rparr>) st)"

subsection \<open>From trade events to submit commands\<close>

definition STRATEGY_MEAN_REVERSION :: u8 where "STRATEGY_MEAN_REVERSION = 0"
definition STRATEGY_SIMPLE_DIP :: u8 where "STRATEGY_SIMPLE_DIP = 2"
definition STRATEGY_ML :: u8 where "STRATEGY_ML = 3"

definition ResolvePerFillTpPct :: "u8 \<Rightarrow> EngineNodeCfg \<Rightarrow> Money" where
  "ResolvePerFillTpPct strategy_id cfg =
     (if strategy_id = STRATEGY_SIMPLE_DIP
      then (if \<not> Money_IsZero (nc_simpledip_tp_pct cfg) then nc_simpledip_tp_pct cfg else nc_take_profit_pct cfg)
      else if strategy_id = STRATEGY_MEAN_REVERSION
      then (if \<not> Money_IsZero (nc_mr_tp_pct cfg) then nc_mr_tp_pct cfg else nc_take_profit_pct cfg)
      else nc_take_profit_pct cfg)"

definition tp2_mult_of :: "ControllerConfig \<Rightarrow> nat \<Rightarrow> Money" where
  "tp2_mult_of cfg n =
     (let ov = ov_tp2_mult (cc_node_overrides cfg ! n)
      in if \<not> Money_IsZero ov then ov else nc_tp2_mult (cc_nodes cfg ! n))"

definition entry_qty :: "ControllerConfig \<Rightarrow> nat \<Rightarrow> bool \<Rightarrow> u8 \<Rightarrow> Money \<Rightarrow> Money" where
  "entry_qty cfg n partial_on leg intended =
     (let ov = ov_partial_exit_pct (cc_node_overrides cfg ! n);
          partial_pct = (if \<not> Money_IsZero ov then ov else nc_partial_exit_pct (cc_nodes cfg ! n));
          leg_a = Money_Mul intended partial_pct
      in if partial_on \<and> leg = PARTIAL_LEG_A then leg_a
         else if partial_on \<and> leg = PARTIAL_LEG_B then Money_Sub intended leg_a
         else intended)"

definition drain_order_qty :: "ControllerConfig \<Rightarrow> nat \<Rightarrow> nat \<Rightarrow> TradeEvent \<Rightarrow> EngineState \<Rightarrow> Money" where
  "drain_order_qty cfg n pslot event st =
     (if te_type event AND TRADE_EVENT_EXIT \<noteq> 0 then p_quantity (pf_positions (om_portfolio st) ! pslot)
      else if te_type event AND TRADE_EVENT_ENTRY \<noteq> 0
      then entry_qty cfg n (oms_partial_on st \<noteq> 0) (te_leg event) (nx_intended_qty (node_at st n))
      else Money_Zero)"

definition drain_command :: "ControllerConfig \<Rightarrow> nat \<Rightarrow> int \<Rightarrow> Money \<Rightarrow> TradeEvent \<Rightarrow> EngineState \<Rightarrow> SubmitCommand" where
  "drain_command cfg n pslot order_qty event st =
     (let ctx = node_at st n;
          is_entry = (te_type event AND TRADE_EVENT_ENTRY \<noteq> 0);
          leg_b = (oms_partial_on st \<noteq> 0 \<and> te_leg event = PARTIAL_LEG_B);
          leg_tp = nx_intended_tp ctx;
          leg_tp = (if is_entry \<and> leg_b
                    then Money_Add (te_price event) (Money_Mul (Money_Sub leg_tp (te_price event)) (tp2_mult_of cfg n))
                    else leg_tp);
          tp_pct_eff = ResolvePerFillTpPct (nx_resolved_strategy_id ctx) (cc_nodes cfg ! n);
          tp_pct_eff = (if leg_b then Money_Mul tp_pct_eff (tp2_mult_of cfg n) else tp_pct_eff);
          cmd = SubmitCommand_make pslot (if is_entry then ORDER_MARKET_BUY else ORDER_MARKET_SELL) order_qty
                  (te_leg event) (Some (PerNodeCfg.truncate (cc_nodes cfg ! n)))
      in cmd\<lparr>sc_intended_tp := leg_tp, sc_intended_sl := nx_intended_sl ctx,
             sc_strategy_id := nx_resolved_strategy_id ctx, sc_event_price := te_price event,
             sc_tp_pct := (if is_entry then tp_pct_eff else sc_tp_pct cmd)\<rparr>)"

definition note_entry :: "u64 \<Rightarrow> u64 \<Rightarrow> TradeEvent \<Rightarrow> NodeContext \<Rightarrow> NodeContext" where
  "note_entry now_tick wall_us event x =
     (let entry_a = (te_type event AND TRADE_EVENT_ENTRY \<noteq> 0 \<and> te_leg event = PARTIAL_LEG_A);
          x = (if entry_a \<and> nx_resolved_strategy_id x = STRATEGY_ML
               then x\<lparr>nx_active_prediction := nx_staged_prediction x\<rparr> else x)
      in if entry_a then x\<lparr>nx_last_entry_price := te_price event, nx_last_entry_tick := now_tick,
                           nx_last_entry_wall_us := wall_us\<rparr> else x)"

definition drain_event ::
    "u64 \<Rightarrow> u64 \<Rightarrow> ControllerConfig \<Rightarrow> nat \<Rightarrow> TradeEvent \<Rightarrow> nat \<times> EngineState \<Rightarrow> nat \<times> EngineState" where
  "drain_event now_tick wall_us cfg n event = (\<lambda>(total_drained, st).
     let pslot = Sharded_LegSlot (int n) (uint (te_leg event)) (oms_partial_on st \<noteq> 0)
     in if pslot < 0 then (total_drained, st)
        else let order_qty = drain_order_qty cfg n (nat pslot) event st;
                 st = (if te_type event AND (TRADE_EVENT_ENTRY OR TRADE_EVENT_EXIT) \<noteq> 0 \<and> Money_Gt order_qty Money_Zero
                       then upd_node n (note_entry now_tick wall_us event)
                              (snd (OMS_PushSubmit st (drain_command cfg n pslot order_qty event st)))
                       else st)
             in (total_drained + 1, st))"

definition MAX_EVENTS_PER_DRAIN_PER_NODE :: nat where "MAX_EVENTS_PER_DRAIN_PER_NODE = 16"

text \<open>At most \<open>k\<close> events of node \<open>n\<close>; an empty ring ends the node's turn.\<close>

fun drain_node :: "nat \<Rightarrow> u64 \<Rightarrow> u64 \<Rightarrow> ControllerConfig \<Rightarrow> nat \<Rightarrow> nat \<times> EngineState \<Rightarrow> nat \<times> EngineState" where
  "drain_node 0 now_tick wall_us cfg n st = st"
| "drain_node (Suc k) now_tick wall_us cfg n (total_drained, st) =
     (case nx_core (node_at st n) of
        None \<Rightarrow> (total_drained, st)
      | Some core \<Rightarrow>
          let (m, r) = SPSCRing_TryPop (ec_event_ring core);
              st = upd_node n (\<lambda>x. x\<lparr>nx_core := Some (core\<lparr>ec_event_ring := r\<rparr>)\<rparr>) st
          in case m of None \<Rightarrow> (total_drained, st)
             | Some event \<Rightarrow> drain_node k now_tick wall_us cfg n (drain_event now_tick wall_us cfg n event (total_drained, st)))"

definition EngineCommon_DrainEventsAndSubmit ::
    "EngineState \<Rightarrow> u64 \<Rightarrow> u64 \<Rightarrow> ControllerConfig \<Rightarrow> nat \<times> EngineState" where
  "EngineCommon_DrainEventsAndSubmit st now_tick wall_us cfg =
     fold (drain_node MAX_EVENTS_PER_DRAIN_PER_NODE now_tick wall_us cfg) [0..<nat (el_registered_count st)] (0, st)"

end
