(* ===== verification/Engine_Frame.thy ===== *)
theory Engine_Frame
  imports Composer
begin

text \<open>What the engine's operations leave alone, and the engine's fill sink as a provider of the order
  manager's interface.\<close>

unbundle bit_operations_syntax

subsection \<open>The part of the state no fill touches\<close>

definition engine_frame ::
  "EngineState \<Rightarrow> (Order list \<times> u16) \<times> Portfolio \<times> u8 \<times> bool \<times>
     (Command spsc_ring list \<times> Command spsc_ring \<times> Command spsc_ring \<times> SubmitCommand spsc_ring list)" where
  "engine_frame st = (oms_table st, om_portfolio st, om_oms_state_flags st, om_agg_attached st, oms_queues st)"

lemma frame_upd [simp]:
  "engine_frame (upd_node n f st) = engine_frame st" "engine_frame (upd_agg g st) = engine_frame st"
  "engine_frame (OrderManager_LedgerApplyFill st fe) = engine_frame st"
  "engine_frame (st\<lparr>el_total_entries := a\<rparr>) = engine_frame st"
  "engine_frame (st\<lparr>el_total_exits := b\<rparr>) = engine_frame st"
  "engine_frame (st\<lparr>el_total_events_processed := c\<rparr>) = engine_frame st"
  "engine_frame (st\<lparr>el_partner_pending_bitmap := d\<rparr>) = engine_frame st"
  by (simp_all add: engine_frame_def upd_node_def upd_agg_def oms_table_def oms_queues_def
      OrderManager_LedgerApplyFill_def OrderManager_AccountMakerTakerFee_def Let_def)

lemma frame_totals [simp]:
  "engine_frame (st\<lparr>el_total_events_processed := c, el_total_entries := a\<rparr>) = engine_frame st"
  "engine_frame (st\<lparr>el_total_events_processed := c, el_total_exits := a\<rparr>) = engine_frame st"
  by (simp_all add: engine_frame_def oms_table_def oms_queues_def)

lemma frame_trade_result [simp]: "engine_frame (book_trade_result n v st) = engine_frame st"
  unfolding book_trade_result_def Let_def by (simp split del: if_split) simp

lemma frame_rows [simp]: "engine_frame (EngineCommon_NodeRowsBook st fe) = engine_frame st"
  by (simp add: EngineCommon_NodeRowsBook_def Let_def)

lemma frame_apply [simp]: "engine_frame (apply_fill n fe st) = engine_frame st"
  by (simp add: apply_fill_def Let_def)

lemma frame_drain: "engine_frame (snd (drain_fill_ring fuel n st)) = engine_frame (snd st)"
proof (induction fuel n st rule: drain_fill_ring.induct)
  case (2 fuel n applied st)
  then show ?case by (simp add: Let_def split: prod.splits option.splits)
qed simp

lemma frame_drains:
  "engine_frame (snd (fold (\<lambda>n st. drain_fill_ring (f n st) n st) ns p)) = engine_frame (snd p)"
  by (induction ns arbitrary: p) (simp_all add: frame_drain)

lemma frame_events: "same_but_events a b \<Longrightarrow> engine_frame b = engine_frame a"
proof -
  assume "same_but_events a b"
  then have "engine_frame (without_events b) = engine_frame (without_events a)" by (simp add: same_but_events_def)
  then show ?thesis by (simp add: engine_frame_def without_events_def oms_table_def oms_queues_def)
qed

lemma frame_funnel [simp]: "engine_frame (snd (OMS_EventFunnelDrain env st)) = engine_frame st"
  by (rule frame_events) (rule funnel_drain_same, simp)

definition drained_rings :: "EngineState \<Rightarrow> nat \<times> EngineState" where
  "drained_rings st = fold (\<lambda>n st. drain_fill_ring (ring_N (ag_fill_rings (el_agg (snd st)) ! n) + 1) n st)
     [0..<MAX_EXECUTION_NODES] (0, st)"

lemma fill_rings_apply_eq:
  "EngineCommon_FillRingsApply env st =
     (fst (drained_rings st), snd (OMS_EventFunnelDrain env (snd (drained_rings st))))"
  unfolding EngineCommon_FillRingsApply_def drained_rings_def Let_def split_def ..

lemma frame_rings_apply [simp]: "engine_frame (snd (EngineCommon_FillRingsApply env st)) = engine_frame st"
proof -
  have "engine_frame (snd (drained_rings st)) = engine_frame (snd (0 :: nat, st))"
    unfolding drained_rings_def by (rule frame_drains)
  then show ?thesis by (simp add: fill_rings_apply_eq)
qed

lemma frame_emit [simp]: "engine_frame (EngineCommon_FillEmitSink env st fe) = engine_frame st"
  by (simp add: EngineCommon_FillEmitSink_def EngineCommon_FillEmit_def Let_def split_def)

lemma frame_parts:
  assumes "engine_frame a = engine_frame b"
  shows "om_orders a = om_orders b" "om_order_bitmap a = om_order_bitmap b" "om_portfolio a = om_portfolio b"
    "om_oms_state_flags a = om_oms_state_flags b" "om_agg_attached a = om_agg_attached b" "oms_queues a = oms_queues b"
    "oms_table a = oms_table b"
  using assms by (auto simp: engine_frame_def oms_table_def)

text \<open>Every fact the order manager proves about its sink holds for the engine's.\<close>

interpretation engine: quiet_sink "EngineCommon_FillEmitSink env" for env
  by unfold_locales (rule frame_parts [OF frame_emit])+

subsection \<open>The other operations of the composer\<close>

lemma frame_fold: "(\<And>x s. engine_frame (f x s) = engine_frame s) \<Longrightarrow> engine_frame (fold f xs s) = engine_frame s"
  by (induction xs arbitrary: s) simp_all

lemma frame_bitmap_fold:
  "(\<And>x s. engine_frame (f x s) = engine_frame s) \<Longrightarrow> engine_frame (bitmap_fold f w s) = engine_frame s"
  by (simp add: bitmap_fold_def frame_fold)

text \<open>The in-flight table and the queues: a compose leaves both alone.\<close>

definition oms_still :: "EngineState \<Rightarrow> (Order list \<times> u16) \<times>
    (Command spsc_ring list \<times> Command spsc_ring \<times> Command spsc_ring \<times> SubmitCommand spsc_ring list)" where
  "oms_still st = (oms_table st, oms_queues st)"

lemma still_fold: "(\<And>x s. oms_still (f x s) = oms_still s) \<Longrightarrow> oms_still (fold f xs s) = oms_still (s :: EngineState)"
  by (induction xs arbitrary: s) simp_all

lemma still_upd [simp]: "oms_still (upd_node n f st) = oms_still st" "oms_still (upd_agg g st) = oms_still st"
  by (simp_all add: oms_still_def oms_table_def oms_queues_def upd_node_def upd_agg_def)

lemma still_clear [simp]: "oms_still (EventLoop_ClearAllPermissions st) = oms_still st"
  unfolding EventLoop_ClearAllPermissions_def by (rule still_fold) simp

lemma still_trip [simp]: "oms_still (EventLoop_KillSwitchTrip st) = oms_still st"
  by (simp add: EventLoop_KillSwitchTrip_def Let_def) (simp add: oms_still_def oms_table_def oms_queues_def)

lemma still_serve_trip: "oms_still (serve_global_trip env site st) = oms_still st"
proof -
  have "oms_still (s\<lparr>om_event_log := l\<rparr>) = oms_still s" for s :: EngineState and l by (simp add: oms_still_def oms_table_def oms_queues_def)
  then show ?thesis by (simp add: serve_global_trip_def Let_def)
qed

lemma still_drag: "oms_still (apply_drag dc st) = oms_still st"
  by (simp add: apply_drag_def Let_def oms_still_def oms_table_def oms_queues_def)

lemma still_drags: "oms_still (drain_drags fuel st) = oms_still st"
  by (induction fuel st rule: drain_drags.induct) (simp_all add: Let_def still_drag split: prod.splits option.splits)

lemma still_compose: "oms_still (EngineCommon_ComposeAndKillEval env self cfg px pt st) = oms_still st"
proof -
  have "oms_still (snd (EngineCommon_FillRingsApply env s)) = oms_still s" for s
    using frame_rings_apply [of env s] by (simp add: engine_frame_def oms_still_def)
  moreover have "oms_still (serve_kill_reset s) = oms_still s" for s
    unfolding serve_kill_reset_def Let_def bitmap_fold_def by (subst still_fold) simp_all
  moreover have "oms_still (serve_kill_trips env s) = oms_still s" for s
    unfolding serve_kill_trips_def Let_def bitmap_fold_def
    by (subst still_fold, rule still_serve_trip, subst still_fold) (simp_all add: serve_node_trip_def)
  moreover have "oms_still (eval_nodes cfg px s) = oms_still s" for s
    unfolding eval_nodes_def Let_def by (rule still_fold) simp
  moreover have "oms_still (snd (EventLoop_KillSwitchEvaluate s)) = oms_still s" for s
    by (simp add: EventLoop_KillSwitchEvaluate_def) (simp add: oms_still_def oms_table_def oms_queues_def)
  moreover have "oms_still (publish_view pt s) = oms_still s" for s
    by (simp add: publish_view_def Let_def)
  ultimately show ?thesis
    by (simp only: EngineCommon_ComposeAndKillEval_def Let_def still_drags still_upd)
qed

lemma table_upd [simp]: "oms_table (upd_node n f st) = oms_table st" "oms_table (upd_agg g st) = oms_table st"
  by (simp_all add: oms_table_def upd_node_def upd_agg_def)

lemma table_compose: "oms_table (EngineCommon_ComposeAndKillEval env self cfg px pt st) = oms_table st"
  and queues_compose: "oms_queues (EngineCommon_ComposeAndKillEval env self cfg px pt st) = oms_queues st"
  using still_compose by (simp_all add: oms_still_def)

end
