(* ===== verification/Engine_Fills.thy ===== *)
theory Engine_Fills
  imports Engine_Frame
begin

text \<open>Applying the fill rings: the drains as folds over the queued events.\<close>

unbundle bit_operations_syntax

subsection \<open>Rings beside the ledger\<close>

definition set_rings :: "FillEvent spsc_ring list \<Rightarrow> EngineState \<Rightarrow> EngineState" where
  "set_rings rs st = upd_agg (\<lambda>a. a\<lparr>ag_fill_rings := rs\<rparr>) st"

definition rings_of :: "EngineState \<Rightarrow> FillEvent spsc_ring list" where
  "rings_of st = ag_fill_rings (el_agg st)"

lemma set_rings_simps [simp]:
  "set_rings rs (set_rings rs' st) = set_rings rs st" "rings_of (set_rings rs st) = rs"
  "set_rings (rings_of st) st = st"
  by (simp_all add: set_rings_def rings_of_def upd_agg_def)

lemma rings_read [simp]:
  "node_at (set_rings rs st) n = node_at st n" "oms_partial_on (set_rings rs st) = oms_partial_on st"
  "ag_slot_notional (el_agg (set_rings rs st)) = ag_slot_notional (el_agg st)"
  "ag_pending_trade_net (el_agg (set_rings rs st)) = ag_pending_trade_net (el_agg st)"
  "el_partner_pending_bitmap (set_rings rs st) = el_partner_pending_bitmap st"
  "el_total_entries (set_rings rs st) = el_total_entries st" "el_total_exits (set_rings rs st) = el_total_exits st"
  "el_total_events_processed (set_rings rs st) = el_total_events_processed st"
  by (simp_all add: set_rings_def upd_agg_def node_at_def oms_partial_on_def)

lemma rings_write [simp]:
  "upd_node n f (set_rings rs st) = set_rings rs (upd_node n f st)"
  "(set_rings rs st)\<lparr>el_partner_pending_bitmap := w\<rparr> = set_rings rs (st\<lparr>el_partner_pending_bitmap := w\<rparr>)"
  "(set_rings rs st)\<lparr>el_total_entries := a\<rparr> = set_rings rs (st\<lparr>el_total_entries := a\<rparr>)"
  "(set_rings rs st)\<lparr>el_total_exits := a\<rparr> = set_rings rs (st\<lparr>el_total_exits := a\<rparr>)"
  "(set_rings rs st)\<lparr>el_total_events_processed := a\<rparr> = set_rings rs (st\<lparr>el_total_events_processed := a\<rparr>)"
  by (simp_all add: set_rings_def upd_agg_def upd_node_def)

lemma rings_agg [simp]:
  "upd_agg (\<lambda>a. a\<lparr>ag_slot_notional := (ag_slot_notional a)[i := op (ag_slot_notional a ! i) x]\<rparr>) (set_rings rs st) =
     set_rings rs (upd_agg (\<lambda>a. a\<lparr>ag_slot_notional := (ag_slot_notional a)[i := op (ag_slot_notional a ! i) x]\<rparr>) st)"
  "upd_agg (\<lambda>a. a\<lparr>ag_pending_trade_net := (ag_pending_trade_net a)[i := op (ag_pending_trade_net a ! i) x]\<rparr>) (set_rings rs st) =
     set_rings rs (upd_agg (\<lambda>a. a\<lparr>ag_pending_trade_net := (ag_pending_trade_net a)[i := op (ag_pending_trade_net a ! i) x]\<rparr>) st)"
  "upd_agg (\<lambda>a. a\<lparr>ag_pending_trade_net := (ag_pending_trade_net a)[i := x]\<rparr>) (set_rings rs st) =
     set_rings rs (upd_agg (\<lambda>a. a\<lparr>ag_pending_trade_net := (ag_pending_trade_net a)[i := x]\<rparr>) st)"
  by (simp_all add: set_rings_def upd_agg_def)

lemma trade_rings [simp]: "book_trade_result n v (set_rings rs st) = set_rings rs (book_trade_result n v st)"
  by (simp add: book_trade_result_def Let_def)

lemma rows_rings: "EngineCommon_NodeRowsBook (set_rings rs st) fe = set_rings rs (EngineCommon_NodeRowsBook st fe)"
  by (simp add: EngineCommon_NodeRowsBook_def Let_def)

lemma ledger_rings: "OrderManager_LedgerApplyFill (set_rings rs st) fe = set_rings rs (OrderManager_LedgerApplyFill st fe)"
  by (simp add: OrderManager_LedgerApplyFill_def OrderManager_AccountMakerTakerFee_def set_rings_def upd_agg_def Let_def)

lemma apply_rings [simp]: "apply_fill n fe (set_rings rs st) = set_rings rs (apply_fill n fe st)"
  by (simp add: apply_fill_def Let_def rows_rings ledger_rings) (simp add: set_rings_def upd_agg_def)

lemma apply_keeps_rings [simp]: "rings_of (apply_fill n fe st) = rings_of st"
proof -
  have "apply_fill n fe st = set_rings (rings_of st) (apply_fill n fe st)"
    using apply_rings [of n fe "rings_of st" st] by simp
  then show ?thesis using set_rings_simps(2) by metis
qed

lemma fold_apply_rings [simp]:
  "fold (apply_fill n) fes (set_rings rs st) = set_rings rs (fold (apply_fill n) fes st)"
  "rings_of (fold (apply_fill n) fes st) = rings_of st"
  by (induction fes arbitrary: st) simp_all

lemma drain_fill_ring_step:
  "drain_fill_ring (Suc fuel) n (k, st) =
     (let (m, r) = SPSCRing_TryPop (rings_of st ! n); st = set_rings ((rings_of st)[n := r]) st
      in case m of None \<Rightarrow> (k, st) | Some fe \<Rightarrow> drain_fill_ring fuel n (k + 1, apply_fill n fe st))"
  by (simp add: set_rings_def rings_of_def upd_agg_def)

declare drain_fill_ring.simps(2) [simp del]

lemma drain_fill_ring_spec:
  assumes "ring_ok (rings_of st ! n)" "n < length (rings_of st)" "ring_items (rings_of st ! n) = fes" "length fes < fuel"
  shows "\<exists>r. drain_fill_ring fuel n (k, st) =
      (k + length fes, set_rings ((rings_of st)[n := r]) (fold (apply_fill n) fes st)) \<and>
    ring_ok r \<and> ring_items r = [] \<and> ring_room (rings_of st ! n) \<le> ring_room r"
  using assms
proof (induction fes arbitrary: fuel k st)
  case Nil
  obtain f where f: "fuel = Suc f" using Nil.prems(4) by (cases fuel) simp_all
  obtain m r where p: "SPSCRing_TryPop (rings_of st ! n) = (m, r)" by (cases "SPSCRing_TryPop (rings_of st ! n)")
  have "m = None \<and> ring_ok r \<and> ring_items r = [] \<and> ring_room (rings_of st ! n) \<le> ring_room r"
    using ring.pop_law [OF Nil.prems(1) p] Nil.prems(3) by simp
  then show ?case using p f by (auto simp: drain_fill_ring_step)
next
  case (Cons fe fes)
  obtain f where f: "fuel = Suc f" "length fes < f" using Cons.prems(4) by (cases fuel) simp_all
  obtain m r where p: "SPSCRing_TryPop (rings_of st ! n) = (m, r)" by (cases "SPSCRing_TryPop (rings_of st ! n)")
  have r: "m = Some fe" "ring_ok r" "ring_items r = fes" "ring_room (rings_of st ! n) \<le> ring_room r"
    using ring.pop_law [OF Cons.prems(1) p] Cons.prems(3) by simp_all
  let ?st = "apply_fill n fe (set_rings ((rings_of st)[n := r]) st)"
  have R: "rings_of ?st = (rings_of st)[n := r]" by simp
  have "\<exists>r'. drain_fill_ring f n (k + 1, ?st) =
      (k + 1 + length fes, set_rings ((rings_of ?st)[n := r']) (fold (apply_fill n) fes ?st)) \<and> ring_ok r' \<and> ring_items r' = [] \<and>
      ring_room (rings_of ?st ! n) \<le> ring_room r'"
    by (rule Cons.IH) (use Cons.prems(2) r f in \<open>simp_all only: R length_list_update nth_list_update_eq\<close>)
  then show ?case using p r f Cons.prems(2) by (fastforce simp: drain_fill_ring_step)
qed

text \<open>The queued events, node by node, each with the node whose ring holds it.\<close>

definition apply_node :: "FillEvent spsc_ring list \<Rightarrow> nat \<Rightarrow> EngineState \<Rightarrow> EngineState" where
  "apply_node rs n = fold (apply_fill n) (ring_items (rs ! n))"

lemma drained_fold:
  assumes "distinct ns" "\<forall>n \<in> set ns. n < length rs" "\<forall>n < length rs. ring_ok (rs ! n)" "rings_of st = rs"
  shows "\<exists>rs'. fold (\<lambda>n st. drain_fill_ring (ring_N (ag_fill_rings (el_agg (snd st)) ! n) + 1) n st) ns (k, st) =
      (k + sum_list (map (\<lambda>n. length (ring_items (rs ! n))) ns), set_rings rs' (fold (apply_node rs) ns st)) \<and>
    length rs' = length rs \<and> (\<forall>n < length rs. ring_ok (rs' ! n)) \<and>
    (\<forall>n < length rs. ring_items (rs' ! n) = (if n \<in> set ns then [] else ring_items (rs ! n))) \<and>
    (\<forall>n < length rs. ring_room (rs ! n) \<le> ring_room (rs' ! n))"
  using assms
proof (induction ns arbitrary: k st rs)
  case Nil
  then show ?case by (auto intro: exI [of _ rs])
next
  case (Cons n ns)
  let ?its = "ring_items (rs ! n)"
  have n: "n < length rs" "ring_ok (rs ! n)" using Cons.prems(2,3) by simp_all
  have cap: "length ?its < ring_N (rs ! n) + 1" using ring.cap_law [OF n(2)] by simp
  obtain r where r: "drain_fill_ring (ring_N (rs ! n) + 1) n (k, st) =
      (k + length ?its, set_rings (rs[n := r]) (fold (apply_fill n) ?its st))" "ring_ok r" "ring_items r = []" "ring_room (rs ! n) \<le> ring_room r"
    using drain_fill_ring_spec [of st n ?its "ring_N (rs ! n) + 1" k] n cap Cons.prems(4) by auto
  let ?rs = "rs[n := r]" and ?st = "set_rings (rs[n := r]) (fold (apply_fill n) ?its st)"
  have same: "ring_items (?rs ! m) = ring_items (rs ! m)" if "m \<in> set ns" for m
    using that Cons.prems(1) by (cases "m = n") simp_all
  have "distinct ns" "\<forall>m \<in> set ns. m < length ?rs" "\<forall>m < length ?rs. ring_ok (?rs ! m)" "rings_of ?st = ?rs"
    using Cons.prems(1-3) r(2) by (auto simp: nth_list_update)
  from Cons.IH [OF this, of "k + length ?its"]
  obtain rs' where rs': "fold (\<lambda>n st. drain_fill_ring (ring_N (ag_fill_rings (el_agg (snd st)) ! n) + 1) n st) ns (k + length ?its, ?st) =
      (k + length ?its + sum_list (map (\<lambda>n. length (ring_items (?rs ! n))) ns), set_rings rs' (fold (apply_node ?rs) ns ?st))"
    "length rs' = length ?rs" "\<forall>m < length ?rs. ring_ok (rs' ! m)"
    "\<forall>m < length ?rs. ring_items (rs' ! m) = (if m \<in> set ns then [] else ring_items (?rs ! m))"
    "\<forall>m < length ?rs. ring_room (?rs ! m) \<le> ring_room (rs' ! m)" by blast
  have rm: "\<forall>m < length rs. ring_room (rs ! m) \<le> ring_room (rs' ! m)"
  proof (intro allI impI)
    fix m assume "m < length rs"
    then have "ring_room (?rs ! m) \<le> ring_room (rs' ! m)" "ring_room (rs ! m) \<le> ring_room (?rs ! m)"
      using rs'(5) r(4) by simp (cases "m = n"; use r(4) \<open>m < length rs\<close> in simp)
    then show "ring_room (rs ! m) \<le> ring_room (rs' ! m)" by simp
  qed
  have a: "fold (apply_node ?rs) ms s = fold (apply_node rs) ms s" if "set ms \<subseteq> set ns" for ms s
    using that by (induction ms arbitrary: s) (simp_all add: apply_node_def same)
  have c: "fold (apply_node rs) ms (set_rings q s) = set_rings q (fold (apply_node rs) ms s)" for ms q s
    by (induction ms arbitrary: s) (simp_all add: apply_node_def)
  have ln: "map (\<lambda>n. length (ring_items (?rs ! n))) ns = map (\<lambda>n. length (ring_items (rs ! n))) ns"
    using same by simp
  have g: "ring_N (ag_fill_rings (el_agg (snd (k, st))) ! n) = ring_N (rs ! n)"
    using Cons.prems(4) by (simp add: rings_of_def)
  show ?case
    unfolding fold_simps comp_apply g r(1) rs'(1) a [OF subset_refl] c ln
    using rs'(2-4) r(3) n(1) rm by (intro exI [of _ rs'] conjI) (auto simp: apply_node_def nth_list_update)
qed

end
