(* ===== verification/Order_Phased.thy ===== *)
theory Order_Phased
  imports Order_Calls
begin

text \<open>
  The phased drain of \<^verbatim>\<open>src/MemHeaders/OmsPhasedDrain.hpp\<close>: the live engine takes the results off the
  queues of the order manager into three buckets and processes closes before opens, where the tick
  of \<^verbatim>\<open>Order_Fills\<close> processes them in arrival order.
\<close>

unbundle bit_operations_syntax

subsection \<open>Buckets\<close>

record OmsDrainBuckets =
  bk_close :: "Command list"
  bk_open :: "Command list"
  bk_reconcile :: "Command list"

definition OMS_RESULT_QUEUE_SIZE :: nat where "OMS_RESULT_QUEUE_SIZE = 256"
definition RECONCILE_BUCKET_SIZE :: nat where "RECONCILE_BUCKET_SIZE = 64"

definition OmsDrainBuckets_Reset :: "OmsDrainBuckets \<Rightarrow> OmsDrainBuckets" where
  "OmsDrainBuckets_Reset b = b\<lparr>bk_close := [], bk_open := [], bk_reconcile := []\<rparr>"

definition OrderType_IsClose :: "u8 \<Rightarrow> bool" where
  "OrderType_IsClose order_type = (order_type AND 1 = 1)"

text \<open>A full bucket drops the command.\<close>

definition handle_drain_bucket_cmd :: "Command \<Rightarrow> 'a oms \<Rightarrow> OmsDrainBuckets \<Rightarrow> OmsDrainBuckets" where
  "handle_drain_bucket_cmd cmd oms b =
     (let slot = OMS_OrderIdSlot (cm_order_id cmd);
          otype = order_type_byte (Order_GetType (order_at oms slot))
      in if OrderType_IsClose otype
         then b\<lparr>bk_close := (if length (bk_close b) < OMS_RESULT_QUEUE_SIZE then bk_close b @ [cmd] else bk_close b)\<rparr>
         else b\<lparr>bk_open := (if length (bk_open b) < OMS_RESULT_QUEUE_SIZE then bk_open b @ [cmd] else bk_open b)\<rparr>)"

definition handle_drain_reconcile_cmd :: "Command \<Rightarrow> OmsDrainBuckets \<Rightarrow> OmsDrainBuckets" where
  "handle_drain_reconcile_cmd cmd b =
     b\<lparr>bk_reconcile := (if length (bk_reconcile b) < RECONCILE_BUCKET_SIZE then bk_reconcile b @ [cmd] else bk_reconcile b)\<rparr>"

definition g_rest_queue_dispatch :: "Command \<Rightarrow> 'a oms \<Rightarrow> OmsDrainBuckets \<Rightarrow> OmsDrainBuckets" where
  "g_rest_queue_dispatch cmd oms b = (if cm_type cmd AND 0xF = CMD_FILL_RESULT then handle_drain_bucket_cmd cmd oms b else b)"

definition g_ws_queue_dispatch :: "Command \<Rightarrow> 'a oms \<Rightarrow> OmsDrainBuckets \<Rightarrow> OmsDrainBuckets" where
  "g_ws_queue_dispatch cmd oms b = (if cm_type cmd AND 0xF = CMD_WS_FILL then handle_drain_bucket_cmd cmd oms b else b)"

definition g_reconcile_queue_dispatch :: "Command \<Rightarrow> OmsDrainBuckets \<Rightarrow> OmsDrainBuckets" where
  "g_reconcile_queue_dispatch cmd b = (if cm_type cmd AND 0xF = CMD_RECONCILE then handle_drain_reconcile_cmd cmd b else b)"

text \<open>The three loops pop until their queue is empty; the fuel bounds the pops.\<close>

fun drain_rest :: "nat \<Rightarrow> 'a oms \<Rightarrow> OmsDrainBuckets \<Rightarrow> ('a oms \<times> OmsDrainBuckets) option" where
  "drain_rest 0 oms b = None"
| "drain_rest (Suc k) oms b = (case OMS_ResultPop oms of
       (None, oms) \<Rightarrow> Some (oms, b)
     | (Some cmd, oms) \<Rightarrow> drain_rest k oms (g_rest_queue_dispatch cmd oms b))"

fun drain_ws :: "nat \<Rightarrow> 'a oms \<Rightarrow> OmsDrainBuckets \<Rightarrow> ('a oms \<times> OmsDrainBuckets) option" where
  "drain_ws 0 oms b = None"
| "drain_ws (Suc k) oms b = (case SPSCRing_TryPop (om_ws_result_queue oms) of
       (None, r) \<Rightarrow> Some (oms\<lparr>om_ws_result_queue := r\<rparr>, b)
     | (Some cmd, r) \<Rightarrow> let oms = oms\<lparr>om_ws_result_queue := r\<rparr> in drain_ws k oms (g_ws_queue_dispatch cmd oms b))"

fun drain_reconcile :: "nat \<Rightarrow> 'a oms \<Rightarrow> OmsDrainBuckets \<Rightarrow> ('a oms \<times> OmsDrainBuckets) option" where
  "drain_reconcile 0 oms b = None"
| "drain_reconcile (Suc k) oms b = (case SPSCRing_TryPop (om_reconcile_queue oms) of
       (None, r) \<Rightarrow> Some (oms\<lparr>om_reconcile_queue := r\<rparr>, b)
     | (Some cmd, r) \<Rightarrow> drain_reconcile k (oms\<lparr>om_reconcile_queue := r\<rparr>) (g_reconcile_queue_dispatch cmd b))"

definition OrderManager_DrainIntoBuckets ::
    "nat \<Rightarrow> 'a oms \<Rightarrow> OmsDrainBuckets \<Rightarrow> ('a oms \<times> OmsDrainBuckets) option" where
  "OrderManager_DrainIntoBuckets fuel oms b =
     (case drain_rest fuel oms (OmsDrainBuckets_Reset b) of None \<Rightarrow> None
      | Some (oms, b) \<Rightarrow> (case drain_ws fuel oms b of None \<Rightarrow> None
          | Some (oms, b) \<Rightarrow> drain_reconcile fuel oms b))"

definition OrderManager_ProcessBucket_Closes :: "'a oms_env \<Rightarrow> OmsDrainBuckets \<Rightarrow> 'a oms \<Rightarrow> 'a oms" where
  "OrderManager_ProcessBucket_Closes env b oms =
     fold (\<lambda>cmd oms. snd (OrderManager_ProcessFillCommand env oms cmd)) (bk_close b) oms"

definition OrderManager_ProcessBucket_Opens :: "'a oms_env \<Rightarrow> OmsDrainBuckets \<Rightarrow> 'a oms \<Rightarrow> 'a oms" where
  "OrderManager_ProcessBucket_Opens env b oms =
     fold (\<lambda>cmd oms. snd (OrderManager_ProcessFillCommand env oms cmd)) (bk_open b) oms"

definition OrderManager_ProcessBucket_Reconciles :: "'a oms_env \<Rightarrow> OmsDrainBuckets \<Rightarrow> 'a oms \<Rightarrow> 'a oms" where
  "OrderManager_ProcessBucket_Reconciles env b oms =
     fold (\<lambda>cmd oms. OrderManager_ProcessReconcile env oms cmd) (bk_reconcile b) oms"

subsection \<open>What every drain keeps\<close>

lemma fold_keeps: "(\<And>x s. P s \<Longrightarrow> P (f x s)) \<Longrightarrow> P s \<Longrightarrow> P (fold f xs s)"
  by (induction xs arbitrary: s) simp_all

text \<open>What the tick's drains keep, the phased drain and its three phases keep, whatever the buckets hold.\<close>

lemma phases_keep:
  assumes "drain_keeps P env" "P oms"
  shows "P (OrderManager_ProcessBucket_Closes env b oms)" "P (OrderManager_ProcessBucket_Opens env b oms)"
    "P (OrderManager_ProcessBucket_Reconciles env b oms)"
proof -
  note k1 = assms(1) [unfolded drain_keeps_def] note k2 = k1 [THEN conjunct2]
  note fill = k1 [THEN conjunct1, rule_format] and rec = k2 [THEN conjunct1, rule_format]
  show "P (OrderManager_ProcessBucket_Closes env b oms)"
    unfolding OrderManager_ProcessBucket_Closes_def by (rule fold_keeps [where P = P]) (erule fill, rule assms(2))
  show "P (OrderManager_ProcessBucket_Opens env b oms)"
    unfolding OrderManager_ProcessBucket_Opens_def by (rule fold_keeps [where P = P]) (erule fill, rule assms(2))
  show "P (OrderManager_ProcessBucket_Reconciles env b oms)"
    unfolding OrderManager_ProcessBucket_Reconciles_def by (rule fold_keeps [where P = P]) (erule rec, rule assms(2))
qed

lemma buckets_keep:
  assumes pop: "\<And>o1. P o1 \<Longrightarrow> P (snd (OMS_ResultPop o1))"
    and ws: "\<And>o1 r. P o1 \<Longrightarrow> P (o1\<lparr>om_ws_result_queue := r\<rparr>)" and rec: "\<And>o1 r. P o1 \<Longrightarrow> P (o1\<lparr>om_reconcile_queue := r\<rparr>)"
    and "P oms" "OrderManager_DrainIntoBuckets fuel oms b = Some (oms', b')"
  shows "P oms'"
proof -
  have 1: "drain_rest k o1 b1 = Some (o2, b2) \<Longrightarrow> P o1 \<Longrightarrow> P o2" for k o1 b1 o2 b2
  proof (induction k arbitrary: o1 b1)
    case (Suc k)
    obtain x o3 where p: "OMS_ResultPop o1 = (x, o3)" by fastforce
    have "P o3" using pop [OF Suc.prems(2)] unfolding p snd_conv .
    then show ?case using Suc.IH Suc.prems(1) by (auto simp: p split: option.splits)
  qed simp
  have 2: "drain_ws k o1 b1 = Some (o2, b2) \<Longrightarrow> P o1 \<Longrightarrow> P o2" for k o1 b1 o2 b2
  proof (induction k arbitrary: o1 b1)
    case (Suc k)
    obtain x r where p: "SPSCRing_TryPop (om_ws_result_queue o1) = (x, r)" by fastforce
    have "P (o1\<lparr>om_ws_result_queue := r\<rparr>)" by (rule ws) (rule Suc.prems(2))
    then show ?case using Suc.IH Suc.prems(1) by (auto simp: p Let_def split: option.splits)
  qed simp
  have 3: "drain_reconcile k o1 b1 = Some (o2, b2) \<Longrightarrow> P o1 \<Longrightarrow> P o2" for k o1 b1 o2 b2
  proof (induction k arbitrary: o1 b1)
    case (Suc k)
    obtain x r where p: "SPSCRing_TryPop (om_reconcile_queue o1) = (x, r)" by fastforce
    have "P (o1\<lparr>om_reconcile_queue := r\<rparr>)" by (rule rec) (rule Suc.prems(2))
    then show ?case using Suc.IH Suc.prems(1) by (auto simp: p split: option.splits)
  qed simp
  from assms(5) obtain o1 b1 o2 b2 where "drain_rest fuel oms (OmsDrainBuckets_Reset b) = Some (o1, b1)"
    "drain_ws fuel o1 b1 = Some (o2, b2)" "drain_reconcile fuel o2 b2 = Some (oms', b')"
    by (auto simp: OrderManager_DrainIntoBuckets_def split: option.splits)
  then show ?thesis using 1 [OF _ assms(4)] 2 3 by blast
qed

lemma table_buckets:
  assumes "OrderManager_DrainIntoBuckets fuel oms b = Some (oms', b')"
  shows "oms_table oms' = oms_table oms"
proof (rule buckets_keep [where P = "\<lambda>o1. oms_table o1 = oms_table oms", OF _ _ _ refl assms])
  show "oms_table (snd (OMS_ResultPop o1)) = oms_table oms" if "oms_table o1 = oms_table oms" for o1
    using that by (simp add: result_pop_frame(1))
qed (simp_all add: oms_table_def)

subsection \<open>What a drain sorts where\<close>

definition all_items :: "Command spsc_ring list \<Rightarrow> Command list" where
  "all_items rings = concat (map ring_items rings)"

lemma pop_from_items:
  assumes "n + k = length (om_result_rings oms)" "\<forall>r \<in> set (om_result_rings oms). ring_ok r"
    and "result_pop_from n k oms = (x, oms')"
  shows "(case all_items (drop n (om_result_rings oms)) of
        [] \<Rightarrow> x = None \<and> all_items (drop n (om_result_rings oms')) = []
      | c # cs \<Rightarrow> x = Some c \<and> all_items (drop n (om_result_rings oms')) = cs) \<and>
    take n (om_result_rings oms') = take n (om_result_rings oms) \<and>
    length (om_result_rings oms') = length (om_result_rings oms) \<and> (\<forall>r \<in> set (om_result_rings oms'). ring_ok r)"
  using assms
proof (induction k arbitrary: n oms)
  case 0
  then show ?case by (auto simp: all_items_def)
next
  case (Suc k)
  let ?rs = "om_result_rings oms"
  obtain y r where p: "SPSCRing_TryPop (?rs ! n) = (y, r)" by fastforce
  have n: "n < length ?rs" using Suc.prems(1) by simp
  have ok: "ring_ok (?rs ! n)" using Suc.prems(2) n by simp
  note l = ring.pop_law [OF ok p]
  let ?o = "oms\<lparr>om_result_rings := ?rs[n := r]\<rparr>"
  have d: "drop n ?rs = ?rs ! n # drop (Suc n) ?rs" by (rule Cons_nth_drop_Suc [OF n, symmetric])
  have d': "drop n (?rs[n := r]) = r # drop (Suc n) ?rs"
    using n Cons_nth_drop_Suc [of n "?rs[n := r]"] by (simp add: drop_update_cancel)
  have okr: "\<forall>q \<in> set (?rs[n := r]). ring_ok q" using set_update_subset_insert [of ?rs n r] Suc.prems(2) l by auto
  show ?case
  proof (cases y)
    case (Some c)
    then have "oms' = ?o" "x = Some c" using Suc.prems(3) by (simp_all add: p)
    moreover obtain cs where "ring_items (?rs ! n) = c # cs" "ring_items r = cs" using l Some by (auto split: list.splits)
    ultimately show ?thesis using okr by (simp add: d d' all_items_def)
  next
    case None
    then have e: "ring_items (?rs ! n) = []" "ring_items r = []" using l by (auto split: list.splits)
    have "result_pop_from (n + 1) k ?o = (x, oms')" using Suc.prems(3) None by (simp add: p)
    moreover have "n + 1 + k = length (om_result_rings ?o)" using Suc.prems(1) by simp
    moreover have "\<forall>q \<in> set (om_result_rings ?o). ring_ok q" using okr by simp
    ultimately have IH: "(case all_items (drop (n + 1) ?rs) of
          [] \<Rightarrow> x = None \<and> all_items (drop (n + 1) (om_result_rings oms')) = []
        | c # cs \<Rightarrow> x = Some c \<and> all_items (drop (n + 1) (om_result_rings oms')) = cs) \<and>
      take (n + 1) (om_result_rings oms') = take (n + 1) (?rs[n := r]) \<and>
      length (om_result_rings oms') = length ?rs \<and> (\<forall>r \<in> set (om_result_rings oms'). ring_ok r)"
      using Suc.IH [of "n + 1" ?o] by simp
    then have m: "n < length (om_result_rings oms')" using n by simp
    have t: "om_result_rings oms' ! n = r" "take n (om_result_rings oms') = take n ?rs"
      using arg_cong [OF conjunct1 [OF conjunct2 [OF IH]], of "\<lambda>xs. xs ! n"]
        arg_cong [OF conjunct1 [OF conjunct2 [OF IH]], of "take n"] n m by simp_all
    have "drop n (om_result_rings oms') = r # drop (Suc n) (om_result_rings oms')"
      using Cons_nth_drop_Suc [OF m] t(1) by simp
    then have A: "all_items (drop n (om_result_rings oms')) = all_items (drop (n + 1) (om_result_rings oms'))"
      "all_items (drop n ?rs) = all_items (drop (n + 1) ?rs)"
      by (simp_all add: d e all_items_def)
    show ?thesis unfolding A using IH t(2) by blast
  qed
qed

lemma result_pop_items:
  assumes "length (om_result_rings oms) = MAX_EXECUTION_NODES" "\<forall>r \<in> set (om_result_rings oms). ring_ok r"
    and "OMS_ResultPop oms = (x, oms')"
  shows "case all_items (om_result_rings oms) of [] \<Rightarrow> x = None \<and> all_items (om_result_rings oms') = []
      | c # cs \<Rightarrow> x = Some c \<and> all_items (om_result_rings oms') = cs"
    "length (om_result_rings oms') = MAX_EXECUTION_NODES" "\<forall>r \<in> set (om_result_rings oms'). ring_ok r"
  using pop_from_items [of 0 MAX_EXECUTION_NODES oms x oms', unfolded drop_0] assms by (simp_all add: OMS_ResultPop_def)

text \<open>The class of a command is that of the order it answers, which no pop changes.\<close>

definition is_close :: "'a oms \<Rightarrow> Command \<Rightarrow> bool" where
  "is_close oms c \<longleftrightarrow> Order_GetType (order_at oms (OMS_OrderIdSlot (cm_order_id c))) \<in> {ORDER_MARKET_SELL, ORDER_LIMIT_SELL}"

lemma close_bit: "OrderType_IsClose (order_type_byte t) \<longleftrightarrow> t \<in> {ORDER_MARKET_SELL, ORDER_LIMIT_SELL}"
  by (cases t) (simp_all add: OrderType_IsClose_def order_type_byte_def)

definition filled :: "'a oms \<Rightarrow> Command list \<Rightarrow> OmsDrainBuckets \<Rightarrow> OmsDrainBuckets" where
  "filled oms cs b = b\<lparr>bk_close := take OMS_RESULT_QUEUE_SIZE (bk_close b @ filter (is_close oms) cs),
     bk_open := take OMS_RESULT_QUEUE_SIZE (bk_open b @ filter (\<lambda>c. \<not> is_close oms c) cs)\<rparr>"

lemma take_snoc: "take N (take N xs @ ys) = take N (xs @ ys)"
  by (cases "length xs \<le> N") simp_all

lemma bucket_cmd:
  assumes "length (bk_close b) \<le> OMS_RESULT_QUEUE_SIZE" "length (bk_open b) \<le> OMS_RESULT_QUEUE_SIZE"
  shows "handle_drain_bucket_cmd c oms b = filled oms [c] b"
  using assms unfolding handle_drain_bucket_cmd_def Let_def close_bit is_close_def [symmetric] filled_def
  by (cases b) auto

lemma filled_bounds: "length (bk_close (filled oms cs b)) \<le> OMS_RESULT_QUEUE_SIZE" "length (bk_open (filled oms cs b)) \<le> OMS_RESULT_QUEUE_SIZE"
  by (simp_all add: filled_def)

lemma filled_filled: "filled oms ds (filled oms cs b) = filled oms (cs @ ds) b"
  by (simp add: filled_def take_snoc del: take_append)

lemma filled_nil: "length (bk_close b) \<le> OMS_RESULT_QUEUE_SIZE \<Longrightarrow> length (bk_open b) \<le> OMS_RESULT_QUEUE_SIZE \<Longrightarrow> filled oms [] b = b"
  by (simp add: filled_def)

lemma filled_cong: "om_orders a = om_orders b \<Longrightarrow> filled a = filled b"
proof -
  assume "om_orders a = om_orders b"
  then have "is_close a = is_close b" by (intro ext) (simp add: is_close_def order_at_def)
  then show ?thesis by (intro ext) (simp only: filled_def)
qed

lemma pop_orders: "OMS_ResultPop oms = (x, oms') \<Longrightarrow> om_orders oms' = om_orders oms \<and>
    om_ws_result_queue oms' = om_ws_result_queue oms \<and> om_reconcile_queue oms' = om_reconcile_queue oms \<and>
    om_result_rings_update (\<lambda>_. []) oms' = om_result_rings_update (\<lambda>_. []) oms"
proof -
  assume p: "OMS_ResultPop oms = (x, oms')"
  have r: "om_result_rings_update (\<lambda>_. []) oms' = om_result_rings_update (\<lambda>_. []) oms"
    using result_pop_frame(2) [of oms] unfolding p snd_conv .
  show ?thesis
    using arg_cong [OF r, of om_orders] arg_cong [OF r, of om_ws_result_queue] arg_cong [OF r, of om_reconcile_queue]
    by (intro conjI r) simp_all
qed

definition rest_fills :: "Command list \<Rightarrow> Command list" where
  "rest_fills cs = filter (\<lambda>c. cm_type c AND 0xF = CMD_FILL_RESULT) cs"

definition ws_fills :: "Command list \<Rightarrow> Command list" where
  "ws_fills cs = filter (\<lambda>c. cm_type c AND 0xF = CMD_WS_FILL) cs"

definition bucket_room :: "OmsDrainBuckets \<Rightarrow> bool" where
  "bucket_room b \<longleftrightarrow> length (bk_close b) \<le> OMS_RESULT_QUEUE_SIZE \<and> length (bk_open b) \<le> OMS_RESULT_QUEUE_SIZE"

lemma drain_rest_sorts:
  assumes "length (om_result_rings oms) = MAX_EXECUTION_NODES" "\<forall>r \<in> set (om_result_rings oms). ring_ok r"
    and "length (all_items (om_result_rings oms)) < k" "bucket_room b"
  shows "\<exists>oms'. drain_rest k oms b = Some (oms', filled oms (rest_fills (all_items (om_result_rings oms))) b) \<and>
    all_items (om_result_rings oms') = [] \<and> om_result_rings_update (\<lambda>_. []) oms' = om_result_rings_update (\<lambda>_. []) oms"
  using assms
proof (induction k arbitrary: oms b)
  case (Suc k)
  obtain x o1 where p: "OMS_ResultPop oms = (x, o1)" by fastforce
  note l = result_pop_items [OF Suc.prems(1,2) p] and f = pop_orders [OF p]
  show ?case
  proof (cases "all_items (om_result_rings oms)")
    case Nil
    then show ?thesis using l(1) f Suc.prems(4) by (simp add: p filled_nil bucket_room_def rest_fills_def)
  next
    case (Cons c cs)
    then have x: "x = Some c" "all_items (om_result_rings o1) = cs" using l(1) by simp_all
    let ?b = "g_rest_queue_dispatch c o1 b"
    have b: "?b = filled oms (rest_fills [c]) b"
      using Suc.prems(4) filled_cong [of o1 oms] f
      by (simp add: g_rest_queue_dispatch_def bucket_cmd rest_fills_def bucket_room_def filled_nil)
    have "\<exists>oms'. drain_rest k o1 ?b = Some (oms', filled o1 (rest_fills cs) ?b) \<and>
        all_items (om_result_rings oms') = [] \<and> om_result_rings_update (\<lambda>_. []) oms' = om_result_rings_update (\<lambda>_. []) o1"
      using Suc.IH [OF l(2,3), of ?b] Suc.prems(3) by (simp add: x(2) Cons b bucket_room_def filled_bounds)
    moreover have "filled o1 (rest_fills cs) ?b = filled oms (rest_fills (c # cs)) b"
      using filled_cong [of o1 oms] f by (simp add: b filled_filled) (simp add: rest_fills_def)
    ultimately show ?thesis using f by (simp add: p x(1) Cons)
  qed
qed simp

lemma drain_ws_sorts:
  assumes "ring_ok (om_ws_result_queue oms)" "length (ring_items (om_ws_result_queue oms)) < k" "bucket_room b"
  shows "\<exists>r. drain_ws k oms b = Some (oms\<lparr>om_ws_result_queue := r\<rparr>, filled oms (ws_fills (ring_items (om_ws_result_queue oms))) b) \<and>
    ring_items r = []"
  using assms
proof (induction k arbitrary: oms b)
  case (Suc k)
  obtain x r where p: "SPSCRing_TryPop (om_ws_result_queue oms) = (x, r)" by fastforce
  note l = ring.pop_law [OF Suc.prems(1) p]
  show ?case
  proof (cases "ring_items (om_ws_result_queue oms)")
    case Nil
    then show ?thesis using l Suc.prems(3) by (intro exI [of _ r]) (simp add: p filled_nil bucket_room_def ws_fills_def)
  next
    case (Cons c cs)
    then have x: "x = Some c" "ring_items r = cs" using l by simp_all
    let ?o = "oms\<lparr>om_ws_result_queue := r\<rparr>" let ?b = "g_ws_queue_dispatch c ?o b"
    have o: "filled ?o = filled oms" by (rule filled_cong) simp
    have b: "?b = filled oms (ws_fills [c]) b"
      using Suc.prems(3) by (simp add: g_ws_queue_dispatch_def bucket_cmd ws_fills_def bucket_room_def filled_nil o)
    have "\<exists>q. drain_ws k ?o ?b = Some (?o\<lparr>om_ws_result_queue := q\<rparr>, filled ?o (ws_fills (ring_items (om_ws_result_queue ?o))) ?b) \<and> ring_items q = []"
      using l Suc.prems(2) by (intro Suc.IH) (simp_all add: x(2) Cons b bucket_room_def filled_bounds)
    moreover have "ws_fills (c # cs) = ws_fills [c] @ ws_fills cs" by (simp add: ws_fills_def)
    ultimately show ?thesis by (simp add: p x Cons o b filled_filled Let_def)
  qed
qed simp

definition reconciles :: "Command list \<Rightarrow> Command list" where
  "reconciles cs = filter (\<lambda>c. cm_type c AND 0xF = CMD_RECONCILE) cs"

definition kept :: "Command list \<Rightarrow> OmsDrainBuckets \<Rightarrow> OmsDrainBuckets" where
  "kept cs b = b\<lparr>bk_reconcile := take RECONCILE_BUCKET_SIZE (bk_reconcile b @ reconciles cs)\<rparr>"

lemma kept_kept: "kept ds (kept cs b) = kept (cs @ ds) b"
  by (simp add: kept_def reconciles_def take_snoc del: take_append)

lemma drain_reconcile_sorts:
  assumes "ring_ok (om_reconcile_queue oms)" "length (ring_items (om_reconcile_queue oms)) < k" "length (bk_reconcile b) \<le> RECONCILE_BUCKET_SIZE"
  shows "\<exists>r. drain_reconcile k oms b = Some (oms\<lparr>om_reconcile_queue := r\<rparr>, kept (ring_items (om_reconcile_queue oms)) b) \<and> ring_items r = []"
  using assms
proof (induction k arbitrary: oms b)
  case (Suc k)
  obtain x r where p: "SPSCRing_TryPop (om_reconcile_queue oms) = (x, r)" by fastforce
  note l = ring.pop_law [OF Suc.prems(1) p]
  show ?case
  proof (cases "ring_items (om_reconcile_queue oms)")
    case Nil
    then show ?thesis using l Suc.prems(3) by (intro exI [of _ r]) (simp add: p kept_def reconciles_def)
  next
    case (Cons c cs)
    then have x: "x = Some c" "ring_items r = cs" using l by simp_all
    let ?o = "oms\<lparr>om_reconcile_queue := r\<rparr>" let ?b = "g_reconcile_queue_dispatch c b"
    have b: "?b = kept [c] b"
      using Suc.prems(3) by (cases b) (auto simp: kept_def reconciles_def g_reconcile_queue_dispatch_def handle_drain_reconcile_cmd_def)
    have "\<exists>q. drain_reconcile k ?o ?b = Some (?o\<lparr>om_reconcile_queue := q\<rparr>, kept (ring_items (om_reconcile_queue ?o)) ?b) \<and> ring_items q = []"
    proof (rule Suc.IH)
      show "ring_ok (om_reconcile_queue ?o)" "length (ring_items (om_reconcile_queue ?o)) < k"
        using l Suc.prems(2) by (simp_all add: x(2) Cons)
      show "length (bk_reconcile ?b) \<le> RECONCILE_BUCKET_SIZE" unfolding b by (simp add: kept_def)
    qed
    then show ?thesis by (simp add: p x Cons b kept_kept)
  qed
qed simp

text \<open>C16: the phased drain returns with enough fuel, leaves the three queues empty and nothing else changed, and
  sorts what was queued by the class of the order: first all results of the nodes' rings, node by
  node, then all of the websocket, each class in arrival order, up to the capacity of a bucket.
  With no more than 256 fills queued none is dropped.\<close>

theorem phased_drain_sorts:
  assumes "length (om_result_rings oms) = MAX_EXECUTION_NODES" "\<forall>r \<in> set (om_result_rings oms). ring_ok r"
    and "ring_ok (om_ws_result_queue oms)" "ring_ok (om_reconcile_queue oms)"
    and "length (all_items (om_result_rings oms)) < fuel" "length (ring_items (om_ws_result_queue oms)) < fuel"
    and "length (ring_items (om_reconcile_queue oms)) < fuel"
  defines "fills \<equiv> rest_fills (all_items (om_result_rings oms)) @ ws_fills (ring_items (om_ws_result_queue oms))"
  shows "\<exists>oms' bk. OrderManager_DrainIntoBuckets fuel oms b = Some (oms', bk) \<and>
    bk_close bk = take 256 (filter (is_close oms) fills) \<and> bk_open bk = take 256 (filter (\<lambda>c. \<not> is_close oms c) fills) \<and>
    bk_reconcile bk = take 64 (reconciles (ring_items (om_reconcile_queue oms))) \<and>
    (length fills \<le> 256 \<longrightarrow> length (bk_close bk) + length (bk_open bk) = length fills) \<and>
    all_items (om_result_rings oms') = [] \<and> ring_items (om_ws_result_queue oms') = [] \<and> ring_items (om_reconcile_queue oms') = [] \<and>
    oms'\<lparr>om_result_rings := om_result_rings oms, om_ws_result_queue := om_ws_result_queue oms,
      om_reconcile_queue := om_reconcile_queue oms\<rparr> = oms"
proof -
  let ?b0 = "OmsDrainBuckets_Reset b"
  have b0: "bucket_room ?b0" "bk_close ?b0 = []" "bk_open ?b0 = []" "bk_reconcile ?b0 = []"
    by (simp_all add: OmsDrainBuckets_Reset_def bucket_room_def)
  obtain o1 where o1: "drain_rest fuel oms ?b0 = Some (o1, filled oms (rest_fills (all_items (om_result_rings oms))) ?b0)"
    "all_items (om_result_rings o1) = []" "om_result_rings_update (\<lambda>_. []) o1 = om_result_rings_update (\<lambda>_. []) oms"
    using drain_rest_sorts [OF assms(1,2,5) b0(1)] by blast
  have f: "om_ws_result_queue o1 = om_ws_result_queue oms" "om_reconcile_queue o1 = om_reconcile_queue oms" "om_orders o1 = om_orders oms"
    using arg_cong [OF o1(3), of om_ws_result_queue] arg_cong [OF o1(3), of om_reconcile_queue] arg_cong [OF o1(3), of om_orders] by simp_all
  let ?b1 = "filled oms (rest_fills (all_items (om_result_rings oms))) ?b0"
  have "bucket_room ?b1" by (simp add: bucket_room_def filled_bounds)
  then obtain r where r: "drain_ws fuel o1 ?b1 = Some (o1\<lparr>om_ws_result_queue := r\<rparr>, filled oms fills ?b0)" "ring_items r = []"
    using drain_ws_sorts [of o1 fuel ?b1] assms(3,6) filled_cong [OF f(3)] by (auto simp: f filled_filled fills_def)
  let ?o2 = "o1\<lparr>om_ws_result_queue := r\<rparr>" and ?b2 = "filled oms fills ?b0"
  have b2: "bk_reconcile ?b2 = []" by (simp add: filled_def b0)
  obtain q where q: "drain_reconcile fuel ?o2 ?b2 = Some (?o2\<lparr>om_reconcile_queue := q\<rparr>, kept (ring_items (om_reconcile_queue oms)) ?b2)"
    "ring_items q = []"
    using drain_reconcile_sorts [of ?o2 fuel ?b2] assms(4,7) by (auto simp: f b2)
  let ?o3 = "?o2\<lparr>om_reconcile_queue := q\<rparr>" and ?b3 = "kept (ring_items (om_reconcile_queue oms)) ?b2"
  have d: "OrderManager_DrainIntoBuckets fuel oms b = Some (?o3, ?b3)"
    by (simp only: OrderManager_DrainIntoBuckets_def o1(1) r(1) q(1) option.case prod.case)
  have s: "?o3\<lparr>om_result_rings := om_result_rings oms, om_ws_result_queue := om_ws_result_queue oms,
      om_reconcile_queue := om_reconcile_queue oms\<rparr> = oms"
  proof -
    have "o1\<lparr>om_result_rings := om_result_rings oms\<rparr> = om_result_rings_update (\<lambda>_. om_result_rings oms) (om_result_rings_update (\<lambda>_. []) o1)" by simp
    also have "\<dots> = oms" unfolding o1(3) by simp
    finally have "o1\<lparr>om_result_rings := om_result_rings oms\<rparr> = oms" .
    moreover have "?o3\<lparr>om_result_rings := om_result_rings oms, om_ws_result_queue := om_ws_result_queue oms,
      om_reconcile_queue := om_reconcile_queue oms\<rparr> = (o1\<lparr>om_result_rings := om_result_rings oms\<rparr>)
        \<lparr>om_ws_result_queue := om_ws_result_queue oms, om_reconcile_queue := om_reconcile_queue oms\<rparr>" by simp
    ultimately show ?thesis by simp
  qed
  have n: "length (filter P fills) + length (filter (\<lambda>c. \<not> P c) fills) = length fills" for P by (rule sum_length_filter_compl)
  have "length (filter P fills) \<le> length fills" for P by simp
  then have l: "length fills \<le> 256 \<Longrightarrow> length (bk_close ?b3) + length (bk_open ?b3) = length fills"
    using n [of "is_close oms"] order_trans by (simp add: kept_def filled_def b0 OMS_RESULT_QUEUE_SIZE_def)
  show ?thesis
    by (intro exI [of _ ?o3] exI [of _ ?b3] conjI d s impI l)
      (simp_all add: kept_def filled_def b0 OMS_RESULT_QUEUE_SIZE_def RECONCILE_BUCKET_SIZE_def o1(2) r(2) q(2))
qed

end
