(* ===== verification/Engine_Exits.thy ===== *)
theory Engine_Exits
  imports Composer
begin

text \<open>
  What the slow path does to the engine besides rebuilding parameter packs
  (\<^verbatim>\<open>src/CoreFrameworks/ControllerEventLoop.hpp\<close>, \<^verbatim>\<open>src/CoreFrameworks/EngineCommon.hpp\<close>): the time exit, the
  emergency flatten with its staleness check and recovery window, the breakeven ratchet and the grant
  of the entry permission after warm-up.  The prints are left out; the time of a call is an argument.
\<close>

unbundle bit_operations_syntax

subsection \<open>Exit commands\<close>

definition OMS_PushExitForSlot ::
    "'a oms \<Rightarrow> int \<Rightarrow> Money \<Rightarrow> u8 \<Rightarrow> Money \<Rightarrow> u8 \<Rightarrow> PerNodeCfg option \<Rightarrow> bool \<times> 'a oms" where
  "OMS_PushExitForSlot oms slot qty strategy_id event_price leg node_cfg =
     (let cmd = SubmitCommand_make slot ORDER_MARKET_SELL qty leg node_cfg;
          cmd = cmd\<lparr>sc_strategy_id := strategy_id\<rparr>;
          cmd = cmd\<lparr>sc_event_price := event_price\<rparr>
      in OMS_PushSubmit oms cmd)"

definition f64_le :: "f64 \<Rightarrow> f64 \<Rightarrow> bool" where
  "f64_le a b = (f64_lt a b \<or> f64_eq a b)"

definition position_at :: "'a oms \<Rightarrow> nat \<Rightarrow> Position" where
  "position_at oms slot = pf_positions (om_portfolio oms) ! slot"

subsection \<open>Time exit\<close>

definition node_gain :: "f64 \<Rightarrow> f64 \<Rightarrow> f64" where
  "node_gain current_price entry_d = f64_div (f64_sub current_price entry_d) entry_d"

definition max_hold_of :: "ControllerConfig \<Rightarrow> nat \<Rightarrow> u32" where
  "max_hold_of cfg n =
     (let max_hold = cc_node_time_exit_ticks cfg ! n
      in if max_hold = 0 then nc_max_hold_ticks (cc_nodes cfg ! n) else max_hold)"

definition time_exit_slot :: "ControllerConfig \<Rightarrow> u64 \<Rightarrow> f64 \<Rightarrow> nat \<Rightarrow> nat \<Rightarrow> EngineState \<Rightarrow> EngineState" where
  "time_exit_slot cfg now_tick current_price n slot st =
     (let entry_t = nx_last_entry_tick (node_at st n)
      in if entry_t = 0 then st
         else if now_tick < entry_t then upd_node n (\<lambda>x. x\<lparr>nx_last_entry_tick := now_tick\<rparr>) st
         else if now_tick - entry_t < ucast (max_hold_of cfg n) then st
         else let entry_d = Money_ToDouble (p_entry_price (position_at st slot))
              in if f64_le entry_d (F64_Fin 0) then st
                 else if f64_le (Money_ToDouble (cc_min_hold_gain_pct cfg)) (node_gain current_price entry_d) then st
                 else snd (OMS_PushExitForSlot st (int slot) (p_quantity (position_at st slot))
                        (nx_resolved_strategy_id (node_at st n)) (Money (money_from_double_payload current_price)) 0
                        (Some (PerNodeCfg.truncate (cc_nodes cfg ! n)))))"

definition EventLoop_TimeExitOneCore :: "ControllerConfig \<Rightarrow> u64 \<Rightarrow> f64 \<Rightarrow> nat \<Rightarrow> EngineState \<Rightarrow> EngineState" where
  "EventLoop_TimeExitOneCore cfg now_tick current_price n st =
     (let my_mask = BITMAP_NODE_SLOT_MASK n (oms_partial_on st \<noteq> 0);
          bm = pf_active_bitmap (om_portfolio st) AND my_mask
      in bitmap_fold (time_exit_slot cfg now_tick current_price n) bm st)"

subsection \<open>The emergency flatten\<close>

definition flatten_slot :: "EngineNodeCfg list \<Rightarrow> Money \<Rightarrow> nat \<Rightarrow> nat \<Rightarrow> nat \<times> EngineState \<Rightarrow> nat \<times> EngineState" where
  "flatten_slot nodes price_fpn partial_on slot = (\<lambda>(submitted, st).
     let logical_core = nat (Sharded_SlotNode (int slot) (partial_on \<noteq> 0));
         qty = p_quantity (position_at st slot);
         sid = nx_resolved_strategy_id (node_at st logical_core);
         leg = word_of_nat ((slot mod 2) * partial_on);
         (ok, st) = OMS_PushExitForSlot st (int slot) qty sid price_fpn leg
                      (Some (PerNodeCfg.truncate (nodes ! logical_core)))
     in (submitted + of_bool ok, st))"

definition EventLoop_FlattenAll :: "EngineNodeCfg list \<Rightarrow> f64 \<Rightarrow> EngineState \<Rightarrow> nat \<times> EngineState" where
  "EventLoop_FlattenAll nodes current_price st =
     (let bm = pf_active_bitmap (om_portfolio st);
          price_fpn = (if f64_gt current_price (F64_Fin 0) then Money (money_from_double_payload current_price) else Money_Zero);
          partial_on = oms_partial_on st
      in bitmap_fold (flatten_slot nodes price_fpn partial_on) bm (0, st))"

subsection \<open>Staleness and recovery\<close>

definition GATE_LAZY_REBUILD_ACTIVE :: nat where "GATE_LAZY_REBUILD_ACTIVE = 7"
definition GATE_WS_FLATTEN_ACTIVE :: nat where "GATE_WS_FLATTEN_ACTIVE = 8"
definition GATE_BREAKEVEN_ON_PROFIT :: nat where "GATE_BREAKEVEN_ON_PROFIT = 9"

definition SLOW_PATH_GATE_AUTOPOPULATE_ENGINE_WIDE :: "ControllerConfig \<Rightarrow> EngineState \<Rightarrow> EngineState" where
  "SLOW_PATH_GATE_AUTOPOPULATE_ENGINE_WIDE cfg st = st\<lparr>el_global_gate_flags :=
     (if cc_lazy_rebuild_enabled cfg then BITMAP_BIT GATE_LAZY_REBUILD_ACTIVE else 0)
     OR (if cc_ws_dead_time_flatten_enabled cfg then BITMAP_BIT GATE_WS_FLATTEN_ACTIVE else 0)
     OR (if cc_breakeven_on_profit cfg then BITMAP_BIT GATE_BREAKEVEN_ON_PROFIT else 0)\<rparr>"

definition EventLoop_CheckWsStaleness :: "ControllerConfig \<Rightarrow> f64 \<Rightarrow> u64 \<Rightarrow> EngineState \<Rightarrow> nat \<times> EngineState" where
  "EventLoop_CheckWsStaleness cfg current_price now_us st =
     (let st = SLOW_PATH_GATE_AUTOPOPULATE_ENGINE_WIDE cfg st
      in if \<not> BITMAP_IS_SET (el_global_gate_flags st) (BITMAP_BIT GATE_WS_FLATTEN_ACTIVE) then (0, st)
         else let last = el_ws_last_tick_us st
              in if last = 0 then (0, st)
                 else let gap_us = (if last < now_us then now_us - last else 0);
                          threshold_us = word_of_int (cc_ws_dead_time_flatten_threshold_secs cfg) * 1000000
                      in if gap_us < threshold_us then (0, st)
                         else if om_flatten_pending st \<noteq> 0 then (0, st)
                         else let st = st\<lparr>om_flatten_pending := 1\<rparr>;
                                  deadline_us = now_us + word_of_int (cc_recovery_delay_secs cfg) * 1000000;
                                  st = st\<lparr>om_recovery_until_us := deadline_us\<rparr>
                              in EventLoop_FlattenAll (cc_nodes cfg) current_price st)"

definition EventLoop_TryClearRecovery :: "'a oms \<Rightarrow> u64 \<Rightarrow> bool \<times> 'a oms" where
  "EventLoop_TryClearRecovery oms now_us =
     (let until_us = om_recovery_until_us oms
      in if until_us = 0 then (False, oms)
         else if now_us < until_us then (False, oms)
         else (True, oms\<lparr>om_recovery_until_us := 0, om_flatten_pending := 0\<rparr>))"

subsection \<open>The breakeven ratchet\<close>

definition breakeven_fee :: "ControllerConfig \<Rightarrow> nat \<Rightarrow> f64" where
  "breakeven_fee cfg n =
     (let node_cfg = cc_nodes cfg ! n
      in Money_ToDouble (if \<not> Money_IsZero (nc_fee_rate_taker node_cfg) then nc_fee_rate_taker node_cfg else nc_fee_rate node_cfg))"

definition breakeven_level :: "ControllerConfig \<Rightarrow> nat \<Rightarrow> f64 \<Rightarrow> Money" where
  "breakeven_level cfg n entry_d =
     Money (money_from_double_payload
       (f64_mul entry_d (f64_sub (F64_Fin 1) (f64_mul (F64_Fin 3) (breakeven_fee cfg n)))))"

definition breakeven_slot :: "ControllerConfig \<Rightarrow> f64 \<Rightarrow> nat \<Rightarrow> nat \<Rightarrow> EngineState \<Rightarrow> EngineState" where
  "breakeven_slot cfg current_price n slot st =
     (let entry_d = Money_ToDouble (p_entry_price (position_at st slot))
      in if f64_le entry_d (F64_Fin 0) then st
         else if f64_lt (node_gain current_price entry_d) (f64_mul (F64_Fin 2) (breakeven_fee cfg n)) then st
         else let breakeven_sl = breakeven_level cfg n entry_d;
                  existing = gp_ratchet_sl (nx_pending_params (node_at st n))
              in if Money_Gt breakeven_sl existing
                 then upd_node n (\<lambda>x. node_flag_set NODE_STATE_DIRTY
                        (x\<lparr>nx_pending_params := (nx_pending_params x)\<lparr>gp_ratchet_sl := breakeven_sl\<rparr>\<rparr>)) st
                 else st)"

definition EventLoop_BreakevenOnProfitOneCore :: "ControllerConfig \<Rightarrow> f64 \<Rightarrow> nat \<Rightarrow> EngineState \<Rightarrow> EngineState" where
  "EventLoop_BreakevenOnProfitOneCore cfg current_price n st =
     (let my_mask = BITMAP_NODE_SLOT_MASK n (oms_partial_on st \<noteq> 0);
          bm = pf_active_bitmap (om_portfolio st) AND my_mask
      in bitmap_fold (breakeven_slot cfg current_price n) bm st)"

subsection \<open>The permission after warm-up\<close>

text \<open>The grant reads the published kill word and then writes the core's permission.  The rolling window's
  sample count is an argument.\<close>

definition grant_reads_kill :: "EngineState \<Rightarrow> bool" where
  "grant_reads_kill st = (ag_kill_word (el_agg st) AND KILLWORD_MASK_GLOBAL \<noteq> 0)"

definition grant_permission :: "ControllerConfig \<Rightarrow> int \<Rightarrow> bool \<Rightarrow> nat \<Rightarrow> EngineState \<Rightarrow> EngineState" where
  "grant_permission cfg samples global_kill n st =
     (let min_samples = (if 0 < cc_min_warmup_samples cfg then cc_min_warmup_samples cfg else 64)
      in if \<not> global_kill \<and> sint min_samples \<le> samples \<and> nx_strategy_id (node_at st n) \<noteq> STRATEGY_NONE
         then upd_node n (\<lambda>x. x\<lparr>nx_core := map_option (\<lambda>c. ExecutionCore_SetPermission c 1) (nx_core x)\<rparr>) st
         else st)"

definition warmup_grant :: "ControllerConfig \<Rightarrow> int \<Rightarrow> nat \<Rightarrow> EngineState \<Rightarrow> EngineState" where
  "warmup_grant cfg samples n st = grant_permission cfg samples (grant_reads_kill st) n st"

subsection \<open>What the exits leave alone\<close>

text \<open>Whatever a push on a submit queue and a reset of a node's entry stamp leave alone, the exits leave
  alone.\<close>

lemma fold_same: "(\<And>x s. h (f x s) = h s) \<Longrightarrow> h (fold f xs s) = h s"
  by (induction xs arbitrary: s) simp_all

lemma exits_same:
  assumes push: "\<And>s c. h (snd (OMS_PushSubmit s c)) = h s"
    and stamp: "\<And>s n t. h (upd_node n (\<lambda>x. x\<lparr>nx_last_entry_tick := t\<rparr>) s) = h s"
  shows "h (EventLoop_TimeExitOneCore cfg now_tick px n st) = h st" "h (snd (EventLoop_FlattenAll nodes px st)) = h st"
proof -
  have p: "h (snd (OMS_PushExitForSlot s slot q sid ev leg nc)) = h s" for s slot q sid ev leg nc
    by (simp add: OMS_PushExitForSlot_def Let_def push)
  have "h (time_exit_slot cfg now_tick px n i s) = h s" for i s
    by (simp add: time_exit_slot_def Let_def stamp p)
  then show "h (EventLoop_TimeExitOneCore cfg now_tick px n st) = h st"
    unfolding EventLoop_TimeExitOneCore_def bitmap_fold_def Let_def by (rule fold_same)
  have "h (snd (flatten_slot nodes pr k i q)) = h (snd q)" for pr k i q
    by (cases q) (simp add: flatten_slot_def Let_def split_def p)
  then show "h (snd (EventLoop_FlattenAll nodes px st)) = h st"
    unfolding EventLoop_FlattenAll_def bitmap_fold_def Let_def by (subst fold_same [where h = "\<lambda>q. h (snd q)"]) simp_all
qed

lemma staleness_same:
  assumes "\<And>s c. h (snd (OMS_PushSubmit s c)) = h s" "\<And>s n t. h (upd_node n (\<lambda>x. x\<lparr>nx_last_entry_tick := t\<rparr>) s) = h s"
    and "\<And>s w. h (s\<lparr>el_global_gate_flags := w\<rparr>) = h s"
    and "\<And>s d. h (s\<lparr>om_flatten_pending := 1, om_recovery_until_us := d\<rparr>) = h s"
  shows "h (snd (EventLoop_CheckWsStaleness cfg px now_us st)) = h st"
  using assms(3,4) exits_same(2) [where h = h, OF assms(1,2)]
  by (simp add: EventLoop_CheckWsStaleness_def SLOW_PATH_GATE_AUTOPOPULATE_ENGINE_WIDE_def Let_def)

end
