(* ===== verification/Engine_Books.thy ===== *)
theory Engine_Books
  imports Engine_Fills Order_Phased Engine_Exits
begin

unbundle bit_operations_syntax

subsection \<open>The whole engine keeps the in-flight table\<close>

text \<open>
  Steps of the composed system: calls of the order manager wired to the engine's sink, the phased drain
  and its phases, a compose, a drain of the cores, the slow path's exits, and any write of the other
  threads to the aggregator's request words or to the nodes.
\<close>

inductive engine_step :: "EngineState \<Rightarrow> EngineState \<Rightarrow> bool" where
  es_oms: "oms_step (\<lambda>env. env_emit env = EngineCommon_FillEmitSink env0) st st' \<Longrightarrow> engine_step st st'"
| es_compose: "engine_step st (EngineCommon_ComposeAndKillEval env self cfg price publish_tick st)"
| es_drain: "engine_step st (snd (EngineCommon_DrainEventsAndSubmit st now_tick wall_us cfg))"
| es_buckets: "OrderManager_DrainIntoBuckets fuel st b = Some (st', b') \<Longrightarrow> engine_step st st'"
| es_closes: "env_emit env = EngineCommon_FillEmitSink env0 \<Longrightarrow> engine_step st (OrderManager_ProcessBucket_Closes env b st)"
| es_opens: "env_emit env = EngineCommon_FillEmitSink env0 \<Longrightarrow> engine_step st (OrderManager_ProcessBucket_Opens env b st)"
| es_reconciles: "env_emit env = EngineCommon_FillEmitSink env0 \<Longrightarrow> engine_step st (OrderManager_ProcessBucket_Reconciles env b st)"
| es_time_exit: "engine_step st (EventLoop_TimeExitOneCore cfg now_tick px n st)"
| es_flatten: "engine_step st (snd (EventLoop_FlattenAll nodes px st))"
| es_staleness: "engine_step st (snd (EventLoop_CheckWsStaleness cfg px now_us st))"
| es_recovery: "engine_step st (snd (EventLoop_TryClearRecovery st now_us))"
| es_agg: "engine_step st (upd_agg g st)"
| es_node: "engine_step st (upd_node n f st)"

inductive engine_reach :: "EngineState \<Rightarrow> EngineState \<Rightarrow> bool" where
  er_refl: "engine_reach st st"
| er_step: "engine_reach a b \<Longrightarrow> engine_step b c \<Longrightarrow> engine_reach a c"

lemma table_push_submit: "oms_table (snd (OMS_PushSubmit st cmd)) = oms_table st"
  by (simp add: OMS_PushSubmit_def Let_def split_def oms_table_def)

lemma table_drain_event: "oms_table (snd (drain_event t w cfg n e p)) = oms_table (snd p)"
  by (cases p) (simp add: drain_event_def Let_def table_push_submit)

lemma table_drain_node: "oms_table (snd (drain_node k t w cfg n p)) = oms_table (snd p)"
proof (induction k t w cfg n p rule: drain_node.induct)
  case (2 k t w cfg n d st)
  show ?case
  proof (cases "nx_core (node_at st n)")
    case (Some core)
    obtain m r where p: "SPSCRing_TryPop (ec_event_ring core) = (m, r)" by (cases "SPSCRing_TryPop (ec_event_ring core)")
    show ?thesis
    proof (cases m)
      case (Some e)
      then show ?thesis using \<open>nx_core (node_at st n) = Some core\<close> p 2 by (simp add: Let_def table_drain_event)
    qed (use Some p in simp)
  qed simp
qed simp

lemma table_drain: "oms_table (snd (EngineCommon_DrainEventsAndSubmit st t w cfg)) = oms_table st"
proof -
  have "oms_table (snd (fold (drain_node k t w cfg) ns p)) = oms_table (snd p)" for k ns p
    by (induction ns arbitrary: p) (simp_all add: table_drain_node)
  then show ?thesis by (simp add: EngineCommon_DrainEventsAndSubmit_def)
qed

lemma table_exits:
  "oms_table (EventLoop_TimeExitOneCore cfg now_tick px n st) = oms_table st"
  "oms_table (snd (EventLoop_FlattenAll nodes px st)) = oms_table st"
  "oms_table (snd (EventLoop_CheckWsStaleness cfg px now_us st)) = oms_table st"
  "oms_table (snd (EventLoop_TryClearRecovery st now_us)) = oms_table st"
proof -
  have n: "oms_table (upd_node n f s) = oms_table s" for n f s by (simp add: oms_table_def upd_node_def)
  show "oms_table (EventLoop_TimeExitOneCore cfg now_tick px n st) = oms_table st"
    "oms_table (snd (EventLoop_FlattenAll nodes px st)) = oms_table st"
    by (rule exits_same [where h = oms_table, OF table_push_submit n])+
  show "oms_table (snd (EventLoop_CheckWsStaleness cfg px now_us st)) = oms_table st"
    by (rule staleness_same [where h = oms_table, OF table_push_submit n]) (simp_all add: oms_table_def)
  show "oms_table (snd (EventLoop_TryClearRecovery st now_us)) = oms_table st"
    by (simp add: EventLoop_TryClearRecovery_def Let_def oms_table_def)
qed

text \<open>With the order manager wired to the engine (its fills going through the per-node rings,
  composes and drains in between, other threads writing nodes and requests at will), every entry
  of the in-flight table in use holds a live market order whose id names that entry.\<close>

theorem engine_table_invariant:
  assumes "engine_reach st st'" "length (om_orders st) = MAX_INFLIGHT_ORDERS" "om_order_bitmap st = 0"
  shows "length (om_orders st') = MAX_INFLIGHT_ORDERS \<and>
    (\<forall>i. bit (om_order_bitmap st') i \<longrightarrow> OMS_OrderIdSlot (o_id (om_orders st' ! i)) = i \<and>
       Order_GetType (om_orders st' ! i) \<in> {ORDER_MARKET_BUY, ORDER_MARKET_SELL} \<and>
       \<not> Order_IsTerminal (om_orders st' ! i))"
proof -
  have step: "inflight_ok b" if "engine_step a b" "inflight_ok a" for a b
    using that
  proof cases
    case (es_oms env0)
    then show ?thesis using engine.oms_step_inflight that(2) by blast
  next
    case (es_closes env env0 bk)
    then show ?thesis using phases_keep(1) [OF engine.drain_inflight that(2)] by blast
  next
    case (es_opens env env0 bk)
    then show ?thesis using phases_keep(2) [OF engine.drain_inflight that(2)] by blast
  next
    case (es_reconciles env env0 bk)
    then show ?thesis using phases_keep(3) [OF engine.drain_inflight that(2)] by blast
  next
    case (es_buckets fuel bk bk')
    then show ?thesis using table_buckets that(2) by (blast intro: inflight_table)
  qed (use that(2) in \<open>auto simp: table_compose table_drain table_exits elim!: inflight_table [rotated]\<close>)
  from assms(1) have "inflight_ok st \<Longrightarrow> inflight_ok st'"
    by (induction rule: engine_reach.induct) (auto intro: step)
  moreover have "inflight_ok st" using assms(2,3) by (simp add: inflight_ok_def inflight_almost_def)
  ultimately show ?thesis
    by (auto simp: inflight_ok_def inflight_almost_def order_id_ok_def order_at_def)
qed

subsection \<open>The rings are applied whole and in order\<close>

definition rings_ok :: "EngineState \<Rightarrow> bool" where
  "rings_ok st \<longleftrightarrow> length (rings_of st) = MAX_EXECUTION_NODES \<and> (\<forall>n < MAX_EXECUTION_NODES. ring_ok (rings_of st ! n))"

lemma fill_rings_apply:
  assumes "rings_ok st"
  shows "\<exists>rs. fst (EngineCommon_FillRingsApply env st) = sum_list (map (\<lambda>n. length (ring_items (rings_of st ! n))) [0..<MAX_EXECUTION_NODES]) \<and>
    same_but_events (set_rings rs (fold (apply_node (rings_of st)) [0..<MAX_EXECUTION_NODES] st))
      (snd (EngineCommon_FillRingsApply env st)) \<and>
    rings_of (snd (EngineCommon_FillRingsApply env st)) = rs \<and> length rs = MAX_EXECUTION_NODES \<and>
    (\<forall>n < MAX_EXECUTION_NODES. ring_ok (rs ! n) \<and> ring_items (rs ! n) = [] \<and> ring_room (rings_of st ! n) \<le> ring_room (rs ! n))"
proof -
  obtain rs where rs: "drained_rings st =
      (0 + sum_list (map (\<lambda>n. length (ring_items (rings_of st ! n))) [0..<MAX_EXECUTION_NODES]),
       set_rings rs (fold (apply_node (rings_of st)) [0..<MAX_EXECUTION_NODES] st))"
    "length rs = length (rings_of st)" "\<forall>n < length (rings_of st). ring_ok (rs ! n)"
    "\<forall>n < length (rings_of st). ring_items (rs ! n) = (if n \<in> set [0..<MAX_EXECUTION_NODES] then [] else ring_items (rings_of st ! n))"
    "\<forall>n < length (rings_of st). ring_room (rings_of st ! n) \<le> ring_room (rs ! n)"
    using drained_fold [of "[0..<MAX_EXECUTION_NODES]" "rings_of st" st 0] assms
    unfolding drained_rings_def rings_ok_def by auto
  let ?st' = "snd (EngineCommon_FillRingsApply env st)"
  have s: "same_but_events (snd (drained_rings st)) ?st'"
    unfolding fill_rings_apply_eq snd_conv by (rule funnel_drain_same) simp
  have "rings_of (without_events ?st') = rings_of (without_events (snd (drained_rings st)))"
    using s by (simp add: same_but_events_def)
  then have "rings_of ?st' = rs"
    using rs(1) by (simp add: rings_of_def without_events_def set_rings_def upd_agg_def)
  then show ?thesis
    using rs s assms by (auto simp: fill_rings_apply_eq rings_ok_def intro!: exI [of _ rs])
qed

text \<open>A compose's first act: on well-formed rings it applies every queued fill event exactly once,
  node by node and in the order of arrival within a node, leaves every ring empty, and changes
  nothing else but the event transport.\<close>

theorem EngineCommon_FillRingsApply_spec:
  assumes "rings_ok st"
  shows "\<exists>rs. fst (EngineCommon_FillRingsApply env st) = sum_list (map (\<lambda>n. length (ring_items (rings_of st ! n))) [0..<MAX_EXECUTION_NODES]) \<and>
    same_but_events (set_rings rs (fold (apply_node (rings_of st)) [0..<MAX_EXECUTION_NODES] st))
      (snd (EngineCommon_FillRingsApply env st)) \<and>
    rings_of (snd (EngineCommon_FillRingsApply env st)) = rs \<and>
    (\<forall>n < MAX_EXECUTION_NODES. ring_ok (rs ! n) \<and> ring_items (rs ! n) = [])"
  using fill_rings_apply [OF assms, of env] by blast

lemma rings_after_push:
  assumes "ring_ok r" "0 < ring_room r" "SPSCRing_TryPush r x = (ok, r')"
  shows "ring_ok r'" "ok \<longleftrightarrow> length (ring_items r) < ring_N r"
    "ring_items r' = (if length (ring_items r) < ring_N r then ring_items r @ [x] else ring_items r)"
  using ring.push_law [OF assms] by simp_all

lemma rings_upd: "rings_of (upd_agg (\<lambda>a. a\<lparr>ag_fill_rings := (ag_fill_rings a)[n := r]\<rparr>) st) = (rings_of st)[n := r]"
  by (simp add: rings_of_def upd_agg_def)

lemma set_rings_upd: "set_rings q (upd_agg (\<lambda>a. a\<lparr>ag_fill_rings := (ag_fill_rings a)[n := r]\<rparr>) st) = set_rings q st"
  by (simp add: set_rings_def upd_agg_def)

definition full_counted :: "EngineState \<Rightarrow> nat \<Rightarrow> FillEvent spsc_ring \<Rightarrow> EngineState" where
  "full_counted st n r = upd_agg (\<lambda>a. a\<lparr>ag_fill_ring_full_events := ag_fill_ring_full_events a + 1\<rparr>)
     (set_rings ((rings_of st)[n := r]) st)"

text \<open>The sink never loses a fill: an event goes to the back of its node's ring and nothing else
  changes; when that ring is full, everything queued is applied first and the event then queued
  alone, in rings that are otherwise empty.\<close>

theorem EngineCommon_FillEmit_keeps:
  assumes "rings_ok st" "fe_node fe = int n" "n < MAX_EXECUTION_NODES" "0 < ring_room (rings_of st ! n)"
  shows "fst (EngineCommon_FillEmit env st fe) \<and> rings_ok (snd (EngineCommon_FillEmit env st fe)) \<and>
    (if length (ring_items (rings_of st ! n)) < ring_N (rings_of st ! n)
     then \<exists>r. ring_items r = ring_items (rings_of st ! n) @ [fe] \<and>
       snd (EngineCommon_FillEmit env st fe) = set_rings ((rings_of st)[n := r]) st
     else \<exists>r s. ring_items r = ring_items (rings_of st ! n) \<and> ring_items s = [fe] \<and>
       (let st1 = snd (EngineCommon_FillRingsApply env (full_counted st n r))
        in snd (EngineCommon_FillEmit env st fe) = set_rings ((rings_of st1)[n := s]) st1 \<and>
           (\<forall>m < MAX_EXECUTION_NODES. ring_items (rings_of st1 ! m) = [])))"
proof -
  let ?r0 = "rings_of st ! n"
  obtain ok r where p: "SPSCRing_TryPush ?r0 fe = (ok, r)" by (cases "SPSCRing_TryPush ?r0 fe")
  have okr: "ring_ok ?r0" using assms(1,3) by (simp add: rings_ok_def)
  note r = rings_after_push [OF okr assms(4) p]
  have up: "upd_agg (\<lambda>a. a\<lparr>ag_fill_rings := (ag_fill_rings a)[n := q]\<rparr>) x = set_rings ((rings_of x)[n := q]) x" for q x
    by (simp add: set_rings_def rings_of_def upd_agg_def)
  have e: "EngineCommon_FillEmit env st fe =
     (if ok then (True, set_rings ((rings_of st)[n := r]) st)
      else let st1 = snd (EngineCommon_FillRingsApply env (full_counted st n r));
               (ok2, s) = SPSCRing_TryPush (rings_of st1 ! n) fe
           in (ok2, set_rings ((rings_of st1)[n := s]) st1))"
    using p assms(2) unfolding EngineCommon_FillEmit_def assms(2) nat_int full_counted_def up rings_of_def [symmetric]
    by (simp add: up Let_def)
  show ?thesis
  proof (cases ok)
    case True
    have "rings_ok (set_rings ((rings_of st)[n := r]) st)"
      using assms(1,3) r(1) by (auto simp: rings_ok_def nth_list_update)
    then show ?thesis using True r e by auto
  next
    case False
    let ?st1 = "snd (EngineCommon_FillRingsApply env (full_counted st n r))"
    have full: "rings_of (full_counted st n r) = (rings_of st)[n := r]"
      unfolding full_counted_def by (simp add: rings_of_def set_rings_def upd_agg_def)
    have ok0: "rings_ok (full_counted st n r)"
      using assms(1,3) r(1) by (auto simp: rings_ok_def full nth_list_update)
    from fill_rings_apply [OF this, of env] obtain rs where rs:
      "rings_of ?st1 = rs" "length rs = MAX_EXECUTION_NODES"
      "\<forall>m < MAX_EXECUTION_NODES. ring_ok (rs ! m) \<and> ring_items (rs ! m) = [] \<and>
         ring_room (rings_of (full_counted st n r) ! m) \<le> ring_room (rs ! m)" by blast
    have rr: "ring_room r = ring_room ?r0"
      using p False by (auto simp: ring_room_def SPSCRing_TryPush_def Let_def split: if_splits)
    obtain ok2 s where q: "SPSCRing_TryPush (rs ! n) fe = (ok2, s)" by (cases "SPSCRing_TryPush (rs ! n) fe")
    have m: "0 < ring_room (rs ! n)" "ring_ok (rs ! n)" "ring_items (rs ! n) = []"
      using rs(3) assms(1,3,4) rr by (fastforce simp: full rings_ok_def)+
    have "0 < ring_N (rs ! n)" using m(2) by (auto simp: ring_ok_def ring_geom_def)
    then have s: "ring_ok s" "ok2" "ring_items s = [fe]"
      using rings_after_push [OF m(2) m(1) q] m(3) by simp_all
    have "EngineCommon_FillEmit env st fe = (True, set_rings ((rings_of ?st1)[n := s]) ?st1)"
      using e False q rs(1) s(2) by (simp add: Let_def)
    moreover have "rings_ok (set_rings ((rings_of ?st1)[n := s]) ?st1)"
      using rs s(1) assms(3) by (auto simp: rings_ok_def nth_list_update)
    ultimately show ?thesis using False r s rs by (auto simp: Let_def)
  qed
qed

end
