(* ===== verification/Sink_Invariant.thy ===== *)
theory Sink_Invariant
  imports Order_Calls
begin

text \<open>
  A law about everything around the order manager.  An order manager embedded in a larger state
  writes that state only through its fill sink, so an invariant of the outer state that the sink
  keeps holds after every call of the order manager.
\<close>

unbundle bit_operations_syntax

locale sink_invariant =
  fixes emit :: "'a oms \<Rightarrow> FillEvent \<Rightarrow> 'a oms" and I :: "'a oms \<Rightarrow> bool"
  assumes emit_keeps: "I oms \<Longrightarrow> I (emit oms fe)"
    and outer: "om_oms_state_flags a = om_oms_state_flags b \<Longrightarrow> OrderManagerState.more a = OrderManagerState.more b \<Longrightarrow> I a = I b"
begin

lemma outer_simps [simp]:
  "I (set_order s f oms) = I oms" "I (oms\<lparr>om_orders := x1\<rparr>) = I oms" "I (oms\<lparr>om_order_bitmap := x2\<rparr>) = I oms"
  "I (oms\<lparr>om_total_filled := x3\<rparr>) = I oms" "I (oms\<lparr>om_total_rejected := x4\<rparr>) = I oms"
  "I (oms\<lparr>om_portfolio := x5\<rparr>) = I oms" "I (oms\<lparr>om_ws_result_queue := x6\<rparr>) = I oms"
  "I (oms\<lparr>om_reconcile_queue := x7\<rparr>) = I oms" "I (oms\<lparr>om_last_opened_mask := x8\<rparr>) = I oms"
  "I (oms\<lparr>om_fill_emit_seq := x9\<rparr>) = I oms" "I (oms\<lparr>om_portfolio := x5, om_last_opened_mask := x8\<rparr>) = I oms"
  by (rule outer; simp add: set_order_def)+

lemma sell_memory_keeps [simp]:
  "I (sell_trade_memory k f r n nt oms) = I oms" "I (sell_slot_memory k f px x oms) = I oms"
  by (rule outer; simp add: sell_trade_memory_def sell_slot_memory_def Let_def)+

lemma same_events_keep: "same_but_events a b \<Longrightarrow> I b = I a"
proof -
  assume "same_but_events a b"
  then have "without_events a = without_events b" by (simp add: same_but_events_def)
  from arg_cong [OF this, of om_oms_state_flags] arg_cong [OF this, of OrderManagerState.more]
  show ?thesis by (intro outer) (simp_all add: without_events_def)
qed

lemma funnel_keeps [simp]: "I (OMS_EventFunnelPush env oms ev s) = I oms"
  by (rule same_events_keep) (rule funnel_push_same)

lemma emit_fill_keeps:
  assumes "env_emit env = emit" "I oms"
  shows "I (emit_fill env oms od b fl q px fee net n efl)"
  using assms by (simp add: emit_fill_def Let_def emit_keeps)

lemma handle_fill_keeps:
  assumes env: "env_emit env = emit" and "I oms"
  shows "I (OrderManager_HandleFill env oms od px q c a)"
proof -
  have "I (handle_buy_fill env o1 od px q fee)" "I (handle_sell_fill env o1 od px q fee)" if "I o1" for o1 q fee
    using that by (simp_all add: handle_buy_fill_def handle_sell_fill_def sell_book_eq Let_def emit_fill_keeps [OF env])
  then show ?thesis
    using assms(2) by (simp add: OrderManager_HandleFill_def g_fill_dispatch_def Let_def split: OrderType.split)
qed

lemma submit_keeps [simp]: "I (snd (OrderManager_Submit env oms cmd)) = I oms"
  by (rule outer; simp add: OrderManager_Submit_def submit_entered_def reject_submit_def OMS_ResultPush_def set_order_def Let_def split_def)

lemma terminal_keeps [simp]: "I (terminal_incomplete env s oms) = I oms"
  by (simp add: terminal_incomplete_def Let_def split_def)

lemma apply_leg_keeps:
  assumes "env_emit env = emit" "I oms"
  shows "I (apply_leg env s r oms)"
  using assms(2) by (simp add: apply_leg_def Let_def handle_fill_keeps [OF assms(1)])

lemma process_keeps:
  assumes "env_emit env = emit" "I oms"
  shows "I (snd (OrderManager_ProcessFillCommand env oms cmd))"
proof -
  have "I (free_if_terminal s o1) = I o1" for s o1 by (simp add: free_if_terminal_def Let_def)
  moreover have "I (process_failure env s r o1) = I o1" for s r o1 by (simp add: process_failure_def Let_def)
  ultimately show ?thesis
    using assms(2) unfolding OrderManager_ProcessFillCommand_def Let_def
    by (simp add: apply_leg_keeps [OF assms(1)] split: option.split)
qed

lemma sink_drain_keeps:
  assumes "env_emit env = emit"
  shows "drain_keeps I env"
proof -
  have p: "om_oms_state_flags (snd (OMS_ResultPop o1)) = om_oms_state_flags o1"
    "OrderManagerState.more (snd (OMS_ResultPop o1)) = OrderManagerState.more o1" for o1 :: "'a oms"
    using arg_cong [OF result_pop_frame(2) [of o1], of om_oms_state_flags]
      arg_cong [OF result_pop_frame(2) [of o1], of OrderManagerState.more] by simp_all
  have "I (snd (OMS_ResultPop o1)) = I o1" for o1 by (rule outer) (simp_all add: p)
  moreover have "I (OrderManager_ProcessReconcile env o1 cmd) = I o1" for o1 cmd
    by (simp add: OrderManager_ProcessReconcile_def Let_def)
  ultimately show ?thesis
    unfolding drain_keeps_def using process_keeps [OF assms] by simp
qed

lemma oms_step_keeps:
  assumes "oms_step (\<lambda>env. env_emit env = emit) oms oms'" "I oms"
  shows "I oms'"
  using assms
proof cases
  case (step_submit env cmd)
  then show ?thesis using assms(2) by simp
next
  case (step_push_submit cmd)
  show ?thesis
    using assms(2) unfolding step_push_submit
    by (subst outer [of _ oms]) (simp_all add: OMS_PushSubmit_def Let_def split_def)
next
  case (step_result i r)
  show ?thesis
    using assms(2) unfolding step_result
    by (subst outer [of _ oms]) (simp_all add: OrderManager_FillResultCallback_def OMS_ResultPush_def Let_def split_def)
next
  case (step_tick env fuel)
  have "drain_keeps I env" by (rule sink_drain_keeps [OF step_tick(1)])
  then show ?thesis using tick_rule assms(2) step_tick(2) by blast
qed (use assms(2) in simp_all)

end

end
