(* ===== verification/Engine_Runs.thy ===== *)
theory Engine_Runs
  imports Engine_Books Sink_Invariant
begin

text \<open>
  Runs of the composed engine: what its calls leave of the state around the order manager, the kill
  switch along a run, and the view a compose publishes.
\<close>

unbundle bit_operations_syntax

subsection \<open>Flags, permissions and array sizes\<close>

definition core_perms :: "EngineState \<Rightarrow> u8 option list" where
  "core_perms st = map (\<lambda>x. map_option ec_permission (nx_core x)) (el_nodes st)"

definition agg_sizes :: "AggregatorState \<Rightarrow> nat list \<times> nat \<times> nat \<times> nat \<times> nat" where
  "agg_sizes a = (map ring_N (ag_fill_rings a), ring_N (ag_drag_ring a), length (ag_applied_seq a),
     length (ag_slot_notional a), length (ag_pending_trade_net a))"

definition engine_core :: "EngineState \<Rightarrow> u8 \<times> int \<times> u8 option list \<times> (nat list \<times> nat \<times> nat \<times> nat \<times> nat)" where
  "engine_core st = (om_oms_state_flags st, el_registered_count st, core_perms st, agg_sizes (el_agg st))"

text \<open>The aggregator without what applying a fill writes.\<close>

definition agg_quiet :: "AggregatorState \<Rightarrow> AggregatorState" where
  "agg_quiet a = a\<lparr>ag_fill_rings := [], ag_applied_seq := [], ag_slot_notional := [], ag_pending_trade_net := [],
     ag_fill_ring_full_events := 0\<rparr>"

definition engine_outer ::
  "EngineState \<Rightarrow> (u8 \<times> int \<times> u8 option list \<times> (nat list \<times> nat \<times> nat \<times> nat \<times> nat)) \<times> AggregatorState" where
  "engine_outer st = (engine_core st, agg_quiet (el_agg st))"

lemma perms_upd: "(\<And>x. map_option ec_permission (nx_core (f x)) = map_option ec_permission (nx_core x)) \<Longrightarrow>
    core_perms (upd_node n f st) = core_perms st"
  by (cases "n < length (el_nodes st)")
    (auto simp: core_perms_def upd_node_def map_update intro!: nth_equalityI simp: nth_list_update)

lemma outer_upd_node:
  "(\<And>x. map_option ec_permission (nx_core (f x)) = map_option ec_permission (nx_core x)) \<Longrightarrow>
    engine_outer (upd_node n f st) = engine_outer st"
  using perms_upd [of f n st] by (simp add: engine_outer_def engine_core_def) (simp add: upd_node_def)

lemma outer_upd_agg:
  "agg_sizes (g (el_agg st)) = agg_sizes (el_agg st) \<Longrightarrow> agg_quiet (g (el_agg st)) = agg_quiet (el_agg st) \<Longrightarrow>
    engine_outer (upd_agg g st) = engine_outer st"
  by (simp add: engine_outer_def engine_core_def upd_agg_def core_perms_def)

lemma outer_frame [simp]:
  "engine_outer (st\<lparr>el_total_entries := a\<rparr>) = engine_outer st" "engine_outer (st\<lparr>el_total_exits := b\<rparr>) = engine_outer st"
  "engine_outer (st\<lparr>el_total_events_processed := c\<rparr>) = engine_outer st"
  "engine_outer (st\<lparr>el_partner_pending_bitmap := d\<rparr>) = engine_outer st"
  "engine_outer (st\<lparr>el_total_events_processed := c, el_total_entries := a\<rparr>) = engine_outer st"
  "engine_outer (st\<lparr>el_total_events_processed := c, el_total_exits := a\<rparr>) = engine_outer st"
  "engine_outer (OrderManager_LedgerApplyFill st fe) = engine_outer st"
  "engine_outer (st\<lparr>om_portfolio := e\<rparr>) = engine_outer st"
  "engine_outer (st\<lparr>om_event_log := l\<rparr>) = engine_outer st"
  by (simp_all add: engine_outer_def engine_core_def core_perms_def OrderManager_LedgerApplyFill_def OrderManager_AccountMakerTakerFee_def Let_def)

lemma sizes_simps [simp]:
  "agg_sizes (a\<lparr>ag_slot_notional := (ag_slot_notional a)[i := x]\<rparr>) = agg_sizes a"
  "agg_sizes (a\<lparr>ag_pending_trade_net := (ag_pending_trade_net a)[i := x]\<rparr>) = agg_sizes a"
  "agg_sizes (a\<lparr>ag_applied_seq := (ag_applied_seq a)[i := q]\<rparr>) = agg_sizes a"
  "agg_sizes (a\<lparr>ag_fill_ring_full_events := u\<rparr>) = agg_sizes a" "agg_sizes (a\<lparr>ag_kill_reset_mask := w\<rparr>) = agg_sizes a"
  "agg_sizes (a\<lparr>ag_kill_trip_request := w\<rparr>) = agg_sizes a" "agg_sizes (a\<lparr>ag_kill_trip_fatal_seq := w\<rparr>) = agg_sizes a"
  "agg_sizes (a\<lparr>ag_save_request := w\<rparr>) = agg_sizes a" "agg_sizes (a\<lparr>ag_publish := p\<rparr>) = agg_sizes a"
  "agg_sizes (a\<lparr>ag_kill_word := u, ag_generation := v\<rparr>) = agg_sizes a"
  "agg_sizes (a\<lparr>ag_composer_identity_violations := w\<rparr>) = agg_sizes a"
  by (simp_all add: agg_sizes_def)

lemma quiet_simps [simp]:
  "agg_quiet (a\<lparr>ag_slot_notional := x1\<rparr>) = agg_quiet a" "agg_quiet (a\<lparr>ag_pending_trade_net := x2\<rparr>) = agg_quiet a"
  "agg_quiet (a\<lparr>ag_applied_seq := x3\<rparr>) = agg_quiet a" "agg_quiet (a\<lparr>ag_fill_ring_full_events := u\<rparr>) = agg_quiet a"
  "agg_quiet (a\<lparr>ag_fill_rings := x4\<rparr>) = agg_quiet a"
  by (simp_all add: agg_quiet_def)

lemma push_N: "SPSCRing_TryPush r x = (ok, r') \<Longrightarrow> ring_N r' = ring_N r"
  by (auto simp: SPSCRing_TryPush_def Let_def ring_N_def split: if_splits)

lemma pop_N: "SPSCRing_TryPop r = (m, r') \<Longrightarrow> ring_N r' = ring_N r"
  by (auto simp: SPSCRing_TryPop_def Let_def ring_N_def split: if_splits)

lemma sizes_fill_ring: "ring_N r = ring_N (ag_fill_rings a ! n) \<Longrightarrow>
    agg_sizes (a\<lparr>ag_fill_rings := (ag_fill_rings a)[n := r]\<rparr>) = agg_sizes a"
  by (cases "n < length (ag_fill_rings a)")
    (auto simp: agg_sizes_def map_update intro!: nth_equalityI simp: nth_list_update)

lemma outer_fill_ring: "ring_N r = ring_N (ag_fill_rings (el_agg st) ! n) \<Longrightarrow>
    engine_outer (upd_agg (\<lambda>a. a\<lparr>ag_fill_rings := (ag_fill_rings a)[n := r]\<rparr>) st) = engine_outer st"
  by (rule outer_upd_agg) (simp_all add: sizes_fill_ring)

lemma outer_fold: "(\<And>x s. engine_outer (f x s) = engine_outer s) \<Longrightarrow> engine_outer (fold f xs s) = engine_outer s"
  by (induction xs arbitrary: s) simp_all

lemma outer_trade_result: "engine_outer (book_trade_result n v st) = engine_outer st"
  unfolding book_trade_result_def Let_def by (simp add: outer_upd_node)

lemma outer_rows: "engine_outer (EngineCommon_NodeRowsBook st fe) = engine_outer st"
  unfolding EngineCommon_NodeRowsBook_def Let_def
  by (simp add: outer_upd_node outer_upd_agg outer_trade_result)

lemma outer_apply: "engine_outer (apply_fill n fe st) = engine_outer st"
  by (simp add: apply_fill_def Let_def outer_upd_agg outer_rows)

lemma outer_drain_ring: "engine_outer (snd (drain_fill_ring fuel n p)) = engine_outer (snd p)"
proof (induction fuel n p rule: drain_fill_ring.induct)
  case (2 fuel n k st)
  obtain m r where p: "SPSCRing_TryPop (rings_of st ! n) = (m, r)" by (cases "SPSCRing_TryPop (rings_of st ! n)")
  have s: "engine_outer (set_rings ((rings_of st)[n := r]) st) = engine_outer st"
    using outer_fill_ring [of r st n] pop_N [OF p] by (simp add: set_rings_def rings_of_def upd_agg_def)
  show ?case
  proof (cases m)
    case (Some fe)
    have "engine_outer (snd (drain_fill_ring fuel n (k + 1, apply_fill n fe (set_rings ((rings_of st)[n := r]) st)))) =
        engine_outer (apply_fill n fe (set_rings ((rings_of st)[n := r]) st))"
      using 2 [of "(m, r)" m r _ fe] p Some
      by (simp add: rings_of_def set_rings_def upd_agg_def)
    moreover have "engine_outer (set_rings rs (apply_fill n fe st)) = engine_outer (set_rings rs st)" for rs
      using outer_apply [of n fe "set_rings rs st"] by simp
    ultimately show ?thesis using p Some s by (simp add: drain_fill_ring_step del: drain_fill_ring.simps)
  qed (use p s in \<open>simp add: drain_fill_ring_step del: drain_fill_ring.simps\<close>)
qed simp

lemma outer_rings_apply [simp]: "engine_outer (snd (EngineCommon_FillRingsApply env st)) = engine_outer st"
proof -
  have "engine_outer (snd (fold (\<lambda>n st. drain_fill_ring (f n st) n st) ns p)) = engine_outer (snd p)" for f ns p
    by (induction ns arbitrary: p) (simp_all add: outer_drain_ring)
  then have d: "engine_outer (snd (drained_rings st)) = engine_outer st" unfolding drained_rings_def by simp
  have "same_but_events s (snd (OMS_EventFunnelDrain env s))" for s by (rule funnel_drain_same) simp
  then have "without_events s = without_events (snd (OMS_EventFunnelDrain env s))" for s by (simp add: same_but_events_def)
  from arg_cong [OF this, of engine_outer]
  have "engine_outer s = engine_outer (snd (OMS_EventFunnelDrain env s))" for s
    by (simp add: without_events_def engine_outer_def engine_core_def core_perms_def)
  then show ?thesis using d by (simp add: fill_rings_apply_eq)
qed

lemma outer_emit: "engine_outer (EngineCommon_FillEmitSink env st fe) = engine_outer st"
proof -
  let ?n = "nat (fe_node fe)"
  obtain ok r where p: "SPSCRing_TryPush (ag_fill_rings (el_agg st) ! ?n) fe = (ok, r)" by fastforce
  let ?s = "upd_agg (\<lambda>a. a\<lparr>ag_fill_rings := (ag_fill_rings a)[?n := r]\<rparr>) st"
  let ?t = "snd (EngineCommon_FillRingsApply env (upd_agg (\<lambda>a. a\<lparr>ag_fill_ring_full_events := ag_fill_ring_full_events a + 1\<rparr>) ?s))"
  obtain ok2 r2 where q: "SPSCRing_TryPush (ag_fill_rings (el_agg ?t) ! ?n) fe = (ok2, r2)" by fastforce
  have s: "engine_outer ?s = engine_outer st" using push_N [OF p] by (intro outer_fill_ring) simp
  have t: "engine_outer ?t = engine_outer st" using s by (simp add: outer_upd_agg)
  have "engine_outer (upd_agg (\<lambda>a. a\<lparr>ag_fill_rings := (ag_fill_rings a)[?n := r2]\<rparr>) ?t) = engine_outer st"
    using t push_N [OF q] by (subst outer_fill_ring) simp_all
  then show ?thesis using p q s by (simp add: EngineCommon_FillEmitSink_def EngineCommon_FillEmit_def Let_def)
qed

text \<open>The engine's sink keeps all of this, hence so does every call of the order manager.\<close>

interpretation outer: sink_invariant "EngineCommon_FillEmitSink env" "\<lambda>st. engine_outer st = k" for env k
proof
  show "engine_outer st = k \<Longrightarrow> engine_outer (EngineCommon_FillEmitSink env st fe) = k" for st fe
    by (simp add: outer_emit)
next
  fix a b :: EngineState
  assume f: "om_oms_state_flags a = om_oms_state_flags b" and m: "OrderManagerState.more a = OrderManagerState.more b"
  have "el_nodes a = el_nodes b" "el_agg a = el_agg b" "el_registered_count a = el_registered_count b"
    using m by (cases a; cases b; simp)+
  then show "(engine_outer a = k) = (engine_outer b = k)" using f by (simp add: engine_outer_def engine_core_def core_perms_def)
qed

lemma outer_oms:
  "oms_step (\<lambda>env. env_emit env = EngineCommon_FillEmitSink env0) st st' \<Longrightarrow> engine_outer st' = engine_outer st"
  using outer.oms_step_keeps [of env0 st st' "engine_outer st"] by simp

subsection \<open>The stages of a compose\<close>

definition kill_set :: "EngineState \<Rightarrow> bool" where
  "kill_set st = BITMAP_IS_SET (om_oms_state_flags st) MASK_OMS_STATE_KILL_SWITCH_TRIPPED"

definition perms_off :: "EngineState \<Rightarrow> bool" where
  "perms_off st \<longleftrightarrow> (\<forall>n < nat (el_registered_count st). \<forall>c. n < length (el_nodes st) \<longrightarrow>
     nx_core (node_at st n) = Some c \<longrightarrow> ec_permission c = 0)"

definition halted :: "EngineState \<Rightarrow> bool" where
  "halted st \<longleftrightarrow> kill_set st \<and> perms_off st"

lemma perms_off_iff:
  "perms_off st \<longleftrightarrow> (\<forall>n < nat (el_registered_count st). n < length (core_perms st) \<longrightarrow> core_perms st ! n \<in> {None, Some 0})"
  by (auto simp: perms_off_def core_perms_def node_at_def split: option.splits)

lemma halted_core: "engine_core a = engine_core b \<Longrightarrow> halted a = halted b"
  by (simp add: halted_def perms_off_iff kill_set_def engine_core_def)

lemma core_of_outer: "engine_outer a = engine_outer b \<Longrightarrow> engine_core a = engine_core b"
  by (simp add: engine_outer_def)

lemma core_upd_node:
  "(\<And>x. map_option ec_permission (nx_core (f x)) = map_option ec_permission (nx_core x)) \<Longrightarrow>
    engine_core (upd_node n f st) = engine_core st"
  by (rule core_of_outer) (rule outer_upd_node)

lemma core_upd_agg: "agg_sizes (g (el_agg st)) = agg_sizes (el_agg st) \<Longrightarrow> engine_core (upd_agg g st) = engine_core st"
  by (simp add: engine_core_def upd_agg_def core_perms_def)

lemma core_frame [simp]:
  "engine_core (st\<lparr>om_portfolio := e\<rparr>) = engine_core st" "engine_core (st\<lparr>om_event_log := l\<rparr>) = engine_core st"
  by (rule core_of_outer; simp)+

lemma core_fold: "(\<And>x s. engine_core (f x s) = engine_core s) \<Longrightarrow> engine_core (fold f xs s) = engine_core s"
  by (induction xs arbitrary: s) simp_all

lemma core_reset [simp]: "engine_core (serve_kill_reset st) = engine_core st"
  unfolding serve_kill_reset_def Let_def bitmap_fold_def
  by (subst core_fold) (simp_all add: core_upd_node core_upd_agg node_flag_clr_def)

lemma core_node_trip [simp]: "engine_core (serve_node_trip c st) = engine_core st"
  by (simp add: serve_node_trip_def core_upd_node trip_node_def node_flag_set_def)

lemma core_drag: "engine_core (apply_drag dc st) = engine_core st"
  by (simp add: apply_drag_def Let_def)

lemma core_drags [simp]: "engine_core (drain_drags fuel st) = engine_core st"
proof (induction fuel st rule: drain_drags.induct)
  case (2 fuel st)
  obtain m r where p: "SPSCRing_TryPop (ag_drag_ring (el_agg st)) = (m, r)" by fastforce
  have "engine_core (upd_agg (\<lambda>a. a\<lparr>ag_drag_ring := r\<rparr>) st) = engine_core st"
    using pop_N [OF p] by (intro core_upd_agg) (simp add: agg_sizes_def)
  then show ?case using 2 p by (simp add: Let_def core_drag split: option.split)
qed simp

lemma drawdown_core [simp]: "nx_core (node_drawdown cfg n u x) = nx_core x"
  by (simp add: node_drawdown_def Let_def trip_node_def node_flag_set_def)

lemma core_eval [simp]: "engine_core (eval_nodes cfg px st) = engine_core st"
  unfolding eval_nodes_def Let_def by (rule core_fold) (simp add: core_upd_node)

lemma core_publish [simp]: "engine_core (publish_view pt st) = engine_core st"
  by (simp add: publish_view_def Let_def core_upd_agg)

lemma core_identity [simp]: "engine_core (upd_agg (\<lambda>a. snd (Composer_AssertIdentity self a)) st) = engine_core st"
  by (rule core_upd_agg) (simp add: Composer_AssertIdentity_def)

end
