(* ===== verification/Engine_Kill.thy ===== *)
theory Engine_Kill
  imports Engine_Runs
begin

text \<open>The global kill switch: what trips it, what it does, and that no run of the engine undoes it.\<close>

unbundle bit_operations_syntax

subsection \<open>Tripping\<close>

definition perm_zero :: "NodeContext \<Rightarrow> NodeContext" where
  "perm_zero x = x\<lparr>nx_core := map_option (\<lambda>c. ExecutionCore_SetPermission c 0) (nx_core x)\<rparr>"

lemma clear_eq: "EventLoop_ClearAllPermissions st = fold (\<lambda>n. upd_node n perm_zero) [0..<nat (el_registered_count st)] st"
  by (simp add: EventLoop_ClearAllPermissions_def perm_zero_def [abs_def])

lemma fold_nodes: "fold (\<lambda>n. upd_node n f) ns st = st\<lparr>el_nodes := el_nodes (fold (\<lambda>n. upd_node n f) ns st)\<rparr>"
proof (induction ns arbitrary: st)
  case (Cons n ns)
  have "st'\<lparr>el_nodes := N\<rparr> = st\<lparr>el_nodes := N\<rparr>" if "st' = upd_node n f st" for st' N
    using that by (simp add: upd_node_def)
  from trans [OF Cons.IH [of "upd_node n f st"] this [OF refl]] show ?case by (simp only: fold_simps comp_apply)
qed simp

lemma clear_fold:
  "el_nodes (fold (\<lambda>n. upd_node n perm_zero) [0..<m] st) =
     map (\<lambda>i. if i < m then perm_zero (el_nodes st ! i) else el_nodes st ! i) [0..<length (el_nodes st)]"
proof (induction m)
  case (Suc m)
  then show ?case
    by (cases "m < length (el_nodes st)") (auto simp: upd_node_def nth_list_update list_update_beyond intro!: nth_equalityI)
qed (simp add: map_nth)

lemma clear_permissions:
  "el_nodes (EventLoop_ClearAllPermissions st) =
     map (\<lambda>i. if i < nat (el_registered_count st) then perm_zero (el_nodes st ! i) else el_nodes st ! i) [0..<length (el_nodes st)]"
  "EventLoop_ClearAllPermissions st = st\<lparr>el_nodes := el_nodes (EventLoop_ClearAllPermissions st)\<rparr>"
  unfolding clear_eq by (rule clear_fold, rule fold_nodes)

lemma clear_fields:
  "om_oms_state_flags (EventLoop_ClearAllPermissions st) = om_oms_state_flags st"
  "el_registered_count (EventLoop_ClearAllPermissions st) = el_registered_count st"
  "el_agg (EventLoop_ClearAllPermissions st) = el_agg st"
  "om_ks_trips_total (EventLoop_ClearAllPermissions st) = om_ks_trips_total st"
  "length (el_nodes (EventLoop_ClearAllPermissions st)) = length (el_nodes st)"
  by (subst clear_permissions(2), simp add: clear_permissions(1))+

lemma clear_perms_off: "perms_off (EventLoop_ClearAllPermissions st)"
  unfolding perms_off_def clear_fields
  by (auto simp: node_at_def clear_permissions(1) perm_zero_def ExecutionCore_SetPermission_def)

lemma kill_bit_set: "kill_set (st\<lparr>om_oms_state_flags := BITMAP_SET w MASK_OMS_STATE_KILL_SWITCH_TRIPPED, om_ks_trips_total := k\<rparr>)"
  by (simp add: kill_set_def BITMAP_IS_SET_def BITMAP_SET_def MASK_OMS_STATE_KILL_SWITCH_TRIPPED_def BITMAP_BIT_def
      bit.conj_disj_distrib)

lemma clear_halts: "kill_set st \<Longrightarrow> halted (EventLoop_ClearAllPermissions st)"
  unfolding halted_def using clear_perms_off by (simp add: kill_set_def clear_fields)

lemma trip_halts: "halted (EventLoop_KillSwitchTrip st)"
  unfolding EventLoop_KillSwitchTrip_def Let_def
  by (rule clear_halts) (use kill_bit_set in \<open>simp add: kill_set_def split: if_split\<close>)

lemma evaluate_halted: "halted st \<Longrightarrow> snd (EventLoop_KillSwitchEvaluate st) = st"
  by (simp add: EventLoop_KillSwitchEvaluate_def halted_def kill_set_def)

lemma evaluate_sets: "halted (snd (EventLoop_KillSwitchEvaluate st)) \<or> snd (EventLoop_KillSwitchEvaluate st) = st"
  unfolding EventLoop_KillSwitchEvaluate_def using clear_halts [OF kill_bit_set] by simp

lemma global_trip_halts: "halted (serve_global_trip env site st)"
proof -
  have "halted (s\<lparr>om_event_log := l\<rparr>) = halted s" for s l by (rule halted_core) simp
  then show ?thesis by (simp add: serve_global_trip_def Let_def trip_halts)
qed

lemma fold_halts: "(\<And>x s. halted (f x s)) \<Longrightarrow> xs \<noteq> [] \<or> halted s \<Longrightarrow> halted (fold f xs s)"
  by (induction xs arbitrary: s) auto

lemma trips_core:
  "engine_core (bitmap_fold serve_node_trip w (upd_agg (\<lambda>a. a\<lparr>ag_kill_trip_request := 0\<rparr>) st)) = engine_core st"
  unfolding bitmap_fold_def by (subst core_fold) (simp_all add: core_upd_agg)

lemma kill_trips_halt:
  assumes "halted st \<or> drop_bit KILL_TRIP_SHIFT_GLOBAL (ag_kill_trip_request (el_agg st) AND KILL_TRIP_MASK_GLOBAL) \<noteq> 0"
  shows "halted (serve_kill_trips env st)"
  using assms halted_core [OF trips_core, of _ st]
  unfolding serve_kill_trips_def Let_def bitmap_fold_def [of "serve_global_trip env"]
  by (intro fold_halts global_trip_halts) (auto simp: bits_of_zero_iff)

text \<open>Everything of a compose up to its publication.\<close>

definition composed ::
    "(unit EngineState_ext) oms_env \<Rightarrow> u64 \<Rightarrow> ControllerConfig \<Rightarrow> Money \<Rightarrow> EngineState \<Rightarrow> EngineState" where
  "composed env self cfg px st =
     (let st = serve_kill_reset (snd (EngineCommon_FillRingsApply env (upd_agg (\<lambda>a. snd (Composer_AssertIdentity self a)) st)));
          st = serve_kill_trips env st
      in snd (EventLoop_KillSwitchEvaluate (eval_nodes cfg px (drain_drags (ring_N (ag_drag_ring (el_agg st)) + 1) st))))"

lemma compose_eq: "EngineCommon_ComposeAndKillEval env self cfg px pt st =
    upd_agg (\<lambda>a. a\<lparr>ag_save_request := 0\<rparr>) (publish_view pt (composed env self cfg px st))"
  unfolding EngineCommon_ComposeAndKillEval_def composed_def Let_def ..

lemma composed_halts:
  assumes "halted st \<or> drop_bit KILL_TRIP_SHIFT_GLOBAL (ag_kill_trip_request (el_agg st) AND KILL_TRIP_MASK_GLOBAL) \<noteq> 0"
  shows "halted (composed env self cfg px st)"
proof -
  define s1 where "s1 = upd_agg (\<lambda>a. snd (Composer_AssertIdentity self a)) st"
  define s2 where "s2 = snd (EngineCommon_FillRingsApply env s1)"
  define s3 where "s3 = serve_kill_reset s2"
  define s4 where "s4 = serve_kill_trips env s3"
  have r: "ag_kill_trip_request (el_agg s1) = ag_kill_trip_request (el_agg st)"
    by (simp add: s1_def upd_agg_def Composer_AssertIdentity_def)
  have q: "agg_quiet (el_agg s2) = agg_quiet (el_agg s1)"
    using outer_rings_apply [of env s1] by (simp add: s2_def engine_outer_def)
  have r2: "ag_kill_trip_request (el_agg s2) = ag_kill_trip_request (el_agg st)"
    using arg_cong [OF q, of ag_kill_trip_request] r by (simp add: agg_quiet_def)
  have r3: "ag_kill_trip_request (el_agg s3) = ag_kill_trip_request (el_agg s2)"
  proof -
    have "ag_kill_trip_request (el_agg (fold (\<lambda>n. upd_node n f) xs s)) = ag_kill_trip_request (el_agg s)" for f xs s
      by (induction xs arbitrary: s) (simp_all add: upd_node_def)
    then show ?thesis unfolding s3_def serve_kill_reset_def Let_def bitmap_fold_def by (simp add: upd_agg_def)
  qed
  have c: "engine_core s3 = engine_core st"
    using core_of_outer [OF outer_rings_apply [of env s1]] by (simp add: s3_def s2_def s1_def)
  have "halted s3 \<or> drop_bit KILL_TRIP_SHIFT_GLOBAL (ag_kill_trip_request (el_agg s3) AND KILL_TRIP_MASK_GLOBAL) \<noteq> 0"
    using assms halted_core [OF c] r2 r3 by simp
  then have "halted s4" unfolding s4_def by (rule kill_trips_halt)
  then have h: "halted (eval_nodes cfg px (drain_drags k s4))" for k
    by (subst halted_core [of _ s4]) simp_all
  have "composed env self cfg px st =
      snd (EventLoop_KillSwitchEvaluate (eval_nodes cfg px (drain_drags (ring_N (ag_drag_ring (el_agg s4)) + 1) s4)))"
    by (simp only: composed_def Let_def s4_def s3_def s2_def s1_def)
  then show ?thesis using h by (simp only: evaluate_halted)
qed

end
