(* ===== verification/Engine_View.thy ===== *)
theory Engine_View
  imports Engine_Kill
begin

text \<open>The published view of a compose, and runs of the whole engine.\<close>

unbundle bit_operations_syntax

subsection \<open>The kill word\<close>

lemma kill_word_fold:
  "(\<forall>n \<in> set ns. n < 16) \<Longrightarrow> k < 64 \<Longrightarrow>
   bit (fold (\<lambda>n kw. if P n then kw OR KILLWORD_NODE_MASK n else kw) ns w) k \<longleftrightarrow> bit w k \<or> (\<exists>n \<in> set ns. P n \<and> k = 16 + n)"
proof (induction ns arbitrary: w)
  case (Cons n ns)
  have "bit (KILLWORD_NODE_MASK n) k \<longleftrightarrow> k = 16 + n" using Cons.prems
    by (auto simp: KILLWORD_NODE_MASK_def bit_exp_iff)
  then show ?case using Cons by (auto simp: bit_or_iff)
qed simp

lemma kill_word_bits:
  assumes "k < 64"
  shows "bit (kill_word_of st) k \<longleftrightarrow>
    k = 0 \<and> kill_set st \<or> (\<exists>n. k = 16 + n \<and> n < nat (el_registered_count st) \<and> n < MAX_EXECUTION_NODES \<and>
      node_flag_is_set (node_at st n) NODE_STATE_KILL_TRIPPED)"
proof -
  have r: "\<forall>n \<in> set (node_range st). n < 16" by (simp add: node_range_def MAX_EXECUTION_NODES_def)
  have "bit (if kill_set st then KILLWORD_MASK_GLOBAL else 0) k \<longleftrightarrow> k = 0 \<and> kill_set st"
    using assms by (auto simp: KILLWORD_MASK_GLOBAL_def bit_1_iff)
  moreover have "n \<in> set (node_range st) \<longleftrightarrow> n < nat (el_registered_count st) \<and> n < MAX_EXECUTION_NODES" for n
    by (auto simp: node_range_def)
  ultimately show ?thesis
    unfolding kill_word_of_def kill_word_fold [OF r assms] kill_set_def [symmetric] by auto
qed

subsection \<open>What a compose leaves of the publication until it publishes\<close>

definition pub_view :: "EngineState \<Rightarrow> u64 \<times> MoneySnapshot pslot" where
  "pub_view st = (ag_generation (el_agg st), ag_publish (el_agg st))"

lemma pub_upd [simp]: "pub_view (upd_node n f st) = pub_view st"
  by (simp add: pub_view_def upd_node_def)

lemma pub_upd_agg: "ag_generation (g (el_agg st)) = ag_generation (el_agg st) \<Longrightarrow>
    ag_publish (g (el_agg st)) = ag_publish (el_agg st) \<Longrightarrow> pub_view (upd_agg g st) = pub_view st"
  by (simp add: pub_view_def upd_agg_def)

lemma pub_fold: "(\<And>x s. pub_view (f x s) = pub_view s) \<Longrightarrow> pub_view (fold f xs s) = pub_view s"
  by (induction xs arbitrary: s) simp_all

lemma pub_outer: "engine_outer a = engine_outer b \<Longrightarrow> pub_view a = pub_view b"
proof -
  assume "engine_outer a = engine_outer b"
  then have q: "agg_quiet (el_agg a) = agg_quiet (el_agg b)" by (simp add: engine_outer_def)
  show ?thesis using arg_cong [OF q, of ag_generation] arg_cong [OF q, of ag_publish] by (simp add: pub_view_def agg_quiet_def)
qed

lemma pub_clear [simp]: "pub_view (EventLoop_ClearAllPermissions st) = pub_view st"
  by (simp add: pub_view_def clear_fields)

lemma pub_frame [simp]:
  "pub_view (st\<lparr>om_event_log := l\<rparr>) = pub_view st" "pub_view (st\<lparr>om_portfolio := p\<rparr>) = pub_view st"
  "pub_view (st\<lparr>om_oms_state_flags := w, om_ks_trips_total := k\<rparr>) = pub_view st"
  by (simp_all add: pub_view_def)

lemma pub_stages [simp]:
  "pub_view (serve_kill_reset st) = pub_view st" "pub_view (serve_kill_trips env st) = pub_view st"
  "pub_view (eval_nodes cfg px st) = pub_view st" "pub_view (snd (EventLoop_KillSwitchEvaluate st)) = pub_view st"
proof -
  show "pub_view (serve_kill_reset st) = pub_view st"
    unfolding serve_kill_reset_def Let_def bitmap_fold_def by (subst pub_fold) (simp_all add: pub_upd_agg)
  have "pub_view (serve_node_trip c s) = pub_view s" "pub_view (serve_global_trip env site s) = pub_view s" for c s site
    by (simp_all add: serve_node_trip_def serve_global_trip_def EventLoop_KillSwitchTrip_def Let_def pub_upd_agg)
  then show "pub_view (serve_kill_trips env st) = pub_view st"
    unfolding serve_kill_trips_def Let_def bitmap_fold_def by (simp add: pub_fold pub_upd_agg)
  show "pub_view (eval_nodes cfg px st) = pub_view st"
    unfolding eval_nodes_def Let_def by (rule pub_fold) simp
  show "pub_view (snd (EventLoop_KillSwitchEvaluate st)) = pub_view st"
    by (simp add: EventLoop_KillSwitchEvaluate_def)
qed

lemma pub_drags [simp]: "pub_view (drain_drags fuel st) = pub_view st"
proof (induction fuel st rule: drain_drags.induct)
  case (2 fuel st)
  have "pub_view (apply_drag dc s) = pub_view s" for dc s by (simp add: apply_drag_def Let_def)
  then show ?case using 2 by (simp add: Let_def pub_upd_agg split: prod.split option.split)
qed simp

lemma pub_composed: "pub_view (composed env self cfg px st) = pub_view st"
proof -
  have "pub_view (upd_agg (\<lambda>a. snd (Composer_AssertIdentity self a)) st) = pub_view st"
    by (rule pub_upd_agg) (simp_all add: Composer_AssertIdentity_def)
  moreover have "pub_view (snd (EngineCommon_FillRingsApply env s)) = pub_view s" for s
    by (rule pub_outer) simp
  ultimately show ?thesis unfolding composed_def Let_def by (simp only: pub_stages pub_drags)
qed

lemma free_cash_agg: "OMS_ExpectedFreeCash (st\<lparr>el_agg := a\<rparr>) = OMS_ExpectedFreeCash (st :: EngineState)"
proof -
  have "order_at (st\<lparr>el_agg := a\<rparr>) i = order_at st i" for i by (simp add: order_at_def)
  then show ?thesis by (simp add: OMS_ExpectedFreeCash_def OMS_OpenPositionCost_def cong: if_cong)
qed

text \<open>The state after the publication differs from the one before in the aggregator alone.\<close>

lemma compose_state:
  fixes st :: EngineState and env self cfg px pt
  defines "s \<equiv> composed env self cfg px st"
    and "st' \<equiv> EngineCommon_ComposeAndKillEval env self cfg px pt st"
  shows "st' = s\<lparr>el_agg := el_agg st'\<rparr>" "ag_kill_word (el_agg st') = kill_word_of s"
    "ag_generation (el_agg st') = ag_generation (el_agg st) + 1"
    "ag_publish (el_agg st') = ParameterSlot_Write (ag_publish (el_agg st)) ((money_pack s (kill_word_of s))\<lparr>ms_generation := ag_generation (el_agg st) + 1\<rparr>) pt"
proof -
  have "pub_view s = pub_view st" unfolding s_def by (rule pub_composed)
  then have p: "ag_generation (el_agg s) = ag_generation (el_agg st)" "ag_publish (el_agg s) = ag_publish (el_agg st)"
    by (simp_all add: pub_view_def)
  have e: "st' = upd_agg (\<lambda>a. a\<lparr>ag_save_request := 0\<rparr>) (publish_view pt s)"
    unfolding st'_def s_def by (rule compose_eq)
  have m: "money_pack (upd_agg (\<lambda>a. a\<lparr>ag_kill_word := kw, ag_generation := ag_generation a + 1\<rparr>) s) kw =
      (money_pack s kw)\<lparr>ms_generation := ag_generation (el_agg s) + 1\<rparr>" for kw
    by (simp add: money_pack_def upd_agg_def node_at_def free_cash_agg)
  show "st' = s\<lparr>el_agg := el_agg st'\<rparr>" unfolding e publish_view_def by (simp add: upd_agg_def Let_def)
  show "ag_kill_word (el_agg st') = kill_word_of s"
    "ag_generation (el_agg st') = ag_generation (el_agg st) + 1"
    unfolding e publish_view_def by (simp_all add: upd_agg_def Let_def p)
  show "ag_publish (el_agg st') = ParameterSlot_Write (ag_publish (el_agg st))
      ((money_pack s (kill_word_of s))\<lparr>ms_generation := ag_generation (el_agg st) + 1\<rparr>) pt"
    unfolding e publish_view_def Let_def m by (simp add: upd_agg_def p)
qed

text \<open>After a compose, a reader of the publication gets one coherent view of the state the compose
  left: the account, the node rows, the generation one above the last, and a kill word (the same
  as the standalone one) whose bit 0 is the global kill and whose bit 16 + n is node n's.\<close>

theorem compose_publishes_state:
  assumes "pslot_ok (ag_publish (el_agg st))"
  shows "\<exists>pack. let st' = EngineCommon_ComposeAndKillEval env self cfg px pt st in
    ParameterSlot_Read (ag_publish (el_agg st')) = Some (pack, pt) \<and>
    ms_generation pack = ag_generation (el_agg st) + 1 \<and> ag_generation (el_agg st') = ag_generation (el_agg st) + 1 \<and>
    ms_balance pack = om_balance st' \<and> ms_realized pack = om_realized_pnl st' \<and> ms_ks_peak pack = om_ks_peak_balance st' \<and>
    ms_expected_free pack = OMS_ExpectedFreeCash st' \<and> ms_total_fees pack = om_total_fees st' \<and>
    ms_total_maker_fees pack = om_total_maker_fees st' \<and> ms_total_taker_fees pack = om_total_taker_fees st' \<and>
    ms_rows pack = map (\<lambda>n. node_row (node_at st' n)) [0..<MAX_EXECUTION_NODES] \<and>
    ms_kill_word_copy pack = ag_kill_word (el_agg st') \<and>
    (\<forall>k. bit (ag_kill_word (el_agg st')) k \<longleftrightarrow>
       k = 0 \<and> BITMAP_IS_SET (om_oms_state_flags st') MASK_OMS_STATE_KILL_SWITCH_TRIPPED \<or>
       (\<exists>n. k = 16 + n \<and> n < nat (el_registered_count st') \<and> n < MAX_EXECUTION_NODES \<and>
          node_flag_is_set (node_at st' n) NODE_STATE_KILL_TRIPPED))"
proof -
  define st' where "st' = EngineCommon_ComposeAndKillEval env self cfg px pt st"
  define s where "s = composed env self cfg px st"
  define a where "a = el_agg st'"
  note c = compose_state [where env = env and self = self and cfg = cfg and px = px and st = st and pt = pt, folded s_def st'_def, folded a_def]
  have r: "ParameterSlot_Read (ag_publish a) = Some ((money_pack s (kill_word_of s))\<lparr>ms_generation := ag_generation (el_agg st) + 1\<rparr>, pt)"
    unfolding c(4) using slot_written [OF assms] by blast
  have k: "bit (kill_word_of s) k \<longleftrightarrow> k = 0 \<and> kill_set s \<or>
      (\<exists>n. k = 16 + n \<and> n < nat (el_registered_count s) \<and> n < MAX_EXECUTION_NODES \<and>
        node_flag_is_set (node_at s n) NODE_STATE_KILL_TRIPPED)" for k
  proof (cases "k < 64")
    case True
    then show ?thesis by (rule kill_word_bits)
  next
    case False
    then have "\<not> bit (kill_word_of s) k" using bit_imp_le_length [of "kill_word_of s" k] by auto
    then show ?thesis using False by (auto simp: MAX_EXECUTION_NODES_def)
  qed
  show ?thesis
    unfolding Let_def st'_def [symmetric] a_def [symmetric]
    using r c(2,3) k
    by (intro exI [of _ "(money_pack s (kill_word_of s))\<lparr>ms_generation := ag_generation (el_agg st) + 1\<rparr>"])
      (simp add: c(1) money_pack_def free_cash_agg node_at_def kill_set_def)
qed

end
