(* ===== verification/Engine_Safety.thy ===== *)
theory Engine_Safety
  imports Engine_View Order_Phased Engine_Exits
begin

text \<open>Runs of the whole engine: its shape, and the global kill switch along a run.\<close>

unbundle bit_operations_syntax

subsection \<open>Calls\<close>

text \<open>One tick of a node's core, the controller leaving the permission alone during it.\<close>

definition tick_node :: "bool \<Rightarrow> tick_env \<Rightarrow> Tick \<Rightarrow> nat \<Rightarrow> EngineState \<Rightarrow> EngineState option" where
  "tick_node lp env tick n st = (case nx_core (node_at st n) of
       None \<Rightarrow> Some st
     | Some c \<Rightarrow> map_option (\<lambda>c'. upd_node n (\<lambda>x. x\<lparr>nx_core := Some c'\<rparr>) st) (ExecutionCore_Tick lp env tick c))"

text \<open>What the other threads ask of the aggregator.\<close>

datatype engine_request = Req_Reset u32 | Req_Trip u32 | Req_Save | Req_Drag DragCmd

definition post_request :: "engine_request \<Rightarrow> AggregatorState \<Rightarrow> AggregatorState" where
  "post_request r a = (case r of
       Req_Reset m \<Rightarrow> a\<lparr>ag_kill_reset_mask := ag_kill_reset_mask a OR m\<rparr>
     | Req_Trip m \<Rightarrow> a\<lparr>ag_kill_trip_request := ag_kill_trip_request a OR m\<rparr>
     | Req_Save \<Rightarrow> a\<lparr>ag_save_request := 1\<rparr>
     | Req_Drag dc \<Rightarrow> a\<lparr>ag_drag_ring := snd (SPSCRing_TryPush (ag_drag_ring a) dc)\<rparr>)"

inductive engine_call :: "EngineState \<Rightarrow> EngineState \<Rightarrow> bool" where
  call_oms: "oms_step (\<lambda>env. env_emit env = EngineCommon_FillEmitSink env0) st st' \<Longrightarrow> engine_call st st'"
| call_buckets: "OrderManager_DrainIntoBuckets fuel st b = Some (st', b') \<Longrightarrow> engine_call st st'"
| call_closes: "env_emit env = EngineCommon_FillEmitSink env0 \<Longrightarrow> engine_call st (OrderManager_ProcessBucket_Closes env b st)"
| call_opens: "env_emit env = EngineCommon_FillEmitSink env0 \<Longrightarrow> engine_call st (OrderManager_ProcessBucket_Opens env b st)"
| call_reconciles: "env_emit env = EngineCommon_FillEmitSink env0 \<Longrightarrow> engine_call st (OrderManager_ProcessBucket_Reconciles env b st)"
| call_compose: "engine_call st (EngineCommon_ComposeAndKillEval env self cfg px pt st)"
| call_drain: "engine_call st (snd (EngineCommon_DrainEventsAndSubmit st now_tick wall_us cfg))"
| call_tick: "ti_before_perm env = id \<Longrightarrow> tick_node lp env tick n st = Some st' \<Longrightarrow> engine_call st st'"
| call_register: "ec_permission core = 0 \<Longrightarrow> engine_call st (snd (EventLoopState_RegisterCore st core tp sl q))"
| call_strategy: "engine_call st (EventLoopState_SetCoreStrategy st slot sid alloc)"
| call_queue: "engine_call st (EventLoop_QueueParameters st slot ps)"
| call_push: "engine_call st (snd (EventLoop_PushParameters st pt))"
| call_configure: "engine_call st (EventLoopState_ConfigureKillSwitch st lo dd)"
| call_node: "(\<And>x. nx_core (f x) = nx_core x) \<Longrightarrow> engine_call st (upd_node n f st)"
| call_request: "engine_call st (upd_agg (post_request r) st)"
| call_time_exit: "engine_call st (EventLoop_TimeExitOneCore cfg now_tick px n st)"
| call_flatten: "engine_call st (snd (EventLoop_FlattenAll nodes px st))"
| call_staleness: "engine_call st (snd (EventLoop_CheckWsStaleness cfg px now_us st))"
| call_recovery: "engine_call st (snd (EventLoop_TryClearRecovery st now_us))"
| call_breakeven: "engine_call st (EventLoop_BreakevenOnProfitOneCore cfg px n st)"
| call_grant: "engine_call st (warmup_grant cfg samples n st)"

inductive engine_run :: "EngineState \<Rightarrow> EngineState \<Rightarrow> bool" where
  run_refl: "engine_run st st"
| run_step: "engine_run a b \<Longrightarrow> engine_call b c \<Longrightarrow> engine_run a c"

subsection \<open>What each call leaves of flags, permissions and sizes\<close>

lemma push_permission: "ec_permission (snd (push_event ty leg tick core)) = ec_permission core"
  by (simp add: push_event_def Let_def split_def)

lemma exit_permission: "ec_permission (snd (fire_exit e leg tick core)) = ec_permission core"
  by (simp add: fire_exit_def push_permission)

lemma levels_permission: "ec_permission (set_levels_a tick core) = ec_permission core" "ec_permission (set_levels_b tick core) = ec_permission core"
  by (simp_all add: set_levels_a_def set_levels_b_def Let_def)

lemma entry_permission: "ec_permission (snd (snd (fire_entry e pair tick core))) = ec_permission core"
proof -
  obtain a c1 where a: "push_event TRADE_EVENT_ENTRY PARTIAL_LEG_A tick core = (a, c1)" by fastforce
  obtain b c2 where b: "push_event TRADE_EVENT_ENTRY PARTIAL_LEG_B tick (set_levels_a tick c1) = (b, c2)" by fastforce
  have "ec_permission c1 = ec_permission core" "ec_permission c2 = ec_permission (set_levels_a tick c1)"
    using push_permission [of TRADE_EVENT_ENTRY PARTIAL_LEG_A tick core]
      push_permission [of TRADE_EVENT_ENTRY PARTIAL_LEG_B tick "set_levels_a tick c1"] a b by simp_all
  then show ?thesis by (simp add: fire_entry_def Let_def a b levels_permission)
qed

lemma events_permission: "ec_permission (snd (fire_events e xa xb pair tick core)) = ec_permission core"
proof -
  obtain a c1 where a: "fire_exit xa PARTIAL_LEG_A tick core = (a, c1)" by fastforce
  obtain b c2 where b: "fire_exit xb PARTIAL_LEG_B tick c1 = (b, c2)" by fastforce
  obtain u v c3 where e: "fire_entry e pair tick c2 = (u, v, c3)" by (cases "fire_entry e pair tick c2") auto
  have "ec_permission c1 = ec_permission core" "ec_permission c2 = ec_permission c1" "ec_permission c3 = ec_permission c2"
    using exit_permission [of xa PARTIAL_LEG_A tick core] exit_permission [of xb PARTIAL_LEG_B tick c1]
      entry_permission [of e pair tick c2] a b e by simp_all
  then show ?thesis by (simp add: fire_events_def a b e)
qed

lemma body_permission: "ti_before_perm env = id \<Longrightarrow> ec_permission (tick_body pb env tick core) = ec_permission core"
  by (simp add: tick_body_def update_flags_def Let_def split_def events_permission)

lemma tick_permission:
  assumes "ExecutionCore_Tick lp env tick core = Some core'" "ti_before_perm env = id"
  shows "ec_permission core' = ec_permission core"
proof -
  have r: "refresh_cache env core = Some c1 \<Longrightarrow> ec_permission c1 = ec_permission core" for c1
    by (auto simp: refresh_cache_def Let_def split: if_splits option.splits)
  obtain la pb where t: "ExecutionCore_Tick_Impl la pb env tick core = Some core'"
    using assms(1) by (auto simp: ExecutionCore_Tick_def Let_def split: if_splits)
  then obtain c1 where c1: "refresh_cache env core = Some c1"
    by (auto simp: ExecutionCore_Tick_Impl_def Let_def split_def split: option.splits)
  have "ec_permission core' = ec_permission (tick_body pb env tick c1)"
    using t c1 by (auto simp: ExecutionCore_Tick_Impl_def Let_def split_def)
  then show ?thesis using body_permission [OF assms(2)] r [OF c1] by simp
qed

lemma core_oms: "oms_step (\<lambda>env. env_emit env = EngineCommon_FillEmitSink env0) st st' \<Longrightarrow> engine_outer st' = engine_outer st"
  by (rule outer_oms)

lemma outer_push_submit: "engine_outer (snd (OMS_PushSubmit st cmd)) = engine_outer st"
  by (simp add: OMS_PushSubmit_def Let_def split_def engine_outer_def engine_core_def core_perms_def)

lemma outer_drain_event: "engine_outer (snd (drain_event t w cfg n e p)) = engine_outer (snd p)"
  by (cases p) (simp add: drain_event_def Let_def outer_push_submit outer_upd_node note_entry_def)

lemma outer_set_core:
  assumes "nx_core (node_at st n) = Some c" "ec_permission c' = ec_permission c"
  shows "engine_outer (upd_node n (\<lambda>x. x\<lparr>nx_core := Some c'\<rparr>) st) = engine_outer st"
proof -
  have "core_perms (upd_node n (\<lambda>x. x\<lparr>nx_core := Some c'\<rparr>) st) = core_perms st"
    using assms by (cases "n < length (el_nodes st)")
      (auto simp: core_perms_def upd_node_def node_at_def map_update list_update_beyond intro!: nth_equalityI simp: nth_list_update)
  then show ?thesis by (simp add: engine_outer_def engine_core_def) (simp add: upd_node_def)
qed

lemma outer_drain_node: "engine_outer (snd (drain_node k t w cfg n p)) = engine_outer (snd p)"
proof (induction k t w cfg n p rule: drain_node.induct)
  case (2 k t w cfg n d st)
  show ?case
  proof (cases "nx_core (node_at st n)")
    case (Some core)
    obtain m r where p: "SPSCRing_TryPop (ec_event_ring core) = (m, r)" by (cases "SPSCRing_TryPop (ec_event_ring core)")
    have s: "engine_outer (upd_node n (\<lambda>x. x\<lparr>nx_core := Some (core\<lparr>ec_event_ring := r\<rparr>)\<rparr>) st) = engine_outer st"
      by (rule outer_set_core [OF Some]) simp
    show ?thesis
    proof (cases m)
      case None
      then show ?thesis using Some p s by (simp add: Let_def)
    next
      case (Some e)
      then show ?thesis using \<open>nx_core (node_at st n) = Some core\<close> p 2 s by (simp add: Let_def outer_drain_event)
    qed
  qed simp
qed simp

lemma outer_drain: "engine_outer (snd (EngineCommon_DrainEventsAndSubmit st t w cfg)) = engine_outer st"
proof -
  have "engine_outer (snd (fold (drain_node k t w cfg) ns p)) = engine_outer (snd p)" for k ns p
    by (induction ns arbitrary: p) (simp_all add: outer_drain_node)
  then show ?thesis by (simp add: EngineCommon_DrainEventsAndSubmit_def)
qed

lemma outer_push_parameters: "engine_outer (snd (EventLoop_PushParameters st pt)) = engine_outer st"
proof -
  have "engine_outer (snd (push_parameters_node pt n p)) = engine_outer (snd p)" for n p
  proof (cases p)
    case (Pair k s)
    show ?thesis
    proof (cases "nx_core (node_at s n)")
      case (Some c)
      then have "engine_outer (upd_node n (\<lambda>x. node_flag_clr NODE_STATE_DIRTY (x\<lparr>nx_core := Some (ExecutionCore_SetParameters c (nx_pending_params x) pt)\<rparr>)) s)
          = engine_outer s"
        using outer_set_core [OF Some, of "ExecutionCore_SetParameters c (nx_pending_params (node_at s n)) pt"]
          outer_upd_node [of "node_flag_clr NODE_STATE_DIRTY" n "upd_node n (\<lambda>x. x\<lparr>nx_core := Some (ExecutionCore_SetParameters c (nx_pending_params (node_at s n)) pt)\<rparr>) s"]
        by (cases "n < length (el_nodes s)")
          (simp_all add: upd_node_def node_at_def node_flag_clr_def ExecutionCore_SetParameters_def list_update_beyond)
      then show ?thesis using Pair Some by (simp add: push_parameters_node_def Let_def)
    qed (simp add: Pair push_parameters_node_def Let_def outer_upd_node node_flag_clr_def)
  qed
  then have "engine_outer (snd (fold (push_parameters_node pt) ns p)) = engine_outer (snd p)" for ns p
    by (induction ns arbitrary: p) simp_all
  then show ?thesis by (simp add: EventLoop_PushParameters_def)
qed

lemma outer_pop: "engine_outer (snd (OMS_ResultPop st)) = engine_outer st"
proof -
  have "engine_outer (om_result_rings_update (\<lambda>_. []) s) = engine_outer s" for s
    by (simp add: engine_outer_def engine_core_def core_perms_def)
  then show ?thesis using result_pop_frame(2) [of st] by metis
qed

lemma outer_phased:
  "OrderManager_DrainIntoBuckets fuel st b = Some (st', b') \<Longrightarrow> engine_outer st' = engine_outer st"
  "env_emit env = EngineCommon_FillEmitSink env0 \<Longrightarrow> engine_outer (OrderManager_ProcessBucket_Closes env b st) = engine_outer st"
  "env_emit env = EngineCommon_FillEmitSink env0 \<Longrightarrow> engine_outer (OrderManager_ProcessBucket_Opens env b st) = engine_outer st"
  "env_emit env = EngineCommon_FillEmitSink env0 \<Longrightarrow> engine_outer (OrderManager_ProcessBucket_Reconciles env b st) = engine_outer st"
proof -
  have k: "drain_keeps (\<lambda>s. engine_outer s = engine_outer st) e" if "env_emit e = EngineCommon_FillEmitSink e0" for e e0
    using outer.sink_drain_keeps [OF that, of "engine_outer st"] .
  show "engine_outer st' = engine_outer st" if "OrderManager_DrainIntoBuckets fuel st b = Some (st', b')"
  proof (rule buckets_keep [where P = "\<lambda>s. engine_outer s = engine_outer st", OF _ _ _ refl that])
    show "engine_outer (snd (OMS_ResultPop s)) = engine_outer st" if "engine_outer s = engine_outer st" for s
      using that outer_pop by simp
  qed (simp_all add: engine_outer_def engine_core_def core_perms_def)
  show "engine_outer (OrderManager_ProcessBucket_Closes env b st) = engine_outer st"
    "engine_outer (OrderManager_ProcessBucket_Opens env b st) = engine_outer st"
    "engine_outer (OrderManager_ProcessBucket_Reconciles env b st) = engine_outer st"
    if "env_emit env = EngineCommon_FillEmitSink env0"
    using phases_keep [where P = "\<lambda>s. engine_outer s = engine_outer st", OF k [OF that] refl] by simp_all
qed

lemma outer_stamp: "engine_outer (upd_node n (\<lambda>x. x\<lparr>nx_last_entry_tick := t\<rparr>) s) = engine_outer s"
  by (simp add: outer_upd_node)

lemmas outer_exits = exits_same [where h = engine_outer, OF outer_push_submit outer_stamp]

lemma outer_staleness: "engine_outer (snd (EventLoop_CheckWsStaleness cfg px now_us st)) = engine_outer st"
  by (rule staleness_same [where h = engine_outer, OF outer_push_submit outer_stamp])
    (simp_all add: engine_outer_def engine_core_def core_perms_def)

lemma outer_recovery: "engine_outer (snd (EventLoop_TryClearRecovery st now_us)) = engine_outer st"
  by (simp add: EventLoop_TryClearRecovery_def Let_def engine_outer_def engine_core_def core_perms_def)

lemma outer_breakeven: "engine_outer (EventLoop_BreakevenOnProfitOneCore cfg px n st) = engine_outer st"
  unfolding EventLoop_BreakevenOnProfitOneCore_def bitmap_fold_def Let_def
  by (rule fold_same [where h = engine_outer]) (simp add: breakeven_slot_def Let_def outer_upd_node node_flag_set_def)

text \<open>The grant writes only permissions, and none while the published kill word has its bit 0.\<close>

lemma grant_killed: "bit (ag_kill_word (el_agg st)) 0 \<Longrightarrow> warmup_grant cfg samples n st = st"
proof -
  assume "bit (ag_kill_word (el_agg st)) 0"
  then have "bit (ag_kill_word (el_agg st) AND KILLWORD_MASK_GLOBAL) 0" by (simp add: KILLWORD_MASK_GLOBAL_def bit_and_iff)
  then have "grant_reads_kill st" unfolding grant_reads_kill_def by (metis bit_0_eq bot_apply bot_bool_def)
  then show ?thesis by (simp add: warmup_grant_def grant_permission_def Let_def)
qed

end
