(* ===== verification/Engine_Halt.thy ===== *)
theory Engine_Halt
  imports Engine_Safety
begin

text \<open>The engine keeps its shape, and a fatal request halts it for good.\<close>

unbundle bit_operations_syntax

subsection \<open>The shape of the engine along a run\<close>

definition engine_shape :: "EngineState \<Rightarrow> bool" where
  "engine_shape st \<longleftrightarrow> length (el_nodes st) = MAX_EXECUTION_NODES \<and>
     0 \<le> el_registered_count st \<and> el_registered_count st \<le> int MAX_EXECUTION_NODES \<and>
     map ring_N (ag_fill_rings (el_agg st)) = replicate MAX_EXECUTION_NODES FILL_EVENT_RING_SIZE \<and>
     ring_N (ag_drag_ring (el_agg st)) = 8 \<and> length (ag_applied_seq (el_agg st)) = MAX_EXECUTION_NODES \<and>
     length (ag_slot_notional (el_agg st)) = MAX_PORTFOLIO_POSITIONS \<and>
     length (ag_pending_trade_net (el_agg st)) = MAX_PORTFOLIO_POSITIONS \<and>
     pslot_ok (ag_publish (el_agg st))"

definition engine_dims :: "EngineState \<Rightarrow> int \<times> nat \<times> (nat list \<times> nat \<times> nat \<times> nat \<times> nat)" where
  "engine_dims st = (el_registered_count st, length (el_nodes st), agg_sizes (el_agg st))"

lemma shape_dims:
  "engine_dims a = engine_dims b \<Longrightarrow> pslot_ok (ag_publish (el_agg a)) \<Longrightarrow> engine_shape b \<Longrightarrow> engine_shape a"
  by (simp add: engine_shape_def engine_dims_def agg_sizes_def)

lemma dims_core:
  assumes "engine_core a = engine_core b"
  shows "engine_dims a = engine_dims b"
proof -
  have "core_perms a = core_perms b" using assms by (simp add: engine_core_def)
  then have "length (el_nodes a) = length (el_nodes b)" unfolding core_perms_def by (metis length_map)
  then show ?thesis using assms by (simp add: engine_core_def engine_dims_def)
qed

lemma publish_outer: "engine_outer a = engine_outer b \<Longrightarrow> ag_publish (el_agg a) = ag_publish (el_agg b)"
  using pub_outer [of a b] by (simp add: pub_view_def)

lemma shape_outer:
  assumes "engine_outer a = engine_outer b" "engine_shape b"
  shows "engine_shape a"
proof (rule shape_dims)
  show "engine_dims a = engine_dims b" using assms(1) by (intro dims_core core_of_outer)
  show "pslot_ok (ag_publish (el_agg a))" using publish_outer [OF assms(1)] assms(2) by (simp add: engine_shape_def)
qed (rule assms(2))

lemma halted_outer: "engine_outer a = engine_outer b \<Longrightarrow> halted b \<Longrightarrow> halted a"
  using halted_core [OF core_of_outer, of a b] by blast

lemma dims_fold: "(\<And>x s. engine_dims (f x s) = engine_dims s) \<Longrightarrow> engine_dims (fold f xs s) = engine_dims s"
  by (induction xs arbitrary: s) simp_all

lemma dims_clear [simp]: "engine_dims (EventLoop_ClearAllPermissions st) = engine_dims st"
  by (simp add: engine_dims_def clear_fields)

lemma dims_frame [simp]:
  "engine_dims (st\<lparr>om_event_log := l\<rparr>) = engine_dims st"
  "engine_dims (st\<lparr>om_oms_state_flags := w, om_ks_trips_total := k\<rparr>) = engine_dims st"
  by (simp_all add: engine_dims_def)

lemma dims_trips: "engine_dims (serve_kill_trips env st) = engine_dims st"
proof -
  have "engine_dims (upd_agg (\<lambda>a. a\<lparr>ag_kill_trip_fatal_seq := ag_kill_trip_fatal_seq a + 1\<rparr>) s) = engine_dims s" for s
    by (simp add: engine_dims_def upd_agg_def)
  then have "engine_dims (serve_global_trip env site s) = engine_dims s" for site s
    by (simp add: serve_global_trip_def EventLoop_KillSwitchTrip_def Let_def)
  then show ?thesis
    unfolding serve_kill_trips_def Let_def bitmap_fold_def [of "serve_global_trip env"]
    by (simp add: dims_fold dims_core [OF trips_core])
qed

lemma dims_composed: "engine_dims (composed env self cfg px st) = engine_dims st"
proof -
  have e: "engine_dims (snd (EventLoop_KillSwitchEvaluate s)) = engine_dims s" for s
    by (simp add: EventLoop_KillSwitchEvaluate_def)
  have c: "engine_dims (eval_nodes cfg px (drain_drags k s)) = engine_dims s" for k s by (rule dims_core) simp
  have f: "engine_dims (snd (EngineCommon_FillRingsApply env s)) = engine_dims s" for s
    by (rule dims_core [OF core_of_outer]) simp
  have r: "engine_dims (serve_kill_reset s) = engine_dims s" for s by (rule dims_core) simp
  have i: "engine_dims (upd_agg (\<lambda>a. snd (Composer_AssertIdentity self a)) s) = engine_dims s" for s by (rule dims_core) simp
  show ?thesis unfolding composed_def Let_def by (simp only: e c dims_trips r f i)
qed

lemma dims_compose: "engine_dims (EngineCommon_ComposeAndKillEval env self cfg px pt st) = engine_dims st"
proof -
  have "engine_core (EngineCommon_ComposeAndKillEval env self cfg px pt st) = engine_core (composed env self cfg px st)"
    unfolding compose_eq by (simp add: core_upd_agg)
  then show ?thesis using dims_core dims_composed by metis
qed

lemma shape_compose:
  assumes "engine_shape st"
  shows "engine_shape (EngineCommon_ComposeAndKillEval env self cfg px pt st)"
proof -
  have "pslot_ok (ag_publish (el_agg st))" using assms by (simp add: engine_shape_def)
  then have "pslot_ok (ag_publish (el_agg (EngineCommon_ComposeAndKillEval env self cfg px pt st)))"
    using slot_written compose_state(4) [of env self cfg px pt st] by metis
  then show ?thesis using shape_dims [OF dims_compose] assms by blast
qed

lemma halted_compose:
  assumes "halted st \<or> drop_bit KILL_TRIP_SHIFT_GLOBAL (ag_kill_trip_request (el_agg st) AND KILL_TRIP_MASK_GLOBAL) \<noteq> 0"
  shows "halted (EngineCommon_ComposeAndKillEval env self cfg px pt st)"
    "bit (ag_kill_word (el_agg (EngineCommon_ComposeAndKillEval env self cfg px pt st))) 0"
proof -
  let ?s = "composed env self cfg px st"
  have h: "halted ?s" by (rule composed_halts [OF assms])
  show "halted (EngineCommon_ComposeAndKillEval env self cfg px pt st)"
    unfolding compose_eq using h by (subst halted_core [of _ ?s]) (simp_all add: core_upd_agg)
  show "bit (ag_kill_word (el_agg (EngineCommon_ComposeAndKillEval env self cfg px pt st))) 0"
    using h unfolding compose_state(2) by (subst kill_word_bits) (simp_all add: halted_def)
qed

lemma register_result:
  assumes "el_registered_count st < int MAX_EXECUTION_NODES"
  obtains x where "nx_core x = Some (core\<lparr>ec_node_id := word_of_int (el_registered_count st)\<rparr>)"
    "snd (EventLoopState_RegisterCore st core tp sl q) =
       st\<lparr>el_registered_count := el_registered_count st + 1, el_nodes := (el_nodes st)[nat (el_registered_count st) := x]\<rparr>"
proof
  let ?x = "(el_nodes st ! nat (el_registered_count st))\<lparr>nx_core := Some (core\<lparr>ec_node_id := word_of_int (el_registered_count st)\<rparr>),
    nx_intended_tp := tp, nx_intended_sl := sl, nx_intended_qty := q, nx_entries_processed := 0, nx_exits_processed := 0\<rparr>"
  show "nx_core ?x = Some (core\<lparr>ec_node_id := word_of_int (el_registered_count st)\<rparr>)" by simp
  show "snd (EventLoopState_RegisterCore st core tp sl q) =
      st\<lparr>el_registered_count := el_registered_count st + 1, el_nodes := (el_nodes st)[nat (el_registered_count st) := ?x]\<rparr>"
    using assms by (simp add: EventLoopState_RegisterCore_def Let_def upd_node_def)
qed

lemma push_N_snd: "ring_N (snd (SPSCRing_TryPush r x)) = ring_N r"
  by (cases "SPSCRing_TryPush r x") (simp add: push_N)

text \<open>Halted, with the published kill word saying so: what a compose leaves once the switch has tripped.\<close>

definition sealed :: "EngineState \<Rightarrow> bool" where
  "sealed st \<longleftrightarrow> halted st \<and> bit (ag_kill_word (el_agg st)) 0"

lemma sealed_outer: "engine_outer a = engine_outer b \<Longrightarrow> sealed a = sealed b"
  (is "?e \<Longrightarrow> _")
proof -
  assume e: ?e
  have "ag_kill_word (agg_quiet a) = ag_kill_word a" for a by (simp add: agg_quiet_def)
  moreover have "agg_quiet (el_agg a) = agg_quiet (el_agg b)" using e by (simp add: engine_outer_def)
  ultimately have "ag_kill_word (el_agg a) = ag_kill_word (el_agg b)" by metis
  moreover have "halted a = halted b" using halted_outer [OF e] halted_outer [OF e [symmetric]] by blast
  ultimately show ?thesis by (simp add: sealed_def)
qed

lemma dims_grant: "engine_dims (warmup_grant cfg samples n st) = engine_dims st" "el_agg (warmup_grant cfg samples n st) = el_agg st"
  by (simp_all add: warmup_grant_def grant_permission_def Let_def engine_dims_def upd_node_def)

lemma call_keeps:
  assumes "engine_call st st'"
  shows "(engine_shape st \<longrightarrow> engine_shape st') \<and> (0 \<le> el_registered_count st \<and> sealed st \<longrightarrow> sealed st') \<and>
    (0 \<le> el_registered_count st \<longrightarrow> 0 \<le> el_registered_count st')"
proof -
  have same: ?thesis if "engine_outer st' = engine_outer st"
  proof -
    have "el_registered_count st' = el_registered_count st" using that by (simp add: engine_outer_def engine_core_def)
    then show ?thesis using shape_outer [OF that] sealed_outer [OF that] by simp
  qed
  from assms show ?thesis
  proof cases
    case (call_oms env0)
    then show ?thesis by (intro same outer_oms)
  next
    case (call_buckets fuel b b')
    then show ?thesis by (intro same outer_phased)
  next
    case (call_closes env env0 b)
    then show ?thesis by (intro same) (simp add: outer_phased)
  next
    case (call_opens env env0 b)
    then show ?thesis by (intro same) (simp add: outer_phased)
  next
    case (call_reconciles env env0 b)
    then show ?thesis by (intro same) (simp add: outer_phased)
  next
    case (call_compose env self cfg px pt)
    then have "el_registered_count st' = el_registered_count st"
      using dims_compose [of env self cfg px pt st] by (simp add: engine_dims_def)
    then show ?thesis using call_compose shape_compose halted_compose by (simp add: sealed_def)
  next
    case (call_drain t w cfg)
    then show ?thesis by (intro same) (simp add: outer_drain)
  next
    case (call_tick env lp tick n)
    show ?thesis
    proof (cases "nx_core (node_at st n)")
      case None
      then show ?thesis using call_tick by (intro same) (simp add: tick_node_def)
    next
      case (Some c)
      then obtain c' where c': "ExecutionCore_Tick lp env tick c = Some c'" "st' = upd_node n (\<lambda>x. x\<lparr>nx_core := Some c'\<rparr>) st"
        using call_tick(2) by (auto simp: tick_node_def)
      show ?thesis
        unfolding c'(2) using same outer_set_core [OF Some tick_permission [OF c'(1) call_tick(1)]] c'(2) by simp
    qed
  next
    case (call_register core tp sl q)
    show ?thesis
    proof (cases "el_registered_count st < int MAX_EXECUTION_NODES")
      case False
      then show ?thesis using call_register by (intro same) (simp add: EventLoopState_RegisterCore_def)
    next
      case True
      obtain x where x: "nx_core x = Some (core\<lparr>ec_node_id := word_of_int (el_registered_count st)\<rparr>)"
        "st' = st\<lparr>el_registered_count := el_registered_count st + 1, el_nodes := (el_nodes st)[nat (el_registered_count st) := x]\<rparr>"
        using register_result [OF True, of core tp sl q] call_register(1) by metis
      have "halted st'" if "halted st" "0 \<le> el_registered_count st"
        using that x call_register True
        by (auto simp: halted_def kill_set_def perms_off_def node_at_def nat_add_distrib nth_list_update less_Suc_eq)
      then show ?thesis using x True by (auto simp: engine_shape_def sealed_def)
    qed
  next
    case (call_strategy slot sid alloc)
    then show ?thesis by (intro same) (simp add: EventLoopState_SetCoreStrategy_def outer_upd_node)
  next
    case (call_queue slot ps)
    then show ?thesis by (intro same) (simp add: EventLoop_QueueParameters_def outer_upd_node node_flag_set_def)
  next
    case (call_push pt)
    then show ?thesis by (intro same) (simp add: outer_push_parameters)
  next
    case (call_configure lo dd)
    then show ?thesis
      by (intro same) (simp add: EventLoopState_ConfigureKillSwitch_def engine_outer_def engine_core_def core_perms_def)
  next
    case (call_node f n)
    then show ?thesis by (intro same) (simp add: outer_upd_node)
  next
    case (call_request r)
    have "agg_sizes (post_request r a) = agg_sizes a" "ag_publish (post_request r a) = ag_publish a" for a
      by (simp_all add: post_request_def agg_sizes_def push_N_snd split: engine_request.split)
    then have e: "engine_core st' = engine_core st" "ag_publish (el_agg st') = ag_publish (el_agg st)"
      unfolding call_request by (simp_all add: core_upd_agg) (simp add: upd_agg_def)
    have "engine_shape st \<Longrightarrow> engine_shape st'"
      by (rule shape_dims [OF dims_core [OF e(1)]]) (simp_all add: e(2) engine_shape_def)
    moreover have "ag_kill_word (post_request r a) = ag_kill_word a" for a by (simp add: post_request_def split: engine_request.split)
    then have "sealed st \<Longrightarrow> sealed st'" using halted_core [OF e(1)] unfolding call_request by (simp add: sealed_def upd_agg_def)
    moreover have "el_registered_count st' = el_registered_count st" using e(1) by (simp add: engine_core_def)
    ultimately show ?thesis by simp
  next
    case (call_time_exit cfg t px n)
    then show ?thesis by (intro same) (simp add: outer_exits(1))
  next
    case (call_flatten nodes px)
    then show ?thesis by (intro same) (simp add: outer_exits(2))
  next
    case (call_staleness cfg px t)
    then show ?thesis by (intro same) (simp add: outer_staleness)
  next
    case (call_recovery t)
    then show ?thesis by (intro same) (simp add: outer_recovery)
  next
    case (call_breakeven cfg px n)
    then show ?thesis by (intro same) (simp add: outer_breakeven)
  next
    case (call_grant cfg samples n)
    have "sealed st \<Longrightarrow> sealed st'" using call_grant grant_killed by (simp add: sealed_def)
    moreover have "engine_shape st \<Longrightarrow> engine_shape st'"
      using shape_dims [OF dims_grant(1)] dims_grant(2) unfolding call_grant by (metis engine_shape_def)
    moreover have "el_registered_count st' = el_registered_count st"
      using dims_grant(1) [of cfg samples n st] unfolding call_grant by (simp add: engine_dims_def)
    ultimately show ?thesis by simp
  qed
qed

lemma run_shape: "engine_run st st' \<Longrightarrow> engine_shape st \<Longrightarrow> engine_shape st'"
  by (induction rule: engine_run.induct) (use call_keeps in blast)+



end
