(* ===== verification/Engine_Limits.thy ===== *)
theory Engine_Limits
  imports Engine_Halt
begin

text \<open>What holds of every limit after a compose.\<close>

unbundle bit_operations_syntax

subsection \<open>Nodes\<close>

definition kill_threshold :: "ControllerConfig \<Rightarrow> nat \<Rightarrow> Money" where
  "kill_threshold cfg n = (if \<not> Money_IsZero (nc_max_drawdown_pct (cc_nodes cfg ! n)) then nc_max_drawdown_pct (cc_nodes cfg ! n)
     else cc_max_drawdown_pct cfg)"

definition node_value :: "NodeContext \<Rightarrow> Money" where
  "node_value x = Money_Add (nx_allocated_balance x) (Money_Add (nx_node_realized x) (nx_node_unrealized_view x))"

definition node_within :: "ControllerConfig \<Rightarrow> nat \<Rightarrow> NodeContext \<Rightarrow> bool" where
  "node_within cfg n x \<longleftrightarrow> mint (node_value x) \<le> mint (nx_node_peak_balance x) \<and>
     (node_flag_is_set x NODE_STATE_KILL_TRIPPED \<or> \<not> Money_Gt (nx_node_dd_pct x) (kill_threshold cfg n) \<or>
      \<not> Money_Gt (Money_Sub (nx_node_peak_balance x) (node_value x)) (cc_min_kill_loss cfg))"

lemma trip_node_fields [simp]:
  "nx_node_peak_balance (trip_node x) = nx_node_peak_balance x" "node_value (trip_node x) = node_value x"
  "nx_node_unrealized_view (trip_node x) = nx_node_unrealized_view x"
  "node_flag_is_set (trip_node x) NODE_STATE_KILL_TRIPPED"
  by (simp_all add: trip_node_def node_flag_set_def node_value_def node_flag_is_set_def BITMAP_SET_def
      NODE_STATE_KILL_TRIPPED_def BITMAP_BIT_def bit.conj_disj_distrib2)

lemma drawdown_within:
  "node_within cfg n (node_drawdown cfg n u x)" "nx_node_unrealized_view (node_drawdown cfg n u x) = u"
  "node_flag_is_set x NODE_STATE_KILL_TRIPPED \<Longrightarrow> node_flag_is_set (node_drawdown cfg n u x) NODE_STATE_KILL_TRIPPED"
proof -
  define v where "v = Money_Add (nx_allocated_balance x) (Money_Add (nx_node_realized x) u)"
  define p where "p = Money_Max (if Money_IsZero (nx_node_peak_balance x) then nx_allocated_balance x else nx_node_peak_balance x) v"
  define y where "y = x\<lparr>nx_node_unrealized_view := u, nx_node_peak_balance := p, nx_node_dd_pct :=
    (if Money_Gt (Money_Sub p v) Money_Zero \<and> Money_Gt p Money_Zero then Money_Div (Money_Sub p v) p else Money_Zero)\<rparr>"
  have f: "nx_node_peak_balance y = p" "nx_node_unrealized_view y = u" "node_value y = v"
    "node_flag_is_set y NODE_STATE_KILL_TRIPPED = node_flag_is_set x NODE_STATE_KILL_TRIPPED"
    by (simp_all add: y_def v_def node_value_def node_flag_is_set_def)
  have dd: "nx_node_dd_pct y = (if Money_Gt (Money_Sub p v) Money_Zero \<and> Money_Gt p Money_Zero then Money_Div (Money_Sub p v) p else Money_Zero)"
    unfolding y_def by simp
  have d: "node_drawdown cfg n u x = (if node_flag_is_set y NODE_STATE_KILL_TRIPPED then y
      else if Money_Gt (nx_node_dd_pct y) (kill_threshold cfg n) \<and> Money_Gt (Money_Sub p v) (cc_min_kill_loss cfg) then trip_node y else y)"
    unfolding node_drawdown_def kill_threshold_def Let_def v_def [symmetric] p_def [symmetric] y_def [symmetric] dd ..
  have "mint v \<le> mint p" by (simp add: p_def)
  then show "node_within cfg n (node_drawdown cfg n u x)"
    unfolding d node_within_def by (auto simp: f)
  show "nx_node_unrealized_view (node_drawdown cfg n u x) = u" unfolding d by (simp add: f)
  show "node_flag_is_set x NODE_STATE_KILL_TRIPPED \<Longrightarrow> node_flag_is_set (node_drawdown cfg n u x) NODE_STATE_KILL_TRIPPED"
    unfolding d by (simp add: f)
qed

definition unrealized_of :: "ControllerConfig \<Rightarrow> Money \<Rightarrow> EngineState \<Rightarrow> nat \<Rightarrow> Money" where
  "unrealized_of cfg px st n =
     (if cc_mtm_kill_switch_enabled cfg \<and> \<not> Money_IsZero px then node_unrealized st n px else Money_Zero)"

lemma unrealized_cong:
  "om_portfolio a = om_portfolio b \<Longrightarrow> oms_partial_on a = oms_partial_on b \<Longrightarrow> unrealized_of cfg px a = unrealized_of cfg px b"
  by (simp add: unrealized_of_def [abs_def] node_unrealized_def cong: if_cong)

lemma unrealized_upd [simp]: "unrealized_of cfg px (upd_node m f st) = unrealized_of cfg px st"
  by (rule unrealized_cong) (simp_all add: upd_node_def oms_partial_on_def)

lemma eval_fold:
  assumes "distinct ns" "n < length (el_nodes st)"
  shows "node_at (fold (\<lambda>n st. upd_node n (node_drawdown cfg n (unrealized_of cfg px st n)) st) ns st) n =
    (if n \<in> set ns then node_drawdown cfg n (unrealized_of cfg px st n) (node_at st n) else node_at st n)"
  using assms
proof (induction ns arbitrary: st)
  case (Cons m ns)
  let ?s = "upd_node m (node_drawdown cfg m (unrealized_of cfg px st m)) st"
  have l: "n < length (el_nodes ?s)" using Cons.prems(2) by (simp add: upd_node_def)
  have a: "node_at ?s n = (if n = m then node_drawdown cfg m (unrealized_of cfg px st m) (node_at st m) else node_at st n)"
    using Cons.prems(2) by (simp add: upd_node_def node_at_def)
  show ?case using Cons.IH [OF _ l] Cons.prems(1) a by auto
qed simp

lemma eval_nodes_fold: "eval_nodes cfg px st =
    fold (\<lambda>n st. upd_node n (node_drawdown cfg n (unrealized_of cfg px st n)) st) (node_range st) st"
  by (simp add: eval_nodes_def unrealized_of_def Let_def)

lemma eval_at:
  assumes "n < length (el_nodes st)" "n < nat (el_registered_count st)" "n < MAX_EXECUTION_NODES"
  shows "node_at (eval_nodes cfg px st) n = node_drawdown cfg n (unrealized_of cfg px st n) (node_at st n)"
  using eval_fold [OF _ assms(1), of "node_range st" cfg px] assms(2,3) by (simp add: eval_nodes_fold node_range_def)

lemma eval_unrealized [simp]: "unrealized_of cfg px (eval_nodes c p st) = unrealized_of cfg px st"
proof -
  have "unrealized_of cfg px (fold (\<lambda>n st. upd_node n (f st n) st) ns s) = unrealized_of cfg px s" for f ns s
    by (induction ns arbitrary: s) simp_all
  then show ?thesis by (simp add: eval_nodes_fold)
qed

subsection \<open>The evaluation of the account\<close>

lemma clear_node:
  assumes "n < length (el_nodes st)"
  shows "\<exists>c. node_at (EventLoop_ClearAllPermissions st) n = (node_at st n)\<lparr>nx_core := c\<rparr>"
proof (cases "n < nat (el_registered_count st)")
  case True
  then show ?thesis using assms by (auto simp: node_at_def clear_permissions(1) perm_zero_def)
next
  case False
  then have "node_at (EventLoop_ClearAllPermissions st) n = (node_at st n)\<lparr>nx_core := nx_core (node_at st n)\<rparr>"
    using assms by (simp add: node_at_def clear_permissions(1))
  then show ?thesis by blast
qed

lemma evaluate_node:
  assumes "n < length (el_nodes st)"
  shows "\<exists>c. node_at (snd (EventLoop_KillSwitchEvaluate st)) n = (node_at st n)\<lparr>nx_core := c\<rparr>"
proof -
  let ?s = "st\<lparr>om_oms_state_flags := BITMAP_SET (om_oms_state_flags st) MASK_OMS_STATE_KILL_SWITCH_TRIPPED,
    om_ks_trips_total := om_ks_trips_total st + 1\<rparr>"
  have "\<exists>c. node_at st n = (node_at st n)\<lparr>nx_core := c\<rparr>" by (rule exI [of _ "nx_core (node_at st n)"]) simp
  moreover have "\<exists>c. node_at (EventLoop_ClearAllPermissions ?s) n = (node_at st n)\<lparr>nx_core := c\<rparr>"
    using clear_node [of n ?s] assms by (simp add: node_at_def)
  ultimately show ?thesis unfolding EventLoop_KillSwitchEvaluate_def by (simp only: snd_conv split: if_split) blast
qed

lemma evaluate_cases:
  "snd (EventLoop_KillSwitchEvaluate st) = st \<and> (kill_set st \<or> \<not> ks_should_trip st) \<or>
   (\<exists>N. snd (EventLoop_KillSwitchEvaluate st) = st\<lparr>el_nodes := N, om_oms_state_flags :=
      BITMAP_SET (om_oms_state_flags st) MASK_OMS_STATE_KILL_SWITCH_TRIPPED, om_ks_trips_total := om_ks_trips_total st + 1\<rparr> \<and>
      length N = length (el_nodes st) \<and> kill_set (snd (EventLoop_KillSwitchEvaluate st)))"
proof (cases "kill_set st \<or> \<not> ks_should_trip st")
  case True
  then have "snd (EventLoop_KillSwitchEvaluate st) = st" by (auto simp: EventLoop_KillSwitchEvaluate_def kill_set_def)
  then show ?thesis using True by blast
next
  case False
  let ?s = "st\<lparr>om_oms_state_flags := BITMAP_SET (om_oms_state_flags st) MASK_OMS_STATE_KILL_SWITCH_TRIPPED,
    om_ks_trips_total := om_ks_trips_total st + 1\<rparr>"
  have e: "snd (EventLoop_KillSwitchEvaluate st) = EventLoop_ClearAllPermissions ?s"
    using False by (simp add: EventLoop_KillSwitchEvaluate_def kill_set_def)
  have "kill_set (EventLoop_ClearAllPermissions ?s)" using clear_halts [OF kill_bit_set] by (simp add: halted_def)
  moreover have "EventLoop_ClearAllPermissions ?s = st\<lparr>el_nodes := el_nodes (EventLoop_ClearAllPermissions ?s),
      om_oms_state_flags := BITMAP_SET (om_oms_state_flags st) MASK_OMS_STATE_KILL_SWITCH_TRIPPED,
      om_ks_trips_total := om_ks_trips_total st + 1\<rparr>"
    by (subst clear_permissions(2)) simp
  moreover have "length (el_nodes (EventLoop_ClearAllPermissions ?s)) = length (el_nodes st)" by (simp add: clear_fields)
  ultimately show ?thesis unfolding e by metis
qed

lemma partial_kill_bit:
  "oms_partial_on (st\<lparr>el_nodes := N, om_oms_state_flags := BITMAP_SET (om_oms_state_flags st) MASK_OMS_STATE_KILL_SWITCH_TRIPPED,
     om_ks_trips_total := k\<rparr>) = oms_partial_on st"
proof -
  have "(w OR 4) AND 2 = w AND (2 :: u8)" for w by (simp add: bit.conj_disj_distrib2)
  then show ?thesis
    by (simp add: oms_partial_on_def BITMAP_IS_SET_def BITMAP_SET_def MASK_OMS_STATE_KILL_SWITCH_TRIPPED_def
        MASK_OMS_STATE_PARTIAL_EXIT_ENABLED_def BITMAP_BIT_def)
qed


end
