(* ===== verification/Engine_Ledger.thy ===== *)
theory Engine_Ledger
  imports Engine_Limits
begin

text \<open>Node rows and the account: applying fills keeps the difference between the account's realised
  profit and the sum over the nodes.\<close>

unbundle bit_operations_syntax

definition fill_well_formed :: "FillEvent \<Rightarrow> bool" where
  "fill_well_formed fe \<longleftrightarrow> 0 \<le> fe_node fe \<and> fe_node fe < int MAX_EXECUTION_NODES \<and> money_closed (fe_net fe) \<and>
     (\<not> fe_is_sell fe \<longrightarrow> fe_net fe = Money_Zero)"

definition nodes_realized :: "EngineState \<Rightarrow> int" where
  "nodes_realized st = (\<Sum>n < MAX_EXECUTION_NODES. mint (nx_node_realized (node_at st n)))"

definition realized_room :: "int \<Rightarrow> EngineState \<Rightarrow> bool" where
  "realized_room b st \<longleftrightarrow> length (el_nodes st) = MAX_EXECUTION_NODES \<and> \<bar>mint (om_realized_pnl st)\<bar> + b \<le> money_lim \<and>
     (\<forall>n < MAX_EXECUTION_NODES. \<bar>mint (nx_node_realized (node_at st n))\<bar> + b \<le> money_lim)"

definition volume :: "FillEvent list \<Rightarrow> int" where
  "volume fes = sum_list (map (\<lambda>fe. \<bar>mint (fe_net fe)\<bar>) fes)"

lemma add_in_room: "\<bar>mint a\<bar> + b \<le> money_lim \<Longrightarrow> \<bar>mint x\<bar> \<le> b \<Longrightarrow> mint (Money_Add a x) = mint a + mint x"
  by (subst Money_Add_int) (auto simp: money_closed_def money_sat_def)

lemma abs_room: "\<bar>a\<bar> + (\<bar>x\<bar> + b) \<le> l \<Longrightarrow> \<bar>a + x\<bar> + b \<le> l" "\<bar>a\<bar> + (\<bar>x\<bar> + b) \<le> l \<Longrightarrow> \<bar>a\<bar> + b \<le> (l :: int)"
  by linarith+

subsection \<open>One fill\<close>

lemma realized_upd_node:
  "nx_node_realized (node_at (upd_node m f st) n) =
     (if n = m \<and> n < length (el_nodes st) then nx_node_realized (f (node_at st n)) else nx_node_realized (node_at st n))"
  by (cases "m < length (el_nodes st)") (auto simp: node_at_def upd_node_def list_update_beyond)

lemma nodes_frame [simp]:
  "node_at (upd_agg g st) n = node_at st n" "node_at (st\<lparr>el_total_entries := a\<rparr>) n = node_at st n"
  "node_at (st\<lparr>el_total_exits := a\<rparr>) n = node_at st n" "node_at (st\<lparr>el_total_events_processed := a\<rparr>) n = node_at st n"
  "node_at (st\<lparr>el_partner_pending_bitmap := w\<rparr>) n = node_at st n"
  "node_at (st\<lparr>el_total_events_processed := c, el_total_entries := a\<rparr>) n = node_at st n"
  "node_at (st\<lparr>el_total_events_processed := c, el_total_exits := a\<rparr>) n = node_at st n"
  "node_at (OrderManager_LedgerApplyFill st fe) n = node_at st n"
  by (simp_all add: node_at_def upd_agg_def OrderManager_LedgerApplyFill_def OrderManager_AccountMakerTakerFee_def Let_def)

lemma trade_realized: "nx_node_realized (node_at (book_trade_result m v st) n) = nx_node_realized (node_at st n)"
  unfolding book_trade_result_def Let_def by (simp add: realized_upd_node)

lemma rows_realized:
  "nx_node_realized (node_at (EngineCommon_NodeRowsBook st fe) n) =
     (if fe_is_sell fe \<and> n = nat (fe_node fe) \<and> n < length (el_nodes st)
      then Money_Add (nx_node_realized (node_at st n)) (fe_net fe) else nx_node_realized (node_at st n))"
  unfolding EngineCommon_NodeRowsBook_def Let_def by (simp add: realized_upd_node trade_realized)

lemma rows_account:
  "om_realized_pnl (EngineCommon_NodeRowsBook st fe) = om_realized_pnl st"
  "length (el_nodes (EngineCommon_NodeRowsBook st fe)) = length (el_nodes st)"
proof -
  have u: "om_realized_pnl (upd_node n f s) = om_realized_pnl s" "om_realized_pnl (upd_agg g s) = om_realized_pnl s"
    "length (el_nodes (upd_node n f s)) = length (el_nodes s)" "length (el_nodes (upd_agg g s)) = length (el_nodes s)" for n f g s
    by (simp_all add: upd_node_def upd_agg_def)
  have b: "om_realized_pnl (book_trade_result n v s) = om_realized_pnl s"
    "length (el_nodes (book_trade_result n v s)) = length (el_nodes s)" for n v s
    unfolding book_trade_result_def Let_def by (simp_all add: u)
  show "om_realized_pnl (EngineCommon_NodeRowsBook st fe) = om_realized_pnl st"
    "length (el_nodes (EngineCommon_NodeRowsBook st fe)) = length (el_nodes st)"
    unfolding EngineCommon_NodeRowsBook_def Let_def by (simp_all add: u b)
qed

lemma apply_fill_realized:
  "om_realized_pnl (apply_fill m fe st) = Money_Add (om_realized_pnl st) (fe_net fe)"
  "length (el_nodes (apply_fill m fe st)) = length (el_nodes st)"
  "nx_node_realized (node_at (apply_fill m fe st) n) =
     (if fe_is_sell fe \<and> n = nat (fe_node fe) \<and> n < length (el_nodes st)
      then Money_Add (nx_node_realized (node_at st n)) (fe_net fe) else nx_node_realized (node_at st n))"
proof -
  have l: "om_realized_pnl (OrderManager_LedgerApplyFill st fe) = Money_Add (om_realized_pnl st) (fe_net fe)"
    "el_nodes (OrderManager_LedgerApplyFill st fe) = el_nodes st"
    by (simp_all add: OrderManager_LedgerApplyFill_def OrderManager_AccountMakerTakerFee_def Let_def)
  have a: "om_realized_pnl (upd_agg g s) = om_realized_pnl s" "el_nodes (upd_agg g s) = el_nodes s" for g s
    by (simp_all add: upd_agg_def)
  show "om_realized_pnl (apply_fill m fe st) = Money_Add (om_realized_pnl st) (fe_net fe)"
    "length (el_nodes (apply_fill m fe st)) = length (el_nodes st)"
    "nx_node_realized (node_at (apply_fill m fe st) n) =
     (if fe_is_sell fe \<and> n = nat (fe_node fe) \<and> n < length (el_nodes st)
      then Money_Add (nx_node_realized (node_at st n)) (fe_net fe) else nx_node_realized (node_at st n))"
    by (simp_all add: apply_fill_def Let_def a rows_account rows_realized l)
qed

lemma apply_fill_books:
  assumes "realized_room (\<bar>mint (fe_net fe)\<bar> + b) st" "fill_well_formed fe" "0 \<le> b"
  shows "realized_room b (apply_fill m fe st) \<and>
    nodes_realized (apply_fill m fe st) - mint (om_realized_pnl (apply_fill m fe st)) = nodes_realized st - mint (om_realized_pnl st)"
proof -
  let ?st = "apply_fill m fe st" and ?k = "nat (fe_node fe)"
  have k: "?k < MAX_EXECUTION_NODES" using assms(2) by (auto simp: fill_well_formed_def MAX_EXECUTION_NODES_def)
  have len: "length (el_nodes st) = MAX_EXECUTION_NODES" using assms(1) by (simp add: realized_room_def)
  have acc: "mint (om_realized_pnl ?st) = mint (om_realized_pnl st) + mint (fe_net fe)"
    unfolding apply_fill_realized(1)
    by (rule add_in_room [of _ "\<bar>mint (fe_net fe)\<bar> + b"]) (use assms in \<open>auto simp: realized_room_def\<close>)
  have add: "mint (Money_Add (nx_node_realized (node_at st n)) (fe_net fe)) = mint (nx_node_realized (node_at st n)) + mint (fe_net fe)"
    if "n < MAX_EXECUTION_NODES" for n
    by (rule add_in_room [of _ "\<bar>mint (fe_net fe)\<bar> + b"]) (use assms that in \<open>auto simp: realized_room_def\<close>)
  have row: "mint (nx_node_realized (node_at ?st n)) =
      mint (nx_node_realized (node_at st n)) + (if n = ?k then mint (fe_net fe) else 0)" if "n < MAX_EXECUTION_NODES" for n
    using add [OF that] that assms(2) len by (auto simp: apply_fill_realized(3) fill_well_formed_def)
  have "nodes_realized ?st = nodes_realized st + (\<Sum>n < MAX_EXECUTION_NODES. if n = ?k then mint (fe_net fe) else 0)"
    unfolding nodes_realized_def by (simp add: row sum.distrib)
  also have "(\<Sum>n < MAX_EXECUTION_NODES. if n = ?k then mint (fe_net fe) else 0) = mint (fe_net fe)"
    using k by simp
  finally have sum: "nodes_realized ?st = nodes_realized st + mint (fe_net fe)" .
  have "\<bar>mint (nx_node_realized (node_at ?st n))\<bar> + b \<le> money_lim" if "n < MAX_EXECUTION_NODES" for n
  proof -
    have "\<bar>mint (nx_node_realized (node_at st n))\<bar> + (\<bar>mint (fe_net fe)\<bar> + b) \<le> money_lim"
      using assms(1) that by (simp add: realized_room_def)
    from abs_room [OF this] show ?thesis unfolding row [OF that] by (simp only: add_0_right simp_thms split: if_split)
  qed
  moreover have "\<bar>mint (om_realized_pnl ?st)\<bar> + b \<le> money_lim" using acc assms(1) by (auto simp: realized_room_def)
  ultimately show ?thesis using sum acc len by (simp add: realized_room_def apply_fill_realized(2))
qed

lemma fold_fills_books:
  assumes "realized_room (volume fes + b) st" "\<forall>fe \<in> set fes. fill_well_formed fe" "0 \<le> b"
  shows "realized_room b (fold (apply_fill m) fes st) \<and>
    nodes_realized (fold (apply_fill m) fes st) - mint (om_realized_pnl (fold (apply_fill m) fes st)) =
      nodes_realized st - mint (om_realized_pnl st)"
  using assms
proof (induction fes arbitrary: st)
  case (Cons fe fes)
  have v: "0 \<le> volume fes" by (auto simp: volume_def intro!: sum_list_nonneg)
  have "realized_room (\<bar>mint (fe_net fe)\<bar> + (volume fes + b)) st" using Cons.prems(1) by (simp add: volume_def add.assoc)
  from apply_fill_books [OF this _ , of m] Cons.prems(2,3) v
  have "realized_room (volume fes + b) (apply_fill m fe st)"
    "nodes_realized (apply_fill m fe st) - mint (om_realized_pnl (apply_fill m fe st)) = nodes_realized st - mint (om_realized_pnl st)"
    by auto
  then show ?case using Cons.IH [of "apply_fill m fe st"] Cons.prems(2,3) by simp
qed (simp add: volume_def)

lemma fold_nodes_books:
  assumes "realized_room (sum_list (map (\<lambda>n. volume (ring_items (rs ! n))) ns) + b) st"
    "\<forall>n \<in> set ns. \<forall>fe \<in> set (ring_items (rs ! n)). fill_well_formed fe" "0 \<le> b"
  shows "realized_room b (fold (apply_node rs) ns st) \<and>
    nodes_realized (fold (apply_node rs) ns st) - mint (om_realized_pnl (fold (apply_node rs) ns st)) =
      nodes_realized st - mint (om_realized_pnl st)"
  using assms
proof (induction ns arbitrary: st)
  case (Cons n ns)
  let ?v = "sum_list (map (\<lambda>n. volume (ring_items (rs ! n))) ns)"
  have v: "0 \<le> ?v" by (intro sum_list_nonneg) (auto simp: volume_def intro!: sum_list_nonneg)
  have "realized_room (volume (ring_items (rs ! n)) + (?v + b)) st" using Cons.prems(1) by (simp add: add.assoc)
  from fold_fills_books [OF this, of n] Cons.prems(2,3) v
  have "realized_room (?v + b) (apply_node rs n st)"
    "nodes_realized (apply_node rs n st) - mint (om_realized_pnl (apply_node rs n st)) = nodes_realized st - mint (om_realized_pnl st)"
    by (auto simp: apply_node_def)
  then show ?case using Cons.IH [of "apply_node rs n st"] Cons.prems(2,3) by simp
qed simp

text \<open>C9: while nothing saturates, applying the fill rings moves the account's realised profit and the
  sum of the node rows by the same amount, to the last unit: every fill is booked once in the account
  and once in exactly one node row.\<close>

theorem node_rows_follow_account:
  assumes "rings_ok st"
    and "\<forall>n < MAX_EXECUTION_NODES. \<forall>fe \<in> set (ring_items (rings_of st ! n)). fill_well_formed fe"
    and "realized_room (sum_list (map (\<lambda>n. volume (ring_items (rings_of st ! n))) [0..<MAX_EXECUTION_NODES])) st"
  shows "nodes_realized (snd (EngineCommon_FillRingsApply env st)) - mint (om_realized_pnl (snd (EngineCommon_FillRingsApply env st))) =
    nodes_realized st - mint (om_realized_pnl st)"
proof -
  obtain rs where rs: "same_but_events (set_rings rs (fold (apply_node (rings_of st)) [0..<MAX_EXECUTION_NODES] st))
      (snd (EngineCommon_FillRingsApply env st))"
    using fill_rings_apply [OF assms(1), of env] by blast
  have "nodes_realized b - mint (om_realized_pnl b) = nodes_realized a - mint (om_realized_pnl a)"
    if "same_but_events (set_rings rs a) b" for a b
  proof -
    have e: "without_events b = without_events (set_rings rs a)" using that by (simp add: same_but_events_def)
    show ?thesis using arg_cong [OF e, of el_nodes] arg_cong [OF e, of om_realized_pnl]
      by (simp add: nodes_realized_def node_at_def without_events_def set_rings_def upd_agg_def)
  qed
  from this [OF rs] show ?thesis
    using fold_nodes_books [of "rings_of st" "[0..<MAX_EXECUTION_NODES]" 0 st] assms(2,3) by simp
qed

end
