(* ===== verification/Engine_Orders.thy ===== *)
theory Engine_Orders
  imports Engine_Ledger
begin

text \<open>From trade events to submit commands.\<close>

unbundle bit_operations_syntax

subsection \<open>Slots and quantities of a pair\<close>

lemma pair_slots:
  assumes "n < 8"
  shows "Sharded_LegSlot (int n) 0 True = 2 * int n" "Sharded_LegSlot (int n) 1 True = 2 * int n + 1"
    "Sharded_SlotNode (2 * int n) True = int n" "Sharded_SlotNode (2 * int n + 1) True = int n"
  using assms by (simp_all add: Sharded_LegSlot_def Sharded_SlotNode_def slot_node_def MAX_PORTFOLIO_POSITIONS_def
      drop_bit_eq_div Let_def)

definition partial_pct_of :: "ControllerConfig \<Rightarrow> nat \<Rightarrow> Money" where
  "partial_pct_of cfg n = (if \<not> Money_IsZero (ov_partial_exit_pct (cc_node_overrides cfg ! n))
     then ov_partial_exit_pct (cc_node_overrides cfg ! n) else nc_partial_exit_pct (cc_nodes cfg ! n))"

lemma leg_quantities:
  assumes "0 \<le> mint q" "money_closed q" "0 \<le> mint (partial_pct_of cfg n)" "mint (partial_pct_of cfg n) \<le> 100000000"
  shows "0 \<le> mint (entry_qty cfg n True PARTIAL_LEG_A q)" "0 \<le> mint (entry_qty cfg n True PARTIAL_LEG_B q)"
    "mint (entry_qty cfg n True PARTIAL_LEG_A q) + mint (entry_qty cfg n True PARTIAL_LEG_B q) = mint q"
proof -
  let ?p = "partial_pct_of cfg n" and ?a = "Money_Mul q (partial_pct_of cfg n)"
  have e: "entry_qty cfg n True PARTIAL_LEG_A q = ?a" "entry_qty cfg n True PARTIAL_LEG_B q = Money_Sub q ?a"
    by (simp_all add: entry_qty_def partial_pct_of_def Let_def PARTIAL_LEG_A_def PARTIAL_LEG_B_def)
  obtain x y where xy: "mint q = int x" "mint ?p = int y" using assms(1,3) by (metis nonneg_int_cases)
  then have "y \<le> 100000000" using assms(4) by simp
  then have "rhe (x * y) 100000000 \<le> x" by (intro rhe_mono_le) simp_all
  then have r: "0 \<le> irhe (mint q * mint ?p) 100000000" "irhe (mint q * mint ?p) 100000000 \<le> mint q"
    unfolding xy of_nat_mult [symmetric] irhe_nat by simp_all
  have l: "mint q \<le> money_lim" using assms(2) by (simp add: money_closed_def)
  have a: "0 \<le> mint ?a" "mint ?a \<le> mint q"
    unfolding Money_Mul_int money_sat_def using r l by (auto simp: money_lim_def)
  have "money_closed ?a" using a l by (simp add: money_closed_def)
  then have b: "mint (Money_Sub q ?a) = mint q - mint ?a"
    using a l by (subst Money_Sub_int [OF assms(2)]) (auto simp: money_sat_def)
  show "0 \<le> mint (entry_qty cfg n True PARTIAL_LEG_A q)" "0 \<le> mint (entry_qty cfg n True PARTIAL_LEG_B q)"
    "mint (entry_qty cfg n True PARTIAL_LEG_A q) + mint (entry_qty cfg n True PARTIAL_LEG_B q) = mint q"
    unfolding e using a b by simp_all
qed

subsection \<open>One event\<close>

lemma command_fields:
  "sc_portfolio_slot (drain_command cfg n p q e st) = p" "sc_qty (drain_command cfg n p q e st) = q"
  "sc_leg (drain_command cfg n p q e st) = te_leg e" "sc_event_price (drain_command cfg n p q e st) = te_price e"
  "sc_order_type (drain_command cfg n p q e st) = (if te_type e AND TRADE_EVENT_ENTRY \<noteq> 0 then ORDER_MARKET_BUY else ORDER_MARKET_SELL)"
  "sc_intended_sl (drain_command cfg n p q e st) = nx_intended_sl (node_at st n)"
  by (simp_all add: drain_command_def Let_def SubmitCommand_make_def)

text \<open>What a drained event leaves: the node's intentions, the flags and the book untouched, at most one
  command pushed on the queue of its slot.\<close>

lemma drain_event_result:
  fixes cfg and t w :: u64 and k
  assumes "Sharded_LegSlot (int n) (uint (te_leg e)) (oms_partial_on st \<noteq> 0) = int s" "s < 16"
    and "te_type e AND (TRADE_EVENT_ENTRY OR TRADE_EVENT_EXIT) \<noteq> 0"
  defines "q \<equiv> drain_order_qty cfg n s e st" and "st' \<equiv> snd (drain_event t w cfg n e (k, st))"
  shows "om_submit_queues st' = (if 0 < mint q
      then (om_submit_queues st)[s := snd (SPSCRing_TryPush (om_submit_queues st ! s) (drain_command cfg n (int s) q e st))]
      else om_submit_queues st)"
    "om_oms_state_flags st' = om_oms_state_flags st" "om_portfolio st' = om_portfolio st"
    "nx_intended_qty (node_at st' m) = nx_intended_qty (node_at st m)"
proof -
  let ?c = "drain_command cfg n (int s) q e st"
  have p: "OMS_PushSubmit st ?c = (fst (SPSCRing_TryPush (om_submit_queues st ! s) ?c),
      st\<lparr>om_submit_queues := (om_submit_queues st)[s := snd (SPSCRing_TryPush (om_submit_queues st ! s) ?c)]\<rparr>)"
    using assms(2) by (simp add: OMS_PushSubmit_def command_fields MAX_PORTFOLIO_POSITIONS_def Let_def split_def)
  have n: "nx_intended_qty (note_entry t w e x) = nx_intended_qty x" for x by (simp add: note_entry_def Let_def)
  have u: "nx_intended_qty (node_at (upd_node n (note_entry t w e) y) m) = nx_intended_qty (node_at y m)" for y
    by (cases "n < length (el_nodes y)") (auto simp: node_at_def upd_node_def nth_list_update n list_update_beyond)
  have st': "st' = (if 0 < mint q then upd_node n (note_entry t w e) (snd (OMS_PushSubmit st ?c)) else st)"
    using assms(1,3) by (simp add: st'_def drain_event_def q_def)
  show "om_submit_queues st' = (if 0 < mint q
      then (om_submit_queues st)[s := snd (SPSCRing_TryPush (om_submit_queues st ! s) ?c)] else om_submit_queues st)"
    "om_oms_state_flags st' = om_oms_state_flags st" "om_portfolio st' = om_portfolio st"
    unfolding st' p by (simp_all add: upd_node_def)
  show "nx_intended_qty (node_at st' m) = nx_intended_qty (node_at st m)"
    unfolding st' p by (simp add: u) (simp add: node_at_def)
qed

definition queue_free :: "EngineState \<Rightarrow> nat \<Rightarrow> bool" where
  "queue_free st s \<longleftrightarrow> s < length (om_submit_queues st) \<and> ring_ok (om_submit_queues st ! s) \<and>
     0 < ring_room (om_submit_queues st ! s) \<and> length (ring_items (om_submit_queues st ! s)) < ring_N (om_submit_queues st ! s)"

definition queued :: "EngineState \<Rightarrow> nat \<Rightarrow> SubmitCommand list" where
  "queued st s = ring_items (om_submit_queues st ! s)"

lemma push_queued:
  assumes "queue_free st s"
  shows "ring_items (snd (SPSCRing_TryPush (om_submit_queues st ! s) c)) = queued st s @ [c]"
proof -
  obtain b r where p: "SPSCRing_TryPush (om_submit_queues st ! s) c = (b, r)" by fastforce
  show ?thesis using ring.push_law [OF _ _ p] assms by (simp add: p queue_free_def queued_def)
qed

text \<open>C15: the two entry events of a pair become two buys, of slots 2n and 2n + 1 (both of which belong to
  node n), whose quantities are non-negative and add up to the intended quantity exactly; each is
  queued behind what its slot's queue held, unless its quantity is zero.\<close>

theorem entry_pair_splits_exactly:
  assumes "n < 8" "oms_partial_on st \<noteq> 0"
    and "te_type ea AND TRADE_EVENT_ENTRY \<noteq> 0" "te_type ea AND TRADE_EVENT_EXIT = 0" "te_leg ea = PARTIAL_LEG_A"
    and "te_type eb AND TRADE_EVENT_ENTRY \<noteq> 0" "te_type eb AND TRADE_EVENT_EXIT = 0" "te_leg eb = PARTIAL_LEG_B"
    and "0 \<le> mint (nx_intended_qty (node_at st n))" "money_closed (nx_intended_qty (node_at st n))"
    and "0 \<le> mint (partial_pct_of cfg n)" "mint (partial_pct_of cfg n) \<le> 100000000"
    and "queue_free st (2 * n)" "queue_free st (2 * n + 1)"
  shows "\<exists>ca cb. let st' = snd (drain_event t w cfg n eb (drain_event t w cfg n ea (k, st))) in
    queued st' (2 * n) = queued st (2 * n) @ (if 0 < mint (sc_qty ca) then [ca] else []) \<and>
    queued st' (2 * n + 1) = queued st (2 * n + 1) @ (if 0 < mint (sc_qty cb) then [cb] else []) \<and>
    sc_portfolio_slot ca = 2 * int n \<and> sc_portfolio_slot cb = 2 * int n + 1 \<and>
    Sharded_SlotNode (sc_portfolio_slot ca) True = int n \<and> Sharded_SlotNode (sc_portfolio_slot cb) True = int n \<and>
    sc_order_type ca = ORDER_MARKET_BUY \<and> sc_order_type cb = ORDER_MARKET_BUY \<and>
    0 \<le> mint (sc_qty ca) \<and> 0 \<le> mint (sc_qty cb) \<and>
    mint (sc_qty ca) + mint (sc_qty cb) = mint (nx_intended_qty (node_at st n))"
proof -
  let ?q = "nx_intended_qty (node_at st n)"
  define qa where "qa = entry_qty cfg n True PARTIAL_LEG_A ?q"
  define qb where "qb = entry_qty cfg n True PARTIAL_LEG_B ?q"
  define st1 where "st1 = snd (drain_event t w cfg n ea (k, st))"
  define k1 where "k1 = fst (drain_event t w cfg n ea (k, st))"
  have p1: "drain_event t w cfg n ea (k, st) = (k1, st1)" by (simp add: st1_def k1_def)
  have t: "te_type e AND (TRADE_EVENT_ENTRY OR TRADE_EVENT_EXIT) \<noteq> 0" if "te_type e AND TRADE_EVENT_ENTRY \<noteq> 0" for e
    using that by (metis bit.conj_disj_distrib or_eq_0_iff)
  have sa: "Sharded_LegSlot (int n) (uint (te_leg ea)) (oms_partial_on st \<noteq> 0) = int (2 * n)"
    using pair_slots(1) [OF assms(1)] assms(2,5) by (simp add: PARTIAL_LEG_A_def)
  have da: "drain_order_qty cfg n (2 * n) ea st = qa"
    using assms(2-5) by (simp add: drain_order_qty_def qa_def)
  have l: "2 * n < 16" "2 * n + 1 < 16" using assms(1) by simp_all
  note ra = drain_event_result [OF sa l(1) t [OF assms(3)], where cfg = cfg and t = t and w = w and k = k, folded st1_def, unfolded da]
  have on: "oms_partial_on st1 \<noteq> 0" using ra(2) assms(2) by (simp add: oms_partial_on_def)
  have sb: "Sharded_LegSlot (int n) (uint (te_leg eb)) (oms_partial_on st1 \<noteq> 0) = int (2 * n + 1)"
    using pair_slots(2) [OF assms(1)] on assms(8) by (simp add: PARTIAL_LEG_B_def)
  have db: "drain_order_qty cfg n (2 * n + 1) eb st1 = qb"
    using on assms(6-8) ra(4) [of n] by (simp add: drain_order_qty_def qb_def)
  note rb = drain_event_result [OF sb l(2) t [OF assms(6)], where cfg = cfg and t = t and w = w and k = k1, unfolded db]
  let ?st' = "snd (drain_event t w cfg n eb (k1, st1))"
  define ca where "ca = drain_command cfg n (int (2 * n)) qa ea st"
  define cb where "cb = drain_command cfg n (int (2 * n + 1)) qb eb st1"
  note cs = command_fields [of cfg n "int (2 * n)" qa ea st, folded ca_def]
    command_fields [of cfg n "int (2 * n + 1)" qb eb st1, folded cb_def]
  have f: "queue_free st1 (2 * n + 1)" "queued st1 (2 * n + 1) = queued st (2 * n + 1)"
    using assms(14) ra(1) by (auto simp: queue_free_def queued_def)
  have qa': "queued st1 (2 * n) = queued st (2 * n) @ (if 0 < mint qa then [ca] else [])"
    using push_queued [OF assms(13), of ca] assms(13) ra(1) by (auto simp: queue_free_def queued_def ca_def)
  have 1: "queued ?st' (2 * n) = queued st (2 * n) @ (if 0 < mint (sc_qty ca) then [ca] else [])"
    using rb(1) qa' cs(2) by (auto simp: queued_def)
  have 2: "queued ?st' (2 * n + 1) = queued st (2 * n + 1) @ (if 0 < mint (sc_qty cb) then [cb] else [])"
    using push_queued [OF f(1), of cb] f rb(1) cs(8) by (auto simp: queue_free_def queued_def cb_def)
  have 3: "0 \<le> mint (sc_qty ca)" "0 \<le> mint (sc_qty cb)" "mint (sc_qty ca) + mint (sc_qty cb) = mint ?q"
    using leg_quantities [OF assms(9-12)] cs(2,8) by (simp_all add: qa_def qb_def)
  have 4: "sc_portfolio_slot ca = 2 * int n" "sc_portfolio_slot cb = 2 * int n + 1"
    "Sharded_SlotNode (sc_portfolio_slot ca) True = int n" "Sharded_SlotNode (sc_portfolio_slot cb) True = int n"
    using pair_slots(3,4) [OF assms(1)] unfolding cs(1,7) by (simp_all only: of_nat_add of_nat_mult of_nat_numeral of_nat_1)
  have 5: "sc_order_type ca = ORDER_MARKET_BUY" "sc_order_type cb = ORDER_MARKET_BUY"
    using cs(5,11) assms(3,6) by simp_all
  show ?thesis unfolding p1 Let_def using 1 2 3 4 5 by blast
qed

end
