(* ===== verification/Engine_Flatten.thy ===== *)
theory Engine_Flatten
  imports Engine_Orders
begin

text \<open>
  The slow path's exits: which commands the emergency flatten and the time exit queue, how often the
  staleness check can fire, and where the breakeven ratchet may move.
\<close>

unbundle bit_operations_syntax

subsection \<open>Pushing one command per slot\<close>

lemma push_exit_result:
  assumes "i < 16"
  shows "OMS_PushExitForSlot st (int i) q sid px leg cfg =
    (let c = (SubmitCommand_make (int i) ORDER_MARKET_SELL q leg cfg)\<lparr>sc_strategy_id := sid, sc_event_price := px\<rparr>
     in (fst (SPSCRing_TryPush (om_submit_queues st ! i) c),
         st\<lparr>om_submit_queues := (om_submit_queues st)[i := snd (SPSCRing_TryPush (om_submit_queues st ! i) c)]\<rparr>))"
  using assms by (simp add: OMS_PushExitForSlot_def OMS_PushSubmit_def SubmitCommand_make_def MAX_PORTFOLIO_POSITIONS_def Let_def split_def)

lemma push_fold:
  assumes "\<And>i qs. i \<in> set is \<Longrightarrow> length qs = 16 \<Longrightarrow> g i (st\<lparr>om_submit_queues := qs\<rparr>) =
      st\<lparr>om_submit_queues := (if P i then qs[i := snd (SPSCRing_TryPush (qs ! i) (cmd i))] else qs)\<rparr>"
    and "distinct is" "\<forall>i \<in> set is. i < 16" "length qs = 16"
  shows "fold g is (st\<lparr>om_submit_queues := qs\<rparr>) = st\<lparr>om_submit_queues :=
      map (\<lambda>s. if s \<in> set is \<and> P s then snd (SPSCRing_TryPush (qs ! s) (cmd s)) else qs ! s) [0..<16]\<rparr>"
  using assms
proof (induction "is" arbitrary: qs)
  case Nil
  then have "map ((!) qs) [0..<16] = qs" by (intro nth_equalityI) simp_all
  then show ?case by simp
next
  case (Cons i rest)
  let ?qs = "if P i then qs[i := snd (SPSCRing_TryPush (qs ! i) (cmd i))] else qs"
  have "fold g (i # rest) (st\<lparr>om_submit_queues := qs\<rparr>) = fold g rest (st\<lparr>om_submit_queues := ?qs\<rparr>)"
    using Cons.prems(1,4) by simp
  also have "\<dots> = st\<lparr>om_submit_queues :=
      map (\<lambda>s. if s \<in> set rest \<and> P s then snd (SPSCRing_TryPush (?qs ! s) (cmd s)) else ?qs ! s) [0..<16]\<rparr>"
    using Cons.prems by (intro Cons.IH) auto
  also have "map (\<lambda>s. if s \<in> set rest \<and> P s then snd (SPSCRing_TryPush (?qs ! s) (cmd s)) else ?qs ! s) [0..<16] =
      map (\<lambda>s. if s \<in> set (i # rest) \<and> P s then snd (SPSCRing_TryPush (qs ! s) (cmd s)) else qs ! s) [0..<16]"
    using Cons.prems(2,3,4) by (intro map_cong) (auto simp: nth_list_update)
  finally show ?case .
qed

subsection \<open>The emergency flatten\<close>

definition flatten_command :: "EngineNodeCfg list \<Rightarrow> Money \<Rightarrow> nat \<Rightarrow> EngineState \<Rightarrow> nat \<Rightarrow> SubmitCommand" where
  "flatten_command nodes price partial_on st i =
     (let n = nat (Sharded_SlotNode (int i) (partial_on \<noteq> 0))
      in (SubmitCommand_make (int i) ORDER_MARKET_SELL (p_quantity (position_at st i)) (word_of_nat ((i mod 2) * partial_on))
            (Some (PerNodeCfg.truncate (nodes ! n))))
           \<lparr>sc_strategy_id := nx_resolved_strategy_id (node_at st n), sc_event_price := price\<rparr>)"

lemma flatten_slot_result:
  assumes "i < 16"
  shows "flatten_slot nodes price p i (k, st\<lparr>om_submit_queues := qs\<rparr>) =
    (k + of_bool (fst (SPSCRing_TryPush (qs ! i) (flatten_command nodes price p st i))),
     st\<lparr>om_submit_queues := qs[i := snd (SPSCRing_TryPush (qs ! i) (flatten_command nodes price p st i))]\<rparr>)"
  by (simp add: flatten_slot_def push_exit_result [OF assms] flatten_command_def position_at_def node_at_def Let_def)

lemma flatten_fold:
  assumes "distinct is" "\<forall>i \<in> set is. i < 16" "length qs = 16"
  shows "fold (flatten_slot nodes price p) is (k, st\<lparr>om_submit_queues := qs\<rparr>) =
    (k + length (filter (\<lambda>i. fst (SPSCRing_TryPush (qs ! i) (flatten_command nodes price p st i))) is),
     st\<lparr>om_submit_queues := map (\<lambda>s. if s \<in> set is then snd (SPSCRing_TryPush (qs ! s) (flatten_command nodes price p st s)) else qs ! s) [0..<16]\<rparr>)"
    (is "_ = (?n, ?st)")
proof (rule prod_eqI)
  have s: "snd (fold (flatten_slot nodes price p) js (k, y)) = fold (\<lambda>i y. snd (flatten_slot nodes price p i (0, y))) js y" for js k y
    by (induction js arbitrary: k y) (simp_all, simp add: flatten_slot_def Let_def split_def)
  show "snd (fold (flatten_slot nodes price p) is (k, st\<lparr>om_submit_queues := qs\<rparr>)) = snd (?n, ?st)"
    unfolding s using assms by (subst push_fold [where P = "\<lambda>_. True"]) (auto simp: flatten_slot_result)
  have "fst (fold (flatten_slot nodes price p) is (k, st\<lparr>om_submit_queues := qs\<rparr>)) = k + length
      (filter (\<lambda>i. fst (SPSCRing_TryPush (qs ! i) (flatten_command nodes price p st i))) is)"
    using assms
  proof (induction "is" arbitrary: k qs)
    case (Cons i rest)
    let ?c = "flatten_command nodes price p st"
    let ?qs = "qs[i := snd (SPSCRing_TryPush (qs ! i) (?c i))]"
    have "?qs ! j = qs ! j" if "j \<in> set rest" for j using that Cons.prems(1) by (cases "j = i") auto
    then have "filter (\<lambda>j. fst (SPSCRing_TryPush (?qs ! j) (?c j))) rest = filter (\<lambda>j. fst (SPSCRing_TryPush (qs ! j) (?c j))) rest"
      by (intro filter_cong) simp_all
    then show ?case using Cons.IH [of ?qs] Cons.prems by (simp add: flatten_slot_result)
  qed simp
  then show "fst (fold (flatten_slot nodes price p) is (k, st\<lparr>om_submit_queues := qs\<rparr>)) = fst (?n, ?st)" by simp
qed

definition queues_ready :: "EngineState \<Rightarrow> bool" where
  "queues_ready st \<longleftrightarrow> length (om_submit_queues st) = 16 \<and>
     (\<forall>s < 16. ring_ok (om_submit_queues st ! s) \<and> 0 < ring_room (om_submit_queues st ! s))"

definition queue_full :: "EngineState \<Rightarrow> nat \<Rightarrow> bool" where
  "queue_full st s \<longleftrightarrow> length (ring_items (om_submit_queues st ! s)) = ring_N (om_submit_queues st ! s)"

lemma push_ready:
  assumes "queues_ready st" "s < 16"
  shows "fst (SPSCRing_TryPush (om_submit_queues st ! s) c) = (\<not> queue_full st s)"
    "ring_items (snd (SPSCRing_TryPush (om_submit_queues st ! s) c)) = queued st s @ (if queue_full st s then [] else [c])"
proof -
  obtain b r where p: "SPSCRing_TryPush (om_submit_queues st ! s) c = (b, r)" by fastforce
  have "ring_ok (om_submit_queues st ! s)" "0 < ring_room (om_submit_queues st ! s)" using assms by (auto simp: queues_ready_def)
  from ring.push_law [OF this p] ring.cap_law [OF this(1)]
  show "fst (SPSCRing_TryPush (om_submit_queues st ! s) c) = (\<not> queue_full st s)"
    "ring_items (snd (SPSCRing_TryPush (om_submit_queues st ! s) c)) = queued st s @ (if queue_full st s then [] else [c])"
    by (auto simp: p queue_full_def queued_def)
qed

text \<open>C11: the emergency flatten queues exactly one market sell for every open position whose queue has room,
  for the whole quantity, on the slot's own queue, with the leg and the configuration of the node that owns the
  slot; it reports exactly how many it queued, so a shortfall is visible, and changes nothing else.\<close>

theorem flatten_queues_every_position:
  assumes "queues_ready st"
  shows "let bm = pf_active_bitmap (om_portfolio st); (k, st') = EventLoop_FlattenAll nodes px st in
    k = card {s. bit bm s \<and> \<not> queue_full st s} \<and> st'\<lparr>om_submit_queues := om_submit_queues st\<rparr> = st \<and>
    (\<forall>s < 16. \<exists>c. queued st' s = queued st s @ (if bit bm s \<and> \<not> queue_full st s then [c] else []) \<and>
      sc_portfolio_slot c = int s \<and> sc_order_type c = ORDER_MARKET_SELL \<and> sc_qty c = p_quantity (position_at st s) \<and>
      sc_leg c = (if oms_partial_on st = 0 then 0 else word_of_nat (s mod 2)) \<and>
      sc_node_cfg c = Some (PerNodeCfg.truncate (nodes ! BITMAP_SLOT_NODE s (oms_partial_on st \<noteq> 0))))"
proof -
  let ?bm = "pf_active_bitmap (om_portfolio st)"
  define p where "p = oms_partial_on st"
  define price where "price = (if f64_gt px (F64_Fin 0) then Money (money_from_double_payload px) else Money_Zero)"
  let ?c = "flatten_command nodes price p st"
  have q: "length (om_submit_queues st) = 16" using assms by (simp add: queues_ready_def)
  have d: "distinct (bits_of ?bm)" "\<forall>i \<in> set (bits_of ?bm). i < 16"
    using bit_imp_le_length [of ?bm] by (auto simp: distinct_bits_of set_bits_of)
  have s0: "(0, st) = (0 :: nat, st\<lparr>om_submit_queues := om_submit_queues st\<rparr>)" by simp
  have r: "EventLoop_FlattenAll nodes px st =
    (length (filter (\<lambda>i. fst (SPSCRing_TryPush (om_submit_queues st ! i) (?c i))) (bits_of ?bm)),
     st\<lparr>om_submit_queues := map (\<lambda>s. if s \<in> set (bits_of ?bm) then snd (SPSCRing_TryPush (om_submit_queues st ! s) (?c s))
        else om_submit_queues st ! s) [0..<16]\<rparr>)"
    unfolding EventLoop_FlattenAll_def bitmap_fold_def Let_def p_def [symmetric] price_def [symmetric]
    by (subst s0, subst flatten_fold [OF d q]) simp
  have "length (filter (\<lambda>i. fst (SPSCRing_TryPush (om_submit_queues st ! i) (?c i))) (bits_of ?bm)) =
      length (filter (\<lambda>i. \<not> queue_full st i) (bits_of ?bm))"
    using d(2) push_ready(1) [OF assms] by (metis (mono_tags, lifting) filter_cong)
  also have "\<dots> = card {s. bit ?bm s \<and> \<not> queue_full st s}"
    using d(1) by (subst distinct_card [symmetric]) (auto simp: set_bits_of intro!: arg_cong [where f = card])
  finally have 1: "fst (EventLoop_FlattenAll nodes px st) = card {s. bit ?bm s \<and> \<not> queue_full st s}" by (simp add: r)
  have 2: "(snd (EventLoop_FlattenAll nodes px st))\<lparr>om_submit_queues := om_submit_queues st\<rparr> = st" by (simp add: r)
  have 3: "queued (snd (EventLoop_FlattenAll nodes px st)) s =
      queued st s @ (if bit ?bm s \<and> \<not> queue_full st s then [?c s] else [])" if "s < 16" for s
    using that push_ready(2) [OF assms that, of "?c s"] by (simp add: r queued_def set_bits_of)
  have pon: "p = 0 \<or> p = 1" by (simp add: p_def oms_partial_on_def)
  have n: "nat (Sharded_SlotNode (int s) (p \<noteq> 0)) = BITMAP_SLOT_NODE s (p \<noteq> 0)" for s
    by (simp add: Sharded_SlotNode_def slot_node_def BITMAP_SLOT_NODE_def drop_bit_eq_div nat_div_distrib)
  have 4: "sc_portfolio_slot (?c s) = int s \<and> sc_order_type (?c s) = ORDER_MARKET_SELL \<and> sc_qty (?c s) = p_quantity (position_at st s) \<and>
      sc_leg (?c s) = (if p = 0 then 0 else word_of_nat (s mod 2)) \<and>
      sc_node_cfg (?c s) = Some (PerNodeCfg.truncate (nodes ! BITMAP_SLOT_NODE s (p \<noteq> 0)))" if "s < 16" for s
    using pon n [of s] by (auto simp: flatten_command_def SubmitCommand_make_def Let_def)
  have 5: "\<exists>c. queued (snd (EventLoop_FlattenAll nodes px st)) s = queued st s @ (if bit ?bm s \<and> \<not> queue_full st s then [c] else []) \<and>
      sc_portfolio_slot c = int s \<and> sc_order_type c = ORDER_MARKET_SELL \<and> sc_qty c = p_quantity (position_at st s) \<and>
      sc_leg c = (if p = 0 then 0 else word_of_nat (s mod 2)) \<and>
      sc_node_cfg c = Some (PerNodeCfg.truncate (nodes ! BITMAP_SLOT_NODE s (p \<noteq> 0)))" if "s < 16" for s
    by (rule exI [of _ "?c s"]) (simp only: 3 [OF that] 4 [OF that] simp_thms)
  obtain k st' where e: "EventLoop_FlattenAll nodes px st = (k, st')" by fastforce
  show ?thesis using 1 2 5 by (simp add: e p_def [symmetric])
qed

subsection \<open>One flatten per recovery window\<close>

text \<open>What may happen until \<open>deadline\<close>: staleness checks at any time, attempts to end the recovery before
  the deadline, and anything that leaves the two recovery words alone.\<close>

inductive window_run :: "u64 \<Rightarrow> EngineState \<Rightarrow> EngineState \<Rightarrow> bool" for deadline where
  window_refl: "window_run deadline st st"
| window_check: "window_run deadline a b \<Longrightarrow> window_run deadline a (snd (EventLoop_CheckWsStaleness cfg px t b))"
| window_clear: "window_run deadline a b \<Longrightarrow> t < deadline \<Longrightarrow> window_run deadline a (snd (EventLoop_TryClearRecovery b t))"
| window_other: "window_run deadline a b \<Longrightarrow> om_flatten_pending c = om_flatten_pending b \<Longrightarrow>
    om_recovery_until_us c = om_recovery_until_us b \<Longrightarrow> window_run deadline a c"

definition recovery_words :: "EngineState \<Rightarrow> int \<times> u64" where
  "recovery_words st = (om_flatten_pending st, om_recovery_until_us st)"

lemma recovery_flatten: "recovery_words (snd (EventLoop_FlattenAll nodes px st)) = recovery_words st"
proof -
  have f: "recovery_words (snd (flatten_slot nodes p k i q)) = recovery_words (snd q)" for p k i q
    by (cases q) (simp add: flatten_slot_def Let_def split_def OMS_PushExitForSlot_def OMS_PushSubmit_def recovery_words_def)
  have "recovery_words (snd (fold (flatten_slot nodes p k) is q)) = recovery_words (snd q)" for p k "is" q
    by (induction "is" arbitrary: q) (simp_all add: f)
  then show ?thesis by (simp add: EventLoop_FlattenAll_def bitmap_fold_def Let_def)
qed

lemma pending_check:
  assumes "om_flatten_pending st \<noteq> 0"
  shows "EventLoop_CheckWsStaleness cfg px t st = (0, SLOW_PATH_GATE_AUTOPOPULATE_ENGINE_WIDE cfg st)"
  using assms by (simp add: EventLoop_CheckWsStaleness_def SLOW_PATH_GATE_AUTOPOPULATE_ENGINE_WIDE_def Let_def)

definition ws_gap :: "EngineState \<Rightarrow> u64 \<Rightarrow> u64" where
  "ws_gap st now_us = (if el_ws_last_tick_us st < now_us then now_us - el_ws_last_tick_us st else 0)"

lemma gate_flags:
  "BITMAP_IS_SET (el_global_gate_flags (SLOW_PATH_GATE_AUTOPOPULATE_ENGINE_WIDE cfg st)) (BITMAP_BIT GATE_WS_FLATTEN_ACTIVE) =
    cc_ws_dead_time_flatten_enabled cfg"
  by (simp add: SLOW_PATH_GATE_AUTOPOPULATE_ENGINE_WIDE_def GATE_LAZY_REBUILD_ACTIVE_def GATE_WS_FLATTEN_ACTIVE_def
      GATE_BREAKEVEN_ON_PROFIT_def BITMAP_IS_SET_def BITMAP_BIT_def)

text \<open>C12: a stale feed makes the check fire once: it closes every open position, opens the recovery window
  and from then on, whatever happens before the deadline, no further check of any thread queues
  anything; the first attempt to end the recovery at or after the deadline succeeds and arms the check again.\<close>

theorem staleness_fires_once:
  fixes now_us :: u64
  defines "deadline cfg \<equiv> now_us + word_of_int (cc_recovery_delay_secs cfg) * 1000000"
  assumes "cc_ws_dead_time_flatten_enabled cfg" "el_ws_last_tick_us st \<noteq> 0"
    and "word_of_int (cc_ws_dead_time_flatten_threshold_secs cfg) * 1000000 \<le> ws_gap st now_us" "om_flatten_pending st = 0"
    and "window_run (deadline cfg) (snd (EventLoop_CheckWsStaleness cfg px now_us st)) st'"
  shows "EventLoop_CheckWsStaleness cfg px now_us st = EventLoop_FlattenAll (cc_nodes cfg) px
        ((SLOW_PATH_GATE_AUTOPOPULATE_ENGINE_WIDE cfg st)\<lparr>om_flatten_pending := 1, om_recovery_until_us := deadline cfg\<rparr>) \<and>
    (let (k, c) = EventLoop_CheckWsStaleness cfg' px' t st' in k = 0 \<and> om_submit_queues c = om_submit_queues st') \<and>
    (0 < deadline cfg \<longrightarrow> deadline cfg \<le> t \<longrightarrow> (let (ok, c) = EventLoop_TryClearRecovery st' t in
        ok \<and> om_flatten_pending c = 0 \<and> om_recovery_until_us c = 0))"
proof -
  let ?s = "(SLOW_PATH_GATE_AUTOPOPULATE_ENGINE_WIDE cfg st)\<lparr>om_flatten_pending := 1, om_recovery_until_us := deadline cfg\<rparr>"
  have u: "el_ws_last_tick_us (SLOW_PATH_GATE_AUTOPOPULATE_ENGINE_WIDE cfg st) = el_ws_last_tick_us st"
    "om_flatten_pending (SLOW_PATH_GATE_AUTOPOPULATE_ENGINE_WIDE cfg st) = om_flatten_pending st"
    by (simp_all add: SLOW_PATH_GATE_AUTOPOPULATE_ENGINE_WIDE_def)
  have 1: "EventLoop_CheckWsStaleness cfg px now_us st = EventLoop_FlattenAll (cc_nodes cfg) px ?s"
    using assms(2-5) unfolding EventLoop_CheckWsStaleness_def Let_def gate_flags u ws_gap_def deadline_def
    by (simp only: not_less [symmetric] simp_thms if_False if_True not_True_eq_False)
  have "recovery_words (snd (EventLoop_CheckWsStaleness cfg px now_us st)) = (1, deadline cfg)"
    unfolding 1 recovery_flatten by (simp add: recovery_words_def)
  with assms(6) have w: "recovery_words st' = (1, deadline cfg)"
  proof (induction rule: window_run.induct)
    case (window_check a b cfg' px' t)
    then show ?case
      by (subst pending_check) (simp_all add: recovery_words_def SLOW_PATH_GATE_AUTOPOPULATE_ENGINE_WIDE_def)
  next
    case (window_clear a b t)
    then show ?case by (auto simp: recovery_words_def EventLoop_TryClearRecovery_def Let_def)
  qed (simp_all add: recovery_words_def)
  then show ?thesis
    using 1 by (auto simp: recovery_words_def pending_check EventLoop_TryClearRecovery_def SLOW_PATH_GATE_AUTOPOPULATE_ENGINE_WIDE_def Let_def)
qed

subsection \<open>The breakeven ratchet\<close>

definition breakeven_due :: "ControllerConfig \<Rightarrow> f64 \<Rightarrow> nat \<Rightarrow> EngineState \<Rightarrow> nat \<Rightarrow> bool" where
  "breakeven_due cfg px n st s =
     (let entry_d = Money_ToDouble (p_entry_price (position_at st s))
      in \<not> f64_le entry_d (F64_Fin 0) \<and> \<not> f64_lt (node_gain px entry_d) (f64_mul (F64_Fin 2) (breakeven_fee cfg n)))"

definition slot_breakeven :: "ControllerConfig \<Rightarrow> nat \<Rightarrow> EngineState \<Rightarrow> nat \<Rightarrow> int" where
  "slot_breakeven cfg n st s = mint (breakeven_level cfg n (Money_ToDouble (p_entry_price (position_at st s))))"

definition node_ratchet :: "EngineState \<Rightarrow> nat \<Rightarrow> int" where
  "node_ratchet st n = mint (gp_ratchet_sl (nx_pending_params (node_at st n)))"

definition breakeven_frame :: "nat \<Rightarrow> EngineState \<Rightarrow> EngineState" where
  "breakeven_frame n st = upd_node n (\<lambda>x. (x\<lparr>nx_pending_params := (nx_pending_params x)\<lparr>gp_ratchet_sl := Money 0\<rparr>,
     nx_node_state_flags := 0\<rparr>)) st"

lemma breakeven_slot_result:
  assumes "n < length (el_nodes st)"
  shows "node_ratchet (breakeven_slot cfg px n s st) n =
      (if breakeven_due cfg px n st s then max (node_ratchet st n) (slot_breakeven cfg n st s) else node_ratchet st n)"
    "breakeven_frame n (breakeven_slot cfg px n s st) = breakeven_frame n st"
    "length (el_nodes (breakeven_slot cfg px n s st)) = length (el_nodes st)"
    "om_portfolio (breakeven_slot cfg px n s st) = om_portfolio st"
  using assms
  by (auto simp: breakeven_slot_def breakeven_due_def slot_breakeven_def node_ratchet_def breakeven_frame_def Let_def
      upd_node_def node_at_def node_flag_set_def max_def)

lemma breakeven_fold:
  assumes "n < length (el_nodes st)"
  shows "node_ratchet (fold (breakeven_slot cfg px n) is st) n =
      Max (insert (node_ratchet st n) (slot_breakeven cfg n st ` {s \<in> set is. breakeven_due cfg px n st s}))"
    "breakeven_frame n (fold (breakeven_slot cfg px n) is st) = breakeven_frame n st"
proof -
  have p: "breakeven_due cfg px n a s = breakeven_due cfg px n b s" "slot_breakeven cfg n a s = slot_breakeven cfg n b s"
    if "om_portfolio a = om_portfolio b" for a b s
    using that by (simp_all add: breakeven_due_def slot_breakeven_def position_at_def)
  have "node_ratchet (fold (breakeven_slot cfg px n) is st) n =
      Max (insert (node_ratchet st n) (slot_breakeven cfg n st ` {s \<in> set is. breakeven_due cfg px n st s})) \<and>
    breakeven_frame n (fold (breakeven_slot cfg px n) is st) = breakeven_frame n st"
    using assms
  proof (induction "is" arbitrary: st)
    case (Cons i rest)
    let ?st = "breakeven_slot cfg px n i st"
    note r = breakeven_slot_result [OF Cons.prems, of cfg px i]
    have e: "slot_breakeven cfg n ?st ` {s \<in> set rest. breakeven_due cfg px n ?st s} = slot_breakeven cfg n st ` {s \<in> set rest. breakeven_due cfg px n st s}"
      using p [OF r(4)] by auto
    let ?S = "slot_breakeven cfg n st ` {s \<in> set rest. breakeven_due cfg px n st s}"
    have f: "slot_breakeven cfg n st ` {s \<in> set (i # rest). breakeven_due cfg px n st s} =
        (if breakeven_due cfg px n st i then insert (slot_breakeven cfg n st i) ?S else ?S)"
      by auto
    have m: "Max (insert (max a b) S) = Max (insert a (insert b S))" if "finite S" for a b :: int and S
      using that by (cases "S = {}") (simp_all add: Max_insert max.assoc)
    have l: "n < length (el_nodes ?st)" using Cons.prems by (simp add: r(3))
    have "fold (breakeven_slot cfg px n) (i # rest) st = fold (breakeven_slot cfg px n) rest ?st" by simp
    then show ?case
      using Cons.IH [OF l] unfolding f e r(1,2) by (auto simp: m simp del: Max_insert)
  qed simp
  then show "node_ratchet (fold (breakeven_slot cfg px n) is st) n =
      Max (insert (node_ratchet st n) (slot_breakeven cfg n st ` {s \<in> set is. breakeven_due cfg px n st s}))"
    "breakeven_frame n (fold (breakeven_slot cfg px n) is st) = breakeven_frame n st" by simp_all
qed

text \<open>The breakeven pass leaves the node's stop ratchet at the highest of where it was and the breakeven levels of
  the node's open positions that are in profit by two taker fees, never lower, and touches nothing
  but the node's pending stop and its flags.\<close>

theorem breakeven_ratchet_spec:
  assumes "n < length (el_nodes st)" "n < 16"
  shows "let st' = EventLoop_BreakevenOnProfitOneCore cfg px n st; bm = pf_active_bitmap (om_portfolio st) in
    node_ratchet st' n = Max (insert (node_ratchet st n) (slot_breakeven cfg n st `
      {s. s < 16 \<and> bit bm s \<and> BITMAP_SLOT_NODE s (oms_partial_on st \<noteq> 0) = n \<and> breakeven_due cfg px n st s})) \<and>
    node_ratchet st n \<le> node_ratchet st' n \<and> breakeven_frame n st' = breakeven_frame n st"
proof -
  let ?bm = "pf_active_bitmap (om_portfolio st)" and ?m = "BITMAP_NODE_SLOT_MASK n (oms_partial_on st \<noteq> 0)"
  let ?D = "{s. s < 16 \<and> bit ?bm s \<and> BITMAP_SLOT_NODE s (oms_partial_on st \<noteq> 0) = n \<and> breakeven_due cfg px n st s}"
  have "bit ?bm s \<Longrightarrow> s < 16" for s using bit_imp_le_length [of ?bm s] by simp
  then have "{s \<in> set (bits_of (?bm AND ?m)). breakeven_due cfg px n st s} = ?D"
    using node_slot_mask_iff [OF _ assms(2)] by (auto simp: set_bits_of bit_and_iff)
  then have r: "node_ratchet (EventLoop_BreakevenOnProfitOneCore cfg px n st) n = Max (insert (node_ratchet st n) (slot_breakeven cfg n st ` ?D))"
    "breakeven_frame n (EventLoop_BreakevenOnProfitOneCore cfg px n st) = breakeven_frame n st"
    using breakeven_fold [OF assms(1), of cfg px "bits_of (?bm AND ?m)"]
    by (simp_all add: EventLoop_BreakevenOnProfitOneCore_def bitmap_fold_def Let_def)
  moreover have "node_ratchet st n \<le> Max (insert (node_ratchet st n) (slot_breakeven cfg n st ` ?D))" by (rule Max_ge) simp_all
  ultimately show ?thesis unfolding Let_def by simp
qed

subsection \<open>The grant against the kill\<close>

text \<open>The grant's read and its write are two steps.  A read before the compose that trips the switch lets the write
  after it give the permission back, with the switch tripped and the kill word published.\<close>

lemma stale_grant_after_kill:
  assumes "sealed st" "\<not> grant_reads_kill before" "n < length (el_nodes st)" "nx_core (node_at st n) = Some c"
    and "64 \<le> samples" "cc_min_warmup_samples cfg = 0" "nx_strategy_id (node_at st n) \<noteq> STRATEGY_NONE"
  defines "st' \<equiv> grant_permission cfg samples (grant_reads_kill before) n st"
  shows "map_option ec_permission (nx_core (node_at st' n)) = Some 1"
    "BITMAP_IS_SET (om_oms_state_flags st') MASK_OMS_STATE_KILL_SWITCH_TRIPPED" "bit (ag_kill_word (el_agg st')) 0"
  using assms
  by (simp_all add: grant_permission_def Let_def upd_node_def node_at_def sealed_def halted_def kill_set_def ExecutionCore_SetPermission_def)

end
