(* ===== verification/Engine_Manual.thy ===== *)
theory Engine_Manual
  imports Engine_Flatten
begin

text \<open>
  Manual closes (\<^verbatim>\<open>src/CoreFrameworks/EngineSharded/SlowPath.hpp\<close>): the composer turns the requests of the
  graphical interface into market sells on the slots' own queues.
\<close>

unbundle bit_operations_syntax

subsection \<open>The funnel\<close>

definition manual_leg :: "EngineState \<Rightarrow> nat \<Rightarrow> nat" where
  "manual_leg st slot = (if oms_partial_on st \<noteq> 0 then slot mod 2 else 0)"

definition clear_leg :: "nat \<Rightarrow> NodeContext \<Rightarrow> NodeContext" where
  "clear_leg leg x = x\<lparr>nx_core := map_option (\<lambda>k. if leg = 0 then k\<lparr>ec_active := 0\<rparr> else k\<lparr>ec_active_b := 0\<rparr>) (nx_core x)\<rparr>"

text \<open>One slot.  \<open>None\<close> is a read of the latest tick that still spins.\<close>

definition manual_close_slot :: "ControllerConfig \<Rightarrow> Tick pslot \<Rightarrow> nat \<Rightarrow> (bool list \<times> EngineState) option \<Rightarrow> (bool list \<times> EngineState) option" where
  "manual_close_slot cfg latest_tick slot = (\<lambda>acc. case acc of None \<Rightarrow> None
     | Some (requested, st) \<Rightarrow>
       if \<not> requested ! slot then Some (requested, st)
       else let requested = requested[slot := False]
            in if pf_active_bitmap (om_portfolio st) AND BITMAP_BIT slot = 0 then Some (requested, st)
               else let qty = p_quantity (pf_positions (om_portfolio st) ! slot)
                    in if Money_IsZero qty then Some (requested, st)
                       else let node_id = Sharded_SlotNode (int slot) (oms_partial_on st \<noteq> 0); leg = manual_leg st slot
                            in if node_id < 0 \<or> el_registered_count st \<le> node_id then Some (requested, st)
                               else let n = nat node_id; strategy_id = nx_resolved_strategy_id (node_at st n)
                                    in case ParameterSlot_Read latest_tick of None \<Rightarrow> None
                                       | Some (latest, _) \<Rightarrow>
                                         let fill_px = (if Money_IsZero (tk_price latest)
                                               then p_entry_price (pf_positions (om_portfolio st) ! slot) else tk_price latest);
                                             (_, st) = OMS_PushExitForSlot st (int slot) qty strategy_id fill_px (word_of_nat leg)
                                                 (Some (PerNodeCfg.truncate (cc_nodes cfg ! n)))
                                         in Some (requested, upd_node n (clear_leg leg) st))"

definition EngineSharded_SlowPath_DrainManualCloses ::
    "ControllerConfig \<Rightarrow> Tick pslot \<Rightarrow> bool list \<Rightarrow> EngineState \<Rightarrow> (bool list \<times> EngineState) option" where
  "EngineSharded_SlowPath_DrainManualCloses cfg latest_tick requested st =
     fold (manual_close_slot cfg latest_tick) [0..<MAX_PORTFOLIO_POSITIONS] (Some (requested, st))"

subsection \<open>What the requests do\<close>

definition manual_hit :: "bool list \<Rightarrow> EngineState \<Rightarrow> nat \<Rightarrow> bool" where
  "manual_hit requested st s \<longleftrightarrow> requested ! s \<and> bit (pf_active_bitmap (om_portfolio st)) s \<and>
     \<not> Money_IsZero (p_quantity (position_at st s)) \<and> int (BITMAP_SLOT_NODE s (oms_partial_on st \<noteq> 0)) < el_registered_count st"

definition manual_command :: "ControllerConfig \<Rightarrow> Tick \<Rightarrow> EngineState \<Rightarrow> nat \<Rightarrow> SubmitCommand" where
  "manual_command cfg latest st s =
     (let n = BITMAP_SLOT_NODE s (oms_partial_on st \<noteq> 0)
      in (SubmitCommand_make (int s) ORDER_MARKET_SELL (p_quantity (position_at st s)) (word_of_nat (manual_leg st s))
            (Some (PerNodeCfg.truncate (cc_nodes cfg ! n))))
           \<lparr>sc_strategy_id := nx_resolved_strategy_id (node_at st n),
            sc_event_price := (if Money_IsZero (tk_price latest) then p_entry_price (position_at st s) else tk_price latest)\<rparr>)"

definition clear_slot_leg :: "EngineState \<Rightarrow> nat \<Rightarrow> NodeContext list \<Rightarrow> NodeContext list" where
  "clear_slot_leg st s ns = (let n = BITMAP_SLOT_NODE s (oms_partial_on st \<noteq> 0) in ns[n := clear_leg (manual_leg st s) (ns ! n)])"

lemma slot_node_eq: "nat (Sharded_SlotNode (int s) p) = BITMAP_SLOT_NODE s p" "\<not> Sharded_SlotNode (int s) p < 0"
  "(r \<le> Sharded_SlotNode (int s) p) = (r \<le> int (BITMAP_SLOT_NODE s p))"
  by (simp_all add: Sharded_SlotNode_def slot_node_def BITMAP_SLOT_NODE_def drop_bit_eq_div zdiv_int nat_div_distrib)

lemma manual_slot_result:
  assumes "s < 16" "ParameterSlot_Read tk = Some (latest, t)"
    and "map nx_resolved_strategy_id ns = map nx_resolved_strategy_id (el_nodes st)" "length ns = 16"
  shows "manual_close_slot cfg tk s (Some (rq, st\<lparr>om_submit_queues := qs, el_nodes := ns\<rparr>)) = Some (rq[s := False],
     st\<lparr>om_submit_queues := (if manual_hit rq st s then qs[s := snd (SPSCRing_TryPush (qs ! s) (manual_command cfg latest st s))] else qs),
        el_nodes := (if manual_hit rq st s then clear_slot_leg st s ns else ns)\<rparr>)"
proof -
  let ?n = "BITMAP_SLOT_NODE s (oms_partial_on st \<noteq> 0)"
  have n: "?n < 16" using assms(1) by (auto simp: BITMAP_SLOT_NODE_def drop_bit_eq_div)
  have sid: "nx_resolved_strategy_id (ns ! ?n) = nx_resolved_strategy_id (el_nodes st ! ?n)"
    using arg_cong [OF assms(3), of "\<lambda>l. l ! ?n"] n assms(4) map_eq_imp_length_eq [OF assms(3)] by simp
  have p: "oms_partial_on (st\<lparr>om_submit_queues := qs, el_nodes := ns\<rparr>) = oms_partial_on st" by (simp add: oms_partial_on_def)
  have b: "(pf_active_bitmap (om_portfolio st) AND BITMAP_BIT s = 0) = (\<not> bit (pf_active_bitmap (om_portfolio st)) s)"
    using is_set_bit [of s "pf_active_bitmap (om_portfolio st)"] assms(1) by (auto simp: BITMAP_IS_SET_def)
  have r: "\<not> rq ! s \<Longrightarrow> rq[s := False] = rq" using list_update_id [of rq s] by simp
  show ?thesis
    using b r sid by (cases "oms_partial_on st = 0") (simp_all add: manual_close_slot_def p slot_node_eq push_exit_result [OF assms(1)] assms(2) Let_def manual_hit_def manual_leg_def
        manual_command_def position_at_def node_at_def clear_slot_leg_def upd_node_def)
qed

lemma clear_slot_leg_keeps:
  "map nx_resolved_strategy_id (clear_slot_leg st s ns) = map nx_resolved_strategy_id ns" "length (clear_slot_leg st s ns) = length ns"
proof -
  let ?n = "BITMAP_SLOT_NODE s (oms_partial_on st \<noteq> 0)"
  show "length (clear_slot_leg st s ns) = length ns" by (simp add: clear_slot_leg_def Let_def)
  show "map nx_resolved_strategy_id (clear_slot_leg st s ns) = map nx_resolved_strategy_id ns"
    by (cases "?n < length ns") (simp_all add: clear_slot_leg_def Let_def map_update clear_leg_def list_update_same_conv list_update_beyond)
qed

lemma manual_fold:
  assumes "distinct is" "\<forall>i \<in> set is. i < 16" "length qs = 16" "ParameterSlot_Read tk = Some (latest, t)"
    and "map nx_resolved_strategy_id ns = map nx_resolved_strategy_id (el_nodes st)" "length ns = 16"
  shows "fold (manual_close_slot cfg tk) is (Some (rq, st\<lparr>om_submit_queues := qs, el_nodes := ns\<rparr>)) =
    Some (fold (\<lambda>s r. r[s := False]) is rq, st\<lparr>om_submit_queues := map (\<lambda>s. if s \<in> set is \<and> manual_hit rq st s
        then snd (SPSCRing_TryPush (qs ! s) (manual_command cfg latest st s)) else qs ! s) [0..<16],
      el_nodes := fold (\<lambda>s ns. if manual_hit rq st s then clear_slot_leg st s ns else ns) is ns\<rparr>)"
  using assms
proof (induction "is" arbitrary: rq qs ns)
  case Nil
  then have "map ((!) qs) [0..<16] = qs" by (intro nth_equalityI) simp_all
  then show ?case by simp
next
  case (Cons i rest)
  let ?h = "manual_hit rq st i" and ?c = "manual_command cfg latest st"
  let ?qs = "if ?h then qs[i := snd (SPSCRing_TryPush (qs ! i) (?c i))] else qs" and ?ns = "if ?h then clear_slot_leg st i ns else ns"
  have i: "i < 16" "i \<notin> set rest" using Cons.prems by auto
  have h: "manual_hit (rq[i := False]) st s = manual_hit rq st s" if "s \<in> set rest" for s
    using that i(2) by (cases "s = i") (auto simp: manual_hit_def)
  have "fold (manual_close_slot cfg tk) (i # rest) (Some (rq, st\<lparr>om_submit_queues := qs, el_nodes := ns\<rparr>)) =
      fold (manual_close_slot cfg tk) rest (Some (rq[i := False], st\<lparr>om_submit_queues := ?qs, el_nodes := ?ns\<rparr>))"
    by (simp only: fold_simps manual_slot_result [OF i(1) Cons.prems(4-6)] comp_apply)
  also have "\<dots> = Some (fold (\<lambda>s r. r[s := False]) rest (rq[i := False]), st\<lparr>om_submit_queues := map (\<lambda>s. if s \<in> set rest \<and>
        manual_hit (rq[i := False]) st s then snd (SPSCRing_TryPush (?qs ! s) (?c s)) else ?qs ! s) [0..<16],
      el_nodes := fold (\<lambda>s ns. if manual_hit (rq[i := False]) st s then clear_slot_leg st s ns else ns) rest ?ns\<rparr>)"
    using Cons.prems by (intro Cons.IH) (auto simp: clear_slot_leg_keeps)
  also have "map (\<lambda>s. if s \<in> set rest \<and> manual_hit (rq[i := False]) st s then snd (SPSCRing_TryPush (?qs ! s) (?c s)) else ?qs ! s) [0..<16] =
      map (\<lambda>s. if s \<in> set (i # rest) \<and> manual_hit rq st s then snd (SPSCRing_TryPush (qs ! s) (?c s)) else qs ! s) [0..<16]"
    using Cons.prems(3) i h by (intro map_cong) (auto simp: nth_list_update)
  also have "fold (\<lambda>s ns. if manual_hit (rq[i := False]) st s then clear_slot_leg st s ns else ns) rest ?ns =
      fold (\<lambda>s ns. if manual_hit rq st s then clear_slot_leg st s ns else ns) (i # rest) ns"
    using h by (simp cong: fold_cong)
  finally show ?case by simp
qed

definition leg_flat :: "EngineState \<Rightarrow> nat \<Rightarrow> NodeContext list \<Rightarrow> bool" where
  "leg_flat st s ns = (case nx_core (ns ! BITMAP_SLOT_NODE s (oms_partial_on st \<noteq> 0)) of None \<Rightarrow> True
     | Some k \<Rightarrow> (if manual_leg st s = 0 then ec_active k else ec_active_b k) = 0)"

lemma clear_leg_flat:
  "BITMAP_SLOT_NODE s (oms_partial_on st \<noteq> 0) < length ns \<Longrightarrow> leg_flat st s (clear_slot_leg st s ns)"
  "leg_flat st s ns \<Longrightarrow> leg_flat st s (clear_slot_leg st i ns)"
proof -
  have u: "xs[m := x] ! k = (if m = k \<and> m < length xs then x else xs ! k)" for xs :: "NodeContext list" and m k x
    by (cases "m < length xs") (auto simp: list_update_beyond)
  show "BITMAP_SLOT_NODE s (oms_partial_on st \<noteq> 0) < length ns \<Longrightarrow> leg_flat st s (clear_slot_leg st s ns)"
    by (simp add: leg_flat_def clear_slot_leg_def clear_leg_def Let_def split: option.split)
  show "leg_flat st s ns \<Longrightarrow> leg_flat st s (clear_slot_leg st i ns)"
    unfolding leg_flat_def clear_slot_leg_def Let_def u by (auto simp: clear_leg_def split: option.splits if_splits)
qed

lemma manual_legs_flat:
  assumes "length ns = 16" "\<forall>i \<in> set is. i < 16" "s \<in> set is \<and> P s \<or> leg_flat st s ns"
  shows "leg_flat st s (fold (\<lambda>s ns. if P s then clear_slot_leg st s ns else ns) is ns)"
  using assms
proof (induction "is" arbitrary: ns)
  case (Cons i rest)
  have n: "BITMAP_SLOT_NODE i (oms_partial_on st \<noteq> 0) < length ns" using Cons.prems(1,2) by (auto simp: BITMAP_SLOT_NODE_def drop_bit_eq_div)
  have "s \<in> set rest \<and> P s \<or> leg_flat st s (if P i then clear_slot_leg st i ns else ns)"
    using Cons.prems(3) clear_leg_flat(1) [OF n] clear_leg_flat(2) by auto
  then show ?case using Cons.IH [of "if P i then clear_slot_leg st i ns else ns"] Cons.prems(1,2) by (simp add: clear_slot_leg_keeps)
qed simp

lemma fold_update_all: "fold (\<lambda>s r. r[s := False]) [0..<length xs] xs = replicate (length xs) False"
proof -
  have "fold (\<lambda>s r. r[s := False]) [0..<k] xs = replicate k False @ drop k xs" if "k \<le> length xs" for k
    using that
  proof (induction k)
    case (Suc k)
    then show ?case by (simp add: list_update_append Cons_nth_drop_Suc [symmetric] replicate_append_same)
  qed simp
  from this [of "length xs"] show ?thesis by simp
qed

text \<open>C13: every request is consumed.  A requested slot with an open, non-empty position on a registered node gets one
  market sell of the whole quantity on its own queue when the queue has room; the other slots' queues and the
  rest of the order manager stay as they are.  The leg flag of its core is cleared in any case, also when
  the queue was full: then the position stays open, the request is gone and the core no longer watches its exits.\<close>

theorem manual_closes_spec:
  assumes "queues_ready st" "length requested = 16" "length (el_nodes st) = 16" "ParameterSlot_Read latest_tick = Some (latest, t)"
  shows "\<exists>st'. EngineSharded_SlowPath_DrainManualCloses cfg latest_tick requested st = Some (replicate 16 False, st') \<and>
    st'\<lparr>om_submit_queues := om_submit_queues st, el_nodes := el_nodes st\<rparr> = st \<and>
    (\<forall>s < 16. queued st' s = queued st s @
        (if manual_hit requested st s \<and> \<not> queue_full st s then [manual_command cfg latest st s] else []) \<and>
      (manual_hit requested st s \<longrightarrow> leg_flat st s (el_nodes st')))"
proof -
  let ?c = "manual_command cfg latest st" and ?h = "manual_hit requested st"
  let ?qs = "map (\<lambda>s. if s \<in> set [0..<16] \<and> ?h s then snd (SPSCRing_TryPush (om_submit_queues st ! s) (?c s)) else om_submit_queues st ! s) [0..<16]"
  let ?ns = "fold (\<lambda>s ns. if ?h s then clear_slot_leg st s ns else ns) [0..<16] (el_nodes st)"
  let ?st = "st\<lparr>om_submit_queues := ?qs, el_nodes := ?ns\<rparr>"
  have q: "length (om_submit_queues st) = 16" using assms(1) by (simp add: queues_ready_def)
  have r: "EngineSharded_SlowPath_DrainManualCloses cfg latest_tick requested st = Some (replicate 16 False, ?st)"
    using manual_fold [of "[0..<16]" "om_submit_queues st" latest_tick latest t "el_nodes st" st cfg requested] q assms(2-4)
      fold_update_all [of requested]
    by (simp add: EngineSharded_SlowPath_DrainManualCloses_def MAX_PORTFOLIO_POSITIONS_def)
  have "queued ?st s = queued st s @ (if ?h s \<and> \<not> queue_full st s then [?c s] else [])" if "s < 16" for s
    using that push_ready(2) [OF assms(1) that, of "?c s"] by (simp add: queued_def)
  moreover have "leg_flat st s ?ns" if "s < 16" "?h s" for s
    using that assms(3) by (intro manual_legs_flat) auto
  ultimately show ?thesis using r by (intro exI [of _ ?st]) simp
qed

end
