(* ===== verification/Engine_Reconcile.thy ===== *)
theory Engine_Reconcile
  imports Engine_Flatten
begin

text \<open>
  One pass of the reconciliation thread (\<^verbatim>\<open>src/CoreFrameworks/ReconciliationLoop.hpp\<close>): it compares the
  venue's balance with the free cash the composer last published and reports a difference beyond the
  tolerance to the order manager, which only records it.  The venue's answer is an argument, and so is
  the text \<^verbatim>\<open>snprintf\<close> makes of the three amounts.
\<close>

unbundle bit_operations_syntax

record ReconciliationLoopState =
  rl_balance_tolerance :: f64
  rl_total_polls :: u64
  rl_drift_corrections :: u64
  rl_last_drift_usdt :: f64

definition drift_command :: "(f64 \<Rightarrow> f64 \<Rightarrow> f64 \<Rightarrow> string) \<Rightarrow> f64 \<Rightarrow> f64 \<Rightarrow> f64 \<Rightarrow> Command" where
  "drift_command fmt drift_usdt exchange_usdt expected_usdt =
     \<lparr>cm_type = CMD_RECONCILE, cm_order_id = 0,
      cm_result = result_zero\<lparr>rs_success := 1, rs_avg_fill_price := drift_usdt, rs_fill_qty := exchange_usdt,
        rs_error_code := 0, rs_error_message := fmt drift_usdt exchange_usdt expected_usdt\<rparr>\<rparr>"

text \<open>\<open>None\<close> is a read of the publication that still spins.\<close>

definition ReconciliationLoop_Pass ::
    "(f64 \<times> f64) option \<Rightarrow> (f64 \<Rightarrow> f64 \<Rightarrow> f64 \<Rightarrow> string) \<Rightarrow> ReconciliationLoopState \<Rightarrow> EngineState \<Rightarrow>
     (int \<times> ReconciliationLoopState \<times> EngineState) option" where
  "ReconciliationLoop_Pass balances fmt s st =
     (let s = s\<lparr>rl_total_polls := rl_total_polls s + 1\<rparr>
      in case balances of None \<Rightarrow> Some (0, s, st)
         | Some (exchange_usdt, exchange_btc) \<Rightarrow>
           let exchange_money = Money (money_from_double_payload exchange_usdt)
           in case ParameterSlot_Read (ag_publish (el_agg st)) of None \<Rightarrow> None
              | Some (ms, tick) \<Rightarrow>
                if ms_generation ms = 0 then Some (0, s, st)
                else let expected = ms_expected_free ms;
                         drift = Money_Sub exchange_money expected;
                         drift_usdt = Money_ToDouble drift;
                         expected_usdt = Money_ToDouble expected;
                         s = s\<lparr>rl_last_drift_usdt := drift_usdt\<rparr>;
                         tol = Money (money_from_double_payload (rl_balance_tolerance s))
                     in if Money_Le (Money_Abs drift) tol then Some (0, s, st)
                        else let cmd = drift_command fmt drift_usdt exchange_usdt expected_usdt;
                                 (ok, q) = SPSCRing_TryPush (om_reconcile_queue st) cmd;
                                 st = st\<lparr>om_reconcile_queue := q\<rparr>
                             in if \<not> ok then Some (0, s, st)
                                else Some (1, s\<lparr>rl_drift_corrections := rl_drift_corrections s + 1\<rparr>, st))"

definition ReconciliationLoop_Init :: "f64 \<Rightarrow> ReconciliationLoopState" where
  "ReconciliationLoop_Init balance_tolerance =
     \<lparr>rl_balance_tolerance = balance_tolerance, rl_total_polls = 0, rl_drift_corrections = 0, rl_last_drift_usdt = F64_Fin 0\<rparr>"

lemma compose_pack:
  fixes st :: EngineState and env self cfg px pt
  assumes "pslot_ok (ag_publish (el_agg st))"
  defines "st' \<equiv> EngineCommon_ComposeAndKillEval env self cfg px pt st"
  obtains ms where "ParameterSlot_Read (ag_publish (el_agg st')) = Some (ms, pt)"
    "ms_generation ms = ag_generation (el_agg st) + 1" "ms_expected_free ms = OMS_ExpectedFreeCash st'"
proof
  let ?s = "composed env self cfg px st"
  let ?ms = "(money_pack ?s (kill_word_of ?s))\<lparr>ms_generation := ag_generation (el_agg st) + 1\<rparr>"
  note c = compose_state [of env self cfg px pt st, folded st'_def]
  show "ParameterSlot_Read (ag_publish (el_agg st')) = Some (?ms, pt)"
    unfolding c(4) using slot_written [OF assms(1)] by blast
  show "ms_generation ?ms = ag_generation (el_agg st) + 1" by simp
  have "OMS_ExpectedFreeCash st' = OMS_ExpectedFreeCash (?s\<lparr>el_agg := el_agg st'\<rparr>)" using c(1) by simp
  then show "ms_expected_free ?ms = OMS_ExpectedFreeCash st'" by (simp add: money_pack_def free_cash_agg)
qed

text \<open>C18: after a compose, a pass of the reconciler compares the venue's balance with the free cash of the
  very state the compose left.  Within the tolerance it does nothing; beyond it, it queues exactly one
  alert that carries the difference, and nothing else of the engine changes; the order manager's handling of the
  alert moves no money: balance, realised profit, book and in-flight table stay as they are.\<close>

theorem reconciler_reports_drift:
  fixes st :: EngineState and env self cfg px pt
  assumes "pslot_ok (ag_publish (el_agg st))" "ag_generation (el_agg st) + 1 \<noteq> 0"
  defines "st' \<equiv> EngineCommon_ComposeAndKillEval env self cfg px pt st"
  assumes "ring_ok (om_reconcile_queue st)" "0 < ring_room (om_reconcile_queue st)"
    and "length (ring_items (om_reconcile_queue st)) < ring_N (om_reconcile_queue st)"
  defines "drift usdt \<equiv> Money_Sub (Money (money_from_double_payload usdt)) (OMS_ExpectedFreeCash st')"
  shows "\<exists>k s' c. ReconciliationLoop_Pass (Some (usdt, btc)) fmt s st' = Some (k, s', c) \<and>
    k = of_bool (\<not> Money_Le (Money_Abs (drift usdt)) (Money (money_from_double_payload (rl_balance_tolerance s)))) \<and>
    rl_last_drift_usdt s' = Money_ToDouble (drift usdt) \<and> c\<lparr>om_reconcile_queue := om_reconcile_queue st'\<rparr> = st' \<and>
    ring_items (om_reconcile_queue c) = ring_items (om_reconcile_queue st) @
      (if k = 0 then [] else [drift_command fmt (Money_ToDouble (drift usdt)) usdt (Money_ToDouble (OMS_ExpectedFreeCash st'))]) \<and>
    (\<forall>env' x. let r = OrderManager_ProcessReconcile env' c x in om_balance r = om_balance st' \<and>
      om_realized_pnl r = om_realized_pnl st' \<and> om_portfolio r = om_portfolio st' \<and> oms_table r = oms_table st')"
proof -
  obtain ms where ms: "ParameterSlot_Read (ag_publish (el_agg st')) = Some (ms, pt)"
    "ms_generation ms = ag_generation (el_agg st) + 1" "ms_expected_free ms = OMS_ExpectedFreeCash st'"
    using compose_pack [OF assms(1), of env self cfg px pt, folded st'_def] by blast
  have w: "om_reconcile_queue st' = om_reconcile_queue st"
    using queues_compose [of env self cfg px pt st] by (simp add: st'_def oms_queues_def)
  have g: "ms_generation ms \<noteq> 0" using assms(2) ms(2) by simp
  let ?cmd = "drift_command fmt (Money_ToDouble (drift usdt)) usdt (Money_ToDouble (OMS_ExpectedFreeCash st'))"
  obtain ok q where p: "SPSCRing_TryPush (om_reconcile_queue st') ?cmd = (ok, q)" by fastforce
  have q: "ok" "ring_items q = ring_items (om_reconcile_queue st') @ [?cmd]"
    using ring.push_law [OF _ _ p] assms(4-6) by (simp_all add: w)
  have r: "om_balance (OrderManager_ProcessReconcile env' c x) = om_balance c \<and>
      om_realized_pnl (OrderManager_ProcessReconcile env' c x) = om_realized_pnl c \<and>
      om_portfolio (OrderManager_ProcessReconcile env' c x) = om_portfolio c \<and>
      oms_table (OrderManager_ProcessReconcile env' c x) = oms_table c" for env' x and c :: EngineState
  proof -
    have "same_but_events c (OrderManager_ProcessReconcile env' c x)"
      using funnel_push_same [of c env'] by (simp add: OrderManager_ProcessReconcile_def same_but_events_def)
    then have "without_events c = without_events (OrderManager_ProcessReconcile env' c x)" by (simp add: same_but_events_def)
    from arg_cong [OF this, of om_balance] arg_cong [OF this, of om_realized_pnl] arg_cong [OF this, of om_portfolio]
    show ?thesis by (simp add: without_events_def reconcile_table)
  qed
  let ?tol = "Money (money_from_double_payload (rl_balance_tolerance s))"
  show ?thesis
  proof (cases "Money_Le (Money_Abs (drift usdt)) ?tol")
    case True
    have "ReconciliationLoop_Pass (Some (usdt, btc)) fmt s st' =
        Some (0, s\<lparr>rl_total_polls := rl_total_polls s + 1, rl_last_drift_usdt := Money_ToDouble (drift usdt)\<rparr>, st')"
      using g True by (simp add: ReconciliationLoop_Pass_def ms drift_def Let_def)
    then show ?thesis using True r [of _ st'] by (simp add: Let_def w)
  next
    case False
    let ?c = "st'\<lparr>om_reconcile_queue := q\<rparr>"
    have "ReconciliationLoop_Pass (Some (usdt, btc)) fmt s st' = Some (1, s\<lparr>rl_total_polls := rl_total_polls s + 1,
        rl_last_drift_usdt := Money_ToDouble (drift usdt), rl_drift_corrections := rl_drift_corrections s + 1\<rparr>, ?c)"
      using g False p q(1) by (simp add: ReconciliationLoop_Pass_def ms drift_def Let_def)
    moreover have "oms_table ?c = oms_table st'" by (simp add: oms_table_def)
    ultimately show ?thesis using False q(2) r [of _ ?c] by (simp add: Let_def w)
  qed
qed

end
