(* ===== verification/Engine_Boot.thy ===== *)
theory Engine_Boot
  imports Engine_Reconcile Order_Boot
begin

text \<open>
  Boot, registration and paper reset of the engine: the node initialiser and its reset subset
  (\<^verbatim>\<open>src/MemHeaders/NodeCtxInitRegistry.hpp\<close>), the node rows rebuilt from the event log
  (\<^verbatim>\<open>src/CoreFrameworks/ControllerEventLoop.hpp\<close>), the global and per-core boot
  (\<^verbatim>\<open>src/CoreFrameworks/EngineCommon.hpp\<close>) and the paper reset the composer runs
  (\<^verbatim>\<open>src/CoreFrameworks/EngineSharded/Async.hpp\<close>).  Learning state, displays, telemetry and the archive of a
  finished paper session are left out.
\<close>

unbundle bit_operations_syntax

subsection \<open>The fields of a node\<close>

definition node_ctx_init_value_fields :: "NodeContext \<Rightarrow> NodeContext" where
  "node_ctx_init_value_fields ctx = ctx\<lparr>
     nx_core := None, nx_strategy_id := STRATEGY_NONE, nx_resolved_strategy_id := STRATEGY_NONE, nx_node_state_flags := 0,
     nx_intended_tp := Money_Zero, nx_intended_sl := Money_Zero, nx_intended_qty := Money_Zero, nx_allocated_balance := Money_Zero,
     nx_staged_prediction := F64_Fin 0, nx_active_prediction := F64_Fin 0,
     nx_entries_processed := 0, nx_exits_processed := 0,
     nx_last_entry_price := Money_Zero, nx_last_entry_tick := 0, nx_last_entry_wall_us := 0,
     nx_node_realized := Money_Zero, nx_node_fees := Money_Zero, nx_node_wins := 0, nx_node_losses := 0,
     nx_partner_pending_pnl := Money_Zero, nx_node_gross_wins := Money_Zero, nx_node_gross_losses := Money_Zero,
     nx_node_open_notional := Money_Zero, nx_node_peak_balance := Money_Zero, nx_node_dd_pct := Money_Zero, nx_node_ks_trips_total := 0\<rparr>"

definition NODE_CTX_INIT_AUTOPOPULATE :: "NodeContext \<Rightarrow> NodeContext" where
  "NODE_CTX_INIT_AUTOPOPULATE ctx =
     (let ctx = node_ctx_init_value_fields ctx
      in ctx\<lparr>nx_pending_params := GateParameters_Init (nx_pending_params ctx), nx_drift_state_flags := 0\<rparr>)"

definition node_ctx_reset_value_fields :: "NodeContext \<Rightarrow> NodeContext" where
  "node_ctx_reset_value_fields ctx = ctx\<lparr>
     nx_entries_processed := 0, nx_exits_processed := 0,
     nx_node_realized := Money_Zero, nx_node_fees := Money_Zero, nx_node_wins := 0, nx_node_losses := 0,
     nx_partner_pending_pnl := Money_Zero, nx_node_gross_wins := Money_Zero, nx_node_gross_losses := Money_Zero,
     nx_node_open_notional := Money_Zero, nx_node_peak_balance := Money_Zero, nx_node_dd_pct := Money_Zero, nx_node_ks_trips_total := 0\<rparr>"

definition NODE_CTX_RESET_AUTOPOPULATE :: "nat \<Rightarrow> EngineState \<Rightarrow> EngineState" where
  "NODE_CTX_RESET_AUTOPOPULATE c st =
     (let st = upd_node c (\<lambda>x. node_flag_clr NODE_STATE_KILL_TRIPPED (node_ctx_reset_value_fields x)) st;
          st = st\<lparr>el_partner_pending_bitmap := BITMAP_CLR (el_partner_pending_bitmap st) (BITMAP_BIT c)\<rparr>
      in upd_node c (\<lambda>x. x\<lparr>nx_drift_state_flags := 0\<rparr>) st)"

subsection \<open>Node rows from the event log\<close>

record SlotEntry =
  se_entry_price :: Money
  se_qty :: Money
  se_entry_fee :: Money
  se_pending_net :: Money
  se_valid :: bool

definition slot_entry_zero :: SlotEntry where
  "slot_entry_zero = \<lparr>se_entry_price = Money_Zero, se_qty = Money_Zero, se_entry_fee = Money_Zero,
     se_pending_net = Money_Zero, se_valid = False\<rparr>"

definition upd_entry :: "nat \<Rightarrow> (SlotEntry \<Rightarrow> SlotEntry) \<Rightarrow> SlotEntry list \<Rightarrow> SlotEntry list" where
  "upd_entry s f es = es[s := f (es ! s)]"

definition rebuild_rate :: "PerNodeCfg list option \<Rightarrow> nat \<Rightarrow> Money" where
  "rebuild_rate nodes n = nc_fee_rate_taker (case nodes of Some cs \<Rightarrow> cs ! n | None \<Rightarrow> NULL_PER_NODE_CFG_STUB)"

definition rebuild_buy :: "Money \<Rightarrow> OrderEvent \<Rightarrow> nat \<Rightarrow> nat \<Rightarrow> SlotEntry list \<times> EngineState \<Rightarrow> SlotEntry list \<times> EngineState" where
  "rebuild_buy rate e slot n = (\<lambda>(es, st).
     let notional = Money_Mul (ev_price e) (ev_qty e);
         leg_fee = (if \<not> Money_IsZero (ev_fee e) then ev_fee e else Money_Mul notional rate);
         es = (if se_valid (es ! slot)
               then let old_notional = Money_Mul (se_entry_price (es ! slot)) (se_qty (es ! slot));
                        new_qty = Money_Add (se_qty (es ! slot)) (ev_qty e)
                    in upd_entry slot (\<lambda>x. x\<lparr>se_entry_price := Money_Div (Money_Add old_notional notional) new_qty,
                         se_qty := new_qty, se_entry_fee := Money_Add (se_entry_fee x) leg_fee\<rparr>) es
               else upd_entry slot (\<lambda>x. x\<lparr>se_entry_price := ev_price e, se_qty := ev_qty e, se_entry_fee := leg_fee,
                         se_valid := True\<rparr>) es)
     in (es, upd_node n (\<lambda>x. x\<lparr>nx_entries_processed := nx_entries_processed x + 1,
               nx_node_open_notional := Money_Add (nx_node_open_notional x) notional\<rparr>) st))"

definition rebuild_sell :: "Money \<Rightarrow> OrderEvent \<Rightarrow> nat \<Rightarrow> nat \<Rightarrow> SlotEntry list \<times> EngineState \<Rightarrow> SlotEntry list \<times> EngineState" where
  "rebuild_sell rate e slot n = (\<lambda>(es, st).
     if \<not> se_valid (es ! slot) then (es, st)
     else let entry_price = se_entry_price (es ! slot); qty = se_qty (es ! slot);
              q_leg = (if Money_Gt (ev_qty e) qty then qty else ev_qty e)
          in if Money_IsZero q_leg then (es, st)
             else let leg_flat = Money_Eq q_leg qty;
                      (entry_fee_leg, fee_left) = Portfolio_ConsumeEntryFeeLeg (se_entry_fee (es ! slot)) q_leg qty;
                      es = upd_entry slot (\<lambda>x. x\<lparr>se_entry_fee := fee_left\<rparr>) es;
                      exit_fee = (if \<not> Money_IsZero (ev_fee e) then ev_fee e
                                  else Money_Mul (Money_Mul (ev_price e) q_leg) rate);
                      total_fee = Money_Add entry_fee_leg exit_fee;
                      gross = Money_FillGross entry_price (ev_price e) q_leg;
                      net = Money_Sub gross total_fee;
                      st = upd_node n (\<lambda>x. x\<lparr>nx_exits_processed := nx_exits_processed x + 1,
                             nx_node_realized := Money_Add (nx_node_realized x) net,
                             nx_node_fees := Money_Add (nx_node_fees x) total_fee,
                             nx_node_open_notional := Money_Sub (nx_node_open_notional x) (Money_Mul entry_price q_leg)\<rparr>) st;
                      es = upd_entry slot (\<lambda>x. x\<lparr>se_qty := Money_Sub (se_qty x) q_leg\<rparr>) es
                  in if leg_flat
                     then let trade_net = Money_Add (se_pending_net (es ! slot)) net;
                              is_win = (of_bool (Money_Gt trade_net Money_Zero) :: u32)
                          in (upd_entry slot (\<lambda>x. x\<lparr>se_pending_net := Money_Zero, se_valid := False\<rparr>) es,
                              upd_node n (\<lambda>x. x\<lparr>nx_node_wins := nx_node_wins x + is_win,
                                nx_node_losses := nx_node_losses x + (1 - is_win)\<rparr>) st)
                     else (upd_entry slot (\<lambda>x. x\<lparr>se_pending_net := Money_Add (se_pending_net x) net\<rparr>) es, st))"

definition rebuild_event :: "PerNodeCfg list option \<Rightarrow> bool \<Rightarrow> OrderEvent \<Rightarrow> SlotEntry list \<times> EngineState \<Rightarrow> SlotEntry list \<times> EngineState" where
  "rebuild_event nodes partial_on e acc =
     (if ev_type e \<noteq> OEVT_FULL_FILL \<and> ev_type e \<noteq> OEVT_PARTIAL_FILL then acc
      else if ev_node_id e < 0 \<or> int MAX_PORTFOLIO_POSITIONS \<le> ev_node_id e then acc
      else let slot = nat (ev_node_id e); node_id = Sharded_SlotNode (int slot) partial_on
           in if node_id < 0 \<or> int MAX_EXECUTION_NODES \<le> node_id then acc
              else let n = nat node_id; rate = rebuild_rate nodes n
                   in if ev_order_type e = order_type_byte ORDER_MARKET_BUY then rebuild_buy rate e slot n acc
                      else if ev_order_type e = order_type_byte ORDER_MARKET_SELL then rebuild_sell rate e slot n acc
                      else acc)"

definition EventLoopState_ReconstructPerCoreFromEventLog :: "PerNodeCfg list option \<Rightarrow> EngineState \<Rightarrow> EngineState" where
  "EventLoopState_ReconstructPerCoreFromEventLog nodes st =
     (let l = om_event_log st
      in if el_count l = 0 then st
         else snd (fold (rebuild_event nodes (oms_partial_on st \<noteq> 0)) (el_entries l)
                (replicate MAX_PORTFOLIO_POSITIONS slot_entry_zero, st)))"

subsection \<open>Boot\<close>

definition EventLoopState_Init :: "EngineState \<Rightarrow> EngineState" where
  "EventLoopState_Init st =
     EventLoopState_ReconstructPerCoreFromEventLog None
       (st\<lparr>el_registered_count := 0, el_total_events_processed := 0, el_total_entries := 0, el_total_exits := 0,
           el_partner_pending_bitmap := 0, el_ws_last_tick_us := 0, el_nodes := map NODE_CTX_INIT_AUTOPOPULATE (el_nodes st)\<rparr>)"

definition snapshot_row_zero :: MoneySnapshotNodeRow where
  "snapshot_row_zero = \<lparr>mr_alloc = Money_Zero, mr_realized = Money_Zero, mr_fees = Money_Zero, mr_peak = Money_Zero,
     mr_dd = Money_Zero, mr_unrealized = Money_Zero\<rparr>"

definition snapshot_zero :: MoneySnapshot where
  "snapshot_zero = \<lparr>ms_generation = 0, ms_kill_word_copy = 0, ms_balance = Money_Zero, ms_realized = Money_Zero, ms_ks_peak = Money_Zero,
     ms_rows = replicate MAX_EXECUTION_NODES snapshot_row_zero, ms_expected_free = Money_Zero, ms_total_fees = Money_Zero,
     ms_total_maker_fees = Money_Zero, ms_total_taker_fees = Money_Zero\<rparr>"

definition EngineCommon_BootGlobal :: "ControllerConfig \<Rightarrow> EngineState \<Rightarrow> EngineState" where
  "EngineCommon_BootGlobal cfg st =
     (let st = EventLoopState_Init st;
          st = st\<lparr>om_agg_attached := True\<rparr>;
          st = (if cc_kill_switch_enabled cfg
                then EventLoopState_ConfigureKillSwitch st Money_Zero (cc_kill_switch_drawdown_pct cfg) else st)
      in upd_agg (\<lambda>a. a\<lparr>ag_generation := 0, ag_kill_word := 0,
                        ag_publish := ParameterSlot_Init (ag_publish a) snapshot_zero\<rparr>) st)"

text \<open>The part of the per-core boot before the models are loaded; \<open>core\<close> is the memory the core starts in.\<close>

definition boot_core :: "ControllerConfig \<Rightarrow> nat \<Rightarrow> u64 \<Rightarrow> Money \<Rightarrow> ExecutionCore \<Rightarrow> EngineState \<Rightarrow> EngineState" where
  "boot_core cfg c tick_ring node_balance core st =
     (let core = ExecutionCore_Init core (word_of_nat c) tick_ring;
          (slot, st) = EventLoopState_RegisterCore st core Money_Zero Money_Zero Money_Zero
      in EventLoopState_SetCoreStrategy st (int c) (cc_node_strategies cfg ! c) node_balance)"

subsection \<open>Paper reset\<close>

definition reset_node :: "nat \<Rightarrow> EngineState \<Rightarrow> EngineState" where
  "reset_node c st =
     (let st = NODE_CTX_RESET_AUTOPOPULATE c st
      in upd_node c (\<lambda>x. x\<lparr>nx_core := map_option (\<lambda>k. k\<lparr>ec_active := 0\<rparr>) (nx_core x)\<rparr>) st)"

text \<open>The last arguments belong to the truncation of the log: what the writer thread does while its ring is
  full, and whether the file can be opened again.  The flag the slow paths wait on is the caller's.\<close>

definition EngineSharded_ExecutePaperReset ::
    "nat \<Rightarrow> (nat \<Rightarrow> OrderEventLog \<Rightarrow> OrderEventLog) \<Rightarrow> bool \<Rightarrow> bool \<Rightarrow> ControllerConfig \<Rightarrow> u64 \<Rightarrow> EngineState \<Rightarrow> EngineState option" where
  "EngineSharded_ExecutePaperReset fuel env open_wb open_ab cfg now_us st =
     (let st = OMS_RESET (cc_starting_balance cfg) now_us st;
          st = st\<lparr>el_total_entries := 0, el_total_exits := 0, el_total_events_processed := 0\<rparr>;
          st = fold reset_node [0..<nat (el_registered_count st)] st;
          st = upd_agg (\<lambda>a. AggregatorState_Seed a (om_portfolio st)) st
      in case OrderEventLog_RequestTruncate fuel env open_wb open_ab (om_event_log st) of None \<Rightarrow> None
         | Some l \<Rightarrow> Some (upd_agg (\<lambda>a. a\<lparr>ag_reset_seq := ag_reset_seq a + 1\<rparr>) (st\<lparr>om_event_log := l\<rparr>)))"

subsection \<open>The rebuilt rows against the replayed account\<close>

lemma add_is_zero: "Money_IsZero (Money_Add a b) \<longleftrightarrow> mv a + mv b = 0"
proof -
  let ?s = "mv a + mv b"
  have o: "MONEY_MAX <s ?s \<or> ?s <s - MONEY_MAX \<longleftrightarrow> money_lim < \<bar>sint ?s\<bar>"
    by (auto simp: word_sless_alt)
  have "mv (Money_Add a b) = (if money_lim < \<bar>sint ?s\<bar> then i128_cneg MONEY_MAX (sint ?s < 0) else ?s)"
    by (simp add: Money_Add_def Money_Add_op_def Let_def or_of_bool_word o)
  moreover have "\<not> money_lim < \<bar>sint (0 :: u128)\<bar>" by (simp add: money_lim_def)
  moreover have "MONEY_MAX \<noteq> 0" by (simp add: MONEY_MAX_def)
  ultimately show ?thesis by (auto simp: Money_IsZero_def i128_cneg_word split: if_splits)
qed

lemma sub_zero: "Money_IsZero (Money_Sub a b) \<longleftrightarrow> Money_Eq b a"
proof -
  have "Money_IsZero (Money_Sub a b) \<longleftrightarrow> mv a + - mv b = 0"
    using add_is_zero [of a "Money (- mv b)"] by (simp only: Money_Sub_def Money_Sub_op_def Money_Add_def Money.sel)
  then show ?thesis by (simp only: Money_Eq_def) (metis add.right_neutral add_diff_cancel_left' diff_conv_add_uminus eq_iff_diff_eq_0)
qed

definition slots_match :: "SlotEntry list \<Rightarrow> Portfolio \<Rightarrow> bool" where
  "slots_match es pf \<longleftrightarrow> length es = 16 \<and> length (pf_positions pf) = 16 \<and>
     (\<forall>s < 16. se_valid (es ! s) = Portfolio_SlotActive pf s \<and>
        (se_valid (es ! s) \<longrightarrow> se_entry_price (es ! s) = p_entry_price (pf_positions pf ! s) \<and>
           se_qty (es ! s) = p_quantity (pf_positions pf ! s) \<and> se_entry_fee (es ! s) = p_entry_fee (pf_positions pf ! s)))"

text \<open>What one event books: the slot and the net of a sell that meets an open position.\<close>

definition event_net :: "OrderEvent \<Rightarrow> Portfolio \<Rightarrow> (nat \<times> Money) list" where
  "event_net e pf =
     (if ev_type e \<noteq> OEVT_FULL_FILL \<and> ev_type e \<noteq> OEVT_PARTIAL_FILL \<or> ev_node_id e < 0 \<or> 16 \<le> ev_node_id e \<or> ev_order_type e \<noteq> 1 then []
      else let slot = nat (ev_node_id e); qty = p_quantity (pf_positions pf ! slot);
               q_leg = (if Money_Gt (ev_qty e) qty then qty else ev_qty e)
           in if \<not> Portfolio_SlotActive pf slot \<or> Money_IsZero q_leg then []
              else [(slot, fst (sell_leg pf slot (ev_price e) q_leg (ev_fee e)))])"

fun replay_nets :: "u64 option \<Rightarrow> OrderEvent list \<Rightarrow> FoldResult \<Rightarrow> (nat \<times> Money) list" where
  "replay_nets clock [] fr = []"
| "replay_nets clock (e # es) fr = event_net e (fr_portfolio fr) @ replay_nets clock es (fold_event Money_Zero clock e fr)"

lemma fold_sell_leg:
  "fold_sell Money_Zero e slot fr =
     (let qty = p_quantity (pf_positions (fr_portfolio fr) ! slot); q_leg = (if Money_Gt (ev_qty e) qty then qty else ev_qty e);
          leg = sell_leg (fr_portfolio fr) slot (ev_price e) q_leg (ev_fee e)
      in if \<not> Portfolio_SlotActive (fr_portfolio fr) slot \<or> Money_IsZero q_leg then None
         else Some (fr\<lparr>fr_portfolio := snd (snd leg), fr_balance := Money_Add (fr_balance fr) (fst leg),
                fr_realized_pnl := Money_Add (fr_realized_pnl fr) (fst leg)\<rparr>))"
proof -
  define Q where "Q = p_quantity (pf_positions (fr_portfolio fr) ! slot)"
  define g where "g = (if Money_Gt (ev_qty e) Q then Q else ev_qty e)"
  show ?thesis unfolding fold_sell_def Let_def leg_fee_booked Q_def [symmetric] g_def [symmetric] sell_leg_def split_def by simp
qed

lemma fold_event_realized:
  "fr_realized_pnl (fold_event Money_Zero clock e fr) =
     fold (\<lambda>(s, x) a. Money_Add a x) (event_net e (fr_portfolio fr)) (fr_realized_pnl fr)"
  by (auto simp: fold_event_def event_net_def fold_sell_leg fold_buy_def Let_def order_type_bytes MAX_PORTFOLIO_POSITIONS_def)

lemma rebuild_rate_none: "rebuild_rate None n = Money_Zero"
  by (simp add: rebuild_rate_def NULL_PER_NODE_CFG_STUB_def Money_Zero_def)

lemma slots_match_at:
  assumes "slots_match es pf" "s < 16"
  shows "se_valid (es ! s) = Portfolio_SlotActive pf s" "s < length es" "s < length (pf_positions pf)"
    "se_valid (es ! s) \<Longrightarrow> se_entry_price (es ! s) = p_entry_price (pf_positions pf ! s)"
    "se_valid (es ! s) \<Longrightarrow> se_qty (es ! s) = p_quantity (pf_positions pf ! s)"
    "se_valid (es ! s) \<Longrightarrow> se_entry_fee (es ! s) = p_entry_fee (pf_positions pf ! s)"
  using assms by (auto simp: slots_match_def)

text \<open>The relation is kept by any change of one slot that agrees on both sides.\<close>

lemma slots_match_upd:
  assumes "slots_match es pf" "s < 16" "length (pf_positions pf') = 16" "length es' = 16"
    and "\<And>i. i \<noteq> s \<Longrightarrow> es' ! i = es ! i" "\<And>i. i \<noteq> s \<Longrightarrow> pf_positions pf' ! i = pf_positions pf ! i"
    and "\<And>i. i < 16 \<Longrightarrow> i \<noteq> s \<Longrightarrow> Portfolio_SlotActive pf' i = Portfolio_SlotActive pf i"
    and "se_valid (es' ! s) = Portfolio_SlotActive pf' s"
    and "se_valid (es' ! s) \<Longrightarrow> se_entry_price (es' ! s) = p_entry_price (pf_positions pf' ! s) \<and>
      se_qty (es' ! s) = p_quantity (pf_positions pf' ! s) \<and> se_entry_fee (es' ! s) = p_entry_fee (pf_positions pf' ! s)"
  shows "slots_match es' pf'"
  unfolding slots_match_def
proof (intro conjI allI impI)
  fix i :: nat
  assume i: "i < 16"
  show "se_valid (es' ! i) = Portfolio_SlotActive pf' i" using assms(1,2,5-8) i by (cases "i = s") (auto simp: slots_match_def)
  assume v: "se_valid (es' ! i)"
  show "se_entry_price (es' ! i) = p_entry_price (pf_positions pf' ! i)" "se_qty (es' ! i) = p_quantity (pf_positions pf' ! i)"
    "se_entry_fee (es' ! i) = p_entry_fee (pf_positions pf' ! i)"
    using assms(1,2,5,6,9) i v by (cases "i = s"; auto simp: slots_match_def)+
qed (use assms(3,4) in auto)

lemma open_active:
  assumes "s < 16" "i < 16"
  shows "Portfolio_SlotActive (Portfolio_OpenSlot clock pf s a) i = (i = s \<or> Portfolio_SlotActive pf i)"
  using assms by (auto simp: SlotActive_bit Portfolio_OpenSlot_def Let_def BITMAP_SET_def BITMAP_BIT_def bit_simps)

lemma close_active:
  assumes "s < 16" "i < 16"
  shows "Portfolio_SlotActive (snd (Portfolio_CloseSlotLeg pf s px q)) i =
    (Portfolio_SlotActive pf i \<and> \<not> (i = s \<and> Money_Eq q (p_quantity (pf_positions pf ! s))))"
  unfolding Portfolio_CloseSlotLeg_def Let_def sub_zero snd_conv
  using assms by (auto simp: SlotActive_bit BITMAP_BIT_def bit_simps)

lemma open_parts:
  assumes "s < length (pf_positions pf)"
  shows "length (pf_positions (Portfolio_OpenSlot clock pf s a)) = length (pf_positions pf)"
    "i \<noteq> s \<Longrightarrow> pf_positions (Portfolio_OpenSlot clock pf s a) ! i = pf_positions pf ! i"
    "p_entry_price (pf_positions (Portfolio_OpenSlot clock pf s a) ! s) = ea_entry_price a"
    "p_quantity (pf_positions (Portfolio_OpenSlot clock pf s a) ! s) = ea_quantity a"
    "p_entry_fee (pf_positions (Portfolio_OpenSlot clock pf s a) ! s) = ea_entry_fee a"
  using assms by (simp_all add: Portfolio_OpenSlot_def upd_pos_def Let_def)

lemma rebuild_buy_match:
  assumes m: "slots_match es (fr_portfolio fr)" and s: "s < 16"
  shows "slots_match (fst (rebuild_buy Money_Zero e s n (es, st))) (fr_portfolio (fold_buy Money_Zero clock e s fr))"
proof -
  note at = slots_match_at [OF m s]
  show ?thesis
  proof (cases "se_valid (es ! s)")
    case True
    show ?thesis
      by (rule slots_match_upd [OF m s]) (use at True m in \<open>auto simp: rebuild_buy_def fold_buy_def Let_def upd_entry_def
        Portfolio_AccumulateSlotLeg_def upd_pos_def Portfolio_SlotActive_def slots_match_def\<close>)
  next
    case False
    show ?thesis
      by (rule slots_match_upd [OF m s])
        (use at(1-3) False m s in \<open>simp_all add: rebuild_buy_def fold_buy_def Let_def upd_entry_def open_active open_parts slots_match_def\<close>)
  qed
qed

lemma sell_leg_parts:
  fixes px q fee :: Money
  assumes "s < length (pf_positions pf)"
  defines "p \<equiv> pf_positions pf ! s"
  defines "pf' \<equiv> snd (snd (sell_leg pf s px q fee))"
  shows "fst (sell_leg pf s px q fee) = Money_Sub (Money_FillGross (p_entry_price p) px q)
      (Money_Add (fst (Portfolio_ConsumeEntryFeeLeg (p_entry_fee p) q (p_quantity p))) fee)"
    "length (pf_positions pf') = length (pf_positions pf)" "i \<noteq> s \<Longrightarrow> pf_positions pf' ! i = pf_positions pf ! i"
    "pf_positions pf' ! s = p\<lparr>p_entry_fee := snd (Portfolio_ConsumeEntryFeeLeg (p_entry_fee p) q (p_quantity p)),
       p_quantity := Money_Sub (p_quantity p) q\<rparr>"
    "s < 16 \<Longrightarrow> i < 16 \<Longrightarrow> Portfolio_SlotActive pf' i = (Portfolio_SlotActive pf i \<and> \<not> (i = s \<and> Money_Eq q (p_quantity p)))"
proof -
  show "s < 16 \<Longrightarrow> i < 16 \<Longrightarrow> Portfolio_SlotActive pf' i = (Portfolio_SlotActive pf i \<and> \<not> (i = s \<and> Money_Eq q (p_quantity p)))"
    using assms(1) unfolding pf'_def sell_leg_def Let_def split_def p_def
    by (simp add: close_active) (simp add: upd_pos_def Portfolio_SlotActive_def)
qed (use assms(1) in \<open>simp_all add: p_def pf'_def sell_leg_def Let_def split_def Portfolio_CloseSlotLeg_def upd_pos_def\<close>)

lemma rebuild_sell_match:
  fixes e :: OrderEvent
  assumes m: "slots_match es (fr_portfolio fr)" and s: "s < 16"
  defines "q \<equiv> p_quantity (pf_positions (fr_portfolio fr) ! s)"
  defines "g \<equiv> (if Money_Gt (ev_qty e) q then q else ev_qty e)"
  assumes a: "Portfolio_SlotActive (fr_portfolio fr) s" "\<not> Money_IsZero g"
  shows "slots_match (fst (rebuild_sell Money_Zero e s n (es, st))) (snd (snd (sell_leg (fr_portfolio fr) s (ev_price e) g (ev_fee e))))"
    "nx_node_realized (node_at (snd (rebuild_sell Money_Zero e s n (es, st))) i) =
      (if i = n \<and> i < length (el_nodes st) then Money_Add (nx_node_realized (node_at st i)) (fst (sell_leg (fr_portfolio fr) s (ev_price e) g (ev_fee e)))
       else nx_node_realized (node_at st i))"
proof -
  note at = slots_match_at [OF m s]
  note parts = sell_leg_parts [OF at(3)]
  have v: "se_valid (es ! s)" using a(1) at(1) by simp
  note eq = at(4-6) [OF v]
  have g: "(if Money_Gt (ev_qty e) (se_qty (es ! s)) then se_qty (es ! s) else ev_qty e) = g" by (simp add: g_def q_def eq)
  let ?C = "Portfolio_ConsumeEntryFeeLeg (se_entry_fee (es ! s)) g (se_qty (es ! s))"
  let ?net = "Money_Sub (Money_FillGross (se_entry_price (es ! s)) (ev_price e) g) (Money_Add (fst ?C) (ev_fee e))"
  have k: "x\<lparr>se_entry_fee := a, se_qty := b, se_pending_net := c, se_valid := True\<rparr> = x\<lparr>se_entry_fee := a, se_qty := b, se_pending_net := c\<rparr>"
    if "se_valid x" for x :: SlotEntry and a b c using that by (cases x) simp
  have "\<exists>P. fst (rebuild_sell Money_Zero e s n (es, st)) = es[s := (es ! s)\<lparr>se_entry_fee := snd ?C,
      se_qty := Money_Sub (se_qty (es ! s)) g, se_pending_net := P, se_valid := \<not> Money_Eq g (se_qty (es ! s))\<rparr>]"
    unfolding rebuild_sell_def Let_def split_def fst_conv snd_conv g leg_fee_booked upd_entry_def
    using v a(2) at(2) by (cases "Money_Eq g (se_qty (es ! s))") (auto simp: k)
  then obtain P where P: "fst (rebuild_sell Money_Zero e s n (es, st)) = es[s := (es ! s)\<lparr>se_entry_fee := snd ?C,
      se_qty := Money_Sub (se_qty (es ! s)) g, se_pending_net := P, se_valid := \<not> Money_Eq g (se_qty (es ! s))\<rparr>]" by blast
  show "slots_match (fst (rebuild_sell Money_Zero e s n (es, st))) (snd (snd (sell_leg (fr_portfolio fr) s (ev_price e) g (ev_fee e))))"
    unfolding P
    by (rule slots_match_upd [OF m s]) (use at(1-3) v a m s in \<open>simp_all add: parts eq slots_match_def\<close>)
  have f: "fst (sell_leg (fr_portfolio fr) s (ev_price e) g (ev_fee e)) =
      Money_Sub (Money_FillGross (se_entry_price (es ! s)) (ev_price e) g)
        (Money_Add (fst (Portfolio_ConsumeEntryFeeLeg (se_entry_fee (es ! s)) g (se_qty (es ! s)))) (ev_fee e))"
    by (simp add: parts(1) eq)
  show "nx_node_realized (node_at (snd (rebuild_sell Money_Zero e s n (es, st))) i) =
      (if i = n \<and> i < length (el_nodes st) then Money_Add (nx_node_realized (node_at st i)) (fst (sell_leg (fr_portfolio fr) s (ev_price e) g (ev_fee e)))
       else nx_node_realized (node_at st i))"
    unfolding f rebuild_sell_def Let_def split_def fst_conv snd_conv g leg_fee_booked
    using v a(2) by (cases "Money_Eq g (se_qty (es ! s))") (auto simp: realized_upd_node)
qed

lemma slot_node_nat:
  "Sharded_SlotNode (int s) p = int (BITMAP_SLOT_NODE s p)" "s < 16 \<Longrightarrow> BITMAP_SLOT_NODE s p < 16"
  by (auto simp: Sharded_SlotNode_def slot_node_def BITMAP_SLOT_NODE_def drop_bit_eq_div zdiv_int)

definition in_market :: "OrderEvent \<Rightarrow> bool" where
  "in_market e \<longleftrightarrow> \<not> (ev_type e \<noteq> OEVT_FULL_FILL \<and> ev_type e \<noteq> OEVT_PARTIAL_FILL) \<and> 0 \<le> ev_node_id e \<and> ev_node_id e < 16"

lemma rebuild_event_cases:
  "rebuild_event None p e acc =
     (let s = nat (ev_node_id e); n = BITMAP_SLOT_NODE s p
      in if \<not> in_market e then acc else if ev_order_type e = 0 then rebuild_buy Money_Zero e s n acc
         else if ev_order_type e = 1 then rebuild_sell Money_Zero e s n acc else acc)"
proof (cases "in_market e")
  case True
  then have "nat (ev_node_id e) < 16" by (auto simp: in_market_def)
  from slot_node_nat(2) [OF this, of p] True show ?thesis
    by (auto simp: rebuild_event_def in_market_def Let_def order_type_bytes slot_node_nat(1) rebuild_rate_none
        MAX_PORTFOLIO_POSITIONS_def MAX_EXECUTION_NODES_def)
next
  case False
  then show ?thesis by (auto simp: rebuild_event_def in_market_def Let_def MAX_PORTFOLIO_POSITIONS_def)
qed

lemma fold_event_cases:
  "fr_portfolio (fold_event Money_Zero clock e fr) =
     (let s = nat (ev_node_id e)
      in if \<not> in_market e then fr_portfolio fr else if ev_order_type e = 0 then fr_portfolio (fold_buy Money_Zero clock e s fr)
         else if ev_order_type e = 1 then (case fold_sell Money_Zero e s fr of None \<Rightarrow> fr_portfolio fr | Some r \<Rightarrow> fr_portfolio r) else fr_portfolio fr)"
  by (auto simp: fold_event_def in_market_def Let_def order_type_bytes MAX_PORTFOLIO_POSITIONS_def split: option.splits)

definition node_nets :: "bool \<Rightarrow> nat \<Rightarrow> (nat \<times> Money) list \<Rightarrow> Money list" where
  "node_nets p n nets = map snd (filter (\<lambda>(s, x). BITMAP_SLOT_NODE s p = n) nets)"

lemma rebuild_event_step:
  fixes e :: OrderEvent and p :: bool
  assumes m: "slots_match es (fr_portfolio fr)" and len: "length (el_nodes st) = 16"
  defines "r \<equiv> rebuild_event None p e (es, st)"
  shows "slots_match (fst r) (fr_portfolio (fold_event Money_Zero clock e fr))" "length (el_nodes (snd r)) = 16"
    "n < 16 \<Longrightarrow> nx_node_realized (node_at (snd r) n) =
      fold (\<lambda>x a. Money_Add a x) (node_nets p n (event_net e (fr_portfolio fr))) (nx_node_realized (node_at st n))"
proof -
  define s where "s = nat (ev_node_id e)"
  let ?n = "BITMAP_SLOT_NODE s p" and ?pf = "fr_portfolio fr"
  have u: "length (el_nodes (upd_node k f x)) = length (el_nodes x)" for k f x by (simp add: upd_node_def)
  have b: "length (el_nodes (snd (rebuild_buy Money_Zero e s ?n (es, st)))) = 16"
    "length (el_nodes (snd (rebuild_sell Money_Zero e s ?n (es, st)))) = 16"
    using len by (simp_all add: rebuild_buy_def rebuild_sell_def Let_def split_def u)
  then show "length (el_nodes (snd r)) = 16" using len by (simp add: r_def rebuild_event_cases Let_def s_def [symmetric])
  consider (out) "\<not> in_market e \<or> ev_order_type e \<noteq> 0 \<and> ev_order_type e \<noteq> 1" | (buy) "in_market e" "ev_order_type e = 0"
    | (sell) "in_market e" "ev_order_type e = 1" by blast
  then have "slots_match (fst r) (fr_portfolio (fold_event Money_Zero clock e fr)) \<and> (n < 16 \<longrightarrow> nx_node_realized (node_at (snd r) n) =
      fold (\<lambda>x a. Money_Add a x) (node_nets p n (event_net e ?pf)) (nx_node_realized (node_at st n)))"
  proof cases
    case out
    then have "event_net e ?pf = []" by (auto simp: event_net_def in_market_def)
    then show ?thesis using m out by (auto simp: r_def rebuild_event_cases fold_event_cases node_nets_def Let_def)
  next
    case buy
    then have s: "s < 16" by (auto simp: s_def in_market_def)
    have e: "r = rebuild_buy Money_Zero e s ?n (es, st)" using buy by (simp add: r_def rebuild_event_cases Let_def s_def)
    have "event_net e ?pf = []" using buy by (simp add: event_net_def)
    moreover have "nx_node_realized (node_at (snd r) n) = nx_node_realized (node_at st n)"
      by (simp add: e rebuild_buy_def Let_def realized_upd_node)
    moreover have "fr_portfolio (fold_event Money_Zero clock e fr) = fr_portfolio (fold_buy Money_Zero clock e s fr)"
      using buy by (simp add: fold_event_cases Let_def s_def)
    ultimately show ?thesis using rebuild_buy_match [OF m s, of e ?n st clock] by (simp add: e node_nets_def)
  next
    case sell
    then have s: "s < 16" by (auto simp: s_def in_market_def)
    have e: "r = rebuild_sell Money_Zero e s ?n (es, st)" using sell by (simp add: r_def rebuild_event_cases Let_def s_def)
    define q where "q = p_quantity (pf_positions ?pf ! s)"
    define g where "g = (if Money_Gt (ev_qty e) q then q else ev_qty e)"
    have ne: "event_net e ?pf = (if \<not> Portfolio_SlotActive ?pf s \<or> Money_IsZero g then []
        else [(s, fst (sell_leg ?pf s (ev_price e) g (ev_fee e)))])"
    proof -
      have c: "(ev_type e \<noteq> OEVT_FULL_FILL \<and> ev_type e \<noteq> OEVT_PARTIAL_FILL \<or> ev_node_id e < 0 \<or> 16 \<le> ev_node_id e \<or> ev_order_type e \<noteq> 1) = False"
        using sell by (auto simp: in_market_def)
      show ?thesis unfolding event_net_def c if_False Let_def s_def [symmetric] q_def [symmetric] g_def [symmetric] by (rule refl)
    qed
    have fo: "fr_portfolio (fold_event Money_Zero clock e fr) = (if \<not> Portfolio_SlotActive ?pf s \<or> Money_IsZero g then ?pf
        else snd (snd (sell_leg ?pf s (ev_price e) g (ev_fee e))))"
    proof -
      have "fr_portfolio (fold_event Money_Zero clock e fr) =
          (case fold_sell Money_Zero e s fr of None \<Rightarrow> ?pf | Some r \<Rightarrow> fr_portfolio r)"
        using sell by (simp add: fold_event_cases Let_def s_def)
      then show ?thesis unfolding fold_sell_leg Let_def q_def [symmetric] g_def [symmetric] by simp
    qed
    show ?thesis
    proof (cases "Portfolio_SlotActive ?pf s \<and> \<not> Money_IsZero g")
      case True
      have "slots_match (fst r) (snd (snd (sell_leg ?pf s (ev_price e) g (ev_fee e))))"
        "nx_node_realized (node_at (snd r) n) = (if n = ?n \<and> n < length (el_nodes st)
          then Money_Add (nx_node_realized (node_at st n)) (fst (sell_leg ?pf s (ev_price e) g (ev_fee e))) else nx_node_realized (node_at st n))"
        using rebuild_sell_match(1) [OF m s, where e = e and n = ?n and st = st, folded q_def, folded g_def]
          rebuild_sell_match(2) [OF m s, where e = e and n = ?n and st = st and i = n, folded q_def, folded g_def] True
        by (simp_all only: e simp_thms)
      then show ?thesis using True len unfolding ne fo by (auto simp: node_nets_def)
    next
      case False
      have "rebuild_sell Money_Zero e s ?n (es, st) = (es, st)"
        using False slots_match_at [OF m s] unfolding rebuild_sell_def split_conv Let_def g_def q_def by auto
      then show ?thesis using m False unfolding ne fo by (auto simp: e node_nets_def)
    qed
  qed
  then show "slots_match (fst r) (fr_portfolio (fold_event Money_Zero clock e fr))"
    "n < 16 \<Longrightarrow> nx_node_realized (node_at (snd r) n) =
      fold (\<lambda>x a. Money_Add a x) (node_nets p n (event_net e ?pf)) (nx_node_realized (node_at st n))" by blast+
qed

lemma node_nets_append: "node_nets p n (a @ b) = node_nets p n a @ node_nets p n b"
  by (simp add: node_nets_def)

lemma rebuild_fold:
  fixes evs :: "OrderEvent list" and p :: bool and clock :: "u64 option"
  assumes "slots_match es (fr_portfolio fr)" "length (el_nodes st) = 16"
  shows "fr_realized_pnl (fold (fold_event Money_Zero clock) evs fr) =
      fold (\<lambda>x a. Money_Add a x) (map snd (replay_nets clock evs fr)) (fr_realized_pnl fr) \<and>
    length (el_nodes (snd (fold (rebuild_event None p) evs (es, st)))) = 16 \<and>
    (n < 16 \<longrightarrow> nx_node_realized (node_at (snd (fold (rebuild_event None p) evs (es, st))) n) =
      fold (\<lambda>x a. Money_Add a x) (node_nets p n (replay_nets clock evs fr)) (nx_node_realized (node_at st n)))"
  using assms
proof (induction evs arbitrary: es st fr)
  case (Cons e evs)
  obtain es' st' where r: "rebuild_event None p e (es, st) = (es', st')" by fastforce
  note step = rebuild_event_step [OF Cons.prems, where p = p and e = e, unfolded r fst_conv snd_conv]
  note ih = Cons.IH [OF step(1) [where clock = clock] step(2)]
  have a: "fold (\<lambda>(s, x) a. Money_Add a x) l = fold (\<lambda>x a. Money_Add a x) (map snd l)" for l :: "(nat \<times> Money) list"
    by (simp add: fold_map comp_def split_def)
  show ?case using ih step(3) [where n = n] by (simp add: r fold_event_realized a node_nets_append)
qed (simp add: node_nets_def)

subsection \<open>Boot gives every node its share of the account\<close>

lemma sum_in_room:
  "\<bar>mint a\<bar> + sum_list (map (\<lambda>x. \<bar>mint x\<bar>) xs) \<le> money_lim \<Longrightarrow>
    mint (fold (\<lambda>x a. Money_Add a x) xs a) = mint a + sum_list (map mint xs)"
proof (induction xs arbitrary: a)
  case (Cons x xs)
  have n: "0 \<le> sum_list (map (\<lambda>x. \<bar>mint x\<bar>) xs)" by (rule sum_list_nonneg) auto
  have x: "mint (Money_Add a x) = mint a + mint x"
    using Cons.prems n by (intro add_in_room [of a "\<bar>mint x\<bar>"]) auto
  have "\<bar>mint (Money_Add a x)\<bar> + sum_list (map (\<lambda>x. \<bar>mint x\<bar>) xs) \<le> money_lim"
    using Cons.prems abs_triangle_ineq [of "mint a" "mint x"] by (simp add: x)
  from Cons.IH [OF this] show ?case by (simp add: x)
qed simp

lemma node_nets_sum:
  fixes f :: "Money \<Rightarrow> int"
  assumes "\<forall>(s, x) \<in> set nets. s < 16"
  shows "(\<Sum>n < 16. sum_list (map f (node_nets p n nets))) = sum_list (map f (map snd nets))"
  using assms
proof (induction nets)
  case (Cons y nets)
  obtain s x where y: "y = (s, x)" by fastforce
  have "BITMAP_SLOT_NODE s p < 16" using Cons.prems slot_node_nat(2) [of s p] by (simp add: y)
  then have "(\<Sum>n < 16. if BITMAP_SLOT_NODE s p = n then f x else 0) = f x" by simp
  moreover have "(\<Sum>n < 16. sum_list (map f (node_nets p n (y # nets)))) =
      (\<Sum>n < 16. (if BITMAP_SLOT_NODE s p = n then f x else 0) + sum_list (map f (node_nets p n nets)))"
    by (rule sum.cong) (auto simp: node_nets_def y)
  ultimately show ?case using Cons by (simp add: sum.distrib y)
qed (simp add: node_nets_def)

lemma node_nets_if: "sum_list (map mint (node_nets p n nets)) = sum_list (map (\<lambda>(s, x). if BITMAP_SLOT_NODE s p = n then mint x else 0) nets)"
  by (induction nets) (auto simp: node_nets_def)

lemma node_nets_abs: "sum_list (map (\<lambda>x. \<bar>mint x\<bar>) (node_nets p n nets)) \<le> sum_list (map (\<lambda>x. \<bar>mint x\<bar>) (map snd nets))"
  by (induction nets) (auto simp: node_nets_def)

lemma replay_nets_slots: "\<forall>(s, x) \<in> set (replay_nets clock evs fr). s < 16"
proof (induction evs arbitrary: fr)
  case (Cons e evs)
  have "\<forall>(s, x) \<in> set (event_net e (fr_portfolio fr)). s < 16" by (auto simp: event_net_def Let_def)
  then show ?case using Cons.IH [of "fold_event Money_Zero clock e fr"] by auto
qed simp

lemma load_steps:
  assumes "fold load_step es (l, k, t) = (l', k', t')"
  shows "k \<le> k' \<and> (k' = k \<longrightarrow> el_entries l' = el_entries l)"
  using assms
proof (induction es arbitrary: l k t)
  case (Cons e es)
  obtain l1 k1 t1 where s: "load_step e (l, k, t) = (l1, k1, t1)" by (cases "load_step e (l, k, t)") auto
  have "k1 = k \<and> el_entries l1 = el_entries l \<or> k1 = k + 1" using s by (auto simp: load_step_def split: if_splits)
  then show ?case using Cons.IH [of l1 k1 t1] Cons.prems s by auto
qed simp

lemma load_none: "fst (OrderEventLog_LoadFromDisk l path) \<le> 0 \<Longrightarrow> el_entries (snd (OrderEventLog_LoadFromDisk l path)) = el_entries l"
proof -
  assume a: "fst (OrderEventLog_LoadFromDisk l path) \<le> 0"
  have "el_entries l' = el_entries l" if "fold load_step es (l, 0, 0) = (l', k', t')" "k' \<le> 0" for es l' k' t'
    using load_steps [OF that(1)] that(2) by simp
  then show ?thesis using a unfolding OrderEventLog_LoadFromDisk_def by (auto simp: Let_def split: option.splits if_splits prod.splits)
qed

lemma boot_log_entries:
  "el_entries (snd (OrderEventLog_StartAsyncWriter c l)) = el_entries l" "el_entries (open_log_file r True now l path) = el_entries l"
  by (simp_all add: OrderEventLog_StartAsyncWriter_def open_log_file_def fwrite_log_def Let_def)

text \<open>What the boot of the order manager leaves: the profit the log replays to, and the nodes as they were.\<close>

lemma booted_account:
  fixes st0 :: EngineState
  assumes "logged_boot be ctx path st0" "OrderManager_Init be ctx st0 = Some st"
  shows "om_realized_pnl st = fr_realized_pnl (Portfolio_FromEventLog (be_clock be) (Portfolio_Init (om_portfolio st0)) (om_event_log st)
      (ic_starting_balance ctx) Money_Zero)" "el_nodes st = el_nodes st0"
proof -
  let ?ld = "OrderEventLog_LoadFromDisk (fresh_log (om_event_log st0)) path"
  let ?base = "(boot_base be ctx st0)\<lparr>om_event_log := snd ?ld\<rparr>"
  obtain l where st: "st = (replay_into be ctx (fst ?ld) ?base)\<lparr>om_event_log := l\<rparr>" and l: "el_entries l = el_entries (snd ?ld)"
    using logged_boot_result [OF assms(1)] assms(2) by (auto simp: boot_log_entries)
  have fr: "Portfolio_FromEventLog c pf l s r = Portfolio_FromEventLog c pf (snd ?ld) s r" for c pf s r
    by (simp add: Portfolio_FromEventLog_def l)
  have e: "el_entries (snd ?ld) = []" if "\<not> 0 < fst ?ld" using load_none [of "fresh_log (om_event_log st0)" path] that by (simp add: fresh_log_facts)
  have z: "om_realized_pnl (o1\<lparr>om_event_log := k\<rparr>) = om_realized_pnl o1" for o1 :: EngineState and k by simp
  show "om_realized_pnl st = fr_realized_pnl (Portfolio_FromEventLog (be_clock be) (Portfolio_Init (om_portfolio st0)) (om_event_log st)
      (ic_starting_balance ctx) Money_Zero)"
  proof (cases "0 < fst ?ld")
    case True
    then show ?thesis by (simp add: st fr replay_into_def Let_def boot_base_facts)
  next
    case False
    then show ?thesis using e by (simp add: st fr replay_into_def boot_base_facts) (simp add: Portfolio_FromEventLog_def)
  qed
  have "el_nodes (boot_base be ctx st0) = el_nodes st0"
    by (simp add: boot_base_def oms_init_substructs_def oms_init_value_fields_def oms_init_per_slot_def Let_def)
  then show "el_nodes st = el_nodes st0" by (simp add: st replay_into_def Let_def)
qed

definition boot_nets :: "boot_env \<Rightarrow> OmsInitCtx \<Rightarrow> EngineState \<Rightarrow> EngineState \<Rightarrow> (nat \<times> Money) list" where
  "boot_nets be ctx st0 st = replay_nets (be_clock be) (el_entries (om_event_log st))
     \<lparr>fr_balance = ic_starting_balance ctx, fr_realized_pnl = Money_Zero,
      fr_portfolio = Portfolio_Init (Portfolio_Init (om_portfolio st0)), fr_fills_processed = 0\<rparr>"

lemma boot_global_nodes:
  "el_nodes (EngineCommon_BootGlobal cfg st) = el_nodes (EventLoopState_Init st)"
  "om_realized_pnl (EngineCommon_BootGlobal cfg st) = om_realized_pnl (EventLoopState_Init st)"
  "el_registered_count (EngineCommon_BootGlobal cfg st) = el_registered_count (EventLoopState_Init st)"
  by (simp_all add: EngineCommon_BootGlobal_def EventLoopState_ConfigureKillSwitch_def upd_agg_def Let_def)

text \<open>The rebuild touches nothing of the state but the rows of the nodes.\<close>

lemma rebuild_rest:
  "om_realized_pnl (EventLoopState_ReconstructPerCoreFromEventLog nodes st) = om_realized_pnl st \<and>
   el_registered_count (EventLoopState_ReconstructPerCoreFromEventLog nodes st) = el_registered_count st"
proof -
  have "om_realized_pnl (snd (rebuild_event nodes p e acc)) = om_realized_pnl (snd acc) \<and>
      el_registered_count (snd (rebuild_event nodes p e acc)) = el_registered_count (snd acc)" for p e acc
    by (cases acc) (simp add: rebuild_event_def rebuild_buy_def rebuild_sell_def Let_def split_def upd_node_def)
  then have "om_realized_pnl (snd (fold (rebuild_event nodes p) es acc)) = om_realized_pnl (snd acc) \<and>
      el_registered_count (snd (fold (rebuild_event nodes p) es acc)) = el_registered_count (snd acc)" for p es acc
    by (induction es arbitrary: acc) simp_all
  then show ?thesis by (simp add: EventLoopState_ReconstructPerCoreFromEventLog_def Let_def)
qed

text \<open>C10: boot gives every node exactly its share of the account.  After the order manager has replayed its
  log and the engine has booted on it, the realised profit of a node row is the sum of what the replay
  booked on that node's slots, so the rows together are the realised profit of the account: the
  difference that later fills preserve starts at zero, also after a crash.\<close>

theorem boot_rows_follow_account:
  fixes st0 :: EngineState
  assumes "logged_boot be ctx path st0" "OrderManager_Init be ctx st0 = Some st" "length (el_nodes st0) = 16"
    and "sum_list (map (\<lambda>(s, x). \<bar>mint x\<bar>) (boot_nets be ctx st0 st)) \<le> money_lim"
  shows "let st' = EngineCommon_BootGlobal cfg st in
    nodes_realized st' = mint (om_realized_pnl st') \<and> om_realized_pnl st' = om_realized_pnl st \<and>
    (\<forall>n < 16. mint (nx_node_realized (node_at st' n)) =
      sum_list (map (\<lambda>(s, x). if BITMAP_SLOT_NODE s (oms_partial_on st \<noteq> 0) = n then mint x else 0) (boot_nets be ctx st0 st)))"
proof -
  let ?nets = "boot_nets be ctx st0 st" and ?p = "oms_partial_on st \<noteq> 0" and ?pf = "Portfolio_Init (om_portfolio st0)"
  let ?fr = "\<lparr>fr_balance = ic_starting_balance ctx, fr_realized_pnl = Money_Zero, fr_portfolio = Portfolio_Init ?pf, fr_fills_processed = 0\<rparr>"
  let ?st = "st\<lparr>el_registered_count := 0, el_total_events_processed := 0, el_total_entries := 0, el_total_exits := 0,
           el_partner_pending_bitmap := 0, el_ws_last_tick_us := 0, el_nodes := map NODE_CTX_INIT_AUTOPOPULATE (el_nodes st)\<rparr>"
  let ?slots = "replicate MAX_PORTFOLIO_POSITIONS slot_entry_zero"
  have len: "length (el_nodes st) = 16" using booted_account(2) [OF assms(1,2)] assms(3) by simp
  have pf: "length (pf_positions (om_portfolio st0)) = 16" using assms(1) by (simp add: logged_boot_def MAX_PORTFOLIO_POSITIONS_def)
  have m: "slots_match ?slots (fr_portfolio ?fr)"
    using pf by (simp add: slots_match_def slot_entry_zero_def Portfolio_SlotActive_def Portfolio_Init_def MAX_PORTFOLIO_POSITIONS_def)
  have init: "EventLoopState_Init st = snd (fold (rebuild_event None ?p) (el_entries (om_event_log st)) (?slots, ?st))"
    by (simp add: EventLoopState_Init_def EventLoopState_ReconstructPerCoreFromEventLog_def el_count_def oms_partial_on_def Let_def)
  note f = rebuild_fold [OF m, of ?st "be_clock be" "el_entries (om_event_log st)" ?p]
  have zero: "nx_node_realized (node_at ?st n) = Money_Zero" if "n < 16" for n
    using that len by (simp add: node_at_def NODE_CTX_INIT_AUTOPOPULATE_def node_ctx_init_value_fields_def Let_def)
  have row: "nx_node_realized (node_at (EventLoopState_Init st) n) = fold (\<lambda>x a. Money_Add a x) (node_nets ?p n ?nets) Money_Zero"
    if "n < 16" for n
    using f [of n] that len zero [OF that] by (simp add: init boot_nets_def)
  have acc: "om_realized_pnl st = fold (\<lambda>x a. Money_Add a x) (map snd ?nets) Money_Zero"
    using f [of 0] len booted_account(1) [OF assms(1,2)] by (simp add: boot_nets_def Portfolio_FromEventLog_def)
  have z: "mint Money_Zero = 0" by (simp add: Money_Zero_def)
  have room: "sum_list (map (\<lambda>x. \<bar>mint x\<bar>) (map snd ?nets)) \<le> money_lim" using assms(4) by (simp add: split_def comp_def)
  have rows: "mint (nx_node_realized (node_at (EventLoopState_Init st) n)) = sum_list (map mint (node_nets ?p n ?nets))" if "n < 16" for n
    unfolding row [OF that] using sum_in_room [of Money_Zero "node_nets ?p n ?nets"] node_nets_abs [of ?p n ?nets] room by (simp add: z)
  have total: "mint (om_realized_pnl st) = sum_list (map mint (map snd ?nets))"
    unfolding acc using sum_in_room [of Money_Zero "map snd ?nets"] room by (simp only: z)
  have same: "om_realized_pnl (EventLoopState_Init st) = om_realized_pnl st" by (simp add: EventLoopState_Init_def rebuild_rest)
  have "(\<Sum>n < 16. sum_list (map mint (node_nets ?p n ?nets))) = sum_list (map mint (map snd ?nets))"
    by (rule node_nets_sum) (simp only: boot_nets_def, rule replay_nets_slots)
  then have sum: "nodes_realized (EventLoopState_Init st) = mint (om_realized_pnl st)"
    by (simp add: nodes_realized_def MAX_EXECUTION_NODES_def rows total)
  have part: "sum_list (map mint (node_nets ?p n ?nets)) = sum_list (map (\<lambda>(s, x). if BITMAP_SLOT_NODE s ?p = n then mint x else 0) ?nets)" for n
    by (rule node_nets_if)
  have at: "node_at (EngineCommon_BootGlobal cfg st) n = node_at (EventLoopState_Init st) n" for n
    by (simp add: node_at_def boot_global_nodes)
  have nr: "nodes_realized (EngineCommon_BootGlobal cfg st) = nodes_realized (EventLoopState_Init st)" by (simp add: nodes_realized_def at)
  show ?thesis unfolding Let_def nr at boot_global_nodes same sum using rows part by (intro conjI) auto
qed

end
