(* ===== verification/Engine_Reset.thy ===== *)
theory Engine_Reset
  imports Engine_Boot Execution_Runs
begin

text \<open>
  What registration and the paper reset do to the node rows: the counts the boot rebuilt are lost at
  registration, and the reset restarts the account and the rows together but leaves leg B of a core open.
\<close>

unbundle bit_operations_syntax

subsection \<open>Registration\<close>

lemma node_upd: "n < length (el_nodes st) \<Longrightarrow> node_at (upd_node m f st) n = (if n = m then f (node_at st n) else node_at st n)"
  by (auto simp: node_at_def upd_node_def)

lemma counts_upd_node:
  "nx_entries_processed (node_at (upd_node m f st) n) =
     (if n = m \<and> n < length (el_nodes st) then nx_entries_processed (f (node_at st n)) else nx_entries_processed (node_at st n))"
  "nx_exits_processed (node_at (upd_node m f st) n) =
     (if n = m \<and> n < length (el_nodes st) then nx_exits_processed (f (node_at st n)) else nx_exits_processed (node_at st n))"
  by (cases "m < length (el_nodes st)"; auto simp: node_at_def upd_node_def list_update_beyond)+

lemma trade_counts:
  "nx_entries_processed (node_at (book_trade_result m v st) n) = nx_entries_processed (node_at st n)"
  "nx_exits_processed (node_at (book_trade_result m v st) n) = nx_exits_processed (node_at st n)"
  unfolding book_trade_result_def Let_def by (simp_all add: counts_upd_node)

lemma sell_counts:
  assumes "fe_is_sell fe" "nat (fe_node fe) < length (el_nodes st)"
  defines "n \<equiv> nat (fe_node fe)"
  shows "nx_entries_processed (node_at (EngineCommon_NodeRowsBook st fe) n) = nx_entries_processed (node_at st n)"
    "nx_exits_processed (node_at (EngineCommon_NodeRowsBook st fe) n) = nx_exits_processed (node_at st n) + 1"
  using assms unfolding EngineCommon_NodeRowsBook_def Let_def by (simp_all add: counts_upd_node trade_counts)

text \<open>Registering a core throws the counts of its node away.  Whatever the boot rebuilt, after the core of
  node \<open>c\<close> is registered its entries and exits read zero while its profit and its open notional keep their
  rebuilt values; the next sell booked on the node makes the number of open positions, entries minus exits in
  32 bits, the largest number there is.\<close>

theorem registration_forgets_counts:
  assumes "el_registered_count st = int c" "c < 16" "length (el_nodes st) = 16" "fe_is_sell fe" "fe_node fe = int c"
  shows "let st' = boot_core cfg c tick_ring bal core st; x = node_at st' c; y = node_at (EngineCommon_NodeRowsBook st' fe) c in
    nx_entries_processed x = 0 \<and> nx_exits_processed x = 0 \<and>
    nx_node_realized x = nx_node_realized (node_at st c) \<and> nx_node_open_notional x = nx_node_open_notional (node_at st c) \<and>
    (ucast (nx_entries_processed y - nx_exits_processed y) :: u32) = - 1"
proof -
  define st' where "st' = boot_core cfg c tick_ring bal core st"
  have len: "length (el_nodes st') = 16" using assms(3)
    by (simp add: st'_def boot_core_def EventLoopState_RegisterCore_def EventLoopState_SetCoreStrategy_def upd_node_def Let_def)
  have x: "nx_entries_processed (node_at st' c) = 0" "nx_exits_processed (node_at st' c) = 0"
    "nx_node_realized (node_at st' c) = nx_node_realized (node_at st c)"
    "nx_node_open_notional (node_at st' c) = nx_node_open_notional (node_at st c)"
    using assms(1-3) by (simp_all add: st'_def boot_core_def EventLoopState_RegisterCore_def EventLoopState_SetCoreStrategy_def
        MAX_EXECUTION_NODES_def upd_node_def node_at_def Let_def)
  have "fe_is_sell fe" "nat (fe_node fe) < length (el_nodes st')" "nat (fe_node fe) = c" using assms(2,4,5) len by simp_all
  note y = sell_counts [OF this(1,2), unfolded this(3)]
  have "(ucast (- 1 :: u64) :: u32) = - 1" by (rule bit_word_eqI) (simp add: bit_simps)
  then show ?thesis using x y by (simp add: st'_def [symmetric] Let_def)
qed

subsection \<open>The paper reset\<close>

lemma reset_node_frame:
  "om_balance (reset_node c st) = om_balance st" "om_realized_pnl (reset_node c st) = om_realized_pnl st"
  "om_ks_peak_balance (reset_node c st) = om_ks_peak_balance st" "om_portfolio (reset_node c st) = om_portfolio st"
  "om_oms_state_flags (reset_node c st) = om_oms_state_flags st" "oms_table (reset_node c st) = oms_table st"
  "om_event_log (reset_node c st) = om_event_log st" "el_agg (reset_node c st) = el_agg st"
  "el_registered_count (reset_node c st) = el_registered_count st" "length (el_nodes (reset_node c st)) = length (el_nodes st)"
  by (simp_all add: reset_node_def NODE_CTX_RESET_AUTOPOPULATE_def upd_node_def oms_table_def Let_def)

lemma reset_nodes_frame:
  "om_balance (fold reset_node cs st) = om_balance st \<and> om_realized_pnl (fold reset_node cs st) = om_realized_pnl st \<and>
   om_ks_peak_balance (fold reset_node cs st) = om_ks_peak_balance st \<and> om_portfolio (fold reset_node cs st) = om_portfolio st \<and>
   om_oms_state_flags (fold reset_node cs st) = om_oms_state_flags st \<and> oms_table (fold reset_node cs st) = oms_table st \<and>
   om_event_log (fold reset_node cs st) = om_event_log st \<and> el_agg (fold reset_node cs st) = el_agg st \<and>
   el_registered_count (fold reset_node cs st) = el_registered_count st \<and> length (el_nodes (fold reset_node cs st)) = length (el_nodes st)"
  by (induction cs arbitrary: st) (simp_all add: reset_node_frame)

definition reset_context :: "NodeContext \<Rightarrow> NodeContext" where
  "reset_context x = (node_flag_clr NODE_STATE_KILL_TRIPPED (node_ctx_reset_value_fields x))
     \<lparr>nx_drift_state_flags := 0, nx_core := map_option (\<lambda>k. k\<lparr>ec_active := 0\<rparr>) (nx_core x)\<rparr>"

lemma reset_node_at:
  "n < length (el_nodes st) \<Longrightarrow> node_at (reset_node c st) n = (if n = c then reset_context (node_at st n) else node_at st n)"
proof -
  assume "n < length (el_nodes st)"
  moreover have "length (el_nodes (upd_node m f s)) = length (el_nodes s)" for m f s by (simp add: upd_node_def)
  ultimately show ?thesis
    unfolding reset_node_def NODE_CTX_RESET_AUTOPOPULATE_def Let_def
    by (simp add: node_upd nodes_frame) (simp add: reset_context_def node_flag_clr_def node_ctx_reset_value_fields_def)
qed

lemma reset_nodes_at:
  assumes "distinct cs" "n < length (el_nodes st)"
  shows "node_at (fold reset_node cs st) n = (if n \<in> set cs then reset_context (node_at st n) else node_at st n)"
  using assms by (induction cs arbitrary: st) (auto simp: reset_node_at reset_node_frame)

text \<open>The state a reset leaves, apart from the log and the counter of resets.\<close>

lemma reset_result:
  assumes "EngineSharded_ExecutePaperReset fuel env wb ab cfg now_us st = Some st'"
  obtains o1 where "o1 = fold reset_node [0..<nat (el_registered_count st)]
      ((OMS_RESET (cc_starting_balance cfg) now_us st)\<lparr>el_total_entries := 0, el_total_exits := 0, el_total_events_processed := 0\<rparr>)"
    "OrderEventLog_RequestTruncate fuel env wb ab (om_event_log st) = Some (om_event_log st')"
    "el_agg st' = (AggregatorState_Seed (el_agg st) (om_portfolio o1))\<lparr>ag_reset_seq := ag_reset_seq (el_agg st) + 1\<rparr>"
    "om_balance st' = om_balance o1" "om_realized_pnl st' = om_realized_pnl o1" "om_ks_peak_balance st' = om_ks_peak_balance o1"
    "om_portfolio st' = om_portfolio o1" "om_oms_state_flags st' = om_oms_state_flags o1" "oms_table st' = oms_table o1"
    "el_nodes st' = el_nodes o1"
proof -
  let ?b = "(OMS_RESET (cc_starting_balance cfg) now_us st)\<lparr>el_total_entries := 0, el_total_exits := 0, el_total_events_processed := 0\<rparr>"
  let ?o = "fold reset_node [0..<nat (el_registered_count st)] ?b"
  have b: "el_registered_count ?b = el_registered_count st" "om_event_log ?b = om_event_log st" "el_agg ?b = el_agg st"
    by (simp_all add: OMS_RESET_def oms_reset_value_fields_def Let_def)
  have t: "oms_table (upd_agg f s) = oms_table s" for f s by (simp add: oms_table_def upd_agg_def)
  have l: "om_event_log (upd_agg f s) = om_event_log s" for f s by (simp add: upd_agg_def)
  obtain l1 where l1: "OrderEventLog_RequestTruncate fuel env wb ab (om_event_log st) = Some l1"
    and st': "st' = upd_agg (\<lambda>a. a\<lparr>ag_reset_seq := ag_reset_seq a + 1\<rparr>)
      ((upd_agg (\<lambda>a. AggregatorState_Seed a (om_portfolio ?o)) ?o)\<lparr>om_event_log := l1\<rparr>)"
    using assms unfolding EngineSharded_ExecutePaperReset_def Let_def l
    by (auto simp only: b reset_nodes_frame l split: option.splits)
  show thesis
    by (rule that [OF refl]) (use l1 in \<open>simp_all add: st' upd_agg_def oms_table_def AggregatorState_Seed_def b reset_nodes_frame\<close>)
qed

lemma reset_context_at:
  assumes "EngineSharded_ExecutePaperReset fuel env wb ab cfg now_us st = Some st'" "length (el_nodes st) = 16"
    and "n < nat (el_registered_count st)" "n < 16"
  shows "node_at st' n = reset_context (node_at st n)" "pf_active_bitmap (om_portfolio st') = 0"
proof -
  obtain o1 where o: "o1 = fold reset_node [0..<nat (el_registered_count st)]
      ((OMS_RESET (cc_starting_balance cfg) now_us st)\<lparr>el_total_entries := 0, el_total_exits := 0, el_total_events_processed := 0\<rparr>)"
    (is "_ = fold _ _ ?b")
    and f: "om_portfolio st' = om_portfolio o1" "el_nodes st' = el_nodes o1"
    using reset_result [OF assms(1)] by metis
  have b: "pf_active_bitmap (om_portfolio ?b) = 0" "el_nodes ?b = el_nodes st"
    by (simp_all add: OMS_RESET_def oms_reset_value_fields_def Portfolio_Init_def Let_def)
  show "node_at st' n = reset_context (node_at st n)"
    using assms(2-4) reset_nodes_at [of "[0..<nat (el_registered_count st)]" n ?b] by (simp add: node_at_def f o b)
  show "pf_active_bitmap (om_portfolio st') = 0" using b(1) by (simp add: f o reset_nodes_frame)
qed


text \<open>A paper reset clears leg A of a core and keeps leg B.  A paired core whose leg B was open goes on with leg B
  open although no position exists any more: until that leg's old levels are hit it enters nothing, and the
  only event its next tick can queue is the exit of that leg.\<close>

theorem reset_keeps_leg_b:
  assumes "EngineSharded_ExecutePaperReset fuel env wb ab cfg now_us st = Some st'" "length (el_nodes st) = 16"
    and "n < nat (el_registered_count st)" "n < 16" "nx_core (node_at st n) = Some k"
    and "core_ok k" "ec_active_b k = 1" "2 \<le> ring_room (ec_event_ring k)"
  shows "\<exists>k'. nx_core (node_at st' n) = Some k' \<and> core_legs k' = (False, True) \<and> pf_active_bitmap (om_portfolio st') = 0 \<and>
    (\<forall>lat tenv tick k''. ExecutionCore_Tick lat tenv tick k' = Some k'' \<longrightarrow>
      (\<exists>evs. ring_items (ec_event_ring k'') = ring_items (ec_event_ring k) @ evs \<and>
        (\<forall>e \<in> set evs. te_type e = TRADE_EVENT_EXIT \<and> te_leg e = PARTIAL_LEG_B)))"
proof -
  let ?k = "k\<lparr>ec_active := 0\<rparr>"
  have k: "nx_core (node_at st' n) = Some ?k" "pf_active_bitmap (om_portfolio st') = 0"
    using reset_context_at [OF assms(1-4)] assms(5) by (simp_all add: reset_context_def)
  have ok: "core_ok ?k" "2 \<le> ring_room (ec_event_ring ?k)" using assms(6,8) by (simp_all add: core_ok_def leg_flag_ok_def)
  have t: "\<exists>evs. ring_items (ec_event_ring k'') = ring_items (ec_event_ring k) @ evs \<and>
      (\<forall>e \<in> set evs. te_type e = TRADE_EVENT_EXIT \<and> te_leg e = PARTIAL_LEG_B)"
    if r: "ExecutionCore_Tick lat tenv tick ?k = Some k''" for lat tenv tick k''
  proof -
    obtain c r stats where c: "refresh_cache tenv ?k = Some c"
      and r: "offered (ec_event_ring ?k) (tick_wants c tick (ti_before_perm tenv (ec_permission ?k))) r"
      and e: "k'' = (tick_result c tick (ti_before_perm tenv (ec_permission ?k)) r)\<lparr>ec_latency_stats := stats\<rparr>"
      by (rule tick_cases [OF ok r])
    have "ec_active c = 0" "ec_active_b c = 1" using refresh_frame [OF c] assms(7) by simp_all
    then have w: "\<forall>e \<in> set (tick_wants c tick p). te_type e = TRADE_EVENT_EXIT \<and> te_leg e = PARTIAL_LEG_B" for p
      by (auto simp: tick_wants_def wanted_def enters_def exits_a_def core_event_def)
    have "ring_items (ec_event_ring k'') = ring_items (ec_event_ring k) @
        take (ring_free (ec_event_ring ?k)) (tick_wants c tick (ti_before_perm tenv (ec_permission ?k)))"
      using offered_items [OF r] ok(1) by (simp add: e tick_result_fields core_ok_def)
    then show ?thesis using w by (meson in_set_takeD)
  qed
  then show ?thesis using k assms(7) by (intro exI [of _ ?k]) (simp add: core_legs_def)
qed

end
