(* ===== verification/Order_Reconcile.thy ===== *)
theory Order_Reconcile
  imports Order_Calls
begin

text \<open>
  Reconciliation with the venue after a disconnect (\<^verbatim>\<open>src/CoreFrameworks/Reconcile.hpp\<close>): replaying the
  trades that were missed, seeding the trade watermark, cancelling stale orders and the decision to
  boot.  The JSON readers and the report text are left out; an order is cancelled through a function
  argument that threads the venue's state.
\<close>

unbundle bit_operations_syntax

subsection \<open>Data\<close>

datatype ReconcileMode = RECONCILE_STRICT | RECONCILE_WARN | RECONCILE_AUTO_SYNC

definition ReconcileMode_ToString :: "ReconcileMode \<Rightarrow> string" where
  "ReconcileMode_ToString m = (case m of RECONCILE_STRICT \<Rightarrow> ''strict'' | RECONCILE_WARN \<Rightarrow> ''warn''
     | RECONCILE_AUTO_SYNC \<Rightarrow> ''auto_sync'')"

definition ReconcileMode_FromString :: "string \<Rightarrow> ReconcileMode option" where
  "ReconcileMode_FromString s =
     (if s = ''strict'' then Some RECONCILE_STRICT else if s = ''warn'' then Some RECONCILE_WARN
      else if s = ''auto_sync'' then Some RECONCILE_AUTO_SYNC else None)"

record ReconcileTrade =
  rt_trade_id :: u64
  rt_order_id :: u64
  rt_price :: f64
  rt_qty :: f64
  rt_commission :: f64
  rt_time_ms :: u64
  rt_is_buyer :: int
  rt_is_maker :: int

record ReconcileOpenOrder =
  ro_order_id :: u64
  ro_symbol :: string
  ro_price :: f64
  ro_orig_qty :: f64
  ro_status :: string
  ro_side :: string
  ro_client_order_id :: string
  ro_is_ours :: int

subsection \<open>Missed fills\<close>

definition match_mask :: "'a oms \<Rightarrow> u64 \<Rightarrow> u16" where
  "match_mask oms order_id =
     fold (\<lambda>s m. m OR push_bit s (of_bool (o_id (order_at oms s) = order_id))) [0..<MAX_INFLIGHT_ORDERS] 0"

definition origin_slot :: "'a oms \<Rightarrow> u64 \<Rightarrow> int" where
  "origin_slot oms order_id =
     (let valid_match = match_mask oms order_id AND om_order_bitmap oms
      in if valid_match \<noteq> 0 then o_portfolio_slot (order_at oms (BITMAP_FIRST valid_match)) else 0)"

text \<open>The order made up for a trade.  The C++ object is not initialised; \<open>stack\<close> is what it held.\<close>

definition synth_order :: "Order \<Rightarrow> PerNodeCfg list option \<Rightarrow> 'a oms \<Rightarrow> ReconcileTrade \<Rightarrow> Order" where
  "synth_order stack nodes oms t =
     (let safe_slot = origin_slot oms (rt_order_id t) AND (int MAX_PORTFOLIO_POSITIONS - 1);
          owner_node = BITMAP_SLOT_NODE (nat safe_slot) (oms_partial_on oms \<noteq> 0);
          node_cfg = (case nodes of Some cs \<Rightarrow> cs ! owner_node | None \<Rightarrow> NULL_PER_NODE_CFG_STUB);
          otype = (if rt_is_buyer t \<noteq> 0 then ORDER_MARKET_BUY else ORDER_MARKET_SELL);
          synth = Order_Init stack (rt_order_id t) safe_slot otype;
          synth = Order_SetIsMaker synth (rt_is_maker t \<noteq> 0);
          synth = Order_BindPreResolved synth node_cfg
      in synth\<lparr>o_requested_qty := Money (money_from_double_payload (rt_qty t)),
               o_event_price := Money (money_from_double_payload (rt_price t))\<rparr>)"

definition replay_trade :: "'a oms_env \<Rightarrow> Order \<Rightarrow> PerNodeCfg list option \<Rightarrow> ReconcileTrade \<Rightarrow> 'a oms \<Rightarrow> 'a oms" where
  "replay_trade env stack nodes t oms =
     OrderManager_HandleFill env oms (synth_order stack nodes oms t)
       (Money (money_from_double_payload (rt_price t))) (Money (money_from_double_payload (rt_qty t))) (F64_Fin 0) []"

definition apply_missed :: "'a oms_env \<Rightarrow> Order \<Rightarrow> PerNodeCfg list option \<Rightarrow> ReconcileTrade \<Rightarrow>
    nat \<times> u64 \<times> 'a oms \<Rightarrow> nat \<times> u64 \<times> 'a oms" where
  "apply_missed env stack nodes t = (\<lambda>(replayed, max_trade_id, oms).
     if rt_trade_id t \<le> om_last_seen_trade_id oms then (replayed, max_trade_id, oms)
     else let oms = replay_trade env stack nodes t oms
          in (replayed + 1, if max_trade_id < rt_trade_id t then rt_trade_id t else max_trade_id, oms))"

definition Reconcile_ApplyMissedFills :: "'a oms_env \<Rightarrow> Order \<Rightarrow> PerNodeCfg list option \<Rightarrow> ReconcileTrade list \<Rightarrow> 'a oms \<Rightarrow> nat \<times> 'a oms" where
  "Reconcile_ApplyMissedFills env stack nodes trades oms =
     (if trades = [] then (0, oms)
      else let (replayed, max_trade_id, oms) = fold (apply_missed env stack nodes) trades (0, om_last_seen_trade_id oms, oms)
           in (replayed, oms\<lparr>om_last_seen_trade_id := max_trade_id\<rparr>))"

definition Reconcile_SeedWatermark :: "'a oms \<Rightarrow> ReconcileTrade list \<Rightarrow> u64 \<times> 'a oms" where
  "Reconcile_SeedWatermark oms trades =
     (let max_trade_id = fold (\<lambda>t m. if m < rt_trade_id t then rt_trade_id t else m) trades (om_last_seen_trade_id oms)
      in (max_trade_id, oms\<lparr>om_last_seen_trade_id := max_trade_id\<rparr>))"

subsection \<open>Stale orders and the decision\<close>

definition cancel_stale :: "(u64 \<Rightarrow> 's \<Rightarrow> bool \<times> 's) \<Rightarrow> ReconcileOpenOrder \<Rightarrow> nat \<times> nat \<times> 's \<Rightarrow> nat \<times> nat \<times> 's" where
  "cancel_stale cancel ord = (\<lambda>(cancelled, failed, s).
     if ro_is_ours ord = 0 then (cancelled, failed, s)
     else let (ok, s) = cancel (ro_order_id ord) s
          in if ok then (cancelled + 1, failed, s) else (cancelled, failed + 1, s))"

definition Reconcile_AutoCancelStale :: "(u64 \<Rightarrow> 's \<Rightarrow> bool \<times> 's) \<Rightarrow> ReconcileOpenOrder list \<Rightarrow> 's \<Rightarrow> nat \<times> 's" where
  "Reconcile_AutoCancelStale cancel orders s =
     (let (cancelled, failed, s) = fold (cancel_stale cancel) orders (0, 0, s) in (cancelled, s))"

record ReconcileResult =
  rr_exchange_usdt :: f64
  rr_exchange_btc :: f64
  rr_open_order_count :: int
  rr_new_trade_count :: int
  rr_refused_boot :: int
  rr_cancel_actions :: int
  rr_fills_to_replay :: int
  rr_has_local_position_no_exchange :: int
  rr_has_exchange_position_no_local :: int

definition Reconcile_Decide :: "f64 \<Rightarrow> f64 \<Rightarrow> ReconcileOpenOrder list \<Rightarrow> ReconcileTrade list \<Rightarrow> int \<Rightarrow> f64 \<Rightarrow> ReconcileResult" where
  "Reconcile_Decide exchange_usdt exchange_btc open_orders trades local_open_position_count dust_threshold_btc =
     (let cancel_actions = fold (\<lambda>ord n. if ro_is_ours ord \<noteq> 0 then n + 1 else n) open_orders 0;
          has_exchange_btc = f64_gt exchange_btc dust_threshold_btc;
          no_local = has_exchange_btc \<and> local_open_position_count = 0
      in \<lparr>rr_exchange_usdt = exchange_usdt, rr_exchange_btc = exchange_btc, rr_open_order_count = int (length open_orders),
          rr_new_trade_count = int (length trades), rr_refused_boot = of_bool no_local, rr_cancel_actions = cancel_actions,
          rr_fills_to_replay = int (length trades),
          rr_has_local_position_no_exchange = of_bool (0 < local_open_position_count \<and> \<not> has_exchange_btc),
          rr_has_exchange_position_no_local = of_bool no_local\<rparr>)"

lemma mode_round_trip: "ReconcileMode_FromString (ReconcileMode_ToString m) = Some m"
  by (cases m) (simp_all add: ReconcileMode_FromString_def ReconcileMode_ToString_def)

text \<open>The target fraction of a made-up order is whatever the uninitialised object held: neither the
  initialisation nor the binding writes it, and a replayed buy computes its take profit from it.\<close>

lemma synth_keeps_stack: "pr_tp_pct (o_pre_resolved (synth_order stack nodes oms t)) = pr_tp_pct (o_pre_resolved stack)"
  by (simp add: synth_order_def Let_def Order_BindPreResolved_def Order_MarkPreResolvedBound_def Order_SetIsMaker_def
      Order_Init_def Order_SetState_def Order_SetType_def)

lemma synth_target:
  "per_fill_tp (synth_order stack nodes oms t) px =
    (if Money_IsZero (pr_tp_pct (o_pre_resolved stack)) then o_intended_tp (synth_order stack nodes oms t)
     else Money_Add px (Money_Mul px (pr_tp_pct (o_pre_resolved stack))))"
  by (simp add: per_fill_tp_def synth_keeps_stack)

subsection \<open>The watermark\<close>

text \<open>The contract of the fill sink that the watermark relies on.\<close>

definition sink_keeps_watermark :: "'a oms_env \<Rightarrow> bool" where
  "sink_keeps_watermark env \<longleftrightarrow> (\<forall>oms fe. om_last_seen_trade_id (env_emit env oms fe) = om_last_seen_trade_id oms)"

lemma funnel_watermark [simp]: "om_last_seen_trade_id (OMS_EventFunnelPush env oms ev s) = om_last_seen_trade_id oms"
proof -
  have "same_but_events oms (OMS_EventFunnelPush env oms ev s)" by (rule funnel_push_same)
  then have "without_events oms = without_events (OMS_EventFunnelPush env oms ev s)" by (simp add: same_but_events_def)
  from arg_cong [OF this, of om_last_seen_trade_id] show ?thesis by (simp add: without_events_def)
qed

lemma handle_fill_watermark:
  assumes "sink_keeps_watermark env"
  shows "om_last_seen_trade_id (OrderManager_HandleFill env oms od px q c a) = om_last_seen_trade_id oms"
proof -
  have e: "om_last_seen_trade_id (emit_fill env o1 od b fl q px fee net n efl) = om_last_seen_trade_id o1" for o1 b fl q fee net n efl
    using assms by (simp add: emit_fill_def Let_def sink_keeps_watermark_def)
  have m: "om_last_seen_trade_id (sell_trade_memory k f r n nt o1) = om_last_seen_trade_id o1"
    "om_last_seen_trade_id (sell_slot_memory k f px x o1) = om_last_seen_trade_id o1" for o1 k f r n nt x
    by (simp_all add: sell_trade_memory_def sell_slot_memory_def Let_def)
  have "om_last_seen_trade_id (handle_buy_fill env o1 od px q fee) = om_last_seen_trade_id o1"
    "om_last_seen_trade_id (handle_sell_fill env o1 od px q fee) = om_last_seen_trade_id o1" for o1 q fee
    by (simp_all add: handle_buy_fill_def handle_sell_fill_def sell_book_eq Let_def e m)
  then show ?thesis by (simp add: OrderManager_HandleFill_def g_fill_dispatch_def Let_def split: OrderType.split)
qed

definition unseen :: "'a oms \<Rightarrow> ReconcileTrade list \<Rightarrow> ReconcileTrade list" where
  "unseen oms trades = filter (\<lambda>t. om_last_seen_trade_id oms < rt_trade_id t) trades"

lemma replay_watermark: "sink_keeps_watermark env \<Longrightarrow> om_last_seen_trade_id (replay_trade env stack nodes t oms) = om_last_seen_trade_id oms"
  by (simp add: replay_trade_def handle_fill_watermark)

lemma apply_missed_fold:
  assumes "sink_keeps_watermark env"
  shows "fold (apply_missed env stack nodes) trades (k, m, oms) =
    (k + length (unseen oms trades), fold (\<lambda>t m. max m (rt_trade_id t)) (unseen oms trades) m,
     fold (replay_trade env stack nodes) (unseen oms trades) oms)"
proof (induction trades arbitrary: k m oms)
  case (Cons t ts)
  have w: "unseen (replay_trade env stack nodes t oms) ts = unseen oms ts"
    by (simp add: unseen_def replay_watermark [OF assms])
  have x: "(if m < rt_trade_id t then rt_trade_id t else m) = max m (rt_trade_id t)" by (auto simp: max_def)
  show ?case
    using Cons.IH by (simp add: apply_missed_def Let_def x w) (auto simp: unseen_def not_less)
qed (simp add: unseen_def)

lemma max_fold_ge: "m \<le> fold (\<lambda>t m. max m (rt_trade_id t)) ts m \<and> (\<forall>t \<in> set ts. rt_trade_id t \<le> fold (\<lambda>t m. max m (rt_trade_id t)) ts m)"
proof (induction ts arbitrary: m)
  case (Cons t ts)
  from Cons.IH [of "max m (rt_trade_id t)"] show ?case by auto
qed simp

text \<open>C17: a missed trade is replayed exactly once.  A reconcile applies each trade above the watermark, in the
  venue's order, through the live fill path, counts exactly those, and raises the watermark above all of
  them; running it again on the same answer of the venue replays nothing and changes nothing, and so
  does running it after the watermark was seeded from that answer.\<close>

theorem missed_fills_replayed_once:
  assumes "sink_keeps_watermark env"
  shows "let (k, oms') = Reconcile_ApplyMissedFills env stack nodes trades oms in
    k = length (unseen oms trades) \<and>
    oms'\<lparr>om_last_seen_trade_id := om_last_seen_trade_id oms\<rparr> = fold (replay_trade env stack nodes) (unseen oms trades) oms \<and>
    (\<forall>t \<in> set trades. rt_trade_id t \<le> om_last_seen_trade_id oms') \<and> om_last_seen_trade_id oms \<le> om_last_seen_trade_id oms' \<and>
    Reconcile_ApplyMissedFills env' stack' nodes' trades oms' = (0, oms') \<and>
    Reconcile_ApplyMissedFills env' stack' nodes' trades (snd (Reconcile_SeedWatermark oms trades)) =
      (0, snd (Reconcile_SeedWatermark oms trades))"
proof -
  have none: "Reconcile_ApplyMissedFills env' stack' nodes' trades o1 = (0, o1)"
    if "\<forall>t \<in> set trades. rt_trade_id t \<le> om_last_seen_trade_id o1" for o1
  proof -
    have "fold (apply_missed env' stack' nodes') ts (0, w, o1) = (0, w, o1)" if "\<forall>t \<in> set ts. rt_trade_id t \<le> om_last_seen_trade_id o1" for ts w
      using that by (induction ts) (simp_all add: apply_missed_def)
    then show ?thesis using that by (simp add: Reconcile_ApplyMissedFills_def)
  qed
  let ?new = "unseen oms trades"
  let ?w = "fold (\<lambda>t m. max m (rt_trade_id t)) ?new (om_last_seen_trade_id oms)"
  let ?o = "fold (replay_trade env stack nodes) ?new oms"
  have a: "Reconcile_ApplyMissedFills env stack nodes trades oms = (length ?new, ?o\<lparr>om_last_seen_trade_id := ?w\<rparr>)"
    by (simp add: Reconcile_ApplyMissedFills_def apply_missed_fold [OF assms] unseen_def)
  have k: "om_last_seen_trade_id (fold (replay_trade env stack nodes) ts o1) = om_last_seen_trade_id o1" for ts o1
    by (induction ts arbitrary: o1) (simp_all add: replay_watermark [OF assms])
  have u: "rt_trade_id t \<le> ?w" if "t \<in> set trades" for t
    using that max_fold_ge [of "om_last_seen_trade_id oms" ?new] by (cases "t \<in> set ?new") (auto simp: unseen_def not_less)
  have m: "(\<lambda>t m. if m < rt_trade_id t then rt_trade_id t else m) = (\<lambda>t m. max m (rt_trade_id t))" by (intro ext) (auto simp: max_def)
  have s: "snd (Reconcile_SeedWatermark oms trades) = oms\<lparr>om_last_seen_trade_id := fold (\<lambda>t m. max m (rt_trade_id t)) trades (om_last_seen_trade_id oms)\<rparr>"
    by (simp add: Reconcile_SeedWatermark_def Let_def m)
  have seeded: "\<forall>t \<in> set trades. rt_trade_id t \<le> om_last_seen_trade_id (snd (Reconcile_SeedWatermark oms trades))"
    unfolding s using max_fold_ge [of "om_last_seen_trade_id oms" trades] by simp
  show ?thesis
    unfolding a Let_def split_conv
    using u max_fold_ge [of "om_last_seen_trade_id oms" ?new] k
    by (intro conjI none seeded) (simp_all add: k [symmetric])
qed

end
