(* ===== verification/Engine_Witness.thy ===== *)
theory Engine_Witness
  imports Engine_Reconcile Order_Reconcile Order_Witness Execution_Runs
begin

text \<open>A concrete engine and the instances of the engine's properties on it.\<close>

unbundle bit_operations_syntax

definition ring_of :: "nat \<Rightarrow> 'a \<Rightarrow> 'a spsc_ring" where
  "ring_of n x = \<lparr>rg_head = 0, rg_cached_tail = 0, rg_tail = 0, rg_cached_head = 0, rg_slots = replicate n x\<rparr>"

definition demo_fill :: FillEvent where
  "demo_fill = \<lparr>fe_slot = 3, fe_node = 3, fe_is_sell = True, fe_order_complete = True, fe_is_maker = False, fe_slot_flat = True,
     fe_seq = 1, fe_qty = Money 100, fe_price = Money 100, fe_fee = Money 1, fe_net = Money 5, fe_notional = Money 100,
     fe_entry_fee_leg = Money 1, fe_venue_fee_reserved = Money 0\<rparr>"

definition demo_node :: NodeContext where
  "demo_node = \<lparr>nx_core = None, nx_strategy_id = 0, nx_resolved_strategy_id = 0, nx_node_state_flags = 0,
     nx_pending_params = gate_zero, nx_intended_tp = Money 700, nx_intended_sl = Money 300, nx_intended_qty = Money 301,
     nx_allocated_balance = Money 1000, nx_staged_prediction = F64_Fin 0, nx_active_prediction = F64_Fin 0,
     nx_entries_processed = 0, nx_exits_processed = 0, nx_last_entry_price = Money 0, nx_last_entry_tick = 0,
     nx_last_entry_wall_us = 0, nx_node_realized = Money 0, nx_node_fees = Money 0, nx_node_wins = 0, nx_node_losses = 0,
     nx_partner_pending_pnl = Money 0, nx_node_gross_wins = Money 0, nx_node_gross_losses = Money 0,
     nx_node_open_notional = Money 0, nx_node_peak_balance = Money 0, nx_node_dd_pct = Money 0,
     nx_node_unrealized_view = Money 0, nx_node_ks_trips_total = 0, nx_drift_state_flags = 0\<rparr>"

definition demo_snapshot :: MoneySnapshot where
  "demo_snapshot = \<lparr>ms_generation = 0, ms_kill_word_copy = 0, ms_balance = Money 0, ms_realized = Money 0, ms_ks_peak = Money 0,
     ms_rows = [], ms_expected_free = Money 0, ms_total_fees = Money 0, ms_total_maker_fees = Money 0, ms_total_taker_fees = Money 0\<rparr>"

definition demo_agg :: "u32 \<Rightarrow> FillEvent spsc_ring list \<Rightarrow> AggregatorState" where
  "demo_agg req rings = \<lparr>ag_kill_word = 0, ag_generation = 0, ag_kill_reset_mask = 0, ag_save_request = 0,
     ag_fill_ring_full_events = 0, ag_reset_request = 0, ag_reset_seq = 0, ag_kill_trip_request = req, ag_kill_trip_fatal_seq = 0,
     ag_composer_tid = 0, ag_composer_identity_violations = 0, ag_composer_stop_request = 0, ag_applied_seq = replicate 16 0,
     ag_publish = \<lparr>ps_buffers = [demo_snapshot, demo_snapshot], ps_seq = 0, ps_publish_ticks = [0, 0]\<rparr>,
     ag_fill_rings = rings, ag_drag_ring = ring_of 8 \<lparr>dc_slot = 0, dc_is_tp = False, dc_price = Money 0\<rparr>,
     ag_slot_notional = replicate 16 (Money 0), ag_pending_trade_net = replicate 16 (Money 0)\<rparr>"

definition demo_engine :: "u32 \<Rightarrow> FillEvent spsc_ring list \<Rightarrow> EngineState" where
  "demo_engine req rings = OrderManagerState.extend demo_oms
     (EngineState.fields ((replicate 16 demo_node)[0 := demo_node\<lparr>nx_core := Some (demo_core 2)\<rparr>]) 1 0 0 0 0 (demo_agg req rings) 0 1000000)"

definition demo_rings :: "FillEvent spsc_ring list" where
  "demo_rings = (replicate 16 (ring_of 128 demo_fill))[3 := snd (SPSCRing_TryPush (ring_of 128 demo_fill) demo_fill)]"

definition demo_eenv :: "(unit EngineState_ext) oms_env" where
  "demo_eenv = \<lparr>env_now_us = 7, env_clock = None, env_submit_buy = None, env_submit_sell = None,
     env_append = (\<lambda>l e. l), env_emit = (\<lambda>oms fe. oms)\<rparr>"

definition demo_cfg :: ControllerConfig where
  "demo_cfg = \<lparr>cc_nodes = replicate 16 \<lparr>nc_fee_rate_maker = Money 0, nc_fee_rate_taker = Money 0, nc_slippage_pct = Money 0,
       nc_max_drawdown_pct = Money 0, nc_partial_exit_pct = Money 50000000, nc_tp2_mult = Money 200000000,
       nc_take_profit_pct = Money 0, nc_simpledip_tp_pct = Money 0, nc_mr_tp_pct = Money 0,
       nc_max_hold_ticks = 1000, nc_fee_rate = Money 100000\<rparr>,
     cc_node_overrides = replicate 16 \<lparr>ov_partial_exit_pct = Money 0, ov_tp2_mult = Money 0\<rparr>,
     cc_max_drawdown_pct = Money 10000000, cc_min_kill_loss = Money 5, cc_mtm_kill_switch_enabled = True, cc_pay_fees_in_bnb = False,
     cc_node_time_exit_ticks = replicate 16 0, cc_min_hold_gain_pct = Money 100000, cc_lazy_rebuild_enabled = False,
     cc_ws_dead_time_flatten_enabled = True, cc_breakeven_on_profit = True, cc_ws_dead_time_flatten_threshold_secs = 60,
     cc_recovery_delay_secs = 30, cc_min_warmup_samples = 0, cc_kill_switch_enabled = True,
     cc_kill_switch_drawdown_pct = Money 20000000, cc_starting_balance = Money 1000000000000, cc_node_strategies = replicate 16 2\<rparr>"

lemma demo_engine_fields [simp]:
  "om_orders (demo_engine r rs) = replicate 16 demo_order" "om_order_bitmap (demo_engine r rs) = 0"
  "om_oms_state_flags (demo_engine r rs) = 0" "om_submit_queues (demo_engine r rs) = replicate 16 (empty_ring demo_buy)"
  "om_realized_pnl (demo_engine r rs) = Money 0" "el_registered_count (demo_engine r rs) = 1"
  "el_nodes (demo_engine r rs) = (replicate 16 demo_node)[0 := demo_node\<lparr>nx_core := Some (demo_core 2)\<rparr>]"
  "el_agg (demo_engine r rs) = demo_agg r rs"
  by (simp_all add: demo_engine_def OrderManagerState.extend_def EngineState.fields_def demo_oms_def)

lemma ring_of_ok:
  assumes "n = 2 ^ k" "1 \<le> k" "k < 64"
  shows "ring_ok (ring_of n x)" "ring_items (ring_of n x) = []" "ring_room (ring_of n x) = 2 ^ 64 - 1" "ring_N (ring_of n x) = n"
  using assms by (auto simp: ring_of_def ring_ok_def ring_items_def ring_room_def ring_N_def ring_geom_def)

lemmas ring_128 = ring_of_ok [where n = 128 and k = 7, simplified]

lemma pushed_128:
  "ring_ok (snd (SPSCRing_TryPush (ring_of 128 x) y))" "ring_items (snd (SPSCRing_TryPush (ring_of 128 x) y)) = [y]"
  "0 < ring_room (snd (SPSCRing_TryPush (ring_of 128 x) y))" "ring_N (snd (SPSCRing_TryPush (ring_of 128 x) y)) = 128"
proof -
  obtain b r where p: "SPSCRing_TryPush (ring_of 128 x) y = (b, r)" by fastforce
  show "ring_ok (snd (SPSCRing_TryPush (ring_of 128 x) y))" "ring_items (snd (SPSCRing_TryPush (ring_of 128 x) y)) = [y]"
    "0 < ring_room (snd (SPSCRing_TryPush (ring_of 128 x) y))" "ring_N (snd (SPSCRing_TryPush (ring_of 128 x) y)) = 128"
    using ring.push_law [OF ring_128(1) _ p] ring_128(2-4) [of x] by (auto simp: p)
qed

lemma demo_rings_at: "n < 16 \<Longrightarrow> demo_rings ! n = (if n = 3 then snd (SPSCRing_TryPush (ring_of 128 demo_fill) demo_fill) else ring_of 128 demo_fill)"
  by (simp add: demo_rings_def nth_list_update)

lemma demo_rings_ok: "rings_ok (demo_engine r demo_rings)" "rings_of (demo_engine r demo_rings) = demo_rings"
  by (auto simp: rings_ok_def rings_of_def demo_agg_def demo_rings_at pushed_128 ring_128 MAX_EXECUTION_NODES_def demo_rings_def nth_list_update)

lemma demo_items: "n < 16 \<Longrightarrow> ring_items (demo_rings ! n) = (if n = 3 then [demo_fill] else [])"
  by (simp add: demo_rings_at pushed_128 ring_128)

lemma upt_16: "[0..<16] = [0, 1, 2, 3, 4, 5, 6, 7, 8, 9, 10, 11, 12, 13, 14, 15 :: nat]"
  by code_simp

lemma demo_queued_sum: "sum_list (map (\<lambda>n. f (ring_items (demo_rings ! n))) [0..<16]) = f [demo_fill] + 15 * (f [] :: nat)"
  by (simp add: upt_16 demo_items)

lemma EngineCommon_FillRingsApply_spec_witness: "fst (EngineCommon_FillRingsApply demo_eenv (demo_engine 0 demo_rings)) = 1"
  using EngineCommon_FillRingsApply_spec [OF demo_rings_ok(1) [of 0], of demo_eenv] demo_queued_sum [of length]
  by (auto simp: demo_rings_ok(2) MAX_EXECUTION_NODES_def)

lemma EngineCommon_FillEmit_keeps_witness:
  "\<exists>r. ring_items r = [demo_fill, demo_fill] \<and>
     snd (EngineCommon_FillEmit demo_eenv (demo_engine 0 demo_rings) demo_fill) = set_rings (demo_rings[3 := r]) (demo_engine 0 demo_rings)"
  using EngineCommon_FillEmit_keeps [OF demo_rings_ok(1) [of 0], of demo_fill 3 demo_eenv]
  by (simp add: demo_rings_ok(2) demo_rings_at pushed_128 demo_fill_def MAX_EXECUTION_NODES_def)

lemma demo_realized: "n < 16 \<Longrightarrow> nx_node_realized (node_at (demo_engine r rs) n) = Money 0"
  by (simp add: node_at_def nth_list_update demo_node_def)

lemma demo_books_room: "realized_room 5 (demo_engine 0 demo_rings)"
  by (simp add: realized_room_def MAX_EXECUTION_NODES_def demo_realized money_lim_def)

lemma node_rows_follow_account_witness:
  "nodes_realized (snd (EngineCommon_FillRingsApply demo_eenv (demo_engine 0 demo_rings))) =
     mint (om_realized_pnl (snd (EngineCommon_FillRingsApply demo_eenv (demo_engine 0 demo_rings))))"
proof -
  have v: "sum_list (map (\<lambda>n. volume (ring_items (demo_rings ! n))) [0..<16]) = 5"
    by (simp add: upt_16 demo_items volume_def demo_fill_def)
  have w: "fill_well_formed demo_fill" by (simp add: fill_well_formed_def demo_fill_def MAX_EXECUTION_NODES_def money_closed_def money_lim_def)
  have n: "nodes_realized (demo_engine 0 demo_rings) = 0"
    unfolding nodes_realized_def by (rule sum.neutral) (simp add: demo_realized MAX_EXECUTION_NODES_def)
  show ?thesis
    using node_rows_follow_account [OF demo_rings_ok(1) [of 0], of demo_eenv] demo_books_room w n
    by (simp add: demo_rings_ok(2) MAX_EXECUTION_NODES_def v demo_items)
qed

subsection \<open>Composes\<close>

lemma demo_pslot: "pslot_ok (ag_publish (el_agg (demo_engine r rs)))"
  by (simp add: demo_agg_def pslot_ok_def)

lemma compose_publishes_state_witness:
  "\<exists>pack. ParameterSlot_Read (ag_publish (el_agg
      (EngineCommon_ComposeAndKillEval demo_eenv 1 demo_cfg (Money 100) 9 (demo_engine 0 demo_rings)))) = Some (pack, 9) \<and>
    ms_generation pack = 1"
  using compose_publishes_state [OF demo_pslot [of 0 demo_rings], of demo_eenv 1 demo_cfg "Money 100" 9]
  by (auto simp: Let_def demo_agg_def)

lemma demo_shape: "engine_shape (demo_engine r demo_rings)"
proof -
  have "map ring_N demo_rings = replicate 16 FILL_EVENT_RING_SIZE"
    by (rule nth_equalityI) (auto simp: demo_rings_def nth_list_update pushed_128 ring_128 FILL_EVENT_RING_SIZE_def)
  then show ?thesis
    using ring_of_ok(4) [of 8 3 "\<lparr>dc_slot = 0, dc_is_tp = False, dc_price = Money 0\<rparr>"] demo_pslot
    by (simp add: engine_shape_def MAX_EXECUTION_NODES_def MAX_PORTFOLIO_POSITIONS_def demo_agg_def)
qed

text \<open>A fatal request, the compose that serves it, and a later request to reset and a parameter push.\<close>

definition demo_fatal :: EngineState where
  "demo_fatal = EngineCommon_ComposeAndKillEval demo_eenv 1 demo_cfg (Money 100) 9 (demo_engine (KILL_TRIP_LANE_GLOBAL 0) demo_rings)"

definition demo_later :: EngineState where
  "demo_later = snd (EventLoop_PushParameters (upd_agg (post_request (Req_Reset 1)) demo_fatal) 10)"

lemma demo_fatal_run: "engine_run demo_fatal demo_later"
  unfolding demo_later_def by (rule run_step [OF run_step [OF run_refl call_request] call_push])


lemma demo_later_registered: "el_registered_count demo_later = 1"
proof -
  have "el_registered_count demo_fatal = 1"
    using dims_compose [of demo_eenv 1 demo_cfg "Money 100" 9 "demo_engine (KILL_TRIP_LANE_GLOBAL 0) demo_rings", folded demo_fatal_def]
    by (simp add: engine_dims_def)
  then have "el_registered_count (upd_agg (post_request (Req_Reset 1)) demo_fatal) = 1" by (simp add: upd_agg_def)
  then show ?thesis
    using dims_core [OF core_of_outer [OF outer_push_parameters [of "upd_agg (post_request (Req_Reset 1)) demo_fatal" 10]]]
    by (simp add: engine_dims_def demo_later_def)
qed



subsection \<open>Entries and the table\<close>

definition demo_pair :: EngineState where
  "demo_pair = (demo_engine 0 demo_rings)\<lparr>om_oms_state_flags := MASK_OMS_STATE_PARTIAL_EXIT_ENABLED\<rparr>"

definition demo_entry :: "u8 \<Rightarrow> TradeEvent" where
  "demo_entry leg = \<lparr>te_price = Money 500, te_timestamp = 0, te_node_id = 0, te_type = TRADE_EVENT_ENTRY, te_leg = leg\<rparr>"

definition demo_drained :: EngineState where
  "demo_drained = snd (drain_event 1 2 demo_cfg 0 (demo_entry PARTIAL_LEG_B) (drain_event 1 2 demo_cfg 0 (demo_entry PARTIAL_LEG_A) (0, demo_pair)))"

lemma entry_pair_splits_exactly_witness:
  "\<exists>ca cb. queued demo_drained 0 = (if 0 < mint (sc_qty ca) then [ca] else []) \<and>
     queued demo_drained 1 = (if 0 < mint (sc_qty cb) then [cb] else []) \<and> mint (sc_qty ca) + mint (sc_qty cb) = 301"
proof -
  have on: "oms_partial_on demo_pair \<noteq> 0"
    by (simp add: oms_partial_on_def demo_pair_def BITMAP_IS_SET_def MASK_OMS_STATE_PARTIAL_EXIT_ENABLED_def BITMAP_BIT_def)
  have q: "nx_intended_qty (node_at demo_pair 0) = Money 301" by (simp add: demo_pair_def node_at_def demo_node_def)
  have p: "partial_pct_of demo_cfg 0 = Money 50000000" by (simp add: partial_pct_of_def demo_cfg_def)
  have f: "queue_free demo_pair s" "queued demo_pair s = []" if "s < 16" for s
    using that empty_ring_ok [of demo_buy] by (simp_all add: queue_free_def queued_def demo_pair_def) (simp add: empty_ring_def ring_N_def)
  have t: "te_type (demo_entry l) AND TRADE_EVENT_ENTRY \<noteq> 0" "te_type (demo_entry l) AND TRADE_EVENT_EXIT = 0" "te_leg (demo_entry l) = l" for l
    by (simp_all add: demo_entry_def TRADE_EVENT_ENTRY_def TRADE_EVENT_EXIT_def)
  have "0 \<le> mint (nx_intended_qty (node_at demo_pair 0))" "money_closed (nx_intended_qty (node_at demo_pair 0))"
    "0 \<le> mint (partial_pct_of demo_cfg 0)" "mint (partial_pct_of demo_cfg 0) \<le> 100000000"
    by (simp_all add: q p money_closed_def money_lim_def)
  moreover have "queue_free demo_pair (2 * 0)" "queue_free demo_pair (2 * 0 + 1)" by (simp_all add: f)
  ultimately obtain ca cb where
    "queued demo_drained (2 * 0) = queued demo_pair (2 * 0) @ (if 0 < mint (sc_qty ca) then [ca] else [])"
    "queued demo_drained (2 * 0 + 1) = queued demo_pair (2 * 0 + 1) @ (if 0 < mint (sc_qty cb) then [cb] else [])"
    "mint (sc_qty ca) + mint (sc_qty cb) = mint (nx_intended_qty (node_at demo_pair 0))"
    using entry_pair_splits_exactly [OF zero_less_numeral on t(1,2,3) t(1,2,3), of demo_cfg 1 2 0] unfolding Let_def demo_drained_def [symmetric] by blast
  then show ?thesis by (intro exI [of _ ca] exI [of _ cb]) (simp add: f q)
qed

definition demo_entered :: EngineState where
  "demo_entered = snd (OrderManager_Submit (wired demo_eenv) (demo_engine 0 demo_rings) demo_buy)"

lemma engine_table_invariant_witness:
  "bit (om_order_bitmap demo_entered) 0 \<and> OMS_OrderIdSlot (o_id (om_orders
     (EngineCommon_ComposeAndKillEval demo_eenv 1 demo_cfg (Money 100) 9 demo_entered) ! 0)) = 0"
proof -
  have n: "om_order_bitmap (demo_engine 0 demo_rings) \<noteq> - 1" by simp
  have f: "free_order_slot (demo_engine 0 demo_rings) = 0"
    using free_slot(3) [OF not_full [OF n], folded free_order_slot_def, of 0] by auto
  have a: "submit_accepts (wired demo_eenv) (demo_engine 0 demo_rings) demo_buy 0"
    by (simp add: submit_accepts_def oms_live_def BITMAP_IS_SET_def)
  have b: "om_order_bitmap demo_entered = BITMAP_BIT 0"
    using submit_table(1) [OF n, of "wired demo_eenv" demo_buy] a
    by (simp add: f demo_entered_def oms_table_def BITMAP_SET_def)
  let ?c = "EngineCommon_ComposeAndKillEval demo_eenv 1 demo_cfg (Money 100) 9 demo_entered"
  have s: "engine_step (demo_engine 0 demo_rings) demo_entered"
    unfolding demo_entered_def
    by (rule es_oms [of demo_eenv]) (rule step_submit, simp add: wired_def, rule demo_buy_ok)
  have r: "engine_reach (demo_engine 0 demo_rings) ?c" by (intro er_step [OF er_step [OF er_refl s]] es_compose)
  have "om_order_bitmap ?c = om_order_bitmap demo_entered" using table_compose by (simp add: oms_table_def)
  then show ?thesis using engine_table_invariant [OF r] b demo_bit by (simp add: MAX_INFLIGHT_ORDERS_def)
qed

subsection \<open>Exits\<close>

definition demo_position :: Position where
  "demo_position = \<lparr>p_take_profit_price = Money 11000000000, p_stop_loss_price = Money 9000000000, p_quantity = Money 301,
     p_entry_price = Money 10000000000, p_entry_fee = Money 1, p_original_tp = Money 11000000000,
     p_original_sl = Money 9000000000, p_entry_timestamp_us = 1, p_pair_index = 0xFF\<rparr>"

definition demo_open :: EngineState where
  "demo_open = (demo_engine 0 demo_rings)\<lparr>om_portfolio := \<lparr>pf_active_bitmap = BITMAP_BIT 3, pf_positions = replicate 16 demo_position\<rparr>\<rparr>"

lemma demo_open_queues: "queues_ready demo_open" "s < 16 \<Longrightarrow> \<not> queue_full demo_open s" "s < 16 \<Longrightarrow> queued demo_open s = []"
  using empty_ring_ok [of demo_buy]
  by (simp_all add: queues_ready_def queue_full_def queued_def demo_open_def) (simp_all add: empty_ring_def ring_N_def)

lemma flatten_queues_every_position_witness:
  "let (k, st') = EventLoop_FlattenAll (cc_nodes demo_cfg) (F64_Fin 500) demo_open in
    k = 1 \<and> map sc_qty (queued st' 3) = [Money 301] \<and> queued st' 4 = []"
proof -
  have bm: "pf_active_bitmap (om_portfolio demo_open) = BITMAP_BIT 3" by (simp add: demo_open_def)
  have q: "p_quantity (position_at demo_open 3) = Money 301" by (simp add: demo_open_def position_at_def demo_position_def)
  obtain k st' where e: "EventLoop_FlattenAll (cc_nodes demo_cfg) (F64_Fin 500) demo_open = (k, st')" by fastforce
  note f = flatten_queues_every_position [OF demo_open_queues(1), of "cc_nodes demo_cfg" "F64_Fin 500", unfolded e bm Let_def split_conv]
  have "{s. bit (BITMAP_BIT 3 :: u16) s \<and> \<not> queue_full demo_open s} = {3}" using demo_open_queues(2) by (auto simp: bit_BITMAP_BIT)
  then have "k = 1" using f by simp
  moreover have "\<exists>c. queued st' 3 = [c] \<and> sc_qty c = Money 301" "queued st' 4 = []"
    using conjunct2 [OF conjunct2 [OF f], rule_format, of 3] conjunct2 [OF conjunct2 [OF f], rule_format, of 4]
    by (auto simp: demo_open_queues bit_BITMAP_BIT q)
  ultimately show ?thesis by (auto simp: e)
qed

lemma staleness_fires_once_witness:
  "let (k, c) = EventLoop_CheckWsStaleness demo_cfg (F64_Fin 500) 120000000
      (snd (EventLoop_CheckWsStaleness demo_cfg (F64_Fin 500) 100000000 demo_open)) in k = 0"
proof -
  have c: "cc_ws_dead_time_flatten_enabled demo_cfg" by (simp add: demo_cfg_def)
  have l: "el_ws_last_tick_us demo_open = 1000000" "om_flatten_pending demo_open = 0"
    by (simp_all add: demo_open_def demo_engine_def OrderManagerState.extend_def EngineState.fields_def demo_oms_def)
  have g: "word_of_int (cc_ws_dead_time_flatten_threshold_secs demo_cfg) * 1000000 \<le> ws_gap demo_open 100000000"
    by (simp add: ws_gap_def l demo_cfg_def)
  show ?thesis
    using staleness_fires_once [OF c _ g l(2) window_refl, of "F64_Fin 500" demo_cfg "F64_Fin 500" 120000000] l(1)
    by (auto simp: Let_def)
qed

lemma breakeven_ratchet_spec_witness:
  "node_ratchet demo_open 3 \<le> node_ratchet (EventLoop_BreakevenOnProfitOneCore demo_cfg (F64_Fin 110) 3 demo_open) 3"
proof -
  have "3 < length (el_nodes demo_open)" "(3 :: nat) < 16" by (simp_all add: demo_open_def)
  from breakeven_ratchet_spec [OF this, of demo_cfg "F64_Fin 110"] show ?thesis unfolding Let_def by blast
qed

subsection \<open>The phased drain\<close>

definition demo_ws_fill :: Command where
  "demo_ws_fill = demo_cmd\<lparr>cm_type := CMD_WS_FILL\<rparr>"

definition demo_answered :: OrderManagerState where
  "demo_answered = demo_oms\<lparr>om_ws_result_queue := snd (SPSCRing_TryPush (empty_ring demo_cmd) demo_ws_fill)\<rparr>"

lemma phased_drain_sorts_witness:
  "\<exists>oms' bk. OrderManager_DrainIntoBuckets 5 demo_answered \<lparr>bk_close = [], bk_open = [], bk_reconcile = []\<rparr> = Some (oms', bk) \<and>
    length (bk_close bk) + length (bk_open bk) = 1 \<and> ring_items (om_ws_result_queue oms') = []"
proof -
  obtain ok r where p: "SPSCRing_TryPush (empty_ring demo_cmd) demo_ws_fill = (ok, r)" by fastforce
  have "0 < ring_room (empty_ring demo_cmd)" by (simp add: empty_ring_ok)
  moreover have "ring_N (empty_ring demo_cmd) = 2" by (simp add: empty_ring_def ring_N_def)
  ultimately have r: "ring_ok r" "ring_items r = [demo_ws_fill]"
    using ring.push_law [OF empty_ring_ok(1) _ p] by (auto simp: empty_ring_ok)
  have q: "om_ws_result_queue demo_answered = r" "om_result_rings demo_answered = replicate 16 (empty_ring demo_cmd)"
    "om_reconcile_queue demo_answered = empty_ring demo_cmd" by (simp_all add: demo_answered_def demo_queues p)
  have a: "all_items (replicate 16 (empty_ring demo_cmd)) = []" by (simp add: all_items_def empty_ring_ok)
  have t: "ws_fills [demo_ws_fill] = [demo_ws_fill]" by (simp add: ws_fills_def demo_ws_fill_def CMD_WS_FILL_def)
  have f: "rest_fills (all_items (om_result_rings demo_answered)) @ ws_fills (ring_items (om_ws_result_queue demo_answered)) = [demo_ws_fill]"
    unfolding q r(2) a t by (simp add: rest_fills_def)
  obtain oms' bk where "OrderManager_DrainIntoBuckets 5 demo_answered \<lparr>bk_close = [], bk_open = [], bk_reconcile = []\<rparr> = Some (oms', bk)"
    "length [demo_ws_fill] \<le> 256 \<longrightarrow> length (bk_close bk) + length (bk_open bk) = length [demo_ws_fill]"
    "ring_items (om_ws_result_queue oms') = []"
    using phased_drain_sorts [of demo_answered 5 "\<lparr>bk_close = [], bk_open = [], bk_reconcile = []\<rparr>", unfolded f]
    by (simp add: q a r empty_ring_ok MAX_EXECUTION_NODES_def) blast
  then show ?thesis by auto
qed

subsection \<open>Reconciliation\<close>

definition demo_trade :: "u64 \<Rightarrow> ReconcileTrade" where
  "demo_trade i = \<lparr>rt_trade_id = i, rt_order_id = 9, rt_price = F64_Fin 100, rt_qty = F64_Fin 1, rt_commission = F64_Fin 0,
     rt_time_ms = 0, rt_is_buyer = 1, rt_is_maker = 0\<rparr>"

definition demo_seen :: OrderManagerState where
  "demo_seen = demo_oms\<lparr>om_last_seen_trade_id := 5\<rparr>"

lemma missed_fills_replayed_once_witness:
  "let (k, oms') = Reconcile_ApplyMissedFills Order_Witness.demo_env demo_order None [demo_trade 6, demo_trade 5] demo_seen in
    k = 1 \<and> Reconcile_ApplyMissedFills Order_Witness.demo_env demo_order None [demo_trade 6, demo_trade 5] oms' = (0, oms')"
proof -
  have s: "sink_keeps_watermark Order_Witness.demo_env"
    using Order_Witness.demo_env_ok by (simp add: sink_keeps_watermark_def direct_env_def OrderManager_FillEmitDirect_def
        OrderManager_LedgerApplyFill_def OrderManager_AccountMakerTakerFee_def Let_def)
  have u: "unseen demo_seen [demo_trade 6, demo_trade 5] = [demo_trade 6]" by (simp add: unseen_def demo_seen_def demo_trade_def)
  obtain k oms' where e: "Reconcile_ApplyMissedFills Order_Witness.demo_env demo_order None [demo_trade 6, demo_trade 5] demo_seen = (k, oms')" by fastforce
  show ?thesis
    using missed_fills_replayed_once [OF s, of demo_order None "[demo_trade 6, demo_trade 5]" demo_seen Order_Witness.demo_env demo_order None] by (simp add: e u)
qed

lemma reconciler_reports_drift_witness:
  "\<exists>k s' c. ReconciliationLoop_Pass (Some (F64_Fin 1000, F64_Fin 0)) (\<lambda>_ _ _. []) (ReconciliationLoop_Init (F64_Fin 0))
      (EngineCommon_ComposeAndKillEval demo_eenv 1 demo_cfg (Money 100) 9 (demo_engine 0 demo_rings)) = Some (k, s', c) \<and>
    length (ring_items (om_reconcile_queue c)) \<le> 1"
proof -
  let ?e = "demo_engine 0 demo_rings"
  have q: "om_reconcile_queue ?e = empty_ring demo_cmd"
    by (simp add: demo_engine_def OrderManagerState.extend_def EngineState.fields_def demo_queues)
  have "ag_generation (el_agg ?e) + 1 \<noteq> 0" by (simp add: demo_agg_def)
  moreover have "ring_ok (om_reconcile_queue ?e)" "0 < ring_room (om_reconcile_queue ?e)" by (simp_all add: q empty_ring_ok)
  moreover have "length (ring_items (om_reconcile_queue ?e)) < ring_N (om_reconcile_queue ?e)" "ring_items (om_reconcile_queue ?e) = []"
    by (simp_all add: q empty_ring_ok) (simp add: empty_ring_def ring_N_def)
  ultimately show ?thesis
    using reconciler_reports_drift [where st = ?e and env = demo_eenv and self = 1 and cfg = demo_cfg and px = "Money 100" and pt = 9
        and usdt = "F64_Fin 1000" and btc = "F64_Fin 0" and fmt = "\<lambda>_ _ _. []" and s = "ReconciliationLoop_Init (F64_Fin 0)",
        OF demo_pslot [of 0 demo_rings]] by auto
qed

end
