(* ===== verification/Engine_Demos.thy ===== *)
theory Engine_Demos
  imports Engine_Manual Engine_Reset Engine_Witness
begin

text \<open>Boot, registration, reset and manual closes on the concrete engine.\<close>

unbundle bit_operations_syntax

subsection \<open>Registration and reset\<close>

lemma registration_forgets_counts_witness:
  "nx_entries_processed (node_at (boot_core demo_cfg 1 0 (Money 0) (demo_core 2) (demo_engine 0 demo_rings)) 1) = 0"
  using registration_forgets_counts [of "demo_engine 0 demo_rings" 1 "demo_fill\<lparr>fe_node := 1\<rparr>" demo_cfg 0 "Money 0" "demo_core 2"]
  by (simp add: demo_fill_def Let_def)

definition demo_paired :: EngineState where
  "demo_paired = (demo_engine 0 demo_rings)\<lparr>el_nodes := (replicate 16 demo_node)[0 := demo_node\<lparr>nx_core :=
     Some ((demo_core 2)\<lparr>ec_active_b := 1\<rparr>), nx_node_realized := Money 77\<rparr>], om_event_log := (om_event_log demo_oms)\<lparr>el_allocated := False\<rparr>\<rparr>"

lemma demo_paired_fields:
  "length (el_nodes demo_paired) = 16" "el_registered_count demo_paired = 1"
  "node_at demo_paired 0 = demo_node\<lparr>nx_core := Some ((demo_core 2)\<lparr>ec_active_b := 1\<rparr>), nx_node_realized := Money 77\<rparr>"
  "\<not> el_allocated (om_event_log demo_paired)"
  by (simp_all add: demo_paired_def node_at_def)

lemma demo_reset_returns: "\<exists>st'. EngineSharded_ExecutePaperReset 1 (\<lambda>_ l. l) True True demo_cfg 9 demo_paired = Some st'"
proof -
  let ?b = "(OMS_RESET (cc_starting_balance demo_cfg) 9 demo_paired)\<lparr>el_total_entries := 0, el_total_exits := 0, el_total_events_processed := 0\<rparr>"
  have "om_event_log ?b = om_event_log demo_paired" "el_registered_count ?b = el_registered_count demo_paired"
    by (simp_all add: OMS_RESET_def oms_reset_value_fields_def Let_def)
  then show ?thesis
    by (simp add: EngineSharded_ExecutePaperReset_def Let_def upd_agg_def reset_nodes_frame OrderEventLog_RequestTruncate_def demo_paired_fields)
qed


lemma reset_keeps_leg_b_witness:
  "\<exists>st' k. EngineSharded_ExecutePaperReset 1 (\<lambda>_ l. l) True True demo_cfg 9 demo_paired = Some st' \<and>
     nx_core (node_at st' 0) = Some k \<and> core_legs k = (False, True) \<and> pf_active_bitmap (om_portfolio st') = 0"
proof -
  obtain st' where r: "EngineSharded_ExecutePaperReset 1 (\<lambda>_ l. l) True True demo_cfg 9 demo_paired = Some st'" using demo_reset_returns by blast
  have "core_ok ((demo_core 2)\<lparr>ec_active_b := 1\<rparr>)" "2 \<le> ring_room (ec_event_ring ((demo_core 2)\<lparr>ec_active_b := 1\<rparr>))"
    using demo_core2_ok(1,2) by (simp_all add: core_ok_def leg_flag_ok_def)
  then have "\<exists>k'. nx_core (node_at st' 0) = Some k' \<and> core_legs k' = (False, True) \<and> pf_active_bitmap (om_portfolio st') = 0"
    using reset_keeps_leg_b [OF r demo_paired_fields(1), of 0 "(demo_core 2)\<lparr>ec_active_b := 1\<rparr>"] by (auto simp: demo_paired_fields)
  then show ?thesis using r by blast
qed

subsection \<open>Manual closes\<close>

lemma manual_closes_spec_witness:
  "\<exists>st'. EngineSharded_SlowPath_DrainManualCloses demo_cfg \<lparr>ps_buffers = [demo_tick 5, demo_tick 5], ps_seq = 0, ps_publish_ticks = [0, 0]\<rparr>
      (replicate 16 True) (demo_open\<lparr>el_registered_count := 4\<rparr>) = Some (replicate 16 False, st') \<and>
    length (queued st' 3) = 1 \<and> queued st' 4 = []"
proof -
  let ?st = "demo_open\<lparr>el_registered_count := 4\<rparr>" and ?s = "\<lparr>ps_buffers = [demo_tick 5, demo_tick 5], ps_seq = 0, ps_publish_ticks = [0, 0]\<rparr>"
  have q: "queues_ready ?st" "\<not> queue_full ?st 3" "queued ?st 3 = []" "queued ?st 4 = []"
    using demo_open_queues(1) demo_open_queues(2,3) [of 3] demo_open_queues(3) [of 4] by (simp_all add: queues_ready_def queue_full_def queued_def)
  have p: "ParameterSlot_Read ?s = Some (demo_tick 5, 0)" by (simp add: ParameterSlot_Read_def slot_index_def)
  have n: "length (el_nodes ?st) = 16" by (simp add: demo_open_def)
  have o: "oms_partial_on ?st = 0" by (simp add: oms_partial_on_def demo_open_def BITMAP_IS_SET_def)
  have h: "manual_hit (replicate 16 True) ?st 3" "\<not> manual_hit (replicate 16 True) ?st 4"
    by (simp_all add: manual_hit_def o BITMAP_SLOT_NODE_def) (simp_all add: demo_open_def position_at_def demo_position_def bit_BITMAP_BIT)
  obtain st' where s: "EngineSharded_SlowPath_DrainManualCloses demo_cfg ?s (replicate 16 True) ?st = Some (replicate 16 False, st')"
    and c: "\<forall>s < 16. queued st' s = queued ?st s @ (if manual_hit (replicate 16 True) ?st s \<and> \<not> queue_full ?st s
      then [manual_command demo_cfg (demo_tick 5) ?st s] else [])"
    using manual_closes_spec [OF q(1) _ n p, of "replicate 16 True" demo_cfg] by auto
  have "length (queued st' 3) = 1" "queued st' 4 = []"
    using c [rule_format, of 3] c [rule_format, of 4] q h by simp_all
  then show ?thesis using s by blast
qed

subsection \<open>Boot from a log with one round trip\<close>

definition demo_sell_event :: OrderEvent where
  "demo_sell_event = Event_Log.demo_event\<lparr>ev_event_id := 2, ev_order_type := 1, ev_price := Money 11000000000\<rparr>"

definition demo_written :: OrderEventLog where
  "demo_written = demo_log\<lparr>el_entries := [Event_Log.demo_event, demo_sell_event], el_next_event_id := 3, el_disk_file := Some ''ev'', el_disk_path := ''ev'',
     el_fs := (\<lambda>_. None)(''ev'' \<mapsto> header_image header_current @ concat (map event_image [Event_Log.demo_event, demo_sell_event]))\<rparr>"

definition demo_restart :: EngineState where
  "demo_restart = (demo_engine 0 demo_rings)\<lparr>om_event_log := demo_written\<rparr>"

lemma demo_restart_ok: "logged_boot demo_be demo_ctx ''ev'' demo_restart" "length (el_nodes demo_restart) = 16"
  by (simp_all add: demo_restart_def logged_boot_def demo_be_def demo_ctx_def MAX_INFLIGHT_ORDERS_def MAX_PORTFOLIO_POSITIONS_def
      money_closed_def money_lim_def demo_written_def demo_log_def)
    (simp_all add: demo_engine_def OrderManagerState.extend_def EngineState.fields_def demo_oms_def)

lemma demo_events_ok: "event_ok Event_Log.demo_event" "event_ok demo_sell_event"
  by (simp_all add: event_ok_def demo_sell_event_def Event_Log.demo_event_def OrderEvent_MakeFill_def c_copy_def event_zero_def)

lemma demo_restarts:
  "\<exists>st. OrderManager_Init demo_be demo_ctx demo_restart = Some st \<and> el_entries (om_event_log st) = [Event_Log.demo_event, demo_sell_event]"
proof -
  have l: "om_event_log demo_restart = demo_written" by (simp add: demo_restart_def)
  have "log_synced ''ev'' 2 demo_written"
    using demo_events_ok by (simp add: log_synced_def demo_written_def demo_log_def)
      (simp add: demo_sell_event_def Event_Log.demo_event_def OrderEvent_MakeFill_def event_zero_def)
  from load_synced [OF this, of "fresh_log demo_written"]
  have "el_entries (snd (OrderEventLog_LoadFromDisk (fresh_log demo_written) ''ev'')) = [Event_Log.demo_event, demo_sell_event]"
    by (auto simp: fresh_log_facts el_count_def ORDER_EVENT_LOG_MAX_CAPACITY_def) (auto simp: demo_written_def)
  then show ?thesis using logged_boot_result [OF demo_restart_ok(1)] by (auto simp: l boot_log_entries)
qed

lemma boot_rows_follow_account_witness:
  "\<exists>st. OrderManager_Init demo_be demo_ctx demo_restart = Some st \<and> length (el_entries (om_event_log st)) = 2 \<and>
     nodes_realized (EngineCommon_BootGlobal demo_cfg st) = mint (om_realized_pnl (EngineCommon_BootGlobal demo_cfg st))"
proof -
  obtain st where s: "OrderManager_Init demo_be demo_ctx demo_restart = Some st" "el_entries (om_event_log st) = [Event_Log.demo_event, demo_sell_event]"
    using demo_restarts by blast
  have b: "event_net Event_Log.demo_event pf = []" for pf
    by (simp add: event_net_def Event_Log.demo_event_def OrderEvent_MakeFill_def order_type_bytes)
  have c: "\<bar>mint (fst (sell_leg pf n px q f))\<bar> \<le> money_lim" for pf n px q f
    using add_always_closed(2) by (simp add: sell_leg_def Let_def split_def money_closed_def)
  have "sum_list (map (\<lambda>(s, x). \<bar>mint x\<bar>) (event_net demo_sell_event pf)) \<le> money_lim" for pf
    using c by (simp add: event_net_def Let_def money_lim_def)
  then have "sum_list (map (\<lambda>(s, x). \<bar>mint x\<bar>) (boot_nets demo_be demo_ctx demo_restart st)) \<le> money_lim"
    by (simp add: boot_nets_def s(2) b)
  from boot_rows_follow_account [OF demo_restart_ok(1) s(1) demo_restart_ok(2) this, of demo_cfg] show ?thesis
    using s by (auto simp: Let_def)
qed

end
