(* ===== verification/Fixed_Binary.thy ===== *)
theory Fixed_Binary
  imports Binary64
begin

text \<open>
  The binary fixed point \<^verbatim>\<open>FixedPoint<2,64>\<close> (\<^verbatim>\<open>FPN_Binary<64>\<close>) of \<^verbatim>\<open>src/FixedPoint/FixedPointN.hpp\<close>,
  on which the statistics, the strategies and the learning code compute: a signed 128-bit payload
  counting units of \<open>2 ^ -64\<close>.  The \<^verbatim>\<open>fp2_\<close> cores, the \<^verbatim>\<open>FPN_\<close> names the callers use, and
  what they compute as integers: truncation toward zero and saturation at \<open>2 ^ 127 - 1\<close>.
\<close>

subsection \<open>Operations\<close>

definition FP2_64_MAX :: u128 where "FP2_64_MAX = push_bit 127 1 - 1"
definition FP2_64_MIN :: u128 where "FP2_64_MIN = push_bit 127 1"

definition fp2_mul :: "FPN_Binary \<Rightarrow> FPN_Binary \<Rightarrow> FPN_Binary" where
  "fp2_mul a b =
     (let neg = ((bv a <s 0) \<noteq> (bv b <s 0));
          as = signed_drop_bit 127 (bv a); bs = signed_drop_bit 127 (bv b);
          amag = (bv a XOR as) - as;
          bmag = (bv b XOR bs) - bs;
          p = umul_128x128_256 amag bmag;
          mag = push_bit 64 (u256_hi p) OR take_bit 64 (drop_bit 64 (u256_lo p));
          ovf = drop_bit 64 (u256_hi p) OR drop_bit 127 mag;
          nz = ovf OR (NOT ovf + 1);
          of_m = - drop_bit 127 nz;
          mag = (mag AND NOT of_m) OR drop_bit 1 of_m;
          neg_m = - of_bool (neg \<and> mag \<noteq> 0)
      in FPN_Binary ((- mag AND neg_m) OR (mag AND NOT neg_m)))"

definition fp2_addsat :: "FPN_Binary \<Rightarrow> FPN_Binary \<Rightarrow> FPN_Binary" where
  "fp2_addsat a b =
     (let s = bv a + bv b;
          of_m = - drop_bit 127 (NOT (bv a XOR bv b) AND (bv a XOR s));
          sgn = signed_drop_bit 127 (bv a);
          sat = (FP2_64_MAX XOR sgn) - sgn
      in FPN_Binary ((s AND NOT of_m) OR (sat AND of_m)))"

definition fp2_sub :: "FPN_Binary \<Rightarrow> FPN_Binary \<Rightarrow> FPN_Binary" where
  "fp2_sub a b =
     (let s = bv a - bv b;
          of_m = - drop_bit 127 ((bv a XOR bv b) AND (bv a XOR s));
          sgn = signed_drop_bit 127 (bv a);
          sat = (FP2_64_MAX XOR sgn) - sgn
      in FPN_Binary ((s AND NOT of_m) OR (sat AND of_m)))"

definition fp2_min :: "FPN_Binary \<Rightarrow> FPN_Binary \<Rightarrow> FPN_Binary" where
  "fp2_min a b = FPN_Binary (if bv a <s bv b then bv a else bv b)"
definition fp2_max :: "FPN_Binary \<Rightarrow> FPN_Binary \<Rightarrow> FPN_Binary" where
  "fp2_max a b = FPN_Binary (if bv b <s bv a then bv a else bv b)"

definition fp2_div :: "FPN_Binary \<Rightarrow> FPN_Binary \<Rightarrow> FPN_Binary" where
  "fp2_div a b =
     (let neg = ((bv a <s 0) \<noteq> (bv b <s 0));
          am = (if bv a <s 0 then - bv a else bv a);
          bm = (if bv b <s 0 then - bv b else bv b);
          qm = udiv_q64 am bm;
          of_m = - drop_bit 127 qm;
          qm = (qm AND NOT of_m) OR drop_bit 1 of_m;
          neg_m = - of_bool (neg \<and> qm \<noteq> 0)
      in FPN_Binary ((- qm AND neg_m) OR (qm AND NOT neg_m)))"

definition fp2_from_int :: "u64 \<Rightarrow> FPN_Binary" where
  "fp2_from_int input =
     (let neg = input <s 0;
          mag = (if neg then - (input + 1) + 1 else input)
      in FPN_Binary (i128_cneg (push_bit 64 (ucast mag)) neg))"

text \<open>The specialisations the callers name.\<close>

abbreviation "FPN_Mul \<equiv> fp2_mul"
abbreviation "FPN_AddSat \<equiv> fp2_addsat"
abbreviation "FPN_SubSat \<equiv> fp2_sub"
abbreviation "FPN_Sub \<equiv> fp2_sub"
abbreviation "FPN_DivNoAssert \<equiv> fp2_div"
abbreviation "FPN_Min \<equiv> fp2_min"
abbreviation "FPN_Max \<equiv> fp2_max"
abbreviation "FPN_FromInt \<equiv> fp2_from_int"

definition FPN_Zero :: FPN_Binary where "FPN_Zero = FPN_Binary 0"
definition FPN_IsZero :: "FPN_Binary \<Rightarrow> bool" where "FPN_IsZero v = (bv v = 0)"
definition FPN_LessThan :: "FPN_Binary \<Rightarrow> FPN_Binary \<Rightarrow> bool" where "FPN_LessThan a b = (bv a <s bv b)"
definition FPN_LessThanOrEqual :: "FPN_Binary \<Rightarrow> FPN_Binary \<Rightarrow> bool" where "FPN_LessThanOrEqual a b = (bv a \<le>s bv b)"
definition FPN_GreaterThan :: "FPN_Binary \<Rightarrow> FPN_Binary \<Rightarrow> bool" where "FPN_GreaterThan a b = (bv b <s bv a)"
definition FPN_GreaterThanOrEqual :: "FPN_Binary \<Rightarrow> FPN_Binary \<Rightarrow> bool" where "FPN_GreaterThanOrEqual a b = (bv b \<le>s bv a)"

definition FPN_Negate :: "FPN_Binary \<Rightarrow> FPN_Binary" where
  "FPN_Negate a =
     (let neg = - bv a; minm = - of_bool (bv a = FP2_64_MIN)
      in FPN_Binary ((neg AND NOT minm) OR (FP2_64_MAX AND minm)))"

definition FPN_Abs :: "FPN_Binary \<Rightarrow> FPN_Binary" where
  "FPN_Abs a =
     (let s = signed_drop_bit 127 (bv a); mag = (bv a XOR s) - s; minm = - of_bool (bv a = FP2_64_MIN)
      in FPN_Binary ((mag AND NOT minm) OR (FP2_64_MAX AND minm)))"

definition FPN_BlendOnMask :: "FPN_Binary \<Rightarrow> FPN_Binary \<Rightarrow> u64 \<Rightarrow> FPN_Binary" where
  "FPN_BlendOnMask if_true if_false msk =
     (let m = (scast msk :: u128)
      in FPN_Binary ((bv if_true AND m) OR (bv if_false AND NOT m)))"

subsection \<open>The integers they compute\<close>

definition fp2_lim :: int where "fp2_lim = 2 ^ 127 - 1"

definition fp2_sat :: "int \<Rightarrow> int" where
  "fp2_sat z = max (- fp2_lim) (min fp2_lim z)"

definition itrunc :: "int \<Rightarrow> int \<Rightarrow> int" where
  "itrunc z d = sgn z * (\<bar>z\<bar> div d)"

lemma fp2_sat_id: "\<bar>z\<bar> \<le> fp2_lim \<Longrightarrow> fp2_sat z = z"
  by (auto simp: fp2_sat_def)

lemma itrunc_exact: "0 < d \<Longrightarrow> itrunc (z * d) d = z"
  by (simp add: itrunc_def sgn_mult abs_mult sgn_mult_abs)

lemma itrunc_bound:
  assumes "0 < d" "\<bar>z\<bar> \<le> k * d"
  shows "\<bar>itrunc z d\<bar> \<le> k"
proof -
  have "\<bar>z\<bar> div d \<le> k * d div d" by (rule zdiv_mono1 [OF assms(2,1)])
  moreover have "0 \<le> \<bar>z\<bar> div d" using assms(1) by (simp add: pos_imp_zdiv_nonneg_iff)
  ultimately show ?thesis using assms(1) by (simp add: itrunc_def abs_mult abs_sgn_eq)
qed

lemma top_bit_word: "drop_bit 127 (w :: u128) = of_bool (2 ^ 127 \<le> unat w)"
proof -
  have "unat w div 2 ^ 127 < 2" using unat_bound_128 [of w] by (simp add: less_mult_imp_div_less)
  then have "unat w div 2 ^ 127 = of_bool (2 ^ 127 \<le> unat w)"
    by (cases "2 ^ 127 \<le> unat w") (simp_all add: Suc_le_eq div_greater_zero_iff le_antisym less_Suc_eq_le numeral_2_eq_2)
  then show ?thesis by (simp only: word_unat_eq_iff unat_drop_bit_div unat_flag)
qed

lemma bit_127: "bit (w :: u128) 127 \<longleftrightarrow> sint w < 0"
  unfolding bit_iff_odd_drop_bit top_bit_word msb_uint_128 [symmetric] by simp

lemma top_bit_flag: "drop_bit 127 (w :: u128) = of_bool (bit w 127)"
  by (simp only: top_bit_word msb_uint_128 [symmetric] bit_127)

lemma nonzero_top_bit: "drop_bit 127 (x OR (NOT x + 1)) = (of_bool (x \<noteq> 0) :: u128)"
proof (cases "x = 0")
  case False
  have n: "NOT x + 1 = - x" by (simp add: not_eq_complement)
  have "sint (- x) < 0" if "\<not> sint x < 0"
  proof -
    have "sint x \<noteq> 0" using False by simp
    then have "0 < sint x" using that by linarith
    moreover have "sint (- x) = - sint x" using \<open>0 < sint x\<close> by (intro sint_minus_128) simp
    ultimately show ?thesis by simp
  qed
  then have "bit x 127 \<or> bit (- x) 127" by (auto simp only: bit_127)
  then have "bit (x OR - x) 127" by (simp only: bit_or_iff)
  then show ?thesis using False by (simp only: n top_bit_flag simp_thms)
qed simp

text \<open>The common tail: saturate the magnitude, then apply the sign to a nonzero value.\<close>

lemma fp2_tail:
  fixes mag :: u128
  assumes "ovf \<longleftrightarrow> 2 ^ 127 \<le> N" "\<not> ovf \<longrightarrow> unat mag = N"
  defines "m \<equiv> (mag AND NOT (- of_bool ovf)) OR drop_bit 1 (- of_bool ovf)"
  shows "sint ((- m AND - of_bool (neg \<and> m \<noteq> 0)) OR (m AND NOT (- of_bool (neg \<and> m \<noteq> 0))))
       = fp2_sat (if neg then - int N else int N)"
proof -
  have m: "int (unat m) = min fp2_lim (int N)"
  proof (cases ovf)
    case True
    have "drop_bit 1 (- 1 :: u128) = 2 ^ 127 - 1" by code_simp
    then show ?thesis using True assms(1) by (simp add: m_def fp2_lim_def)
  qed (use assms(1,2) in \<open>simp add: m_def fp2_lim_def\<close>)
  then have "int (unat m) < int (2 ^ 127)" by (simp only: of_nat_power of_nat_numeral) (simp add: fp2_lim_def)
  then have lt: "unat m < 2 ^ 127" by (simp only: of_nat_less_iff)
  have "sint (if neg \<and> m \<noteq> 0 then - m else m) = (if neg then - int (unat m) else int (unat m))"
    using sint_i128_cneg [OF lt, of neg] by (auto simp: i128_cneg_word)
  then show ?thesis unfolding m by (cases "neg \<and> m \<noteq> 0") (auto simp: fp2_sat_def fp2_lim_def)
qed

subsection \<open>Multiplication\<close>

lemma mul_mid:
  assumes "unat hi = n div 2 ^ 128" "unat lo = n mod 2 ^ 128" "n < 2 ^ 192"
  shows "unat (push_bit 64 hi OR take_bit 64 (drop_bit 64 lo) :: u128) = n div 2 ^ 64"
proof -
  have h: "unat hi < 2 ^ 64" using assms(1,3) by (simp add: less_mult_imp_div_less)
  have l: "unat lo div 2 ^ 64 < 2 ^ 64" using unat_bound_128 [of lo] by (simp add: less_mult_imp_div_less)
  have "unat (push_bit 64 hi OR take_bit 64 (drop_bit 64 lo) :: u128) = unat hi * 2 ^ 64 + unat lo div 2 ^ 64"
    unfolding unat_push_or_take using h l by (simp add: word_nat)
  also have "\<dots> = n div 2 ^ 64"
  proof -
    have "n = n div 2 ^ 128 * 2 ^ 128 + n mod 2 ^ 128" by simp
    also have "\<dots> div 2 ^ 64 = n div 2 ^ 128 * 2 ^ 64 + n mod 2 ^ 128 div 2 ^ 64"
      using div_mult_self3 [of "2 ^ 64 :: nat" "n div 2 ^ 128 * 2 ^ 64" "n mod 2 ^ 128"] by (simp add: ac_simps)
    finally show ?thesis by (simp only: assms(1,2))
  qed
  finally show ?thesis .
qed

lemma fp2_mul_int: "bint (fp2_mul a b) = fp2_sat (itrunc (bint a * bint b) (2 ^ 64))"
proof -
  let ?A = "i128_abs (bv a)" and ?B = "i128_abs (bv b)"
  let ?p = "umul_128x128_256 ?A ?B"
  let ?mag = "push_bit 64 (u256_hi ?p) OR take_bit 64 (drop_bit 64 (u256_lo ?p))"
  let ?ovf = "drop_bit 64 (u256_hi ?p) OR drop_bit 127 ?mag"
  define n where "n = unat ?A * unat ?B"
  have v: "u256_val ?p = n" unfolding n_def by (rule umul_exact_half [OF unat_i128_abs_le unat_i128_abs_le])
  note hl = u256_val_unique [OF v]
  have z0: "x OR y = 0 \<longleftrightarrow> x = 0 \<and> y = 0" for x y :: u128 by (auto simp: or_eq_0_iff)
  have d64: "drop_bit 64 x = 0 \<longleftrightarrow> unat x < 2 ^ 64" for x :: u128
    by (simp only: word_unat_eq_iff unat_drop_bit_div unsigned_0) (simp add: div_eq_0_iff)
  have o: "?ovf \<noteq> 0 \<longleftrightarrow> 2 ^ 127 \<le> n div 2 ^ 64" and m: "\<not> ?ovf \<noteq> 0 \<longrightarrow> unat ?mag = n div 2 ^ 64"
  proof -
    have "(?ovf \<noteq> 0 \<longleftrightarrow> 2 ^ 127 \<le> n div 2 ^ 64) \<and> (\<not> ?ovf \<noteq> 0 \<longrightarrow> unat ?mag = n div 2 ^ 64)"
    proof (cases "n < 2 ^ 192")
      case True
      then have "unat (u256_hi ?p) < 2 ^ 64" using hl(1) by (simp add: less_mult_imp_div_less)
      moreover have "drop_bit 127 ?mag = of_bool (2 ^ 127 \<le> n div 2 ^ 64)"
        by (simp only: top_bit_word mul_mid [OF hl True])
      ultimately show ?thesis using mul_mid [OF hl True] by (simp only: z0 d64 of_bool_eq_0_iff simp_thms)
    next
      case False
      then have "\<not> unat (u256_hi ?p) < 2 ^ 64" unfolding hl(1)
        by (simp add: div_less_iff_less_mult)
      moreover have "2 ^ 127 \<le> n div 2 ^ 64" using False div_le_mono [of "2 ^ 192" n "2 ^ 64"] by simp
      ultimately show ?thesis by (simp add: z0 d64)
    qed
    then show "?ovf \<noteq> 0 \<longleftrightarrow> 2 ^ 127 \<le> n div 2 ^ 64" "\<not> ?ovf \<noteq> 0 \<longrightarrow> unat ?mag = n div 2 ^ 64" by blast+
  qed
  have r: "bint (fp2_mul a b) = fp2_sat (if (bint a < 0) \<noteq> (bint b < 0) then - int (n div 2 ^ 64) else int (n div 2 ^ 64))"
    unfolding fp2_tail [OF o m, symmetric]
    by (simp only: fp2_mul_def Let_def i128_abs_def [unfolded Let_def, symmetric] nonzero_top_bit FPN_Binary.sel slt_zero)
  have "int n = \<bar>bint a * bint b\<bar>" by (simp only: n_def of_nat_mult int_unat_i128_abs abs_mult)
  then have q: "int (n div 2 ^ 64) = \<bar>bint a * bint b\<bar> div 2 ^ 64" by (simp add: zdiv_int)
  have "(if (bint a < 0) \<noteq> (bint b < 0) then - int (n div 2 ^ 64) else int (n div 2 ^ 64)) = itrunc (bint a * bint b) (2 ^ 64)"
    unfolding q by (auto simp: itrunc_def sgn_if mult_less_0_iff zero_less_mult_iff)
  with r show ?thesis by (simp only:)
qed

subsection \<open>Addition and subtraction\<close>

definition fp2_wrap_sat :: "int \<Rightarrow> int \<Rightarrow> int" where
  "fp2_wrap_sat x s = (if - (2 ^ 127) \<le> s \<and> s < 2 ^ 127 then s else if x < 0 then - fp2_lim else fp2_lim)"

lemma sat_sign: "(FP2_64_MAX XOR signed_drop_bit 127 v) - signed_drop_bit 127 v = (if sint v < 0 then - FP2_64_MAX else FP2_64_MAX)"
  by (simp add: signed_drop_sign xor_minus_one not_eq_complement)

lemma sint_FP2_MAX: "sint FP2_64_MAX = fp2_lim" "sint (- FP2_64_MAX) = - fp2_lim"
  by (simp_all add: FP2_64_MAX_def fp2_lim_def)

lemma bit_not_127: "bit (NOT w :: u128) 127 \<longleftrightarrow> \<not> bit w 127"
  by (simp add: bit_not_iff)

lemma blend_flag: "(x AND NOT (- of_bool p)) OR (y AND - of_bool p) = (if p then y else (x :: u128))"
  by (cases p) simp_all

text \<open>The sign test of the sum is the overflow test.\<close>

lemma sint_add_wrap:
  fixes x y :: u128
  shows "(\<not> (sint x < 0 \<longleftrightarrow> sint y < 0) \<or> (sint x < 0 \<longleftrightarrow> sint (x + y) < 0)) \<longleftrightarrow>
    - (2 ^ 127) \<le> sint x + sint y \<and> sint x + sint y < 2 ^ 127"
    and "- (2 ^ 127) \<le> sint x + sint y \<and> sint x + sint y < 2 ^ 127 \<Longrightarrow> sint (x + y) = sint x + sint y"
proof -
  note r = sint_range_128 [of x] sint_range_128 [of y]
  show eq: "sint (x + y) = sint x + sint y" if "- (2 ^ 127) \<le> sint x + sint y \<and> sint x + sint y < 2 ^ 127"
    using that sint_add_128 [of x y] by blast
  have z: "(340282366920938463463374607431768211456 :: u128) = 0" by code_simp
  have hi: "sint (x + y) = sint x + sint y - 2 ^ 128" if "2 ^ 127 \<le> sint x + sint y"
    using sint_word_of_int_128 [of "sint x + sint y - 2 ^ 128"] r that z by simp
  have lo: "sint (x + y) = sint x + sint y + 2 ^ 128" if "sint x + sint y < - (2 ^ 127)"
    using sint_word_of_int_128 [of "sint x + sint y + 2 ^ 128"] r that z by simp
  show "(\<not> (sint x < 0 \<longleftrightarrow> sint y < 0) \<or> (sint x < 0 \<longleftrightarrow> sint (x + y) < 0)) \<longleftrightarrow>
    - (2 ^ 127) \<le> sint x + sint y \<and> sint x + sint y < 2 ^ 127"
    using r eq hi lo by (cases "sint x < 0"; cases "sint y < 0"; cases "2 ^ 127 \<le> sint x + sint y"; cases "sint x + sint y < - (2 ^ 127)") auto
qed

lemma sint_sub_wrap:
  fixes x y :: u128
  shows "((sint x < 0 \<longleftrightarrow> sint y < 0) \<or> (sint x < 0 \<longleftrightarrow> sint (x - y) < 0)) \<longleftrightarrow>
    - (2 ^ 127) \<le> sint x - sint y \<and> sint x - sint y < 2 ^ 127"
    and "- (2 ^ 127) \<le> sint x - sint y \<and> sint x - sint y < 2 ^ 127 \<Longrightarrow> sint (x - y) = sint x - sint y"
proof -
  note r = sint_range_128 [of x] sint_range_128 [of y]
  show eq: "sint (x - y) = sint x - sint y" if "- (2 ^ 127) \<le> sint x - sint y \<and> sint x - sint y < 2 ^ 127"
    using sint_word_of_int_128 [of "sint x - sint y"] that by simp
  have z: "(340282366920938463463374607431768211456 :: u128) = 0" by code_simp
  have hi: "sint (x - y) = sint x - sint y - 2 ^ 128" if "2 ^ 127 \<le> sint x - sint y"
    using sint_word_of_int_128 [of "sint x - sint y - 2 ^ 128"] r that z by simp
  have lo: "sint (x - y) = sint x - sint y + 2 ^ 128" if "sint x - sint y < - (2 ^ 127)"
    using sint_word_of_int_128 [of "sint x - sint y + 2 ^ 128"] r that z by simp
  show "((sint x < 0 \<longleftrightarrow> sint y < 0) \<or> (sint x < 0 \<longleftrightarrow> sint (x - y) < 0)) \<longleftrightarrow>
    - (2 ^ 127) \<le> sint x - sint y \<and> sint x - sint y < 2 ^ 127"
    using r eq hi lo by (cases "sint x < 0"; cases "sint y < 0"; cases "2 ^ 127 \<le> sint x - sint y"; cases "sint x - sint y < - (2 ^ 127)") auto
qed

lemma fp2_addsat_int: "bint (fp2_addsat a b) = fp2_wrap_sat (bint a) (bint a + bint b)"
proof -
  have f: "drop_bit 127 (NOT (bv a XOR bv b) AND (bv a XOR (bv a + bv b))) =
      of_bool (\<not> (- (2 ^ 127) \<le> bint a + bint b \<and> bint a + bint b < 2 ^ 127))"
    unfolding sint_add_wrap(1) [symmetric]
    by (simp only: top_bit_flag bit_and_iff bit_not_127 bit_xor_iff) (simp only: bit_127, rule arg_cong [where f = of_bool], blast)
  show ?thesis
    unfolding fp2_addsat_def Let_def FPN_Binary.sel f blend_flag sat_sign fp2_wrap_sat_def
    using sint_add_wrap(2) [of "bv a" "bv b"] by (simp add: sint_FP2_MAX)
qed

lemma fp2_sub_int: "bint (fp2_sub a b) = fp2_wrap_sat (bint a) (bint a - bint b)"
proof -
  have f: "drop_bit 127 ((bv a XOR bv b) AND (bv a XOR (bv a - bv b))) =
      of_bool (\<not> (- (2 ^ 127) \<le> bint a - bint b \<and> bint a - bint b < 2 ^ 127))"
    unfolding sint_sub_wrap(1) [symmetric]
    by (simp only: top_bit_flag bit_and_iff bit_xor_iff) (simp only: bit_127, rule arg_cong [where f = of_bool], blast)
  show ?thesis
    unfolding fp2_sub_def Let_def FPN_Binary.sel f blend_flag sat_sign fp2_wrap_sat_def
    using sint_sub_wrap(2) [of "bv a" "bv b"] by (simp add: sint_FP2_MAX)
qed

text \<open>The forms the bounded computations use.\<close>

lemma fp2_add_fits: "\<bar>bint a + bint b\<bar> \<le> fp2_lim \<Longrightarrow> bint (fp2_addsat a b) = bint a + bint b"
  by (simp add: fp2_addsat_int fp2_wrap_sat_def fp2_lim_def abs_le_iff)

lemma fp2_sub_fits: "\<bar>bint a - bint b\<bar> \<le> fp2_lim \<Longrightarrow> bint (fp2_sub a b) = bint a - bint b"
  by (simp add: fp2_sub_int fp2_wrap_sat_def fp2_lim_def abs_le_iff)

lemma fp2_mul_fits: "\<bar>bint a * bint b\<bar> \<le> fp2_lim * 2 ^ 64 \<Longrightarrow> bint (fp2_mul a b) = itrunc (bint a * bint b) (2 ^ 64)"
  unfolding fp2_mul_int by (rule fp2_sat_id [OF itrunc_bound]) simp_all

subsection \<open>Division\<close>

lemma fp2_div_int:
  "bint (fp2_div a b) =
     (if bint b = 0 then if bint a < 0 then - fp2_lim else fp2_lim
      else fp2_sat (sgn (bint b) * itrunc (bint a * 2 ^ 64) \<bar>bint b\<bar>))"
proof -
  let ?A = "i128_abs (bv a)" and ?B = "i128_abs (bv b)"
  have ab: "(if bint x < 0 then - bv x else bv x) = i128_abs (bv x)" for x by (simp add: i128_abs_word)
  have A: "unat ?A \<le> 2 ^ 127" and B: "unat ?B \<le> 2 ^ 127" by (rule unat_i128_abs_le)+
  have hi: "unat (drop_bit 64 ?A) = unat ?A div 2 ^ 64" by (rule unat_drop_bit_div)
  have lo: "unat (push_bit 64 ?A) = unat ?A mod 2 ^ 64 * 2 ^ 64"
    unfolding unat_push_bit_mod using mod_mult_mult2 [of "unat ?A" "2 ^ 64" "2 ^ 64 :: nat"] by simp
  have full: "unat (drop_bit 64 ?A) * 2 ^ 128 + unat (push_bit 64 ?A) = unat ?A * 2 ^ 64"
  proof -
    have g: "x div k * (k * k) + x mod k * k = x * k" for x k :: nat
      by (simp only: mult.assoc [symmetric] add_mult_distrib [symmetric] div_mult_mod_eq)
    show ?thesis unfolding hi lo using g [of "unat ?A" "2 ^ 64"] by simp
  qed
  have h127: "unat (drop_bit 64 ?A) < 2 ^ 127" using A unfolding hi by (simp add: div_less_iff_less_mult)
  let ?q = "udiv_q64 ?A ?B"
  have r: "bint (fp2_div a b) = fp2_sat (if (bint a < 0) \<noteq> (bint b < 0) then - int N else int N)"
    if "2 ^ 127 \<le> unat ?q \<longleftrightarrow> 2 ^ 127 \<le> N" "\<not> 2 ^ 127 \<le> unat ?q \<longrightarrow> unat ?q = N" for N
    unfolding fp2_tail [OF that, symmetric]
    by (simp only: fp2_div_def Let_def slt_zero ab top_bit_word FPN_Binary.sel)
  show ?thesis
  proof (cases "bint b = 0")
    case True
    then have "unat ?B \<le> unat (drop_bit 64 ?A)" by (simp add: unat_i128_abs)
    then have big: "2 ^ 127 \<le> unat ?q" unfolding udiv_q64_def using h127 by (rule udiv256_qr_overflow)
    have "bint (fp2_div a b) = fp2_sat (if (bint a < 0) \<noteq> (bint b < 0) then - int (2 ^ 127) else int (2 ^ 127))"
      by (rule r) (use big in simp_all)
    then show ?thesis using True by (simp add: fp2_sat_def fp2_lim_def)
  next
    case False
    define N where "N = unat ?A * 2 ^ 64 div unat ?B"
    have Bpos: "0 < unat ?B" using False by (simp add: unat_i128_abs)
    have "(2 ^ 127 \<le> unat ?q \<longleftrightarrow> 2 ^ 127 \<le> N) \<and> (\<not> 2 ^ 127 \<le> unat ?q \<longrightarrow> unat ?q = N)"
    proof (cases "unat (drop_bit 64 ?A) < unat ?B")
      case True
      have "unat ?q = N" unfolding udiv_q64_def N_def udiv256_qr_exact(1) [OF True B] full ..
      then show ?thesis by simp
    next
      case False
      then have "2 ^ 127 \<le> unat ?q" unfolding udiv_q64_def by (intro udiv256_qr_overflow h127) simp
      moreover have "2 ^ 127 \<le> N"
      proof -
        have "unat ?B * 2 ^ 128 \<le> unat (drop_bit 64 ?A) * 2 ^ 128" using False by simp
        also have "\<dots> \<le> unat ?A * 2 ^ 64" unfolding full [symmetric] by simp
        finally have "unat ?B * 2 ^ 128 div unat ?B \<le> N" unfolding N_def by (rule div_le_mono)
        then show ?thesis using Bpos by simp
      qed
      ultimately show ?thesis by simp
    qed
    then have "bint (fp2_div a b) = fp2_sat (if (bint a < 0) \<noteq> (bint b < 0) then - int N else int N)"
      by (intro r) blast+
    moreover have "int N = \<bar>bint a * 2 ^ 64\<bar> div \<bar>bint b\<bar>"
      unfolding N_def zdiv_int of_nat_mult int_unat_i128_abs by (simp add: abs_mult)
    moreover have "(if (bint a < 0) \<noteq> (bint b < 0) then - (\<bar>bint a * 2 ^ 64\<bar> div \<bar>bint b\<bar>) else \<bar>bint a * 2 ^ 64\<bar> div \<bar>bint b\<bar>)
        = sgn (bint b) * itrunc (bint a * 2 ^ 64) \<bar>bint b\<bar>"
      using False by (auto simp: itrunc_def sgn_if)
    ultimately show ?thesis using False by (simp only: if_False)
  qed
qed

lemma fp2_div_fits:
  assumes "0 < bint b" "\<bar>bint a\<bar> * 2 ^ 64 \<le> fp2_lim * bint b"
  shows "bint (fp2_div a b) = itrunc (bint a * 2 ^ 64) (bint b)"
proof -
  have "\<bar>itrunc (bint a * 2 ^ 64) (bint b)\<bar> \<le> fp2_lim"
    by (rule itrunc_bound [OF assms(1)]) (use assms(2) in \<open>simp add: abs_mult\<close>)
  moreover have "bint b \<noteq> 0" using assms(1) by linarith
  moreover have "sgn (bint b) = 1" "\<bar>bint b\<bar> = bint b" using assms(1) by simp_all
  ultimately show ?thesis by (simp only: fp2_div_int if_False mult_1 fp2_sat_id)
qed

subsection \<open>Comparisons, blends and constants\<close>

lemma FPN_order [simp]:
  "FPN_LessThan a b \<longleftrightarrow> bint a < bint b" "FPN_GreaterThan a b \<longleftrightarrow> bint b < bint a"
  "FPN_LessThanOrEqual a b \<longleftrightarrow> bint a \<le> bint b" "FPN_GreaterThanOrEqual a b \<longleftrightarrow> bint b \<le> bint a"
  "FPN_IsZero a \<longleftrightarrow> bint a = 0"
  by (simp_all add: FPN_LessThan_def FPN_GreaterThan_def FPN_LessThanOrEqual_def FPN_GreaterThanOrEqual_def
      FPN_IsZero_def word_sless_alt word_sle_eq)

lemma FPN_Zero_int [simp]: "bint FPN_Zero = 0"
  by (simp add: FPN_Zero_def)

lemma FPN_BlendOnMask_flag [simp]: "FPN_BlendOnMask a b (- of_bool p) = (if p then a else b)"
  by (cases p; cases a; cases b) (simp_all add: FPN_BlendOnMask_def)

lemma fp2_from_int_int:
  assumes "0 \<le> sint i"
  shows "bint (fp2_from_int i) = sint i * 2 ^ 64"
proof -
  have u: "uint i = sint i"
    unfolding uint_sint_mod using assms sint_lt [of i] by (intro mod_pos_pos_trivial) simp_all
  have lt: "sint i < 2 ^ 63" using sint_lt [of i] by simp
  have m: "unat (push_bit 64 (ucast i :: u128)) = unat i * 2 ^ 64"
    using unat_bound_64 [of i] by (simp add: word_nat unat_ucast_up)
  have "int (unat i * 2 ^ 64) < int (2 ^ 127)"
    unfolding of_nat_mult of_nat_power of_nat_numeral uint_nat [symmetric] u using lt by simp
  then have "unat (push_bit 64 (ucast i :: u128)) < 2 ^ 127" unfolding m by (simp only: of_nat_less_iff)
  from sint_i128_cneg [OF this, of False] have "bint (fp2_from_int i) = int (unat i * 2 ^ 64)"
    using assms by (simp add: fp2_from_int_def m)
  then show ?thesis by (simp only: of_nat_mult of_nat_power of_nat_numeral uint_nat [symmetric] u)
qed

lemma fp2_from_nat: "n < 2 ^ 63 \<Longrightarrow> bint (fp2_from_int (word_of_nat n)) = int n * 2 ^ 64"
proof -
  assume n: "n < 2 ^ 63"
  have "sint (word_of_int (int n) :: u64) = int n"
    unfolding sint_sbintrunc' by (rule signed_take_bit_int_eq_self) (use n in simp_all)
  then have "sint (word_of_nat n :: u64) = int n" by simp
  then show ?thesis using fp2_from_int_int [of "word_of_nat n"] by simp
qed

lemma fp2_min_max_int: "bint (fp2_min a b) = min (bint a) (bint b)" "bint (fp2_max a b) = max (bint a) (bint b)"
  by (simp_all add: fp2_min_def fp2_max_def word_sless_alt)

lemma FPN_Abs_int: "bint (FPN_Abs a) = min fp2_lim \<bar>bint a\<bar>"
proof (cases "bv a = FP2_64_MIN")
  case True
  then have "bint a = - (2 ^ 127)" by (simp add: FP2_64_MIN_def)
  then show ?thesis using True by (simp add: FPN_Abs_def sint_FP2_MAX) (simp add: fp2_lim_def)
next
  case False
  have "bint a \<noteq> - (2 ^ 127)"
  proof
    assume "bint a = - (2 ^ 127)"
    then have "sint (bv a) = sint FP2_64_MIN" by (simp add: FP2_64_MIN_def)
    then have "bv a = FP2_64_MIN" by (rule signed_word_eqI)
    then show False using False by contradiction
  qed
  then have "\<bar>bint a\<bar> \<le> fp2_lim" "sint (- bv a) = - bint a"
    using sint_range_128 [of "bv a"] sint_minus_128 [of "bv a"] by (simp_all add: fp2_lim_def)
  moreover have "FPN_Abs a = FPN_Binary (i128_abs (bv a))"
    using False by (simp add: FPN_Abs_def i128_abs_def Let_def)
  ultimately show ?thesis by (simp add: i128_abs_word)
qed

end
