(* ===== verification/Rolling_Stats.thy ===== *)
theory Rolling_Stats
  imports Fixed_Binary
begin

text \<open>
  The sliding statistics of \<^verbatim>\<open>src/ML_Headers/RollingStats.hpp\<close> and the reciprocal table of
  \<^verbatim>\<open>src/ML_Headers/ReciprocalLUT.hpp\<close>.  The window width \<open>W\<close> is the template parameter, a power
  of two.  The counters and ring positions of the struct stay in \<open>0..W\<close> and are natural numbers;
  the one signed intermediate, the position of the new sample, is an integer.  The three deques of
  the struct have the same three fields and the same code, written once here.
\<close>

subsection \<open>Doubles into binary fixed point\<close>

definition f64_le :: "f64 \<Rightarrow> f64 \<Rightarrow> bool" where
  "f64_le a b = (f64_lt a b \<or> f64_eq a b)"

fun f64_floor :: "f64 \<Rightarrow> f64" where
  "f64_floor (F64_Fin a) = F64_Fin (of_int \<lfloor>a\<rfloor>)"
| "f64_floor a = a"

text \<open>The conversion to \<^verbatim>\<open>uint64_t\<close> of a double in range.\<close>

fun f64_to_u64 :: "f64 \<Rightarrow> u64" where
  "f64_to_u64 (F64_Fin a) = word_of_int \<lfloor>a\<rfloor>"
| "f64_to_u64 _ = 0"

definition fp2_from_double :: "f64 \<Rightarrow> FPN_Binary" where
  "fp2_from_double input =
     (if \<not> (f64_le (F64_Fin (- 9000000000000000000)) input \<and> f64_le input (F64_Fin 9000000000000000000))
      then FPN_Binary (if f64_lt input (F64_Fin 0) then - FP2_64_MAX else FP2_64_MAX)
      else let neg = f64_lt input (F64_Fin 0);
               abs_input = f64_mul input (f64_sub (F64_Fin 1) (f64_mul (F64_Fin 2) (F64_Fin (of_bool neg))));
               int_part = f64_floor abs_input;
               frac_part = f64_sub abs_input int_part;
               mag = push_bit 64 (ucast (f64_to_u64 int_part))
                   OR ucast (f64_to_u64 (f64_floor (f64_mul frac_part (F64_Fin 18446744073709551616))))
           in FPN_Binary (i128_cneg mag (neg \<and> mag \<noteq> 0)))"

abbreviation "FPN_FromDouble \<equiv> fp2_from_double"

definition fpn_one :: FPN_Binary where "fpn_one = FPN_FromDouble (F64_Fin 1)"
definition fpn_four :: FPN_Binary where "fpn_four = FPN_FromDouble (F64_Fin 4)"

definition GetReciprocalLUT :: "nat \<Rightarrow> FPN_Binary list" where
  "GetReciprocalLUT W = FPN_Zero # map (\<lambda>i. FPN_DivNoAssert fpn_one (FPN_FromInt (word_of_nat i))) [1..<W + 1]"

subsection \<open>State\<close>

record slot_deque =
  dq_ring :: "nat list"
  dq_head :: nat
  dq_size :: nat

record RollingStats =
  rs_price_avg :: FPN_Binary
  rs_price_slope :: FPN_Binary
  rs_price_r_squared :: FPN_Binary
  rs_price_variance :: FPN_Binary
  rs_price_stddev :: FPN_Binary
  rs_price_min :: FPN_Binary
  rs_price_max :: FPN_Binary
  rs_volume_avg :: FPN_Binary
  rs_volume_slope :: FPN_Binary
  rs_volume_max :: FPN_Binary
  rs_volume_delta :: FPN_Binary
  rs_vwap :: FPN_Binary
  rs_vwap_deviation :: FPN_Binary
  rs_head :: nat
  rs_count :: nat
  rs_buy_volume_sum :: FPN_Binary
  rs_sell_volume_sum :: FPN_Binary
  rs_pv_sum :: FPN_Binary
  rs_vol_sum :: FPN_Binary
  rs_price_sum_running :: FPN_Binary
  rs_price_sum_y2_running :: FPN_Binary
  rs_price_sum_xy_running :: FPN_Binary
  rs_volume_sum_running :: FPN_Binary
  rs_vol_sum_xy_running :: FPN_Binary
  rs_price_buf :: "FPN_Binary list"
  rs_volume_buf :: "FPN_Binary list"
  rs_pv_buf :: "FPN_Binary list"
  rs_side_bits :: "u64 list"
  rs_min_dq :: slot_deque
  rs_max_dq :: slot_deque
  rs_vmax_dq :: slot_deque

definition dq_init :: "nat \<Rightarrow> slot_deque" where
  "dq_init W = \<lparr>dq_ring = replicate W 0, dq_head = 0, dq_size = 0\<rparr>"

definition RollingStats_Init :: "nat \<Rightarrow> RollingStats" where
  "RollingStats_Init W =
     \<lparr>rs_price_avg = FPN_Zero, rs_price_slope = FPN_Zero, rs_price_r_squared = FPN_Zero, rs_price_variance = FPN_Zero,
      rs_price_stddev = FPN_Zero, rs_price_min = FPN_Zero, rs_price_max = FPN_Zero, rs_volume_avg = FPN_Zero,
      rs_volume_slope = FPN_Zero, rs_volume_max = FPN_Zero, rs_volume_delta = FPN_Zero, rs_vwap = FPN_Zero,
      rs_vwap_deviation = FPN_Zero, rs_head = 0, rs_count = 0, rs_buy_volume_sum = FPN_Zero,
      rs_sell_volume_sum = FPN_Zero, rs_pv_sum = FPN_Zero, rs_vol_sum = FPN_Zero, rs_price_sum_running = FPN_Zero,
      rs_price_sum_y2_running = FPN_Zero, rs_price_sum_xy_running = FPN_Zero, rs_volume_sum_running = FPN_Zero,
      rs_vol_sum_xy_running = FPN_Zero, rs_price_buf = replicate W FPN_Zero, rs_volume_buf = replicate W FPN_Zero,
      rs_pv_buf = replicate W FPN_Zero, rs_side_bits = replicate ((W + 63) div 64) 0,
      rs_min_dq = dq_init W, rs_max_dq = dq_init W, rs_vmax_dq = dq_init W\<rparr>"

subsection \<open>The phases of a push\<close>

text \<open>Directional volumes, the price-volume sum and the volume-weighted price.  The oldest sample is
  whatever the ring holds at the head; the masks make it zero while the window is filling.\<close>

definition push_flow :: "nat \<Rightarrow> FPN_Binary \<Rightarrow> FPN_Binary \<Rightarrow> u32 \<Rightarrow> RollingStats \<Rightarrow> RollingStats" where
  "push_flow W price volume is_buyer_maker rs =
     (let evict_int = (of_bool (W \<le> rs_count rs) :: u64);
          evict_mask = - evict_int;
          slot = rs_head rs;
          oldest_volume = rs_volume_buf rs ! slot;
          oldest_side = drop_bit (slot AND 63) (rs_side_bits rs ! drop_bit 6 slot) AND 1;
          evict_v = FPN_BlendOnMask oldest_volume FPN_Zero evict_mask;
          evict_pv = FPN_BlendOnMask (rs_pv_buf rs ! slot) FPN_Zero evict_mask;
          sell_evict_v = FPN_BlendOnMask oldest_volume FPN_Zero (- (evict_int AND oldest_side));
          buy_evict_v = FPN_BlendOnMask oldest_volume FPN_Zero (- (evict_int AND (1 - oldest_side)));
          is_sell_mask = - (scast is_buyer_maker :: u64);
          add_to_sell = FPN_BlendOnMask volume FPN_Zero is_sell_mask;
          add_to_buy = FPN_BlendOnMask FPN_Zero volume is_sell_mask
      in rs\<lparr>rs_buy_volume_sum := FPN_AddSat (FPN_SubSat (rs_buy_volume_sum rs) buy_evict_v) add_to_buy,
            rs_sell_volume_sum := FPN_AddSat (FPN_SubSat (rs_sell_volume_sum rs) sell_evict_v) add_to_sell,
            rs_pv_sum := FPN_AddSat (FPN_SubSat (rs_pv_sum rs) evict_pv) (FPN_Mul price volume),
            rs_vol_sum := FPN_AddSat (FPN_SubSat (rs_vol_sum rs) evict_v) volume\<rparr>)"

definition push_vwap :: "FPN_Binary \<Rightarrow> RollingStats \<Rightarrow> RollingStats" where
  "push_vwap price rs =
     (let vol_nz_mask = - of_bool (\<not> FPN_IsZero (rs_vol_sum rs));
          safe_vol = FPN_BlendOnMask (rs_vol_sum rs) fpn_one vol_nz_mask;
          new_vwap = FPN_DivNoAssert (rs_pv_sum rs) safe_vol;
          safe_vwap = FPN_BlendOnMask new_vwap fpn_one vol_nz_mask;
          new_vwap_dev = FPN_DivNoAssert (FPN_Sub price new_vwap) safe_vwap
      in rs\<lparr>rs_vwap := FPN_BlendOnMask new_vwap (rs_vwap rs) vol_nz_mask,
            rs_vwap_deviation := FPN_BlendOnMask new_vwap_dev (rs_vwap_deviation rs) vol_nz_mask\<rparr>)"

definition push_store :: "FPN_Binary \<Rightarrow> FPN_Binary \<Rightarrow> u32 \<Rightarrow> RollingStats \<Rightarrow> RollingStats" where
  "push_store price volume is_buyer_maker rs =
     (let slot = rs_head rs;
          b = push_bit (slot AND 63) 1;
          on = - of_bool (is_buyer_maker \<noteq> 0);
          w = drop_bit 6 slot
      in rs\<lparr>rs_price_buf := (rs_price_buf rs)[slot := price],
            rs_volume_buf := (rs_volume_buf rs)[slot := volume],
            rs_pv_buf := (rs_pv_buf rs)[slot := FPN_Mul price volume],
            rs_side_bits := (rs_side_bits rs)[w := (rs_side_bits rs ! w AND NOT b) OR (b AND on)]\<rparr>)"

text \<open>The regression sums read the state the push started from (\<open>old\<close>).\<close>

definition push_sums :: "nat \<Rightarrow> RollingStats \<Rightarrow> FPN_Binary \<Rightarrow> FPN_Binary \<Rightarrow> RollingStats \<Rightarrow> RollingStats" where
  "push_sums W old price volume rs =
     (let evict = W \<le> rs_count old;
          evict_mask = - of_bool evict;
          oldest_price = rs_price_buf old ! rs_head old;
          oldest_volume = rs_volume_buf old ! rs_head old;
          evict_p = FPN_BlendOnMask oldest_price FPN_Zero evict_mask;
          evict_v = FPN_BlendOnMask oldest_volume FPN_Zero evict_mask;
          evict_p2 = FPN_BlendOnMask (FPN_Mul oldest_price oldest_price) FPN_Zero evict_mask;
          position_int = int (rs_count old) + of_bool evict * (int W - 1 - int (rs_count old));
          position_fp = FPN_FromInt (word_of_int position_int);
          sum_y_excl = FPN_SubSat (rs_price_sum_running old) oldest_price;
          evict_xy = FPN_BlendOnMask sum_y_excl FPN_Zero evict_mask;
          sum_v_excl = FPN_SubSat (rs_volume_sum_running old) oldest_volume;
          evict_v_xy = FPN_BlendOnMask sum_v_excl FPN_Zero evict_mask
      in rs\<lparr>rs_price_sum_xy_running := FPN_AddSat (FPN_SubSat (rs_price_sum_xy_running rs) evict_xy) (FPN_Mul position_fp price),
            rs_vol_sum_xy_running := FPN_AddSat (FPN_SubSat (rs_vol_sum_xy_running rs) evict_v_xy) (FPN_Mul position_fp volume),
            rs_price_sum_running := FPN_AddSat (FPN_SubSat (rs_price_sum_running rs) evict_p) price,
            rs_price_sum_y2_running := FPN_AddSat (FPN_SubSat (rs_price_sum_y2_running rs) evict_p2) (FPN_Mul price price),
            rs_volume_sum_running := FPN_AddSat (FPN_SubSat (rs_volume_sum_running rs) evict_v) volume\<rparr>)"

definition dq_expire :: "nat \<Rightarrow> bool \<Rightarrow> nat \<Rightarrow> slot_deque \<Rightarrow> slot_deque" where
  "dq_expire W evict slot d =
     (let front_expires = (of_bool (evict \<and> 0 < dq_size d \<and> dq_ring d ! dq_head d = slot) :: nat)
      in d\<lparr>dq_head := (dq_head d + front_expires) AND (W - 1), dq_size := dq_size d - front_expires\<rparr>)"

fun dq_pop_back :: "nat \<Rightarrow> (FPN_Binary \<Rightarrow> FPN_Binary \<Rightarrow> bool) \<Rightarrow> FPN_Binary list \<Rightarrow> FPN_Binary \<Rightarrow> nat list \<Rightarrow> nat \<Rightarrow> nat \<Rightarrow> nat" where
  "dq_pop_back W drops buf v ring head 0 = 0"
| "dq_pop_back W drops buf v ring head (Suc sz) =
     (let back_pos = (head + Suc sz - 1) AND (W - 1); back_slot = ring ! back_pos
      in if drops (buf ! back_slot) v then dq_pop_back W drops buf v ring head sz else Suc sz)"

definition dq_push :: "nat \<Rightarrow> (FPN_Binary \<Rightarrow> FPN_Binary \<Rightarrow> bool) \<Rightarrow> FPN_Binary list \<Rightarrow> FPN_Binary \<Rightarrow> nat \<Rightarrow> slot_deque \<Rightarrow> slot_deque" where
  "dq_push W drops buf v slot d =
     (let sz = dq_pop_back W drops buf v (dq_ring d) (dq_head d) (dq_size d)
      in d\<lparr>dq_ring := (dq_ring d)[(dq_head d + sz) AND (W - 1) := slot], dq_size := sz + 1\<rparr>)"

definition push_deques :: "nat \<Rightarrow> bool \<Rightarrow> FPN_Binary \<Rightarrow> FPN_Binary \<Rightarrow> RollingStats \<Rightarrow> RollingStats" where
  "push_deques W evict price volume rs =
     (let slot = rs_head rs;
          mn = dq_push W FPN_GreaterThan (rs_price_buf rs) price slot (dq_expire W evict slot (rs_min_dq rs));
          mx = dq_push W FPN_LessThan (rs_price_buf rs) price slot (dq_expire W evict slot (rs_max_dq rs));
          vmx = dq_push W FPN_LessThan (rs_volume_buf rs) volume slot (dq_expire W evict slot (rs_vmax_dq rs))
      in rs\<lparr>rs_min_dq := mn, rs_max_dq := mx, rs_vmax_dq := vmx,
            rs_price_min := rs_price_buf rs ! (dq_ring mn ! dq_head mn),
            rs_price_max := rs_price_buf rs ! (dq_ring mx ! dq_head mx),
            rs_volume_max := rs_volume_buf rs ! (dq_ring vmx ! dq_head vmx)\<rparr>)"

definition push_advance :: "nat \<Rightarrow> RollingStats \<Rightarrow> RollingStats" where
  "push_advance W rs =
     rs\<lparr>rs_head := (rs_head rs + 1) AND (W - 1), rs_count := rs_count rs + of_bool (rs_count rs < W)\<rparr>"

definition push_delta :: "RollingStats \<Rightarrow> RollingStats" where
  "push_delta rs =
     (let total_dir_vol = FPN_AddSat (rs_buy_volume_sum rs) (rs_sell_volume_sum rs);
          total_nz_mask = - of_bool (\<not> FPN_IsZero total_dir_vol);
          safe_total_dir = FPN_BlendOnMask total_dir_vol fpn_one total_nz_mask;
          diff = FPN_Sub (rs_buy_volume_sum rs) (rs_sell_volume_sum rs);
          raw_delta = FPN_DivNoAssert diff safe_total_dir
      in rs\<lparr>rs_volume_delta := FPN_BlendOnMask raw_delta FPN_Zero total_nz_mask\<rparr>)"

definition push_averages :: "nat \<Rightarrow> RollingStats \<Rightarrow> RollingStats" where
  "push_averages W rs =
     (let n = rs_count rs;
          n_fp = FPN_FromInt (word_of_nat n);
          recip = GetReciprocalLUT W ! n;
          range = FPN_Sub (rs_price_max rs) (rs_price_min rs);
          ss_total = FPN_SubSat (FPN_Mul n_fp (rs_price_sum_y2_running rs))
                       (FPN_Mul (rs_price_sum_running rs) (rs_price_sum_running rs))
      in rs\<lparr>rs_price_avg := FPN_Mul (rs_price_sum_running rs) recip,
            rs_volume_avg := FPN_Mul (rs_volume_sum_running rs) recip,
            rs_price_stddev := FPN_DivNoAssert range fpn_four,
            rs_price_variance := FPN_Mul ss_total (FPN_Mul recip recip)\<rparr>)"

definition push_slopes :: "RollingStats \<Rightarrow> RollingStats" where
  "push_slopes rs =
     (let n = rs_count rs; n_l = int n;
          n_fp = FPN_FromInt (word_of_nat n);
          sum_x = FPN_FromInt (word_of_int (n_l * (n_l - 1) div 2));
          sum_x2 = FPN_FromInt (word_of_int (n_l * (n_l - 1) * (2 * n_l - 1) div 6));
          ss_total = FPN_SubSat (FPN_Mul n_fp (rs_price_sum_y2_running rs))
                       (FPN_Mul (rs_price_sum_running rs) (rs_price_sum_running rs));
          numerator = FPN_Sub (FPN_Mul n_fp (rs_price_sum_xy_running rs)) (FPN_Mul sum_x (rs_price_sum_running rs));
          denominator = FPN_Sub (FPN_Mul n_fp sum_x2) (FPN_Mul sum_x sum_x);
          denom_nz_mask = - of_bool (\<not> FPN_IsZero denominator);
          safe_denom = FPN_BlendOnMask denominator fpn_one denom_nz_mask;
          slope = FPN_BlendOnMask (FPN_DivNoAssert numerator safe_denom) FPN_Zero denom_nz_mask;
          total_xn_mask = denom_nz_mask AND - of_bool (\<not> FPN_IsZero ss_total);
          safe_total = FPN_BlendOnMask ss_total fpn_one total_xn_mask;
          raw_r2 = FPN_Mul slope (FPN_DivNoAssert numerator safe_total);
          vol_num = FPN_Sub (FPN_Mul n_fp (rs_vol_sum_xy_running rs)) (FPN_Mul sum_x (rs_volume_sum_running rs));
          vol_slope = FPN_DivNoAssert vol_num safe_denom
      in rs\<lparr>rs_price_slope := slope,
            rs_price_r_squared := FPN_BlendOnMask raw_r2 FPN_Zero total_xn_mask,
            rs_volume_slope := FPN_BlendOnMask vol_slope FPN_Zero denom_nz_mask\<rparr>)"

definition RollingStats_Push :: "nat \<Rightarrow> FPN_Binary \<Rightarrow> FPN_Binary \<Rightarrow> u32 \<Rightarrow> RollingStats \<Rightarrow> RollingStats" where
  "RollingStats_Push W price volume is_buyer_maker old =
     (let rs = push_flow W price volume is_buyer_maker old;
          rs = push_vwap price rs;
          rs = push_store price volume is_buyer_maker rs;
          rs = push_sums W old price volume rs;
          rs = push_deques W (W \<le> rs_count old) price volume rs;
          rs = push_advance W rs;
          rs = push_delta rs
      in if rs_count rs < 2 then rs else push_slopes (push_averages W rs))"

subsection \<open>What the strategies ask\<close>

definition RollingStats_VolumeSignificant :: "RollingStats \<Rightarrow> FPN_Binary \<Rightarrow> FPN_Binary \<Rightarrow> bool" where
  "RollingStats_VolumeSignificant rs tick_volume multiplier =
     FPN_GreaterThanOrEqual tick_volume (FPN_Mul (rs_volume_avg rs) multiplier)"

definition RollingStats_EntrySpacing :: "RollingStats \<Rightarrow> FPN_Binary \<Rightarrow> FPN_Binary" where
  "RollingStats_EntrySpacing rs spacing_multiplier =
     (let vol_spacing = FPN_Mul (rs_price_stddev rs) spacing_multiplier;
          min_floor = FPN_Mul (rs_price_avg rs) (FPN_FromDouble (f64_round (3 / 10000)))
      in FPN_Max vol_spacing min_floor)"

definition RollingStats_BuyPrice :: "RollingStats \<Rightarrow> FPN_Binary \<Rightarrow> FPN_Binary" where
  "RollingStats_BuyPrice rs offset_pct =
     (let offset = FPN_Mul (rs_price_avg rs) offset_pct in FPN_Sub (rs_price_avg rs) offset)"

subsection \<open>Constants\<close>

lemma f64_round_int:
  fixes m :: int
  assumes "\<bar>m\<bar> < 2 ^ 53"
  shows "f64_round (of_int m) = F64_Fin (of_int m)"
proof (cases "m = 0")
  case False
  let ?q = "of_int m :: rat"
  let ?e = "f64_exponent ?q"
  have q0: "?q \<noteq> 0" using False by simp
  note eb = f64_exponent_bounds [OF q0]
  have "1 \<le> \<bar>m\<bar>" using False by linarith
  then have one: "1 \<le> \<bar>?q\<bar>" by (metis of_int_1 of_int_abs of_int_le_iff)
  have "0 < ?e + 1"
  proof (rule ccontr)
    assume "\<not> 0 < ?e + 1"
    then have "(2 :: rat) powi (?e + 1) \<le> 2 powi 0" by (intro power_int_increasing) simp_all
    then show False using eb(2) one by simp
  qed
  moreover have "?e < 53"
  proof (rule ccontr)
    assume "\<not> ?e < 53"
    then have "(2 :: rat) powi 53 \<le> 2 powi ?e" by (intro power_int_increasing) simp_all
    then have "2 ^ 53 \<le> \<bar>?q\<bar>" using eb(1) by (simp only: power_int_numeral)
    then have "of_int (2 ^ 53) \<le> (of_int \<bar>m\<bar> :: rat)" by simp
    then show False using assms by (simp only: of_int_le_iff)
  qed
  ultimately obtain j where j: "52 - ?e = int j" "0 \<le> ?e" using zero_le_imp_eq_int [of "52 - ?e"] by auto
  have u: "max (?e - 52) (- 1074) = - int j" using j by simp
  have p: "?q / 2 powi (- int j) = of_int (m * 2 ^ j)" by (simp add: power_int_minus field_simps)
  have he: "rat_half_even (of_int z) = z" for z by (simp add: rat_half_even_def)
  then have v: "of_int (rat_half_even (?q / 2 powi (- int j))) * 2 powi (- int j) = ?q"
    unfolding p he by (simp add: power_int_minus field_simps)
  have "of_int \<bar>m\<bar> < (of_int (2 ^ 1024) :: rat)"
    unfolding of_int_less_iff by (rule less_trans [OF assms]) simp
  then have "\<not> 2 ^ 1024 \<le> \<bar>?q\<bar>" by simp
  then show ?thesis using q0 by (simp only: f64_round_def u Let_def v if_False)
qed (simp add: f64_round_def)

lemma f64_round_small: "f64_round 0 = F64_Fin 0" "f64_round 1 = F64_Fin 1" "f64_round 4 = F64_Fin 4"
  using f64_round_int [of 0] f64_round_int [of 1] f64_round_int [of 4] by simp_all

lemma fpn_one_int: "bint fpn_one = 2 ^ 64"
  by (simp add: fpn_one_def fp2_from_double_def f64_le_def f64_eq_def f64_sub_def f64_round_small i128_cneg_word)

lemma fpn_four_int: "bint fpn_four = 2 ^ 66"
  by (simp add: fpn_four_def fp2_from_double_def f64_le_def f64_eq_def f64_sub_def f64_round_small i128_cneg_word)

lemma and_ring: "W = 2 ^ k \<Longrightarrow> (i :: nat) AND (W - 1) = i mod W"
  by (simp only: take_bit_eq_mask [symmetric] mask_eq_exp_minus_1 [symmetric] take_bit_eq_mod)

lemma and_ring_Suc: "W = 2 ^ k \<Longrightarrow> (i :: nat) AND (W - Suc 0) = i mod W"
  using and_ring by simp

subsection \<open>Monotone deques\<close>

text \<open>A deque stands for a list of sample positions; its ring holds their slots from the head on.\<close>

definition dq_rep :: "nat \<Rightarrow> slot_deque \<Rightarrow> nat list \<Rightarrow> bool" where
  "dq_rep W d js \<longleftrightarrow> length (dq_ring d) = W \<and> dq_head d < W \<and> dq_size d = length js \<and> length js \<le> W \<and>
     (\<forall>i < length js. dq_ring d ! ((dq_head d + i) mod W) = js ! i mod W)"

lemma dq_rep_init: "0 < W \<Longrightarrow> dq_rep W (dq_init W) []"
  by (simp add: dq_rep_def dq_init_def)

lemma dq_expire_rep:
  assumes W: "W = 2 ^ k" and r: "dq_rep W d js"
  shows "dq_rep W (dq_expire W e slot d) (if e \<and> js \<noteq> [] \<and> hd js mod W = slot then tl js else js)"
proof -
  have h: "dq_ring d ! dq_head d = hd js mod W" if "js \<noteq> []"
    using r that by (auto simp: dq_rep_def hd_conv_nth dest!: spec [of _ 0])
  have c: "(e \<and> 0 < dq_size d \<and> dq_ring d ! dq_head d = slot) = (e \<and> js \<noteq> [] \<and> hd js mod W = slot)"
    using h r by (auto simp: dq_rep_def)
  have W0: "0 < W" by (simp add: W)
  show ?thesis
  proof (cases "e \<and> js \<noteq> [] \<and> hd js mod W = slot")
    case True
    have m: "((dq_head d + 1) mod W + i) mod W = (dq_head d + Suc i) mod W" for i
      by (simp add: mod_add_left_eq)
    have "dq_ring d ! ((dq_head d + Suc i) mod W) = js ! Suc i mod W" if "i < length js - 1" for i
      using r that by (auto simp: dq_rep_def dest!: spec [of _ "Suc i"])
    then show ?thesis
      unfolding dq_expire_def c and_ring [OF W] using True r W0
      by (simp add: dq_rep_def Let_def nth_tl m [simplified]) linarith
  next
    case False
    then have f: "(e \<and> js \<noteq> [] \<and> hd js mod W = slot) = False" by blast
    show ?thesis unfolding dq_expire_def c f and_ring [OF W] using r by (simp add: dq_rep_def)
  qed
qed

lemma dq_pop_back_rep:
  assumes W: "W = 2 ^ k"
    and "\<forall>i < length js. ring ! ((head + i) mod W) = js ! i mod W" "\<forall>j \<in> set js. buf ! (j mod W) = g j"
  shows "dq_pop_back W drops buf v ring head (length js) = length (dropWhile (\<lambda>j. drops (g j) v) (rev js))"
  using assms(2,3)
proof (induction js rule: rev_induct)
  case (snoc j js)
  have "ring ! ((head + length js) mod W) = j mod W" using snoc.prems(1) by (auto dest!: spec [of _ "length js"])
  moreover have "\<forall>i < length js. ring ! ((head + i) mod W) = js ! i mod W"
  proof (intro allI impI)
    fix i assume "i < length js"
    then show "ring ! ((head + i) mod W) = js ! i mod W" using snoc.prems(1) [rule_format, of i] by (simp add: nth_append)
  qed
  ultimately show ?case using snoc.IH snoc.prems(2) by (simp add: and_ring_Suc [OF W])
qed simp

lemma dropWhile_back:
  assumes "sorted_wrt (\<lambda>a b. \<not> drops (g a) (g b)) js"
    and "\<And>a b. \<not> drops a b \<Longrightarrow> \<not> drops b v \<Longrightarrow> \<not> drops a v"
  shows "rev (dropWhile (\<lambda>j. drops (g j) v) (rev js)) = filter (\<lambda>j. \<not> drops (g j) v) js"
  using assms(1)
proof (induction js rule: rev_induct)
  case (snoc j js)
  show ?case
  proof (cases "drops (g j) v")
    case True
    then show ?thesis using snoc by (simp add: sorted_wrt_append)
  next
    case False
    then have "\<forall>a \<in> set js. \<not> drops (g a) v" using snoc.prems assms(2) by (auto simp: sorted_wrt_append)
    then show ?thesis using False by (simp add: filter_id_conv)
  qed
qed simp

lemma dq_push_rep:
  assumes W: "W = 2 ^ k" and r: "dq_rep W d js" and l: "length js < W"
    and b: "\<forall>j \<in> set js. buf ! (j mod W) = g j"
    and s: "sorted_wrt (\<lambda>a b. \<not> drops (g a) (g b)) js"
    and t: "\<And>a b. \<not> drops a b \<Longrightarrow> \<not> drops b v \<Longrightarrow> \<not> drops a v"
  shows "dq_rep W (dq_push W drops buf v (n mod W) d) (filter (\<lambda>j. \<not> drops (g j) v) js @ [n])"
proof -
  let ?ks = "filter (\<lambda>j. \<not> drops (g j) v) js"
  have ks: "?ks = rev (dropWhile (\<lambda>j. drops (g j) v) (rev js))" by (rule dropWhile_back [OF s t, symmetric])
  have pre: "?ks = take (length ?ks) js"
  proof -
    have "js = rev (dropWhile (\<lambda>j. drops (g j) v) (rev js)) @ rev (takeWhile (\<lambda>j. drops (g j) v) (rev js))"
      by (metis rev_append rev_rev_ident takeWhile_dropWhile_id)
    then show ?thesis unfolding ks by (metis append_eq_conv_conj)
  qed
  have le: "length ?ks < W" using length_filter_le [of _ js] l by (rule le_less_trans)
  have nth: "?ks ! i = js ! i" if "i < length ?ks" for i using pre that by (metis nth_take)
  have sz: "dq_pop_back W drops buf v (dq_ring d) (dq_head d) (dq_size d) = length ?ks"
    using dq_pop_back_rep [OF W _ b, of "dq_ring d" "dq_head d" drops v] r by (simp add: dq_rep_def ks)
  have ne: "(dq_head d + length ?ks) mod W \<noteq> (dq_head d + i) mod W" if "i < length ?ks" for i
  proof
    assume "(dq_head d + length ?ks) mod W = (dq_head d + i) mod W"
    then have "W dvd (dq_head d + length ?ks) - (dq_head d + i)" by (subst (asm) mod_eq_dvd_iff_nat) (use that in simp_all)
    then have "W \<le> length ?ks - i" using that by (intro dvd_imp_le) simp_all
    then show False using le by linarith
  qed
  have W0: "0 < W" by (simp add: W)
  have ring: "dq_ring (dq_push W drops buf v (n mod W) d) = (dq_ring d)[(dq_head d + length ?ks) mod W := n mod W]"
    and hd: "dq_head (dq_push W drops buf v (n mod W) d) = dq_head d"
    and size: "dq_size (dq_push W drops buf v (n mod W) d) = length ?ks + 1"
    by (simp_all add: dq_push_def Let_def sz and_ring_Suc [OF W])
  have L: "length (dq_ring d) = W" "dq_head d < W" using r by (simp_all add: dq_rep_def)
  have "(dq_ring d)[(dq_head d + length ?ks) mod W := n mod W] ! ((dq_head d + i) mod W) = (?ks @ [n]) ! i mod W"
    if i: "i < length (?ks @ [n])" for i
  proof (cases "i = length ?ks")
    case False
    then have i': "i < length ?ks" using i by simp
    have "i < length js" using i' length_filter_le [of _ js] by (rule less_le_trans)
    then have "dq_ring d ! ((dq_head d + i) mod W) = js ! i mod W" using r by (simp add: dq_rep_def)
    then show ?thesis using i' ne [OF i'] nth [OF i'] by (simp add: nth_append)
  qed (use L W0 in simp)
  then show ?thesis unfolding dq_rep_def ring hd size using L le by simp
qed

subsection \<open>The extreme of a sliding window\<close>

text \<open>What the order of a deque must satisfy: a strict weak order.\<close>

locale eviction_order =
  fixes drops :: "FPN_Binary \<Rightarrow> FPN_Binary \<Rightarrow> bool"
  assumes irrefl: "\<not> drops a a"
    and trans: "drops a b \<Longrightarrow> drops b c \<Longrightarrow> drops a c"
    and keep: "\<not> drops a b \<Longrightarrow> \<not> drops b c \<Longrightarrow> \<not> drops a c"
begin

text \<open>The samples of the window \<open>[lo, n)\<close> that no later sample has displaced.\<close>

definition survivors :: "(nat \<Rightarrow> FPN_Binary) \<Rightarrow> nat \<Rightarrow> nat \<Rightarrow> nat list" where
  "survivors f lo n = filter (\<lambda>j. \<forall>k \<in> {j<..<n}. \<not> drops (f j) (f k)) [lo..<n]"

lemma survivors_mono: "sorted_wrt (\<lambda>a b. \<not> drops (f a) (f b)) (survivors f lo n)"
proof -
  have "sorted_wrt (\<lambda>a b. \<not> drops (f a) (f b)) (filter (\<lambda>j. \<forall>k \<in> {j<..<n}. \<not> drops (f j) (f k)) xs)"
    if "sorted_wrt (<) xs" "set xs \<subseteq> {..<n}" for xs
    using that by (induction xs) auto
  from this [of "[lo..<n]"] show ?thesis unfolding survivors_def by (simp add: subset_iff)
qed

lemma survivors_Suc:
  assumes "lo \<le> n"
  shows "survivors f lo (Suc n) = filter (\<lambda>j. \<not> drops (f j) (f n)) (survivors f lo n) @ [n]"
proof -
  have e: "(\<forall>k \<in> {j<..<Suc n}. \<not> drops (f j) (f k)) \<longleftrightarrow> \<not> drops (f j) (f n) \<and> (\<forall>k \<in> {j<..<n}. \<not> drops (f j) (f k))"
    if "j < n" for j
    using that by (auto simp: less_Suc_eq)
  have "filter (\<lambda>j. \<forall>k \<in> {j<..<Suc n}. \<not> drops (f j) (f k)) [lo..<n]
      = filter (\<lambda>j. \<not> drops (f j) (f n) \<and> (\<forall>k \<in> {j<..<n}. \<not> drops (f j) (f k))) [lo..<n]"
    by (rule filter_cong) (use e in auto)
  moreover have "{n<..<Suc n} = {}" by auto
  ultimately show ?thesis using assms by (simp add: survivors_def conj_commute)
qed

lemma survivors_tail:
  assumes "lo < n"
  shows "survivors f (Suc lo) n =
    (if survivors f lo n \<noteq> [] \<and> hd (survivors f lo n) = lo then tl (survivors f lo n) else survivors f lo n)"
proof -
  have u: "[lo..<n] = lo # [Suc lo..<n]" by (rule upt_conv_Cons [OF assms])
  have "hd (survivors f (Suc lo) n) \<noteq> lo" if "survivors f (Suc lo) n \<noteq> []"
    using hd_in_set [OF that] by (auto simp: survivors_def)
  moreover have "survivors f lo n = (if \<forall>k \<in> {lo<..<n}. \<not> drops (f lo) (f k) then [lo] else []) @ survivors f (Suc lo) n"
    by (simp add: survivors_def u)
  ultimately show ?thesis by (auto split: if_splits)
qed

lemma survivors_front:
  assumes "lo < n"
  shows "survivors f lo n \<noteq> []" "lo \<le> hd (survivors f lo n)" "hd (survivors f lo n) < n"
    "\<forall>j \<in> {lo..<n}. \<not> drops (f (hd (survivors f lo n))) (f j)"
proof -
  have "n - 1 \<in> set (survivors f lo n)" using assms by (auto simp: survivors_def)
  then show ne: "survivors f lo n \<noteq> []" by auto
  let ?h = "hd (survivors f lo n)"
  have h: "?h \<in> set (survivors f lo n)" using ne by (rule hd_in_set)
  then show b: "lo \<le> ?h" "?h < n" by (auto simp: survivors_def)
  have after: "\<not> drops (f ?h) (f j)" if "?h < j" "j < n" for j using h that by (auto simp: survivors_def)
  have first: "?h \<le> j" if "j \<in> set (survivors f lo n)" for j
  proof -
    have "sorted (survivors f lo n)" unfolding survivors_def by (rule sorted_filter [of id, simplified]) simp
    then show ?thesis using that ne by (cases "survivors f lo n") auto
  qed
  have "\<not> drops (f ?h) (f j)" if "lo \<le> j" "j < n" for j
    using that
  proof (induction "n - j" arbitrary: j rule: less_induct)
    case less
    consider "?h < j" | "j = ?h" | "j < ?h" by linarith
    then show ?case
    proof cases
      case 3
      then have "j \<notin> set (survivors f lo n)" using first by fastforce
      then obtain k where k: "j < k" "k < n" "drops (f j) (f k)" using less.prems by (auto simp: survivors_def)
      have "\<not> drops (f ?h) (f k)" using less.hyps [of k] k less.prems by simp
      then show ?thesis using trans [OF _ k(3)] by blast
    qed (use after less.prems irrefl in auto)
  qed
  then show "\<forall>j \<in> {lo..<n}. \<not> drops (f ?h) (f j)" by simp
qed

lemma deque_step:
  assumes W: "W = 2 ^ k" and r: "dq_rep W d (survivors f (n - min n W) n)"
    and b: "\<forall>j. Suc n - min (Suc n) W \<le> j \<and> j < n \<longrightarrow> buf ! (j mod W) = f j"
  shows "dq_rep W (dq_push W drops buf (f n) (n mod W) (dq_expire W (W \<le> min n W) (n mod W) d))
    (survivors f (Suc n - min (Suc n) W) (Suc n))"
proof -
  let ?lo = "n - min n W" and ?lo' = "Suc n - min (Suc n) W"
  have W0: "0 < W" by (simp add: W)
  have e: "dq_rep W (dq_expire W (W \<le> min n W) (n mod W) d) (survivors f ?lo' n)"
  proof (cases "W \<le> n")
    case True
    then have lo: "?lo = n - W" "?lo' = Suc (n - W)" by simp_all
    have h: "hd (survivors f (n - W) n) mod W = n mod W \<longleftrightarrow> hd (survivors f (n - W) n) = n - W"
    proof
      let ?h = "hd (survivors f (n - W) n)"
      assume "?h mod W = n mod W"
      moreover have "n - W \<le> ?h" "?h < n" using survivors_front(2,3) [of "n - W" n f] True W0 by simp_all
      ultimately have "W dvd n - ?h" by (subst (asm) eq_commute, subst (asm) mod_eq_dvd_iff_nat) simp_all
      then have "W \<le> n - ?h" using \<open>?h < n\<close> by (intro dvd_imp_le) simp_all
      then show "?h = n - W" using \<open>n - W \<le> ?h\<close> \<open>?h < n\<close> True by linarith
    qed (use True in \<open>simp add: mod_diff_right_eq le_mod_geq\<close>)
    have "(if (W \<le> min n W) \<and> survivors f ?lo n \<noteq> [] \<and> hd (survivors f ?lo n) mod W = n mod W
        then tl (survivors f ?lo n) else survivors f ?lo n) = survivors f ?lo' n"
      unfolding lo h using survivors_tail [of "n - W" n f] True W0 by simp
    then show ?thesis using dq_expire_rep [OF W r, of "W \<le> min n W" "n mod W"] by simp
  next
    case False
    then have "?lo = ?lo'" "\<not> W \<le> min n W" by simp_all
    then show ?thesis using dq_expire_rep [OF W r, of "W \<le> min n W" "n mod W"] by simp
  qed
  have "length (survivors f ?lo' n) \<le> n - ?lo'"
    unfolding survivors_def using length_filter_le [of _ "[?lo'..<n]"] by simp
  then have l: "length (survivors f ?lo' n) < W" using W0 by linarith
  have "\<forall>j \<in> set (survivors f ?lo' n). buf ! (j mod W) = f j"
    using b by (auto simp: survivors_def)
  from dq_push_rep [OF W e l this survivors_mono, of "f n" n] keep
  show ?thesis by (subst survivors_Suc) (use W0 in auto)
qed

text \<open>The front of the ring is the extreme of the window.\<close>

lemma deque_front:
  assumes "dq_rep W d (survivors f lo n)" "lo < n" "\<forall>j. lo \<le> j \<and> j < n \<longrightarrow> buf ! (j mod W) = f j"
  shows "\<exists>h. lo \<le> h \<and> h < n \<and> buf ! (dq_ring d ! dq_head d) = f h \<and> (\<forall>j \<in> {lo..<n}. \<not> drops (f h) (f j))"
proof -
  note fr = survivors_front [OF assms(2), of f]
  have "dq_ring d ! dq_head d = hd (survivors f lo n) mod W"
    using assms(1) fr(1) by (auto simp: dq_rep_def hd_conv_nth dest!: spec [of _ 0])
  then show ?thesis using fr assms(3) by (intro exI [of _ "hd (survivors f lo n)"]) simp
qed

end

interpretation falling: eviction_order FPN_GreaterThan
  by unfold_locales auto

interpretation rising: eviction_order FPN_LessThan
  by unfold_locales auto

subsection \<open>What each phase leaves alone\<close>

lemma push_flow_frame [simp]:
  "rs_head (push_flow W p v m rs) = rs_head rs" "rs_count (push_flow W p v m rs) = rs_count rs" "rs_price_sum_running
  (push_flow W p v m rs) = rs_price_sum_running rs" "rs_price_sum_y2_running (push_flow W p v m rs) = rs_price_sum_y2_running
  rs" "rs_price_sum_xy_running (push_flow W p v m rs) = rs_price_sum_xy_running rs" "rs_volume_sum_running (push_flow W p v m
  rs) = rs_volume_sum_running rs" "rs_vol_sum_xy_running (push_flow W p v m rs) = rs_vol_sum_xy_running rs" "rs_price_buf
  (push_flow W p v m rs) = rs_price_buf rs" "rs_volume_buf (push_flow W p v m rs) = rs_volume_buf rs" "rs_pv_buf (push_flow W
  p v m rs) = rs_pv_buf rs" "rs_side_bits (push_flow W p v m rs) = rs_side_bits rs" "rs_min_dq (push_flow W p v m rs) =
  rs_min_dq rs" "rs_max_dq (push_flow W p v m rs) = rs_max_dq rs" "rs_vmax_dq (push_flow W p v m rs) = rs_vmax_dq rs"
  "rs_price_min (push_flow W p v m rs) = rs_price_min rs" "rs_price_max (push_flow W p v m rs) = rs_price_max rs"
  "rs_volume_max (push_flow W p v m rs) = rs_volume_max rs"
  by (simp_all add: push_flow_def Let_def)

lemma push_vwap_frame [simp]:
  "rs_head (push_vwap p rs) = rs_head rs" "rs_count (push_vwap p rs) = rs_count rs" "rs_buy_volume_sum (push_vwap p rs) =
  rs_buy_volume_sum rs" "rs_sell_volume_sum (push_vwap p rs) = rs_sell_volume_sum rs" "rs_pv_sum (push_vwap p rs) = rs_pv_sum
  rs" "rs_vol_sum (push_vwap p rs) = rs_vol_sum rs" "rs_price_sum_running (push_vwap p rs) = rs_price_sum_running rs"
  "rs_price_sum_y2_running (push_vwap p rs) = rs_price_sum_y2_running rs" "rs_price_sum_xy_running (push_vwap p rs) =
  rs_price_sum_xy_running rs" "rs_volume_sum_running (push_vwap p rs) = rs_volume_sum_running rs" "rs_vol_sum_xy_running
  (push_vwap p rs) = rs_vol_sum_xy_running rs" "rs_price_buf (push_vwap p rs) = rs_price_buf rs" "rs_volume_buf (push_vwap p
  rs) = rs_volume_buf rs" "rs_pv_buf (push_vwap p rs) = rs_pv_buf rs" "rs_side_bits (push_vwap p rs) = rs_side_bits rs"
  "rs_min_dq (push_vwap p rs) = rs_min_dq rs" "rs_max_dq (push_vwap p rs) = rs_max_dq rs" "rs_vmax_dq (push_vwap p rs) =
  rs_vmax_dq rs" "rs_price_min (push_vwap p rs) = rs_price_min rs" "rs_price_max (push_vwap p rs) = rs_price_max rs"
  "rs_volume_max (push_vwap p rs) = rs_volume_max rs"
  by (simp_all add: push_vwap_def Let_def)

lemma push_store_frame [simp]:
  "rs_head (push_store p v m rs) = rs_head rs" "rs_count (push_store p v m rs) = rs_count rs" "rs_buy_volume_sum (push_store
  p v m rs) = rs_buy_volume_sum rs" "rs_sell_volume_sum (push_store p v m rs) = rs_sell_volume_sum rs" "rs_pv_sum (push_store
  p v m rs) = rs_pv_sum rs" "rs_vol_sum (push_store p v m rs) = rs_vol_sum rs" "rs_price_sum_running (push_store p v m rs) =
  rs_price_sum_running rs" "rs_price_sum_y2_running (push_store p v m rs) = rs_price_sum_y2_running rs"
  "rs_price_sum_xy_running (push_store p v m rs) = rs_price_sum_xy_running rs" "rs_volume_sum_running (push_store p v m rs) =
  rs_volume_sum_running rs" "rs_vol_sum_xy_running (push_store p v m rs) = rs_vol_sum_xy_running rs" "rs_min_dq (push_store p
  v m rs) = rs_min_dq rs" "rs_max_dq (push_store p v m rs) = rs_max_dq rs" "rs_vmax_dq (push_store p v m rs) = rs_vmax_dq rs"
  "rs_price_min (push_store p v m rs) = rs_price_min rs" "rs_price_max (push_store p v m rs) = rs_price_max rs"
  "rs_volume_max (push_store p v m rs) = rs_volume_max rs"
  by (simp_all add: push_store_def Let_def)

lemma push_sums_frame [simp]:
  "rs_head (push_sums W old p v rs) = rs_head rs" "rs_count (push_sums W old p v rs) = rs_count rs" "rs_buy_volume_sum
  (push_sums W old p v rs) = rs_buy_volume_sum rs" "rs_sell_volume_sum (push_sums W old p v rs) = rs_sell_volume_sum rs"
  "rs_pv_sum (push_sums W old p v rs) = rs_pv_sum rs" "rs_vol_sum (push_sums W old p v rs) = rs_vol_sum rs" "rs_price_buf
  (push_sums W old p v rs) = rs_price_buf rs" "rs_volume_buf (push_sums W old p v rs) = rs_volume_buf rs" "rs_pv_buf
  (push_sums W old p v rs) = rs_pv_buf rs" "rs_side_bits (push_sums W old p v rs) = rs_side_bits rs" "rs_min_dq (push_sums W
  old p v rs) = rs_min_dq rs" "rs_max_dq (push_sums W old p v rs) = rs_max_dq rs" "rs_vmax_dq (push_sums W old p v rs) =
  rs_vmax_dq rs" "rs_price_min (push_sums W old p v rs) = rs_price_min rs" "rs_price_max (push_sums W old p v rs) =
  rs_price_max rs" "rs_volume_max (push_sums W old p v rs) = rs_volume_max rs"
  by (simp_all add: push_sums_def Let_def)

lemma push_deques_frame [simp]:
  "rs_head (push_deques W e p v rs) = rs_head rs" "rs_count (push_deques W e p v rs) = rs_count rs" "rs_buy_volume_sum
  (push_deques W e p v rs) = rs_buy_volume_sum rs" "rs_sell_volume_sum (push_deques W e p v rs) = rs_sell_volume_sum rs"
  "rs_pv_sum (push_deques W e p v rs) = rs_pv_sum rs" "rs_vol_sum (push_deques W e p v rs) = rs_vol_sum rs"
  "rs_price_sum_running (push_deques W e p v rs) = rs_price_sum_running rs" "rs_price_sum_y2_running (push_deques W e p v rs)
  = rs_price_sum_y2_running rs" "rs_price_sum_xy_running (push_deques W e p v rs) = rs_price_sum_xy_running rs"
  "rs_volume_sum_running (push_deques W e p v rs) = rs_volume_sum_running rs" "rs_vol_sum_xy_running (push_deques W e p v rs)
  = rs_vol_sum_xy_running rs" "rs_price_buf (push_deques W e p v rs) = rs_price_buf rs" "rs_volume_buf (push_deques W e p v
  rs) = rs_volume_buf rs" "rs_pv_buf (push_deques W e p v rs) = rs_pv_buf rs" "rs_side_bits (push_deques W e p v rs) =
  rs_side_bits rs"
  by (simp_all add: push_deques_def Let_def)

lemma push_advance_frame [simp]:
  "rs_buy_volume_sum (push_advance W rs) = rs_buy_volume_sum rs" "rs_sell_volume_sum (push_advance W rs) = rs_sell_volume_sum
  rs" "rs_pv_sum (push_advance W rs) = rs_pv_sum rs" "rs_vol_sum (push_advance W rs) = rs_vol_sum rs" "rs_price_sum_running
  (push_advance W rs) = rs_price_sum_running rs" "rs_price_sum_y2_running (push_advance W rs) = rs_price_sum_y2_running rs"
  "rs_price_sum_xy_running (push_advance W rs) = rs_price_sum_xy_running rs" "rs_volume_sum_running (push_advance W rs) =
  rs_volume_sum_running rs" "rs_vol_sum_xy_running (push_advance W rs) = rs_vol_sum_xy_running rs" "rs_price_buf
  (push_advance W rs) = rs_price_buf rs" "rs_volume_buf (push_advance W rs) = rs_volume_buf rs" "rs_pv_buf (push_advance W
  rs) = rs_pv_buf rs" "rs_side_bits (push_advance W rs) = rs_side_bits rs" "rs_min_dq (push_advance W rs) = rs_min_dq rs"
  "rs_max_dq (push_advance W rs) = rs_max_dq rs" "rs_vmax_dq (push_advance W rs) = rs_vmax_dq rs" "rs_price_min (push_advance
  W rs) = rs_price_min rs" "rs_price_max (push_advance W rs) = rs_price_max rs" "rs_volume_max (push_advance W rs) =
  rs_volume_max rs"
  by (simp_all add: push_advance_def Let_def)

lemma push_delta_frame [simp]:
  "rs_head (push_delta rs) = rs_head rs" "rs_count (push_delta rs) = rs_count rs" "rs_buy_volume_sum (push_delta rs) =
  rs_buy_volume_sum rs" "rs_sell_volume_sum (push_delta rs) = rs_sell_volume_sum rs" "rs_pv_sum (push_delta rs) = rs_pv_sum
  rs" "rs_vol_sum (push_delta rs) = rs_vol_sum rs" "rs_price_sum_running (push_delta rs) = rs_price_sum_running rs"
  "rs_price_sum_y2_running (push_delta rs) = rs_price_sum_y2_running rs" "rs_price_sum_xy_running (push_delta rs) =
  rs_price_sum_xy_running rs" "rs_volume_sum_running (push_delta rs) = rs_volume_sum_running rs" "rs_vol_sum_xy_running
  (push_delta rs) = rs_vol_sum_xy_running rs" "rs_price_buf (push_delta rs) = rs_price_buf rs" "rs_volume_buf (push_delta rs)
  = rs_volume_buf rs" "rs_pv_buf (push_delta rs) = rs_pv_buf rs" "rs_side_bits (push_delta rs) = rs_side_bits rs" "rs_min_dq
  (push_delta rs) = rs_min_dq rs" "rs_max_dq (push_delta rs) = rs_max_dq rs" "rs_vmax_dq (push_delta rs) = rs_vmax_dq rs"
  "rs_price_min (push_delta rs) = rs_price_min rs" "rs_price_max (push_delta rs) = rs_price_max rs" "rs_volume_max
  (push_delta rs) = rs_volume_max rs"
  by (simp_all add: push_delta_def Let_def)

lemma push_averages_frame [simp]:
  "rs_head (push_averages W rs) = rs_head rs" "rs_count (push_averages W rs) = rs_count rs" "rs_buy_volume_sum (push_averages
  W rs) = rs_buy_volume_sum rs" "rs_sell_volume_sum (push_averages W rs) = rs_sell_volume_sum rs" "rs_pv_sum (push_averages W
  rs) = rs_pv_sum rs" "rs_vol_sum (push_averages W rs) = rs_vol_sum rs" "rs_price_sum_running (push_averages W rs) =
  rs_price_sum_running rs" "rs_price_sum_y2_running (push_averages W rs) = rs_price_sum_y2_running rs"
  "rs_price_sum_xy_running (push_averages W rs) = rs_price_sum_xy_running rs" "rs_volume_sum_running (push_averages W rs) =
  rs_volume_sum_running rs" "rs_vol_sum_xy_running (push_averages W rs) = rs_vol_sum_xy_running rs" "rs_price_buf
  (push_averages W rs) = rs_price_buf rs" "rs_volume_buf (push_averages W rs) = rs_volume_buf rs" "rs_pv_buf (push_averages W
  rs) = rs_pv_buf rs" "rs_side_bits (push_averages W rs) = rs_side_bits rs" "rs_min_dq (push_averages W rs) = rs_min_dq rs"
  "rs_max_dq (push_averages W rs) = rs_max_dq rs" "rs_vmax_dq (push_averages W rs) = rs_vmax_dq rs" "rs_price_min
  (push_averages W rs) = rs_price_min rs" "rs_price_max (push_averages W rs) = rs_price_max rs" "rs_volume_max (push_averages
  W rs) = rs_volume_max rs"
  by (simp_all add: push_averages_def Let_def)

lemma push_slopes_frame [simp]:
  "rs_head (push_slopes rs) = rs_head rs" "rs_count (push_slopes rs) = rs_count rs" "rs_buy_volume_sum (push_slopes rs) =
  rs_buy_volume_sum rs" "rs_sell_volume_sum (push_slopes rs) = rs_sell_volume_sum rs" "rs_pv_sum (push_slopes rs) = rs_pv_sum
  rs" "rs_vol_sum (push_slopes rs) = rs_vol_sum rs" "rs_price_sum_running (push_slopes rs) = rs_price_sum_running rs"
  "rs_price_sum_y2_running (push_slopes rs) = rs_price_sum_y2_running rs" "rs_price_sum_xy_running (push_slopes rs) =
  rs_price_sum_xy_running rs" "rs_volume_sum_running (push_slopes rs) = rs_volume_sum_running rs" "rs_vol_sum_xy_running
  (push_slopes rs) = rs_vol_sum_xy_running rs" "rs_price_buf (push_slopes rs) = rs_price_buf rs" "rs_volume_buf (push_slopes
  rs) = rs_volume_buf rs" "rs_pv_buf (push_slopes rs) = rs_pv_buf rs" "rs_side_bits (push_slopes rs) = rs_side_bits rs"
  "rs_min_dq (push_slopes rs) = rs_min_dq rs" "rs_max_dq (push_slopes rs) = rs_max_dq rs" "rs_vmax_dq (push_slopes rs) =
  rs_vmax_dq rs" "rs_price_min (push_slopes rs) = rs_price_min rs" "rs_price_max (push_slopes rs) = rs_price_max rs"
  "rs_volume_max (push_slopes rs) = rs_volume_max rs"
  by (simp_all add: push_slopes_def Let_def)

lemma RollingStats_Push_parts:
  fixes rs :: RollingStats and W :: nat and p v :: FPN_Binary and m :: u32
  defines "a \<equiv> push_flow W p v m rs" and "b \<equiv> push_store p v m rs" and "c \<equiv> push_sums W rs p v rs"
  shows "rs_head (RollingStats_Push W p v m rs) = (rs_head rs + 1) AND (W - 1)"
    "rs_count (RollingStats_Push W p v m rs) = rs_count rs + of_bool (rs_count rs < W)"
    "rs_price_buf (RollingStats_Push W p v m rs) = (rs_price_buf rs)[rs_head rs := p]"
    "rs_volume_buf (RollingStats_Push W p v m rs) = (rs_volume_buf rs)[rs_head rs := v]"
    "rs_pv_buf (RollingStats_Push W p v m rs) = (rs_pv_buf rs)[rs_head rs := FPN_Mul p v]"
    "rs_side_bits (RollingStats_Push W p v m rs) = rs_side_bits b"
    "rs_buy_volume_sum (RollingStats_Push W p v m rs) = rs_buy_volume_sum a"
    "rs_sell_volume_sum (RollingStats_Push W p v m rs) = rs_sell_volume_sum a"
    "rs_pv_sum (RollingStats_Push W p v m rs) = rs_pv_sum a"
    "rs_vol_sum (RollingStats_Push W p v m rs) = rs_vol_sum a"
    "rs_price_sum_running (RollingStats_Push W p v m rs) = rs_price_sum_running c"
    "rs_price_sum_y2_running (RollingStats_Push W p v m rs) = rs_price_sum_y2_running c"
    "rs_price_sum_xy_running (RollingStats_Push W p v m rs) = rs_price_sum_xy_running c"
    "rs_volume_sum_running (RollingStats_Push W p v m rs) = rs_volume_sum_running c"
    "rs_vol_sum_xy_running (RollingStats_Push W p v m rs) = rs_vol_sum_xy_running c"
  unfolding a_def b_def c_def
  by (simp_all add: RollingStats_Push_def Let_def push_advance_def push_store_def push_sums_def)

lemma RollingStats_Push_deques:
  fixes rs :: RollingStats and W :: nat and p v :: FPN_Binary and m :: u32
  defines "pb \<equiv> (rs_price_buf rs)[rs_head rs := p]" and "vb \<equiv> (rs_volume_buf rs)[rs_head rs := v]" and "e \<equiv> W \<le> rs_count rs"
  shows "rs_min_dq (RollingStats_Push W p v m rs) = dq_push W FPN_GreaterThan pb p (rs_head rs) (dq_expire W e (rs_head rs) (rs_min_dq rs))"
    "rs_max_dq (RollingStats_Push W p v m rs) = dq_push W FPN_LessThan pb p (rs_head rs) (dq_expire W e (rs_head rs) (rs_max_dq rs))"
    "rs_vmax_dq (RollingStats_Push W p v m rs) = dq_push W FPN_LessThan vb v (rs_head rs) (dq_expire W e (rs_head rs) (rs_vmax_dq rs))"
    "rs_price_min (RollingStats_Push W p v m rs) = pb ! (let d = rs_min_dq (RollingStats_Push W p v m rs) in dq_ring d ! dq_head d)"
    "rs_price_max (RollingStats_Push W p v m rs) = pb ! (let d = rs_max_dq (RollingStats_Push W p v m rs) in dq_ring d ! dq_head d)"
    "rs_volume_max (RollingStats_Push W p v m rs) = vb ! (let d = rs_vmax_dq (RollingStats_Push W p v m rs) in dq_ring d ! dq_head d)"
  unfolding pb_def vb_def e_def
  by (simp_all add: RollingStats_Push_def Let_def push_deques_def push_store_def del: FPN_order)

end
