(* ===== verification/Rolling_Window.thy ===== *)
theory Rolling_Window
  imports Rolling_Stats
begin

text \<open>
  What the statistics of \<^verbatim>\<open>src/ML_Headers/RollingStats.hpp\<close> are after any run of samples: the ring
  holds the last \<open>W\<close> samples, the deques give the extremes of that window, the running sums are the
  sums over it, and the slope is the least-squares slope.
\<close>

subsection \<open>Runs and windows\<close>

type_synonym sample = "FPN_Binary \<times> FPN_Binary \<times> bool"

definition push_sample :: "nat \<Rightarrow> RollingStats \<Rightarrow> sample \<Rightarrow> RollingStats" where
  "push_sample W rs = (\<lambda>(p, v, maker). RollingStats_Push W p v (of_bool maker) rs)"

definition rolling_run :: "nat \<Rightarrow> sample list \<Rightarrow> RollingStats" where
  "rolling_run W xs = foldl (push_sample W) (RollingStats_Init W) xs"

definition window :: "nat \<Rightarrow> 'a list \<Rightarrow> 'a list" where
  "window W xs = drop (length xs - W) xs"

abbreviation price_at :: "sample list \<Rightarrow> nat \<Rightarrow> FPN_Binary" where "price_at xs j \<equiv> fst (xs ! j)"
abbreviation volume_at :: "sample list \<Rightarrow> nat \<Rightarrow> FPN_Binary" where "volume_at xs j \<equiv> fst (snd (xs ! j))"
abbreviation maker_at :: "sample list \<Rightarrow> nat \<Rightarrow> bool" where "maker_at xs j \<equiv> snd (snd (xs ! j))"

abbreviation oldest :: "nat \<Rightarrow> nat \<Rightarrow> nat" where "oldest W n \<equiv> n - min n W"

subsection \<open>The ring and the deques\<close>

definition side_at :: "u64 list \<Rightarrow> nat \<Rightarrow> bool" where
  "side_at bs slot = bit (bs ! drop_bit 6 slot) (slot AND 63)"

definition ring_inv :: "nat \<Rightarrow> sample list \<Rightarrow> RollingStats \<Rightarrow> bool" where
  "ring_inv W xs rs \<longleftrightarrow>
     rs_count rs = min (length xs) W \<and> rs_head rs = length xs mod W \<and>
     length (rs_price_buf rs) = W \<and> length (rs_volume_buf rs) = W \<and> length (rs_pv_buf rs) = W \<and>
     length (rs_side_bits rs) = (W + 63) div 64 \<and>
     (\<forall>j. oldest W (length xs) \<le> j \<and> j < length xs \<longrightarrow>
        rs_price_buf rs ! (j mod W) = price_at xs j \<and> rs_volume_buf rs ! (j mod W) = volume_at xs j \<and>
        rs_pv_buf rs ! (j mod W) = FPN_Mul (price_at xs j) (volume_at xs j) \<and>
        side_at (rs_side_bits rs) (j mod W) = maker_at xs j)"

definition deque_inv :: "nat \<Rightarrow> sample list \<Rightarrow> RollingStats \<Rightarrow> bool" where
  "deque_inv W xs rs \<longleftrightarrow>
     dq_rep W (rs_min_dq rs) (falling.survivors (price_at xs) (oldest W (length xs)) (length xs)) \<and>
     dq_rep W (rs_max_dq rs) (rising.survivors (price_at xs) (oldest W (length xs)) (length xs)) \<and>
     dq_rep W (rs_vmax_dq rs) (rising.survivors (volume_at xs) (oldest W (length xs)) (length xs))"

lemma slot_words: "drop_bit 6 (s :: nat) = s div 64" "(s :: nat) AND 63 = s mod 64"
  using take_bit_eq_mask [of 6 s] by (simp_all add: drop_bit_eq_div take_bit_eq_mod mask_eq_exp_minus_1)

lemma side_update:
  fixes B :: u64
  assumes B: "\<And>i. bit B i \<longleftrightarrow> i = slot mod 64" and "slot < W" "s < W" "length bs = (W + 63) div 64"
  shows "side_at (bs[slot div 64 := (bs ! (slot div 64) AND NOT B) OR (B AND - of_bool m)]) s = (if s = slot then m else side_at bs s)"
proof -
  have w: "slot div 64 < length bs" "s mod 64 < 64" using assms(2,4) by simp_all
  have eq: "s = slot \<longleftrightarrow> s div 64 = slot div 64 \<and> s mod 64 = slot mod 64" by (metis div_mult_mod_eq)
  show ?thesis
    using w by (cases m) (auto simp: side_at_def slot_words nth_list_update bit_or_iff bit_and_iff bit_not_iff B eq)
qed

lemma side_store:
  assumes "rs_head rs < W" "s < W" "length (rs_side_bits rs) = (W + 63) div 64"
  shows "side_at (rs_side_bits (push_store p v m rs)) s = (if s = rs_head rs then m \<noteq> 0 else side_at (rs_side_bits rs) s)"
proof -
  have "bit (push_bit (rs_head rs mod 64) 1 :: u64) i \<longleftrightarrow> i = rs_head rs mod 64" for i
    by (auto simp: bit_exp_iff possible_bit_def)
  from side_update [OF this assms, of "m \<noteq> 0"] show ?thesis
    by (simp only: push_store_def Let_def slot_words RollingStats.select_convs RollingStats.update_convs) (simp add: slot_words)
qed

lemma mod_eq_window:
  assumes "j mod W = n mod W" "j < n" "n < j + W" "0 < (W :: nat)"
  shows False
proof -
  have "W dvd n - j" using assms(1,2) by (subst mod_eq_dvd_iff_nat [symmetric]) simp_all
  then have "W \<le> n - j" using assms(2) by (intro dvd_imp_le) simp_all
  then show False using assms(2,3) by linarith
qed

lemma ring_inv_step:
  assumes W: "W = 2 ^ k" and inv: "ring_inv W xs rs"
  shows "ring_inv W (xs @ [x]) (push_sample W rs x)"
proof -
  obtain p v m where x: "x = (p, v, m)" by (cases x)
  let ?n = "length xs" and ?rs = "RollingStats_Push W p v (of_bool m) rs"
  have W0: "0 < W" by (simp add: W)
  note i = inv [unfolded ring_inv_def]
  have h: "rs_head rs = ?n mod W" "?n mod W < W" using i W0 by simp_all
  have side: "side_at (rs_side_bits ?rs) s = (if s = ?n mod W then m else side_at (rs_side_bits rs) s)" if "s < W" for s
    using side_store [of rs W s p v "of_bool m"] that h i by (simp add: RollingStats_Push_parts(6))
  have new: "rs_price_buf ?rs ! (j mod W) = price_at (xs @ [x]) j \<and> rs_volume_buf ?rs ! (j mod W) = volume_at (xs @ [x]) j \<and>
      rs_pv_buf ?rs ! (j mod W) = FPN_Mul (price_at (xs @ [x]) j) (volume_at (xs @ [x]) j) \<and>
      side_at (rs_side_bits ?rs) (j mod W) = maker_at (xs @ [x]) j"
    if j: "oldest W (Suc ?n) \<le> j" "j < Suc ?n" for j
  proof (cases "j = ?n")
    case True
    then show ?thesis
      using h i by (simp add: RollingStats_Push_parts(3-5) x side)
  next
    case False
    then have j': "j < ?n" "oldest W ?n \<le> j" "?n < j + W" using j W0 by (auto simp: min_def split: if_splits)
    have ne: "j mod W \<noteq> ?n mod W" using mod_eq_window [of j W ?n] j' W0 by blast
    show ?thesis
      using h i j' ne W0 by (simp add: RollingStats_Push_parts(3-5) x side nth_append)
  qed
  have "(?n mod W + 1) AND (W - 1) = Suc ?n mod W" by (simp add: and_ring_Suc [OF W] mod_Suc_eq)
  then show ?thesis
    unfolding ring_inv_def push_sample_def x prod.case
    using new [unfolded x] i by (simp add: RollingStats_Push_parts(1-6)) (simp add: push_store_def Let_def)
qed

lemma survivors_cong:
  assumes "\<And>j. lo \<le> j \<Longrightarrow> j < n \<Longrightarrow> f j = g j"
  shows "falling.survivors f lo n = falling.survivors g lo n" "rising.survivors f lo n = rising.survivors g lo n"
  unfolding falling.survivors_def rising.survivors_def using assms by (auto intro!: filter_cong)

lemma deque_inv_step:
  assumes W: "W = 2 ^ k" and ring: "ring_inv W xs rs" and dq: "deque_inv W xs rs"
  shows "deque_inv W (xs @ [x]) (push_sample W rs x)"
proof -
  obtain p v m where x: "x = (p, v, m)" by (cases x)
  let ?n = "length xs" and ?rs = "RollingStats_Push W p v (of_bool m) rs"
  let ?P = "price_at (xs @ [x])" and ?V = "volume_at (xs @ [x])"
  have new: "ring_inv W (xs @ [x]) ?rs" using ring_inv_step [OF W ring, of x] by (simp add: push_sample_def x)
  have h: "rs_head rs = ?n mod W" and c: "rs_count rs = min ?n W" using ring by (simp_all add: ring_inv_def)
  have pb: "(rs_price_buf rs)[?n mod W := p] = rs_price_buf ?rs" "(rs_volume_buf rs)[?n mod W := v] = rs_volume_buf ?rs"
    by (simp_all add: RollingStats_Push_parts h)
  have b: "\<forall>j. Suc ?n - min (Suc ?n) W \<le> j \<and> j < ?n \<longrightarrow> rs_price_buf ?rs ! (j mod W) = ?P j"
    "\<forall>j. Suc ?n - min (Suc ?n) W \<le> j \<and> j < ?n \<longrightarrow> rs_volume_buf ?rs ! (j mod W) = ?V j"
    using new by (auto simp: ring_inv_def)
  have s: "falling.survivors (price_at xs) (oldest W ?n) ?n = falling.survivors ?P (oldest W ?n) ?n"
    "rising.survivors (price_at xs) (oldest W ?n) ?n = rising.survivors ?P (oldest W ?n) ?n"
    "rising.survivors (volume_at xs) (oldest W ?n) ?n = rising.survivors ?V (oldest W ?n) ?n"
    by (rule survivors_cong, simp add: nth_append)+
  have now: "?P ?n = p" "?V ?n = v" by (simp_all add: x)
  note d = dq [unfolded deque_inv_def s]
  show ?thesis
    unfolding deque_inv_def push_sample_def x prod.case
    using falling.deque_step [OF W conjunct1 [OF d] b(1)] rising.deque_step [OF W conjunct1 [OF conjunct2 [OF d]] b(1)]
      rising.deque_step [OF W conjunct2 [OF conjunct2 [OF d]] b(2)]
    unfolding now by (simp add: RollingStats_Push_deques h c pb x)
qed

lemma rolling_inv:
  assumes "W = 2 ^ k"
  shows "ring_inv W xs (rolling_run W xs) \<and> deque_inv W xs (rolling_run W xs)"
proof (induction xs rule: rev_induct)
  case Nil
  have "0 < W" by (simp add: assms)
  then show ?case
    using dq_rep_init [of W]
    by (simp add: rolling_run_def ring_inv_def deque_inv_def RollingStats_Init_def falling.survivors_def rising.survivors_def)
next
  case (snoc x xs)
  then show ?case using ring_inv_step [OF assms] deque_inv_step [OF assms] by (simp add: rolling_run_def)
qed

subsection \<open>The extremes of the window\<close>

lemma window_set: "set (map g (window W xs)) = (\<lambda>j. g (xs ! j)) ` {oldest W (length xs)..<length xs}"
proof -
  have o: "oldest W (length xs) = length xs - W" by simp
  have "window W xs = map ((!) xs) [oldest W (length xs)..<length xs]"
    by (simp add: window_def list_eq_iff_nth_eq o)
  then show ?thesis by simp
qed

lemma rolling_extremes_at:
  assumes W: "W = 2 ^ k" and ne: "xs \<noteq> []"
  defines "lo \<equiv> oldest W (length xs)"
  shows "\<exists>h \<in> {lo..<length xs}. rs_price_min (rolling_run W xs) = price_at xs h \<and> (\<forall>j \<in> {lo..<length xs}. bint (price_at xs h) \<le> bint (price_at xs j))"
    "\<exists>h \<in> {lo..<length xs}. rs_price_max (rolling_run W xs) = price_at xs h \<and> (\<forall>j \<in> {lo..<length xs}. bint (price_at xs j) \<le> bint (price_at xs h))"
    "\<exists>h \<in> {lo..<length xs}. rs_volume_max (rolling_run W xs) = volume_at xs h \<and> (\<forall>j \<in> {lo..<length xs}. bint (volume_at xs j) \<le> bint (volume_at xs h))"
proof -
  let ?rs = "rolling_run W xs"
  have W0: "0 < W" by (simp add: W)
  have lt: "lo < length xs" using ne W0 by (simp add: lo_def)
  note inv = rolling_inv [OF W, of xs]
  have b: "\<forall>j. lo \<le> j \<and> j < length xs \<longrightarrow> rs_price_buf ?rs ! (j mod W) = price_at xs j"
    "\<forall>j. lo \<le> j \<and> j < length xs \<longrightarrow> rs_volume_buf ?rs ! (j mod W) = volume_at xs j"
    using inv by (auto simp: ring_inv_def lo_def)
  obtain ys x where xs: "xs = ys @ [x]" using ne by (metis append_butlast_last_id)
  obtain p v m where x: "x = (p, v, m)" by (cases x)
  have run: "?rs = RollingStats_Push W p v (of_bool m) (rolling_run W ys)" by (simp add: rolling_run_def xs x push_sample_def)
  have "rs_price_min ?rs = rs_price_buf ?rs ! (dq_ring (rs_min_dq ?rs) ! dq_head (rs_min_dq ?rs))"
    "rs_price_max ?rs = rs_price_buf ?rs ! (dq_ring (rs_max_dq ?rs) ! dq_head (rs_max_dq ?rs))"
    "rs_volume_max ?rs = rs_volume_buf ?rs ! (dq_ring (rs_vmax_dq ?rs) ! dq_head (rs_vmax_dq ?rs))"
    unfolding run by (simp_all add: RollingStats_Push_deques(4-6) RollingStats_Push_parts(3,4) Let_def)
  moreover have "dq_rep W (rs_min_dq ?rs) (falling.survivors (price_at xs) lo (length xs))"
    "dq_rep W (rs_max_dq ?rs) (rising.survivors (price_at xs) lo (length xs))"
    "dq_rep W (rs_vmax_dq ?rs) (rising.survivors (volume_at xs) lo (length xs))"
    using inv by (simp_all add: deque_inv_def lo_def)
  ultimately show "\<exists>h \<in> {lo..<length xs}. rs_price_min ?rs = price_at xs h \<and> (\<forall>j \<in> {lo..<length xs}. bint (price_at xs h) \<le> bint (price_at xs j))"
    "\<exists>h \<in> {lo..<length xs}. rs_price_max ?rs = price_at xs h \<and> (\<forall>j \<in> {lo..<length xs}. bint (price_at xs j) \<le> bint (price_at xs h))"
    "\<exists>h \<in> {lo..<length xs}. rs_volume_max ?rs = volume_at xs h \<and> (\<forall>j \<in> {lo..<length xs}. bint (volume_at xs j) \<le> bint (volume_at xs h))"
    using falling.deque_front [of W "rs_min_dq ?rs" "price_at xs" lo "length xs", OF _ lt b(1)]
      rising.deque_front [of W "rs_max_dq ?rs" "price_at xs" lo "length xs", OF _ lt b(1)]
      rising.deque_front [of W "rs_vmax_dq ?rs" "volume_at xs" lo "length xs", OF _ lt b(2)]
    by (simp_all add: not_less Bex_def)
qed

definition demo_samples :: "sample list" where
  "demo_samples = map (\<lambda>(p, v, m). (FPN_Binary (p * 2 ^ 64), FPN_Binary (v * 2 ^ 64), m)) [(9, 1, True), (3, 2, False), (5, 7, True), (7, 4, False)]"

text \<open>C25: whatever samples arrive, the reported minimum and maximum price and maximum volume are those of the
  last \<open>W\<close> samples: the monotone deques, which look at each sample once, compute the sliding extremes.\<close>

theorem rolling_extremes:
  assumes "W = 2 ^ k" "xs \<noteq> []"
  shows "bint (rs_price_min (rolling_run W xs)) = Min (set (map (\<lambda>(p, v, m). bint p) (window W xs))) \<and>
    bint (rs_price_max (rolling_run W xs)) = Max (set (map (\<lambda>(p, v, m). bint p) (window W xs))) \<and>
    bint (rs_volume_max (rolling_run W xs)) = Max (set (map (\<lambda>(p, v, m). bint v) (window W xs)))"
proof -
  have mn: "x = Min (f ` A)" if "\<exists>h \<in> A. x = f h \<and> (\<forall>j \<in> A. f h \<le> f j)" "finite A" for x :: int and f A
    using that by (intro Min_eqI [symmetric]) auto
  have mx: "x = Max (f ` A)" if "\<exists>h \<in> A. x = f h \<and> (\<forall>j \<in> A. f j \<le> f h)" "finite A" for x :: int and f A
    using that by (intro Max_eqI [symmetric]) auto
  note at = rolling_extremes_at [OF assms]
  show ?thesis
    unfolding window_set split_def
    using at by (intro conjI mn mx) auto
qed

lemma rolling_extremes_witness:
  "bint (rs_price_min (rolling_run 2 demo_samples)) = 5 * 2 ^ 64 \<and> bint (rs_price_max (rolling_run 2 demo_samples)) = 7 * 2 ^ 64 \<and>
   bint (rs_volume_max (rolling_run 2 demo_samples)) = 7 * 2 ^ 64"
  using rolling_extremes [of 2 1 demo_samples] by (simp add: demo_samples_def window_def)

subsection \<open>The running sums\<close>

lemma fp2_sub_eq: "bint a - bint b = z \<Longrightarrow> \<bar>z\<bar> \<le> fp2_lim \<Longrightarrow> bint (fp2_sub a b) = z"
  using fp2_sub_fits [of a b] by simp

lemma fp2_add_eq: "bint a + bint b = z \<Longrightarrow> \<bar>z\<bar> \<le> fp2_lim \<Longrightarrow> bint (fp2_addsat a b) = z"
  using fp2_add_fits [of a b] by simp

lemma sum_slide:
  fixes f :: "nat \<Rightarrow> int"
  assumes "0 < W"
  shows "(\<Sum>j = oldest W (Suc n)..<Suc n. f j) = (\<Sum>j = oldest W n..<n. f j) - (if W \<le> n then f (n - W) else 0) + f n"
proof (cases "W \<le> n")
  case True
  then have o: "oldest W n = n - W" "oldest W (Suc n) = Suc (n - W)" by simp_all
  have "n - W < n" using assms True by simp
  then show ?thesis unfolding o using True sum.atLeast_Suc_lessThan [of "n - W" n f] by simp
qed simp

lemma sum_window_bound:
  fixes f :: "nat \<Rightarrow> int"
  assumes "\<And>j. lo \<le> j \<Longrightarrow> j < n \<Longrightarrow> \<bar>f j\<bar> \<le> B" "n - lo \<le> W" "0 \<le> B"
  shows "\<bar>\<Sum>j = lo..<n. f j\<bar> \<le> int W * B"
proof -
  have "\<bar>\<Sum>j = lo..<n. f j\<bar> \<le> (\<Sum>j = lo..<n. \<bar>f j\<bar>)" by (rule sum_abs)
  also have "\<dots> \<le> of_nat (card {lo..<n}) * B" by (rule sum_bounded_above) (use assms(1) in simp)
  also have "\<dots> \<le> int W * B" using assms(2,3) by (intro mult_right_mono) simp_all
  finally show ?thesis .
qed

text \<open>One sum slides: take the oldest term off, put the new one on, without saturating.\<close>

lemma slide_exact:
  assumes W0: "0 < W" and r: "bint r = (\<Sum>j = oldest W n..<n. f j)"
    and B: "\<And>j. oldest W n \<le> j \<Longrightarrow> j \<le> n \<Longrightarrow> \<bar>f j\<bar> \<le> B" "0 \<le> B" "int W * B \<le> fp2_lim"
    and ev: "bint ev = (if W \<le> n then f (n - W) else 0)" and x: "bint x = f n"
  shows "bint (fp2_addsat (fp2_sub r ev) x) = (\<Sum>j = oldest W (Suc n)..<Suc n. f j)"
proof -
  note s = sum_slide [OF W0, of f n]
  have "oldest W n \<le> oldest W (Suc n)" by simp
  then have B': "\<bar>f j\<bar> \<le> B" if "oldest W (Suc n) \<le> j" "j < Suc n" for j using B(1) [of j] that by linarith
  have last: "(\<Sum>j = oldest W (Suc n)..<Suc n. f j) = (\<Sum>j = oldest W (Suc n)..<n. f j) + f n"
    using W0 by (intro sum.atLeastLessThan_Suc) simp
  have b1: "\<bar>\<Sum>j = oldest W (Suc n)..<n. f j\<bar> \<le> int W * B"
    by (rule sum_window_bound) (use B' B(2) in auto)
  have b2: "\<bar>\<Sum>j = oldest W (Suc n)..<Suc n. f j\<bar> \<le> int W * B"
    by (rule sum_window_bound) (use B' B(2) in auto)
  have d: "bint r - bint ev = (\<Sum>j = oldest W (Suc n)..<n. f j)" using s last unfolding r ev by linarith
  have e: "bint (fp2_sub r ev) + bint x = (\<Sum>j = oldest W (Suc n)..<Suc n. f j)"
    unfolding fp2_sub_eq [OF d order_trans [OF b1 B(3)]] last x ..
  show ?thesis by (rule fp2_add_eq [OF e order_trans [OF b2 B(3)]])
qed

text \<open>The weighted sum slides: every remaining sample moves one place down.\<close>

lemma slide_weighted:
  assumes W0: "0 < W" and r: "bint r = (\<Sum>j = oldest W n..<n. int (j - oldest W n) * f j)"
    and y: "bint y = (\<Sum>j = oldest W n..<n. f j)"
    and B: "\<And>j. oldest W n \<le> j \<Longrightarrow> j \<le> n \<Longrightarrow> \<bar>f j\<bar> \<le> B" "0 \<le> B" "int W * (int W * B) \<le> fp2_lim"
    and ev: "W \<le> n \<Longrightarrow> bint old = f (n - W)" and x: "bint x = int (min n (W - 1)) * f n"
  shows "bint (fp2_addsat (fp2_sub r (if W \<le> n then fp2_sub y old else FPN_Zero)) x)
       = (\<Sum>j = oldest W (Suc n)..<Suc n. int (j - oldest W (Suc n)) * f j)"
proof -
  let ?lo = "oldest W n" and ?lo' = "oldest W (Suc n)"
  have le: "?lo \<le> ?lo'" by simp
  have B': "\<bar>f j\<bar> \<le> B" if "?lo' \<le> j" "j < Suc n" for j using B(1) [of j] le that by linarith
  have B'': "\<bar>int (j - ?lo') * f j\<bar> \<le> int W * B" if "?lo' \<le> j" "j < Suc n" for j
    using B' [OF that] B(2) that W0 unfolding abs_mult by (intro mult_mono) auto
  have "int 1 * B \<le> int W * B" using W0 B(2) by (intro mult_right_mono) simp_all
  then have "int W * (int 1 * B) \<le> int W * (int W * B)" by (intro mult_left_mono) simp_all
  then have WB: "int W * B \<le> fp2_lim" using B(3) by simp
  have mid: "bint (fp2_sub r (if W \<le> n then fp2_sub y old else FPN_Zero)) = (\<Sum>j = ?lo'..<n. int (j - ?lo') * f j)"
  proof -
    have bnd: "\<bar>\<Sum>j = ?lo'..<n. int (j - ?lo') * f j\<bar> \<le> int W * (int W * B)"
      by (rule sum_window_bound) (use B'' B(2) in auto)
    show ?thesis
    proof (cases "W \<le> n")
      case True
      then have o: "?lo = n - W" "?lo' = Suc (n - W)" and lt: "n - W < n" using W0 by simp_all
      have a: "bint y - bint old = (\<Sum>j = Suc (n - W)..<n. f j)"
        using sum.atLeast_Suc_lessThan [OF lt, of f] by (simp only: y ev [OF True] o)
      have "\<bar>\<Sum>j = Suc (n - W)..<n. f j\<bar> \<le> int W * B" by (rule sum_window_bound) (use B' B(2) o in auto)
      then have e: "bint (fp2_sub y old) = (\<Sum>j = Suc (n - W)..<n. f j)" by (rule fp2_sub_eq [OF a order_trans [OF _ WB]])
      have "(\<Sum>j = Suc (n - W)..<n. int (j - (n - W)) * f j) - (\<Sum>j = Suc (n - W)..<n. f j)
          = (\<Sum>j = Suc (n - W)..<n. int (j - Suc (n - W)) * f j)"
        unfolding sum_subtractf [symmetric] by (rule sum.cong) (auto simp: of_nat_diff algebra_simps)
      moreover have "bint r = (\<Sum>j = Suc (n - W)..<n. int (j - (n - W)) * f j)"
        using sum.atLeast_Suc_lessThan [OF lt, of "\<lambda>j. int (j - (n - W)) * f j"] by (simp add: r o)
      ultimately have d: "bint r - bint (fp2_sub y old) = (\<Sum>j = ?lo'..<n. int (j - ?lo') * f j)" unfolding e o by linarith
      show ?thesis using fp2_sub_eq [OF d order_trans [OF bnd B(3)]] True by (simp only: if_True)
    next
      case False
      then have o: "?lo' = ?lo" by simp
      have d: "bint r - bint FPN_Zero = (\<Sum>j = ?lo'..<n. int (j - ?lo') * f j)" unfolding o r by simp
      show ?thesis using fp2_sub_eq [OF d order_trans [OF bnd B(3)]] False by (simp only: if_False)
    qed
  qed
  have "(\<Sum>j = ?lo'..<Suc n. int (j - ?lo') * f j) = (\<Sum>j = ?lo'..<n. int (j - ?lo') * f j) + int (n - ?lo') * f n"
    using W0 by (intro sum.atLeastLessThan_Suc) simp
  moreover have "n - ?lo' = min n (W - 1)" using W0 by (auto simp: min_def)
  ultimately have last: "(\<Sum>j = ?lo'..<Suc n. int (j - ?lo') * f j) = (\<Sum>j = ?lo'..<n. int (j - ?lo') * f j) + bint x" by (simp only: x)
  have bnd: "\<bar>\<Sum>j = ?lo'..<Suc n. int (j - ?lo') * f j\<bar> \<le> int W * (int W * B)"
    by (rule sum_window_bound) (use B'' B(2) in auto)
  show ?thesis by (rule fp2_add_eq [OF _ order_trans [OF bnd B(3)]]) (simp only: mid last)
qed

text \<open>Samples far below the saturation limit: prices and volumes below \<open>2 ^ 21\<close>, in windows of at most 1024.\<close>

definition small_samples :: "sample list \<Rightarrow> bool" where
  "small_samples xs \<longleftrightarrow> (\<forall>(p, v, m) \<in> set xs. \<bar>bint p\<bar> \<le> 2 ^ 85 \<and> \<bar>bint v\<bar> \<le> 2 ^ 85)"

abbreviation window_sum :: "nat \<Rightarrow> nat \<Rightarrow> (nat \<Rightarrow> int) \<Rightarrow> int" where
  "window_sum W n f \<equiv> \<Sum>j = oldest W n..<n. f j"

definition sums_inv :: "nat \<Rightarrow> sample list \<Rightarrow> RollingStats \<Rightarrow> bool" where
  "sums_inv W xs rs \<longleftrightarrow>
     (let n = length xs; P = \<lambda>j. bint (price_at xs j); V = \<lambda>j. bint (volume_at xs j)
      in bint (rs_price_sum_running rs) = window_sum W n P \<and>
         bint (rs_price_sum_y2_running rs) = window_sum W n (\<lambda>j. itrunc (P j * P j) (2 ^ 64)) \<and>
         bint (rs_price_sum_xy_running rs) = window_sum W n (\<lambda>j. int (j - oldest W n) * P j) \<and>
         bint (rs_volume_sum_running rs) = window_sum W n V \<and>
         bint (rs_vol_sum_xy_running rs) = window_sum W n (\<lambda>j. int (j - oldest W n) * V j) \<and>
         bint (rs_pv_sum rs) = window_sum W n (\<lambda>j. itrunc (P j * V j) (2 ^ 64)) \<and>
         bint (rs_vol_sum rs) = window_sum W n V \<and>
         bint (rs_buy_volume_sum rs) = window_sum W n (\<lambda>j. if maker_at xs j then 0 else V j) \<and>
         bint (rs_sell_volume_sum rs) = window_sum W n (\<lambda>j. if maker_at xs j then V j else 0))"

lemma small_mul:
  assumes "\<bar>bint p\<bar> \<le> 2 ^ 85" "\<bar>bint v\<bar> \<le> 2 ^ 85"
  shows "bint (fp2_mul p v) = itrunc (bint p * bint v) (2 ^ 64)" "\<bar>itrunc (bint p * bint v) (2 ^ 64)\<bar> \<le> 2 ^ 106"
proof -
  have "\<bar>bint p\<bar> * \<bar>bint v\<bar> \<le> 2 ^ 85 * 2 ^ 85" using assms by (intro mult_mono) simp_all
  then have b: "\<bar>bint p * bint v\<bar> \<le> 2 ^ 106 * 2 ^ 64" by (simp add: abs_mult)
  have "(2 ^ 106 * 2 ^ 64 :: int) \<le> fp2_lim * 2 ^ 64" by (simp add: fp2_lim_def)
  then show "bint (fp2_mul p v) = itrunc (bint p * bint v) (2 ^ 64)" by (intro fp2_mul_fits order_trans [OF b])
  show "\<bar>itrunc (bint p * bint v) (2 ^ 64)\<bar> \<le> 2 ^ 106" by (rule itrunc_bound [OF _ b]) simp
qed

lemma scaled_mul:
  assumes "n < 2 ^ 20" "\<bar>bint p\<bar> \<le> 2 ^ 107"
  shows "bint (fp2_mul (fp2_from_int (word_of_nat n)) p) = int n * bint p"
proof -
  have f: "bint (fp2_from_int (word_of_nat n)) = int n * 2 ^ 64" by (rule fp2_from_nat) (use assms(1) in simp)
  have "int n \<le> 2 ^ 20 - 1" using assms(1) by simp
  then have "int n * \<bar>bint p\<bar> \<le> (2 ^ 20 - 1) * 2 ^ 107" using assms(2) by (intro mult_mono) simp_all
  also have "\<dots> \<le> fp2_lim" by (simp add: fp2_lim_def)
  finally have b: "\<bar>int n * bint p\<bar> \<le> fp2_lim" by (simp add: abs_mult)
  have "int n * 2 ^ 64 * bint p = (int n * bint p) * 2 ^ 64" by (simp only: ac_simps)
  then have e: "bint (fp2_from_int (word_of_nat n)) * bint p = (int n * bint p) * 2 ^ 64" by (simp only: f)
  have "\<bar>bint (fp2_from_int (word_of_nat n)) * bint p\<bar> \<le> fp2_lim * 2 ^ 64"
    unfolding e abs_mult [of _ "2 ^ 64"] using b by simp
  from fp2_mul_fits [OF this] show ?thesis unfolding e by (simp only: itrunc_exact zero_less_power zero_less_numeral)
qed

lemma side_mask:
  "drop_bit i w AND 1 = (of_bool (bit w i) :: u64)" "(of_bool a AND of_bool b :: u64) = of_bool (a \<and> b)"
  "1 - of_bool a = (of_bool (\<not> a) :: u64)" "(scast (of_bool a :: u32) :: u64) = of_bool a"
proof -
  show "drop_bit i w AND 1 = (of_bool (bit w i) :: u64)" by (simp add: and_one_eq bit_iff_odd_drop_bit mod_2_eq_odd)
  show "(scast (of_bool a :: u32) :: u64) = of_bool a" by (cases a) simp_all
qed (cases a; cases b; simp)+

text \<open>The sums of the state after a push, with the masks resolved.\<close>

lemma push_sum_fields:
  fixes rs :: RollingStats and W :: nat and p v :: FPN_Binary and m :: bool
  defines "rs' \<equiv> RollingStats_Push W p v (of_bool m) rs" and "e \<equiv> W \<le> rs_count rs"
  defines "op \<equiv> rs_price_buf rs ! rs_head rs" and "ov \<equiv> rs_volume_buf rs ! rs_head rs"
  defines "os \<equiv> side_at (rs_side_bits rs) (rs_head rs)"
  defines "pos \<equiv> FPN_FromInt (word_of_int (int (rs_count rs) + of_bool e * (int W - 1 - int (rs_count rs))))"
  shows "rs_price_sum_running rs' = fp2_addsat (fp2_sub (rs_price_sum_running rs) (if e then op else FPN_Zero)) p"
    "rs_price_sum_y2_running rs' = fp2_addsat (fp2_sub (rs_price_sum_y2_running rs) (if e then fp2_mul op op else FPN_Zero)) (fp2_mul p p)"
    "rs_price_sum_xy_running rs' = fp2_addsat (fp2_sub (rs_price_sum_xy_running rs)
       (if e then fp2_sub (rs_price_sum_running rs) op else FPN_Zero)) (fp2_mul pos p)"
    "rs_volume_sum_running rs' = fp2_addsat (fp2_sub (rs_volume_sum_running rs) (if e then ov else FPN_Zero)) v"
    "rs_vol_sum_xy_running rs' = fp2_addsat (fp2_sub (rs_vol_sum_xy_running rs)
       (if e then fp2_sub (rs_volume_sum_running rs) ov else FPN_Zero)) (fp2_mul pos v)"
    "rs_pv_sum rs' = fp2_addsat (fp2_sub (rs_pv_sum rs) (if e then rs_pv_buf rs ! rs_head rs else FPN_Zero)) (fp2_mul p v)"
    "rs_vol_sum rs' = fp2_addsat (fp2_sub (rs_vol_sum rs) (if e then ov else FPN_Zero)) v"
    "rs_buy_volume_sum rs' = fp2_addsat (fp2_sub (rs_buy_volume_sum rs) (if e \<and> \<not> os then ov else FPN_Zero)) (if m then FPN_Zero else v)"
    "rs_sell_volume_sum rs' = fp2_addsat (fp2_sub (rs_sell_volume_sum rs) (if e \<and> os then ov else FPN_Zero)) (if m then v else FPN_Zero)"
  unfolding rs'_def e_def op_def ov_def os_def pos_def side_at_def
  by (simp_all only: RollingStats_Push_parts push_sums_def push_flow_def Let_def RollingStats.select_convs RollingStats.update_convs
      RollingStats.surjective side_mask FPN_BlendOnMask_flag)
    (simp_all add: side_mask)

lemma sums_inv_step:
  assumes W: "W = 2 ^ k" and k: "k \<le> 10" and small: "small_samples (xs @ [x])"
    and ring: "ring_inv W xs rs" and sums: "sums_inv W xs rs"
  shows "sums_inv W (xs @ [x]) (push_sample W rs x)"
proof -
  obtain p v m where x: "x = (p, v, m)" by (cases x)
  let ?n = "length xs" and ?ys = "xs @ [x]"
  let ?P = "\<lambda>j. bint (price_at ?ys j)" and ?V = "\<lambda>j. bint (volume_at ?ys j)"
  have W0: "0 < W" by (simp add: W)
  have "W \<le> 2 ^ 10" unfolding W using k by (intro power_increasing) simp_all
  then have W1: "W \<le> 1024" by simp
  have cut: "int W * B \<le> fp2_lim" "int W * (int W * B) \<le> fp2_lim" if "0 \<le> B" "B \<le> 2 ^ 106" for B :: int
  proof -
    have "int W * B \<le> 1024 * 2 ^ 106" using W1 that by (intro mult_mono) simp_all
    then show "int W * B \<le> fp2_lim" by (simp add: fp2_lim_def)
    have "int W * (int W * B) \<le> 1024 * (1024 * 2 ^ 106)" using W1 that by (intro mult_mono) simp_all
    also have "\<dots> \<le> fp2_lim" by (simp add: fp2_lim_def)
    finally show "int W * (int W * B) \<le> fp2_lim" .
  qed
  have bnd: "\<bar>?P j\<bar> \<le> 2 ^ 85 \<and> \<bar>?V j\<bar> \<le> 2 ^ 85" if "j \<le> ?n" for j
  proof -
    have "?ys ! j \<in> set ?ys" using that by (intro nth_mem) simp
    then show ?thesis using small unfolding small_samples_def by (auto simp: split_def simp del: set_append)
  qed
  have bP: "\<bar>?P j\<bar> \<le> 2 ^ 85" if "j \<le> ?n" for j using bnd [OF that] by simp
  have bV: "\<bar>?V j\<bar> \<le> 2 ^ 85" if "j \<le> ?n" for j using bnd [OF that] by simp
  have at: "price_at ?ys j = price_at xs j" "volume_at ?ys j = volume_at xs j" "maker_at ?ys j = maker_at xs j" if "j < ?n" for j
    using that by (simp_all add: nth_append)
  have old: "window_sum W ?n (\<lambda>j. g j (xs ! j)) = window_sum W ?n (\<lambda>j. g j (?ys ! j))" for g :: "nat \<Rightarrow> sample \<Rightarrow> int"
    by (rule sum.cong) (simp_all add: nth_append)
  note s = sums [unfolded sums_inv_def Let_def]
  have e: "W \<le> rs_count rs \<longleftrightarrow> W \<le> ?n" and h: "rs_head rs = ?n mod W" using ring by (simp_all add: ring_inv_def)
  have slot: "rs_price_buf rs ! (?n mod W) = price_at ?ys (?n - W)" "rs_volume_buf rs ! (?n mod W) = volume_at ?ys (?n - W)"
    "rs_pv_buf rs ! (?n mod W) = fp2_mul (price_at ?ys (?n - W)) (volume_at ?ys (?n - W))"
    "side_at (rs_side_bits rs) (?n mod W) = maker_at ?ys (?n - W)" if "W \<le> ?n"
  proof -
    have "oldest W ?n \<le> ?n - W" "?n - W < ?n" "(?n - W) mod W = ?n mod W"
      using that W0 by (simp_all add: le_mod_geq)
    then show "rs_price_buf rs ! (?n mod W) = price_at ?ys (?n - W)" "rs_volume_buf rs ! (?n mod W) = volume_at ?ys (?n - W)"
      "rs_pv_buf rs ! (?n mod W) = fp2_mul (price_at ?ys (?n - W)) (volume_at ?ys (?n - W))"
      "side_at (rs_side_bits rs) (?n mod W) = maker_at ?ys (?n - W)"
      using ring unfolding ring_inv_def by (metis at)+
  qed
  have pos: "int (rs_count rs) + of_bool (W \<le> rs_count rs) * (int W - 1 - int (rs_count rs)) = int (min ?n (W - 1))"
  proof -
    have c: "rs_count rs = min ?n W" using ring by (simp add: ring_inv_def)
    show ?thesis using W0 by (cases "W \<le> ?n") (simp_all add: c of_nat_diff)
  qed
  have now: "price_at ?ys ?n = p" "volume_at ?ys ?n = v" "maker_at ?ys ?n = m" by (simp_all add: x)
  have mulP: "bint (fp2_mul (price_at ?ys j) (price_at ?ys j)) = itrunc (?P j * ?P j) (2 ^ 64)"
    "bint (fp2_mul (price_at ?ys j) (volume_at ?ys j)) = itrunc (?P j * ?V j) (2 ^ 64)" if "j \<le> ?n" for j
    using small_mul(1) bnd [OF that] by blast+
  have mulB: "\<bar>itrunc (?P j * ?P j) (2 ^ 64)\<bar> \<le> 2 ^ 106" "\<bar>itrunc (?P j * ?V j) (2 ^ 64)\<bar> \<le> 2 ^ 106" if "j \<le> ?n" for j
    using small_mul(2) bnd [OF that] by blast+
  have m20: "min ?n (W - 1) < 2 ^ 20" using W1 W0 by simp
  have big: "bint (fp2_mul (fp2_from_int (word_of_int (int (min ?n (W - 1))))) p) = int (min ?n (W - 1)) * ?P ?n"
    "bint (fp2_mul (fp2_from_int (word_of_int (int (min ?n (W - 1))))) v) = int (min ?n (W - 1)) * ?V ?n"
    using scaled_mul [OF m20, of p] scaled_mul [OF m20, of v] bP [of ?n] bV [of ?n] by (simp_all only: now of_int_of_nat_eq) simp_all
  have r: "bint (rs_price_sum_running rs) = window_sum W ?n ?P"
    "bint (rs_price_sum_y2_running rs) = window_sum W ?n (\<lambda>j. itrunc (?P j * ?P j) (2 ^ 64))"
    "bint (rs_price_sum_xy_running rs) = window_sum W ?n (\<lambda>j. int (j - oldest W ?n) * ?P j)"
    "bint (rs_volume_sum_running rs) = window_sum W ?n ?V"
    "bint (rs_vol_sum_xy_running rs) = window_sum W ?n (\<lambda>j. int (j - oldest W ?n) * ?V j)"
    "bint (rs_pv_sum rs) = window_sum W ?n (\<lambda>j. itrunc (?P j * ?V j) (2 ^ 64))"
    "bint (rs_vol_sum rs) = window_sum W ?n ?V"
    "bint (rs_buy_volume_sum rs) = window_sum W ?n (\<lambda>j. if maker_at ?ys j then 0 else ?V j)"
    "bint (rs_sell_volume_sum rs) = window_sum W ?n (\<lambda>j. if maker_at ?ys j then ?V j else 0)"
    using s old [of "\<lambda>j x. bint (fst x)"] old [of "\<lambda>j x. itrunc (bint (fst x) * bint (fst x)) (2 ^ 64)"]
      old [of "\<lambda>j x. int (j - oldest W ?n) * bint (fst x)"] old [of "\<lambda>j x. bint (fst (snd x))"]
      old [of "\<lambda>j x. int (j - oldest W ?n) * bint (fst (snd x))"] old [of "\<lambda>j x. itrunc (bint (fst x) * bint (fst (snd x))) (2 ^ 64)"]
      old [of "\<lambda>j x. if snd (snd x) then 0 else bint (fst (snd x))"] old [of "\<lambda>j x. if snd (snd x) then bint (fst (snd x)) else 0"]
    by (simp_all only: simp_thms)
  let ?rs = "RollingStats_Push W p v (of_bool m) rs"
  note fields = push_sum_fields [of W p v m rs, unfolded pos, unfolded e h]
  have c85: "int W * 2 ^ 85 \<le> fp2_lim" "int W * (int W * 2 ^ 85) \<le> fp2_lim" by (rule cut; simp)+
  have c106: "int W * 2 ^ 106 \<le> fp2_lim" by (rule cut) simp_all
  have 1: "bint (rs_price_sum_running ?rs) = window_sum W (Suc ?n) ?P"
    unfolding fields by (rule slide_exact [OF W0 r(1) bP _ c85(1)]) (simp_all add: slot x)
  have m2: "bint (fp2_mul p p) = itrunc (?P ?n * ?P ?n) (2 ^ 64)" "bint (fp2_mul p v) = itrunc (?P ?n * ?V ?n) (2 ^ 64)"
    using mulP [of ?n] unfolding now by simp_all
  have 2: "bint (rs_price_sum_y2_running ?rs) = window_sum W (Suc ?n) (\<lambda>j. itrunc (?P j * ?P j) (2 ^ 64))"
    unfolding fields by (rule slide_exact [OF W0 r(2) mulB(1) _ c106 _ m2(1)]) (simp_all add: slot mulP)
  have 4: "bint (rs_volume_sum_running ?rs) = window_sum W (Suc ?n) ?V"
    unfolding fields by (rule slide_exact [OF W0 r(4) bV _ c85(1)]) (simp_all add: slot x)
  have 6: "bint (rs_pv_sum ?rs) = window_sum W (Suc ?n) (\<lambda>j. itrunc (?P j * ?V j) (2 ^ 64))"
    unfolding fields by (rule slide_exact [OF W0 r(6) mulB(2) _ c106 _ m2(2)]) (simp_all add: slot mulP)
  have 7: "bint (rs_vol_sum ?rs) = window_sum W (Suc ?n) ?V"
    unfolding fields by (rule slide_exact [OF W0 r(7) bV _ c85(1)]) (simp_all add: slot x)
  have bs: "\<bar>if maker_at ?ys j then 0 else ?V j\<bar> \<le> 2 ^ 85" "\<bar>if maker_at ?ys j then ?V j else 0\<bar> \<le> 2 ^ 85" if "j \<le> ?n" for j
    using bV [OF that] by simp_all
  have 8: "bint (rs_buy_volume_sum ?rs) = window_sum W (Suc ?n) (\<lambda>j. if maker_at ?ys j then 0 else ?V j)"
    unfolding fields by (rule slide_exact [OF W0 r(8) bs(1) _ c85(1)]) (auto simp: slot x)
  have 9: "bint (rs_sell_volume_sum ?rs) = window_sum W (Suc ?n) (\<lambda>j. if maker_at ?ys j then ?V j else 0)"
    unfolding fields by (rule slide_exact [OF W0 r(9) bs(2) _ c85(1)]) (auto simp: slot x)
  have 3: "bint (rs_price_sum_xy_running ?rs) = window_sum W (Suc ?n) (\<lambda>j. int (j - oldest W (Suc ?n)) * ?P j)"
    unfolding fields by (rule slide_weighted [OF W0 r(3) r(1) bP _ c85(2) _ big(1)]) (simp_all add: slot)
  have 5: "bint (rs_vol_sum_xy_running ?rs) = window_sum W (Suc ?n) (\<lambda>j. int (j - oldest W (Suc ?n)) * ?V j)"
    unfolding fields by (rule slide_weighted [OF W0 r(5) r(4) bV _ c85(2) _ big(2)]) (simp_all add: slot)
  have len: "length ?ys = Suc ?n" by simp
  show ?thesis
    unfolding sums_inv_def Let_def push_sample_def x prod.case len [unfolded x]
    using 1 2 3 4 5 6 7 8 9 unfolding x by (simp only: simp_thms)
qed

lemma sums_inv_run:
  assumes "W = 2 ^ k" "k \<le> 10" "small_samples xs"
  shows "sums_inv W xs (rolling_run W xs)"
  using assms(3)
proof (induction xs rule: rev_induct)
  case Nil
  then show ?case by (simp add: sums_inv_def rolling_run_def RollingStats_Init_def)
next
  case (snoc x xs)
  then have "small_samples xs" by (simp add: small_samples_def)
  then show ?case
    using sums_inv_step [OF assms(1,2) snoc.prems conjunct1 [OF rolling_inv [OF assms(1), of xs]]] snoc.IH
    by (simp add: rolling_run_def)
qed

lemma window_sum_list:
  "window_sum W (length xs) (\<lambda>j. h (j - oldest W (length xs)) (xs ! j)) = (\<Sum>i<length (window W xs). h i (window W xs ! i))"
proof -
  have o: "oldest W (length xs) = length xs - W" by simp
  show ?thesis unfolding o
    by (rule sum.reindex_bij_witness [of _ "\<lambda>i. i + (length xs - W)" "\<lambda>j. j - (length xs - W)"])
      (auto simp: window_def add.commute)
qed

lemma window_sum_list': "window_sum W (length xs) (\<lambda>j. g (xs ! j)) = (\<Sum>x\<leftarrow>window W xs. g x)"
  using window_sum_list [where W = W and xs = xs and h = "\<lambda>_. g"] by (simp add: sum_list_sum_nth atLeast0LessThan)

text \<open>C26: as long as the samples are far from saturation, the sums maintained by adding the new sample and
  subtracting the one that leaves are exactly the sums over the last \<open>W\<close> samples: no drift accumulates, also
  for the truncated squares and products and for the position-weighted sums of the regression.\<close>

theorem rolling_sums:
  assumes "W = 2 ^ k" "k \<le> 10" "small_samples xs"
  defines "rs \<equiv> rolling_run W xs" and "w \<equiv> window W xs"
  shows "bint (rs_price_sum_running rs) = (\<Sum>(p, v, m)\<leftarrow>w. bint p) \<and>
    bint (rs_price_sum_y2_running rs) = (\<Sum>(p, v, m)\<leftarrow>w. itrunc (bint p * bint p) (2 ^ 64)) \<and>
    bint (rs_price_sum_xy_running rs) = (\<Sum>i<length w. int i * bint (fst (w ! i))) \<and>
    bint (rs_volume_sum_running rs) = (\<Sum>(p, v, m)\<leftarrow>w. bint v) \<and>
    bint (rs_vol_sum_xy_running rs) = (\<Sum>i<length w. int i * bint (fst (snd (w ! i)))) \<and>
    bint (rs_pv_sum rs) = (\<Sum>(p, v, m)\<leftarrow>w. itrunc (bint p * bint v) (2 ^ 64)) \<and>
    bint (rs_buy_volume_sum rs) = (\<Sum>(p, v, m)\<leftarrow>w. if m then 0 else bint v) \<and>
    bint (rs_sell_volume_sum rs) = (\<Sum>(p, v, m)\<leftarrow>w. if m then bint v else 0)"
proof -
  note s = sums_inv_run [OF assms(1-3), unfolded sums_inv_def Let_def]
  note wl = window_sum_list' [where W = W and xs = xs]
  show ?thesis
    unfolding rs_def w_def split_def
    using s wl [where g = "\<lambda>x. bint (fst x)"] wl [where g = "\<lambda>x. itrunc (bint (fst x) * bint (fst x)) (2 ^ 64)"]
      wl [where g = "\<lambda>x. bint (fst (snd x))"] wl [where g = "\<lambda>x. itrunc (bint (fst x) * bint (fst (snd x))) (2 ^ 64)"]
      wl [where g = "\<lambda>x. if snd (snd x) then 0 else bint (fst (snd x))"] wl [where g = "\<lambda>x. if snd (snd x) then bint (fst (snd x)) else 0"]
      window_sum_list [where W = W and xs = xs and h = "\<lambda>i x. int i * bint (fst x)"] window_sum_list [where W = W and xs = xs and h = "\<lambda>i x. int i * bint (fst (snd x))"]
    by (simp only: simp_thms)
qed

lemma rolling_sums_witness:
  "bint (rs_price_sum_running (rolling_run 2 demo_samples)) = 12 * 2 ^ 64 \<and> bint (rs_price_sum_y2_running (rolling_run 2 demo_samples)) = 74 * 2 ^ 64 \<and>
   bint (rs_buy_volume_sum (rolling_run 2 demo_samples)) = 4 * 2 ^ 64"
  using rolling_sums [of 2 1 demo_samples] by (simp add: demo_samples_def window_def small_samples_def itrunc_def)

subsection \<open>The slope\<close>

lemma sum_positions: "2 * (\<Sum>i<n. int i) = int n * (int n - 1)" "6 * (\<Sum>i<n. int i * int i) = int n * (int n - 1) * (2 * int n - 1)"
  by (induction n) (simp_all add: algebra_simps)

lemma regression_denominator:
  "12 * (int n * (\<Sum>i<n. int i * int i) - (\<Sum>i<n. int i) * (\<Sum>i<n. int i)) = int n * int n * (int n * int n - 1)"
proof -
  let ?x = "\<Sum>i<n. int i" and ?y = "\<Sum>i<n. int i * int i" and ?n = "int n"
  have "12 * (?n * ?y - ?x * ?x) = 2 * ?n * (6 * ?y) - 3 * (2 * ?x) * (2 * ?x)" by (simp add: algebra_simps)
  also have "\<dots> = ?n * ?n * (?n * ?n - 1)" unfolding sum_positions by (simp add: algebra_simps)
  finally show ?thesis .
qed

lemma regression_denominator_pos:
  assumes "2 \<le> n"
  shows "0 < int n * (\<Sum>i<n. int i * int i) - (\<Sum>i<n. int i) * (\<Sum>i<n. int i)"
proof -
  have n: "2 \<le> int n" using assms by simp
  have "2 * 2 \<le> int n * int n" using n by (intro mult_mono) simp_all
  then have "0 < int n * int n * (int n * int n - 1)" by (intro mult_pos_pos) (use n in simp_all)
  then show ?thesis unfolding regression_denominator [symmetric] by simp
qed

lemma itrunc_scale: "0 < c \<Longrightarrow> 0 < d \<Longrightarrow> itrunc (z * c) (d * c) = itrunc z d"
  by (simp add: itrunc_def sgn_mult abs_mult)

lemma FPN_BlendOnMask_ends: "FPN_BlendOnMask a b (- 1) = a" "FPN_BlendOnMask a b 0 = b"
  using FPN_BlendOnMask_flag [of a b True] FPN_BlendOnMask_flag [of a b False] by simp_all

lemma push_slope_exact:
  fixes rs :: RollingStats
  defines "n \<equiv> rs_count rs" and "sy \<equiv> bint (rs_price_sum_running rs)" and "sxy \<equiv> bint (rs_price_sum_xy_running rs)"
  assumes n: "2 \<le> n" "n \<le> 1024" and sy: "\<bar>sy\<bar> \<le> 2 ^ 95" and sxy: "\<bar>sxy\<bar> \<le> 2 ^ 105"
  defines "x \<equiv> \<Sum>i<n. int i" and "xx \<equiv> \<Sum>i<n. int i * int i"
  shows "bint (rs_price_slope (push_slopes rs)) = itrunc (int n * sxy - x * sy) (int n * xx - x * x)"
proof -
  define X where "X = nat x"
  define XX where "XX = nat xx"
  have x0: "0 \<le> x" "0 \<le> xx" unfolding x_def xx_def by (rule sum_nonneg, simp)+
  have X: "int X = x" "int XX = xx" using x0 by (simp_all add: X_def XX_def)
  have n': "int n \<le> 1024" using n by simp
  have xb: "2 * x \<le> 1024 * 1023" "6 * xx \<le> 1024 * 1023 * 2047"
    unfolding x_def xx_def sum_positions using n n' by (intro mult_mono; simp)+
  have "int X < 2 ^ 20" "int XX < 2 ^ 30" unfolding X using xb by simp_all
  then have X20: "X < 2 ^ 20" and XX30: "XX < 2 ^ 30" by simp_all
  have w: "int n * (int n - 1) div 2 = int X" "int n * (int n - 1) * (2 * int n - 1) div 6 = int XX"
  proof -
    have "int n * (int n - 1) = 2 * int X" "int n * (int n - 1) * (2 * int n - 1) = 6 * int XX"
      unfolding X x_def xx_def sum_positions by simp_all
    then show "int n * (int n - 1) div 2 = int X" "int n * (int n - 1) * (2 * int n - 1) div 6 = int XX" by simp_all
  qed
  let ?n = "fp2_from_int (word_of_nat n)" and ?X = "fp2_from_int (word_of_nat X)" and ?XX = "fp2_from_int (word_of_nat XX)"
  have fX: "bint ?X = x * 2 ^ 64" "bint ?XX = xx * 2 ^ 64"
    using fp2_from_nat [of X] fp2_from_nat [of XX] X20 XX30 by (simp_all add: X)
  let ?sy = "rs_price_sum_running rs" and ?sxy = "rs_price_sum_xy_running rs"
  let ?num = "fp2_sub (fp2_mul ?n ?sxy) (fp2_mul ?X ?sy)" and ?den = "fp2_sub (fp2_mul ?n ?XX) (fp2_mul ?X ?X)"
  have n20: "n < 2 ^ 20" using n by simp
  have x20: "x \<le> 2 ^ 20" "xx \<le> 2 ^ 30" using xb by simp_all
  have m: "bint (fp2_mul ?n ?sxy) = int n * sxy" "bint (fp2_mul ?X ?sy) = x * sy"
    "bint (fp2_mul ?n ?XX) = int n * (xx * 2 ^ 64)" "bint (fp2_mul ?X ?X) = x * (x * 2 ^ 64)"
    using scaled_mul [OF n20, of ?sxy] scaled_mul [OF X20, of ?sy] scaled_mul [OF n20, of ?XX] scaled_mul [OF X20, of ?X]
      sy sxy x20 x0 unfolding sy_def sxy_def fX X by simp_all
  have "\<bar>int n * sxy\<bar> \<le> 1024 * 2 ^ 105" using n' sxy unfolding abs_mult by (intro mult_mono) simp_all
  moreover have "\<bar>x * sy\<bar> \<le> 2 ^ 20 * 2 ^ 95" using x20 x0 sy unfolding abs_mult by (intro mult_mono) simp_all
  ultimately have nb: "\<bar>int n * sxy - x * sy\<bar> \<le> 2 ^ 116"
    using abs_triangle_ineq4 [of "int n * sxy" "x * sy"] by simp
  then have num: "bint ?num = int n * sxy - x * sy"
    by (intro fp2_sub_eq) (simp_all only: m, simp add: fp2_lim_def)
  define D where "D = int n * xx - x * x"
  have D: "0 < D" unfolding D_def x_def xx_def by (rule regression_denominator_pos [OF n(1)])
  have "int n * xx \<le> 1024 * 2 ^ 30" using n' x20 x0 by (intro mult_mono) simp_all
  moreover have "D \<le> int n * xx" unfolding D_def using zero_le_square [of x] by (simp only: diff_le_eq le_add_same_cancel1)
  ultimately have Db: "D \<le> 2 ^ 40" by simp
  have "bint (fp2_mul ?n ?XX) - bint (fp2_mul ?X ?X) = D * 2 ^ 64" unfolding m D_def by (simp add: algebra_simps)
  then have den: "bint ?den = D * 2 ^ 64"
    by (rule fp2_sub_eq) (use D Db in \<open>simp add: fp2_lim_def\<close>)
  have nz: "\<not> FPN_IsZero ?den" using den D by simp
  have "rs_price_slope (push_slopes rs) = fp2_div ?num ?den"
    unfolding push_slopes_def Let_def n_def [symmetric] w by (simp add: nz FPN_BlendOnMask_ends del: FPN_order)
  moreover have "bint (fp2_div ?num ?den) = itrunc ((int n * sxy - x * sy) * 2 ^ 64) (D * 2 ^ 64)"
  proof -
    have "\<bar>bint ?num\<bar> * 2 ^ 64 \<le> fp2_lim * (D * 2 ^ 64)"
    proof -
      have "\<bar>bint ?num\<bar> \<le> fp2_lim * D"
      proof -
        have "fp2_lim * 1 \<le> fp2_lim * D" using D by (intro mult_left_mono) (simp_all add: fp2_lim_def)
        moreover have "(2 ^ 116 :: int) \<le> fp2_lim" by (simp add: fp2_lim_def)
        ultimately show ?thesis using nb unfolding num by linarith
      qed
      then show ?thesis by simp
    qed
    then show ?thesis using fp2_div_fits [of ?den ?num] D by (simp only: den num) simp
  qed
  ultimately show ?thesis using D by (simp only: itrunc_scale zero_less_power zero_less_numeral D_def)
qed

lemma rolling_slope_at:
  assumes "W = 2 ^ k" "k \<le> 10" "small_samples xs" "2 \<le> length (window W xs)"
  defines "P \<equiv> map (\<lambda>(p, v, m). bint p) (window W xs)" and "n \<equiv> length (window W xs)"
  shows "bint (rs_price_slope (rolling_run W xs)) =
    itrunc (int n * (\<Sum>i<n. int i * P ! i) - (\<Sum>i<n. int i) * (\<Sum>i<n. P ! i))
           (int n * (\<Sum>i<n. int i * int i) - (\<Sum>i<n. int i) * (\<Sum>i<n. int i))"
proof -
  have nn: "n = min (length xs) W" by (simp add: n_def window_def)
  have "xs \<noteq> []" using assms(4) by (auto simp: window_def)
  then obtain ys x where xs: "xs = ys @ [x]" by (metis append_butlast_last_id)
  obtain p v m where x: "x = (p, v, m)" by (cases x)
  let ?rs = "rolling_run W xs"
  have "W \<le> 2 ^ 10" unfolding assms(1) using assms(2) by (intro power_increasing) simp_all
  then have n: "2 \<le> n" "n \<le> 1024" using assms(4) nn unfolding n_def by simp_all
  have c: "rs_count ?rs = n" using rolling_inv [OF assms(1), of xs] by (simp add: ring_inv_def nn)
  have run: "?rs = RollingStats_Push W p v (of_bool m) (rolling_run W ys)" by (simp add: rolling_run_def xs x push_sample_def)
  obtain rs where rs: "?rs = push_slopes rs" "rs_count rs = n" "rs_price_sum_running rs = rs_price_sum_running ?rs"
      "rs_price_sum_xy_running rs = rs_price_sum_xy_running ?rs"
    using c n(1) unfolding run RollingStats_Push_def Let_def by (auto split: if_splits)
  note s = sums_inv_run [OF assms(1-3), unfolded sums_inv_def Let_def]
  have P: "P ! i = bint (fst (window W xs ! i))" if "i < n" for i using that by (simp add: P_def n_def split_def)
  have "bint (rs_price_sum_running rs) = (\<Sum>i<n. bint (fst (window W xs ! i)))"
    unfolding rs(3) n_def using s window_sum_list [where W = W and xs = xs and h = "\<lambda>i x. bint (fst x)"] by (simp only: simp_thms)
  also have "\<dots> = (\<Sum>i<n. P ! i)" by (rule sum.cong) (simp_all add: P)
  finally have sy: "bint (rs_price_sum_running rs) = (\<Sum>i<n. P ! i)" .
  have "bint (rs_price_sum_xy_running rs) = (\<Sum>i<n. int i * bint (fst (window W xs ! i)))"
    unfolding rs(4) n_def using s window_sum_list [where W = W and xs = xs and h = "\<lambda>i x. int i * bint (fst x)"] by (simp only: simp_thms)
  also have "\<dots> = (\<Sum>i<n. int i * P ! i)" by (rule sum.cong) (simp_all add: P)
  finally have sxy: "bint (rs_price_sum_xy_running rs) = (\<Sum>i<n. int i * P ! i)" .
  have b: "\<bar>P ! i\<bar> \<le> 2 ^ 85" if "i < n" for i
  proof -
    have "window W xs ! i \<in> set (window W xs)" using that unfolding n_def by (rule nth_mem)
    then have "window W xs ! i \<in> set xs" unfolding window_def by (rule in_set_dropD)
    then have "\<bar>bint (fst (window W xs ! i))\<bar> \<le> 2 ^ 85" using assms(3) unfolding small_samples_def split_def by blast
    then show ?thesis by (simp only: P [OF that])
  qed
  have B: "\<bar>\<Sum>i<n. P ! i\<bar> \<le> int 1024 * 2 ^ 85"
    using sum_window_bound [of 0 n "(!) P" "2 ^ 85" 1024] b n by (simp add: atLeast0LessThan)
  have b': "\<bar>int i * P ! i\<bar> \<le> 1024 * 2 ^ 85" if "i < n" for i
    using b [OF that] that n unfolding abs_mult by (intro mult_mono) simp_all
  have B': "\<bar>\<Sum>i<n. int i * P ! i\<bar> \<le> int 1024 * (1024 * 2 ^ 85)"
    using sum_window_bound [of 0 n "\<lambda>i. int i * P ! i" "1024 * 2 ^ 85" 1024] b' n by (simp add: atLeast0LessThan)
  have "bint (rs_price_slope (push_slopes rs)) = itrunc (int n * bint (rs_price_sum_xy_running rs) - (\<Sum>i<n. int i) * bint (rs_price_sum_running rs))
      (int n * (\<Sum>i<n. int i * int i) - (\<Sum>i<n. int i) * (\<Sum>i<n. int i))"
    using push_slope_exact [of rs, unfolded rs(2), OF n] B B' unfolding sy sxy by simp
  then show ?thesis unfolding rs(1) [symmetric] sy sxy .
qed

text \<open>C27: the reported slope is the least-squares slope of the window, truncated to the resolution of the
  fixed point; on prices that lie on a line it is exactly the increment of the line.\<close>

theorem rolling_slope:
  assumes "W = 2 ^ k" "k \<le> 10" "small_samples xs" "2 \<le> length (window W xs)"
  defines "P \<equiv> map (\<lambda>(p, v, m). bint p) (window W xs)" and "n \<equiv> length (window W xs)"
  shows "bint (rs_price_slope (rolling_run W xs)) =
      itrunc (int n * (\<Sum>i<n. int i * P ! i) - (\<Sum>i<n. int i) * (\<Sum>i<n. P ! i))
             (int n * (\<Sum>i<n. int i * int i) - (\<Sum>i<n. int i) * (\<Sum>i<n. int i)) \<and>
    (P = map (\<lambda>i. a + b * int i) [0..<n] \<longrightarrow> bint (rs_price_slope (rolling_run W xs)) = b)"
proof -
  let ?D = "int n * (\<Sum>i<n. int i * int i) - (\<Sum>i<n. int i) * (\<Sum>i<n. int i)"
  note at = rolling_slope_at [OF assms(1-4), folded P_def n_def]
  have D: "0 < ?D" using assms(4) unfolding n_def by (rule regression_denominator_pos)
  have "int n * (\<Sum>i<n. int i * P ! i) - (\<Sum>i<n. int i) * (\<Sum>i<n. P ! i) = b * ?D" if "P = map (\<lambda>i. a + b * int i) [0..<n]"
  proof -
    have p: "P ! i = a + b * int i" if "i < n" for i using that \<open>P = _\<close> by simp
    have "(\<Sum>i<n. P ! i) = int n * a + b * (\<Sum>i<n. int i)"
      using p by (simp add: sum.distrib sum_distrib_left)
    moreover have "(\<Sum>i<n. int i * P ! i) = a * (\<Sum>i<n. int i) + b * (\<Sum>i<n. int i * int i)"
      using p by (simp add: sum.distrib sum_distrib_left algebra_simps)
    ultimately show ?thesis by (simp add: algebra_simps)
  qed
  then show ?thesis using at D itrunc_exact by metis
qed

lemma rolling_slope_witness: "bint (rs_price_slope (rolling_run 2 demo_samples)) = 2 * 2 ^ 64"
  using rolling_slope [of 2 1 demo_samples "5 * 2 ^ 64" "2 * 2 ^ 64"] by (simp add: demo_samples_def window_def small_samples_def)

end
