(* ===== verification/Regression_Feeder.thy ===== *)
theory Regression_Feeder
  imports Rolling_Window
begin

text \<open>
  The eight-sample regression of the strategies (\<^verbatim>\<open>src/ML_Headers/LinearRegression3X.hpp\<close>) and the regression
  over its slopes (\<^verbatim>\<open>src/ML_Headers/ROR_regressor.hpp\<close>).  The arrays are lists of \<open>MAX_WINDOW\<close> samples, the
  \<^verbatim>\<open>int\<close> cursors natural numbers.
\<close>

definition MAX_WINDOW :: nat where "MAX_WINDOW = 8"

record LinearRegression3XModel =
  lm_slope :: FPN_Binary
  lm_intercept :: FPN_Binary

record RegressionFeederX =
  fx_price_samples :: "FPN_Binary list"
  fx_head :: nat
  fx_count :: nat

record LinearRegression3XResult =
  lr_model :: LinearRegression3XModel
  lr_r_squared :: FPN_Binary

record RORRegressor =
  ror_slope_samples :: "FPN_Binary list"
  ror_r_squared_samples :: "FPN_Binary list"
  ror_head :: nat
  ror_count :: nat

definition RegressionFeederX_Init :: RegressionFeederX where
  "RegressionFeederX_Init = \<lparr>fx_price_samples = replicate MAX_WINDOW FPN_Zero, fx_head = 0, fx_count = 0\<rparr>"

definition RegressionFeederX_Push :: "RegressionFeederX \<Rightarrow> FPN_Binary \<Rightarrow> RegressionFeederX" where
  "RegressionFeederX_Push feeder price =
     feeder\<lparr>fx_price_samples := (fx_price_samples feeder)[fx_head feeder := price],
            fx_head := (fx_head feeder + 1) AND (MAX_WINDOW - 1),
            fx_count := fx_count feeder + of_bool (fx_count feeder < MAX_WINDOW)\<rparr>"

text \<open>The five sums of the fit.\<close>

definition fit_sum :: "(FPN_Binary \<times> FPN_Binary \<Rightarrow> FPN_Binary) \<Rightarrow> (FPN_Binary \<times> FPN_Binary) list \<Rightarrow> FPN_Binary" where
  "fit_sum f ps = foldl (\<lambda>s p. FPN_AddSat s (f p)) FPN_Zero ps"

definition LinearRegression3X_Fit :: "FPN_Binary list \<Rightarrow> FPN_Binary list \<Rightarrow> nat \<Rightarrow> LinearRegression3XResult" where
  "LinearRegression3X_Fit x_values y_values count =
     (let ps = take count (zip x_values y_values);
          sum_x = fit_sum fst ps;
          sum_y = fit_sum snd ps;
          sum_xy = fit_sum (\<lambda>(x, y). FPN_Mul x y) ps;
          sum_x2 = fit_sum (\<lambda>(x, y). FPN_Mul x x) ps;
          sum_y2 = fit_sum (\<lambda>(x, y). FPN_Mul y y) ps;
          n_fp = FPN_FromDouble (F64_Fin (of_nat count));
          numerator = FPN_SubSat (FPN_Mul n_fp sum_xy) (FPN_Mul sum_x sum_y);
          denominator = FPN_SubSat (FPN_Mul n_fp sum_x2) (FPN_Mul sum_x sum_x);
          denom_nonzero = \<not> FPN_IsZero denominator;
          safe_denom = (if denom_nonzero then denominator else fpn_one);
          slope = (if denom_nonzero then FPN_DivNoAssert numerator safe_denom else FPN_Zero);
          raw_intercept = FPN_DivNoAssert (FPN_SubSat (FPN_Mul sum_y sum_x2) (FPN_Mul sum_x sum_xy)) safe_denom;
          intercept = (if denom_nonzero then raw_intercept else FPN_Zero);
          ss_total = FPN_SubSat (FPN_Mul n_fp sum_y2) (FPN_Mul sum_y sum_y);
          total_nonzero = (\<not> FPN_IsZero ss_total \<and> denom_nonzero);
          safe_total = (if total_nonzero then ss_total else fpn_one);
          raw_r2 = FPN_Mul slope (FPN_DivNoAssert numerator safe_total)
      in \<lparr>lr_model = \<lparr>lm_slope = slope, lm_intercept = intercept\<rparr>, lr_r_squared = (if total_nonzero then raw_r2 else FPN_Zero)\<rparr>)"

definition ring_index :: "nat \<Rightarrow> nat \<Rightarrow> nat \<Rightarrow> nat" where
  "ring_index head count i = (head + MAX_WINDOW - count + i) AND (MAX_WINDOW - 1)"

definition linearized :: "FPN_Binary list \<Rightarrow> nat \<Rightarrow> nat \<Rightarrow> FPN_Binary list" where
  "linearized samples head count = map (\<lambda>i. samples ! ring_index head count i) [0..<count]"

definition RegressionFeederX_Compute :: "RegressionFeederX \<Rightarrow> LinearRegression3XResult" where
  "RegressionFeederX_Compute feeder =
     LinearRegression3X_Fit (map (\<lambda>i. FPN_FromDouble (F64_Fin (of_nat i))) [0..<fx_count feeder])
       (linearized (fx_price_samples feeder) (fx_head feeder) (fx_count feeder)) (fx_count feeder)"

definition LinearRegression3X_Predict :: "LinearRegression3XModel \<Rightarrow> FPN_Binary \<Rightarrow> FPN_Binary" where
  "LinearRegression3X_Predict model x = FPN_AddSat (FPN_Mul (lm_slope model) x) (lm_intercept model)"

definition RORRegressor_Init :: RORRegressor where
  "RORRegressor_Init = \<lparr>ror_slope_samples = replicate MAX_WINDOW FPN_Zero, ror_r_squared_samples = replicate MAX_WINDOW FPN_Zero,
     ror_head = 0, ror_count = 0\<rparr>"

definition RORRegressor_Push :: "RORRegressor \<Rightarrow> LinearRegression3XResult \<Rightarrow> RORRegressor" where
  "RORRegressor_Push reg inner_result =
     reg\<lparr>ror_slope_samples := (ror_slope_samples reg)[ror_head reg := lm_slope (lr_model inner_result)],
         ror_r_squared_samples := (ror_r_squared_samples reg)[ror_head reg := lr_r_squared inner_result],
         ror_head := (ror_head reg + 1) AND (MAX_WINDOW - 1),
         ror_count := ror_count reg + of_bool (ror_count reg < MAX_WINDOW)\<rparr>"

definition RORRegressor_Compute :: "RORRegressor \<Rightarrow> LinearRegression3XResult" where
  "RORRegressor_Compute reg =
     LinearRegression3X_Fit (map (\<lambda>i. FPN_FromInt (word_of_nat i)) [0..<ror_count reg])
       (linearized (ror_slope_samples reg) (ror_head reg) (ror_count reg)) (ror_count reg)"

subsection \<open>The ring holds the last eight samples\<close>

definition feeder_run :: "FPN_Binary list \<Rightarrow> RegressionFeederX" where
  "feeder_run xs = foldl RegressionFeederX_Push RegressionFeederX_Init xs"

lemma mask_window: "n AND (MAX_WINDOW - 1) = n mod 8"
proof -
  have "n AND (2 ^ 3 - 1) = take_bit 3 n" by (simp add: take_bit_eq_mask mask_eq_exp_minus_1)
  then show ?thesis by (simp add: MAX_WINDOW_def take_bit_eq_mod)
qed

definition feeder_inv :: "FPN_Binary list \<Rightarrow> RegressionFeederX \<Rightarrow> bool" where
  "feeder_inv xs f \<longleftrightarrow> length (fx_price_samples f) = 8 \<and> fx_head f = length xs mod 8 \<and> fx_count f = min 8 (length xs) \<and>
     (\<forall>j < length xs. length xs \<le> j + 8 \<longrightarrow> fx_price_samples f ! (j mod 8) = xs ! j)"

lemma mod_eq_self_shift:
  assumes "0 < d" "d < (8 :: nat)"
  shows "j mod 8 \<noteq> (j + d) mod 8"
proof
  assume "j mod 8 = (j + d) mod 8"
  then have "8 dvd (j + d) - j" by (metis mod_eq_dvd_iff_nat le_add1)
  then show False using assms by (auto dest: dvd_imp_le)
qed

lemma feeder_inv_run: "feeder_inv xs (feeder_run xs)"
proof (induction xs rule: rev_induct)
  case Nil
  show ?case by (simp add: feeder_inv_def feeder_run_def RegressionFeederX_Init_def MAX_WINDOW_def)
next
  case (snoc x xs)
  define f where "f = feeder_run xs"
  have f: "length (fx_price_samples f) = 8" "fx_head f = length xs mod 8" "fx_count f = min 8 (length xs)"
    "\<And>j. j < length xs \<Longrightarrow> length xs \<le> j + 8 \<Longrightarrow> fx_price_samples f ! (j mod 8) = xs ! j"
    using snoc unfolding f_def feeder_inv_def by auto
  have "(fx_price_samples f)[length xs mod 8 := x] ! (j mod 8) = (xs @ [x]) ! j" if "j < Suc (length xs)" "Suc (length xs) \<le> j + 8" for j
  proof (cases "j = length xs")
    case False
    then have "j < length xs" "length xs < j + 8" using that by auto
    then obtain d where d: "length xs = j + d" "0 < d" "d < 8" by (metis less_imp_add_positive add_less_cancel_left)
    have "j mod 8 \<noteq> (j + d) mod 8" by (rule mod_eq_self_shift [OF d(2,3)])
    then have "j mod 8 \<noteq> length xs mod 8" by (simp add: d(1))
    then show ?thesis using f(4) [of j] that False by (simp add: nth_append)
  qed (simp add: f(1))
  note nth = this
  have run: "feeder_run (xs @ [x]) = RegressionFeederX_Push f x" by (simp add: feeder_run_def f_def)
  have "min 8 (length xs) + of_bool (min 8 (length xs) < 8) = min 8 (Suc (length xs))" by (cases "length xs < 8") simp_all
  then show ?case unfolding feeder_inv_def run RegressionFeederX_Push_def mask_window
    using nth f(1) by (simp add: f(2,3) MAX_WINDOW_def mod_Suc_eq)
qed

lemma feeder_linearized:
  "linearized (fx_price_samples (feeder_run xs)) (fx_head (feeder_run xs)) (fx_count (feeder_run xs)) = drop (length xs - 8) xs"
proof (rule nth_equalityI)
  have f: "fx_head (feeder_run xs) = length xs mod 8" "fx_count (feeder_run xs) = min 8 (length xs)"
    "\<And>j. j < length xs \<Longrightarrow> length xs \<le> j + 8 \<Longrightarrow> fx_price_samples (feeder_run xs) ! (j mod 8) = xs ! j"
    using feeder_inv_run [of xs] by (auto simp: feeder_inv_def)
  show "length (linearized (fx_price_samples (feeder_run xs)) (fx_head (feeder_run xs)) (fx_count (feeder_run xs))) = length (drop (length xs - 8) xs)"
    by (simp add: linearized_def f)
  fix i assume "i < length (linearized (fx_price_samples (feeder_run xs)) (fx_head (feeder_run xs)) (fx_count (feeder_run xs)))"
  then have i: "i < min 8 (length xs)" by (simp add: linearized_def f)
  have "(length xs mod 8 + 8 - min 8 (length xs) + i) mod 8 = (length xs - 8 + i) mod 8"
  proof (cases "length xs \<le> 8")
    case True
    then have "length xs = 8 \<or> length xs mod 8 = length xs" by (cases "length xs = 8") simp_all
    then show ?thesis using True by (auto simp: min_def)
  next
    case False
    then obtain k where k: "length xs = k + 8" by (metis add.commute le_Suc_ex nat_le_linear)
    show ?thesis unfolding k by (simp add: mod_simps)
  qed
  then have "ring_index (length xs mod 8) (min 8 (length xs)) i = (length xs - 8 + i) mod 8"
    unfolding ring_index_def mask_window by (simp add: MAX_WINDOW_def)
  then show "linearized (fx_price_samples (feeder_run xs)) (fx_head (feeder_run xs)) (fx_count (feeder_run xs)) ! i = drop (length xs - 8) xs ! i"
    using i f(3) [of "length xs - 8 + i"] by (auto simp: linearized_def f add.commute)
qed

end
