(* ===== verification/Strategy_State.thy ===== *)
theory Strategy_State
  imports Regression_Feeder Composer
begin

text \<open>
  The state each strategy keeps for a node and adapts at every rebuild (\<^verbatim>\<open>src/Strategies/MeanReversion.hpp\<close>,
  \<^verbatim>\<open>Momentum.hpp\<close>, \<^verbatim>\<open>SimpleDip.hpp\<close>), with the dispatch over the strategies of
  \<^verbatim>\<open>src/Strategies/StrategyLifecycle.hpp\<close>.  The learned strategy has an opaque state and an empty adaptation.
  A node holds at most one state, of the kind it was allocated for.
\<close>

record BuySideGateConditions =
  bg_price :: FPN_Binary
  bg_volume :: FPN_Binary
  bg_gate_direction :: int

definition bg_zero :: BuySideGateConditions where
  "bg_zero = \<lparr>bg_price = FPN_Zero, bg_volume = FPN_Zero, bg_gate_direction = 0\<rparr>"

record SimpleDipState =
  sd_recent_high :: FPN_Binary
  sd_initialized :: bool

record MeanReversionState =
  mr_feeder :: RegressionFeederX
  mr_ror :: RORRegressor
  mr_live_offset_pct :: FPN_Binary
  mr_live_vol_mult :: FPN_Binary
  mr_live_stddev_mult :: FPN_Binary
  mr_buy_conds_initial :: BuySideGateConditions
  mr_last_regression :: LinearRegression3XResult
  mr_has_regression :: bool
  mr_price_feeder :: RegressionFeederX

record MomentumState =
  mo_feeder :: RegressionFeederX
  mo_ror :: RORRegressor
  mo_live_breakout_mult :: FPN_Binary
  mo_live_vol_mult :: FPN_Binary
  mo_buy_conds_initial :: BuySideGateConditions
  mo_last_regression :: LinearRegression3XResult
  mo_has_regression :: bool
  mo_price_feeder :: RegressionFeederX

datatype StrategyState = SS_MEAN_REVERSION MeanReversionState | SS_MOMENTUM MomentumState | SS_SIMPLE_DIP SimpleDipState | SS_ML

text \<open>The fields of the resolved configuration the strategies read.\<close>

record AdaptCfg =
  ac_entry_offset_pct :: Money
  ac_offset_min :: Money
  ac_offset_max :: Money
  ac_volume_multiplier :: FPN_Binary
  ac_offset_stddev_mult :: FPN_Binary
  ac_offset_stddev_min :: FPN_Binary
  ac_offset_stddev_max :: FPN_Binary
  ac_squeeze_decay :: FPN_Binary
  ac_r2_threshold :: FPN_Binary
  ac_filter_scale :: FPN_Binary
  ac_offset_adapt_scale :: FPN_Binary
  ac_stddev_adapt_scale :: FPN_Binary
  ac_vol_adapt_scale :: FPN_Binary
  ac_vol_mult_min :: FPN_Binary
  ac_vol_mult_max :: FPN_Binary
  ac_breakout_min :: FPN_Binary
  ac_slope_scale_buy :: FPN_Binary
  ac_momentum_breakout_mult :: FPN_Binary
  ac_momentum_sl_mult :: FPN_Binary
  ac_tp_hold_score :: FPN_Binary
  ac_sl_trail_mult :: FPN_Binary

definition fp2_to_double :: "FPN_Binary \<Rightarrow> f64" where
  "fp2_to_double a =
     (let m = (if bv a <s 0 then - bv a else bv a);
          mag = f64_add (f64_of_int (uint (drop_bit 64 m)))
                  (f64_div (f64_of_int (uint (take_bit 64 m))) (F64_Fin 18446744073709551616))
      in if bv a <s 0 then f64_neg mag else mag)"

abbreviation "FPN_ToDouble \<equiv> fp2_to_double"

definition taker_fee :: "'a EngineNodeCfg_scheme \<Rightarrow> Money" where
  "taker_fee cfg = (if \<not> Money_IsZero (nc_fee_rate_taker cfg) then nc_fee_rate_taker cfg else nc_fee_rate cfg)"

definition STRATEGY_MOMENTUM :: u8 where "STRATEGY_MOMENTUM = 1"

definition mask_fpn :: "bool \<Rightarrow> FPN_Binary \<Rightarrow> FPN_Binary" where
  "mask_fpn p x = FPN_Binary (bv x AND - of_bool p)"

lemma mask_fpn [simp]: "mask_fpn p x = (if p then x else FPN_Zero)"
  by (simp add: mask_fpn_def FPN_Zero_def)

definition fpn_select :: "bool \<Rightarrow> FPN_Binary \<Rightarrow> FPN_Binary \<Rightarrow> FPN_Binary" where
  "fpn_select p a b = FPN_Binary ((bv a AND - of_bool p) OR (bv b AND NOT (- of_bool p)))"

subsection \<open>Mean reversion\<close>

definition MeanReversion_Init :: "MeanReversionState \<Rightarrow> RollingStats \<Rightarrow> BuySideGateConditions \<Rightarrow> MeanReversionState \<times> BuySideGateConditions" where
  "MeanReversion_Init state rolling buy_conds =
     (let use_stddev = \<not> FPN_IsZero (mr_live_stddev_mult state);
          pct_price = RollingStats_BuyPrice rolling (mr_live_offset_pct state);
          stddev_price = FPN_Sub (rs_price_avg rolling) (FPN_Mul (rs_price_stddev rolling) (mr_live_stddev_mult state));
          buy_conds = buy_conds\<lparr>bg_price := fpn_select use_stddev stddev_price pct_price,
                                bg_volume := FPN_Mul (rs_volume_avg rolling) (mr_live_vol_mult state)\<rparr>
      in (state\<lparr>mr_buy_conds_initial := buy_conds, mr_feeder := RegressionFeederX_Init, mr_ror := RORRegressor_Init,
                mr_has_regression := False\<rparr>, buy_conds))"

text \<open>The idle squeeze: while nothing is held and the price is above the gate, the gate moves towards the price.\<close>

definition squeeze :: "FPN_Binary \<Rightarrow> FPN_Binary \<Rightarrow> FPN_Binary \<Rightarrow> bool \<Rightarrow> FPN_Binary" where
  "squeeze live limit decay on = FPN_Max (FPN_SubSat live (mask_fpn on (FPN_Mul (FPN_Sub live limit) decay))) limit"

definition mr_squeeze :: "AdaptCfg \<Rightarrow> bool \<Rightarrow> MeanReversionState \<Rightarrow> MeanReversionState" where
  "mr_squeeze cfg should_squeeze state =
     (let use_stddev = \<not> FPN_IsZero (ac_offset_stddev_mult cfg);
          step = mask_fpn (should_squeeze \<and> \<not> use_stddev) (FPN_Mul (mr_live_offset_pct state) (ac_squeeze_decay cfg))
      in state\<lparr>mr_live_offset_pct := FPN_Max (FPN_SubSat (mr_live_offset_pct state) step) FPN_Zero,
               mr_live_stddev_mult := squeeze (mr_live_stddev_mult state) (ac_offset_stddev_min cfg) (ac_squeeze_decay cfg) (should_squeeze \<and> use_stddev),
               mr_live_vol_mult := squeeze (mr_live_vol_mult state) fpn_one (ac_squeeze_decay cfg) should_squeeze\<rparr>)"

definition mr_regress :: "AdaptCfg \<Rightarrow> MeanReversionState \<Rightarrow> MeanReversionState" where
  "mr_regress cfg state =
     (let inner = RegressionFeederX_Compute (mr_feeder state);
          use_stddev = \<not> FPN_IsZero (ac_offset_stddev_mult cfg);
          confident = FPN_GreaterThanOrEqual (lr_r_squared inner) (ac_r2_threshold cfg);
          neg_shift = FPN_Negate (FPN_Mul (lm_slope (lr_model inner)) (ac_filter_scale cfg));
          offset_shift = FPN_Mul (mask_fpn (confident \<and> \<not> use_stddev) neg_shift) (ac_offset_adapt_scale cfg);
          stddev_shift = FPN_Mul (mask_fpn (confident \<and> use_stddev) neg_shift) (ac_stddev_adapt_scale cfg);
          vol_shift = FPN_Mul (mask_fpn confident neg_shift) (ac_vol_adapt_scale cfg)
      in state\<lparr>mr_ror := RORRegressor_Push (mr_ror state) inner, mr_last_regression := inner, mr_has_regression := True,
               mr_live_offset_pct := FPN_Min (FPN_Max (FPN_AddSat (mr_live_offset_pct state) offset_shift) (Money_ToBinary (ac_offset_min cfg)))
                                       (Money_ToBinary (ac_offset_max cfg)),
               mr_live_stddev_mult := FPN_Min (FPN_Max (FPN_AddSat (mr_live_stddev_mult state) stddev_shift) (ac_offset_stddev_min cfg))
                                        (ac_offset_stddev_max cfg),
               mr_live_vol_mult := FPN_Min (FPN_Max (FPN_AddSat (mr_live_vol_mult state) vol_shift) (ac_vol_mult_min cfg)) (ac_vol_mult_max cfg)\<rparr>)"

definition MeanReversion_Adapt ::
    "MeanReversionState \<Rightarrow> FPN_Binary \<Rightarrow> FPN_Binary \<Rightarrow> u16 \<Rightarrow> BuySideGateConditions \<Rightarrow> AdaptCfg \<Rightarrow> MeanReversionState" where
  "MeanReversion_Adapt state current_price portfolio_delta active_bitmap buy_conds cfg =
     (let should_squeeze = (active_bitmap = 0 \<and> FPN_GreaterThan current_price (bg_price buy_conds));
          state = mr_squeeze cfg should_squeeze state;
          state = state\<lparr>mr_feeder := RegressionFeederX_Push (mr_feeder state) portfolio_delta,
                        mr_price_feeder := RegressionFeederX_Push (mr_price_feeder state) current_price, mr_has_regression := False\<rparr>
      in if MAX_WINDOW \<le> fx_count (mr_feeder state) then mr_regress cfg state else state)"

subsection \<open>Momentum\<close>

definition Momentum_Init :: "MomentumState \<Rightarrow> RollingStats \<Rightarrow> BuySideGateConditions \<Rightarrow> MomentumState \<times> BuySideGateConditions" where
  "Momentum_Init state rolling buy_conds =
     (let buy_conds = buy_conds\<lparr>
            bg_price := FPN_AddSat (rs_price_avg rolling) (FPN_Mul (rs_price_stddev rolling) (mo_live_breakout_mult state)),
            bg_volume := FPN_Mul (rs_volume_avg rolling) (mo_live_vol_mult state), bg_gate_direction := 1\<rparr>
      in (state\<lparr>mo_buy_conds_initial := buy_conds, mo_feeder := RegressionFeederX_Init, mo_price_feeder := RegressionFeederX_Init,
                mo_ror := RORRegressor_Init, mo_has_regression := False\<rparr>, buy_conds))"

definition breakout_max :: FPN_Binary where "breakout_max = FPN_FromDouble (F64_Fin 5)"

definition mo_regress :: "AdaptCfg \<Rightarrow> MomentumState \<Rightarrow> MomentumState" where
  "mo_regress cfg state =
     (let reg = RegressionFeederX_Compute (mo_feeder state);
          confident = FPN_GreaterThanOrEqual (lr_r_squared reg) (ac_r2_threshold cfg);
          neg_shift = FPN_Negate (FPN_Mul (lm_slope (lr_model reg)) (ac_slope_scale_buy cfg));
          scaled_shift = FPN_Mul (mask_fpn confident neg_shift) (ac_stddev_adapt_scale cfg)
      in state\<lparr>mo_last_regression := reg, mo_has_regression := True,
               mo_live_breakout_mult := FPN_Min (FPN_Max (FPN_AddSat (mo_live_breakout_mult state) scaled_shift) (ac_breakout_min cfg)) breakout_max\<rparr>)"

definition Momentum_Adapt ::
    "MomentumState \<Rightarrow> FPN_Binary \<Rightarrow> FPN_Binary \<Rightarrow> u16 \<Rightarrow> BuySideGateConditions \<Rightarrow> AdaptCfg \<Rightarrow> MomentumState" where
  "Momentum_Adapt state current_price portfolio_delta active_bitmap buy_conds cfg =
     (let should_squeeze = (active_bitmap = 0 \<and> FPN_LessThan current_price (bg_price buy_conds));
          state = state\<lparr>
            mo_live_breakout_mult := squeeze (mo_live_breakout_mult state) (ac_breakout_min cfg) (ac_squeeze_decay cfg) should_squeeze,
            mo_live_vol_mult := squeeze (mo_live_vol_mult state) fpn_one (ac_squeeze_decay cfg) should_squeeze,
            mo_feeder := RegressionFeederX_Push (mo_feeder state) portfolio_delta,
            mo_price_feeder := RegressionFeederX_Push (mo_price_feeder state) current_price\<rparr>
      in if MAX_WINDOW \<le> fx_count (mo_feeder state) then mo_regress cfg state else state)"

subsection \<open>Simple dip\<close>

definition SimpleDip_Init :: "SimpleDipState \<Rightarrow> RollingStats \<Rightarrow> BuySideGateConditions \<Rightarrow> SimpleDipState \<times> BuySideGateConditions" where
  "SimpleDip_Init state rolling buy_conds = (state\<lparr>sd_recent_high := rs_price_max rolling, sd_initialized := True\<rparr>, buy_conds)"

definition SimpleDip_Adapt ::
    "SimpleDipState \<Rightarrow> FPN_Binary \<Rightarrow> FPN_Binary \<Rightarrow> u16 \<Rightarrow> BuySideGateConditions \<Rightarrow> AdaptCfg \<Rightarrow> SimpleDipState" where
  "SimpleDip_Adapt state current_price portfolio_delta active_bitmap buy_conds cfg = state"

subsection \<open>The lifecycle\<close>

definition model_zero :: LinearRegression3XResult where
  "model_zero = \<lparr>lr_model = \<lparr>lm_slope = FPN_Zero, lm_intercept = FPN_Zero\<rparr>, lr_r_squared = FPN_Zero\<rparr>"

definition mr_zero :: MeanReversionState where
  "mr_zero = \<lparr>mr_feeder = RegressionFeederX_Init, mr_ror = RORRegressor_Init, mr_live_offset_pct = FPN_Zero, mr_live_vol_mult = FPN_Zero,
     mr_live_stddev_mult = FPN_Zero, mr_buy_conds_initial = bg_zero, mr_last_regression = model_zero, mr_has_regression = False,
     mr_price_feeder = RegressionFeederX_Init\<rparr>"

definition mo_zero :: MomentumState where
  "mo_zero = \<lparr>mo_feeder = RegressionFeederX_Init, mo_ror = RORRegressor_Init, mo_live_breakout_mult = FPN_Zero, mo_live_vol_mult = FPN_Zero,
     mo_buy_conds_initial = bg_zero, mo_last_regression = model_zero, mo_has_regression = False, mo_price_feeder = RegressionFeederX_Init\<rparr>"

definition mr_seed :: "AdaptCfg \<Rightarrow> MeanReversionState \<Rightarrow> MeanReversionState" where
  "mr_seed cfg s = s\<lparr>mr_live_offset_pct := Money_ToBinary (ac_entry_offset_pct cfg), mr_live_vol_mult := ac_volume_multiplier cfg,
                     mr_live_stddev_mult := ac_offset_stddev_mult cfg\<rparr>"

definition mo_seed :: "AdaptCfg \<Rightarrow> MomentumState \<Rightarrow> MomentumState" where
  "mo_seed cfg s =
     s\<lparr>mo_live_breakout_mult := (if \<not> FPN_IsZero (ac_momentum_breakout_mult cfg) then ac_momentum_breakout_mult cfg else FPN_FromDouble (F64_Fin 2)),
       mo_live_vol_mult := ac_volume_multiplier cfg\<rparr>"

text \<open>The state a node gets for a strategy: value-initialised, seeded from the configuration, then initialised.\<close>

definition Strategy_InitPerCore :: "u8 \<Rightarrow> RollingStats \<Rightarrow> AdaptCfg \<Rightarrow> StrategyState option" where
  "Strategy_InitPerCore strategy_id rolling cfg =
     (if strategy_id = STRATEGY_MEAN_REVERSION then Some (SS_MEAN_REVERSION (fst (MeanReversion_Init (mr_seed cfg mr_zero) rolling bg_zero)))
      else if strategy_id = STRATEGY_MOMENTUM then Some (SS_MOMENTUM (fst (Momentum_Init (mo_seed cfg mo_zero) rolling bg_zero)))
      else if strategy_id = STRATEGY_SIMPLE_DIP
      then Some (SS_SIMPLE_DIP (fst (SimpleDip_Init \<lparr>sd_recent_high = FPN_Zero, sd_initialized = False\<rparr> rolling bg_zero)))
      else if strategy_id = STRATEGY_ML then Some SS_ML
      else None)"

fun strategy_state_kind :: "StrategyState \<Rightarrow> u8" where
  "strategy_state_kind (SS_MEAN_REVERSION _) = STRATEGY_MEAN_REVERSION"
| "strategy_state_kind (SS_MOMENTUM _) = STRATEGY_MOMENTUM"
| "strategy_state_kind (SS_SIMPLE_DIP _) = STRATEGY_SIMPLE_DIP"
| "strategy_state_kind SS_ML = STRATEGY_ML"

fun adapt_state :: "FPN_Binary \<Rightarrow> FPN_Binary \<Rightarrow> u16 \<Rightarrow> BuySideGateConditions \<Rightarrow> AdaptCfg \<Rightarrow> StrategyState \<Rightarrow> StrategyState" where
  "adapt_state price delta bm conds cfg (SS_MEAN_REVERSION s) = SS_MEAN_REVERSION (MeanReversion_Adapt s price delta bm conds cfg)"
| "adapt_state price delta bm conds cfg (SS_MOMENTUM s) = SS_MOMENTUM (Momentum_Adapt s price delta bm conds cfg)"
| "adapt_state price delta bm conds cfg (SS_SIMPLE_DIP s) = SS_SIMPLE_DIP (SimpleDip_Adapt s price delta bm conds cfg)"
| "adapt_state price delta bm conds cfg SS_ML = SS_ML"

definition Strategy_AdaptPerCore ::
    "StrategyState option \<Rightarrow> u8 \<Rightarrow> FPN_Binary \<Rightarrow> FPN_Binary \<Rightarrow> u16 \<Rightarrow> AdaptCfg \<Rightarrow> StrategyState option" where
  "Strategy_AdaptPerCore strategy_state effective_strategy_id current_price portfolio_delta active_bitmap cfg =
     (case strategy_state of None \<Rightarrow> None
      | Some s \<Rightarrow> Some (if strategy_state_kind s = effective_strategy_id
                        then adapt_state current_price portfolio_delta active_bitmap bg_zero cfg s else s))"


subsection \<open>The adapted multipliers stay within their configured bounds\<close>

lemma squeeze_floor: "bint limit \<le> bint (squeeze live limit decay on)"
  by (simp add: squeeze_def fp2_min_max_int)

definition adapt_cfg_ok :: "AdaptCfg \<Rightarrow> bool" where
  "adapt_cfg_ok cfg \<longleftrightarrow>
     bint (Money_ToBinary (ac_offset_min cfg)) \<le> bint (Money_ToBinary (ac_offset_max cfg)) \<and>
     bint (ac_offset_stddev_min cfg) \<le> bint (ac_offset_stddev_max cfg) \<and> bint (ac_vol_mult_min cfg) \<le> bint (ac_vol_mult_max cfg) \<and>
     bint (ac_breakout_min cfg) \<le> bint breakout_max"

fun adapted_ok :: "AdaptCfg \<Rightarrow> StrategyState \<Rightarrow> bool" where
  "adapted_ok cfg (SS_MEAN_REVERSION s) =
     (bint (ac_offset_stddev_min cfg) \<le> bint (mr_live_stddev_mult s) \<and>
      (if mr_has_regression s
       then bint (mr_live_stddev_mult s) \<le> bint (ac_offset_stddev_max cfg) \<and>
            bint (mr_live_offset_pct s) \<in> {bint (Money_ToBinary (ac_offset_min cfg)) .. bint (Money_ToBinary (ac_offset_max cfg))} \<and>
            bint (mr_live_vol_mult s) \<in> {bint (ac_vol_mult_min cfg) .. bint (ac_vol_mult_max cfg)}
       else 0 \<le> bint (mr_live_offset_pct s) \<and> bint fpn_one \<le> bint (mr_live_vol_mult s)))"
| "adapted_ok cfg (SS_MOMENTUM s) =
     (bint (ac_breakout_min cfg) \<le> bint (mo_live_breakout_mult s) \<and> bint fpn_one \<le> bint (mo_live_vol_mult s) \<and>
      (MAX_WINDOW \<le> fx_count (mo_feeder s) \<longrightarrow> bint (mo_live_breakout_mult s) \<le> bint breakout_max))"
| "adapted_ok cfg s = True"

lemma mr_adapt_ok: "adapt_cfg_ok cfg \<Longrightarrow> adapted_ok cfg (SS_MEAN_REVERSION (MeanReversion_Adapt s price delta bm conds cfg))"
  using squeeze_floor
  by (simp add: MeanReversion_Adapt_def mr_regress_def mr_squeeze_def adapt_cfg_ok_def Let_def fp2_min_max_int)

lemma mo_adapt_ok: "adapt_cfg_ok cfg \<Longrightarrow> adapted_ok cfg (SS_MOMENTUM (Momentum_Adapt s price delta bm conds cfg))"
  using squeeze_floor
  by (simp add: Momentum_Adapt_def mo_regress_def adapt_cfg_ok_def Let_def fp2_min_max_int)




definition demo_adapt_cfg :: AdaptCfg where
  "demo_adapt_cfg =
     \<lparr>ac_entry_offset_pct = Money 0, ac_offset_min = Money 0, ac_offset_max = Money 0, ac_volume_multiplier = FPN_Zero,
      ac_offset_stddev_mult = FPN_Zero, ac_offset_stddev_min = FPN_Zero, ac_offset_stddev_max = FPN_Zero,
      ac_squeeze_decay = FPN_Binary (push_bit 62 1), ac_r2_threshold = FPN_Zero, ac_filter_scale = FPN_Zero, ac_offset_adapt_scale = FPN_Zero,
      ac_stddev_adapt_scale = FPN_Zero, ac_vol_adapt_scale = FPN_Zero, ac_vol_mult_min = FPN_Zero, ac_vol_mult_max = FPN_Zero,
      ac_breakout_min = breakout_max, ac_slope_scale_buy = FPN_Zero, ac_momentum_breakout_mult = FPN_Zero, ac_momentum_sl_mult = FPN_Zero,
      ac_tp_hold_score = FPN_Zero, ac_sl_trail_mult = FPN_Zero\<rparr>"



end
