(* ===== verification/Strategy_Params.thy ===== *)
theory Strategy_Params
  imports Strategy_State
begin

text \<open>
  The parameter packs the strategies build for a node (\<^verbatim>\<open>src/Strategies/StrategyParameters.hpp\<close>), with the cost
  model and the volatility scaler they consult (\<^verbatim>\<open>src/ML_Headers/CostModel.hpp\<close>, \<^verbatim>\<open>VolScaler.hpp\<close>).  The
  learned strategy is an argument of the dispatcher; the EMA strategy names a state type of a header that is not
  published and is left out, as its row in the strategy registry is.  The halt reason the engine passes by pointer
  is threaded through.
\<close>

subsection \<open>Doubles\<close>

text \<open>The correctly rounded square root: 53 bits of the integer root of the scaled argument, then one
  comparison with the midpoint, which a 53-bit argument never hits.\<close>

fun isqrt_bits :: "nat \<Rightarrow> nat \<Rightarrow> nat \<Rightarrow> nat" where
  "isqrt_bits 0 n s = s"
| "isqrt_bits (Suc k) n s = isqrt_bits k n (if (s + 2 ^ k) * (s + 2 ^ k) \<le> n then s + 2 ^ k else s)"

fun f64_sqrt :: "f64 \<Rightarrow> f64" where
  "f64_sqrt (F64_Fin q) =
     (if q < 0 then F64_NaN else if q = 0 then F64_Fin 0
      else let u = f64_exponent q div 2 - 52;
               x = q / (2 powi u * 2 powi u);
               s = isqrt_bits 53 (nat \<lfloor>x\<rfloor>) 0;
               m = of_nat s + 1 / 2
           in F64_Fin (of_nat (if m * m < x then s + 1 else s) * 2 powi u))"
| "f64_sqrt (F64_Inf s) = (if s then F64_NaN else F64_Inf False)"
| "f64_sqrt F64_NaN = F64_NaN"

subsection \<open>Cost model and volatility scaler\<close>

record TradingCosts =
  tc_spread_cost :: f64
  tc_timing_cost :: f64
  tc_impact_cost :: f64
  tc_total_cost :: f64

definition COST_K1_DEFAULT :: f64 where "COST_K1_DEFAULT = F64_Fin (1 / 2)"
definition COST_K2_DEFAULT :: f64 where "COST_K2_DEFAULT = f64_round (15 / 100)"
definition COST_K3_DEFAULT :: f64 where "COST_K3_DEFAULT = F64_Fin 1"
definition VOL_SCALER_Z_MAX_DEFAULT :: f64 where "VOL_SCALER_Z_MAX_DEFAULT = F64_Fin 3"

definition CostModel_Estimate :: "f64 \<Rightarrow> f64 \<Rightarrow> f64 \<Rightarrow> f64 \<Rightarrow> f64 \<Rightarrow> f64 \<Rightarrow> f64 \<Rightarrow> f64 \<Rightarrow> TradingCosts" where
  "CostModel_Estimate spread_bps volatility horizon_minutes order_size adv k1 k2 k3 =
     (let spread_cost = f64_mul k1 spread_bps;
          h = (if f64_gt horizon_minutes (F64_Fin 0) then horizon_minutes else F64_Fin 5);
          timing_cost = f64_mul (f64_mul (f64_mul k2 volatility) (F64_Fin 10000)) (f64_sqrt (f64_div h (F64_Fin 5)));
          impact_cost = (if f64_gt order_size (F64_Fin 0) \<and> f64_gt adv (F64_Fin 0)
            then let participation = f64_div order_size adv
                 in f64_mul (f64_mul k3 (F64_Fin 10)) (f64_sqrt (f64_div participation (f64_round (1 / 100))))
            else F64_Fin 0);
          total_cost = f64_add (f64_add spread_cost timing_cost) impact_cost
      in \<lparr>tc_spread_cost = spread_cost, tc_timing_cost = timing_cost, tc_impact_cost = impact_cost, tc_total_cost = total_cost\<rparr>)"

definition VolScaler_Size :: "f64 \<Rightarrow> f64 \<Rightarrow> f64 \<Rightarrow> f64 \<Rightarrow> f64" where
  "VolScaler_Size alpha volatility z_max max_weight =
     (if f64_le volatility (F64_Fin 0) then F64_Fin 0
      else let z_max = (if f64_le z_max (F64_Fin 0) then VOL_SCALER_Z_MAX_DEFAULT else z_max);
               z = f64_div alpha volatility;
               z = (if f64_gt z z_max then z_max else z);
               z = (if f64_lt z (f64_neg z_max) then f64_neg z_max else z)
           in f64_mul z (f64_div max_weight z_max))"

subsection \<open>Configuration, state and halt reasons\<close>

record StrategyCfg = EngineNodeCfg +
  sc_entry_offset_pct :: Money
  sc_stop_loss_pct :: Money
  sc_simpledip_sl_pct :: Money
  sc_mr_sl_pct :: Money
  sc_fee_floor_mult :: Money
  sc_momentum_min_tp_margin_pct :: Money
  sc_volume_multiplier :: FPN_Binary
  sc_offset_stddev_mult :: FPN_Binary
  sc_spacing_multiplier :: FPN_Binary
  sc_momentum_tp_mult :: FPN_Binary
  sc_momentum_sl_mult :: FPN_Binary
  sc_momentum_min_r2 :: FPN_Binary
  sc_momentum_min_buy_delta_recent :: FPN_Binary
  sc_foxml_vol_scaling_z_max :: FPN_Binary
  sc_partial_exit_enabled :: bool
  sc_cost_gate_enabled :: bool
  sc_vol_scaling_enabled :: bool

text \<open>The state pointer of a node, which each branch casts to its strategy's type.\<close>

record StrategyStates =
  ss_dip :: "SimpleDipState option"
  ss_mr :: "MeanReversionState option"
  ss_mom :: "MomentumState option"

definition SHALT_OK :: u8 where "SHALT_OK = 0"
definition SHALT_FEE_FLOOR :: u8 where "SHALT_FEE_FLOOR = 3"
definition SHALT_COST_GATE :: u8 where "SHALT_COST_GATE = 4"
definition SHALT_NO_SIGNAL :: u8 where "SHALT_NO_SIGNAL = 10"
definition SHALT_MOM_TP_TOO_TIGHT :: u8 where "SHALT_MOM_TP_TOO_TIGHT = 11"
definition SHALT_MOM_NO_FLOW :: u8 where "SHALT_MOM_NO_FLOW = 12"
definition SHALT_MOM_LOW_R2 :: u8 where "SHALT_MOM_LOW_R2 = 13"
definition SHALT_RECOVERY :: u8 where "SHALT_RECOVERY = 15"
definition SHALT_BAD_PCT :: u8 where "SHALT_BAD_PCT = 18"
definition SHALT_MODEL_CORRUPT :: u8 where "SHALT_MODEL_CORRUPT = 19"
definition SHALT_WARMING :: u8 where "SHALT_WARMING = 20"

lemmas shalt_codes = SHALT_OK_def SHALT_FEE_FLOOR_def SHALT_COST_GATE_def SHALT_NO_SIGNAL_def SHALT_MOM_TP_TOO_TIGHT_def
  SHALT_MOM_NO_FLOW_def SHALT_MOM_LOW_R2_def SHALT_RECOVERY_def SHALT_BAD_PCT_def SHALT_MODEL_CORRUPT_def SHALT_WARMING_def

definition first_reason :: "u8 \<Rightarrow> u8 \<Rightarrow> u8" where
  "first_reason reason code = (if reason = SHALT_OK then code else reason)"

definition block_buy :: "GateParameters \<Rightarrow> GateParameters" where
  "block_buy out = out\<lparr>gp_flags := gp_flags out OR GATE_FLAG_BUY_BLOCKED\<rparr>"

subsection \<open>Shared pieces\<close>

definition Strategy_SpacingOk :: "Money \<Rightarrow> Money \<Rightarrow> RollingStats \<Rightarrow> FPN_Binary \<Rightarrow> bool" where
  "Strategy_SpacingOk proposed_entry last_entry rolling spacing_multiplier =
     (if Money_IsZero last_entry then True
      else if FPN_IsZero spacing_multiplier then True
      else if FPN_IsZero (rs_price_stddev rolling) then True
      else let min_dist = FPN_Mul (rs_price_stddev rolling) spacing_multiplier;
               diff = (if Money_Ge proposed_entry last_entry then Money_Sub proposed_entry last_entry
                       else Money_Sub last_entry proposed_entry)
           in Money_Ge diff (Money_FromBinary min_dist))"

definition Strategy_TpFloor :: "Money \<Rightarrow> Money \<Rightarrow> StrategyCfg \<Rightarrow> Money" where
  "Strategy_TpFloor entry_price tp_amount cfg =
     (if Money_IsZero (sc_fee_floor_mult cfg) \<or> Money_IsZero (nc_fee_rate cfg) then tp_amount
      else let fee_per_side = Money_Mul entry_price (nc_fee_rate cfg);
               floor = Money_Mul fee_per_side (sc_fee_floor_mult cfg)
           in if Money_Ge tp_amount floor then tp_amount else floor)"

definition GateEgress_MaxPct :: Money where "GateEgress_MaxPct = Money (10000 * MONEY_SCALE)"

definition clamp_pct :: "Money \<Rightarrow> Money" where
  "clamp_pct p = Money_Max (Money_Min p GateEgress_MaxPct) Money_Zero"

definition GateParameters_FinalizeEmit :: "GateParameters \<times> u8 \<Rightarrow> GateParameters \<times> u8" where
  "GateParameters_FinalizeEmit = (\<lambda>(out, reason).
     let bad = Money_Lt (gp_tp_pct out) Money_Zero \<or> Money_Gt (gp_tp_pct out) GateEgress_MaxPct
             \<or> Money_Lt (gp_sl_pct out) Money_Zero \<or> Money_Gt (gp_sl_pct out) GateEgress_MaxPct
     in if bad then ((block_buy out)\<lparr>gp_tp_pct := clamp_pct (gp_tp_pct out), gp_sl_pct := clamp_pct (gp_sl_pct out)\<rparr>, SHALT_BAD_PCT)
        else (out, reason))"

definition strategy_tp_pct :: "u8 \<Rightarrow> StrategyCfg \<Rightarrow> Money" where
  "strategy_tp_pct strategy_id cfg = ResolvePerFillTpPct strategy_id (EngineNodeCfg.truncate cfg)"

definition ResolvePerFillSlPct :: "u8 \<Rightarrow> StrategyCfg \<Rightarrow> Money" where
  "ResolvePerFillSlPct strategy_id cfg =
     (if strategy_id = STRATEGY_SIMPLE_DIP
      then (if \<not> Money_IsZero (sc_simpledip_sl_pct cfg) then sc_simpledip_sl_pct cfg else sc_stop_loss_pct cfg)
      else if strategy_id = STRATEGY_MEAN_REVERSION
      then (if \<not> Money_IsZero (sc_mr_sl_pct cfg) then sc_mr_sl_pct cfg else sc_stop_loss_pct cfg)
      else sc_stop_loss_pct cfg)"

text \<open>The tail of the three builders: the pack at an entry price.\<close>

definition emit_pack :: "u8 \<Rightarrow> u8 \<Rightarrow> Money \<Rightarrow> FPN_Binary \<Rightarrow> Money \<Rightarrow> Money \<Rightarrow> Money \<Rightarrow> Money \<Rightarrow> Money \<Rightarrow> GateParameters \<Rightarrow> GateParameters" where
  "emit_pack strategy_id flags entry volume_threshold tp_price sl_price tp_pct sl_pct trade_size out =
     out\<lparr>gp_bg_price_threshold := entry, gp_bg_volume_threshold := Money_FromBinary volume_threshold,
         gp_sg_take_profit_price := tp_price, gp_sg_stop_loss_price := sl_price,
         gp_tp_pct := tp_pct, gp_sl_pct := sl_pct, gp_trade_size := trade_size,
         gp_strategy_id := strategy_id, gp_flags := flags, gp_pad := replicate 6 0\<rparr>"

definition full_size :: "Money \<Rightarrow> Money \<Rightarrow> Money" where
  "full_size allocated_balance entry = (if \<not> Money_IsZero entry then Money_Div allocated_balance entry else Money_Zero)"

subsection \<open>The strategies\<close>

definition SimpleDip_BuildParameters ::
    "RollingStats \<Rightarrow> StrategyCfg \<Rightarrow> Money \<Rightarrow> RollingStats option \<Rightarrow> SimpleDipState option \<Rightarrow> GateParameters \<Rightarrow> SimpleDipState option \<times> GateParameters" where
  "SimpleDip_BuildParameters rolling cfg allocated_balance rolling_long state out =
     (let recent_high = rs_price_max rolling;
          recent_high = (case rolling_long of None \<Rightarrow> recent_high
            | Some rl \<Rightarrow> if FPN_GreaterThan (rs_price_max rl) recent_high then rs_price_max rl else recent_high);
          state = map_option (\<lambda>s. s\<lparr>sd_recent_high := recent_high\<rparr>) state;
          high_m = Money_FromBinary recent_high;
          dip_offset = Money_Mul high_m (sc_entry_offset_pct cfg);
          expected_entry = Money_Sub high_m dip_offset;
          tp_pct = strategy_tp_pct STRATEGY_SIMPLE_DIP cfg;
          sl_pct = ResolvePerFillSlPct STRATEGY_SIMPLE_DIP cfg;
          tp_amount = Money_Mul expected_entry tp_pct;
          sl_amount = Money_Mul expected_entry sl_pct;
          volume_threshold = FPN_Mul (rs_volume_avg rolling) (sc_volume_multiplier cfg)
      in (state, emit_pack STRATEGY_SIMPLE_DIP (GATE_FLAG_TP_ENABLED OR GATE_FLAG_SL_ENABLED) expected_entry volume_threshold
           (Money_Add expected_entry tp_amount) (Money_Sub expected_entry sl_amount) tp_pct sl_pct
           (full_size allocated_balance expected_entry) out))"

definition MeanReversion_BuildParameters ::
    "RollingStats \<Rightarrow> StrategyCfg \<Rightarrow> Money \<Rightarrow> MeanReversionState option \<Rightarrow> GateParameters \<Rightarrow> GateParameters" where
  "MeanReversion_BuildParameters rolling cfg allocated_balance state out =
     (let live_offset = (case state of Some s \<Rightarrow> mr_live_offset_pct s | None \<Rightarrow> Money_ToBinary (sc_entry_offset_pct cfg));
          live_vmult = (case state of Some s \<Rightarrow> mr_live_vol_mult s | None \<Rightarrow> sc_volume_multiplier cfg);
          live_smult = (case state of Some s \<Rightarrow> mr_live_stddev_mult s | None \<Rightarrow> sc_offset_stddev_mult cfg);
          avg = rs_price_avg rolling;
          avg = (if FPN_IsZero avg then rs_price_max rolling else avg);
          entry_price = (if \<not> FPN_IsZero live_smult then FPN_Sub avg (FPN_Mul (rs_price_stddev rolling) live_smult)
                         else FPN_Sub avg (FPN_Mul avg live_offset));
          tp_pct = strategy_tp_pct STRATEGY_MEAN_REVERSION cfg;
          sl_pct = ResolvePerFillSlPct STRATEGY_MEAN_REVERSION cfg;
          entry_m = Money_FromBinary entry_price;
          tp_amount = Money_Mul entry_m tp_pct;
          sl_amount = Money_Mul entry_m sl_pct;
          volume_threshold = FPN_Mul (rs_volume_avg rolling) live_vmult
      in emit_pack STRATEGY_MEAN_REVERSION (GATE_FLAG_TP_ENABLED OR GATE_FLAG_SL_ENABLED) entry_m volume_threshold
           (Money_Add entry_m tp_amount) (Money_Sub entry_m sl_amount) tp_pct sl_pct (full_size allocated_balance entry_m) out)"

definition Momentum_BuildParameters ::
    "RollingStats \<Rightarrow> StrategyCfg \<Rightarrow> Money \<Rightarrow> MomentumState option \<Rightarrow> GateParameters \<Rightarrow> GateParameters" where
  "Momentum_BuildParameters rolling cfg allocated_balance state out =
     (let live_breakout = (case state of Some s \<Rightarrow> mo_live_breakout_mult s | None \<Rightarrow> FPN_Zero);
          live_vmult = (case state of Some s \<Rightarrow> mo_live_vol_mult s | None \<Rightarrow> sc_volume_multiplier cfg);
          avg = rs_price_avg rolling;
          avg = (if FPN_IsZero avg then rs_price_max rolling else avg);
          breakout_offset = (if state \<noteq> None \<and> \<not> FPN_IsZero live_breakout \<and> \<not> FPN_IsZero (rs_price_stddev rolling)
            then FPN_Mul (rs_price_stddev rolling) live_breakout
            else FPN_Mul avg (Money_ToBinary (sc_entry_offset_pct cfg)));
          entry_price = FPN_AddSat avg breakout_offset;
          min_stddev_floor = FPN_Mul avg (FPN_FromDouble (f64_round (1 / 10000)));
          stddev_usable = FPN_GreaterThan (rs_price_stddev rolling) min_stddev_floor;
          (tp_amount, sl_amount) = (if \<not> FPN_IsZero (sc_momentum_tp_mult cfg) \<and> stddev_usable
            then (FPN_Mul (rs_price_stddev rolling) (sc_momentum_tp_mult cfg), FPN_Mul (rs_price_stddev rolling) (sc_momentum_sl_mult cfg))
            else (FPN_Mul entry_price (Money_ToBinary (nc_take_profit_pct cfg)), FPN_Mul entry_price (Money_ToBinary (sc_stop_loss_pct cfg))));
          volume_threshold = FPN_Mul (rs_volume_avg rolling) live_vmult;
          entry_mm = Money_FromBinary entry_price
      in emit_pack STRATEGY_MOMENTUM (GATE_FLAG_TP_ENABLED OR GATE_FLAG_SL_ENABLED OR GATE_FLAG_BUY_ABOVE) entry_mm volume_threshold
           (Money_Add entry_mm (Money_FromBinary tp_amount)) (Money_Sub entry_mm (Money_FromBinary sl_amount))
           (strategy_tp_pct STRATEGY_MOMENTUM cfg) (ResolvePerFillSlPct STRATEGY_MOMENTUM cfg)
           (full_size allocated_balance entry_mm) out)"

text \<open>The vetoes of the momentum branch: the first that applies blocks, the others are skipped.\<close>

definition momentum_vetoes :: "RollingStats \<Rightarrow> StrategyCfg \<Rightarrow> GateParameters \<times> u8 \<Rightarrow> GateParameters \<times> u8" where
  "momentum_vetoes rolling cfg = (\<lambda>(out, reason).
     if \<not> Money_IsZero (sc_momentum_min_tp_margin_pct cfg) \<and> \<not> Money_IsZero (gp_tp_pct out)
        \<and> Money_Lt (gp_tp_pct out) (sc_momentum_min_tp_margin_pct cfg)
     then (block_buy out, first_reason reason SHALT_MOM_TP_TOO_TIGHT)
     else if \<not> FPN_IsZero (sc_momentum_min_r2 cfg) \<and> FPN_LessThan (rs_price_r_squared rolling) (sc_momentum_min_r2 cfg)
     then (block_buy out, first_reason reason SHALT_MOM_LOW_R2)
     else if \<not> FPN_IsZero (sc_momentum_min_buy_delta_recent cfg)
        \<and> FPN_LessThan (rs_volume_delta rolling) (sc_momentum_min_buy_delta_recent cfg)
     then (block_buy out, first_reason reason SHALT_MOM_NO_FLOW)
     else (out, reason))"

subsection \<open>The gates after the strategy\<close>

definition pair_fields :: "StrategyCfg \<Rightarrow> GateParameters \<Rightarrow> GateParameters" where
  "pair_fields cfg out =
     (if sc_partial_exit_enabled cfg
      then let tp_b = (if \<not> Money_IsZero (nc_tp2_mult cfg) \<and> \<not> Money_IsZero (gp_tp_pct out)
                       then Money_Mul (gp_tp_pct out) (nc_tp2_mult cfg) else gp_tp_pct out)
           in out\<lparr>gp_flags := gp_flags out OR GATE_FLAG_PAIR_ACTIVE, gp_tp_pct_b := clamp_pct tp_b\<rparr>
      else out\<lparr>gp_flags := gp_flags out AND NOT GATE_FLAG_PAIR_ACTIVE, gp_tp_pct_b := Money_Zero\<rparr>)"

definition fee_floor_gate :: "StrategyCfg \<Rightarrow> GateParameters \<times> u8 \<Rightarrow> GateParameters \<times> u8" where
  "fee_floor_gate cfg = (\<lambda>(out, reason).
     let floor_pct = Money_Mul (taker_fee cfg) (Money_FromInt 3)
     in if \<not> Money_IsZero (gp_tp_pct out) \<and> Money_Lt (gp_tp_pct out) floor_pct
        then (block_buy out, first_reason reason SHALT_FEE_FLOOR) else (out, reason))"

definition relative_vol :: "RollingStats \<Rightarrow> f64" where
  "relative_vol rolling =
     (let price = FPN_ToDouble (rs_price_avg rolling)
      in if f64_gt price (f64_round (1 / 100)) then f64_div (FPN_ToDouble (rs_price_stddev rolling)) price else F64_Fin 0)"

definition cost_gate :: "RollingStats \<Rightarrow> StrategyCfg \<Rightarrow> GateParameters \<times> u8 \<Rightarrow> GateParameters \<times> u8" where
  "cost_gate rolling cfg = (\<lambda>(out, reason).
     if sc_cost_gate_enabled cfg \<and> \<not> Money_IsZero (gp_tp_pct out) \<and> \<not> Money_IsZero (gp_bg_price_threshold out)
     then let price = FPN_ToDouble (rs_price_avg rolling); rel_vol = relative_vol rolling
          in if f64_gt rel_vol (F64_Fin 0)
             then let order_size = f64_mul (Money_ToDouble (gp_trade_size out)) (Money_ToDouble (gp_bg_price_threshold out));
                      adv = f64_mul (f64_mul (FPN_ToDouble (rs_volume_avg rolling)) price) (F64_Fin 1440);
                      c = CostModel_Estimate (F64_Fin 0) rel_vol (F64_Fin 5) order_size adv COST_K1_DEFAULT COST_K2_DEFAULT COST_K3_DEFAULT;
                      tp_bps = f64_mul (Money_ToDouble (gp_tp_pct out)) (F64_Fin 10000)
                  in if f64_gt (tc_total_cost c) (f64_mul tp_bps (F64_Fin (1 / 2)))
                     then (block_buy out, first_reason reason SHALT_COST_GATE) else (out, reason)
             else (out, reason)
     else (out, reason))"

definition vol_scaling :: "RollingStats \<Rightarrow> StrategyCfg \<Rightarrow> GateParameters \<Rightarrow> GateParameters" where
  "vol_scaling rolling cfg out =
     (if sc_vol_scaling_enabled cfg \<and> \<not> Money_IsZero (gp_trade_size out) \<and> \<not> Money_IsZero (gp_tp_pct out)
      then let rel_vol = relative_vol rolling
           in if f64_gt rel_vol (F64_Fin 0)
              then let alpha = Money_ToDouble (gp_tp_pct out);
                       z_max = (if \<not> FPN_IsZero (sc_foxml_vol_scaling_z_max cfg) then FPN_ToDouble (sc_foxml_vol_scaling_z_max cfg)
                                else VOL_SCALER_Z_MAX_DEFAULT);
                       weight = VolScaler_Size alpha rel_vol z_max (F64_Fin 1)
                   in if f64_gt weight (F64_Fin 0) \<and> f64_lt weight (F64_Fin 1)
                      then out\<lparr>gp_trade_size := Money_Mul (gp_trade_size out) (Money (money_from_double_payload weight))\<rparr>
                      else out
              else out
      else out)"

definition no_signal :: "GateParameters \<times> u8 \<Rightarrow> GateParameters \<times> u8" where
  "no_signal = (\<lambda>(out, reason).
     (out, if reason = SHALT_OK \<and> Money_IsZero (gp_bg_price_threshold out) \<and> gp_flags out AND GATE_FLAG_BUY_BLOCKED = 0
           then SHALT_NO_SIGNAL else reason))"

text \<open>Everything after the switch: the egress check, the corrupt-model veto, the pair fields, the fee floor, the
  cost gate, the volatility scaling and the catch-all reason.\<close>

definition finish_pack :: "RollingStats \<Rightarrow> StrategyCfg \<Rightarrow> bool \<Rightarrow> GateParameters \<times> u8 \<Rightarrow> GateParameters \<times> u8" where
  "finish_pack rolling cfg model_corrupt r =
     (let r = GateParameters_FinalizeEmit r;
          r = (if model_corrupt then (block_buy (fst r), SHALT_MODEL_CORRUPT) else r);
          r = (pair_fields cfg (fst r), snd r);
          r = fee_floor_gate cfg r;
          r = cost_gate rolling cfg r;
          r = (vol_scaling rolling cfg (fst r), snd r)
      in no_signal r)"

definition Strategy_BuildParameters ::
    "(GateParameters \<times> u8 \<Rightarrow> GateParameters \<times> u8) \<Rightarrow> u8 \<Rightarrow> RollingStats \<Rightarrow> StrategyCfg \<Rightarrow> Money \<Rightarrow> RollingStats option \<Rightarrow> bool \<Rightarrow>
     StrategyStates \<Rightarrow> u8 \<Rightarrow> GateParameters \<Rightarrow> (GateParameters \<times> u8) \<times> StrategyStates" where
  "Strategy_BuildParameters ML_BuildParameters strategy_id rolling cfg allocated_balance rolling_long model_corrupt states reason out =
     (if strategy_id = STRATEGY_SIMPLE_DIP
      then let (dip, out) = SimpleDip_BuildParameters rolling cfg allocated_balance rolling_long (ss_dip states) out
           in (finish_pack rolling cfg model_corrupt (out, reason), states\<lparr>ss_dip := dip\<rparr>)
      else if strategy_id = STRATEGY_MEAN_REVERSION
      then (finish_pack rolling cfg model_corrupt
             (MeanReversion_BuildParameters rolling cfg allocated_balance (ss_mr states) out, reason), states)
      else if strategy_id = STRATEGY_MOMENTUM
      then (finish_pack rolling cfg model_corrupt
             (momentum_vetoes rolling cfg (Momentum_BuildParameters rolling cfg allocated_balance (ss_mom states) out, reason)), states)
      else if strategy_id = STRATEGY_ML then (finish_pack rolling cfg model_corrupt (ML_BuildParameters (out, reason)), states)
      else ((GateParameters_Init out, first_reason reason SHALT_NO_SIGNAL), states))"

subsection \<open>Flags and reasons along the pipeline\<close>

abbreviation blocked :: "GateParameters \<Rightarrow> bool" where
  "blocked out \<equiv> flag_on (gp_flags out) GATE_FLAG_BUY_BLOCKED"

lemma blocked_block [simp]: "blocked (block_buy out)"
proof -
  have "(x OR GATE_FLAG_BUY_BLOCKED) AND GATE_FLAG_BUY_BLOCKED = GATE_FLAG_BUY_BLOCKED" for x :: u8
    by (rule bit_word_eqI) (auto simp: bit_simps)
  then show ?thesis by (simp add: block_buy_def flag_on_def) (simp add: gate_flags)
qed

lemma block_buy_fields [simp]:
  "gp_tp_pct (block_buy out) = gp_tp_pct out" "gp_sl_pct (block_buy out) = gp_sl_pct out" "gp_tp_pct_b (block_buy out) = gp_tp_pct_b out"
  "gp_bg_price_threshold (block_buy out) = gp_bg_price_threshold out" "gp_trade_size (block_buy out) = gp_trade_size out"
  "gp_sg_take_profit_price (block_buy out) = gp_sg_take_profit_price out" "gp_sg_stop_loss_price (block_buy out) = gp_sg_stop_loss_price out"
  by (simp_all add: block_buy_def)

lemma pair_blocked [simp]: "blocked (pair_fields cfg out) = blocked out"
proof -
  have "(x OR GATE_FLAG_PAIR_ACTIVE) AND GATE_FLAG_BUY_BLOCKED = x AND GATE_FLAG_BUY_BLOCKED"
    "(x AND NOT GATE_FLAG_PAIR_ACTIVE) AND GATE_FLAG_BUY_BLOCKED = x AND GATE_FLAG_BUY_BLOCKED" for x :: u8
    unfolding bit.conj_disj_distrib2 and.assoc by (simp_all add: gate_flags)
  then show ?thesis by (simp add: pair_fields_def flag_on_def Let_def)
qed

lemma emit_free: "\<not> flag_on (GATE_FLAG_TP_ENABLED OR GATE_FLAG_SL_ENABLED) GATE_FLAG_BUY_BLOCKED"
  "\<not> flag_on (GATE_FLAG_TP_ENABLED OR GATE_FLAG_SL_ENABLED OR GATE_FLAG_BUY_ABOVE) GATE_FLAG_BUY_BLOCKED"
  by (simp_all add: flag_on_def gate_flags)

text \<open>A reason is reported exactly when the pack is blocked; every step keeps it so.\<close>

definition explained :: "GateParameters \<times> u8 \<Rightarrow> bool" where
  "explained r \<longleftrightarrow> (snd r = SHALT_OK \<longleftrightarrow> \<not> blocked (fst r))"

lemma first_reason_code: "code \<noteq> SHALT_OK \<Longrightarrow> first_reason reason code \<noteq> SHALT_OK"
  by (simp add: first_reason_def)

lemma explained_steps:
  "explained r \<Longrightarrow> explained (momentum_vetoes rolling cfg r)" "explained r \<Longrightarrow> explained (fee_floor_gate cfg r)"
  "explained r \<Longrightarrow> explained (cost_gate rolling cfg r)" "explained r \<Longrightarrow> explained (GateParameters_FinalizeEmit r)"
  "explained r \<Longrightarrow> explained (pair_fields cfg (fst r), snd r)" "explained r \<Longrightarrow> explained (vol_scaling rolling cfg (fst r), snd r)"
  "explained (block_buy (fst r), SHALT_MODEL_CORRUPT)"
proof -
  have k: "first_reason x SHALT_FEE_FLOOR \<noteq> SHALT_OK" "first_reason x SHALT_COST_GATE \<noteq> SHALT_OK" "first_reason x SHALT_MOM_TP_TOO_TIGHT \<noteq> SHALT_OK"
    "first_reason x SHALT_MOM_LOW_R2 \<noteq> SHALT_OK" "first_reason x SHALT_MOM_NO_FLOW \<noteq> SHALT_OK" "SHALT_BAD_PCT \<noteq> SHALT_OK" "SHALT_MODEL_CORRUPT \<noteq> SHALT_OK" for x
    by (rule first_reason_code, simp add: shalt_codes)+ (simp_all add: shalt_codes)
  obtain out reason where r: "r = (out, reason)" by (cases r)
  show "explained r \<Longrightarrow> explained (momentum_vetoes rolling cfg r)" "explained r \<Longrightarrow> explained (fee_floor_gate cfg r)"
    "explained (block_buy (fst r), SHALT_MODEL_CORRUPT)"
    by (simp_all add: r explained_def momentum_vetoes_def fee_floor_gate_def Let_def k)
  show "explained r \<Longrightarrow> explained (cost_gate rolling cfg r)"
    by (simp add: r explained_def cost_gate_def Let_def k)
  show "explained r \<Longrightarrow> explained (pair_fields cfg (fst r), snd r)" by (simp add: explained_def)
  show "explained r \<Longrightarrow> explained (vol_scaling rolling cfg (fst r), snd r)"
    by (simp add: explained_def vol_scaling_def Let_def)
  have "flag_on (gp_flags ((block_buy out)\<lparr>gp_tp_pct := a, gp_sl_pct := b\<rparr>)) GATE_FLAG_BUY_BLOCKED" for a b
    using blocked_block [of out] by simp
  then show "explained r \<Longrightarrow> explained (GateParameters_FinalizeEmit r)"
    by (simp add: r explained_def GateParameters_FinalizeEmit_def Let_def k)
qed

lemma explained_finish:
  fixes rolling :: RollingStats and cfg :: StrategyCfg and model_corrupt :: bool
  assumes "explained r"
  defines "f \<equiv> finish_pack rolling cfg model_corrupt r"
  shows "snd f = SHALT_OK \<longleftrightarrow> \<not> blocked (fst f) \<and> \<not> Money_IsZero (gp_bg_price_threshold (fst f))"
proof -
  have last: "snd (no_signal x) = SHALT_OK \<longleftrightarrow> \<not> blocked (fst (no_signal x)) \<and> \<not> Money_IsZero (gp_bg_price_threshold (fst (no_signal x)))"
    if "explained x" for x
    using that by (cases x) (auto simp: explained_def no_signal_def flag_on_def shalt_codes)
  have c: "explained (if model_corrupt then (block_buy (fst x), SHALT_MODEL_CORRUPT) else x)" if "explained x" for x
    using that explained_steps(7) by simp
  show ?thesis
    unfolding f_def finish_pack_def Let_def
    by (intro last explained_steps(2,3,5,6) c explained_steps(4) assms(1))
qed

lemma emitted_explained: "explained (emit_pack sid (GATE_FLAG_TP_ENABLED OR GATE_FLAG_SL_ENABLED) e v t l p q z out, SHALT_OK)"
  "explained (emit_pack sid (GATE_FLAG_TP_ENABLED OR GATE_FLAG_SL_ENABLED OR GATE_FLAG_BUY_ABOVE) e v t l p q z out, SHALT_OK)"
  using emit_free by (simp_all add: explained_def emit_pack_def)

text \<open>C21: for every built-in strategy the reported halt reason is clear exactly when the pack can still open a
  position, that is when it is not blocked and has an entry price: no veto is silent and none is reported in vain.\<close>

theorem strategy_halt_explained:
  fixes ml :: "GateParameters \<times> u8 \<Rightarrow> GateParameters \<times> u8" and strategy_id :: u8 and rolling :: RollingStats and cfg :: StrategyCfg
    and allocated_balance :: Money and rolling_long :: "RollingStats option" and model_corrupt :: bool and states :: StrategyStates
    and out :: GateParameters
  assumes "strategy_id \<noteq> STRATEGY_ML"
  defines "r \<equiv> fst (Strategy_BuildParameters ml strategy_id rolling cfg allocated_balance rolling_long model_corrupt states SHALT_OK out)"
  shows "snd r = SHALT_OK \<longleftrightarrow> \<not> flag_on (gp_flags (fst r)) GATE_FLAG_BUY_BLOCKED \<and> \<not> Money_IsZero (gp_bg_price_threshold (fst r))"
proof -
  let ?f = "finish_pack rolling cfg model_corrupt"
  consider "r = ?f (snd (SimpleDip_BuildParameters rolling cfg allocated_balance rolling_long (ss_dip states) out), SHALT_OK)"
    | "r = ?f (MeanReversion_BuildParameters rolling cfg allocated_balance (ss_mr states) out, SHALT_OK)"
    | "r = ?f (momentum_vetoes rolling cfg (Momentum_BuildParameters rolling cfg allocated_balance (ss_mom states) out, SHALT_OK))"
    | "r = (GateParameters_Init out, SHALT_NO_SIGNAL)"
    using assms(1) unfolding r_def Strategy_BuildParameters_def
    by (cases "strategy_id = STRATEGY_SIMPLE_DIP"; cases "strategy_id = STRATEGY_MEAN_REVERSION"; cases "strategy_id = STRATEGY_MOMENTUM";
      simp add: Let_def split_def first_reason_def)
  then show ?thesis
  proof cases
    case 1
    show ?thesis unfolding 1 by (rule explained_finish) (simp add: SimpleDip_BuildParameters_def Let_def emitted_explained)
  next
    case 2
    show ?thesis unfolding 2 by (rule explained_finish) (simp add: MeanReversion_BuildParameters_def Let_def emitted_explained)
  next
    case 3
    show ?thesis unfolding 3
      by (rule explained_finish, rule explained_steps(1)) (simp add: Momentum_BuildParameters_def Let_def split_def emitted_explained)
  next
    case 4
    then show ?thesis by (simp add: GateParameters_Init_def Money_IsZero_def Money_Zero_def shalt_codes)
  qed
qed

subsection \<open>No pack leaves unsafe\<close>

abbreviation pct_ok :: "Money \<Rightarrow> bool" where
  "pct_ok p \<equiv> 0 \<le> mint p \<and> mint p \<le> 10000 * 100000000"

lemma max_pct_int: "mint GateEgress_MaxPct = 10000 * 100000000"
  by (simp add: GateEgress_MaxPct_def MONEY_SCALE_def)

lemma clamp_pct_ok: "pct_ok (clamp_pct p)"
  unfolding clamp_pct_def money_order money_minmax max_pct_int Money_Zero_int by simp

lemma finalize_pcts: "pct_ok (gp_tp_pct (fst (GateParameters_FinalizeEmit r)))" "pct_ok (gp_sl_pct (fst (GateParameters_FinalizeEmit r)))"
  "gp_tp_pct (fst r) = gp_tp_pct (fst (GateParameters_FinalizeEmit r)) \<and> gp_sl_pct (fst r) = gp_sl_pct (fst (GateParameters_FinalizeEmit r))
     \<or> blocked (fst (GateParameters_FinalizeEmit r))"
proof -
  obtain out reason where r: "r = (out, reason)" by (cases r)
  have b: "flag_on (gp_flags ((block_buy out)\<lparr>gp_tp_pct := a, gp_sl_pct := b\<rparr>)) GATE_FLAG_BUY_BLOCKED" for a b
    using blocked_block [of out] by simp
  have c: "pct_ok (gp_tp_pct (fst (GateParameters_FinalizeEmit r))) \<and> pct_ok (gp_sl_pct (fst (GateParameters_FinalizeEmit r)))"
    using clamp_pct_ok [of "gp_tp_pct out"] clamp_pct_ok [of "gp_sl_pct out"]
    unfolding r GateParameters_FinalizeEmit_def prod.case Let_def money_order money_minmax max_pct_int Money_Zero_int by auto
  then show "pct_ok (gp_tp_pct (fst (GateParameters_FinalizeEmit r)))" "pct_ok (gp_sl_pct (fst (GateParameters_FinalizeEmit r)))" by auto
  show "gp_tp_pct (fst r) = gp_tp_pct (fst (GateParameters_FinalizeEmit r)) \<and> gp_sl_pct (fst r) = gp_sl_pct (fst (GateParameters_FinalizeEmit r))
     \<or> blocked (fst (GateParameters_FinalizeEmit r))"
    using b unfolding r GateParameters_FinalizeEmit_def prod.case Let_def by (auto simp del: GateParameters.simps)
qed

lemma later_fields:
  fixes r :: "GateParameters \<times> u8"
  shows "gp_tp_pct (fst (fee_floor_gate cfg r)) = gp_tp_pct (fst r)" "gp_sl_pct (fst (fee_floor_gate cfg r)) = gp_sl_pct (fst r)"
    "gp_tp_pct_b (fst (fee_floor_gate cfg r)) = gp_tp_pct_b (fst r)"
    "gp_tp_pct (fst (cost_gate rolling cfg r)) = gp_tp_pct (fst r)" "gp_sl_pct (fst (cost_gate rolling cfg r)) = gp_sl_pct (fst r)"
    "gp_tp_pct_b (fst (cost_gate rolling cfg r)) = gp_tp_pct_b (fst r)"
    "gp_tp_pct (vol_scaling rolling cfg out) = gp_tp_pct out" "gp_sl_pct (vol_scaling rolling cfg out) = gp_sl_pct out"
    "gp_tp_pct_b (vol_scaling rolling cfg out) = gp_tp_pct_b out" "gp_flags (vol_scaling rolling cfg out) = gp_flags out"
    "gp_tp_pct (pair_fields cfg out) = gp_tp_pct out" "gp_sl_pct (pair_fields cfg out) = gp_sl_pct out" "fst (no_signal r) = fst r"
    "blocked (fst r) \<Longrightarrow> blocked (fst (cost_gate rolling cfg r))" "blocked (fst r) \<Longrightarrow> blocked (fst (fee_floor_gate cfg r))"
  by (cases r, simp add: fee_floor_gate_def cost_gate_def vol_scaling_def pair_fields_def no_signal_def Let_def)+


lemma pair_pct: "pct_ok (gp_tp_pct_b (pair_fields cfg out))"
  using clamp_pct_ok by (simp add: pair_fields_def Let_def Money_Zero_int)

lemma fee_floor_cleared:
  assumes "\<not> blocked (fst (fee_floor_gate cfg r))"
  shows "mint (gp_tp_pct (fst r)) = 0 \<or> mint (Money_Mul (taker_fee cfg) (Money_FromInt 3)) \<le> mint (gp_tp_pct (fst r))"
proof -
  obtain out reason where r: "r = (out, reason)" by (cases r)
  have "\<not> (\<not> Money_IsZero (gp_tp_pct out) \<and> Money_Lt (gp_tp_pct out) (Money_Mul (taker_fee cfg) (Money_FromInt 3)))"
    using assms blocked_block [of out] unfolding r fee_floor_gate_def prod.case Let_def by (auto split: if_splits)
  then show ?thesis unfolding r fst_conv money_order by linarith
qed

definition pack_safe :: "StrategyCfg \<Rightarrow> GateParameters \<Rightarrow> bool" where
  "pack_safe cfg p \<longleftrightarrow>
     pct_ok (gp_tp_pct p) \<and> pct_ok (gp_sl_pct p) \<and> pct_ok (gp_tp_pct_b p) \<and>
     (blocked p \<or> mint (gp_tp_pct p) = 0 \<or> mint (Money_Mul (taker_fee cfg) (Money_FromInt 3)) \<le> mint (gp_tp_pct p))"

lemma finish_safe: "pack_safe cfg (fst (finish_pack rolling cfg model_corrupt r))"
proof -
  let ?a = "GateParameters_FinalizeEmit r"
  define x where "x = (if model_corrupt then (block_buy (fst ?a), SHALT_MODEL_CORRUPT) else ?a)"
  define y where "y = (pair_fields cfg (fst x), snd x)"
  define z where "z = fst (cost_gate rolling cfg (fee_floor_gate cfg y))"
  have f: "fst (finish_pack rolling cfg model_corrupt r) = vol_scaling rolling cfg z"
    by (simp add: finish_pack_def Let_def later_fields x_def y_def z_def)
  have x: "pct_ok (gp_tp_pct (fst x))" "pct_ok (gp_sl_pct (fst x))"
    unfolding x_def using finalize_pcts(1,2) [of r] by simp_all
  have z: "gp_tp_pct z = gp_tp_pct (fst x)" "gp_sl_pct z = gp_sl_pct (fst x)" "gp_tp_pct_b z = gp_tp_pct_b (fst y)"
    unfolding z_def y_def by (simp_all add: later_fields)
  have floor: "mint (gp_tp_pct (fst x)) = 0 \<or> mint (Money_Mul (taker_fee cfg) (Money_FromInt 3)) \<le> mint (gp_tp_pct (fst x))" if "\<not> blocked z"
    using fee_floor_cleared [of cfg y] later_fields(14) [of "fee_floor_gate cfg y" rolling cfg] that
    unfolding z_def y_def by (auto simp: later_fields)
  show ?thesis
    unfolding pack_safe_def f later_fields z using x floor pair_pct [of cfg "fst x"] by (auto simp: y_def)
qed

text \<open>C19: whatever strategy a node runs, the learned one included, the percentages of the pack it gets lie between zero
  and ten thousand, and the pack fires an entry only if it has no profit target or one above three times the taker fee.\<close>

theorem strategy_pack_safe:
  fixes ml :: "GateParameters \<times> u8 \<Rightarrow> GateParameters \<times> u8" and strategy_id :: u8 and rolling :: RollingStats and cfg :: StrategyCfg
    and allocated_balance :: Money and rolling_long :: "RollingStats option" and model_corrupt :: bool and states :: StrategyStates
    and reason :: u8 and out :: GateParameters
  defines "p \<equiv> fst (fst (Strategy_BuildParameters ml strategy_id rolling cfg allocated_balance rolling_long model_corrupt states reason out))"
  shows "{mint (gp_tp_pct p), mint (gp_sl_pct p), mint (gp_tp_pct_b p)} \<subseteq> {0..10000 * 100000000} \<and>
    (BG_Evaluate tick p \<longrightarrow> mint (gp_tp_pct p) = 0 \<or> mint (Money_Mul (taker_fee cfg) (Money_FromInt 3)) \<le> mint (gp_tp_pct p))"
proof -
  let ?ids = "{STRATEGY_SIMPLE_DIP, STRATEGY_MEAN_REVERSION, STRATEGY_MOMENTUM, STRATEGY_ML}"
  have "pack_safe cfg p" if "strategy_id \<in> ?ids"
    using that unfolding p_def Strategy_BuildParameters_def by (auto simp: Let_def split_def finish_safe)
  moreover have "pack_safe cfg p" if "strategy_id \<notin> ?ids"
    using that unfolding p_def Strategy_BuildParameters_def pack_safe_def by (simp add: GateParameters_Init_def Money_Zero_int)
  ultimately show ?thesis unfolding BG_Evaluate_iff buy_gate_def pack_safe_def by fastforce
qed


subsection \<open>The exits bracket the entry and the size fits the allocation\<close>

lemma f64_round_near:
  assumes "0 < x" "x \<le> 100000000"
  obtains v where "f64_round x = F64_Fin v" "0 \<le> v" "\<bar>v - x\<bar> < 1 / 2"
proof -
  define u where "u = max (f64_exponent x - 52) (- 1074)"
  define v where "v = of_int (rat_half_even (x / 2 powi u)) * (2 :: rat) powi u"
  have "(2 :: rat) powi (f64_exponent x) \<le> \<bar>x\<bar>" by (rule f64_exponent_bounds) (use assms in simp)
  also have "\<dots> < 2 powi 27" using assms by simp
  finally have "(2 :: rat) powi (f64_exponent x) < 2 powi 27" .
  moreover have "(2 :: rat) powi 27 \<le> 2 powi (f64_exponent x)" if "27 \<le> f64_exponent x"
    using that by (intro power_int_increasing) simp_all
  ultimately have "f64_exponent x < 27" by linarith
  then have "u \<le> - 1" unfolding u_def by simp
  then have u: "(2 :: rat) powi u \<le> 2 powi - 1" by (intro power_int_increasing) simp_all
  have e: "\<bar>of_int (rat_half_even (x / 2 powi u)) - x / 2 powi u\<bar> \<le> 1 / 2" by (rule rat_half_even_error)
  have p: "(0 :: rat) < 2 powi u" by simp
  have "v - x = (of_int (rat_half_even (x / 2 powi u)) - x / 2 powi u) * 2 powi u" using p by (simp add: v_def field_simps)
  then have "\<bar>v - x\<bar> \<le> 1 / 2 * 2 powi u" using e p by (simp only: abs_mult) (intro mult_mono; simp)
  also have "\<dots> < 1 / 2" using u by (simp add: power_int_minus)
  finally have near: "\<bar>v - x\<bar> < 1 / 2" .
  have "0 \<le> rat_half_even (x / 2 powi u)"
  proof -
    have "0 < x / 2 powi u" using assms p by simp
    then have "(- 1 :: rat) < of_int (rat_half_even (x / 2 powi u))" using e by linarith
    then show ?thesis by linarith
  qed
  then have v: "0 \<le> v" unfolding v_def using p by (simp add: less_imp_le)
  have "v < 2 ^ 1024"
  proof -
    have "v < 100000001" using abs_ge_self [of "v - x"] near assms by linarith
    then have "v < 2 ^ 27" by simp
    also have "(2 :: rat) ^ 27 \<le> 2 ^ 1024" by (rule power_increasing) simp_all
    finally show ?thesis .
  qed
  then have "f64_round x = F64_Fin v" using assms v unfolding f64_round_def Let_def u_def [symmetric] v_def [symmetric] by simp
  then show ?thesis using that v near by blast
qed

lemma weight_payload:
  assumes "f64_gt w (F64_Fin 0)" "f64_lt w (F64_Fin 1)"
  obtains z where "money_from_double_payload w = word_of_int z" "0 \<le> z" "z \<le> 100000000"
proof -
  obtain q where q: "w = F64_Fin q" "0 < q" "q < 1" using assms by (cases w) (simp_all add: f64_gt_def)
  obtain v where v: "f64_round (q * 100000000) = F64_Fin v" "0 \<le> v" "\<bar>v - q * 100000000\<bar> < 1 / 2"
    by (rule f64_round_near [of "q * 100000000"]) (use q in simp_all)
  have hi: "v < 100000000 + 1 / 2" using v(3) q(3) by linarith
  obtain L where L: "payload_limit = F64_Fin L" "2 ^ 60 \<le> L" by (rule payload_limit_large)
  have "v < L" "- L < v" using hi v(2) L(2) by simp_all
  then have "money_from_double_payload w = word_of_int (rat_half_away v)"
    unfolding money_from_double_payload_def Let_def q(1) f64_mul.simps v(1) L(1) f64_gt_def by simp
  moreover have "0 \<le> rat_half_away v" "rat_half_away v \<le> 100000000"
    using v(2) hi by (simp_all add: rat_half_away_def)
  ultimately show ?thesis using v(2) by (intro that [of "rat_half_away v"])
qed

lemma mul_fraction:
  assumes "0 \<le> mint a" "0 \<le> mint b" "mint b \<le> 100000000"
  shows "0 \<le> mint (Money_Mul a b)" "mint (Money_Mul a b) \<le> mint a"
proof -
  let ?i = "irhe (mint a * mint b) 100000000"
  have "mint a * mint b \<le> mint a * 100000000" using assms by (intro mult_left_mono) simp_all
  then have "?i \<le> mint a" using irhe_nearest [of 100000000 "mint a * mint b"] by simp
  moreover have "0 \<le> ?i" using assms by (intro irhe_sign) simp
  ultimately show "0 \<le> mint (Money_Mul a b)" "mint (Money_Mul a b) \<le> mint a"
    by (simp_all add: Money_Mul_int money_sat_def money_lim_def)
qed

lemma scaled_size:
  assumes "0 \<le> mint (gp_trade_size out)"
  shows "0 \<le> mint (gp_trade_size (vol_scaling rolling cfg out)) \<and> mint (gp_trade_size (vol_scaling rolling cfg out)) \<le> mint (gp_trade_size out)"
proof -
  have "0 \<le> mint (Money_Mul (gp_trade_size out) (Money (money_from_double_payload w))) \<and>
      mint (Money_Mul (gp_trade_size out) (Money (money_from_double_payload w))) \<le> mint (gp_trade_size out)"
    if "f64_gt w (F64_Fin 0)" "f64_lt w (F64_Fin 1)" for w
  proof -
    note w = that
    obtain z where z: "money_from_double_payload w = word_of_int z" "0 \<le> z" "z \<le> 100000000" by (rule weight_payload [OF w])
    have "mint (Money (money_from_double_payload w)) = z"
      using z sint_word_of_int_128 [of z] by simp
    then show ?thesis using mul_fraction [OF assms, of "Money (money_from_double_payload w)"] z by simp
  qed
  then show ?thesis using assms by (simp add: vol_scaling_def Let_def)
qed


text \<open>What the two dip builders emit around an entry price.\<close>

definition dip_pack :: "Money \<Rightarrow> GateParameters \<Rightarrow> bool" where
  "dip_pack allocated_balance g \<longleftrightarrow>
     (let e = gp_bg_price_threshold g
      in money_closed e \<and> gp_flags g = GATE_FLAG_TP_ENABLED OR GATE_FLAG_SL_ENABLED \<and>
         gp_sg_take_profit_price g = Money_Add e (Money_Mul e (gp_tp_pct g)) \<and>
         gp_sg_stop_loss_price g = Money_Sub e (Money_Mul e (gp_sl_pct g)) \<and>
         gp_trade_size g = full_size allocated_balance e)"

lemma dip_packs:
  "dip_pack alloc (snd (SimpleDip_BuildParameters rolling cfg alloc rolling_long state out))"
  "dip_pack alloc (MeanReversion_BuildParameters rolling cfg alloc ms out)"
  by (simp_all add: dip_pack_def SimpleDip_BuildParameters_def MeanReversion_BuildParameters_def emit_pack_def Let_def money_closed_ops)

lemma finalize_keeps:
  fixes g :: GateParameters and reason :: u8
  defines "a \<equiv> fst (GateParameters_FinalizeEmit (g, reason))"
  shows "gp_bg_price_threshold a = gp_bg_price_threshold g \<and> gp_sg_take_profit_price a = gp_sg_take_profit_price g \<and>
    gp_sg_stop_loss_price a = gp_sg_stop_loss_price g \<and> gp_trade_size a = gp_trade_size g"
    "\<not> blocked a \<Longrightarrow> 0 \<le> mint (gp_tp_pct g) \<and> 0 \<le> mint (gp_sl_pct g)"
    "gp_flags a AND GATE_FLAG_BUY_ABOVE = gp_flags g AND GATE_FLAG_BUY_ABOVE"
proof -
  have f: "(x OR GATE_FLAG_BUY_BLOCKED) AND GATE_FLAG_BUY_ABOVE = x AND GATE_FLAG_BUY_ABOVE" for x :: u8
    unfolding bit.conj_disj_distrib2 by (simp add: gate_flags)
  show "gp_bg_price_threshold a = gp_bg_price_threshold g \<and> gp_sg_take_profit_price a = gp_sg_take_profit_price g \<and>
    gp_sg_stop_loss_price a = gp_sg_stop_loss_price g \<and> gp_trade_size a = gp_trade_size g"
    "gp_flags a AND GATE_FLAG_BUY_ABOVE = gp_flags g AND GATE_FLAG_BUY_ABOVE"
    by (simp_all add: a_def GateParameters_FinalizeEmit_def block_buy_def Let_def f)
  show "\<not> blocked a \<Longrightarrow> 0 \<le> mint (gp_tp_pct g) \<and> 0 \<le> mint (gp_sl_pct g)"
    using finalize_pcts [of "(g, reason)"] unfolding a_def by auto
qed

lemma dip_exits:
  assumes "dip_pack alloc g" "0 \<le> mint (gp_bg_price_threshold g)" "0 \<le> mint (gp_tp_pct g)" "0 \<le> mint (gp_sl_pct g)"
  shows "mint (gp_sg_stop_loss_price g) \<le> mint (gp_bg_price_threshold g) \<and>
    mint (gp_bg_price_threshold g) \<le> mint (gp_sg_take_profit_price g)"
proof -
  have m: "0 \<le> mint (Money_Mul (gp_bg_price_threshold g) p)" "money_closed (Money_Mul (gp_bg_price_threshold g) p)" if "0 \<le> mint p" for p
    using assms(2) that by (simp_all add: Money_Mul_int money_sat_sign irhe_sign money_closed_ops)
  have c: "money_closed (gp_bg_price_threshold g)" using assms(1) by (simp add: dip_pack_def Let_def)
  have "mint (Money_Sub (gp_bg_price_threshold g) p) \<le> mint (gp_bg_price_threshold g) \<and>
      mint (gp_bg_price_threshold g) \<le> mint (Money_Add (gp_bg_price_threshold g) p)" if "0 \<le> mint p" "money_closed p" for p
    using that c by (simp add: Money_Add_int Money_Sub_int) (auto simp: money_closed_def money_sat_def abs_le_iff)
  then show ?thesis using assms m by (simp add: dip_pack_def Let_def)
qed

lemma full_size_fits:
  assumes "money_closed alloc" "0 \<le> mint alloc" "0 < mint e"
  shows "0 \<le> mint (full_size alloc e) \<and> 2 * (mint (full_size alloc e) * mint e) \<le> 2 * (mint alloc * 100000000) + mint e"
proof -
  let ?i = "irhe (mint alloc * 100000000) (nat (mint e))"
  have i: "0 \<le> ?i" using assms by (intro irhe_sign) simp
  have s: "mint (full_size alloc e) = money_sat ?i"
    using assms Money_Div_int [of alloc e] by (auto simp: full_size_def Money_IsZero_def)
  then have le: "0 \<le> mint (full_size alloc e)" "mint (full_size alloc e) \<le> ?i" using i by (simp_all add: money_sat_def money_lim_def)
  have "2 * \<bar>?i * mint e - mint alloc * 100000000\<bar> \<le> mint e"
    using irhe_nearest [of "nat (mint e)" "mint alloc * 100000000"] assms by simp
  then have "2 * (?i * mint e) \<le> 2 * (mint alloc * 100000000) + mint e"
    using abs_ge_self [of "?i * mint e - mint alloc * 100000000"] unfolding int_distrib by simp
  moreover have "mint (full_size alloc e) * mint e \<le> ?i * mint e" using le assms by (intro mult_right_mono) simp_all
  ultimately show ?thesis using le(1) by (intro conjI) linarith+
qed


definition same_entry :: "GateParameters \<Rightarrow> GateParameters \<Rightarrow> bool" where
  "same_entry a b \<longleftrightarrow>
     gp_bg_price_threshold a = gp_bg_price_threshold b \<and> gp_sg_take_profit_price a = gp_sg_take_profit_price b \<and>
     gp_sg_stop_loss_price a = gp_sg_stop_loss_price b \<and> gp_flags a AND GATE_FLAG_BUY_ABOVE = gp_flags b AND GATE_FLAG_BUY_ABOVE"

lemma same_entry_trans: "same_entry a b \<Longrightarrow> same_entry b c \<Longrightarrow> same_entry a c"
  by (simp add: same_entry_def)

lemma same_entry_steps:
  "same_entry (block_buy g) g" "same_entry (fst (GateParameters_FinalizeEmit r)) (fst r)" "same_entry (pair_fields cfg g) g"
  "same_entry (fst (fee_floor_gate cfg r)) (fst r)" "same_entry (fst (cost_gate rolling cfg r)) (fst r)" "same_entry (vol_scaling rolling cfg g) g"
proof -
  have f: "(x OR GATE_FLAG_BUY_BLOCKED) AND GATE_FLAG_BUY_ABOVE = x AND GATE_FLAG_BUY_ABOVE"
    "(x OR GATE_FLAG_PAIR_ACTIVE) AND GATE_FLAG_BUY_ABOVE = x AND GATE_FLAG_BUY_ABOVE"
    "(x AND NOT GATE_FLAG_PAIR_ACTIVE) AND GATE_FLAG_BUY_ABOVE = x AND GATE_FLAG_BUY_ABOVE" for x :: u8
    unfolding bit.conj_disj_distrib2 and.assoc by (simp_all add: gate_flags)
  note d = same_entry_def block_buy_def Let_def f
  show "same_entry (block_buy g) g" by (simp add: d)
  show "same_entry (pair_fields cfg g) g" by (simp add: d pair_fields_def)
  show "same_entry (vol_scaling rolling cfg g) g" by (simp add: d vol_scaling_def)
  show "same_entry (fst (GateParameters_FinalizeEmit r)) (fst r)" by (cases r) (simp add: d GateParameters_FinalizeEmit_def)
  show "same_entry (fst (fee_floor_gate cfg r)) (fst r)" by (cases r) (simp add: d fee_floor_gate_def)
  show "same_entry (fst (cost_gate rolling cfg r)) (fst r)" by (cases r) (simp add: d cost_gate_def)
qed

lemma same_size_steps:
  "gp_trade_size (fst (GateParameters_FinalizeEmit r)) = gp_trade_size (fst r)" "gp_trade_size (pair_fields cfg g) = gp_trade_size g"
  "gp_trade_size (fst (fee_floor_gate cfg r)) = gp_trade_size (fst r)" "gp_trade_size (fst (cost_gate rolling cfg r)) = gp_trade_size (fst r)"
  by (cases r, simp add: GateParameters_FinalizeEmit_def pair_fields_def fee_floor_gate_def cost_gate_def Let_def)+

lemma finish_keeps:
  fixes r :: "GateParameters \<times> u8" and rolling :: RollingStats and cfg :: StrategyCfg and model_corrupt :: bool
  defines "f \<equiv> fst (finish_pack rolling cfg model_corrupt r)"
  shows "same_entry f (fst r)"
    "0 \<le> mint (gp_trade_size (fst r)) \<Longrightarrow> 0 \<le> mint (gp_trade_size f) \<and> mint (gp_trade_size f) \<le> mint (gp_trade_size (fst r))"
    "\<not> blocked f \<Longrightarrow> 0 \<le> mint (gp_tp_pct (fst r)) \<and> 0 \<le> mint (gp_sl_pct (fst r))"
proof -
  let ?a = "GateParameters_FinalizeEmit r"
  define x where "x = (if model_corrupt then (block_buy (fst ?a), SHALT_MODEL_CORRUPT) else ?a)"
  define y where "y = (pair_fields cfg (fst x), snd x)"
  define z where "z = fst (cost_gate rolling cfg (fee_floor_gate cfg y))"
  have f: "f = vol_scaling rolling cfg z" by (simp add: f_def finish_pack_def Let_def later_fields x_def y_def z_def)
  have x: "same_entry (fst x) (fst ?a)" using same_entry_steps(1) by (simp add: x_def) (simp add: same_entry_def)
  have y: "same_entry (fst y) (fst x)" by (simp add: y_def same_entry_steps(3))
  show "same_entry f (fst r)" unfolding f z_def
    by (intro same_entry_trans [OF same_entry_steps(6)] same_entry_trans [OF same_entry_steps(5)] same_entry_trans [OF same_entry_steps(4)]
          same_entry_trans [OF y] same_entry_trans [OF x] same_entry_steps(2))
  have "gp_trade_size z = gp_trade_size (fst r)" by (simp add: z_def y_def x_def same_size_steps)
  then show "0 \<le> mint (gp_trade_size (fst r)) \<Longrightarrow> 0 \<le> mint (gp_trade_size f) \<and> mint (gp_trade_size f) \<le> mint (gp_trade_size (fst r))"
    using scaled_size [of z rolling cfg] by (simp add: f)
  have "blocked (fst ?a) \<Longrightarrow> blocked f"
    using later_fields(14,15) unfolding f later_fields z_def y_def x_def by (simp add: later_fields)
  then show "\<not> blocked f \<Longrightarrow> 0 \<le> mint (gp_tp_pct (fst r)) \<and> 0 \<le> mint (gp_sl_pct (fst r))"
    using finalize_keeps(2) [of "fst r" "snd r"] by auto
qed

text \<open>C20: when a dip or mean-reversion pack fires on a tick, the price is below its entry price, its exits lie on either
  side of that price, and a full position there costs no more than the node's allocation, up to half a unit of quantity.\<close>

theorem dip_pack_brackets_entry:
  fixes ml :: "GateParameters \<times> u8 \<Rightarrow> GateParameters \<times> u8" and strategy_id :: u8 and rolling :: RollingStats and cfg :: StrategyCfg
    and allocated_balance :: Money and rolling_long :: "RollingStats option" and model_corrupt :: bool and states :: StrategyStates
    and reason :: u8 and out :: GateParameters
  defines "p \<equiv> fst (fst (Strategy_BuildParameters ml strategy_id rolling cfg allocated_balance rolling_long model_corrupt states reason out))"
  assumes "strategy_id \<in> {STRATEGY_SIMPLE_DIP, STRATEGY_MEAN_REVERSION}" "BG_Evaluate tick p" "0 \<le> mint (tk_price tick)"
    and "money_closed allocated_balance" "0 \<le> mint allocated_balance"
  shows "mint (gp_sg_stop_loss_price p) \<le> mint (gp_bg_price_threshold p) \<and> mint (tk_price tick) < mint (gp_bg_price_threshold p) \<and>
    mint (gp_bg_price_threshold p) \<le> mint (gp_sg_take_profit_price p) \<and> 0 \<le> mint (gp_trade_size p) \<and>
    2 * (mint (gp_trade_size p) * mint (gp_bg_price_threshold p)) \<le> 2 * (mint allocated_balance * 100000000) + mint (gp_bg_price_threshold p)"
proof -
  obtain g where g: "p = fst (finish_pack rolling cfg model_corrupt (g, reason))" "dip_pack allocated_balance g"
    using assms(2) dip_packs unfolding p_def Strategy_BuildParameters_def
    by (cases "strategy_id = STRATEGY_SIMPLE_DIP") (auto simp: Let_def split_def)
  let ?e = "gp_bg_price_threshold g"
  note k = finish_keeps [where rolling = rolling and cfg = cfg and model_corrupt = model_corrupt and r = "(g, reason)", folded g(1), unfolded fst_conv]
  have e: "gp_bg_price_threshold p = ?e" "gp_sg_take_profit_price p = gp_sg_take_profit_price g" "gp_sg_stop_loss_price p = gp_sg_stop_loss_price g"
    "gp_flags p AND GATE_FLAG_BUY_ABOVE = 0"
    using k(1) g(2) by (simp_all add: same_entry_def dip_pack_def Let_def gate_flags)
  have fire: "\<not> blocked p" "mint (tk_price tick) < mint ?e"
    using assms(3) e by (auto simp: BG_Evaluate_iff buy_gate_def buy_price_ok_def flag_on_def)
  have pos: "0 < mint ?e" using fire(2) assms(4) by linarith
  have fit: "0 \<le> mint (gp_trade_size g) \<and> 2 * (mint (gp_trade_size g) * mint ?e) \<le> 2 * (mint allocated_balance * 100000000) + mint ?e"
    using full_size_fits [OF assms(5,6) pos] g(2) by (simp add: dip_pack_def Let_def)
  have size: "0 \<le> mint (gp_trade_size p)" "mint (gp_trade_size p) * mint ?e \<le> mint (gp_trade_size g) * mint ?e"
    using k(2) fit pos by (auto intro: mult_right_mono)
  show ?thesis
    unfolding e using dip_exits [OF g(2)] k(3) [OF fire(1)] fire(2) pos size fit by linarith
qed


subsection \<open>Witnesses\<close>

definition demo_strategy_cfg :: StrategyCfg where
  "demo_strategy_cfg =
     \<lparr>nc_fee_rate_maker = Money 0, nc_fee_rate_taker = Money 100000, nc_slippage_pct = Money 0,
      nc_max_drawdown_pct = Money 0, nc_partial_exit_pct = Money 50000000, nc_tp2_mult = Money 200000000,
      nc_take_profit_pct = Money 3000000, nc_simpledip_tp_pct = Money 0, nc_mr_tp_pct = Money 0,
      nc_max_hold_ticks = 1000, nc_fee_rate = Money 100000,
      sc_entry_offset_pct = Money 1000000, sc_stop_loss_pct = Money 1500000, sc_simpledip_sl_pct = Money 0, sc_mr_sl_pct = Money 0,
      sc_fee_floor_mult = Money 0, sc_momentum_min_tp_margin_pct = Money 0,
      sc_volume_multiplier = FPN_Zero, sc_offset_stddev_mult = FPN_Zero, sc_spacing_multiplier = FPN_Zero,
      sc_momentum_tp_mult = FPN_Zero, sc_momentum_sl_mult = FPN_Zero, sc_momentum_min_r2 = FPN_Zero,
      sc_momentum_min_buy_delta_recent = FPN_Zero, sc_foxml_vol_scaling_z_max = FPN_Zero,
      sc_partial_exit_enabled = True, sc_cost_gate_enabled = False, sc_vol_scaling_enabled = False\<rparr>"

definition demo_rolling :: RollingStats where
  "demo_rolling = (RollingStats_Init 2)\<lparr>rs_price_max := FPN_Binary (push_bit 64 100)\<rparr>"

definition demo_pack :: "u8 \<Rightarrow> GateParameters \<times> u8" where
  "demo_pack sid = fst (Strategy_BuildParameters (\<lambda>r. r) sid demo_rolling demo_strategy_cfg (Money 100000000000) None False
     \<lparr>ss_dip = None, ss_mr = None, ss_mom = None\<rparr> SHALT_OK gate_fresh)"

definition demo_pack_tick :: Tick where
  "demo_pack_tick = \<lparr>tk_price = Money 9800000000, tk_volume = Money 100000000, tk_timestamp = 0, tk_sequence = 1, tk_is_buyer_maker = 0\<rparr>"

lemma demo_money:
  "Money_FromBinary (FPN_Binary (push_bit 64 100)) = Money 10000000000"
  "Money_Mul (Money 10000000000) (Money 1000000) = Money 100000000"
  "Money_Sub (Money 10000000000) (Money 100000000) = Money 9900000000"
  "Money_Mul (Money 9900000000) (Money 3000000) = Money 297000000"
  "Money_Mul (Money 9900000000) (Money 1500000) = Money 148500000"
  "Money_Add (Money 9900000000) (Money 297000000) = Money 10197000000"
  "Money_Sub (Money 9900000000) (Money 148500000) = Money 9751500000"
  "Money_Div (Money 100000000000) (Money 9900000000) = Money 1010101010"
  "Money_Mul (Money 3000000) (Money 200000000) = Money 6000000"
  "Money_Mul (Money 100000) (Money 300000000) = Money 300000"
  by (rule mint_inject [THEN iffD1], simp add: Money_FromBinary_def money_from_binary_int Money_Mul_int Money_Add_int Money_Sub_int Money_Div_int
    money_closed_def money_sat_def money_lim_def irhe_def rhe_def)+

lemma demo_three: "Money_FromInt 3 = Money 300000000"
  by (rule mint_inject [THEN iffD1]) (simp add: Money_FromInt_def from_int_int money_sat_def money_lim_def)

lemma demo_dip:
  "fst (demo_pack 2) = gate_fresh\<lparr>gp_bg_price_threshold := Money 9900000000, gp_bg_volume_threshold := Money_FromBinary (FPN_Mul FPN_Zero FPN_Zero),
     gp_sg_take_profit_price := Money 10197000000, gp_sg_stop_loss_price := Money 9751500000, gp_tp_pct := Money 3000000,
     gp_sl_pct := Money 1500000, gp_tp_pct_b := Money 6000000, gp_trade_size := Money 1010101010, gp_strategy_id := 2,
     gp_flags := GATE_FLAG_TP_ENABLED OR GATE_FLAG_SL_ENABLED OR GATE_FLAG_PAIR_ACTIVE, gp_pad := replicate 6 0\<rparr>"
proof -
  have c: "ResolvePerFillTpPct STRATEGY_SIMPLE_DIP (EngineNodeCfg.truncate demo_strategy_cfg) = Money 3000000"
    "ResolvePerFillSlPct STRATEGY_SIMPLE_DIP demo_strategy_cfg = Money 1500000"
    by (simp_all add: ResolvePerFillTpPct_def ResolvePerFillSlPct_def EngineNodeCfg.defs demo_strategy_cfg_def Money_IsZero_def)
  have d: "snd (SimpleDip_BuildParameters demo_rolling demo_strategy_cfg (Money 100000000000) None None gate_fresh) =
    gate_fresh\<lparr>gp_bg_price_threshold := Money 9900000000, gp_bg_volume_threshold := Money_FromBinary (FPN_Mul FPN_Zero FPN_Zero),
     gp_sg_take_profit_price := Money 10197000000, gp_sg_stop_loss_price := Money 9751500000, gp_tp_pct := Money 3000000,
     gp_sl_pct := Money 1500000, gp_trade_size := Money 1010101010, gp_strategy_id := 2,
     gp_flags := GATE_FLAG_TP_ENABLED OR GATE_FLAG_SL_ENABLED, gp_pad := replicate 6 0\<rparr>"
    unfolding SimpleDip_BuildParameters_def strategy_tp_pct_def c emit_pack_def full_size_def Let_def demo_rolling_def
    by (simp add: demo_money [simplified] demo_strategy_cfg_def RollingStats_Init_def Money_IsZero_def STRATEGY_SIMPLE_DIP_def)
  have k: "clamp_pct (Money 6000000) = Money 6000000" "\<not> Money_Lt (Money 3000000) (Money 300000)"
    by (rule mint_inject [THEN iffD1]) (simp_all add: clamp_pct_def max_pct_int Money_Zero_int)
  have s: "sc_partial_exit_enabled demo_strategy_cfg" "\<not> sc_cost_gate_enabled demo_strategy_cfg" "\<not> sc_vol_scaling_enabled demo_strategy_cfg"
    "nc_tp2_mult demo_strategy_cfg = Money 200000000" "taker_fee demo_strategy_cfg = Money 100000"
    by (simp_all add: demo_strategy_cfg_def taker_fee_def)
  show ?thesis
    unfolding demo_pack_def Strategy_BuildParameters_def STRATEGY_SIMPLE_DIP_def [symmetric]
    by (simp add: split_def d finish_pack_def GateParameters_FinalizeEmit_def max_pct_int Money_Zero_int pair_fields_def
        fee_floor_gate_def cost_gate_def vol_scaling_def no_signal_def s k demo_money demo_three or.assoc Let_def)
      (simp add: STRATEGY_SIMPLE_DIP_def)
qed

lemma demo_fires: "BG_Evaluate demo_pack_tick (fst (demo_pack 2))"
  by (simp add: BG_Evaluate_iff buy_gate_def buy_price_ok_def demo_dip demo_pack_tick_def flag_on_def gate_flags)

lemma strategy_halt_explained_witness: "snd (demo_pack 2) = SHALT_OK"
proof -
  have "\<not> flag_on (gp_flags (fst (demo_pack 2))) GATE_FLAG_BUY_BLOCKED \<and> \<not> Money_IsZero (gp_bg_price_threshold (fst (demo_pack 2)))"
    by (simp add: demo_dip flag_on_def gate_flags)
  then show ?thesis
    using strategy_halt_explained [where ml = "\<lambda>r. r" and strategy_id = 2 and rolling = demo_rolling
        and cfg = demo_strategy_cfg and allocated_balance = "Money 100000000000" and rolling_long = None and model_corrupt = False
        and states = "\<lparr>ss_dip = None, ss_mr = None, ss_mom = None\<rparr>" and out = gate_fresh, folded demo_pack_def]
    by (simp add: STRATEGY_ML_def)
qed

lemma strategy_pack_safe_witness: "300000 \<le> mint (gp_tp_pct (fst (demo_pack 2)))"
proof -
  have "taker_fee demo_strategy_cfg = Money 100000" by (simp add: taker_fee_def demo_strategy_cfg_def)
  then have "mint (Money_Mul (taker_fee demo_strategy_cfg) (Money_FromInt 3)) = 300000" by (simp add: demo_three demo_money)
  moreover have "mint (gp_tp_pct (fst (demo_pack 2))) \<noteq> 0" by (simp add: demo_dip)
  ultimately show ?thesis
    using demo_fires strategy_pack_safe [where tick = demo_pack_tick and ml = "\<lambda>r. r" and strategy_id = 2 and rolling = demo_rolling
        and cfg = demo_strategy_cfg and allocated_balance = "Money 100000000000" and rolling_long = None and model_corrupt = False
        and states = "\<lparr>ss_dip = None, ss_mr = None, ss_mom = None\<rparr>" and reason = SHALT_OK and out = gate_fresh, folded demo_pack_def]
    by simp
qed

lemma dip_pack_brackets_entry_witness:
  "mint (gp_sg_stop_loss_price (fst (demo_pack 2))) \<le> 9900000000 \<and> 9900000000 \<le> mint (gp_sg_take_profit_price (fst (demo_pack 2))) \<and>
   2 * (mint (gp_trade_size (fst (demo_pack 2))) * 9900000000) \<le> 20000000009900000000"
proof -
  have "mint (gp_bg_price_threshold (fst (demo_pack 2))) = 9900000000" "0 \<le> mint (tk_price demo_pack_tick)"
    by (simp_all add: demo_dip demo_pack_tick_def)
  then show ?thesis
    using demo_fires dip_pack_brackets_entry [where tick = demo_pack_tick and ml = "\<lambda>r. r" and strategy_id = 2 and rolling = demo_rolling
        and cfg = demo_strategy_cfg and allocated_balance = "Money 100000000000" and rolling_long = None and model_corrupt = False
        and states = "\<lparr>ss_dip = None, ss_mr = None, ss_mom = None\<rparr>" and reason = SHALT_OK and out = gate_fresh, folded demo_pack_def]
    by (simp add: STRATEGY_SIMPLE_DIP_def money_closed_def money_lim_def)
qed

end
