(* ===== verification/Strategy_Ratchet.thy ===== *)
theory Strategy_Ratchet
  imports Strategy_State Engine_Witness
begin

text \<open>
  The trailing stops: the ratchet every strategy writes through (\<^verbatim>\<open>src/Strategies/StrategyLifecycle.hpp\<close>), the passes
  of the strategies over the open positions of a node (\<^verbatim>\<open>MeanReversion.hpp\<close>, \<^verbatim>\<open>Momentum.hpp\<close>, \<^verbatim>\<open>MLStrategy.hpp\<close>), and the generic
  trailing pass of \<^verbatim>\<open>src/CoreFrameworks/ControllerEventLoop.hpp\<close>.  Each pass visits the slots of the node and
  raises one number; the locale \<open>ratchet_pass\<close> states what such a pass does as a whole.
\<close>

definition raise_sl :: "nat \<Rightarrow> Money \<Rightarrow> EngineState \<Rightarrow> bool \<times> EngineState" where
  "raise_sl n capped st =
     (if Money_Gt capped (gp_ratchet_sl (nx_pending_params (node_at st n)))
      then (True, upd_node n (\<lambda>x. node_flag_set NODE_STATE_DIRTY (x\<lparr>nx_pending_params := (nx_pending_params x)\<lparr>gp_ratchet_sl := capped\<rparr>\<rparr>)) st)
      else (False, st))"

definition ratchet_cap :: "'a EngineNodeCfg_scheme \<Rightarrow> Money \<Rightarrow> Money" where
  "ratchet_cap node_cfg entry_price =
     (let floor_pct = Money_Mul (taker_fee node_cfg) (Money_FromInt 3);
          floor_mult = Money_Sub (Money_FromInt 1) floor_pct
      in Money_Mul entry_price floor_mult)"

definition Strategy_WriteRatchetSL :: "EngineNodeCfg list \<Rightarrow> int \<Rightarrow> Money \<Rightarrow> Money \<Rightarrow> EngineState \<Rightarrow> bool \<times> EngineState" where
  "Strategy_WriteRatchetSL node_cfgs slot proposed_sl entry_price st =
     (if slot < 0 \<or> 16 \<le> slot then (False, st)
      else if Money_IsZero entry_price then (False, st)
      else let sl_floor = ratchet_cap (node_cfgs ! nat slot) entry_price;
               capped = (if Money_Lt proposed_sl sl_floor then proposed_sl else sl_floor)
           in raise_sl (nat slot) capped st)"

definition Strategy_WriteRatchetTP :: "int \<Rightarrow> Money \<Rightarrow> EngineState \<Rightarrow> bool \<times> EngineState" where
  "Strategy_WriteRatchetTP slot proposed_tp st =
     (if slot < 0 \<or> 16 \<le> slot then (False, st)
      else if Money_IsZero proposed_tp then (False, st)
      else if Money_Gt proposed_tp (gp_ratchet_tp (nx_pending_params (node_at st (nat slot))))
      then (True, upd_node (nat slot) (\<lambda>x. node_flag_set NODE_STATE_DIRTY
              (x\<lparr>nx_pending_params := (nx_pending_params x)\<lparr>gp_ratchet_tp := proposed_tp\<rparr>\<rparr>)) st)
      else (False, st))"

text \<open>The body of the strategies' loops: positions without an entry price, and positions the price has not carried
  beyond their first target, are skipped.\<close>

definition trail_slot :: "EngineNodeCfg list \<Rightarrow> nat \<Rightarrow> Money \<Rightarrow> Money \<Rightarrow> nat \<Rightarrow> EngineState \<Rightarrow> EngineState" where
  "trail_slot node_cfgs n current_price trailing_sl pidx st =
     (let entry = p_entry_price (position_at st pidx);
          orig_tp = p_original_tp (position_at st pidx)
      in if Money_IsZero entry then st
         else if \<not> Money_IsZero orig_tp \<and> \<not> Money_Gt current_price orig_tp then st
         else snd (Strategy_WriteRatchetSL node_cfgs (int n) trailing_sl entry st))"

definition trail_pass :: "EngineNodeCfg list \<Rightarrow> nat \<Rightarrow> Money \<Rightarrow> FPN_Binary \<Rightarrow> EngineState \<Rightarrow> EngineState" where
  "trail_pass node_cfgs n current_price sl_offset st =
     (let bm = pf_active_bitmap (om_portfolio st) AND BITMAP_NODE_SLOT_MASK n (oms_partial_on st \<noteq> 0);
          trailing_sl = Money_Sub current_price (Money_FromBinary sl_offset)
      in bitmap_fold (trail_slot node_cfgs n current_price trailing_sl) bm st)"

definition hold_score :: "RegressionFeederX \<Rightarrow> RollingStats \<Rightarrow> FPN_Binary" where
  "hold_score price_feeder rolling =
     (let price_reg = RegressionFeederX_Compute price_feeder;
          full = MAX_WINDOW \<le> fx_count price_feeder;
          r_squared = (if full then lr_r_squared price_reg else FPN_Zero);
          reg_slope = (if full then lm_slope (lr_model price_reg) else FPN_Zero);
          snr = FPN_DivNoAssert reg_slope (rs_price_stddev rolling)
      in FPN_Mul snr r_squared)"

definition MeanReversion_ExitAdjustSharded ::
    "nat \<Rightarrow> MeanReversionState \<Rightarrow> Money \<Rightarrow> RollingStats \<Rightarrow> AdaptCfg \<Rightarrow> EngineNodeCfg list \<Rightarrow> EngineState \<Rightarrow> EngineState" where
  "MeanReversion_ExitAdjustSharded n mr current_price rolling cfg node_cfgs st =
     (if FPN_IsZero (ac_tp_hold_score cfg) then st
      else if FPN_IsZero (rs_price_stddev rolling) then st
      else if \<not> FPN_GreaterThanOrEqual (hold_score (mr_price_feeder mr) rolling) (ac_tp_hold_score cfg) then st
      else trail_pass node_cfgs n current_price (FPN_Mul (rs_price_stddev rolling) (ac_sl_trail_mult cfg)) st)"

definition Momentum_ExitAdjustSharded ::
    "nat \<Rightarrow> MomentumState \<Rightarrow> Money \<Rightarrow> RollingStats \<Rightarrow> AdaptCfg \<Rightarrow> EngineNodeCfg list \<Rightarrow> EngineState \<Rightarrow> EngineState" where
  "Momentum_ExitAdjustSharded n mom current_price rolling cfg node_cfgs st =
     (if FPN_IsZero (ac_tp_hold_score cfg) then st
      else if FPN_IsZero (rs_price_stddev rolling) then st
      else if \<not> FPN_GreaterThanOrEqual (hold_score (mo_price_feeder mom) rolling) (ac_tp_hold_score cfg) then st
      else let trail_mult = (if \<not> FPN_IsZero (ac_momentum_sl_mult cfg) then ac_momentum_sl_mult cfg else ac_sl_trail_mult cfg)
           in trail_pass node_cfgs n current_price (FPN_Mul (rs_price_stddev rolling) trail_mult) st)"

definition MLStrategy_ExitAdjustSharded ::
    "nat \<Rightarrow> Money \<Rightarrow> RollingStats \<Rightarrow> AdaptCfg \<Rightarrow> EngineNodeCfg list \<Rightarrow> EngineState \<Rightarrow> EngineState" where
  "MLStrategy_ExitAdjustSharded n current_price rolling cfg node_cfgs st =
     (if FPN_IsZero (rs_price_stddev rolling) then st
      else if \<not> FPN_GreaterThan (rs_price_r_squared rolling) (FPN_FromDouble (F64_Fin (1 / 2))) then st
      else trail_pass node_cfgs n current_price (FPN_Mul (rs_price_stddev rolling) (ac_sl_trail_mult cfg)) st)"

definition SimpleDip_ExitAdjustSharded :: "EngineState \<Rightarrow> EngineState" where
  "SimpleDip_ExitAdjustSharded st = st"

fun exit_adjust :: "nat \<Rightarrow> StrategyState \<Rightarrow> Money \<Rightarrow> RollingStats \<Rightarrow> AdaptCfg \<Rightarrow> EngineNodeCfg list \<Rightarrow> EngineState \<Rightarrow> EngineState" where
  "exit_adjust n (SS_MEAN_REVERSION s) price rolling cfg node_cfgs st = MeanReversion_ExitAdjustSharded n s price rolling cfg node_cfgs st"
| "exit_adjust n (SS_MOMENTUM s) price rolling cfg node_cfgs st = Momentum_ExitAdjustSharded n s price rolling cfg node_cfgs st"
| "exit_adjust n (SS_SIMPLE_DIP s) price rolling cfg node_cfgs st = SimpleDip_ExitAdjustSharded st"
| "exit_adjust n SS_ML price rolling cfg node_cfgs st = MLStrategy_ExitAdjustSharded n price rolling cfg node_cfgs st"

definition Strategy_ExitAdjustPerCore ::
    "nat \<Rightarrow> StrategyState option \<Rightarrow> u8 \<Rightarrow> Money \<Rightarrow> RollingStats \<Rightarrow> AdaptCfg \<Rightarrow> EngineNodeCfg list \<Rightarrow> EngineState \<Rightarrow> EngineState" where
  "Strategy_ExitAdjustPerCore n strategy_state effective_strategy_id current_price rolling cfg node_cfgs st =
     (case strategy_state of None \<Rightarrow> st
      | Some s \<Rightarrow> if strategy_state_kind s = effective_strategy_id
                  then exit_adjust n s current_price rolling cfg node_cfgs st else st)"

subsection \<open>The generic trailing pass\<close>

definition trailing_level :: "EngineNodeCfg list \<Rightarrow> nat \<Rightarrow> f64 \<Rightarrow> f64 \<Rightarrow> f64 \<Rightarrow> Money" where
  "trailing_level node_cfgs n current_price trail_dist_d entry_d =
     (let fee_floor_pct = f64_mul (F64_Fin 3) (Money_ToDouble (taker_fee (node_cfgs ! n)));
          new_ratchet_d = f64_sub current_price trail_dist_d;
          sl_floor_d = f64_mul entry_d (f64_sub (F64_Fin 1) fee_floor_pct)
      in Money (money_from_double_payload (if f64_gt new_ratchet_d sl_floor_d then sl_floor_d else new_ratchet_d)))"

definition trailing_slot :: "EngineNodeCfg list \<Rightarrow> nat \<Rightarrow> f64 \<Rightarrow> f64 \<Rightarrow> f64 \<Rightarrow> nat \<Rightarrow> EngineState \<Rightarrow> EngineState" where
  "trailing_slot node_cfgs n current_price trail_dist_d hold_thresh slot st =
     (let entry_d = Money_ToDouble (p_entry_price (position_at st slot))
      in if f64_le entry_d (F64_Fin 0) then st
         else if f64_lt (f64_div (f64_sub current_price entry_d) entry_d) hold_thresh then st
         else snd (raise_sl n (trailing_level node_cfgs n current_price trail_dist_d entry_d) st))"

definition EventLoop_TrailingSLRatchetOneCore ::
    "AdaptCfg \<Rightarrow> EngineNodeCfg list \<Rightarrow> RollingStats \<Rightarrow> f64 \<Rightarrow> nat \<Rightarrow> EngineState \<Rightarrow> EngineState" where
  "EventLoop_TrailingSLRatchetOneCore cfg node_cfgs rolling current_price n st =
     (let stddev_d = FPN_ToDouble (rs_price_stddev rolling);
          trail_dist_d = f64_mul stddev_d (FPN_ToDouble (ac_sl_trail_mult cfg));
          hold_thresh = FPN_ToDouble (ac_tp_hold_score cfg);
          bm = pf_active_bitmap (om_portfolio st) AND BITMAP_NODE_SLOT_MASK n (oms_partial_on st \<noteq> 0)
      in bitmap_fold (trailing_slot node_cfgs n current_price trail_dist_d hold_thresh) bm st)"

subsection \<open>What a pass does\<close>

text \<open>A step on one slot raises the stop ratchet of the node to a level when the slot is due, and touches
  nothing but that ratchet and the node's flags.  Dueness and level depend on the portfolio only.\<close>

definition node_slots :: "nat \<Rightarrow> EngineState \<Rightarrow> nat set" where
  "node_slots n st = {s. s < 16 \<and> bit (pf_active_bitmap (om_portfolio st)) s \<and> BITMAP_SLOT_NODE s (oms_partial_on st \<noteq> 0) = n}"

locale ratchet_pass =
  fixes n :: nat
    and step :: "nat \<Rightarrow> EngineState \<Rightarrow> EngineState"
    and due :: "EngineState \<Rightarrow> nat \<Rightarrow> bool"
    and level :: "EngineState \<Rightarrow> nat \<Rightarrow> int"
  assumes step_ratchet: "n < length (el_nodes st) \<Longrightarrow>
      node_ratchet (step s st) n = (if due st s then max (node_ratchet st n) (level st s) else node_ratchet st n)"
    and step_frame: "n < length (el_nodes st) \<Longrightarrow> breakeven_frame n (step s st) = breakeven_frame n st"
    and step_len: "n < length (el_nodes st) \<Longrightarrow> length (el_nodes (step s st)) = length (el_nodes st)"
    and step_portfolio: "n < length (el_nodes st) \<Longrightarrow> om_portfolio (step s st) = om_portfolio st"
    and reads: "om_portfolio a = om_portfolio b \<Longrightarrow> due a s = due b s \<and> level a s = level b s"
begin

lemma fold_frame: "n < length (el_nodes st) \<Longrightarrow> breakeven_frame n (fold step is st) = breakeven_frame n st"
  by (induction "is" arbitrary: st) (simp_all add: step_frame step_len)

lemma fold_ratchet:
  assumes "n < length (el_nodes st)"
  shows "node_ratchet (fold step is st) n = Max (insert (node_ratchet st n) (level st ` {s \<in> set is. due st s}))"
  using assms
proof (induction "is" arbitrary: st)
  case (Cons i rest)
  let ?S = "level st ` {s \<in> set rest. due st s}"
  have e: "level (step i st) ` {s \<in> set rest. due (step i st) s} = ?S"
    using reads [OF step_portfolio [OF Cons.prems, of i]] by auto
  have f: "level st ` {s \<in> set (i # rest). due st s} = (if due st i then insert (level st i) ?S else ?S)" by auto
  have m: "Max (insert (max a b) S) = Max (insert a (insert b S))" if "finite S" for a b :: int and S
    using that by (cases "S = {}") (simp_all add: Max_insert max.assoc)
  have "n < length (el_nodes (step i st))" using Cons.prems by (simp add: step_len)
  then show ?case
    using Cons.IH [of "step i st"] unfolding f e step_ratchet [OF Cons.prems] by (auto simp: m simp del: Max_insert)
qed simp

lemma bitmap_pass:
  assumes "n < length (el_nodes st)" "n < 16"
  defines "st' \<equiv> bitmap_fold step (pf_active_bitmap (om_portfolio st) AND BITMAP_NODE_SLOT_MASK n (oms_partial_on st \<noteq> 0)) st"
  shows "node_ratchet st' n = Max (insert (node_ratchet st n) (level st ` {s \<in> node_slots n st. due st s}))"
    "node_ratchet st n \<le> node_ratchet st' n" "breakeven_frame n st' = breakeven_frame n st"
proof -
  let ?bm = "pf_active_bitmap (om_portfolio st)" and ?m = "BITMAP_NODE_SLOT_MASK n (oms_partial_on st \<noteq> 0)"
  have "bit ?bm s \<Longrightarrow> s < 16" for s using bit_imp_le_length [of ?bm s] by simp
  then have d: "{s \<in> set (bits_of (?bm AND ?m)). due st s} = {s \<in> node_slots n st. due st s}"
    using node_slot_mask_iff [OF _ assms(2)] by (auto simp: set_bits_of bit_and_iff node_slots_def)
  show r: "node_ratchet st' n = Max (insert (node_ratchet st n) (level st ` {s \<in> node_slots n st. due st s}))"
    using fold_ratchet [OF assms(1), of "bits_of (?bm AND ?m)"] unfolding d st'_def bitmap_fold_def by simp
  have "finite (node_slots n st)" by (simp add: node_slots_def)
  then show "node_ratchet st n \<le> node_ratchet st' n" unfolding r by (intro Max_ge) simp_all
  show "breakeven_frame n st' = breakeven_frame n st" by (simp add: st'_def bitmap_fold_def fold_frame assms(1))
qed

end

lemma raise_sl_steps:
  "n < length (el_nodes st) \<Longrightarrow> node_ratchet (snd (raise_sl n c st)) n = max (node_ratchet st n) (mint c)"
  "n < length (el_nodes st) \<Longrightarrow> breakeven_frame n (snd (raise_sl n c st)) = breakeven_frame n st"
  "length (el_nodes (snd (raise_sl n c st))) = length (el_nodes st)" "om_portfolio (snd (raise_sl n c st)) = om_portfolio st"
  by (auto simp: raise_sl_def node_ratchet_def breakeven_frame_def upd_node_def node_at_def node_flag_set_def nth_list_update max_def)

definition trail_due :: "nat \<Rightarrow> Money \<Rightarrow> EngineState \<Rightarrow> nat \<Rightarrow> bool" where
  "trail_due n price st s \<longleftrightarrow> n < 16 \<and> mint (p_entry_price (position_at st s)) \<noteq> 0 \<and>
     (mint (p_original_tp (position_at st s)) = 0 \<or> mint (p_original_tp (position_at st s)) < mint price)"

definition trail_level :: "EngineNodeCfg list \<Rightarrow> nat \<Rightarrow> Money \<Rightarrow> EngineState \<Rightarrow> nat \<Rightarrow> int" where
  "trail_level node_cfgs n tsl st s = min (mint tsl) (mint (ratchet_cap (node_cfgs ! n) (p_entry_price (position_at st s))))"

lemma trail_slot_raise:
  "trail_slot node_cfgs n price tsl s st =
     (if trail_due n price st s
      then snd (raise_sl n (if mint tsl < mint (ratchet_cap (node_cfgs ! n) (p_entry_price (position_at st s))) then tsl
                            else ratchet_cap (node_cfgs ! n) (p_entry_price (position_at st s))) st)
      else st)"
  by (auto simp: trail_slot_def trail_due_def Strategy_WriteRatchetSL_def Let_def)

interpretation trail: ratchet_pass n "trail_slot node_cfgs n price tsl" "trail_due n price" "trail_level node_cfgs n tsl"
  for n node_cfgs price tsl
proof unfold_locales
  show "trail_due n price a s = trail_due n price b s \<and> trail_level node_cfgs n tsl a s = trail_level node_cfgs n tsl b s"
    if "om_portfolio a = om_portfolio b" for a b s
    using that by (simp add: trail_due_def trail_level_def position_at_def)
qed (simp_all add: trail_slot_raise raise_sl_steps trail_level_def min_def)

definition trailing_due :: "f64 \<Rightarrow> f64 \<Rightarrow> EngineState \<Rightarrow> nat \<Rightarrow> bool" where
  "trailing_due price thresh st s =
     (let entry_d = Money_ToDouble (p_entry_price (position_at st s))
      in \<not> f64_le entry_d (F64_Fin 0) \<and> \<not> f64_lt (f64_div (f64_sub price entry_d) entry_d) thresh)"

interpretation trailing: ratchet_pass n "trailing_slot node_cfgs n price dist thresh" "trailing_due price thresh"
    "\<lambda>st s. mint (trailing_level node_cfgs n price dist (Money_ToDouble (p_entry_price (position_at st s))))"
  for n node_cfgs price dist thresh
  by unfold_locales (simp_all add: trailing_slot_def trailing_due_def Let_def raise_sl_steps position_at_def)

interpretation breakeven: ratchet_pass n "breakeven_slot cfg px n" "breakeven_due cfg px n" "slot_breakeven cfg n" for n cfg px
proof unfold_locales
  show "breakeven_due cfg px n a s = breakeven_due cfg px n b s \<and> slot_breakeven cfg n a s = slot_breakeven cfg n b s"
    if "om_portfolio a = om_portfolio b" for a b s
    using that by (simp add: breakeven_due_def slot_breakeven_def position_at_def)
qed (simp_all add: breakeven_slot_result)


subsection \<open>Stops rise and stay below the entry\<close>

lemma frame_ratchet_len: "breakeven_frame n st' = breakeven_frame n st \<Longrightarrow> length (el_nodes st') = length (el_nodes st)"
  by (drule arg_cong [of _ _ "\<lambda>s. length (el_nodes s)"]) (simp add: breakeven_frame_def upd_node_def)

text \<open>Every strategy pass is either skipped or a trailing pass with some offset.\<close>

lemma exit_adjust_pass:
  "\<exists>offset. Strategy_ExitAdjustPerCore n ss sid price rolling cfg node_cfgs st \<in> {st, trail_pass node_cfgs n price offset st}"
  by (cases ss; cases "the ss")
    (auto simp: Strategy_ExitAdjustPerCore_def MeanReversion_ExitAdjustSharded_def Momentum_ExitAdjustSharded_def
      MLStrategy_ExitAdjustSharded_def SimpleDip_ExitAdjustSharded_def Let_def)

lemma cap_int:
  assumes "money_closed e"
  shows "mint (ratchet_cap c e) = money_sat (irhe (mint e * money_sat (100000000 - money_sat (irhe (mint (taker_fee c) * 300000000) 100000000))) 100000000)"
proof -
  have k: "mint (Money_FromInt 3) = 300000000" "mint (Money_FromInt 1) = 100000000"
    by (simp_all add: Money_FromInt_def from_int_int money_sat_def money_lim_def)
  show ?thesis by (simp add: ratchet_cap_def Let_def Money_Mul_int Money_Sub_int money_closed_ops k)
qed

lemma cap_below_entry:
  assumes "money_closed e" "0 < mint (taker_fee c)" "3 * mint (taker_fee c) \<le> 100000000" "100000000 \<le> 3 * mint (taker_fee c) * mint e"
  shows "mint (ratchet_cap c e) < mint e"
proof -
  let ?f = "mint (taker_fee c)"
  have i: "irhe (?f * 300000000) 100000000 = 3 * ?f"
    by (rule irhe_unique) simp
  have f: "money_sat (100000000 - money_sat (3 * ?f)) = 100000000 - 3 * ?f"
    using assms by (simp add: money_sat_def money_lim_def)
  have "mint e \<le> 0 \<Longrightarrow> 3 * ?f * mint e \<le> 0" using assms(2) by (intro mult_nonneg_nonpos) simp_all
  then have e: "0 < mint e" using assms(4) by linarith
  let ?i = "irhe (mint e * (100000000 - 3 * ?f)) 100000000"
  have n: "2 * \<bar>?i * 100000000 - mint e * (100000000 - 3 * ?f)\<bar> \<le> 100000000" using irhe_nearest [of 100000000] by simp
  have "mint e * (100000000 - 3 * ?f) \<le> mint e * 100000000 - 100000000"
    using assms(4) by (simp add: algebra_simps)
  then have "?i * 100000000 < mint e * 100000000" using n by simp
  then have "?i < mint e" by simp
  moreover have "0 \<le> ?i" using e assms(3) by (intro irhe_sign) simp
  ultimately show ?thesis
    unfolding cap_int [OF assms(1)] i f by (simp add: money_sat_def money_lim_def)
qed



definition demo_trailed :: EngineState where
  "demo_trailed = Strategy_ExitAdjustPerCore 3 (Some (SS_MEAN_REVERSION mr_zero)) STRATEGY_MEAN_REVERSION (Money 20000000000)
     ((RollingStats_Init 2)\<lparr>rs_price_stddev := FPN_Binary 1\<rparr>) (demo_adapt_cfg\<lparr>ac_tp_hold_score := FPN_Binary (- 1)\<rparr>) (cc_nodes demo_cfg) demo_open"

lemma demo_open_slot: "node_slots 3 demo_open = {3}" "position_at demo_open 3 = demo_position" "node_ratchet demo_open 3 = 0"
proof -
  have m: "oms_partial_on demo_open = 0" by (simp add: oms_partial_on_def demo_open_def BITMAP_IS_SET_def)
  show "node_slots 3 demo_open = {3}"
    unfolding node_slots_def m by (auto simp: bit_BITMAP_BIT demo_open_def BITMAP_SLOT_NODE_def)
  show "position_at demo_open 3 = demo_position" "node_ratchet demo_open 3 = 0"
    by (simp_all add: demo_open_def position_at_def node_ratchet_def node_at_def demo_node_def gate_zero_def nth_list_update)
qed

lemma demo_cap: "taker_fee (cc_nodes demo_cfg ! 3) = Money 100000" "mint (ratchet_cap (cc_nodes demo_cfg ! 3) (Money 10000000000)) = 9970000000"
proof -
  show t: "taker_fee (cc_nodes demo_cfg ! 3) = Money 100000" by (simp add: taker_fee_def demo_cfg_def)
  show "mint (ratchet_cap (cc_nodes demo_cfg ! 3) (Money 10000000000)) = 9970000000"
    by (subst cap_int) (simp_all add: t money_closed_def money_lim_def money_sat_def irhe_def rhe_def)
qed

lemma demo_trail: "demo_trailed = trail_pass (cc_nodes demo_cfg) 3 (Money 20000000000) (FPN_Mul (FPN_Binary 1) FPN_Zero) demo_open"
proof -
  have "bint (hold_score RegressionFeederX_Init r) = 0" for r
    by (simp add: hold_score_def RegressionFeederX_Init_def MAX_WINDOW_def Let_def fp2_mul_int itrunc_def fp2_sat_def fp2_lim_def)
  then show ?thesis
    by (simp add: demo_trailed_def Strategy_ExitAdjustPerCore_def MeanReversion_ExitAdjustSharded_def mr_zero_def demo_adapt_cfg_def
        FPN_IsZero_def)
qed


end
