(* ===== verification/Spec2Isabelle.thy ===== *)
theory Spec2Isabelle
  imports Money_Text Event_Log_Async Order_Witness Execution_Runs Engine_Demos Strategy_Params Strategy_Ratchet
begin

text \<open>
  A verification library for the FoxML trader: a C++ engine of headers that runs up to sixteen
  trading nodes, each on a core of its own, books their fills on one account and halts them when the
  account or a node loses too much.

  \<^bold>\<open>The program and its parts.\<close>  Prices arrive at every execution core; its tick kernel compares
  them with a parameter pack and offers entry and exit events to a ring
  (\<^verbatim>\<open>ExecutionCore.hpp\<close>, \<^verbatim>\<open>GateParameters.hpp\<close>, \<^verbatim>\<open>SPSCRing.hpp\<close>, \<^verbatim>\<open>ParameterSlot.hpp\<close>).  The drain of
  \<^verbatim>\<open>EngineCommon.hpp\<close> turns the events into submit commands.  The order manager
  (\<^verbatim>\<open>OrderManager.hpp\<close>, \<^verbatim>\<open>Order.hpp\<close>, \<^verbatim>\<open>Portfolio.hpp\<close>) keeps the in-flight table, takes fills and results
  from the venue or from its paper path, books them on the account in exact decimal money
  (\<^verbatim>\<open>FixedPointN.hpp\<close>), writes each fill to the event log (\<^verbatim>\<open>OrderEventLog.hpp\<close>) and hands it to a sink, a
  per-node fill ring.  The composer of \<^verbatim>\<open>EngineCommon.hpp\<close> applies the rings to the node rows, serves
  kill requests, evaluates the limits and publishes one coherent view.  After a crash the log rebuilds
  the ledger.

  \<^bold>\<open>Which theory models what.\<close>  Every definition keeps the name of the C++ function, struct or macro
  it translates; file names are under \<^verbatim>\<open>src/\<close>.
  \<^item> \<^verbatim>\<open>Fox_Prelude\<close>: widths of the C integers, mask idioms, the word lemmas the rest shares.
  \<^item> \<^verbatim>\<open>Bitmap\<close>: the masks, slot sets and packed fields of \<^verbatim>\<open>MemHeaders/BitmapMacros.hpp\<close>; its laws are the
    locale \<^verbatim>\<open>packed_field\<close>, interpreted on the packed word of an order in \<^verbatim>\<open>Order_Model\<close>.
  \<^item> \<^verbatim>\<open>Fixed_Core\<close>, \<^verbatim>\<open>Money_Ops\<close>, \<^verbatim>\<open>Binary64\<close>, \<^verbatim>\<open>Money_Text\<close>: the 128- and 256-bit kernel, base-10 money with its
    overflow flags, the bridges to \<^verbatim>\<open>double\<close> and the decimal scanner and printer of
    \<^verbatim>\<open>FixedPoint/FixedPointN.hpp\<close>.  A payload is a 128-bit word read as a signed integer; every operation
    is total and its value is stated on integers, saturation and flag included.
  \<^item> \<^verbatim>\<open>Fixed_Binary\<close>, \<^verbatim>\<open>Rolling_Stats\<close>, \<^verbatim>\<open>Rolling_Window\<close>: the binary fixed point of the same header, and on it the
    sliding price and volume statistics of \<^verbatim>\<open>ML_Headers/RollingStats.hpp\<close>, whose deques are an
    instance of the locale \<^verbatim>\<open>eviction_order\<close>.
  \<^item> \<^verbatim>\<open>Regression_Feeder\<close>, \<^verbatim>\<open>Strategy_State\<close>: the eight-sample regressions of \<^verbatim>\<open>ML_Headers/\<close> and the state the
    strategies of \<^verbatim>\<open>Strategies/\<close> keep and adapt.  \<^verbatim>\<open>Strategy_Ratchet\<close>: the trailing stops they write, with the locale
    \<^verbatim>\<open>ratchet_pass\<close> of a pass over the slots of a node, interpreted on the strategies' pass, the generic one and the breakeven pass.
  \<^item> \<^verbatim>\<open>Strategy_Params\<close>: the packs the strategies build from these statistics and the gates every pack then
    passes (\<^verbatim>\<open>Strategies/StrategyParameters.hpp\<close>, \<^verbatim>\<open>ML_Headers/CostModel.hpp\<close>, \<^verbatim>\<open>ML_Headers/VolScaler.hpp\<close>): an
    emitted pack is in range, brackets its entry, fits its allocation, and is blocked exactly when a reason is given.
  \<^item> \<^verbatim>\<open>Spsc_Ring\<close>, \<^verbatim>\<open>Param_Slot\<close>: the single-producer ring and the sequence-locked slot of
    \<^verbatim>\<open>CoreFrameworks/\<close>, first as calls on a state (the ring interprets the locale \<^verbatim>\<open>bounded_fifo\<close> as \<^verbatim>\<open>ring\<close>), then
    as two threads whose single accesses interleave in any order.
  \<^item> \<^verbatim>\<open>Gate_Params\<close>, \<^verbatim>\<open>Execution_Core\<close>, \<^verbatim>\<open>Execution_Runs\<close>: parameter packs, the branchless gates, the tick kernel
    of \<^verbatim>\<open>CoreFrameworks/ExecutionCore.hpp\<close> with its two compiled leg B paths, and the runs of a core with
    its controller.
  \<^item> \<^verbatim>\<open>Portfolio_Model\<close>: slots, legs, fee apportioning and the exit gate of \<^verbatim>\<open>CoreFrameworks/Portfolio.hpp\<close>.
  \<^item> \<^verbatim>\<open>Order_Model\<close>, \<^verbatim>\<open>Order_Manager\<close>, \<^verbatim>\<open>Order_Fills\<close>: the order record of \<^verbatim>\<open>CoreFrameworks/Order.hpp\<close> and the
    order manager of \<^verbatim>\<open>CoreFrameworks/OrderManager.hpp\<close>: the state record, submission, fill and result
    handlers, the tick.  \<^verbatim>\<open>Order_Table\<close>, \<^verbatim>\<open>Order_Calls\<close>, \<^verbatim>\<open>Order_Paper\<close>: the in-flight table invariant, the step
    relation of the entry points, and a paper order from submission to position.
  \<^item> \<^verbatim>\<open>Event_Log\<close>, \<^verbatim>\<open>Event_Log_Async\<close>: \<^verbatim>\<open>CoreFrameworks/OrderEventLog.hpp\<close>, its disk image, its loader, its
    replay and its asynchronous writer.  \<^verbatim>\<open>Order_Replay\<close>, \<^verbatim>\<open>Order_Boot\<close>: replay against the live ledger, and
    boot, paper reset and the persisted block of \<^verbatim>\<open>MemHeaders/OmsFieldRegistry.hpp\<close>.
  \<^item> \<^verbatim>\<open>Engine_State\<close>, \<^verbatim>\<open>Composer\<close>: the engine of \<^verbatim>\<open>CoreFrameworks/ControllerEventLoop.hpp\<close> as a record that
    extends the order manager's, and the composer and the drain of \<^verbatim>\<open>CoreFrameworks/EngineCommon.hpp\<close>.
    \<^verbatim>\<open>Engine_Frame\<close> to \<^verbatim>\<open>Engine_Orders\<close> hold the engine's lemmas by subject: what each call leaves alone
    (\<^verbatim>\<open>Engine_Frame\<close>, \<^verbatim>\<open>Engine_Runs\<close>), the fill rings (\<^verbatim>\<open>Engine_Fills\<close>, \<^verbatim>\<open>Engine_Books\<close>), the kill switch
    (\<^verbatim>\<open>Engine_Kill\<close>, \<^verbatim>\<open>Engine_Safety\<close>, \<^verbatim>\<open>Engine_Halt\<close>), the limits, the ledger, the published view and the
    entry pair.
  \<^item> \<^verbatim>\<open>Order_Phased\<close>, \<^verbatim>\<open>Sink_Invariant\<close>: the phased drain of \<^verbatim>\<open>MemHeaders/OmsPhasedDrain.hpp\<close> and the invariants the
    drains carry.
  \<^item> \<^verbatim>\<open>Engine_Exits\<close>, \<^verbatim>\<open>Engine_Flatten\<close>, \<^verbatim>\<open>Engine_Manual\<close>: the exits that do not come from a core: time exit, emergency
    flatten, staleness check and recovery, breakeven ratchet, the permission after warm-up
    (\<^verbatim>\<open>ControllerEventLoop.hpp\<close>, \<^verbatim>\<open>EngineCommon.hpp\<close>), and the manual closes of \<^verbatim>\<open>EngineSharded/SlowPath.hpp\<close>.
  \<^item> \<^verbatim>\<open>Order_Reconcile\<close>, \<^verbatim>\<open>Engine_Reconcile\<close>: \<^verbatim>\<open>CoreFrameworks/Reconcile.hpp\<close> (missed fills, trade watermark, stale
    orders, the decision to boot) and the pass of \<^verbatim>\<open>CoreFrameworks/ReconciliationLoop.hpp\<close>.
  \<^item> \<^verbatim>\<open>Engine_Boot\<close>, \<^verbatim>\<open>Engine_Reset\<close>: the node registry of \<^verbatim>\<open>MemHeaders/NodeCtxInitRegistry.hpp\<close>, the rows rebuilt from
    the event log, the global and per-core boot and the paper reset of \<^verbatim>\<open>EngineSharded/Async.hpp\<close>.
    \<^verbatim>\<open>Order_Witness\<close>, \<^verbatim>\<open>Engine_Witness\<close> and \<^verbatim>\<open>Engine_Demos\<close> apply the properties to concrete states.

  \<^bold>\<open>State and effects.\<close>  A C++ struct is a record, a reference argument that is written is returned
  updated, a function that also reports a result returns a pair.  Integers keep their width as words
  (\<^verbatim>\<open>unat\<close> and \<^verbatim>\<open>sint\<close> read them), except \<^verbatim>\<open>int\<close> indices and counters, which are HOL integers.  A pointer
  that may be null is an option; a callback is a function in the environment record of the component
  that calls it (\<^verbatim>\<open>oms_env\<close>), and so are the wall clock and the outcome of each file operation.

  \<^bold>\<open>Interfaces.\<close>  The order manager is proved against any sink: \<^verbatim>\<open>fill_sink\<close> says a sink leaves the table
  alone, \<^verbatim>\<open>ledger_sink\<close> and \<^verbatim>\<open>quiet_sink\<close> add the ledger and the queues, and \<^verbatim>\<open>sink_invariant\<close> carries an invariant
  of the surrounding state through every call of the manager.  \<^verbatim>\<open>fill_sink\<close>, \<^verbatim>\<open>ledger_sink\<close> and \<^verbatim>\<open>quiet_sink\<close>
  are interpreted on the direct sink of the source (\<^verbatim>\<open>direct\<close>), \<^verbatim>\<open>quiet_sink\<close> and \<^verbatim>\<open>sink_invariant\<close> on the
  engine's ring sink (\<^verbatim>\<open>engine\<close>, \<^verbatim>\<open>outer\<close>), which is how the manager's invariants become the engine's.

  \<^bold>\<open>What the groups of lemmas show.\<close>
  \<^item> Money: each operation's exact value with half-even rounding, saturation and flags; text and binary
    round trips.
  \<^item> Statistics: the incremental window is the window: its extremes, its sums and its least-squares slope
    are those of the last samples, whatever came before.
  \<^item> Concurrency: no interleaving of a producer and a consumer loses, duplicates or reorders an item or
    races on a slot; no reader of a parameter slot returns a torn payload; the asynchronous log ends as
    the synchronous one; the events a core queues follow its leg flags under every interleaving with
    its controller.
  \<^item> Orders: the in-flight table stays well formed along any sequence of calls, a final result counts
    once, a tick returns, a paper order becomes the position asked for.
  \<^item> Recovery: replaying the log rebuilds balance, realised profit and book, also after a crash, and gives
    every node row its share of the realised profit; a missed trade is replayed exactly once; a paper reset
    restarts account and rows together.
  \<^item> Exits: a flatten queues one sell for every open position that has room and reports the shortfall, a stale
    feed flattens once per recovery window, a manual request is consumed exactly once, and the
    phased drain sorts without loss up to the size of its buckets.
  \<^item> Engine: fills are applied whole and in order and none is lost to a full ring, node rows sum to the
    account, limits hold or the switch is tripped after every compose, a fatal request halts the engine
    for good, and the published view is the composed state.

  \<^bold>\<open>Bounds and fuel.\<close>  Capacities are those of the source: 16 nodes, 16 slots, 16 in-flight orders, and
  the power-of-two sizes of the rings.  The restoring division runs its 128 steps by structural
  recursion.  The drains of the tick take fuel; \<^verbatim>\<open>OrderManager_Tick_returns\<close> shows that one more than the
  number of queued results is enough.  The bounded push is a recursion over the clock readings, and
  \<^verbatim>\<open>TryPushBounded_returns\<close> shows that it ends.  The fill drains are bounded by the items of a ring.
  Windows of statistics hold at most 1024 samples; their sums are proved for prices and volumes below
  \<open>2 ^ 21\<close>, where nothing saturates.
  Sums of money in the ledger theorems carry explicit room hypotheses (no saturation); the witnesses
  instantiate them.

  \<^bold>\<open>Not modelled.\<close>  The graphical and text interfaces (\<^verbatim>\<open>GUI/\<close>, \<^verbatim>\<open>DataStream/EngineTUI.hpp\<close>,
  \<^verbatim>\<open>Backtest/BacktestPanels.hpp\<close>), the venue connections, TLS and JSON (\<^verbatim>\<open>DataStream/\<close>, the Binance adapter),
  the learning code in floating point (\<^verbatim>\<open>ML_Headers/\<close>), the regime code of \<^verbatim>\<open>Strategies/\<close>, the
  moving-average strategy, whose state is a type of a header that is not in the repository, the backtest, the configuration
  registries and their parser, thread start-up and shutdown, the run loop that calls the modelled
  operations, the rest of the rebuild of parameter packs, the learning hooks after a fill, snapshots of nodes, the archive of a
  paper session, notifications, logging and the trade log.  The step relations of the engine leave out the
  paper reset, which lifts a kill on purpose, and the manual closes.  Within the modelled files: the calibration and
  trade-log callbacks are taken as detached, prints are dropped, the atomic bitmap macros and the
  percentiles of the latency display are left out, and only the C++ memory orders that the ring and the
  slot rely on are represented, as the order of their single accesses.
\<close>

end
